(* ===== verification/TilerPrelude.thy ===== *)
theory TilerPrelude
  imports Main "HOL-Library.Multiset"
begin

text \<open>
  Shared vocabulary of the development: the Rust machine integers, the \<open>?\<close> operator on
  results, and the list facts the components use.

  An \<open>i32\<close> or \<open>i64\<close> value is an \<^typ>\<open>int\<close> and a \<open>u64\<close> or
  \<open>usize\<close> value a \<^typ>\<open>nat\<close>; the width is written out at each operation the
  code performs: \<open>checked_add\<close>, \<open>checked_mul\<close>, \<open>try_from\<close> and
  \<open>saturating_add\<close> are the definitions below, and every range hypothesis is
  \<open>in_i32\<close> or \<open>in_i64\<close>.
\<close>

named_theorems range_defs \<open>the machine-integer ranges and the checked operations on them\<close>

subsection \<open>Machine integers\<close>

definition in_i32 :: "int \<Rightarrow> bool" where
  [range_defs]: "in_i32 v \<longleftrightarrow> - 2147483648 \<le> v \<and> v \<le> 2147483647"

definition in_i64 :: "int \<Rightarrow> bool" where
  [range_defs]: "in_i64 v \<longleftrightarrow> - 9223372036854775808 \<le> v \<and> v \<le> 9223372036854775807"

abbreviation i32_max :: int where
  "i32_max \<equiv> 2147483647"

abbreviation i64_max :: int where
  "i64_max \<equiv> 9223372036854775807"

abbreviation i64_min :: int where
  "i64_min \<equiv> - 9223372036854775808"

definition u64_max :: nat where
  "u64_max = 18446744073709551615"

definition try_i32 :: "int \<Rightarrow> int option" where
  [range_defs]: "try_i32 v = (if in_i32 v then Some v else None)"

definition try_i64 :: "int \<Rightarrow> int option" where
  [range_defs]: "try_i64 v = (if in_i64 v then Some v else None)"

definition checked_add_i32 :: "int \<Rightarrow> int \<Rightarrow> int option" where
  [range_defs]: "checked_add_i32 a b = try_i32 (a + b)"

definition checked_sub_i32 :: "int \<Rightarrow> int \<Rightarrow> int option" where
  [range_defs]: "checked_sub_i32 a b = try_i32 (a - b)"

definition checked_add_i64 :: "int \<Rightarrow> int \<Rightarrow> int option" where
  [range_defs]: "checked_add_i64 a b = try_i64 (a + b)"

definition checked_sub_i64 :: "int \<Rightarrow> int \<Rightarrow> int option" where
  [range_defs]: "checked_sub_i64 a b = try_i64 (a - b)"

definition checked_mul_i64 :: "int \<Rightarrow> int \<Rightarrow> int option" where
  [range_defs]: "checked_mul_i64 a b = try_i64 (a * b)"

definition saturating_i64 :: "int \<Rightarrow> int" where
  [range_defs]: "saturating_i64 v = max i64_min (min i64_max v)"

definition saturating_add_i64 :: "int \<Rightarrow> int \<Rightarrow> int" where
  [range_defs]: "saturating_add_i64 a b = saturating_i64 (a + b)"

definition saturating_mul_i64 :: "int \<Rightarrow> int \<Rightarrow> int" where
  [range_defs]: "saturating_mul_i64 a b = saturating_i64 (a * b)"

definition checked_add_u64 :: "nat \<Rightarrow> nat \<Rightarrow> nat option" where
  "checked_add_u64 a b = (if a + b \<le> u64_max then Some (a + b) else None)"

definition checked_sub_u64 :: "nat \<Rightarrow> nat \<Rightarrow> nat option" where
  "checked_sub_u64 a b = (if b \<le> a then Some (a - b) else None)"

definition checked_mul_u64 :: "nat \<Rightarrow> nat \<Rightarrow> nat option" where
  "checked_mul_u64 a b = (if a * b \<le> u64_max then Some (a * b) else None)"

text \<open>Rust's \<open>/\<close> on signed integers truncates towards zero.\<close>

definition rust_div :: "int \<Rightarrow> int \<Rightarrow> int" where
  "rust_div a b = sgn a * sgn b * (\<bar>a\<bar> div \<bar>b\<bar>)"

lemma rust_div_nonneg: "0 \<le> a \<Longrightarrow> 0 < b \<Longrightarrow> rust_div a b = a div b"
  by (cases "a = 0") (auto simp: rust_div_def sgn_if)

text \<open>
  The share-total loop that every topology check repeats,
  \<open>for share in shares { total = total.checked_add(*share)?; }\<close>.
\<close>

fun checked_total :: "nat \<Rightarrow> nat list \<Rightarrow> nat option" where
  "checked_total acc [] = Some acc"
| "checked_total acc (s # ss) =
     (case checked_add_u64 acc s of None \<Rightarrow> None | Some t \<Rightarrow> checked_total t ss)"

declare checked_add_u64_def [simp] checked_sub_u64_def [simp] checked_mul_u64_def [simp]

lemma checked_total_Some_iff:
  "t \<le> u64_max \<Longrightarrow>
    checked_total t ss = Some r \<longleftrightarrow> r = t + sum_list ss \<and> t + sum_list ss \<le> u64_max"
proof (induction ss arbitrary: t)
  case Nil
  then show ?case by auto
next
  case (Cons a ss)
  then show ?case
    by (cases "t + a \<le> u64_max") (auto simp: add.assoc)
qed

lemma checked_total_0 [simp]:
  "checked_total 0 ss = (if sum_list ss \<le> u64_max then Some (sum_list ss) else None)"
  using checked_total_Some_iff [of 0 ss] by (cases "checked_total 0 ss") auto

lemma try_i32_Some [simp]: "try_i32 v = Some w \<longleftrightarrow> w = v \<and> in_i32 v"
  by (auto simp: try_i32_def)

lemma try_i32_None [simp]: "try_i32 v = None \<longleftrightarrow> \<not> in_i32 v"
  by (auto simp: try_i32_def)

lemma try_i64_Some [simp]: "try_i64 v = Some w \<longleftrightarrow> w = v \<and> in_i64 v"
  by (auto simp: try_i64_def)

lemma try_i64_None [simp]: "try_i64 v = None \<longleftrightarrow> \<not> in_i64 v"
  by (auto simp: try_i64_def)

lemma in_i32_in_i64: "in_i32 v \<Longrightarrow> in_i64 v"
  by (auto simp: range_defs)

lemma in_i32_between: "in_i32 a \<Longrightarrow> in_i32 b \<Longrightarrow> a \<le> v \<Longrightarrow> v \<le> b \<Longrightarrow> in_i32 v"
  by (auto simp: range_defs)

subsection \<open>Results\<close>

text \<open>\<open>bind_r\<close> is Rust's \<open>?\<close>: the error returns early, the value goes on.\<close>

definition bind_r :: "'e + 'a \<Rightarrow> ('a \<Rightarrow> 'e + 'b) \<Rightarrow> 'e + 'b" where
  "bind_r r k = (case r of Inl e \<Rightarrow> Inl e | Inr v \<Rightarrow> k v)"

lemma bind_r_simps [simp]: "bind_r (Inl e) k = Inl e" "bind_r (Inr v) k = k v"
  by (simp_all add: bind_r_def)

lemma bind_r_Inr_iff: "bind_r r k = Inr y \<longleftrightarrow> (\<exists>v. r = Inr v \<and> k v = Inr y)"
  by (cases r) auto

lemma bind_r_Inl_iff:
  "bind_r r k = Inl e \<longleftrightarrow> r = Inl e \<or> (\<exists>v. r = Inr v \<and> k v = Inl e)"
  by (cases r) auto

definition ok_or :: "'e \<Rightarrow> 'a option \<Rightarrow> 'e + 'a" where
  "ok_or e x = (case x of None \<Rightarrow> Inl e | Some v \<Rightarrow> Inr v)"

lemma ok_or_simps [simp]: "ok_or e None = Inl e" "ok_or e (Some v) = Inr v"
  by (simp_all add: ok_or_def)

lemma ok_or_Inr_iff [simp]: "ok_or e x = Inr v \<longleftrightarrow> x = Some v"
  by (cases x) auto

lemma ok_or_Inl_iff [simp]: "ok_or e x = Inl d \<longleftrightarrow> x = None \<and> d = e"
  by (cases x) auto

text \<open>\<open>Vec::insert\<close> and \<open>Vec::remove\<close> at an index in range.\<close>

definition insert_at :: "nat \<Rightarrow> 'a \<Rightarrow> 'a list \<Rightarrow> 'a list" where
  "insert_at i x xs = take i xs @ x # drop i xs"

definition remove_at :: "nat \<Rightarrow> 'a list \<Rightarrow> 'a list" where
  "remove_at i xs = take i xs @ drop (Suc i) xs"

text \<open>\<open>iter().position(p)\<close>: the first index whose element satisfies \<open>p\<close>.\<close>

fun position :: "('a \<Rightarrow> bool) \<Rightarrow> 'a list \<Rightarrow> nat option" where
  "position p [] = None"
| "position p (x # xs) = (if p x then Some 0 else map_option Suc (position p xs))"

lemma position_Some_iff:
  "position p xs = Some i \<longleftrightarrow> i < length xs \<and> p (xs ! i) \<and> (\<forall>j < i. \<not> p (xs ! j))"
proof (induction xs arbitrary: i)
  case Nil
  then show ?case by simp
next
  case (Cons x xs)
  show ?case
    by (cases i) (auto simp: Cons.IH less_Suc_eq_0_disj)
qed

lemma position_None_iff: "position p xs = None \<longleftrightarrow> (\<forall>x \<in> set xs. \<not> p x)"
  by (induction xs) auto

lemma insert_at_length [simp]: "length (insert_at i x xs) = Suc (length xs)"
  by (simp add: insert_at_def)

lemma set_insert_at [simp]: "set (insert_at i x xs) = insert x (set xs)"
  by (metis append_take_drop_id insert_at_def list.simps(15) set_append Un_insert_right)

lemma mset_like_sum_insert_at [simp]:
  "sum_list (insert_at i x xs) = x + sum_list (xs :: nat list)"
  by (metis add.left_commute append_take_drop_id insert_at_def sum_list.Cons sum_list.append)

lemma remove_at_length [simp]: "i < length xs \<Longrightarrow> length (remove_at i xs) = length xs - 1"
  by (simp add: remove_at_def)

lemma set_remove_at_subset: "set (remove_at i xs) \<subseteq> set xs"
  by (auto simp: remove_at_def dest: in_set_takeD in_set_dropD)

lemma nth_subset_concat: "i < length xs \<Longrightarrow> set (f (xs ! i)) \<subseteq> set (concat (map f xs))"
  by (auto intro: nth_mem)

lemma distinct_concat_member: "distinct (concat (map f xs)) \<Longrightarrow> x \<in> set xs \<Longrightarrow> distinct (f x)"
  by (induction xs) auto

lemma distinct_concat_nth:
  "distinct (concat (map f xs)) \<Longrightarrow> i < j \<Longrightarrow> j < length xs
    \<Longrightarrow> set (f (xs ! i)) \<inter> set (f (xs ! j)) = {}"
proof (induction xs arbitrary: i j)
  case Nil
  then show ?case by simp
next
  case (Cons x xs)
  then obtain k where j: "j = Suc k" "k < length xs" by (cases j) auto
  show ?case
  proof (cases i)
    case 0
    have "set (f x) \<inter> set (concat (map f xs)) = {}" using Cons.prems(1) by simp
    with 0 j nth_subset_concat [OF j(2), of f] show ?thesis by auto
  next
    case (Suc m)
    with Cons j show ?thesis by simp
  qed
qed

lemma distinct_concat_nth_neq:
  "distinct (concat (map f xs)) \<Longrightarrow> i < length xs \<Longrightarrow> j < length xs \<Longrightarrow> i \<noteq> j
    \<Longrightarrow> set (f (xs ! i)) \<inter> set (f (xs ! j)) = {}"
  using distinct_concat_nth [of f xs i j] distinct_concat_nth [of f xs j i] by (cases "i < j") auto

lemma nth_pos: "0 \<notin> set xs \<Longrightarrow> i < length xs \<Longrightarrow> 0 < (xs ! i :: nat)"
  by (metis gr0I nth_mem)

lemma find_SomeD: "find P xs = Some x \<Longrightarrow> x \<in> set xs \<and> P x"
  by (auto simp: find_Some_iff)

end
