(* ===== verification/Topology.thy ===== *)
theory Topology
  imports TilerPrelude
begin

text \<open>
  The directional topology of \<open>tiler-core/src/directional.rs\<close>: directions, axes, the
  ordered N-ary tree \<open>Node\<close>, outputs, window links and snapshots, the root-to-leaf path
  search, and the tree validators. \<open>wf_node\<close> is the declarative well-formedness that
  the validators of the code decide.
\<close>

subsection \<open>Directions and axes\<close>

datatype direction = Left | Right | Up | Down

datatype axis = Horizontal | Vertical

fun axis_for_direction :: "direction \<Rightarrow> axis" where
  "axis_for_direction Left = Horizontal"
| "axis_for_direction Right = Horizontal"
| "axis_for_direction Up = Vertical"
| "axis_for_direction Down = Vertical"

fun step_for :: "direction \<Rightarrow> int" where
  "step_for Right = 1"
| "step_for Down = 1"
| "step_for Left = - 1"
| "step_for Up = - 1"

fun opposite_direction :: "direction \<Rightarrow> direction" where
  "opposite_direction Left = Right"
| "opposite_direction Right = Left"
| "opposite_direction Up = Down"
| "opposite_direction Down = Up"

lemma opposite_direction_involution [simp]: "opposite_direction (opposite_direction d) = d"
  by (cases d) auto

lemma step_for_cases: "step_for d = 1 \<or> step_for d = - 1"
  by (cases d) auto

subsection \<open>Identities, nodes, outputs, links\<close>

text \<open>The opaque identities are newtypes over \<open>String\<close>.\<close>

type_synonym node_id = string
type_synonym output_id = string
type_synonym workspace_id = string
type_synonym window_id = string

datatype node = Leaf node_id | Group node_id axis "node list" "nat list"

fun ident :: "node \<Rightarrow> node_id" where
  "ident (Leaf i) = i"
| "ident (Group i a cs sh) = i"

fun is_leaf :: "node \<Rightarrow> bool" where
  "is_leaf (Leaf i) = True"
| "is_leaf (Group i a cs sh) = False"

record out_topology =
  out_id :: output_id
  out_workspace :: workspace_id
  out_tree :: "node option"
  out_adjacent :: "direction \<Rightarrow> output_id option"

record window_link =
  link_window :: window_id
  link_leaf :: node_id
  link_output :: output_id
  link_workspace :: workspace_id

record snapshot =
  snap_outputs :: "out_topology list"
  snap_windows :: "window_link list"

text \<open>
  \<open>adjacent\<close> is a \<open>BTreeMap\<close> over the four directions, iterated in the derived
  order of \<open>Direction\<close>.
\<close>

definition all_directions :: "direction list" where
  "all_directions = [Left, Right, Up, Down]"

definition adjacent_values :: "(direction \<Rightarrow> output_id option) \<Rightarrow> output_id list" where
  "adjacent_values adj = List.map_filter adj all_directions"

lemma set_all_directions [simp]: "set all_directions = UNIV"
proof -
  have "d \<in> set all_directions" for d
    by (cases d) (simp_all add: all_directions_def)
  then show ?thesis by auto
qed

lemma in_adjacent_values [simp]: "x \<in> set (adjacent_values adj) \<longleftrightarrow> (\<exists>d. adj d = Some x)"
  unfolding adjacent_values_def List.map_filter_def by (force intro: rev_image_eqI)

subsection \<open>Leaves, identities, well-formedness\<close>

fun leaves :: "node \<Rightarrow> node_id list" where
  "leaves (Leaf i) = [i]"
| "leaves (Group i a cs sh) = concat (map leaves cs)"

fun node_ids :: "node \<Rightarrow> node_id list" where
  "node_ids (Leaf i) = [i]"
| "node_ids (Group i a cs sh) = i # concat (map node_ids cs)"

fun group_ids :: "node \<Rightarrow> node_id list" where
  "group_ids (Leaf i) = []"
| "group_ids (Group i a cs sh) = i # concat (map group_ids cs)"

definition group_ok :: "node list \<Rightarrow> nat list \<Rightarrow> bool" where
  "group_ok cs sh \<longleftrightarrow>
     2 \<le> length cs \<and> length sh = length cs \<and> 0 \<notin> set sh \<and> sum_list sh \<le> u64_max"

fun wf_groups :: "node \<Rightarrow> bool" where
  "wf_groups (Leaf i) = True"
| "wf_groups (Group i a cs sh) = (group_ok cs sh \<and> (\<forall>c \<in> set cs. wf_groups c))"

definition wf_node :: "node \<Rightarrow> bool" where
  "wf_node t \<longleftrightarrow> wf_groups t \<and> distinct (node_ids t) \<and> [] \<notin> set (node_ids t)"

lemma ident_in_node_ids [simp]: "ident t \<in> set (node_ids t)"
  by (cases t) auto

lemma leaves_subset_node_ids: "set (leaves t) \<subseteq> set (node_ids t)"
  by (induction t) auto

lemma group_ids_subset_node_ids: "set (group_ids t) \<subseteq> set (node_ids t)"
  by (induction t) auto

lemma node_ids_leaves_groups: "set (node_ids t) = set (leaves t) \<union> set (group_ids t)"
  by (induction t) auto

lemma mset_node_ids: "mset (node_ids t) = mset (leaves t) + mset (group_ids t)"
proof (induction t)
  case (Leaf i)
  then show ?case by simp
next
  case (Group i a cs sh)
  then have "mset (concat (map node_ids cs)) =
      mset (concat (map leaves cs)) + mset (concat (map group_ids cs))"
    by (induction cs) auto
  then show ?case by simp
qed

lemma distinct_node_ids:
  "distinct (node_ids t) \<longleftrightarrow>
     distinct (leaves t) \<and> distinct (group_ids t) \<and> set (leaves t) \<inter> set (group_ids t) = {}"
  using mset_eq_imp_distinct_iff [of "node_ids t" "leaves t @ group_ids t"] mset_node_ids [of t]
  by simp

lemma leaves_nonempty: "wf_groups t \<Longrightarrow> leaves t \<noteq> []"
proof (induction t)
  case (Leaf i)
  then show ?case by simp
next
  case (Group i a cs sh)
  then obtain c cs' where "cs = c # cs'" by (cases cs) (auto simp: group_ok_def)
  with Group show ?case by auto
qed

lemma group_ok_pos: "group_ok cs sh \<Longrightarrow> 0 < sum_list sh"
  by (cases sh) (auto simp: group_ok_def)

lemma group_ok_pos_share: "group_ok cs sh \<Longrightarrow> \<exists>n \<in> set sh. 0 < n"
  by (cases sh) (auto simp: group_ok_def)

subsection \<open>The boolean tree checker\<close>

text \<open>
  \<open>check_focus_node\<close> threads the set of seen identities through the tree; \<open>None\<close> is
  the code's \<open>false\<close> and \<open>Some seen\<close> its \<open>true\<close> with the set as it is then.
  \<open>validate_resize_tree\<close> and the session's \<open>validate_node_shares\<close> have the same
  body.
\<close>

fun check_focus_node :: "node \<Rightarrow> node_id set \<Rightarrow> node_id set option"
  and check_focus_children :: "node list \<Rightarrow> node_id set \<Rightarrow> node_id set option" where
  "check_focus_node (Leaf i) seen =
     (if i = [] \<or> i \<in> seen then None else Some (insert i seen))"
| "check_focus_node (Group i a cs sh) seen =
     (if i = [] \<or> i \<in> seen then None
      else if length cs < 2 \<or> length sh \<noteq> length cs then None
      else if 0 \<in> set sh then None
      else (case checked_total 0 sh of
              None \<Rightarrow> None
            | Some acc \<Rightarrow>
                if acc = 0 then None else check_focus_children cs (insert i seen)))"
| "check_focus_children [] seen = Some seen"
| "check_focus_children (c # cs) seen =
     (case check_focus_node c seen of
        None \<Rightarrow> None
      | Some seen' \<Rightarrow> check_focus_children cs seen')"

definition validate_resize_tree :: "node \<Rightarrow> node_id set \<Rightarrow> node_id set option" where
  "validate_resize_tree = check_focus_node"

definition validate_node_shares :: "node \<Rightarrow> node_id set \<Rightarrow> node_id set option" where
  "validate_node_shares = check_focus_node"

definition ids_fresh :: "node_id list \<Rightarrow> node_id set \<Rightarrow> bool" where
  "ids_fresh ids seen \<longleftrightarrow> distinct ids \<and> [] \<notin> set ids \<and> set ids \<inter> seen = {}"

lemma ids_fresh_Nil [simp]: "ids_fresh [] seen"
  by (simp add: ids_fresh_def)

lemma ids_fresh_Cons [simp]:
  "ids_fresh (i # ids) seen \<longleftrightarrow> i \<noteq> [] \<and> i \<notin> seen \<and> ids_fresh ids (insert i seen)"
  by (auto simp: ids_fresh_def)

lemma ids_fresh_append [simp]:
  "ids_fresh (xs @ ys) seen \<longleftrightarrow> ids_fresh xs seen \<and> ids_fresh ys (seen \<union> set xs)"
  by (auto simp: ids_fresh_def)

lemma check_focus_iff:
  "check_focus_node t seen = Some r \<longleftrightarrow>
     wf_groups t \<and> ids_fresh (node_ids t) seen \<and> r = seen \<union> set (node_ids t)"
  "check_focus_children cs seen = Some r \<longleftrightarrow>
     (\<forall>c \<in> set cs. wf_groups c) \<and> ids_fresh (concat (map node_ids cs)) seen
       \<and> r = seen \<union> set (concat (map node_ids cs))"
proof (induction t seen and cs seen arbitrary: r and r
    rule: check_focus_node_check_focus_children.induct)
  case (1 i seen)
  then show ?case by auto
next
  case (2 i a cs sh seen)
  show ?case
  proof (cases "i = [] \<or> i \<in> seen \<or> \<not> group_ok cs sh")
    case True
    then show ?thesis by (auto simp: group_ok_def split: option.splits)
  next
    case False
    then have ok: "i \<noteq> []" "i \<notin> seen" "group_ok cs sh" by auto
    have "check_focus_node (Group i a cs sh) seen = check_focus_children cs (insert i seen)"
      using ok group_ok_pos_share [OF ok(3)] by (auto simp: group_ok_def)
    then show ?thesis
      using 2 [of "sum_list sh" r] ok group_ok_pos_share [OF ok(3)]
      by (auto simp: group_ok_def)
  qed
next
  case (3 seen)
  then show ?case by auto
next
  case (4 c cs seen)
  show ?case
  proof (cases "check_focus_node c seen")
    case None
    with 4(1) [of "seen \<union> set (node_ids c)"] show ?thesis by auto
  next
    case (Some s)
    with 4(1) [of s] have "wf_groups c" "ids_fresh (node_ids c) seen"
      and s: "s = seen \<union> set (node_ids c)" by auto
    with 4(2) [OF Some, of r] Some show ?thesis by (auto simp: Un_assoc)
  qed
qed

lemma check_focus_wf: "(\<exists>r. check_focus_node t {} = Some r) \<longleftrightarrow> wf_node t"
  by (auto simp: check_focus_iff wf_node_def ids_fresh_def)

lemma check_focus_None: "check_focus_node t {} = None \<longleftrightarrow> \<not> wf_node t"
  using check_focus_wf [of t] by (cases "check_focus_node t {}") auto

subsection \<open>The root-to-leaf path\<close>

record path_level =
  pl_group :: node_id
  pl_axis :: axis
  pl_index :: nat
  pl_children :: "node list"

text \<open>
  \<open>find_path\<close> pushes a level after the recursive call has found the leaf, so the vector
  holds the deepest level first; nothing is pushed on failure. The second function is the
  loop over the children, \<open>k\<close> the index of the first one left and \<open>all\<close> the whole
  slice stored in the level.
\<close>

fun find_path :: "node \<Rightarrow> node_id \<Rightarrow> path_level list \<Rightarrow> path_level list option"
  and find_path_children ::
    "node_id \<Rightarrow> axis \<Rightarrow> node list \<Rightarrow> nat \<Rightarrow> node list \<Rightarrow> node_id \<Rightarrow> path_level list
      \<Rightarrow> path_level list option" where
  "find_path (Leaf i) focused path = (if i = focused then Some path else None)"
| "find_path (Group i a cs sh) focused path = find_path_children i a cs 0 cs focused path"
| "find_path_children i a all k [] focused path = None"
| "find_path_children i a all k (c # cs) focused path =
     (case find_path c focused path of
        Some path' \<Rightarrow>
          Some (path' @ [\<lparr>pl_group = i, pl_axis = a, pl_index = k, pl_children = all\<rparr>])
      | None \<Rightarrow> find_path_children i a all (Suc k) cs focused path)"

definition path_to :: "node \<Rightarrow> node_id \<Rightarrow> path_level list option" where
  "path_to t focused = map_option rev (find_path t focused [])"

text \<open>\<open>path_ok t p x\<close>: the levels \<open>p\<close>, outermost first, lead from \<open>t\<close> to the leaf \<open>x\<close>.\<close>

fun path_ok :: "node \<Rightarrow> path_level list \<Rightarrow> node_id \<Rightarrow> bool" where
  "path_ok t [] x \<longleftrightarrow> t = Leaf x"
| "path_ok t (l # ls) x \<longleftrightarrow>
     (case t of
        Leaf i \<Rightarrow> False
      | Group i a cs sh \<Rightarrow>
          i = pl_group l \<and> a = pl_axis l \<and> cs = pl_children l
            \<and> pl_index l < length cs \<and> path_ok (cs ! pl_index l) ls x)"

lemma find_path_app:
  "find_path t x path = map_option (\<lambda>p. path @ p) (find_path t x [])"
  "find_path_children i a all k cs x path =
     map_option (\<lambda>p. path @ p) (find_path_children i a all k cs x [])"
proof (induction t x path and i a all k cs x path
    rule: find_path_find_path_children.induct)
  case (4 i a all k c cs focused path)
  then show ?case by (cases "find_path c focused []") auto
qed auto

lemma find_path_ok:
  "find_path t x [] = Some p \<Longrightarrow> path_ok t (rev p) x"
  "find_path_children i a all k cs x [] = Some p \<Longrightarrow> all = pre @ cs \<Longrightarrow> k = length pre \<Longrightarrow>
     path_ok (Group i a all sh) (rev p) x"
proof (induction t x "[] :: path_level list" and i a all k cs x "[] :: path_level list"
    arbitrary: p and p pre sh rule: find_path_find_path_children.induct)
  case (4 i a all k c cs focused)
  show ?case
  proof (cases "find_path c focused []")
    case None
    with 4(3) have "find_path_children i a all (Suc k) cs focused [] = Some p" by simp
    from 4(2) [OF None this, of "pre @ [c]"] 4(4,5) show ?thesis by simp
  next
    case (Some q)
    then have "path_ok c (rev q) focused" by (rule 4(1))
    with Some 4(3-5) show ?thesis by auto
  qed
qed (auto split: if_splits)

lemma find_path_None:
  "find_path t x [] = None \<longleftrightarrow> x \<notin> set (leaves t)"
  "find_path_children i a all k cs x [] = None \<longleftrightarrow> x \<notin> set (concat (map leaves cs))"
  by (induction t x "[] :: path_level list" and i a all k cs x "[] :: path_level list"
      rule: find_path_find_path_children.induct)
    (auto split: option.splits)

lemma path_to_ok: "path_to t x = Some p \<Longrightarrow> path_ok t p x"
  unfolding path_to_def using find_path_ok(1) by fastforce

lemma path_to_None: "path_to t x = None \<longleftrightarrow> x \<notin> set (leaves t)"
  by (simp add: path_to_def find_path_None)

lemma path_ok_leaf: "path_ok t p x \<Longrightarrow> x \<in> set (leaves t)"
proof (induction t p x rule: path_ok.induct)
  case (2 t l ls x)
  then show ?case by (cases t) (auto intro!: bexI [OF _ nth_mem])
qed simp

text \<open>A path has a level for every group above the leaf, so only a root leaf has none.\<close>

lemma path_to_Nil: "path_to t x = Some [] \<longleftrightarrow> t = Leaf x"
proof
  assume "path_to t x = Some []"
  then show "t = Leaf x" using path_to_ok by fastforce
next
  assume "t = Leaf x"
  then show "path_to t x = Some []" by (simp add: path_to_def)
qed

text \<open>The subtree at the end of a prefix of the path.\<close>

fun path_node :: "node \<Rightarrow> path_level list \<Rightarrow> node" where
  "path_node t [] = t"
| "path_node (Leaf i) (l # ls) = Leaf i"
| "path_node (Group i a cs sh) (l # ls) = path_node (cs ! pl_index l) ls"

lemma path_ok_append:
  "path_ok t (p @ q) x \<Longrightarrow> path_ok (path_node t p) q x"
  by (induction t p rule: path_node.induct) auto

lemma path_ok_last_level:
  assumes "path_ok t (p @ [l]) x"
  obtains sh where "path_node t p = Group (pl_group l) (pl_axis l) (pl_children l) sh"
    and "pl_index l < length (pl_children l)" and "pl_children l ! pl_index l = Leaf x"
proof -
  from path_ok_append [OF assms] have "path_ok (path_node t p) [l] x" .
  then show thesis by (cases "path_node t p") (auto intro: that)
qed

end
