(* ===== verification/Geometry.thy ===== *)
theory Geometry
  imports Topology
begin

text \<open>
  The projector of \<open>tiler-core/src/geometry.rs\<close>: \<open>inset_bounds\<close>,
  \<open>validate_tree\<close>, \<open>proportional_base_sizes\<close>, \<open>layout_into\<close> and
  \<open>project\<close>. A \<open>ProjectionError\<close> is its message.
\<close>

subsection \<open>Rectangles\<close>

record rect =
  rx :: int
  ry :: int
  rw :: int
  rh :: int

record projected_leaf =
  pleaf :: node_id
  prect :: rect

type_synonym projection_error = string

text \<open>The fields of a \<open>Rect\<close> are \<open>i32\<close>; \<open>rect_i32\<close> is that typing.\<close>

definition rect_i32 :: "rect \<Rightarrow> bool" where
  "rect_i32 r \<longleftrightarrow> in_i32 (rx r) \<and> in_i32 (ry r) \<and> in_i32 (rw r) \<and> in_i32 (rh r)"

definition valid_rect :: "rect \<Rightarrow> bool" where
  "valid_rect r \<longleftrightarrow> rw r > 0 \<and> rh r > 0
     \<and> checked_add_i32 (rx r) (rw r) \<noteq> None \<and> checked_add_i32 (ry r) (rh r) \<noteq> None"

subsection \<open>Tree validation\<close>

fun validate_tree :: "node \<Rightarrow> node_id set \<Rightarrow> projection_error + node_id set"
  and validate_children :: "node list \<Rightarrow> node_id set \<Rightarrow> projection_error + node_id set" where
  "validate_tree (Leaf i) seen =
     (if i = [] then Inl ''node identities must be non-empty''
      else if i \<in> seen then Inl ''node identities must be unique''
      else Inr (insert i seen))"
| "validate_tree (Group i a cs sh) seen =
     (if i = [] then Inl ''node identities must be non-empty''
      else if i \<in> seen then Inl ''node identities must be unique''
      else if length cs < 2 then Inl ''groups must have at least two children''
      else if length sh \<noteq> length cs then Inl ''group shares must align exactly with children''
      else if 0 \<in> set sh then Inl ''group shares must be positive''
      else (case checked_total 0 sh of
              None \<Rightarrow> Inl ''group shares total overflows''
            | Some acc \<Rightarrow>
                if acc = 0 then Inl ''group shares must be positive''
                else validate_children cs (insert i seen)))"
| "validate_children [] seen = Inr seen"
| "validate_children (c # cs) seen =
     bind_r (validate_tree c seen) (\<lambda>seen'. validate_children cs seen')"

subsection \<open>The outer inset\<close>

definition inset_bounds :: "rect \<Rightarrow> int \<Rightarrow> projection_error + rect" where
  "inset_bounds bounds outer_gap =
     (if outer_gap < 0 then Inl ''outer gap must be non-negative''
      else bind_r (ok_or ''outer gap exhausts bounds'' (checked_mul_i64 outer_gap 2)) (\<lambda>doubled.
        if doubled \<ge> rw bounds \<or> doubled \<ge> rh bounds then Inl ''outer gap exhausts bounds''
        else
          bind_r (ok_or ''outer gap exhausts bounds'' (checked_add_i32 (rx bounds) outer_gap)) (\<lambda>x.
          bind_r (ok_or ''outer gap exhausts bounds'' (checked_add_i32 (ry bounds) outer_gap)) (\<lambda>y.
          bind_r (ok_or ''outer gap exhausts bounds'' (try_i32 (rw bounds - doubled))) (\<lambda>w.
          bind_r (ok_or ''outer gap exhausts bounds'' (try_i32 (rh bounds - doubled))) (\<lambda>h.
            let inset = \<lparr>rx = x, ry = y, rw = w, rh = h\<rparr> in
            if \<not> valid_rect inset then Inl ''outer gap exhausts bounds'' else Inr inset))))))"

subsection \<open>Proportional sizes\<close>

text \<open>Rust's \<open>as i64\<close> on an \<open>i128\<close>.\<close>

definition as_i64 :: "int \<Rightarrow> int" where
  "as_i64 v = (v + 9223372036854775808) mod 18446744073709551616 - 9223372036854775808"

text \<open>The loop over the shares; \<open>used\<close> is the running total of the sizes pushed so far.\<close>

fun base_sizes_loop :: "nat list \<Rightarrow> nat \<Rightarrow> int \<Rightarrow> int \<Rightarrow> int \<Rightarrow> int list" where
  "base_sizes_loop [] tot distributable avail used = []"
| "base_sizes_loop [s] tot distributable avail used = [avail - used]"
| "base_sizes_loop (s # ss) tot distributable avail used =
     (let proportional = as_i64 (rust_div (distributable * int s) (int tot));
          sz = proportional + 1
      in sz # base_sizes_loop ss tot distributable avail (used + sz))"

definition proportional_base_sizes :: "nat list \<Rightarrow> nat \<Rightarrow> int \<Rightarrow> int \<Rightarrow> int list" where
  "proportional_base_sizes shares tot distributable avail =
     base_sizes_loop shares tot distributable avail 0"

subsection \<open>Layout\<close>

fun axis_extent :: "axis \<Rightarrow> rect \<Rightarrow> int" where
  "axis_extent Horizontal r = rw r"
| "axis_extent Vertical r = rh r"

fun axis_origin :: "axis \<Rightarrow> rect \<Rightarrow> int" where
  "axis_origin Horizontal r = rx r"
| "axis_origin Vertical r = ry r"

fun child_rect :: "axis \<Rightarrow> rect \<Rightarrow> int \<Rightarrow> int \<Rightarrow> rect" where
  "child_rect Horizontal r off sz = \<lparr>rx = off, ry = ry r, rw = sz, rh = rh r\<rparr>"
| "child_rect Vertical r off sz = \<lparr>rx = rx r, ry = off, rw = rw r, rh = sz\<rparr>"

text \<open>
  \<open>layout_into\<close> returns the leaves it pushes; on an error \<open>project\<close> drops the output
  vector. \<open>layout_children\<close> is the loop over the zipped children and sizes.
\<close>

fun layout_into :: "node \<Rightarrow> rect \<Rightarrow> int \<Rightarrow> projection_error + projected_leaf list"
  and layout_children ::
    "node list \<Rightarrow> int list \<Rightarrow> axis \<Rightarrow> rect \<Rightarrow> int \<Rightarrow> int
      \<Rightarrow> projection_error + projected_leaf list" where
  "layout_into (Leaf i) r gap = Inr [\<lparr>pleaf = i, prect = r\<rparr>]"
| "layout_into (Group i a cs sh) r gap =
     bind_r (ok_or ''group shares total overflows'' (checked_total 0 sh)) (\<lambda>tot.
       if tot = 0 then Inl ''group shares must be positive''
       else let n = int (length cs); extent = axis_extent a r in
       bind_r (ok_or ''gap budget overflows'' (checked_mul_i64 gap (n - 1))) (\<lambda>gaps_total.
         if gaps_total > extent then Inl ''gap budget exceeds parent extent''
         else let avail = extent - gaps_total in
         if avail < n then Inl ''parent extent cannot represent positive child segments''
         else let sizes = proportional_base_sizes sh tot (avail - n) avail in
           layout_children cs sizes a r gap (axis_origin a r)))"
| "layout_children [] sizes a r gap cursor = Inr []"
| "layout_children (c # cs) [] a r gap cursor = Inr []"
| "layout_children (c # cs) (sz # sizes) a r gap cursor =
     bind_r (ok_or ''segment size overflows'' (try_i32 sz)) (\<lambda>size_i32.
       if sz < 0 then Inl ''segment size is negative''
       else bind_r (ok_or ''segment offset overflows'' (try_i32 cursor)) (\<lambda>off.
         bind_r (layout_into c (child_rect a r off size_i32) gap) (\<lambda>here.
           if cs = [] then Inr here
           else bind_r (ok_or ''segment offset overflows''
                  (Option.bind (checked_add_i64 cursor sz) (\<lambda>next. checked_add_i64 next gap)))
                (\<lambda>cursor'. bind_r (layout_children cs sizes a r gap cursor')
                  (\<lambda>rest. Inr (here @ rest))))))"

definition project :: "node \<Rightarrow> rect \<Rightarrow> int \<Rightarrow> projection_error + projected_leaf list" where
  "project tree bounds gap =
     (if \<not> valid_rect bounds then Inl ''bounds must have positive extents''
      else if gap < 0 then Inl ''gap must be non-negative''
      else bind_r (validate_tree tree {}) (\<lambda>_. layout_into tree bounds gap))"

subsection \<open>Validation decides well-formedness\<close>

lemma validate_tree_iff:
  "validate_tree t seen = Inr r \<longleftrightarrow>
     wf_groups t \<and> ids_fresh (node_ids t) seen \<and> r = seen \<union> set (node_ids t)"
  "validate_children cs seen = Inr r \<longleftrightarrow>
     (\<forall>c \<in> set cs. wf_groups c) \<and> ids_fresh (concat (map node_ids cs)) seen
       \<and> r = seen \<union> set (concat (map node_ids cs))"
proof (induction t seen and cs seen arbitrary: r and r
    rule: validate_tree_validate_children.induct)
  case (1 i seen)
  then show ?case by auto
next
  case (2 i a cs sh seen)
  show ?case
  proof (cases "i = [] \<or> i \<in> seen \<or> \<not> group_ok cs sh")
    case True
    then show ?thesis by (auto simp: group_ok_def)
  next
    case False
    then have ok: "i \<noteq> []" "i \<notin> seen" "group_ok cs sh" by auto
    have "validate_tree (Group i a cs sh) seen = validate_children cs (insert i seen)"
      using ok group_ok_pos_share [OF ok(3)] by (auto simp: group_ok_def)
    then show ?thesis
      using 2 [of "sum_list sh" r] ok group_ok_pos_share [OF ok(3)]
      by (auto simp: group_ok_def)
  qed
next
  case (3 seen)
  then show ?case by auto
next
  case (4 c cs seen)
  show ?case
  proof (cases "validate_tree c seen")
    case (Inl e)
    with 4(1) [of "seen \<union> set (node_ids c)"] show ?thesis by auto
  next
    case (Inr s)
    with 4(1) [of s] have "wf_groups c" "ids_fresh (node_ids c) seen"
      and s: "s = seen \<union> set (node_ids c)" by auto
    with 4(2) [of s r] Inr show ?thesis by (auto simp: Un_assoc)
  qed
qed

lemma validate_tree_wf: "(\<exists>r. validate_tree t {} = Inr r) \<longleftrightarrow> wf_node t"
  by (auto simp: validate_tree_iff wf_node_def ids_fresh_def)

subsection \<open>Proportional sizes: positive, and summing to the available extent\<close>

lemma as_i64_id: "in_i64 v \<Longrightarrow> as_i64 v = v"
  unfolding as_i64_def in_i64_def by (subst mod_pos_pos_trivial) auto

lemma proportional_bounds:
  assumes "0 \<le> d" "s \<le> tot" "0 < tot"
  shows "0 \<le> rust_div (d * int s) (int tot)" "rust_div (d * int s) (int tot) \<le> d"
    "int tot * rust_div (d * int s) (int tot) \<le> d * int s"
proof -
  have eq: "rust_div (d * int s) (int tot) = d * int s div int tot"
    using assms by (intro rust_div_nonneg) auto
  show "0 \<le> rust_div (d * int s) (int tot)"
    unfolding eq using assms by (simp add: pos_imp_zdiv_nonneg_iff)
  have "d * int s \<le> d * int tot"
    using assms by (intro mult_left_mono) auto
  then have "d * int s div int tot \<le> d * int tot div int tot"
    using assms by (intro zdiv_mono1) auto
  then show "rust_div (d * int s) (int tot) \<le> d"
    unfolding eq using assms by simp
  have "int tot * (d * int s div int tot) + d * int s mod int tot = d * int s"
    by (rule mult_div_mod_eq)
  moreover have "0 \<le> d * int s mod int tot"
    using assms by simp
  ultimately show "int tot * rust_div (d * int s) (int tot) \<le> d * int s"
    unfolding eq by linarith
qed

lemma base_sizes_loop_length [simp]: "length (base_sizes_loop ss tot d avail used) = length ss"
  by (induction ss tot d avail used rule: base_sizes_loop.induct) (auto simp: Let_def)

lemma base_sizes_loop_sum:
  "ss \<noteq> [] \<Longrightarrow> sum_list (base_sizes_loop ss tot d avail used) = avail - used"
  by (induction ss tot d avail used rule: base_sizes_loop.induct) (auto simp: Let_def)

lemma base_sizes_loop_pos:
  assumes "sum_list ss \<le> tot" "0 < tot" "0 \<le> d" "in_i64 d"
    and "int tot * used \<le> d * (int tot - int (sum_list ss)) + int tot * (n - int (length ss))"
    and "avail = d + n"
  shows "\<forall>v \<in> set (base_sizes_loop ss tot d avail used). 1 \<le> v"
  using assms
proof (induction ss tot d avail used rule: base_sizes_loop.induct)
  case (1 tot d avail used)
  then show ?case by simp
next
  case (2 s tot d avail used)
  have "0 \<le> d * int s" using 2 by simp
  then have "int tot * used \<le> int tot * (d + n - 1)"
    using 2(5) by (simp add: algebra_simps)
  then have "used \<le> d + n - 1" using 2 by (simp add: mult_le_cancel_left)
  then show ?case using 2(6) by simp
next
  case (3 s s' ss tot d avail used)
  let ?p = "rust_div (d * int s) (int tot)"
  note b = proportional_bounds [OF \<open>0 \<le> d\<close> _ \<open>0 < tot\<close>, of s]
  have s: "s \<le> tot" using 3(2) by simp
  have p: "0 \<le> ?p" "?p \<le> d" "int tot * ?p \<le> d * int s"
    using b [OF s] by auto
  then have id: "as_i64 ?p = ?p"
    using \<open>in_i64 d\<close> by (intro as_i64_id) (auto simp: in_i64_def)
  have "int tot * (used + (?p + 1)) \<le>
      d * (int tot - int (sum_list (s' # ss))) + int tot * (n - int (length (s' # ss)))"
    using 3(6) p(3) by (simp add: algebra_simps)
  then have "\<forall>v \<in> set (base_sizes_loop (s' # ss) tot d avail (used + (?p + 1))). 1 \<le> v"
    using 3(1) [OF refl refl] 3(2-) id by simp
  then show ?case using p(1) by (simp add: Let_def id del: base_sizes_loop.simps(2))
qed

lemma base_sizes_pos:
  assumes "group_ok cs sh" "int (length sh) \<le> avail" "in_i64 avail"
  shows "\<forall>v \<in> set (proportional_base_sizes sh (sum_list sh) (avail - int (length sh)) avail).
    1 \<le> v"
proof -
  have "in_i64 (avail - int (length sh))"
    using assms(2,3) by (auto simp: in_i64_def)
  then show ?thesis
    unfolding proportional_base_sizes_def
    using assms(2) group_ok_pos [OF assms(1)]
    by (intro base_sizes_loop_pos [where n = "int (length sh)"]) auto
qed

lemma base_sizes_sum:
  "sh \<noteq> [] \<Longrightarrow> sum_list (proportional_base_sizes sh tot d avail) = avail"
  by (simp add: proportional_base_sizes_def base_sizes_loop_sum)

lemma base_sizes_length [simp]: "length (proportional_base_sizes sh tot d avail) = length sh"
  by (simp add: proportional_base_sizes_def)

subsection \<open>What a layout is: contained, ordered, apart\<close>

definition rect_inside :: "rect \<Rightarrow> rect \<Rightarrow> bool" where
  "rect_inside q r \<longleftrightarrow> rx r \<le> rx q \<and> ry r \<le> ry q
     \<and> rx q + rw q \<le> rx r + rw r \<and> ry q + rh q \<le> ry r + rh r"

definition rect_pos :: "rect \<Rightarrow> bool" where
  "rect_pos r \<longleftrightarrow> 0 < rw r \<and> 0 < rh r"

text \<open>Two rectangles leave at least \<open>gap\<close> units between them on some axis.\<close>

definition apart :: "int \<Rightarrow> rect \<Rightarrow> rect \<Rightarrow> bool" where
  "apart gap p q \<longleftrightarrow> rx p + rw p + gap \<le> rx q \<or> rx q + rw q + gap \<le> rx p
     \<or> ry p + rh p + gap \<le> ry q \<or> ry q + rh q + gap \<le> ry p"

definition rects_overlap :: "rect \<Rightarrow> rect \<Rightarrow> bool" where
  "rects_overlap p q \<longleftrightarrow> rx p < rx q + rw q \<and> rx q < rx p + rw p
     \<and> ry p < ry q + rh q \<and> ry q < ry p + rh p"

definition layout_ok :: "int \<Rightarrow> rect \<Rightarrow> node_id list \<Rightarrow> projected_leaf list \<Rightarrow> bool" where
  "layout_ok gap r ids out \<longleftrightarrow> map pleaf out = ids
     \<and> (\<forall>l \<in> set out. rect_inside (prect l) r \<and> rect_pos (prect l))
     \<and> sorted_wrt (\<lambda>p q. apart gap (prect p) (prect q)) out"

lemma rect_inside_refl [simp]: "rect_inside r r"
  by (simp add: rect_inside_def)

lemma rect_inside_trans: "rect_inside p q \<Longrightarrow> rect_inside q r \<Longrightarrow> rect_inside p r"
  by (auto simp: rect_inside_def)

lemma apart_not_overlap: "0 \<le> gap \<Longrightarrow> apart gap p q \<Longrightarrow> \<not> rects_overlap p q"
  by (auto simp: apart_def rects_overlap_def)

lemma apart_inside:
  "apart gap p q \<Longrightarrow> rect_inside p' p \<Longrightarrow> rect_inside q' q \<Longrightarrow> apart gap p' q'"
  by (auto simp: apart_def rect_inside_def)

lemma child_rect_inside:
  "axis_origin a r \<le> off \<Longrightarrow> off + sz \<le> axis_origin a r + axis_extent a r \<Longrightarrow>
    rect_inside (child_rect a r off sz) r"
  by (cases a) (auto simp: rect_inside_def)

lemma child_rect_pos: "rect_pos r \<Longrightarrow> 0 < sz \<Longrightarrow> rect_pos (child_rect a r off sz)"
  by (cases a) (auto simp: rect_pos_def)

lemma child_rect_mono:
  "off' \<le> off \<Longrightarrow> off + sz \<le> off' + sz' \<Longrightarrow>
    rect_inside (child_rect a r off sz) (child_rect a r off' sz')"
  by (cases a) (auto simp: rect_inside_def)

lemma child_rect_apart:
  "off + sz + gap \<le> off' \<Longrightarrow> apart gap (child_rect a r off sz) (child_rect a r off' sz')"
  by (cases a) (auto simp: apart_def)

lemma child_rect_self: "child_rect a r (axis_origin a r) (axis_extent a r) = r"
  by (cases a) auto

lemma layout_ok_mono: "layout_ok gap q ids out \<Longrightarrow> rect_inside q r \<Longrightarrow> layout_ok gap r ids out"
  by (auto simp: layout_ok_def intro: rect_inside_trans)

lemma layout_ok_append:
  assumes "layout_ok gap p ids out" "layout_ok gap q ids' out'" "apart gap p q"
    and "rect_inside p r" "rect_inside q r"
  shows "layout_ok gap r (ids @ ids') (out @ out')"
  using assms
  by (auto simp: layout_ok_def sorted_wrt_append intro: rect_inside_trans apart_inside)

definition span_of :: "int \<Rightarrow> int list \<Rightarrow> int" where
  "span_of gap sizes = sum_list sizes + gap * (int (length sizes) - 1)"

lemma span_of_Cons: "ss \<noteq> [] \<Longrightarrow> span_of gap (s # ss) = s + gap + span_of gap ss"
  by (cases ss) (auto simp: span_of_def algebra_simps)

lemma span_of_single [simp]: "span_of gap [s] = s"
  by (simp add: span_of_def)

lemma span_of_pos: "ss \<noteq> [] \<Longrightarrow> 0 \<le> gap \<Longrightarrow> \<forall>v \<in> set ss. 1 \<le> v \<Longrightarrow> 1 \<le> span_of gap ss"
proof (induction ss)
  case (Cons s ss)
  then show ?case by (cases "ss = []") (auto simp: span_of_Cons)
qed simp

lemma group_layout_sizes:
  assumes "group_ok cs sh" "gap * (int (length cs) - 1) + int (length cs) \<le> ext" "in_i64 ext"
    "0 \<le> gap"
  defines "sizes \<equiv> proportional_base_sizes sh (sum_list sh)
    (ext - gap * (int (length cs) - 1) - int (length cs)) (ext - gap * (int (length cs) - 1))"
  shows "length sizes = length cs" "\<forall>v \<in> set sizes. 1 \<le> v" "span_of gap sizes = ext"
proof -
  have n: "length sh = length cs" "2 \<le> length cs" using assms(1) by (auto simp: group_ok_def)
  show "length sizes = length cs" using n by (simp add: sizes_def)
  have "0 \<le> gap * (int (length cs) - 1)"
    using n assms(4) by (intro mult_nonneg_nonneg) auto
  then have "in_i64 (ext - gap * (int (length cs) - 1))"
    using assms(2,3) by (auto simp: in_i64_def)
  then show "\<forall>v \<in> set sizes. 1 \<le> v"
    using base_sizes_pos [OF assms(1), of "ext - gap * (int (length cs) - 1)"] n assms(2)
    by (simp add: sizes_def)
  have "sh \<noteq> []" using n by auto
  then show "span_of gap sizes = ext"
    using n by (simp add: sizes_def span_of_def base_sizes_sum)
qed

declare layout_into.simps(2) [simp del] layout_children.simps [simp del]

lemma rect_i32_child: "rect_i32 r \<Longrightarrow> in_i32 off \<Longrightarrow> in_i32 sz \<Longrightarrow> rect_i32 (child_rect a r off sz)"
  by (cases a) (auto simp: rect_i32_def)

lemma rect_i32_extent: "rect_i32 r \<Longrightarrow> in_i64 (axis_extent a r)"
  by (cases a) (auto simp: rect_i32_def intro: in_i32_in_i64)

lemma layout_into_Group_eq:
  assumes "group_ok cs sh"
  shows "layout_into (Group i a cs sh) r gap =
    (let n = int (length cs); g = gap * (n - 1); ext = axis_extent a r in
     if \<not> in_i64 g then Inl ''gap budget overflows''
     else if ext < g then Inl ''gap budget exceeds parent extent''
     else if ext - g < n then Inl ''parent extent cannot represent positive child segments''
     else layout_children cs (proportional_base_sizes sh (sum_list sh) (ext - g - n) (ext - g))
       a r gap (axis_origin a r))"
proof -
  have "sum_list sh \<le> u64_max" "\<exists>n \<in> set sh. 0 < n"
    using assms group_ok_pos_share [OF assms] by (auto simp: group_ok_def)
  then show ?thesis
    by (auto simp: layout_into.simps(2) Let_def checked_mul_i64_def try_i64_def)
qed

text \<open>A successful group layout is the loop over sizes that are positive and fill the extent.\<close>

lemma layout_into_Group_Inr:
  assumes "layout_into (Group i a cs sh) r gap = Inr out"
    and "group_ok cs sh" "rect_i32 r" "0 \<le> gap"
  obtains sizes where "layout_children cs sizes a r gap (axis_origin a r) = Inr out"
    and "length sizes = length cs" "\<forall>v \<in> set sizes. 1 \<le> v"
    and "span_of gap sizes = axis_extent a r"
proof -
  let ?g = "gap * (int (length cs) - 1)"
  have fits: "?g + int (length cs) \<le> axis_extent a r"
    and kids: "layout_children cs (proportional_base_sizes sh (sum_list sh)
      (axis_extent a r - ?g - int (length cs)) (axis_extent a r - ?g)) a r gap (axis_origin a r)
      = Inr out"
    using assms(1) unfolding layout_into_Group_eq [OF assms(2)] Let_def
    by (simp_all split: if_splits)
  from group_layout_sizes [OF assms(2) fits rect_i32_extent [OF assms(3)] assms(4)] kids
  show thesis by (rule that [rotated])
qed

lemma layout_children_Cons_Inr:
  assumes "layout_children (c # cs) (s # ss) a r gap cursor = Inr out"
  obtains here rest where "in_i32 s" "0 \<le> s" "in_i32 cursor"
    and "layout_into c (child_rect a r cursor s) gap = Inr here" and "out = here @ rest"
    and "cs = [] \<longrightarrow> rest = []"
    and "cs \<noteq> [] \<longrightarrow> layout_children cs ss a r gap (cursor + s + gap) = Inr rest"
proof (cases "cs = []")
  case True
  with assms show thesis
    by (intro that [of out "[]"]) (auto simp: layout_children.simps bind_r_Inr_iff split: if_splits)
next
  case False
  with assms show thesis
    by (auto simp: layout_children.simps bind_r_Inr_iff checked_add_i64_def
        bind_eq_Some_conv split: if_splits intro: that)
qed

lemma layout_children_ok:
  assumes "layout_children cs sizes a r gap cursor = Inr out"
    and "cs \<noteq> []" "length sizes = length cs" "\<forall>v \<in> set sizes. 1 \<le> v"
    and "rect_pos r" "rect_i32 r" "0 \<le> gap"
    and "\<And>c q o'. c \<in> set cs \<Longrightarrow> layout_into c q gap = Inr o' \<Longrightarrow> rect_pos q \<Longrightarrow>
      rect_i32 q \<Longrightarrow> layout_ok gap q (leaves c) o'"
  shows "layout_ok gap (child_rect a r cursor (span_of gap sizes)) (concat (map leaves cs)) out"
  using assms
proof (induction cs arbitrary: sizes cursor out)
  case Nil
  then show ?case by simp
next
  case (Cons c cs)
  from Cons.prems(3) obtain s ss where sizes: "sizes = s # ss" by (cases sizes) auto
  from Cons.prems(1) [unfolded sizes] obtain here rest where
    i32: "in_i32 s" "0 \<le> s" "in_i32 cursor"
    and here: "layout_into c (child_rect a r cursor s) gap = Inr here" and out: "out = here @ rest"
    and nil: "cs = [] \<longrightarrow> rest = []"
    and rest: "cs \<noteq> [] \<longrightarrow> layout_children cs ss a r gap (cursor + s + gap) = Inr rest"
    by (rule layout_children_Cons_Inr)
  have s: "1 \<le> s" using Cons.prems(4) sizes by simp
  have ok: "layout_ok gap (child_rect a r cursor s) (leaves c) here"
    using Cons.prems(8) [OF _ here] child_rect_pos [OF Cons.prems(5), of s a cursor]
      rect_i32_child [OF Cons.prems(6) i32(3,1), of a] s by simp
  show ?case
  proof (cases "cs = []")
    case True
    with ok nil out sizes Cons.prems(3) show ?thesis by simp
  next
    case False
    with sizes Cons.prems(3) have ss: "ss \<noteq> []" "length ss = length cs" by auto
    have "layout_ok gap (child_rect a r (cursor + s + gap) (span_of gap ss))
        (concat (map leaves cs)) rest"
      using Cons.IH [OF rest [rule_format, OF False] False ss(2)] Cons.prems sizes by auto
    then show ?thesis
      unfolding out sizes span_of_Cons [OF ss(1)]
      using ok Cons.prems(7) span_of_pos [OF ss(1) Cons.prems(7)] Cons.prems(4) sizes s
      by (auto intro!: layout_ok_append child_rect_apart child_rect_mono)
  qed
qed

lemma layout_into_ok:
  "layout_into t r gap = Inr out \<Longrightarrow> wf_groups t \<Longrightarrow> rect_pos r \<Longrightarrow> rect_i32 r \<Longrightarrow> 0 \<le> gap \<Longrightarrow>
    layout_ok gap r (leaves t) out"
proof (induction t arbitrary: r out)
  case (Leaf i)
  then show ?case by (auto simp: layout_ok_def)
next
  case (Group i a cs sh)
  then have ok: "group_ok cs sh" by simp
  from layout_into_Group_Inr [OF Group.prems(1) ok Group.prems(4,5)]
  obtain sizes where sizes: "layout_children cs sizes a r gap (axis_origin a r) = Inr out"
      "length sizes = length cs" "\<forall>v \<in> set sizes. 1 \<le> v" "span_of gap sizes = axis_extent a r" .
  have "cs \<noteq> []" using ok by (auto simp: group_ok_def)
  from layout_children_ok [OF sizes(1) this sizes(2,3) Group.prems(3-5)]
  have "layout_ok gap (child_rect a r (axis_origin a r) (span_of gap sizes))
      (concat (map leaves cs)) out"
    using Group.IH Group.prems(2,5) by auto
  then show ?case by (simp add: sizes(4) child_rect_self)
qed

subsection \<open>Only the size budget can fail\<close>

definition budget_errors :: "projection_error set" where
  "budget_errors = {''gap budget overflows'', ''gap budget exceeds parent extent'',
     ''parent extent cannot represent positive child segments''}"

lemma valid_rect_child:
  assumes "valid_rect r" "rect_i32 r" "1 \<le> s" "axis_origin a r \<le> cursor"
    and "cursor + s \<le> axis_origin a r + axis_extent a r"
  shows "in_i32 s" "in_i32 cursor" "in_i32 (cursor + s)" "valid_rect (child_rect a r cursor s)"
    "rect_i32 (child_rect a r cursor s)"
  using assms
  by (cases a; simp add: valid_rect_def rect_i32_def checked_add_i32_def; auto simp: in_i32_def)+

lemma layout_children_error:
  assumes "layout_children cs sizes a r gap cursor = Inl e"
    and "length sizes = length cs" "\<forall>v \<in> set sizes. 1 \<le> v"
    and "valid_rect r" "rect_i32 r" "0 \<le> gap" "in_i32 gap"
    and "axis_origin a r \<le> cursor"
    and "cursor + span_of gap sizes \<le> axis_origin a r + axis_extent a r"
    and "\<And>c q e'. c \<in> set cs \<Longrightarrow> layout_into c q gap = Inl e' \<Longrightarrow> valid_rect q \<Longrightarrow> rect_i32 q \<Longrightarrow>
      e' \<in> budget_errors"
  shows "e \<in> budget_errors"
  using assms
proof (induction cs arbitrary: sizes cursor)
  case Nil
  then show ?case by (simp add: layout_children.simps)
next
  case (Cons c cs)
  from Cons.prems(2) obtain s ss where sizes: "sizes = s # ss" by (cases sizes) auto
  have len: "length ss = length cs" using Cons.prems(2) sizes by simp
  have span: "s \<le> span_of gap sizes" "cs \<noteq> [] \<Longrightarrow> span_of gap sizes = s + gap + span_of gap ss"
    using sizes len Cons.prems(3,6) span_of_pos [of ss gap]
    by (cases ss; auto simp: span_of_Cons)+
  have "1 \<le> s" using Cons.prems(3) sizes by simp
  note child = valid_rect_child [OF Cons.prems(4,5) this Cons.prems(8)]
  have room: "cursor + s \<le> axis_origin a r + axis_extent a r" using span(1) Cons.prems(9) by simp
  note child = child [OF room]
  have nxt: "checked_add_i64 cursor s = Some (cursor + s)"
      "checked_add_i64 (cursor + s) gap = Some (cursor + s + gap)"
    using child(3) Cons.prems(7) by (auto simp: checked_add_i64_def in_i32_def in_i64_def)
  consider (here) "layout_into c (child_rect a r cursor s) gap = Inl e"
    | (rest) "cs \<noteq> []" "layout_children cs ss a r gap (cursor + s + gap) = Inl e"
    using Cons.prems(1) \<open>1 \<le> s\<close> child(1,2) nxt sizes
    by (auto simp: layout_children.simps bind_r_Inl_iff try_i32_def split: if_splits)
  then show ?case
  proof cases
    case here
    then show ?thesis using Cons.prems(10) child(4,5) by auto
  next
    case rest
    show ?thesis
      by (rule Cons.IH [OF rest(2) len])
        (use Cons.prems sizes span(2) [OF rest(1)] \<open>1 \<le> s\<close> in auto)
  qed
qed

lemma layout_into_error:
  "layout_into t r gap = Inl e \<Longrightarrow> wf_groups t \<Longrightarrow> valid_rect r \<Longrightarrow> rect_i32 r \<Longrightarrow> 0 \<le> gap \<Longrightarrow>
    in_i32 gap \<Longrightarrow> e \<in> budget_errors"
proof (induction t arbitrary: r e)
  case (Leaf i)
  then show ?case by simp
next
  case (Group i a cs sh)
  have ok: "group_ok cs sh" using Group.prems(2) by simp
  let ?g = "gap * (int (length cs) - 1)"
  let ?sizes = "proportional_base_sizes sh (sum_list sh)
    (axis_extent a r - ?g - int (length cs)) (axis_extent a r - ?g)"
  note eq = Group.prems(1) [unfolded layout_into_Group_eq [OF ok] Let_def]
  show ?case
  proof (cases "in_i64 ?g \<and> ?g + int (length cs) \<le> axis_extent a r")
    case False
    then have "e = ''gap budget overflows'' \<or> e = ''gap budget exceeds parent extent''
        \<or> e = ''parent extent cannot represent positive child segments''"
      using eq by (simp split: if_splits)
    then show ?thesis by (simp add: budget_errors_def)
  next
    case True
    then have fits: "?g + int (length cs) \<le> axis_extent a r" by simp
    note sizes = group_layout_sizes
      [OF ok fits rect_i32_extent [OF Group.prems(4)] Group.prems(5)]
    have "0 \<le> ?g"
      using Group.prems(5) ok by (intro mult_nonneg_nonneg) (auto simp: group_ok_def)
    then have "layout_children cs ?sizes a r gap (axis_origin a r) = Inl e"
      using eq True by (simp split: if_splits)
    from layout_children_error [OF this sizes(1,2) Group.prems(3,4,5,6)]
    show ?thesis using Group.IH Group.prems(2,5,6) sizes(3) by auto
  qed
qed

subsection \<open>Without a gap the leaves cover the whole area\<close>

definition area :: "rect \<Rightarrow> int" where
  "area r = rw r * rh r"

lemma area_child: "area (child_rect a r off sz) = sz * area (child_rect a r off 1)"
  by (cases a) (auto simp: area_def)

lemma area_child_off: "area (child_rect a r off sz) = area (child_rect a r off' sz)"
  by (cases a) (auto simp: area_def)

lemma area_child_add:
  "area (child_rect a r off (s + t)) = area (child_rect a r off s) + area (child_rect a r off' t)"
  by (cases a) (auto simp: area_def algebra_simps)

lemma layout_children_area:
  assumes "layout_children cs sizes a r 0 cursor = Inr out"
    and "cs \<noteq> []" "length sizes = length cs"
    and "\<And>c q o'. c \<in> set cs \<Longrightarrow> layout_into c q 0 = Inr o' \<Longrightarrow> rect_i32 q \<Longrightarrow>
      (\<Sum>l\<leftarrow>o'. area (prect l)) = area q"
    and "rect_i32 r"
  shows "(\<Sum>l\<leftarrow>out. area (prect l)) = area (child_rect a r cursor (span_of 0 sizes))"
  using assms
proof (induction cs arbitrary: sizes cursor out)
  case Nil
  then show ?case by simp
next
  case (Cons c cs)
  from Cons.prems(3) obtain s ss where sizes: "sizes = s # ss" by (cases sizes) auto
  from Cons.prems(1) [unfolded sizes] obtain here rest where
    i32: "in_i32 s" "0 \<le> s" "in_i32 cursor"
    and here: "layout_into c (child_rect a r cursor s) 0 = Inr here" and out: "out = here @ rest"
    and nil: "cs = [] \<longrightarrow> rest = []"
    and rest: "cs \<noteq> [] \<longrightarrow> layout_children cs ss a r 0 (cursor + s + 0) = Inr rest"
    by (rule layout_children_Cons_Inr)
  have h: "(\<Sum>l\<leftarrow>here. area (prect l)) = area (child_rect a r cursor s)"
    using Cons.prems(4) [OF _ here] rect_i32_child [OF Cons.prems(5) i32(3,1)] by simp
  show ?case
  proof (cases "cs = []")
    case True
    with h nil out sizes Cons.prems(3) show ?thesis by simp
  next
    case False
    with sizes Cons.prems(3) have ss: "ss \<noteq> []" "length ss = length cs" by auto
    have "(\<Sum>l\<leftarrow>rest. area (prect l)) = area (child_rect a r (cursor + s + 0) (span_of 0 ss))"
      using Cons.IH [OF rest [rule_format, OF False] False ss(2)] Cons.prems(4,5) by auto
    then show ?thesis
      using h out area_child_add [of a r cursor s "span_of 0 ss" "cursor + s + 0"]
      by (simp add: sizes span_of_Cons [OF ss(1)])
  qed
qed

lemma layout_into_area:
  "layout_into t r 0 = Inr out \<Longrightarrow> wf_groups t \<Longrightarrow> rect_i32 r \<Longrightarrow>
    (\<Sum>l\<leftarrow>out. area (prect l)) = area r"
proof (induction t arbitrary: r out)
  case (Leaf i)
  then show ?case by auto
next
  case (Group i a cs sh)
  then have ok: "group_ok cs sh" by simp
  from layout_into_Group_Inr [OF Group.prems(1) ok Group.prems(3) order_refl]
  obtain sizes where sizes: "layout_children cs sizes a r 0 (axis_origin a r) = Inr out"
      "length sizes = length cs" "\<forall>v \<in> set sizes. 1 \<le> v" "span_of 0 sizes = axis_extent a r" .
  have "cs \<noteq> []" using ok by (auto simp: group_ok_def)
  from layout_children_area [OF sizes(1) this sizes(2)]
  have "(\<Sum>l\<leftarrow>out. area (prect l)) = area (child_rect a r (axis_origin a r) (span_of 0 sizes))"
    using Group.IH Group.prems(2,3) by auto
  then show ?case by (simp add: sizes(4) child_rect_self)
qed

subsection \<open>Properties of the projector\<close>

lemma project_Inr_iff:
  "project t b gap = Inr out \<longleftrightarrow>
     valid_rect b \<and> 0 \<le> gap \<and> wf_node t \<and> layout_into t b gap = Inr out"
  using validate_tree_wf [of t]
  by (cases "validate_tree t {}") (auto simp: project_def)

lemma wf_node_groups: "wf_node t \<Longrightarrow> wf_groups t"
  by (simp add: wf_node_def)

lemma project_layout_ok:
  "project t b gap = Inr out \<Longrightarrow> rect_i32 b \<Longrightarrow> layout_ok gap b (leaves t) out"
  by (auto simp: project_Inr_iff valid_rect_def rect_pos_def wf_node_groups intro: layout_into_ok)

definition example_tree :: node where
  "example_tree = Group ''root'' Horizontal
     [Leaf ''a'', Group ''inner'' Vertical [Leaf ''b'', Leaf ''c''] [1, 3]] [1, 1]"

definition example_bounds :: rect where
  "example_bounds = \<lparr>rx = 10, ry = 20, rw = 94, rh = 60\<rparr>"

lemmas project_eval = project_def layout_into.simps layout_children.simps Let_def range_defs
  valid_rect_def proportional_base_sizes_def rust_div_def as_i64_def u64_max_def

lemma example_project:
  "project example_tree example_bounds 8 = Inr
     [\<lparr>pleaf = ''a'', prect = \<lparr>rx = 10, ry = 20, rw = 43, rh = 60\<rparr>\<rparr>,
      \<lparr>pleaf = ''b'', prect = \<lparr>rx = 61, ry = 20, rw = 43, rh = 13\<rparr>\<rparr>,
      \<lparr>pleaf = ''c'', prect = \<lparr>rx = 61, ry = 41, rw = 43, rh = 39\<rparr>\<rparr>]"
  by (simp add: example_tree_def example_bounds_def project_eval)

lemma example_project_gapless:
  "project example_tree example_bounds 0 = Inr
     [\<lparr>pleaf = ''a'', prect = \<lparr>rx = 10, ry = 20, rw = 47, rh = 60\<rparr>\<rparr>,
      \<lparr>pleaf = ''b'', prect = \<lparr>rx = 57, ry = 20, rw = 47, rh = 15\<rparr>\<rparr>,
      \<lparr>pleaf = ''c'', prect = \<lparr>rx = 57, ry = 35, rw = 47, rh = 45\<rparr>\<rparr>]"
  by (simp add: example_tree_def example_bounds_def project_eval)

lemma example_bounds_i32: "rect_i32 example_bounds"
  by (simp add: example_bounds_def rect_i32_def in_i32_def)

lemma example_bounds_valid: "valid_rect example_bounds"
  by (simp add: example_bounds_def valid_rect_def range_defs)

lemma example_tree_wf: "wf_node example_tree"
  by (simp add: wf_node_def example_tree_def group_ok_def u64_max_def)

text \<open>
  C1. A successful projection lists every leaf of the tree once, in child order; each
  rectangle has positive extents and lies inside the bounds, and any two of them are separated
  by at least \<open>gap\<close> on one axis, so no two overlap.
\<close>

theorem project_layout:
  assumes "project t b gap = Inr out" and "rect_i32 b"
  shows "map pleaf out = leaves t \<and>
    (\<forall>l \<in> set out. rect_inside (prect l) b \<and> rect_pos (prect l)) \<and>
    (\<forall>i j. i < j \<longrightarrow> j < length out \<longrightarrow>
      apart gap (prect (out ! i)) (prect (out ! j)) \<and>
      \<not> rects_overlap (prect (out ! i)) (prect (out ! j)))"
proof -
  have "layout_ok gap b (leaves t) out" and "0 \<le> gap"
    using assms project_layout_ok by (auto simp: project_Inr_iff)
  then show ?thesis
    by (auto simp: layout_ok_def sorted_wrt_iff_nth_less apart_not_overlap)
qed

theorem project_layout_witness:
  "\<exists>out. project example_tree example_bounds 8 = Inr out \<and> map pleaf out = [''a'', ''b'', ''c'']"
  using project_layout [OF example_project example_bounds_i32] example_project by simp

text \<open>
  With well-formed bounds, gap and tree, the projector fails for the size budget alone:
  the conversions back to \<open>i32\<close> and the negative-size check never fire. A projection of
  anything else is rejected.
\<close>

theorem project_rejection:
  assumes "rect_i32 b" and "in_i32 gap"
  shows "(valid_rect b \<and> 0 \<le> gap \<and> wf_node t \<longrightarrow> project t b gap = Inl e \<longrightarrow> e \<in> budget_errors) \<and>
    (\<not> (valid_rect b \<and> 0 \<le> gap \<and> wf_node t) \<longrightarrow> (\<exists>e. project t b gap = Inl e))"
proof (intro conjI impI)
  assume wf: "valid_rect b \<and> 0 \<le> gap \<and> wf_node t" and err: "project t b gap = Inl e"
  then have "layout_into t b gap = Inl e"
    using validate_tree_wf [of t] by (cases "validate_tree t {}") (auto simp: project_def)
  then show "e \<in> budget_errors"
    using wf assms layout_into_error wf_node_groups by blast
next
  assume "\<not> (valid_rect b \<and> 0 \<le> gap \<and> wf_node t)"
  then show "\<exists>e. project t b gap = Inl e"
    by (cases "project t b gap") (auto simp: project_Inr_iff)
qed

theorem project_rejection_witness:
  "project example_tree example_bounds 79 = Inl ''gap budget exceeds parent extent''
    \<and> ''gap budget exceeds parent extent'' \<in> budget_errors"
proof -
  have err: "project example_tree example_bounds 79 =
      Inl ''gap budget exceeds parent extent''"
    by (simp add: example_tree_def example_bounds_def project_eval)
  have "in_i32 79" by (simp add: in_i32_def)
  from project_rejection [OF example_bounds_i32 this, of example_tree] err show ?thesis
    using example_bounds_valid example_tree_wf by simp
qed

text \<open>
  Without a gap the projection is exact: the areas of the leaves add up to the area of the
  bounds, so no unit of the work area is lost to rounding.
\<close>

theorem project_exact_area:
  assumes "project t b 0 = Inr out" and "rect_i32 b"
  shows "(\<Sum>l\<leftarrow>out. area (prect l)) = area b"
  using assms by (auto simp: project_Inr_iff wf_node_groups intro: layout_into_area)

theorem project_exact_area_witness:
  "area example_bounds = 47 * 60 + 47 * 15 + 47 * 45"
  using project_exact_area [OF example_project_gapless example_bounds_i32]
  by (simp add: area_def example_bounds_def)

text \<open>
  The outer inset of a valid rectangle succeeds exactly when the gap is non-negative and
  twice the gap is below both extents; it then moves the origin by the gap and shrinks both
  extents by twice the gap, and every other gap is rejected with its message.
\<close>

theorem inset_bounds_spec:
  assumes "valid_rect b" and "rect_i32 b" and "in_i32 g"
  shows "inset_bounds b g =
    (if g < 0 then Inl ''outer gap must be non-negative''
     else if rw b \<le> 2 * g \<or> rh b \<le> 2 * g then Inl ''outer gap exhausts bounds''
     else Inr \<lparr>rx = rx b + g, ry = ry b + g, rw = rw b - 2 * g, rh = rh b - 2 * g\<rparr>)"
proof -
  have m: "checked_mul_i64 g 2 = Some (2 * g)"
    using assms(3) by (auto simp: checked_mul_i64_def in_i32_def in_i64_def)
  have ok: "in_i32 (rx b + g)" "in_i32 (ry b + g)" "in_i32 (rw b - 2 * g)" "in_i32 (rh b - 2 * g)"
      "in_i32 (rx b + g + (rw b - 2 * g))" "in_i32 (ry b + g + (rh b - 2 * g))"
    if "0 \<le> g" "2 * g < rw b" "2 * g < rh b"
    using assms that by (auto simp: valid_rect_def rect_i32_def checked_add_i32_def in_i32_def)
  show ?thesis
    using m ok
    by (auto simp: inset_bounds_def checked_add_i32_def try_i32_def Let_def valid_rect_def)
qed

theorem inset_bounds_spec_witness:
  "inset_bounds example_bounds 8 = Inr \<lparr>rx = 18, ry = 28, rw = 78, rh = 44\<rparr>"
proof -
  have "in_i32 8" by (simp add: in_i32_def)
  from inset_bounds_spec [OF example_bounds_valid example_bounds_i32 this] show ?thesis
    by (simp add: example_bounds_def)
qed

end
