(* ===== verification/Movement.thy ===== *)
theory Movement
  imports Topology
begin

text \<open>
  The movement planner of \<open>tiler-core/src/directional.rs\<close>: the plan vocabulary
  (rules R1 to R4, operations, capabilities, preconditions), the snapshot validation, the local
  planner \<open>plan_local\<close>, and \<open>plan_move_with_capabilities\<close> with its capability
  gate and the cross-output continuation.
\<close>

subsection \<open>Plan vocabulary\<close>

datatype same_axis_move = GroupWithNeighbor | SwapWithNeighbor

fun same_axis_as_wire_str :: "same_axis_move \<Rightarrow> string" where
  "same_axis_as_wire_str GroupWithNeighbor = ''group-with-neighbor''"
| "same_axis_as_wire_str SwapWithNeighbor = ''swap-with-neighbor''"

definition same_axis_parse_wire :: "string \<Rightarrow> same_axis_move option" where
  "same_axis_parse_wire v =
     (if v = ''group-with-neighbor'' then Some GroupWithNeighbor
      else if v = ''swap-with-neighbor'' then Some SwapWithNeighbor
      else None)"

record move_intent =
  mi_source_output :: output_id
  mi_focused_leaf :: node_id
  mi_focused_window :: window_id
  mi_direction :: direction
  mi_same_axis_move :: same_axis_move

datatype rule = R1 | R2a | R2b | R2c | R3 | R4

datatype capability = CapSwapNeighbor | CapWrapPerpendicular | CapWrapSiblings | CapInsertChild
  | CapSplitGroupChild | CapReparentLeaf | CapCrossOutputTransfer

datatype precondition = FocusedLeafOccupiedByFocusedWindow | NeighborLeafOccupied
  | ContainerIsDirectParent | TargetGroupMembership | ParentGroupMembership
  | SourceRootMembershipAndAdjacentSameWorkspaceOutput | AdapterMustVerifyPostconditions

datatype insertion = Midpoint | NearEdge

datatype focused_side = First | Second

datatype escape_continuation = ContinueNone | ContinueR1

datatype cross_output_target = TargetEmpty | TargetOccupied

text \<open>
  The operation variants carry the source's fields in the source's order:
  \<open>WrapPerpendicular rule container axis\<close>, \<open>SwapNeighbor rule container neighbor\<close>,
  \<open>InsertIntoGroup rule container target_group insertion_index insertion\<close>,
  \<open>SplitGroupChild rule container target_group target_child target_child_index focused_side
  axis\<close>, \<open>WrapNeighbor rule container neighbor focused_before_neighbor axis\<close>,
  \<open>EscapeParent rule container parent container_child_index parent_insertion_index
  continuation\<close>, \<open>CrossOutput rule target_output target_workspace source_root_child_index
  target\<close>.
\<close>

datatype move_operation =
    WrapPerpendicular rule node_id axis
  | SwapNeighbor rule node_id node_id
  | InsertIntoGroup rule node_id node_id nat insertion
  | SplitGroupChild rule node_id node_id node_id nat focused_side axis
  | WrapNeighbor rule node_id node_id bool axis
  | EscapeParent rule node_id node_id nat "nat option" escape_continuation
  | CrossOutput rule output_id workspace_id nat cross_output_target

fun op_rule :: "move_operation \<Rightarrow> rule" where
  "op_rule (WrapPerpendicular r c a) = r"
| "op_rule (SwapNeighbor r c n) = r"
| "op_rule (InsertIntoGroup r c g k ins) = r"
| "op_rule (SplitGroupChild r c g t k sd a) = r"
| "op_rule (WrapNeighbor r c n b a) = r"
| "op_rule (EscapeParent r c p k ins cont) = r"
| "op_rule (CrossOutput r to tw k t) = r"

fun op_required_capability :: "move_operation \<Rightarrow> capability" where
  "op_required_capability (WrapPerpendicular r c a) = CapWrapPerpendicular"
| "op_required_capability (SwapNeighbor r c n) = CapSwapNeighbor"
| "op_required_capability (InsertIntoGroup r c g k ins) = CapInsertChild"
| "op_required_capability (SplitGroupChild r c g t k sd a) = CapSplitGroupChild"
| "op_required_capability (WrapNeighbor r c n b a) = CapWrapSiblings"
| "op_required_capability (EscapeParent r c p k ins cont) = CapReparentLeaf"
| "op_required_capability (CrossOutput r to tw k t) = CapCrossOutputTransfer"

fun op_own_preconditions :: "move_operation \<Rightarrow> precondition list" where
  "op_own_preconditions (WrapPerpendicular r c a) =
     [FocusedLeafOccupiedByFocusedWindow, ContainerIsDirectParent]"
| "op_own_preconditions (SwapNeighbor r c n) =
     [FocusedLeafOccupiedByFocusedWindow, NeighborLeafOccupied, ContainerIsDirectParent]"
| "op_own_preconditions (InsertIntoGroup r c g k ins) =
     [FocusedLeafOccupiedByFocusedWindow, ContainerIsDirectParent, TargetGroupMembership]"
| "op_own_preconditions (SplitGroupChild r c g t k sd a) =
     [FocusedLeafOccupiedByFocusedWindow, NeighborLeafOccupied, ContainerIsDirectParent,
      TargetGroupMembership]"
| "op_own_preconditions (WrapNeighbor r c n b a) =
     [FocusedLeafOccupiedByFocusedWindow, NeighborLeafOccupied, ContainerIsDirectParent]"
| "op_own_preconditions (EscapeParent r c p k ins cont) =
     [FocusedLeafOccupiedByFocusedWindow, ContainerIsDirectParent, ParentGroupMembership]"
| "op_own_preconditions (CrossOutput r to tw k t) =
     [FocusedLeafOccupiedByFocusedWindow, SourceRootMembershipAndAdjacentSameWorkspaceOutput]"

definition op_preconditions :: "move_operation \<Rightarrow> precondition list" where
  "op_preconditions op = op_own_preconditions op @ [AdapterMustVerifyPostconditions]"

record capabilities =
  swap_neighbor :: bool
  wrap_perpendicular :: bool
  wrap_siblings :: bool
  insert_child :: bool
  split_group_child :: bool
  reparent_leaf :: bool
  cross_output_transfer :: bool

definition capabilities_full :: capabilities where
  "capabilities_full = \<lparr>swap_neighbor = True, wrap_perpendicular = True, wrap_siblings = True,
     insert_child = True, split_group_child = True, reparent_leaf = True,
     cross_output_transfer = True\<rparr>"

definition capabilities_none :: capabilities where
  "capabilities_none = \<lparr>swap_neighbor = False, wrap_perpendicular = False, wrap_siblings = False,
     insert_child = False, split_group_child = False, reparent_leaf = False,
     cross_output_transfer = False\<rparr>"

fun supports :: "capabilities \<Rightarrow> capability \<Rightarrow> bool" where
  "supports caps CapSwapNeighbor = swap_neighbor caps"
| "supports caps CapWrapPerpendicular = wrap_perpendicular caps"
| "supports caps CapWrapSiblings = wrap_siblings caps"
| "supports caps CapInsertChild = insert_child caps"
| "supports caps CapSplitGroupChild = split_group_child caps"
| "supports caps CapReparentLeaf = reparent_leaf caps"
| "supports caps CapCrossOutputTransfer = cross_output_transfer caps"

record move_plan =
  mp_intent :: move_intent
  mp_rule :: rule
  mp_operation :: move_operation
  mp_required_capability :: capability
  mp_preconditions :: "precondition list"

definition for_operation :: "move_intent \<Rightarrow> move_operation \<Rightarrow> move_plan" where
  "for_operation intent op =
     \<lparr>mp_intent = intent, mp_rule = op_rule op, mp_operation = op,
      mp_required_capability = op_required_capability op,
      mp_preconditions = op_preconditions op\<rparr>"

datatype noop_reason = NoopBoundary | NoAdjacentOutput | SingleRootLeaf

datatype rejection_kind = MalformedTopology | UnsupportedTopology | FocusedLeafNotFound

datatype move_outcome = Planned move_plan | Noop noop_reason | Rejected rejection_kind string

text \<open>\<open>{:?}\<close> of a capability, as the gate's message prints it.\<close>

fun capability_debug :: "capability \<Rightarrow> string" where
  "capability_debug CapSwapNeighbor = ''SwapNeighbor''"
| "capability_debug CapWrapPerpendicular = ''WrapPerpendicular''"
| "capability_debug CapWrapSiblings = ''WrapSiblings''"
| "capability_debug CapInsertChild = ''InsertChild''"
| "capability_debug CapSplitGroupChild = ''SplitGroupChild''"
| "capability_debug CapReparentLeaf = ''ReparentLeaf''"
| "capability_debug CapCrossOutputTransfer = ''CrossOutputTransfer''"

subsection \<open>Snapshot validation\<close>

text \<open>
  The three maps that \<open>validate_node\<close> fills: the identities seen, the output index of
  each leaf, and whether an identity is a leaf. The hash maps are association lists with the
  last insertion first; their iteration order is never observed.
\<close>

record node_index =
  ni_ids :: "node_id set"
  ni_leaf_output :: "(node_id \<times> nat) list"
  ni_leaf_is_leaf :: "(node_id \<times> bool) list"

definition empty_index :: node_index where
  "empty_index = \<lparr>ni_ids = {}, ni_leaf_output = [], ni_leaf_is_leaf = []\<rparr>"

definition index_leaf :: "node_id \<Rightarrow> nat \<Rightarrow> node_index \<Rightarrow> node_index" where
  "index_leaf i k ix = \<lparr>ni_ids = insert i (ni_ids ix),
     ni_leaf_output = (i, k) # ni_leaf_output ix,
     ni_leaf_is_leaf = (i, True) # ni_leaf_is_leaf ix\<rparr>"

definition index_group :: "node_id \<Rightarrow> node_index \<Rightarrow> node_index" where
  "index_group i ix = \<lparr>ni_ids = insert i (ni_ids ix), ni_leaf_output = ni_leaf_output ix,
     ni_leaf_is_leaf = (i, False) # ni_leaf_is_leaf ix\<rparr>"

fun validate_node :: "node \<Rightarrow> nat \<Rightarrow> node_index \<Rightarrow> string + node_index"
  and validate_node_list :: "node list \<Rightarrow> nat \<Rightarrow> node_index \<Rightarrow> string + node_index" where
  "validate_node (Leaf i) k ix =
     (if i = [] then Inl ''node identities must be non-empty''
      else if i \<in> ni_ids ix
      then Inl ''node identities must be unique; shared or cyclic topology is unsupported''
      else Inr (index_leaf i k ix))"
| "validate_node (Group i a cs sh) k ix =
     (if i = [] then Inl ''node identities must be non-empty''
      else if i \<in> ni_ids ix
      then Inl ''node identities must be unique; shared or cyclic topology is unsupported''
      else if length cs < 2 then Inl ''groups must have at least two children''
      else if length sh \<noteq> length cs then Inl ''group shares must align exactly with children''
      else if 0 \<in> set sh then Inl ''group shares must be positive''
      else (case checked_total 0 sh of
              None \<Rightarrow> Inl ''group shares total overflows''
            | Some acc \<Rightarrow>
                if acc = 0 then Inl ''group shares must be positive''
                else validate_node_list cs k (index_group i ix)))"
| "validate_node_list [] k ix = Inr ix"
| "validate_node_list (c # cs) k ix =
     bind_r (validate_node c k ix) (\<lambda>ix'. validate_node_list cs k ix')"

text \<open>The loops of \<open>validate_snapshot\<close>, each returning the first error it meets.\<close>

fun check_output_ids :: "out_topology list \<Rightarrow> output_id set \<Rightarrow> string + unit" where
  "check_output_ids [] seen = Inr ()"
| "check_output_ids (o' # os) seen =
     (if out_id o' = [] \<or> out_id o' \<in> seen
      then Inl ''output identities must be non-empty and unique''
      else if out_workspace o' = [] then Inl ''output scope must be present''
      else check_output_ids os (insert (out_id o') seen))"

definition output_by_id :: "out_topology list \<Rightarrow> output_id \<Rightarrow> out_topology option" where
  "output_by_id os = map_of (rev (map (\<lambda>o'. (out_id o', o')) os))"

definition adjacency_bad :: "out_topology list \<Rightarrow> out_topology \<Rightarrow> bool" where
  "adjacency_bad os o' \<longleftrightarrow> list_ex
     (\<lambda>t. t = [] \<or> t = out_id o' \<or> output_by_id os t = None) (adjacent_values (out_adjacent o'))"

fun validate_output_trees :: "out_topology list \<Rightarrow> nat \<Rightarrow> node_index \<Rightarrow> string + node_index" where
  "validate_output_trees [] k ix = Inr ix"
| "validate_output_trees (o' # os) k ix =
     (case out_tree o' of
        None \<Rightarrow> validate_output_trees os (Suc k) ix
      | Some t \<Rightarrow> bind_r (validate_node t k ix) (\<lambda>ix'. validate_output_trees os (Suc k) ix'))"

fun check_links ::
  "out_topology list \<Rightarrow> node_index \<Rightarrow> window_link list \<Rightarrow> window_id set \<Rightarrow> node_id set
    \<Rightarrow> string + node_id set" where
  "check_links os ix [] seen linked = Inr linked"
| "check_links os ix (l # ls) seen linked =
     (if link_window l = [] \<or> link_leaf l = [] \<or> link_output l = []
      then Inl ''window associations must be non-empty''
      else if link_workspace l = [] then Inl ''window association workspace must be non-empty''
      else if link_window l \<in> seen
      then Inl ''window associations must reference each window at most once''
      else if link_leaf l \<in> linked
      then Inl ''window associations must reference each leaf at most once''
      else (case position (\<lambda>o'. out_id o' = link_output l) os of
              None \<Rightarrow> Inl ''window association references an unknown output''
            | Some k \<Rightarrow>
                if map_of (ni_leaf_output ix) (link_leaf l) \<noteq> Some k
                then Inl ''window association is stale or nonreciprocal: leaf link mismatch''
                else if map_of (ni_leaf_is_leaf ix) (link_leaf l) \<noteq> Some True
                then Inl ''window association targets a non-leaf node''
                else if out_workspace (os ! k) \<noteq> link_workspace l
                then Inl ''window association workspace does not match the output scope''
                else check_links os ix ls (insert (link_window l) seen)
                       (insert (link_leaf l) linked)))"

definition leaf_unlinked :: "node_index \<Rightarrow> node_id set \<Rightarrow> bool" where
  "leaf_unlinked ix linked \<longleftrightarrow> list_ex
     (\<lambda>i. map_of (ni_leaf_is_leaf ix) i = Some True \<and> i \<notin> linked) (map fst (ni_leaf_output ix))"

definition malformed :: "string + 'a \<Rightarrow> move_outcome + 'a" where
  "malformed r = (case r of Inl m \<Rightarrow> Inl (Rejected MalformedTopology m) | Inr v \<Rightarrow> Inr v)"

definition validate_snapshot :: "snapshot \<Rightarrow> move_intent \<Rightarrow> move_outcome + out_topology" where
  "validate_snapshot s intent =
     (let os = snap_outputs s in
      if os = [] then Inl (Rejected MalformedTopology ''at least one output topology is required'')
      else if mi_source_output intent = [] \<or> mi_focused_leaf intent = []
        \<or> mi_focused_window intent = []
      then Inl (Rejected MalformedTopology ''directional movement intent is malformed'')
      else bind_r (malformed (check_output_ids os {})) (\<lambda>_.
        if list_ex (adjacency_bad os) os
        then Inl (Rejected MalformedTopology
          ''output adjacency references an unknown, empty, or self output'')
        else case output_by_id os (mi_source_output intent) of
          None \<Rightarrow> Inl (Rejected MalformedTopology ''source output is not present'')
        | Some source \<Rightarrow>
            let source_index = (case position (\<lambda>o'. out_id o' = mi_source_output intent) os of
                  None \<Rightarrow> 0 | Some k \<Rightarrow> k) in
            bind_r (malformed (validate_output_trees os 0 empty_index)) (\<lambda>ix.
            bind_r (malformed (check_links os ix (snap_windows s) {} {})) (\<lambda>linked.
            if leaf_unlinked ix linked
            then Inl (Rejected MalformedTopology
              ''every leaf requires exactly one window association'')
            else if \<not> list_ex (\<lambda>l. link_window l = mi_focused_window intent
                \<and> link_leaf l = mi_focused_leaf intent) (snap_windows s)
            then (if map_of (ni_leaf_output ix) (mi_focused_leaf intent) \<noteq> Some source_index
                  then Inl (Rejected FocusedLeafNotFound
                    ''focused leaf is not present in the source topology'')
                  else Inl (Rejected MalformedTopology
                    ''focused window association is missing, stale, or nonreciprocal''))
            else Inr source))))"

subsection \<open>The local planner\<close>

text \<open>\<open>children.get(i)\<close> for a signed neighbour index.\<close>

definition child_at :: "node list \<Rightarrow> int \<Rightarrow> node option" where
  "child_at cs i = (if 0 \<le> i \<and> nat i < length cs then Some (cs ! nat i) else None)"

definition planned :: "move_intent \<Rightarrow> move_operation \<Rightarrow> move_outcome" where
  "planned intent op = Planned (for_operation intent op)"

text \<open>The binary-container branch for a group neighbour (rule R2b).\<close>

definition plan_into_group ::
  "move_intent \<Rightarrow> path_level \<Rightarrow> int \<Rightarrow> node_id \<Rightarrow> axis \<Rightarrow> node list \<Rightarrow> move_outcome" where
  "plan_into_group intent ancestor neighbor_index g a cs =
     (if a = pl_axis ancestor
      then planned intent (InsertIntoGroup R2b (pl_group ancestor) g
             (if int (pl_index ancestor) < neighbor_index then 0 else length cs) NearEdge)
      else let target_child_index = length cs div 2 in
        if even (length cs)
        then planned intent (InsertIntoGroup R2b (pl_group ancestor) g target_child_index Midpoint)
        else case child_at cs (int target_child_index) of
          None \<Rightarrow> Noop NoopBoundary
        | Some target_child \<Rightarrow>
            planned intent (SplitGroupChild R2b (pl_group ancestor) g (ident target_child)
              target_child_index
              (if step_for (mi_direction intent) = - 1 then First else Second)
              (axis_for_direction (mi_direction intent))))"

text \<open>The branch with a neighbour in the move direction (rules R2a, R2b, R2c).\<close>

definition plan_neighbor ::
  "move_intent \<Rightarrow> path_level \<Rightarrow> int \<Rightarrow> node \<Rightarrow> move_outcome" where
  "plan_neighbor intent ancestor neighbor_index neighbor =
     (if length (pl_children ancestor) = 2
      then (case neighbor of
              Leaf i \<Rightarrow> planned intent (SwapNeighbor R2a (pl_group ancestor) i)
            | Group g a cs sh \<Rightarrow> plan_into_group intent ancestor neighbor_index g a cs)
      else if mi_same_axis_move intent = SwapWithNeighbor \<and> is_leaf neighbor
        \<and> (case child_at (pl_children ancestor) (int (pl_index ancestor)) of
              None \<Rightarrow> False | Some c \<Rightarrow> is_leaf c)
      then planned intent (SwapNeighbor R2c (pl_group ancestor) (ident neighbor))
      else planned intent (WrapNeighbor R2c (pl_group ancestor) (ident neighbor)
             (int (pl_index ancestor) < neighbor_index) (pl_axis ancestor)))"

definition plan_escape :: "move_intent \<Rightarrow> path_level \<Rightarrow> path_level \<Rightarrow> move_outcome" where
  "plan_escape intent ancestor parent =
     (let step = step_for (mi_direction intent);
          parent_insertion_index = pl_index parent + (if step = 1 then 1 else 0);
          same_axis = (pl_axis parent = pl_axis ancestor)
      in planned intent (EscapeParent R3 (pl_group ancestor) (pl_group parent) (pl_index parent)
           (if same_axis then Some parent_insertion_index else None)
           (if same_axis then ContinueNone else ContinueR1)))"

definition plan_local :: "move_intent \<Rightarrow> out_topology \<Rightarrow> path_level list \<Rightarrow> move_outcome" where
  "plan_local intent source path =
     (if path = [] then Noop SingleRootLeaf
      else
        let direction_axis = axis_for_direction (mi_direction intent);
            step = step_for (mi_direction intent);
            level = length path - 1;
            ancestor = path ! level
        in if pl_axis ancestor \<noteq> direction_axis
           then planned intent (WrapPerpendicular R1 (pl_group ancestor) direction_axis)
           else
             let neighbor_index = int (pl_index ancestor) + step in
             case child_at (pl_children ancestor) neighbor_index of
               Some neighbor \<Rightarrow> plan_neighbor intent ancestor neighbor_index neighbor
             | None \<Rightarrow>
                 if level = 0
                 then (if out_adjacent source (mi_direction intent) = None
                       then Noop NoAdjacentOutput else Noop NoopBoundary)
                 else plan_escape intent ancestor (path ! (level - 1)))"

subsection \<open>Capability gate and cross-output continuation\<close>

definition gate :: "move_outcome \<Rightarrow> capabilities \<Rightarrow> move_outcome" where
  "gate outcome caps =
     (case outcome of
        Planned plan \<Rightarrow>
          if \<not> supports caps (mp_required_capability plan)
          then Rejected UnsupportedTopology
            (''adapter does not declare required capability ''
              @ capability_debug (mp_required_capability plan)
              @ ''; refusing before plan emission'')
          else Planned plan
      | other \<Rightarrow> other)"

definition plan_cross_output ::
  "snapshot \<Rightarrow> move_intent \<Rightarrow> capabilities \<Rightarrow> out_topology \<Rightarrow> path_level list \<Rightarrow> bool
    \<Rightarrow> move_outcome" where
  "plan_cross_output s intent caps source path sole_leaf =
     (case out_adjacent source (mi_direction intent) of
        None \<Rightarrow> Noop NoAdjacentOutput
      | Some target_id \<Rightarrow>
          (case find (\<lambda>o'. out_id o' = target_id) (snap_outputs s) of
             None \<Rightarrow> Rejected MalformedTopology
               ''output adjacency references an output missing from the snapshot''
           | Some target \<Rightarrow>
               if out_adjacent target (opposite_direction (mi_direction intent))
                 \<noteq> Some (out_id source)
               then Rejected MalformedTopology
                 ''output adjacency is not reciprocal in the requested direction''
               else gate (planned intent (CrossOutput R4 (out_id target) (out_workspace target)
                      (if sole_leaf then 0 else pl_index (path ! 0))
                      (if out_tree target = None then TargetEmpty else TargetOccupied))) caps))"

definition plan_move_with_capabilities ::
  "snapshot \<Rightarrow> move_intent \<Rightarrow> capabilities \<Rightarrow> move_outcome" where
  "plan_move_with_capabilities s intent caps =
     (case validate_snapshot s intent of
        Inl outcome \<Rightarrow> outcome
      | Inr source \<Rightarrow>
          (case out_tree source of
             None \<Rightarrow> Noop NoopBoundary
           | Some tree \<Rightarrow>
               (case path_to tree (mi_focused_leaf intent) of
                  None \<Rightarrow> Rejected FocusedLeafNotFound
                    ''focused leaf is not present in the source topology''
                | Some path \<Rightarrow>
                    let outcome = plan_local intent source path;
                        sole_leaf = (outcome = Noop SingleRootLeaf \<and> path = [] \<and> is_leaf tree);
                        root_edge = (outcome = Noop NoopBoundary \<and> length path = 1
                          \<and> \<not> is_leaf tree)
                    in case outcome of
                         Planned plan \<Rightarrow> gate outcome caps
                       | _ \<Rightarrow>
                           if \<not> sole_leaf \<and> \<not> root_edge then gate outcome caps
                           else plan_cross_output s intent caps source path sole_leaf)))"

definition plan_move :: "snapshot \<Rightarrow> move_intent \<Rightarrow> move_outcome" where
  "plan_move s intent = plan_move_with_capabilities s intent capabilities_full"

subsection \<open>What the snapshot validation accepts\<close>

definition tree_ids :: "out_topology \<Rightarrow> node_id list" where
  "tree_ids o' = (case out_tree o' of None \<Rightarrow> [] | Some t \<Rightarrow> node_ids t)"

definition tree_leaves :: "out_topology \<Rightarrow> node_id list" where
  "tree_leaves o' = (case out_tree o' of None \<Rightarrow> [] | Some t \<Rightarrow> leaves t)"

definition outputs_ok :: "out_topology list \<Rightarrow> bool" where
  "outputs_ok os \<longleftrightarrow> os \<noteq> [] \<and> distinct (map out_id os)
     \<and> (\<forall>o' \<in> set os. out_id o' \<noteq> [] \<and> out_workspace o' \<noteq> []
       \<and> (\<forall>d t. out_adjacent o' d = Some t \<longrightarrow> t \<noteq> out_id o' \<and> t \<in> out_id ` set os))"

definition forest_ok :: "out_topology list \<Rightarrow> bool" where
  "forest_ok os \<longleftrightarrow> (\<forall>o' \<in> set os. \<forall>t. out_tree o' = Some t \<longrightarrow> wf_groups t)
     \<and> distinct (concat (map tree_ids os)) \<and> [] \<notin> set (concat (map tree_ids os))"

definition link_ok :: "out_topology list \<Rightarrow> window_link \<Rightarrow> bool" where
  "link_ok os l \<longleftrightarrow> link_window l \<noteq> [] \<and> (\<exists>o' \<in> set os. out_id o' = link_output l
     \<and> out_workspace o' = link_workspace l \<and> link_leaf l \<in> set (tree_leaves o'))"

definition wf_snapshot :: "snapshot \<Rightarrow> bool" where
  "wf_snapshot s \<longleftrightarrow> outputs_ok (snap_outputs s) \<and> forest_ok (snap_outputs s)
     \<and> distinct (map link_window (snap_windows s)) \<and> distinct (map link_leaf (snap_windows s))
     \<and> (\<forall>l \<in> set (snap_windows s). link_ok (snap_outputs s) l)
     \<and> (\<forall>o' \<in> set (snap_outputs s). set (tree_leaves o') \<subseteq> link_leaf ` set (snap_windows s))"

text \<open>The index that \<open>validate_node\<close> builds, in closed form.\<close>

fun node_kinds :: "node \<Rightarrow> (node_id \<times> bool) list" where
  "node_kinds (Leaf i) = [(i, True)]"
| "node_kinds (Group i a cs sh) = (i, False) # concat (map node_kinds cs)"

definition extend_index :: "node_id list \<Rightarrow> (node_id \<times> nat) list \<Rightarrow> (node_id \<times> bool) list
    \<Rightarrow> node_index \<Rightarrow> node_index" where
  "extend_index ids outs kinds ix = \<lparr>ni_ids = ni_ids ix \<union> set ids,
     ni_leaf_output = rev outs @ ni_leaf_output ix,
     ni_leaf_is_leaf = rev kinds @ ni_leaf_is_leaf ix\<rparr>"

lemma extend_index_Nil [simp]: "extend_index [] [] [] ix = ix"
  by (simp add: extend_index_def)

lemma extend_index_extend [simp]:
  "extend_index ids outs kinds (extend_index ids' outs' kinds' ix) =
     extend_index (ids' @ ids) (outs' @ outs) (kinds' @ kinds) ix"
  by (simp add: extend_index_def Un_assoc)

lemma index_leaf_extend: "index_leaf i k ix = extend_index [i] [(i, k)] [(i, True)] ix"
  by (simp add: index_leaf_def extend_index_def)

lemma index_group_extend: "index_group i ix = extend_index [i] [] [(i, False)] ix"
  by (simp add: index_group_def extend_index_def)

lemma ni_ids_extend [simp]: "ni_ids (extend_index ids outs kinds ix) = ni_ids ix \<union> set ids"
  by (simp add: extend_index_def)

abbreviation leaf_outs :: "nat \<Rightarrow> node \<Rightarrow> (node_id \<times> nat) list" where
  "leaf_outs k t \<equiv> map (\<lambda>i. (i, k)) (leaves t)"

lemma validate_node_iff:
  "validate_node t k ix = Inr r \<longleftrightarrow> wf_groups t \<and> ids_fresh (node_ids t) (ni_ids ix)
     \<and> r = extend_index (node_ids t) (leaf_outs k t) (node_kinds t) ix"
  "validate_node_list cs k ix = Inr r \<longleftrightarrow> (\<forall>c \<in> set cs. wf_groups c)
     \<and> ids_fresh (concat (map node_ids cs)) (ni_ids ix)
     \<and> r = extend_index (concat (map node_ids cs)) (concat (map (leaf_outs k) cs))
         (concat (map node_kinds cs)) ix"
proof (induction t k ix and cs k ix arbitrary: r and r
    rule: validate_node_validate_node_list.induct)
  case (1 i k ix)
  then show ?case by (auto simp: index_leaf_extend)
next
  case (2 i a cs sh k ix)
  show ?case
  proof (cases "i = [] \<or> i \<in> ni_ids ix \<or> \<not> group_ok cs sh")
    case True
    then show ?thesis by (auto simp: group_ok_def)
  next
    case False
    then have ok: "i \<noteq> []" "i \<notin> ni_ids ix" "group_ok cs sh" by auto
    have "validate_node (Group i a cs sh) k ix = validate_node_list cs k (index_group i ix)"
      using ok group_ok_pos_share [OF ok(3)] by (auto simp: group_ok_def)
    then show ?thesis
      using 2 [of "sum_list sh" r] ok group_ok_pos_share [OF ok(3)]
      by (auto simp: group_ok_def index_group_extend map_concat comp_def)
  qed
next
  case (3 k ix)
  then show ?case by auto
next
  case (4 c cs k ix)
  let ?ix = "extend_index (node_ids c) (leaf_outs k c) (node_kinds c) ix"
  show ?case
  proof (cases "validate_node c k ix")
    case (Inl e)
    with 4(1) [of ?ix] show ?thesis by auto
  next
    case (Inr s)
    with 4(1) [of s] have "wf_groups c" "ids_fresh (node_ids c) (ni_ids ix)" and s: "s = ?ix"
      by auto
    with 4(2) [of s r] Inr show ?thesis by auto
  qed
qed

lemma validate_output_trees_iff:
  "validate_output_trees os k ix = Inr r \<longleftrightarrow>
     (\<forall>o' \<in> set os. \<forall>t. out_tree o' = Some t \<longrightarrow> wf_groups t)
     \<and> ids_fresh (concat (map tree_ids os)) (ni_ids ix)
     \<and> r = extend_index (concat (map tree_ids os))
         (concat (map (\<lambda>(j, o'). map (\<lambda>i. (i, j)) (tree_leaves o')) (enumerate k os)))
         (concat (map (\<lambda>o'. case out_tree o' of None \<Rightarrow> [] | Some t \<Rightarrow> node_kinds t) os)) ix"
proof (induction os arbitrary: k ix)
  case Nil
  then show ?case by auto
next
  case (Cons o' os)
  show ?case
  proof (cases "out_tree o'")
    case None
    then show ?thesis by (simp add: Cons.IH tree_ids_def tree_leaves_def)
  next
    case (Some t)
    then show ?thesis
      by (auto simp: Cons.IH tree_ids_def tree_leaves_def bind_r_Inr_iff validate_node_iff)
  qed
qed

lemma check_output_ids_iff:
  "check_output_ids os seen = Inr () \<longleftrightarrow> distinct (map out_id os)
     \<and> (\<forall>o' \<in> set os. out_id o' \<noteq> [] \<and> out_workspace o' \<noteq> [] \<and> out_id o' \<notin> seen)"
proof (induction os arbitrary: seen)
  case Nil
  then show ?case by simp
next
  case (Cons a os)
  show ?case
    by (simp add: Cons.IH image_iff) metis
qed

lemma output_by_id_None: "output_by_id os i = None \<longleftrightarrow> i \<notin> out_id ` set os"
  by (auto simp: output_by_id_def map_of_eq_None_iff image_iff)

lemma output_by_id_Some:
  "distinct (map out_id os) \<Longrightarrow> output_by_id os i = Some o' \<longleftrightarrow> o' \<in> set os \<and> out_id o' = i"
  unfolding output_by_id_def
  by (subst map_of_eq_Some_iff) (auto simp: comp_def rev_map [symmetric])


lemma mset_tree_ids:
  "mset (concat (map tree_ids os)) = mset (concat (map tree_leaves os)) +
     mset (concat (map (\<lambda>o'. case out_tree o' of None \<Rightarrow> [] | Some t \<Rightarrow> group_ids t) os))"
  by (induction os) (auto simp: tree_ids_def tree_leaves_def mset_node_ids split: option.splits)

lemma distinct_tree_leaves:
  assumes "distinct (concat (map tree_ids os))"
  shows "distinct (concat (map tree_leaves os))"
  using assms mset_tree_ids [of os]
  by (metis (no_types, lifting) distinct_append mset_append mset_eq_imp_distinct_iff)

text \<open>The index of the whole forest, and what its two maps hold.\<close>

definition forest_outs :: "nat \<Rightarrow> out_topology list \<Rightarrow> (node_id \<times> nat) list" where
  "forest_outs k os = concat (map (\<lambda>(j, o'). map (\<lambda>i. (i, j)) (tree_leaves o')) (enumerate k os))"

definition forest_kinds :: "out_topology list \<Rightarrow> (node_id \<times> bool) list" where
  "forest_kinds os =
     concat (map (\<lambda>o'. case out_tree o' of None \<Rightarrow> [] | Some t \<Rightarrow> node_kinds t) os)"

definition forest_index :: "out_topology list \<Rightarrow> node_index" where
  "forest_index os =
     extend_index (concat (map tree_ids os)) (forest_outs 0 os) (forest_kinds os) empty_index"

lemma map_fst_forest_outs: "map fst (forest_outs k os) = concat (map tree_leaves os)"
  by (induction os arbitrary: k) (auto simp: forest_outs_def comp_def)

lemma in_forest_outs:
  "(i, j) \<in> set (forest_outs k os) \<longleftrightarrow>
     k \<le> j \<and> j < k + length os \<and> i \<in> set (tree_leaves (os ! (j - k)))"
proof (induction os arbitrary: k)
  case Nil
  then show ?case by (simp add: forest_outs_def)
next
  case (Cons o' os)
  have "(i, j) \<in> set (forest_outs k (o' # os)) \<longleftrightarrow>
      (j = k \<and> i \<in> set (tree_leaves o')) \<or> (i, j) \<in> set (forest_outs (Suc k) os)"
    by (auto simp: forest_outs_def)
  also have "\<dots> \<longleftrightarrow> k \<le> j \<and> j < k + length (o' # os)
      \<and> i \<in> set (tree_leaves ((o' # os) ! (j - k)))"
    unfolding Cons.IH by (cases "j = k") (auto simp: nth_Cons' Suc_diff_le)
  finally show ?case .
qed

lemma map_fst_node_kinds [simp]: "map fst (node_kinds t) = node_ids t"
  by (induction t) (auto simp: map_concat comp_def intro!: arg_cong [where f = concat])

lemma in_node_kinds: "(i, True) \<in> set (node_kinds t) \<longleftrightarrow> i \<in> set (leaves t)"
  by (induction t) auto

lemma map_fst_forest_kinds: "map fst (forest_kinds os) = concat (map tree_ids os)"
  by (induction os) (auto simp: forest_kinds_def tree_ids_def split: option.splits)

lemma in_forest_kinds:
  "(i, True) \<in> set (forest_kinds os) \<longleftrightarrow> i \<in> set (concat (map tree_leaves os))"
  by (induction os)
    (auto simp: forest_kinds_def tree_leaves_def in_node_kinds split: option.splits)

lemma forest_index_output:
  assumes "distinct (concat (map tree_ids os))"
  shows "map_of (ni_leaf_output (forest_index os)) i = Some k \<longleftrightarrow>
    k < length os \<and> i \<in> set (tree_leaves (os ! k))"
proof -
  have "distinct (map fst (rev (forest_outs 0 os)))"
    using distinct_tree_leaves [OF assms]
    by (metis distinct_rev map_fst_forest_outs rev_map)
  then show ?thesis
    by (simp add: forest_index_def extend_index_def empty_index_def map_of_eq_Some_iff
        in_forest_outs)
qed

lemma forest_index_is_leaf:
  assumes "distinct (concat (map tree_ids os))"
  shows "map_of (ni_leaf_is_leaf (forest_index os)) i = Some True \<longleftrightarrow>
    i \<in> set (concat (map tree_leaves os))"
proof -
  have "distinct (map fst (rev (forest_kinds os)))"
    using assms by (metis distinct_rev map_fst_forest_kinds rev_map)
  then show ?thesis
    by (simp add: forest_index_def extend_index_def empty_index_def map_of_eq_Some_iff
        in_forest_kinds [simplified])
qed

lemma validate_forest_iff:
  "validate_output_trees os 0 empty_index = Inr r \<longleftrightarrow> forest_ok os \<and> r = forest_index os"
  unfolding validate_output_trees_iff
  by (auto simp: forest_ok_def ids_fresh_def empty_index_def forest_index_def forest_outs_def
      forest_kinds_def)


text \<open>One link against the forest: the three lookups find its output, leaf and workspace.\<close>

lemma link_ok_iff:
  assumes "distinct (map out_id os)" "distinct (concat (map tree_ids os))" "link_window l \<noteq> []"
  shows "link_ok os l \<longleftrightarrow> (\<exists>k. position (\<lambda>o'. out_id o' = link_output l) os = Some k
    \<and> map_of (ni_leaf_output (forest_index os)) (link_leaf l) = Some k
    \<and> map_of (ni_leaf_is_leaf (forest_index os)) (link_leaf l) = Some True
    \<and> out_workspace (os ! k) = link_workspace l)" (is "_ \<longleftrightarrow> ?rhs")
proof
  assume "link_ok os l"
  then obtain k where k: "k < length os" "out_id (os ! k) = link_output l"
    "out_workspace (os ! k) = link_workspace l" "link_leaf l \<in> set (tree_leaves (os ! k))"
    unfolding link_ok_def by (metis in_set_conv_nth)
  have "out_id (os ! j) \<noteq> link_output l" if "j < k" for j
    using that k(1) assms(1) k(2) nth_eq_iff_index_eq [of "map out_id os" j k] by auto
  then have "position (\<lambda>o'. out_id o' = link_output l) os = Some k"
    using k by (simp add: position_Some_iff)
  with k show ?rhs
    by (auto simp: forest_index_output assms forest_index_is_leaf)
next
  assume ?rhs
  then show "link_ok os l"
    using assms by (auto simp: link_ok_def position_Some_iff forest_index_output)
qed

lemma link_ok_nonempty:
  assumes "link_ok os l" "[] \<notin> set (concat (map tree_ids os))"
    "\<forall>o' \<in> set os. out_id o' \<noteq> [] \<and> out_workspace o' \<noteq> []"
  shows "link_window l \<noteq> [] \<and> link_leaf l \<noteq> [] \<and> link_output l \<noteq> [] \<and> link_workspace l \<noteq> []"
proof -
  from assms(1) obtain o' where o: "o' \<in> set os" "out_id o' = link_output l"
    "out_workspace o' = link_workspace l" "link_leaf l \<in> set (tree_leaves o')"
    and "link_window l \<noteq> []" by (auto simp: link_ok_def)
  moreover have "link_leaf l \<in> set (concat (map tree_ids os))"
    using o leaves_subset_node_ids
    by (fastforce simp: tree_ids_def tree_leaves_def split: option.splits)
  ultimately show ?thesis using assms(2,3) by metis
qed

lemma check_links_iff:
  assumes "distinct (map out_id os)" "distinct (concat (map tree_ids os))"
    "[] \<notin> set (concat (map tree_ids os))" "\<forall>o' \<in> set os. out_id o' \<noteq> [] \<and> out_workspace o' \<noteq> []"
  shows "check_links os (forest_index os) ls seen linked = Inr r \<longleftrightarrow>
    (\<forall>l \<in> set ls. link_ok os l) \<and> distinct (map link_window ls) \<and> distinct (map link_leaf ls)
      \<and> link_window ` set ls \<inter> seen = {} \<and> link_leaf ` set ls \<inter> linked = {}
      \<and> r = linked \<union> link_leaf ` set ls"
proof (induction ls arbitrary: seen linked)
  case Nil
  then show ?case by auto
next
  case (Cons l ls)
  note nonempty = link_ok_nonempty [OF _ assms(3,4)]
  show ?case
  proof (cases "link_ok os l \<and> link_window l \<notin> seen \<and> link_leaf l \<notin> linked")
    case True
    then obtain k where "position (\<lambda>o'. out_id o' = link_output l) os = Some k"
      "map_of (ni_leaf_output (forest_index os)) (link_leaf l) = Some k"
      "map_of (ni_leaf_is_leaf (forest_index os)) (link_leaf l) = Some True"
      "out_workspace (os ! k) = link_workspace l"
      using link_ok_iff [OF assms(1,2)] nonempty by blast
    with True nonempty have "check_links os (forest_index os) (l # ls) seen linked =
        check_links os (forest_index os) ls (insert (link_window l) seen) (insert (link_leaf l) linked)"
      by simp
    with True show ?thesis by (auto simp: Cons.IH)
  next
    case False
    then have "check_links os (forest_index os) (l # ls) seen linked \<noteq> Inr r"
      using link_ok_iff [OF assms(1,2), of l] by (auto split: option.splits)
    with False show ?thesis by auto
  qed
qed

lemma leaf_unlinked_iff:
  assumes "distinct (concat (map tree_ids os))"
  shows "leaf_unlinked (forest_index os) linked \<longleftrightarrow>
    \<not> set (concat (map tree_leaves os)) \<subseteq> linked"
proof -
  have "set (map fst (ni_leaf_output (forest_index os))) = set (concat (map tree_leaves os))"
    by (metis append_Nil2 empty_index_def extend_index_def forest_index_def map_fst_forest_outs
        node_index.select_convs(2) rev_map set_rev)
  then show ?thesis
    by (auto simp: leaf_unlinked_def list_ex_iff forest_index_is_leaf [OF assms])
qed

lemma adjacency_bad_iff:
  "list_ex (adjacency_bad os) os \<longleftrightarrow> (\<exists>o' \<in> set os. \<exists>d t. out_adjacent o' d = Some t
     \<and> (t = [] \<or> t = out_id o' \<or> t \<notin> out_id ` set os))"
  unfolding list_ex_iff adjacency_bad_def output_by_id_None Bex_def in_adjacent_values by blast

lemma outputs_ok_iff:
  "os \<noteq> [] \<and> check_output_ids os {} = Inr () \<and> \<not> list_ex (adjacency_bad os) os
    \<longleftrightarrow> outputs_ok os"
  unfolding check_output_ids_iff adjacency_bad_iff outputs_ok_def by (auto simp: image_iff) metis+

lemma malformed_bind:
  "bind_r (malformed r) k = Inr y \<longleftrightarrow> (\<exists>v. r = Inr v \<and> k v = Inr y)"
  by (cases r) (simp_all add: malformed_def)

lemma validate_snapshot_raw:
  "validate_snapshot s intent = Inr src \<longleftrightarrow>
     (mi_source_output intent \<noteq> [] \<and> mi_focused_leaf intent \<noteq> [] \<and> mi_focused_window intent \<noteq> [])
     \<and> outputs_ok (snap_outputs s)
     \<and> output_by_id (snap_outputs s) (mi_source_output intent) = Some src
     \<and> forest_ok (snap_outputs s)
     \<and> (\<exists>linked. check_links (snap_outputs s) (forest_index (snap_outputs s)) (snap_windows s) {} {}
           = Inr linked \<and> \<not> leaf_unlinked (forest_index (snap_outputs s)) linked)
     \<and> (\<exists>l \<in> set (snap_windows s). link_window l = mi_focused_window intent
         \<and> link_leaf l = mi_focused_leaf intent)"
  unfolding outputs_ok_iff [symmetric]
  by (simp add: validate_snapshot_def Let_def malformed_bind validate_forest_iff list_ex_iff
      split: option.split)
    blast

lemma validate_snapshot_iff:
  "validate_snapshot s intent = Inr src \<longleftrightarrow> wf_snapshot s
     \<and> src \<in> set (snap_outputs s) \<and> out_id src = mi_source_output intent
     \<and> (\<exists>l \<in> set (snap_windows s). link_window l = mi_focused_window intent
         \<and> link_leaf l = mi_focused_leaf intent)"
proof (cases "outputs_ok (snap_outputs s) \<and> forest_ok (snap_outputs s)")
  case False
  then show ?thesis by (auto simp: validate_snapshot_raw wf_snapshot_def)
next
  case True
  let ?os = "snap_outputs s" and ?ls = "snap_windows s"
  have os: "distinct (map out_id ?os)" "\<forall>o' \<in> set ?os. out_id o' \<noteq> [] \<and> out_workspace o' \<noteq> []"
    and forest: "distinct (concat (map tree_ids ?os))" "[] \<notin> set (concat (map tree_ids ?os))"
    using True by (auto simp: outputs_ok_def forest_ok_def)
  note links = check_links_iff [OF os(1) forest os(2)]
  have leaves: "set (concat (map tree_leaves ?os)) \<subseteq> L \<longleftrightarrow>
      (\<forall>o' \<in> set ?os. set (tree_leaves o') \<subseteq> L)" for L by auto
  have wf: "wf_snapshot s \<longleftrightarrow> (\<exists>linked. check_links ?os (forest_index ?os) ?ls {} {} = Inr linked
      \<and> \<not> leaf_unlinked (forest_index ?os) linked)"
    unfolding links leaf_unlinked_iff [OF forest(1)] leaves using True
    by (auto simp: wf_snapshot_def)
  have "link_ok ?os l" if "wf_snapshot s" "l \<in> set ?ls" for l
    using that by (auto simp: wf_snapshot_def)
  then have nonempty: "link_window l \<noteq> [] \<and> link_leaf l \<noteq> []" if "wf_snapshot s" "l \<in> set ?ls" for l
    using that link_ok_nonempty [OF _ forest(2) os(2)] by blast
  show ?thesis
    unfolding validate_snapshot_raw output_by_id_Some [OF os(1)] wf [symmetric]
    using True nonempty os(2) by (intro iffI conjI) (blast | fastforce)+
qed

subsection \<open>What a planned operation means in the tree\<close>

fun subnodes :: "node \<Rightarrow> node list" where
  "subnodes (Leaf i) = [Leaf i]"
| "subnodes (Group i a cs sh) = Group i a cs sh # concat (map subnodes cs)"

lemma subnodes_self [simp]: "t \<in> set (subnodes t)"
  by (cases t) auto

lemma path_node_subnodes: "path_ok t (p @ q) x \<Longrightarrow> path_node t p \<in> set (subnodes t)"
proof (induction t p rule: path_node.induct)
  case (3 i a cs sh l ls)
  then show ?case by (auto intro!: bexI [OF _ nth_mem])
qed simp_all

lemma wf_groups_subnodes: "wf_groups t \<Longrightarrow> n \<in> set (subnodes t) \<Longrightarrow> wf_groups n"
  by (induction t) auto

text \<open>Some group of the tree has the identity \<open>c\<close> and satisfies \<open>P\<close>.\<close>

definition at_group ::
  "node \<Rightarrow> node_id \<Rightarrow> (axis \<Rightarrow> node list \<Rightarrow> bool) \<Rightarrow> bool" where
  "at_group t c P \<longleftrightarrow> (\<exists>n \<in> set (subnodes t).
     case n of Leaf i \<Rightarrow> False | Group c' a cs sh \<Rightarrow> c' = c \<and> P a cs)"

lemma at_groupI: "Group c a cs sh \<in> set (subnodes t) \<Longrightarrow> P a cs \<Longrightarrow> at_group t c P"
  by (force simp: at_group_def)

text \<open>The focused leaf is the child of \<open>cs\<close> that \<open>P\<close> holds of, with its neighbour in \<open>d\<close>.\<close>

definition focused_child ::
  "node list \<Rightarrow> node_id \<Rightarrow> direction \<Rightarrow> (nat \<Rightarrow> node option \<Rightarrow> bool) \<Rightarrow> bool" where
  "focused_child cs x d P \<longleftrightarrow>
     (\<exists>i < length cs. cs ! i = Leaf x \<and> P i (child_at cs (int i + step_for d)))"

fun op_fits :: "node \<Rightarrow> node_id \<Rightarrow> direction \<Rightarrow> move_operation \<Rightarrow> bool" where
  "op_fits t x d (WrapPerpendicular r c a) \<longleftrightarrow> r = R1 \<and> a = axis_for_direction d
     \<and> at_group t c (\<lambda>ax cs. ax \<noteq> a \<and> Leaf x \<in> set cs)"
| "op_fits t x d (SwapNeighbor r c n) \<longleftrightarrow> at_group t c (\<lambda>ax cs. ax = axis_for_direction d
     \<and> r = (if length cs = 2 then R2a else R2c)
     \<and> focused_child cs x d (\<lambda>i nb. nb = Some (Leaf n)))"
| "op_fits t x d (InsertIntoGroup r c g k ins) \<longleftrightarrow> r = R2b
     \<and> at_group t c (\<lambda>ax cs. ax = axis_for_direction d \<and> length cs = 2
       \<and> focused_child cs x d (\<lambda>i nb. case nb of
           Some (Group g' a' cs' sh') \<Rightarrow> g' = g
             \<and> (if a' = ax then ins = NearEdge \<and> k = (if step_for d = 1 then 0 else length cs')
                else ins = Midpoint \<and> 2 * k = length cs')
         | _ \<Rightarrow> False))"
| "op_fits t x d (SplitGroupChild r c g tc k sd a) \<longleftrightarrow> r = R2b \<and> a = axis_for_direction d
     \<and> sd = (if step_for d = 1 then Second else First)
     \<and> at_group t c (\<lambda>ax cs. ax = axis_for_direction d \<and> length cs = 2
       \<and> focused_child cs x d (\<lambda>i nb. case nb of
           Some (Group g' a' cs' sh') \<Rightarrow> g' = g \<and> a' \<noteq> ax \<and> length cs' = 2 * k + 1
             \<and> ident (cs' ! k) = tc
         | _ \<Rightarrow> False))"
| "op_fits t x d (WrapNeighbor r c n before a) \<longleftrightarrow> r = R2c \<and> a = axis_for_direction d
     \<and> before = (step_for d = 1)
     \<and> at_group t c (\<lambda>ax cs. ax = a \<and> 3 \<le> length cs
       \<and> focused_child cs x d (\<lambda>i nb. map_option ident nb = Some n))"
| "op_fits t x d (EscapeParent r c p k ins cont) \<longleftrightarrow> r = R3
     \<and> at_group t p (\<lambda>pax ps. k < length ps \<and> (case ps ! k of
         Leaf i \<Rightarrow> False
       | Group c' ax cs sh \<Rightarrow> c' = c \<and> ax = axis_for_direction d
           \<and> focused_child cs x d (\<lambda>i nb. nb = None)
           \<and> ins = (if pax = ax then Some (if step_for d = 1 then k + 1 else k) else None)
           \<and> cont = (if pax = ax then ContinueNone else ContinueR1)))"
| "op_fits t x d (CrossOutput r to tw k tgt) \<longleftrightarrow> False"

text \<open>The focused leaf stands at the edge of the root in the move direction.\<close>

fun at_root_edge :: "node \<Rightarrow> node_id \<Rightarrow> direction \<Rightarrow> nat \<Rightarrow> bool" where
  "at_root_edge (Leaf i) x d k \<longleftrightarrow> i = x \<and> k = 0"
| "at_root_edge (Group g ax cs sh) x d k \<longleftrightarrow> ax = axis_for_direction d
     \<and> focused_child cs x d (\<lambda>i nb. nb = None \<and> i = k)"

lemma focused_childI:
  "i < length cs \<Longrightarrow> cs ! i = Leaf x \<Longrightarrow> P i (child_at cs (int i + step_for d))
    \<Longrightarrow> focused_child cs x d P"
  by (auto simp: focused_child_def)

lemma step_less: "int i < int i + step_for d \<longleftrightarrow> step_for d = 1"
  using step_for_cases [of d] by auto

lemma step_for_pos [simp]: "0 < step_for d \<longleftrightarrow> step_for d = 1"
  by (cases d) auto

lemma step_for_not_pos: "step_for d = - 1 \<longleftrightarrow> step_for d \<noteq> 1"
  by (cases d) auto

definition plans_fitting :: "node \<Rightarrow> node_id \<Rightarrow> move_intent \<Rightarrow> move_outcome \<Rightarrow> bool" where
  "plans_fitting t x intent out \<longleftrightarrow>
     (\<exists>op. out = planned intent op \<and> op_fits t x (mi_direction intent) op)"

lemma plans_fittingI:
  "op_fits t x (mi_direction intent) op \<Longrightarrow> plans_fitting t x intent (planned intent op)"
  by (auto simp: plans_fitting_def)

lemmas fits_intros = plans_fittingI at_groupI focused_childI

lemma plan_into_group_fits:
  assumes "Group c ax cs sh \<in> set (subnodes t)" "ax = axis_for_direction (mi_direction intent)"
    "length cs = 2" "i < length cs" "cs ! i = Leaf x"
    "child_at cs (int i + step_for (mi_direction intent)) = Some (Group g a' cs' sh')"
    "pl_axis anc = ax" "pl_index anc = i" "pl_group anc = c"
  shows "plans_fitting t x intent
    (plan_into_group intent anc (int i + step_for (mi_direction intent)) g a' cs')"
proof (cases "a' = ax")
  case True
  with assms show ?thesis
    by (auto simp: plan_into_group_def intro!: fits_intros)
next
  case False
  show ?thesis
  proof (cases "even (length cs')")
    case True
    with assms False show ?thesis
      by (auto simp: plan_into_group_def intro!: fits_intros)
  next
    case odd: False
    let ?k = "length cs' div 2"
    have len: "length cs' = 2 * ?k + 1" using odd by presburger
    then have "child_at cs' (int ?k) = Some (cs' ! ?k)" by (simp add: child_at_def)
    with assms False odd have "plan_into_group intent anc
        (int i + step_for (mi_direction intent)) g a' cs' = planned intent (SplitGroupChild R2b c g
          (ident (cs' ! ?k)) ?k (if step_for (mi_direction intent) = - 1 then First else Second)
          (axis_for_direction (mi_direction intent)))"
      by (simp add: plan_into_group_def Let_def)
    moreover have "op_fits t x (mi_direction intent) (SplitGroupChild R2b c g
          (ident (cs' ! ?k)) ?k (if step_for (mi_direction intent) = - 1 then First else Second)
          (axis_for_direction (mi_direction intent)))"
      using assms False len by (auto simp: step_for_not_pos intro!: at_groupI focused_childI)
    ultimately show ?thesis by (simp add: plans_fittingI)
  qed
qed

lemma plan_neighbor_fits:
  assumes "Group (pl_group l) (pl_axis l) (pl_children l) sh \<in> set (subnodes t)"
    "pl_axis l = axis_for_direction (mi_direction intent)" "2 \<le> length (pl_children l)"
    "pl_index l < length (pl_children l)" "pl_children l ! pl_index l = Leaf x"
    "child_at (pl_children l) (int (pl_index l) + step_for (mi_direction intent)) = Some nb"
  shows "plans_fitting t x intent
    (plan_neighbor intent l (int (pl_index l) + step_for (mi_direction intent)) nb)"
proof (cases "length (pl_children l) = 2")
  case True
  with assms show ?thesis
    by (cases nb)
      (auto simp: plan_neighbor_def intro!: fits_intros plan_into_group_fits simp del: op_fits.simps(1,3-))
next
  case False
  with assms show ?thesis
    by (cases nb) (auto simp: plan_neighbor_def intro!: fits_intros)
qed

lemma plan_escape_fits:
  assumes "Group (pl_group r) (pl_axis r) (pl_children r) psh \<in> set (subnodes t)"
    "pl_index r < length (pl_children r)"
    "pl_children r ! pl_index r = Group (pl_group l) (pl_axis l) (pl_children l) csh"
    "pl_axis l = axis_for_direction (mi_direction intent)"
    "pl_index l < length (pl_children l)" "pl_children l ! pl_index l = Leaf x"
    "child_at (pl_children l) (int (pl_index l) + step_for (mi_direction intent)) = None"
  shows "plans_fitting t x intent (plan_escape intent l r)"
proof -
  have "focused_child (pl_children l) x (mi_direction intent) (\<lambda>i nb. nb = None)"
    using assms by (auto intro!: focused_childI)
  then show ?thesis
    unfolding plan_escape_def Let_def plans_fitting_def
    by (auto simp: assms(2-4) intro!: exI at_groupI [OF assms(1)])
qed

lemma plan_local_cases:
  assumes "path_ok t path x" "wf_groups t"
  shows "plans_fitting t x intent (plan_local intent source path)
    \<or> (\<exists>k. at_root_edge t x (mi_direction intent) k \<and> (path = [] \<or> length path = 1 \<and> k = pl_index (path ! 0))
        \<and> plan_local intent source path = Noop
            (if path = [] then SingleRootLeaf
             else if out_adjacent source (mi_direction intent) = None then NoAdjacentOutput
             else NoopBoundary))"
proof (cases path rule: rev_cases)
  case Nil
  with assms show ?thesis by (auto simp: plan_local_def)
next
  case (snoc p l)
  from path_ok_last_level [OF assms(1) [unfolded snoc]] obtain sh where
    node: "path_node t p = Group (pl_group l) (pl_axis l) (pl_children l) sh"
    and l: "pl_index l < length (pl_children l)" "pl_children l ! pl_index l = Leaf x" .
  have sub: "Group (pl_group l) (pl_axis l) (pl_children l) sh \<in> set (subnodes t)"
    using path_node_subnodes [of t p "[l]" x] assms(1) node snoc by simp
  then have two: "2 \<le> length (pl_children l)"
    using wf_groups_subnodes [OF assms(2)] by (fastforce simp: group_ok_def)
  let ?d = "mi_direction intent"
  show ?thesis
  proof (cases "pl_axis l = axis_for_direction ?d")
    case False
    then have "plan_local intent source path =
        planned intent (WrapPerpendicular R1 (pl_group l) (axis_for_direction ?d))"
      by (simp add: plan_local_def snoc Let_def)
    then show ?thesis
      using sub False l nth_mem [OF l(1)] by (auto intro!: fits_intros)
  next
    case True
    show ?thesis
    proof (cases "child_at (pl_children l) (int (pl_index l) + step_for ?d)")
      case (Some nb)
      with True have "plan_local intent source path =
          plan_neighbor intent l (int (pl_index l) + step_for ?d) nb"
        by (simp add: plan_local_def snoc Let_def)
      then show ?thesis using plan_neighbor_fits [OF sub True two l Some] by simp
    next
      case None
      show ?thesis
      proof (cases p rule: rev_cases)
        case Nil
        with node True None l snoc show ?thesis
          by (auto simp: plan_local_def Let_def focused_child_def)
      next
        case (snoc q r)
        note p = this
        have "path_ok t ((q @ [r]) @ [l]) x" using assms(1) snoc \<open>path = p @ [l]\<close> by simp
        then have "path_ok (path_node t q) [r, l] x" using path_ok_append [of t q "[r, l]" x] by simp
        then obtain psh where par: "path_node t q = Group (pl_group r) (pl_axis r) (pl_children r) psh"
          "pl_index r < length (pl_children r)" "path_ok (pl_children r ! pl_index r) [l] x"
          by (cases "path_node t q") auto
        then obtain csh where ch: "pl_children r ! pl_index r =
            Group (pl_group l) (pl_axis l) (pl_children l) csh"
          by (cases "pl_children r ! pl_index r") auto
        have psub: "Group (pl_group r) (pl_axis r) (pl_children r) psh \<in> set (subnodes t)"
          using path_node_subnodes [of t q "[r, l]" x] assms(1) par(1) p \<open>path = p @ [l]\<close> by simp
        have "plan_local intent source path = plan_escape intent l r"
          using True None p \<open>path = p @ [l]\<close> by (simp add: plan_local_def Let_def nth_append)
        then show ?thesis
          using plan_escape_fits [OF psub par(2) ch True l None] by simp
      qed
    qed
  qed
qed

subsection \<open>The whole planner\<close>

text \<open>The R4 operation against the snapshot: reciprocal adjacency from the root edge.\<close>

definition cross_fits :: "snapshot \<Rightarrow> out_topology \<Rightarrow> node \<Rightarrow> move_intent \<Rightarrow> move_operation \<Rightarrow> bool" where
  "cross_fits s src t intent op \<longleftrightarrow> (case op of
     CrossOutput r to tw k tgt \<Rightarrow> r = R4
       \<and> at_root_edge t (mi_focused_leaf intent) (mi_direction intent) k
       \<and> out_adjacent src (mi_direction intent) = Some to
       \<and> (\<exists>o' \<in> set (snap_outputs s). out_id o' = to \<and> out_workspace o' = tw
         \<and> out_adjacent o' (opposite_direction (mi_direction intent)) = Some (out_id src)
         \<and> tgt = (if out_tree o' = None then TargetEmpty else TargetOccupied))
   | _ \<Rightarrow> False)"

lemma gate_Planned: "gate out caps = Planned plan \<longleftrightarrow>
    out = Planned plan \<and> supports caps (mp_required_capability plan)"
  by (auto simp: gate_def split: move_outcome.splits)

lemma gate_planned: "gate (planned intent op) caps =
    (if supports caps (op_required_capability op) then planned intent op
     else Rejected UnsupportedTopology (''adapter does not declare required capability ''
       @ capability_debug (op_required_capability op) @ ''; refusing before plan emission''))"
  by (simp add: gate_def planned_def for_operation_def)

lemma gate_other [simp]: "gate (Noop r) caps = Noop r"
  by (simp add: gate_def)

lemma supports_full [simp]: "supports capabilities_full c"
  by (cases c) (simp_all add: capabilities_full_def)

lemma gate_full [simp]: "gate (planned intent op) capabilities_full = planned intent op"
  by (simp only: gate_planned supports_full if_True)

lemma find_out_id_Some: "find (\<lambda>o'. out_id o' = i) os = Some o' \<Longrightarrow> o' \<in> set os \<and> out_id o' = i"
  by (auto simp: find_Some_iff)

lemma find_out_id:
  assumes "distinct (map out_id os)" "i \<in> out_id ` set os"
  obtains o' where "find (\<lambda>o'. out_id o' = i) os = Some o'" "o' \<in> set os" "out_id o' = i"
proof (cases "find (\<lambda>o'. out_id o' = i) os")
  case None
  with assms(2) show ?thesis by (auto simp: find_None_iff)
next
  case (Some o')
  then have "o' \<in> set os \<and> out_id o' = i" by (auto simp: find_Some_iff)
  with Some show ?thesis using that [of o'] by simp
qed

text \<open>The cross-output continuation with the source index of the root child.\<close>

definition cross_step ::
  "snapshot \<Rightarrow> move_intent \<Rightarrow> capabilities \<Rightarrow> out_topology \<Rightarrow> nat \<Rightarrow> move_outcome" where
  "cross_step s intent caps src k =
         (case out_adjacent src (mi_direction intent) of
            None \<Rightarrow> Noop NoAdjacentOutput
          | Some target_id \<Rightarrow>
             (case find (\<lambda>o'. out_id o' = target_id) (snap_outputs s) of
                None \<Rightarrow> Rejected MalformedTopology
                  ''output adjacency references an output missing from the snapshot''
              | Some target \<Rightarrow>
                  if out_adjacent target (opposite_direction (mi_direction intent)) \<noteq> Some (out_id src)
                  then Rejected MalformedTopology
                    ''output adjacency is not reciprocal in the requested direction''
                  else gate (planned intent (CrossOutput R4 (out_id target) (out_workspace target) k
                    (if out_tree target = None then TargetEmpty else TargetOccupied))) caps))"

text \<open>
  One step of the planner on a valid snapshot whose focused leaf is in the source tree: either
  the gate on a fitting local operation, or at the root edge the cross-output continuation.
\<close>

lemma plan_move_step:
  assumes "validate_snapshot s intent = Inr src" "out_tree src = Some t"
    "mi_focused_leaf intent \<in> set (leaves t)"
  shows "(\<exists>op. op_fits t (mi_focused_leaf intent) (mi_direction intent) op
      \<and> plan_move_with_capabilities s intent caps = gate (planned intent op) caps)
    \<or> (\<exists>k. at_root_edge t (mi_focused_leaf intent) (mi_direction intent) k
      \<and> plan_move_with_capabilities s intent caps =
         cross_step s intent caps src k)"
proof -
  let ?x = "mi_focused_leaf intent" and ?d = "mi_direction intent"
  obtain path where path: "path_to t ?x = Some path"
    using assms(3) path_to_None [of t ?x] by (cases "path_to t ?x") auto
  have t: "wf_groups t"
    using assms(1,2) by (auto simp: validate_snapshot_iff wf_snapshot_def forest_ok_def)
  from plan_local_cases [OF path_to_ok [OF path] t, of intent src]
  consider (local) op where "plan_local intent src path = planned intent op" "op_fits t ?x ?d op"
    | (edge) k where "at_root_edge t ?x ?d k" "path = [] \<or> length path = 1 \<and> k = pl_index (path ! 0)"
      "plan_local intent src path = Noop (if path = [] then SingleRootLeaf
         else if out_adjacent src ?d = None then NoAdjacentOutput else NoopBoundary)"
    by (auto simp: plans_fitting_def)
  then show ?thesis
  proof cases
    case local
    then have "plan_move_with_capabilities s intent caps = gate (planned intent op) caps"
      using assms path by (simp add: plan_move_with_capabilities_def planned_def Let_def)
    with local show ?thesis by blast
  next
    case edge
    have leaf: "is_leaf t \<longleftrightarrow> path = []"
      using path_to_ok [OF path] by (cases t; cases path) auto
    have "k = 0" if "path = []"
      using edge(1) leaf that by (cases t) auto
    with edge leaf show ?thesis
      using assms path
      by (intro disjI2 exI [of _ k])
        (auto simp: plan_move_with_capabilities_def plan_cross_output_def cross_step_def Let_def)
  qed
qed

lemma planned_eq [simp]: "planned intent op = Planned plan \<longleftrightarrow> plan = for_operation intent op"
  by (auto simp: planned_def)

lemma for_operation_op [simp]: "mp_operation (for_operation intent op) = op"
  by (simp add: for_operation_def)

lemma plan_move_source:
  assumes "plan_move_with_capabilities s intent caps = Planned plan"
  obtains src t where "validate_snapshot s intent = Inr src" "out_tree src = Some t"
    "mi_focused_leaf intent \<in> set (leaves t)"
proof -
  from assms obtain src t path where "validate_snapshot s intent = Inr src" "out_tree src = Some t"
    "path_to t (mi_focused_leaf intent) = Some path"
    unfolding plan_move_with_capabilities_def
    by (auto split: sum.splits option.splits)
      (auto simp: validate_snapshot_def Let_def bind_r_Inl_iff malformed_def
        split: if_splits option.splits sum.splits)
  moreover then have "mi_focused_leaf intent \<in> set (leaves t)"
    using path_to_None [of t "mi_focused_leaf intent"] by auto
  ultimately show thesis by (blast intro: that)
qed

lemma output_unique:
  "wf_snapshot s \<Longrightarrow> o1 \<in> set (snap_outputs s) \<Longrightarrow> o2 \<in> set (snap_outputs s)
    \<Longrightarrow> out_id o1 = out_id o2 \<Longrightarrow> o1 = o2"
  by (auto simp: wf_snapshot_def outputs_ok_def inj_on_def dest: distinct_map [THEN iffD1])

lemma leaf_output_unique:
  assumes "wf_snapshot s" "o1 \<in> set (snap_outputs s)" "o2 \<in> set (snap_outputs s)"
    "i \<in> set (tree_leaves o1)" "i \<in> set (tree_leaves o2)"
  shows "o1 = o2"
proof -
  let ?os = "snap_outputs s"
  have d: "distinct (concat (map tree_leaves ?os))"
    using assms(1) distinct_tree_leaves by (auto simp: wf_snapshot_def forest_ok_def)
  obtain j k where "j < length ?os" "o1 = ?os ! j" "k < length ?os" "o2 = ?os ! k"
    using assms(2,3) by (metis in_set_conv_nth)
  then have "j = k"
    using forest_index_output [of ?os i j] forest_index_output [of ?os i k] assms
    by (auto simp: wf_snapshot_def forest_ok_def)
  then show ?thesis using \<open>o1 = ?os ! j\<close> \<open>o2 = ?os ! k\<close> by simp
qed

text \<open>Adjacency is reciprocal: what the planner requires of the pair it crosses.\<close>

definition reciprocal :: "out_topology list \<Rightarrow> bool" where
  "reciprocal os \<longleftrightarrow> (\<forall>o1 \<in> set os. \<forall>o2 \<in> set os. \<forall>d.
     out_adjacent o1 d = Some (out_id o2) \<longrightarrow>
       out_adjacent o2 (opposite_direction d) = Some (out_id o1))"

definition focus_linked :: "snapshot \<Rightarrow> move_intent \<Rightarrow> bool" where
  "focus_linked s intent \<longleftrightarrow> (\<exists>l \<in> set (snap_windows s). link_window l = mi_focused_window intent
     \<and> link_leaf l = mi_focused_leaf intent \<and> link_output l = mi_source_output intent)"

lemma focus_linked_source:
  assumes "wf_snapshot s" "focus_linked s intent"
  obtains src t where "validate_snapshot s intent = Inr src" "src \<in> set (snap_outputs s)"
    "out_tree src = Some t" "mi_focused_leaf intent \<in> set (leaves t)"
    "out_id src = mi_source_output intent"
proof -
  from assms obtain l src where l: "l \<in> set (snap_windows s)" "link_window l = mi_focused_window intent"
    "link_leaf l = mi_focused_leaf intent" "link_output l = mi_source_output intent"
    "src \<in> set (snap_outputs s)" "out_id src = mi_source_output intent"
    "mi_focused_leaf intent \<in> set (tree_leaves src)"
    unfolding focus_linked_def wf_snapshot_def link_ok_def by metis
  then have "validate_snapshot s intent = Inr src"
    using assms(1) by (auto simp: validate_snapshot_iff)
  moreover obtain t where "out_tree src = Some t" "mi_focused_leaf intent \<in> set (leaves t)"
    using l(7) by (cases "out_tree src") (auto simp: tree_leaves_def)
  ultimately show thesis using l that [of src t] by simp
qed

text \<open>The outcome on a valid snapshot with a linked focus and reciprocal adjacency.\<close>

lemma plan_move_outcome:
  assumes "wf_snapshot s" "focus_linked s intent" "reciprocal (snap_outputs s)"
  shows "(\<exists>plan. plan_move s intent = Planned plan)
    \<or> (plan_move s intent = Noop NoAdjacentOutput
       \<and> (\<exists>src t k. src \<in> set (snap_outputs s) \<and> out_id src = mi_source_output intent
         \<and> out_tree src = Some t \<and> out_adjacent src (mi_direction intent) = None
         \<and> at_root_edge t (mi_focused_leaf intent) (mi_direction intent) k))"
proof -
  obtain src t where src: "validate_snapshot s intent = Inr src" "src \<in> set (snap_outputs s)"
    "out_tree src = Some t" "mi_focused_leaf intent \<in> set (leaves t)"
    "out_id src = mi_source_output intent"
    using focus_linked_source [OF assms(1,2)] .
  from plan_move_step [OF src(1,3,4), of capabilities_full] show ?thesis
  proof (elim disjE exE conjE)
    fix op
    assume "plan_move_with_capabilities s intent capabilities_full =
      gate (planned intent op) capabilities_full"
    then show ?thesis by (simp add: plan_move_def)
  next
    fix k
    assume edge: "at_root_edge t (mi_focused_leaf intent) (mi_direction intent) k"
      and eq: "plan_move_with_capabilities s intent capabilities_full =
         cross_step s intent capabilities_full src k"
    show ?thesis
    proof (cases "out_adjacent src (mi_direction intent)")
      case None
      with eq edge src show ?thesis by (auto simp: plan_move_def cross_step_def)
    next
      case (Some tid)
      have os: "distinct (map out_id (snap_outputs s))" "tid \<in> out_id ` set (snap_outputs s)"
        using assms(1) src(2) Some by (auto simp: wf_snapshot_def outputs_ok_def)
      then obtain o' where o': "find (\<lambda>o'. out_id o' = tid) (snap_outputs s) = Some o'"
        "o' \<in> set (snap_outputs s)" "out_id o' = tid" using find_out_id by metis
      then have "out_adjacent o' (opposite_direction (mi_direction intent)) = Some (out_id src)"
        using assms(3) src(2) Some by (auto simp: reciprocal_def)
      with eq Some o' show ?thesis by (simp add: plan_move_def cross_step_def)
    qed
  qed
qed

lemma cross_step_Planned:
  assumes "cross_step s intent caps src k = Planned plan"
  obtains target where "target \<in> set (snap_outputs s)"
    "out_adjacent src (mi_direction intent) = Some (out_id target)"
    "out_adjacent target (opposite_direction (mi_direction intent)) = Some (out_id src)"
    "gate (planned intent (CrossOutput R4 (out_id target) (out_workspace target) k
      (if out_tree target = None then TargetEmpty else TargetOccupied))) caps = Planned plan"
proof (cases "out_adjacent src (mi_direction intent)")
  case None
  with assms show ?thesis by (simp add: cross_step_def)
next
  case (Some tid)
  show ?thesis
  proof (cases "find (\<lambda>o'. out_id o' = tid) (snap_outputs s)")
    case None
    with assms Some show ?thesis by (simp add: cross_step_def)
  next
    case found: (Some target)
    with assms Some find_out_id_Some [OF found] show ?thesis
      using that [of target] by (simp add: cross_step_def split: if_splits)
  qed
qed

lemma plan_sound:
  assumes "plan_move_with_capabilities s intent caps = Planned plan"
  shows "\<exists>src t. src \<in> set (snap_outputs s) \<and> out_id src = mi_source_output intent
    \<and> out_tree src = Some t \<and> plan = for_operation intent (mp_operation plan)
    \<and> supports caps (op_required_capability (mp_operation plan))
    \<and> (op_fits t (mi_focused_leaf intent) (mi_direction intent) (mp_operation plan)
      \<or> cross_fits s src t intent (mp_operation plan))"
proof -
  obtain src t where src: "validate_snapshot s intent = Inr src" "out_tree src = Some t"
    "mi_focused_leaf intent \<in> set (leaves t)"
    using plan_move_source [OF assms] .
  then have in_os: "src \<in> set (snap_outputs s)" "out_id src = mi_source_output intent"
    by (auto simp: validate_snapshot_iff)
  from plan_move_step [OF src, of caps] show ?thesis
  proof (elim disjE exE conjE)
    fix op
    assume "op_fits t (mi_focused_leaf intent) (mi_direction intent) op"
      and "plan_move_with_capabilities s intent caps = gate (planned intent op) caps"
    with assms have "supports caps (op_required_capability op)" "plan = for_operation intent op"
      by (auto simp: gate_planned split: if_splits)
    with \<open>op_fits _ _ _ op\<close> in_os src(2) show ?thesis by auto
  next
    fix k
    assume edge: "at_root_edge t (mi_focused_leaf intent) (mi_direction intent) k"
      and eq: "plan_move_with_capabilities s intent caps =
         cross_step s intent caps src k"
    from eq assms have "cross_step s intent caps src k = Planned plan" by simp
    then obtain target where target: "target \<in> set (snap_outputs s)"
      "out_adjacent src (mi_direction intent) = Some (out_id target)"
      "out_adjacent target (opposite_direction (mi_direction intent)) = Some (out_id src)"
      and g: "gate (planned intent (CrossOutput R4 (out_id target) (out_workspace target) k
          (if out_tree target = None then TargetEmpty else TargetOccupied))) caps = Planned plan"
      by (rule cross_step_Planned)
    have "supports caps CapCrossOutputTransfer" and plan: "plan = for_operation intent
        (CrossOutput R4 (out_id target) (out_workspace target) k
          (if out_tree target = None then TargetEmpty else TargetOccupied))"
      using g by (auto simp: gate_planned split: if_splits)
    then show ?thesis
      using in_os src(2) edge target
      by (intro exI [of _ src] exI [of _ t]) (auto simp: cross_fits_def)
  qed
qed

lemma gate_gate_full: "gate (gate out capabilities_full) caps = gate out caps"
  by (cases out) (simp_all add: gate_def)

lemma gate_id: "gate (gate out caps) caps = gate out caps"
  by (cases out) (simp_all add: gate_def)

lemma validate_snapshot_not_planned: "validate_snapshot s intent \<noteq> Inl (Planned plan)"
  by (auto simp: validate_snapshot_def Let_def bind_r_Inl_iff malformed_def
      split: if_splits option.splits sum.splits)

lemma gate_validate: "validate_snapshot s intent = Inl out \<Longrightarrow> gate out caps = out"
  using validate_snapshot_not_planned [of s intent] by (cases out) (auto simp: gate_def)

lemma plan_cross_output_gate:
  "plan_cross_output s intent caps src path sole
     = gate (plan_cross_output s intent capabilities_full src path sole) caps"
  by (auto simp: plan_cross_output_def gate_gate_full split: option.splits)
    (simp_all add: gate_def)

lemma plan_move_gate: "plan_move_with_capabilities s intent caps = gate (plan_move s intent) caps"
proof (cases "validate_snapshot s intent")
  case (Inl out)
  then show ?thesis by (simp add: plan_move_def plan_move_with_capabilities_def gate_validate)
next
  case (Inr src)
  note v = this
  show ?thesis
  proof (cases "out_tree src")
    case None
    with v show ?thesis by (simp add: plan_move_def plan_move_with_capabilities_def)
  next
    case (Some t)
    note t = this
    show ?thesis
    proof (cases "path_to t (mi_focused_leaf intent)")
      case None
      with v t show ?thesis
        by (simp add: plan_move_def plan_move_with_capabilities_def gate_def)
    next
      case (Some path)
      with v t show ?thesis
        by (cases "plan_local intent src path")
          (simp_all add: plan_move_def plan_move_with_capabilities_def gate_gate_full Let_def
            plan_cross_output_gate [of s intent caps])
    qed
  qed
qed

subsection \<open>Properties\<close>

definition example_adjacent :: "output_id \<Rightarrow> direction \<Rightarrow> output_id option" where
  "example_adjacent i d = (if i = ''A'' \<and> d = Right then Some ''B''
     else if i = ''B'' \<and> d = Left then Some ''A'' else None)"

definition example_outputs :: "out_topology list" where
  "example_outputs =
     [\<lparr>out_id = ''A'', out_workspace = ''w'', out_tree = Some (Group ''g'' Horizontal
         [Leaf ''a'', Group ''h'' Horizontal [Leaf ''b'', Leaf ''c''] [1, 2]] [1, 1]),
       out_adjacent = example_adjacent ''A''\<rparr>,
      \<lparr>out_id = ''B'', out_workspace = ''w'', out_tree = Some (Leaf ''d''),
       out_adjacent = example_adjacent ''B''\<rparr>]"

definition example_link :: "window_id \<Rightarrow> node_id \<Rightarrow> output_id \<Rightarrow> window_link" where
  "example_link w l p = \<lparr>link_window = w, link_leaf = l, link_output = p, link_workspace = ''w''\<rparr>"

definition example_snapshot :: snapshot where
  "example_snapshot = \<lparr>snap_outputs = example_outputs,
     snap_windows = [example_link ''wa'' ''a'' ''A'', example_link ''wb'' ''b'' ''A'',
       example_link ''wc'' ''c'' ''A'', example_link ''wd'' ''d'' ''B'']\<rparr>"

definition example_intent :: "node_id \<Rightarrow> window_id \<Rightarrow> output_id \<Rightarrow> direction \<Rightarrow> move_intent" where
  "example_intent l w p d = \<lparr>mi_source_output = p, mi_focused_leaf = l, mi_focused_window = w,
     mi_direction = d, mi_same_axis_move = GroupWithNeighbor\<rparr>"

lemma example_snapshot_wf: "wf_snapshot example_snapshot"
  by (auto simp: wf_snapshot_def example_snapshot_def example_outputs_def outputs_ok_def
      forest_ok_def link_ok_def tree_ids_def tree_leaves_def example_link_def group_ok_def
      u64_max_def example_adjacent_def split: if_splits)

lemma example_reciprocal: "reciprocal (snap_outputs example_snapshot)"
  by (auto simp: reciprocal_def example_snapshot_def example_outputs_def example_adjacent_def
      split: if_splits)

lemma example_intent_sel [simp]:
  "mi_source_output (example_intent l w p d) = p" "mi_focused_leaf (example_intent l w p d) = l"
  "mi_focused_window (example_intent l w p d) = w" "mi_direction (example_intent l w p d) = d"
  "mi_same_axis_move (example_intent l w p d) = GroupWithNeighbor"
  by (simp_all add: example_intent_def)

lemma example_link_sel [simp]:
  "link_window (example_link w l p) = w" "link_leaf (example_link w l p) = l"
  "link_output (example_link w l p) = p" "link_workspace (example_link w l p) = ''w''"
  by (simp_all add: example_link_def)

lemma example_snapshot_outputs [simp]: "snap_outputs example_snapshot = example_outputs"
  by (simp add: example_snapshot_def)

lemma example_validate:
  "validate_snapshot example_snapshot (example_intent ''c'' ''wc'' ''A'' d) =
     Inr (hd example_outputs)"
  "validate_snapshot example_snapshot (example_intent ''d'' ''wd'' ''B'' d) =
     Inr (last example_outputs)"
  by (simp_all add: validate_snapshot_iff example_snapshot_wf)
    (simp_all add: example_snapshot_def example_outputs_def)

text \<open>Two outputs may show the same workspace.\<close>

lemma shared_workspace_accepted:
  "validate_snapshot example_snapshot (example_intent ''c'' ''wc'' ''A'' d) = Inr (hd example_outputs)
    \<and> \<not> distinct (map out_workspace (snap_outputs example_snapshot))"
  using example_validate(1) by (simp add: example_outputs_def)

lemma example_plan_escape: "plan_move_with_capabilities example_snapshot
      (example_intent ''c'' ''wc'' ''A'' Right) capabilities_full =
    planned (example_intent ''c'' ''wc'' ''A'' Right)
      (EscapeParent R3 ''h'' ''g'' 1 (Some 2) ContinueNone)"
proof -
  have "plan_local (example_intent ''c'' ''wc'' ''A'' Right) (hd example_outputs)
      [\<lparr>pl_group = ''g'', pl_axis = Horizontal, pl_index = 1, pl_children =
          [Leaf ''a'', Group ''h'' Horizontal [Leaf ''b'', Leaf ''c''] [1, 2]]\<rparr>,
       \<lparr>pl_group = ''h'', pl_axis = Horizontal, pl_index = 1, pl_children =
          [Leaf ''b'', Leaf ''c'']\<rparr>] =
    planned (example_intent ''c'' ''wc'' ''A'' Right)
      (EscapeParent R3 ''h'' ''g'' 1 (Some 2) ContinueNone)"
    by (simp add: plan_local_def child_at_def plan_escape_def numeral_2_eq_2)
  moreover have "gate (planned i op) capabilities_full = planned i op" for i op by simp
  ultimately show ?thesis
    by (simp add: plan_move_with_capabilities_def example_validate example_outputs_def path_to_def
        planned_def numeral_2_eq_2)
qed

lemma example_plan_stuck:
  "plan_move example_snapshot (example_intent ''d'' ''wd'' ''B'' Up) = Noop NoAdjacentOutput"
  by (simp add: plan_move_def plan_move_with_capabilities_def example_validate example_outputs_def
      path_to_def plan_local_def plan_cross_output_def example_adjacent_def)

text \<open>
  C9. The snapshot validation accepts exactly the well-formed snapshots (unique non-empty output, node
  and window identities, non-empty workspace identities that outputs may share, closed and irreflexive adjacency, groups with at least two children and aligned
  positive shares, a bijection between leaves and windows, output and workspace of each link
  agreeing with the tree that holds its leaf) that hold the intent's source output and focus,
  and it returns that source output.
\<close>

theorem validate_snapshot_exact:
  "validate_snapshot s intent = Inr src \<longleftrightarrow> wf_snapshot s
     \<and> src \<in> set (snap_outputs s) \<and> out_id src = mi_source_output intent
     \<and> (\<exists>l \<in> set (snap_windows s). link_window l = mi_focused_window intent
         \<and> link_leaf l = mi_focused_leaf intent)"
  by (rule validate_snapshot_iff)

text \<open>
  C2. Every plan the movement planner emits fits the source tree: its container is the direct
  parent group of the focused leaf, its neighbour, target group, insertion index and parent are
  the ones the rule (R1 to R3) names, and R4 is planned only from the root edge onto a
  reciprocally adjacent output; the rule, capability and preconditions are those of the
  operation, and the adapter declared the capability.
\<close>

theorem plan_move_sound:
  assumes "plan_move_with_capabilities s intent caps = Planned plan"
  shows "\<exists>src t. src \<in> set (snap_outputs s) \<and> out_id src = mi_source_output intent
    \<and> out_tree src = Some t \<and> plan = for_operation intent (mp_operation plan)
    \<and> supports caps (op_required_capability (mp_operation plan))
    \<and> (op_fits t (mi_focused_leaf intent) (mi_direction intent) (mp_operation plan)
      \<or> cross_fits s src t intent (mp_operation plan))"
  by (rule plan_sound [OF assms])

theorem plan_move_sound_witness:
  "\<exists>src t. src \<in> set example_outputs \<and> out_id src = ''A'' \<and> out_tree src = Some t
    \<and> (op_fits t ''c'' Right (EscapeParent R3 ''h'' ''g'' 1 (Some 2) ContinueNone)
      \<or> cross_fits example_snapshot src t (example_intent ''c'' ''wc'' ''A'' Right)
          (EscapeParent R3 ''h'' ''g'' 1 (Some 2) ContinueNone))"
  using plan_move_sound [OF example_plan_escape [unfolded planned_def]]
  unfolding for_operation_op example_intent_sel example_snapshot_outputs by blast

text \<open>
  C3. On a well-formed snapshot with reciprocal adjacency and a linked focus the planner with
  all capabilities never rejects and never stops short: it plans an operation, or answers
  \<open>NoAdjacentOutput\<close>, and then the focused leaf is at the root edge of its output and
  nothing is adjacent in that direction.
\<close>

theorem plan_move_complete:
  assumes "wf_snapshot s" "focus_linked s intent" "reciprocal (snap_outputs s)"
  shows "(\<exists>plan. plan_move s intent = Planned plan)
    \<or> (plan_move s intent = Noop NoAdjacentOutput
       \<and> (\<exists>src t k. src \<in> set (snap_outputs s) \<and> out_id src = mi_source_output intent
         \<and> out_tree src = Some t \<and> out_adjacent src (mi_direction intent) = None
         \<and> at_root_edge t (mi_focused_leaf intent) (mi_direction intent) k))"
  by (rule plan_move_outcome [OF assms])

theorem plan_move_complete_witness:
  "\<exists>src t k. src \<in> set example_outputs \<and> out_id src = ''B'' \<and> out_tree src = Some t
     \<and> out_adjacent src Up = None \<and> at_root_edge t ''d'' Up k"
proof -
  have "focus_linked example_snapshot (example_intent ''d'' ''wd'' ''B'' Up)"
    by (simp add: focus_linked_def example_snapshot_def)
  from plan_move_complete [OF example_snapshot_wf this example_reciprocal] example_plan_stuck
  show ?thesis by (simp add: example_snapshot_def)
qed

text \<open>
  An adapter's capabilities only filter: planning under any capability set is planning
  with all of them followed by the gate, which turns a plan whose capability is undeclared into
  the unsupported-topology rejection and changes nothing else.
\<close>

theorem capabilities_only_gate:
  "plan_move_with_capabilities s intent caps = gate (plan_move s intent) caps"
  by (rule plan_move_gate)

end
