(* ===== verification/Focus_Resize.thy ===== *)
theory Focus_Resize
  imports Movement
begin

text \<open>
  Tree-relative focus and keyboard resize of \<open>tiler-core/src/directional.rs\<close>:
  \<open>plan_focus\<close> with its descent, the share-step transfer \<open>expected_resize_shares\<close>,
  the share replacement \<open>apply_resize_shares\<close>, and the boundary search
  \<open>plan_resize_step\<close>. The \<open>f64\<close> fraction helpers at the end of the file are not
  modelled. A child index is assumed below \<open>2 ^ 31\<close>, where \<open>as i32\<close> is exact.
\<close>

subsection \<open>Focus\<close>

datatype focus_plan = Focused node_id "node_id list" | Edge

text \<open>The loop of \<open>descend_focus_target\<close>: \<open>route\<close> already holds the current node.\<close>

function descend_from :: "node \<Rightarrow> direction \<Rightarrow> node_id list \<Rightarrow> focus_plan option" where
  "descend_from (Leaf i) d route = Some (Focused i route)"
| "descend_from (Group i a cs sh) d route =
     (if cs = [] then None
      else
        let child = (if a = axis_for_direction d
              then (if step_for d = 1 then hd cs else last cs)
              else hd cs)
        in descend_from child d (route @ [ident child]))"
  by pat_completeness auto

lemma child_smaller: "c \<in> set cs \<Longrightarrow> size c < size (Group i a cs sh)"
  by (induction cs) auto

termination descend_from
  by (relation "measure (\<lambda>(t, d, route). size t)") (auto intro!: child_smaller simp del: node.size)

definition descend_focus_target :: "node \<Rightarrow> direction \<Rightarrow> focus_plan option" where
  "descend_focus_target current d = descend_from current d [ident current]"

text \<open>The loop over the ancestors, nearest first.\<close>

fun focus_levels :: "path_level list \<Rightarrow> direction \<Rightarrow> focus_plan option" where
  "focus_levels [] d = Some Edge"
| "focus_levels (l # ls) d =
     (if pl_axis l \<noteq> axis_for_direction d then focus_levels ls d
      else case child_at (pl_children l) (int (pl_index l) + step_for d) of
        None \<Rightarrow> focus_levels ls d
      | Some sibling \<Rightarrow> descend_focus_target sibling d)"

definition plan_focus :: "node \<Rightarrow> node_id \<Rightarrow> direction \<Rightarrow> focus_plan option" where
  "plan_focus tree focused_leaf d =
     (if focused_leaf = [] then None
      else if check_focus_node tree {} = None then None
      else case path_to tree focused_leaf of
        None \<Rightarrow> None
      | Some path \<Rightarrow> if path = [] then Some Edge else focus_levels (rev path) d)"

subsection \<open>The share-step transfer\<close>

definition resize_step_denominator :: nat where
  "resize_step_denominator = 16"

record resize_step =
  rs_target_group :: node_id
  rs_focused_index :: nat
  rs_neighbor_index :: nat
  rs_focused_child :: node_id
  rs_neighbor_child :: node_id
  rs_old_shares :: "nat list"
  rs_new_shares :: "nat list"

datatype resize_plan_error = NoBoundary | Malformed

fun resize_group_shares :: "node \<Rightarrow> node_id \<Rightarrow> nat list option"
  and resize_group_shares_in :: "node list \<Rightarrow> node_id \<Rightarrow> nat list option" where
  "resize_group_shares (Leaf i) g = None"
| "resize_group_shares (Group i a cs sh) g =
     (if i = g then Some sh else resize_group_shares_in cs g)"
| "resize_group_shares_in [] g = None"
| "resize_group_shares_in (c # cs) g =
     (case resize_group_shares c g of Some found \<Rightarrow> Some found | None \<Rightarrow> resize_group_shares_in cs g)"

text \<open>\<open>out.push(share.checked_mul(16)?)\<close> over the shares.\<close>

fun scale_shares :: "nat \<Rightarrow> nat list \<Rightarrow> nat list option" where
  "scale_shares k [] = Some []"
| "scale_shares k (s # ss) = Option.bind (checked_mul_u64 s k) (\<lambda>v.
     Option.bind (scale_shares k ss) (\<lambda>vs. Some (v # vs)))"

definition transfer_share :: "nat list \<Rightarrow> nat \<Rightarrow> nat \<Rightarrow> nat \<Rightarrow> nat \<Rightarrow> nat list option" where
  "transfer_share scaled scaled_pair delta f n =
     Option.bind (checked_add_u64 (scaled ! f) delta) (\<lambda>grown.
     Option.bind (checked_sub_u64 (scaled ! n) delta) (\<lambda>shrunk.
       let nxt = (scaled[f := grown])[n := shrunk] in
       if 0 \<in> set nxt then None
       else Option.bind (checked_add_u64 (nxt ! f) (nxt ! n)) (\<lambda>pair.
         if pair \<noteq> scaled_pair then None
         else if nxt = scaled then None
         else Some nxt)))"

definition expected_resize_shares :: "nat list \<Rightarrow> nat \<Rightarrow> nat \<Rightarrow> nat list option" where
  "expected_resize_shares old f n =
     (if length old < 2 \<or> length old \<le> f \<or> length old \<le> n \<or> f = n then None
      else if \<bar>int f - int n\<bar> \<noteq> 1 then None
      else if 0 \<in> set old then None
      else Option.bind (checked_total 0 old) (\<lambda>total.
        if total = 0 then None
        else Option.bind (checked_add_u64 (old ! f) (old ! n)) (\<lambda>pair_total.
          if pair_total = 0 then None
          else Option.bind
            (if pair_total mod resize_step_denominator \<noteq> 0
             then scale_shares resize_step_denominator old else Some old) (\<lambda>scaled.
            Option.bind (checked_total 0 scaled) (\<lambda>scaled_total.
            Option.bind (checked_add_u64 (scaled ! f) (scaled ! n)) (\<lambda>scaled_pair.
              if scaled_pair mod resize_step_denominator \<noteq> 0 then None
              else
                let delta = scaled_pair div resize_step_denominator; donor = scaled ! n in
                if delta = 0 then None
                else if donor \<le> 1 then None
                else if donor \<le> delta
                then Option.bind (checked_sub_u64 donor 1) (\<lambda>clamped.
                       if clamped = 0 then None else transfer_share scaled scaled_pair clamped f n)
                else transfer_share scaled scaled_pair delta f n))))))"

subsection \<open>Replacing the shares of one group\<close>

fun apply_resize_shares_checked ::
  "node \<Rightarrow> node_id \<Rightarrow> nat list \<Rightarrow> nat \<Rightarrow> (node \<times> nat) option"
  and apply_resize_children ::
  "node list \<Rightarrow> node_id \<Rightarrow> nat list \<Rightarrow> nat \<Rightarrow> (node list \<times> nat) option" where
  "apply_resize_shares_checked (Leaf i) g new k = Some (Leaf i, k)"
| "apply_resize_shares_checked (Group i a cs sh) g new k =
     (case apply_resize_children cs g new k of
        None \<Rightarrow> None
      | Some (cs', k') \<Rightarrow>
          if i = g
          then (if length cs \<noteq> length new \<or> length sh \<noteq> length cs then None
                else Some (Group i a cs' new, k' + 1))
          else Some (Group i a cs' sh, k'))"
| "apply_resize_children [] g new k = Some ([], k)"
| "apply_resize_children (c # cs) g new k =
     (case apply_resize_shares_checked c g new k of
        None \<Rightarrow> None
      | Some (c', k') \<Rightarrow>
          (case apply_resize_children cs g new k' of
             None \<Rightarrow> None
           | Some (cs', k'') \<Rightarrow> Some (c' # cs', k'')))"

definition apply_resize_shares :: "node \<Rightarrow> node_id \<Rightarrow> nat list \<Rightarrow> node option" where
  "apply_resize_shares tree g new =
     (if g = [] \<or> length new < 2 \<or> 0 \<in> set new then None
      else Option.bind (checked_total 0 new) (\<lambda>total.
        if total = 0 then None
        else if validate_resize_tree tree {} = None then None
        else Option.bind (apply_resize_shares_checked tree g new 0) (\<lambda>(t', replacements).
          if replacements \<noteq> 1 then None else Some t')))"

subsection \<open>The boundary search\<close>

text \<open>
  The share arithmetic of one boundary in the loop of \<open>plan_resize_step\<close>: overflow and
  malformed shares return, \<open>Inr None\<close> is an exhausted donor (\<open>continue\<close>), \<open>Inr
  (Some new)\<close> the transfer.
\<close>

definition resize_boundary ::
  "nat list \<Rightarrow> nat \<Rightarrow> nat \<Rightarrow> resize_plan_error + nat list option" where
  "resize_boundary old f n =
     (if 0 \<in> set old then Inl Malformed
      else bind_r (ok_or Malformed (checked_add_u64 (old ! f) (old ! n))) (\<lambda>pair_total.
        let needs_scaling = pair_total mod resize_step_denominator \<noteq> 0 in
        bind_r (ok_or Malformed (if needs_scaling
            then checked_mul_u64 (old ! n) resize_step_denominator
            else Some (old ! n))) (\<lambda>scaled_donor.
        if scaled_donor \<le> 1 then Inr None
        else bind_r (ok_or Malformed (if needs_scaling
            then Option.bind (checked_mul_u64 (old ! f) resize_step_denominator)
                   (\<lambda>scaled_focused. checked_add_u64 scaled_focused scaled_donor)
            else Some pair_total)) (\<lambda>scaled_pair.
          if scaled_pair div resize_step_denominator = 0 then Inr None
          else bind_r
            (if scaled_donor \<le> scaled_pair div resize_step_denominator
             then bind_r (ok_or Malformed (checked_sub_u64 scaled_donor 1)) (\<lambda>v. Inr (v = 0))
             else Inr False) (\<lambda>exhausted.
            if exhausted then Inr None
            else bind_r (ok_or Malformed (expected_resize_shares old f n)) (\<lambda>new_shares.
              Inr (Some new_shares)))))))"

text \<open>The loop over the ancestors, nearest first.\<close>

fun resize_levels ::
  "node \<Rightarrow> direction \<Rightarrow> path_level list \<Rightarrow> resize_plan_error + resize_step" where
  "resize_levels tree d [] = Inl NoBoundary"
| "resize_levels tree d (l # ls) =
     (if pl_axis l \<noteq> axis_for_direction d then resize_levels tree d ls
      else
        let neighbor = int (pl_index l) + step_for d in
        if neighbor < 0 \<or> length (pl_children l) \<le> nat neighbor then resize_levels tree d ls
        else
          let n = nat neighbor; f = pl_index l in
          bind_r (ok_or Malformed (resize_group_shares tree (pl_group l))) (\<lambda>old.
          if length old \<noteq> length (pl_children l) then Inl Malformed
          else bind_r (resize_boundary old f n) (\<lambda>boundary.
            case boundary of
              None \<Rightarrow> resize_levels tree d ls
            | Some new_shares \<Rightarrow>
                Inr \<lparr>rs_target_group = pl_group l, rs_focused_index = f,
                     rs_neighbor_index = n, rs_focused_child = ident (pl_children l ! f),
                     rs_neighbor_child = ident (pl_children l ! n),
                     rs_old_shares = old, rs_new_shares = new_shares\<rparr>)))"

definition plan_resize_step ::
  "node \<Rightarrow> node_id \<Rightarrow> direction \<Rightarrow> resize_plan_error + resize_step" where
  "plan_resize_step tree focused_leaf d =
     (if focused_leaf = [] then Inl Malformed
      else if check_focus_node tree {} = None then Inl Malformed
      else bind_r (ok_or Malformed (path_to tree focused_leaf)) (\<lambda>path.
        if path = [] then Inl NoBoundary else resize_levels tree d (rev path)))"

subsection \<open>Levels of a path and their groups\<close>

lemma leaves_subnode: "n \<in> set (subnodes t) \<Longrightarrow> set (leaves n) \<subseteq> set (leaves t)"
  by (induction t) auto

lemma distinct_leaves_subnode:
  "distinct (leaves t) \<Longrightarrow> n \<in> set (subnodes t) \<Longrightarrow> distinct (leaves n)"
  by (induction t) (auto dest: distinct_concat_member simp del: distinct_concat_iff)

lemma distinct_group_ids_subnode:
  "distinct (group_ids t) \<Longrightarrow> n \<in> set (subnodes t) \<Longrightarrow> distinct (group_ids n)"
  by (induction t) (auto dest: distinct_concat_member simp del: distinct_concat_iff)

lemma subnode_group_id: "Group g a cs sh \<in> set (subnodes t) \<Longrightarrow> g \<in> set (group_ids t)"
  by (induction t) auto

lemma wf_node_subnode: "wf_node t \<Longrightarrow> n \<in> set (subnodes t) \<Longrightarrow> wf_node n"
proof (induction t)
  case (Group i a cs sh)
  then show ?case
    by (auto simp: wf_node_def simp del: distinct_concat_iff dest: distinct_concat_member)
qed simp

text \<open>Each level of a path names a group of the tree; the leaf is below the indexed child.\<close>

definition level_ok :: "node \<Rightarrow> node_id \<Rightarrow> path_level \<Rightarrow> bool" where
  "level_ok t x l \<longleftrightarrow> pl_index l < length (pl_children l)
     \<and> x \<in> set (leaves (pl_children l ! pl_index l))
     \<and> (\<exists>sh. Group (pl_group l) (pl_axis l) (pl_children l) sh \<in> set (subnodes t))"

lemma path_ok_levels: "path_ok t path x \<Longrightarrow> l \<in> set path \<Longrightarrow> level_ok t x l"
proof (induction t path x rule: path_ok.induct)
  case (2 t m ls x)
  then obtain sh where t: "t = Group (pl_group m) (pl_axis m) (pl_children m) sh"
    and m: "pl_index m < length (pl_children m)" "path_ok (pl_children m ! pl_index m) ls x"
    by (cases t) auto
  show ?case
  proof (cases "l = m")
    case True
    with t m show ?thesis using path_ok_leaf by (auto simp: level_ok_def)
  next
    case False
    with 2 t m have "level_ok (pl_children m ! pl_index m) x l" by auto
    with t m show ?thesis by (fastforce simp: level_ok_def)
  qed
qed simp

lemma level_neighbour:
  assumes "level_ok t x l" "wf_groups t" "distinct (leaves t)"
    "child_at (pl_children l) k = Some c" "k \<noteq> int (pl_index l)"
  shows "c \<in> set (pl_children l)" "wf_groups c" "set (leaves c) \<subseteq> set (leaves t)"
    "x \<notin> set (leaves c)"
proof -
  from assms(1) obtain sh where sub:
    "Group (pl_group l) (pl_axis l) (pl_children l) sh \<in> set (subnodes t)"
    by (auto simp: level_ok_def)
  from assms(4) have k: "0 \<le> k" "nat k < length (pl_children l)" "c = pl_children l ! nat k"
    by (auto simp: child_at_def split: if_splits)
  then show c: "c \<in> set (pl_children l)" by simp
  show "wf_groups c" using wf_groups_subnodes [OF assms(2) sub] c by simp
  show "set (leaves c) \<subseteq> set (leaves t)" using leaves_subnode [OF sub] c by auto
  have "distinct (concat (map leaves (pl_children l)))"
    using distinct_leaves_subnode [OF assms(3) sub] by simp
  moreover have "pl_index l \<noteq> nat k" using assms(5) k(1) by linarith
  ultimately show "x \<notin> set (leaves c)"
    using distinct_concat_nth_neq [of leaves "pl_children l" "pl_index l" "nat k"] assms(1) k
    by (auto simp: level_ok_def)
qed

subsection \<open>Focus lemmas\<close>

text \<open>The descent ends at a leaf of the subtree and its route ends there.\<close>

lemma descend_from_ok:
  "wf_groups t \<Longrightarrow> route \<noteq> [] \<Longrightarrow> last route = ident t \<Longrightarrow>
    \<exists>x r. descend_from t d route = Some (Focused x r) \<and> x \<in> set (leaves t) \<and> last r = x
      \<and> r \<noteq> [] \<and> hd r = hd route"
proof (induction t d route rule: descend_from.induct)
  case (1 i d route)
  then show ?case by auto
next
  case (2 i a cs sh d route)
  let ?c = "if a = axis_for_direction d then (if step_for d = 1 then hd cs else last cs) else hd cs"
  have cs: "cs \<noteq> []" using 2(2) by (auto simp: group_ok_def)
  then have c: "?c \<in> set cs" by simp
  then have "wf_groups ?c" using 2(2) by auto
  from 2(1) [OF cs refl this] obtain x r where
    "descend_from ?c d (route @ [ident ?c]) = Some (Focused x r)" "x \<in> set (leaves ?c)"
    "last r = x" "r \<noteq> []" "hd r = hd (route @ [ident ?c])" by auto
  then show ?case using cs c 2(3) by (auto simp: Let_def)
qed

lemma descend_focus_target_ok:
  assumes "wf_groups t"
  obtains x r where "descend_focus_target t d = Some (Focused x r)" "x \<in> set (leaves t)"
    "last r = x" "r \<noteq> []" "hd r = ident t"
  using descend_from_ok [OF assms, of "[ident t]" d] that
  by (auto simp: descend_focus_target_def)

text \<open>No level has the axis of the direction and a sibling in it.\<close>

definition level_open :: "direction \<Rightarrow> path_level \<Rightarrow> bool" where
  "level_open d l \<longleftrightarrow> pl_axis l = axis_for_direction d
     \<and> child_at (pl_children l) (int (pl_index l) + step_for d) \<noteq> None"

lemma focus_levels_find:
  "focus_levels ls d = (case find (level_open d) ls of
     None \<Rightarrow> Some Edge
   | Some l \<Rightarrow> descend_focus_target
       (the (child_at (pl_children l) (int (pl_index l) + step_for d))) d)"
  by (induction ls) (auto simp: level_open_def split: option.splits)

text \<open>
  \<open>sibling_leaf t d x y\<close>: some group along the axis of \<open>d\<close> has \<open>x\<close> below one
  child and \<open>y\<close> below the next child in direction \<open>d\<close>.
\<close>

definition sibling_leaf :: "node \<Rightarrow> direction \<Rightarrow> node_id \<Rightarrow> node_id \<Rightarrow> bool" where
  "sibling_leaf t d x y \<longleftrightarrow> (\<exists>n \<in> set (subnodes t). case n of
       Leaf i \<Rightarrow> False
     | Group g a cs sh \<Rightarrow> a = axis_for_direction d \<and> (\<exists>i < length cs. x \<in> set (leaves (cs ! i))
         \<and> (case child_at cs (int i + step_for d) of
              None \<Rightarrow> False | Some c \<Rightarrow> y \<in> set (leaves c))))"

lemma sibling_leafI:
  "Group g (axis_for_direction d) cs sh \<in> set (subnodes t) \<Longrightarrow> i < length cs \<Longrightarrow>
    x \<in> set (leaves (cs ! i)) \<Longrightarrow> child_at cs (int i + step_for d) = Some c \<Longrightarrow>
    y \<in> set (leaves c) \<Longrightarrow> sibling_leaf t d x y"
  unfolding sibling_leaf_def by (rule bexI) auto

lemma sibling_leafE:
  assumes "sibling_leaf t d x y"
  obtains g cs sh i c where "Group g (axis_for_direction d) cs sh \<in> set (subnodes t)"
    "i < length cs" "x \<in> set (leaves (cs ! i))" "child_at cs (int i + step_for d) = Some c"
    "y \<in> set (leaves c)"
proof -
  from assms obtain n where n: "n \<in> set (subnodes t)" and P: "case n of
       Leaf i \<Rightarrow> False
     | Group g a cs sh \<Rightarrow> a = axis_for_direction d \<and> (\<exists>i < length cs. x \<in> set (leaves (cs ! i))
         \<and> (case child_at cs (int i + step_for d) of
              None \<Rightarrow> False | Some c \<Rightarrow> y \<in> set (leaves c)))"
    unfolding sibling_leaf_def by blast
  show thesis
  proof (cases n)
    case (Leaf i)
    with P show ?thesis by simp
  next
    case (Group g a cs sh)
    with P obtain i where i: "a = axis_for_direction d" "i < length cs" "x \<in> set (leaves (cs ! i))"
      and c: "case child_at cs (int i + step_for d) of None \<Rightarrow> False | Some c \<Rightarrow> y \<in> set (leaves c)"
      by auto
    from c obtain c where "child_at cs (int i + step_for d) = Some c" "y \<in> set (leaves c)"
      by (cases "child_at cs (int i + step_for d)") auto
    with n Group i show ?thesis by (auto intro: that)
  qed
qed

lemma path_covers:
  "path_ok t path x \<Longrightarrow> distinct (leaves t) \<Longrightarrow> Group g a cs sh \<in> set (subnodes t) \<Longrightarrow>
    i < length cs \<Longrightarrow> x \<in> set (leaves (cs ! i)) \<Longrightarrow>
    \<lparr>pl_group = g, pl_axis = a, pl_index = i, pl_children = cs\<rparr> \<in> set path"
proof (induction t path x rule: path_ok.induct)
  case (1 t x)
  then show ?case by simp
next
  case (2 t m ls x)
  then obtain msh where t: "t = Group (pl_group m) (pl_axis m) (pl_children m) msh"
    and m: "pl_index m < length (pl_children m)" "path_ok (pl_children m ! pl_index m) ls x"
    by (cases t) auto
  have d: "distinct (concat (map leaves (pl_children m)))" using 2(3) t by simp
  have x: "x \<in> set (leaves (pl_children m ! pl_index m))" using m(2) by (rule path_ok_leaf)
  have only: "j = pl_index m" if "j < length (pl_children m)" "x \<in> set (leaves (pl_children m ! j))" for j
    using distinct_concat_nth_neq [OF d that(1) m(1)] that x by auto
  show ?case
  proof (cases "Group g a cs sh = t")
    case True
    with t only [of i] 2(5,6) show ?thesis by auto
  next
    case False
    with 2(4) t obtain c where "c \<in> set (pl_children m)" "Group g a cs sh \<in> set (subnodes c)"
      by auto
    then obtain j where j: "j < length (pl_children m)"
      "Group g a cs sh \<in> set (subnodes (pl_children m ! j))" by (auto simp: in_set_conv_nth)
    moreover have "x \<in> set (leaves (Group g a cs sh))" using 2(5,6) by (auto intro!: nth_mem bexI)
    ultimately have "j = pl_index m" using only leaves_subnode by blast
    moreover have "distinct (leaves (pl_children m ! pl_index m))"
      using distinct_concat_member [OF d nth_mem [OF m(1)]] .
    ultimately show ?thesis using 2(1) [of "pl_group m" "pl_axis m" "pl_children m" msh] t m j 2(5,6)
      by auto
  qed
qed

lemma level_open_sibling:
  assumes "path_ok t path x" "wf_groups t" "distinct (leaves t)"
  shows "(\<exists>l \<in> set path. level_open d l) \<longleftrightarrow> (\<exists>y. sibling_leaf t d x y)"
proof
  assume "\<exists>l \<in> set path. level_open d l"
  then obtain l c where l: "l \<in> set path" "pl_axis l = axis_for_direction d"
    "child_at (pl_children l) (int (pl_index l) + step_for d) = Some c"
    by (auto simp: level_open_def)
  from path_ok_levels [OF assms(1) l(1)] have ok: "level_ok t x l" .
  have "wf_groups c"
    using level_neighbour(2) [OF ok assms(2,3) l(3)] step_for_cases [of d] by auto
  then obtain y where "y \<in> set (leaves c)" using leaves_nonempty [of c] by (cases "leaves c") auto
  with ok l show "\<exists>y. sibling_leaf t d x y"
    by (auto simp: level_ok_def intro: sibling_leafI)
next
  assume "\<exists>y. sibling_leaf t d x y"
  then obtain y g cs sh i c where
    "Group g (axis_for_direction d) cs sh \<in> set (subnodes t)" "i < length cs"
    "x \<in> set (leaves (cs ! i))" "child_at cs (int i + step_for d) = Some c"
    by (auto elim: sibling_leafE)
  moreover from this path_covers [OF assms(1,3)]
  have "\<lparr>pl_group = g, pl_axis = axis_for_direction d, pl_index = i, pl_children = cs\<rparr> \<in> set path"
    by blast
  ultimately show "\<exists>l \<in> set path. level_open d l"
    by (auto simp: level_open_def intro!: bexI)
qed

lemma wf_node_leaf: "wf_node t \<Longrightarrow> x \<in> set (leaves t) \<Longrightarrow> x \<noteq> []"
  using leaves_subset_node_ids [of t] by (auto simp: wf_node_def)

lemma plan_focus_eq:
  "plan_focus t x d = (if \<not> wf_node t then None
     else case path_to t x of None \<Rightarrow> None | Some path \<Rightarrow> focus_levels (rev path) d)"
proof (cases "wf_node t")
  case False
  then show ?thesis by (simp add: plan_focus_def check_focus_None)
next
  case True
  show ?thesis
  proof (cases "path_to t x")
    case None
    with True show ?thesis by (simp add: plan_focus_def)
  next
    case (Some path)
    then have "x \<noteq> []" using wf_node_leaf [OF True] path_ok_leaf path_to_ok by blast
    with True Some show ?thesis by (simp add: plan_focus_def check_focus_None)
  qed
qed

lemma focus_levels_sound:
  assumes "path_ok t path x" "wf_node t" "set ls \<subseteq> set path" "focus_levels ls d = out"
  shows "out = Some Edge \<and> (\<forall>l \<in> set ls. \<not> level_open d l)
    \<or> (\<exists>y r. out = Some (Focused y r) \<and> sibling_leaf t d x y \<and> y \<noteq> x \<and> last r = y
        \<and> (\<exists>l \<in> set ls. level_open d l))"
proof (cases "find (level_open d) ls")
  case None
  with assms(4) show ?thesis by (auto simp: focus_levels_find find_None_iff)
next
  case (Some l)
  then have l: "l \<in> set ls" "level_open d l" by (auto simp: find_Some_iff)
  then obtain c where c: "pl_axis l = axis_for_direction d"
    "child_at (pl_children l) (int (pl_index l) + step_for d) = Some c"
    by (auto simp: level_open_def)
  have ok: "level_ok t x l" using path_ok_levels [OF assms(1)] l(1) assms(3) by auto
  have t: "wf_groups t" "distinct (leaves t)"
    using assms(2) by (auto simp: wf_node_def distinct_node_ids)
  have nb: "wf_groups c" "x \<notin> set (leaves c)"
    using level_neighbour [OF ok t c(2)] step_for_cases [of d] by auto
  obtain y r where y: "descend_focus_target c d = Some (Focused y r)" "y \<in> set (leaves c)"
    "last r = y" using descend_focus_target_ok [OF nb(1)] by metis
  have "out = Some (Focused y r)" using assms(4) Some c y(1) by (simp add: focus_levels_find)
  moreover have "sibling_leaf t d x y"
    using ok c y(2) by (auto simp: level_ok_def intro: sibling_leafI)
  ultimately show ?thesis using y nb(2) l by auto
qed

lemma plan_focus_cases:
  assumes "wf_node t" "x \<in> set (leaves t)"
  shows "(plan_focus t x d = Some Edge \<and> (\<nexists>y. sibling_leaf t d x y))
    \<or> (\<exists>y r. plan_focus t x d = Some (Focused y r) \<and> sibling_leaf t d x y \<and> y \<noteq> x \<and> last r = y)"
proof -
  obtain path where path: "path_to t x = Some path"
    using assms(2) path_to_None [of t x] by (cases "path_to t x") auto
  then have eq: "plan_focus t x d = focus_levels (rev path) d"
    using assms(1) by (simp add: plan_focus_eq)
  have t: "wf_groups t" "distinct (leaves t)"
    using assms(1) by (auto simp: wf_node_def distinct_node_ids)
  note ok = path_to_ok [OF path]
  from focus_levels_sound [OF ok assms(1) _ refl, of "rev path" d]
    level_open_sibling [OF ok t, of d]
  show ?thesis unfolding eq by auto
qed

subsection \<open>The share-step transfer in closed form\<close>

lemma two_shares_le_sum:
  assumes "f < length xs" "n < length xs" "f \<noteq> n"
  shows "xs ! f + xs ! n \<le> sum_list (xs :: nat list)"
proof -
  have "(\<Sum>i \<in> {f, n}. xs ! i) \<le> (\<Sum>i \<in> {..<length xs}. xs ! i)"
    using assms(1,2) by (intro sum_mono2) auto
  with assms(3) show ?thesis by (simp add: sum_list_sum_nth atLeast0LessThan)
qed

lemma share_le_sum: "n < length xs \<Longrightarrow> xs ! n \<le> sum_list (xs :: nat list)"
  by (simp add: member_le_sum_list)

lemma scale_shares_eq:
  "scale_shares k ss = (if \<forall>s \<in> set ss. s * k \<le> u64_max then Some (map (\<lambda>s. s * k) ss) else None)"
  by (induction ss) auto

lemma sum_list_map_mult: "sum_list (map (\<lambda>s. s * k) ss) = sum_list ss * (k :: nat)"
  by (induction ss) (auto simp: algebra_simps)

definition resize_scale :: "nat list \<Rightarrow> nat \<Rightarrow> nat \<Rightarrow> nat" where
  "resize_scale old f n = (if (old ! f + old ! n) mod 16 = 0 then 1 else 16)"

definition resize_delta :: "nat list \<Rightarrow> nat \<Rightarrow> nat \<Rightarrow> nat" where
  "resize_delta old f n = min (resize_scale old f n * (old ! f + old ! n) div 16)
     (resize_scale old f n * old ! n - 1)"

definition resize_result :: "nat list \<Rightarrow> nat \<Rightarrow> nat \<Rightarrow> nat list" where
  "resize_result old f n = (map (\<lambda>s. s * resize_scale old f n) old)
     [f := old ! f * resize_scale old f n + resize_delta old f n,
      n := old ! n * resize_scale old f n - resize_delta old f n]"

definition resize_input_ok :: "nat list \<Rightarrow> nat \<Rightarrow> nat \<Rightarrow> bool" where
  "resize_input_ok old f n \<longleftrightarrow> f < length old \<and> n < length old \<and> (n = Suc f \<or> f = Suc n)
     \<and> 0 \<notin> set old \<and> sum_list old \<le> u64_max"

definition resize_possible :: "nat list \<Rightarrow> nat \<Rightarrow> nat \<Rightarrow> bool" where
  "resize_possible old f n \<longleftrightarrow> sum_list old * resize_scale old f n \<le> u64_max
     \<and> 1 < old ! n * resize_scale old f n"

lemma resize_scale_dvd: "16 dvd resize_scale old f n * (old ! f + old ! n)"
  by (auto simp: resize_scale_def mod_eq_0_iff_dvd)

lemma resize_scale_pos [simp]: "0 < resize_scale old f n" "resize_scale old f n \<noteq> 0"
  by (simp_all add: resize_scale_def)

lemma transfer_share_eq:
  assumes "f < length sc" "n < length sc" "f \<noteq> n" "0 \<notin> set sc" "sum_list sc \<le> u64_max"
    "0 < delta" "delta < sc ! n"
  shows "transfer_share sc (sc ! f + sc ! n) delta f n = Some (sc[f := sc ! f + delta, n := sc ! n - delta])"
proof -
  have le: "sc ! f + sc ! n \<le> u64_max"
    using two_shares_le_sum [OF assms(1-3)] assms(5) by linarith
  let ?nxt = "sc[f := sc ! f + delta, n := sc ! n - delta]"
  have "set ?nxt \<subseteq> insert (sc ! n - delta) (insert (sc ! f + delta) (set sc))"
    by (meson insert_mono order_trans set_update_subset_insert)
  then have "0 \<notin> set ?nxt" using assms(4,6,7) by auto
  moreover have "?nxt ! n \<noteq> sc ! n" using assms(2,6,7) by simp
  then have "?nxt \<noteq> sc" by metis
  ultimately show ?thesis
    using assms(1-3,6,7) le by (simp add: transfer_share_def Let_def)
qed

lemma expected_resize_iff:
  "expected_resize_shares old f n =
     (if resize_input_ok old f n \<and> resize_possible old f n then Some (resize_result old f n) else None)"
proof (cases "resize_input_ok old f n")
  case False
  then have "expected_resize_shares old f n = None"
    unfolding expected_resize_shares_def resize_input_ok_def by (auto simp: abs_if split: if_splits)
  with False show ?thesis by simp
next
  case True
  then have in_ok: "f < length old" "n < length old" "f \<noteq> n" "0 \<notin> set old" "sum_list old \<le> u64_max"
    and adj: "\<bar>int f - int n\<bar> = 1" by (auto simp: resize_input_ok_def)
  let ?K = "resize_scale old f n"
  let ?sc = "map (\<lambda>s. s * ?K) old"
  have pos: "0 < old ! f" "0 < old ! n" "0 < sum_list old"
    using in_ok nth_pos [of old] share_le_sum [of n old] by force+
  have nz: "\<not> (\<forall>s \<in> set old. s = 0)" using pos(1) nth_mem [OF in_ok(1)] by auto
  have pair: "old ! f + old ! n \<le> u64_max"
    using two_shares_le_sum [OF in_ok(1-3)] in_ok(5) by linarith
  have scaled: "(if (old ! f + old ! n) mod 16 \<noteq> 0 then scale_shares 16 old else Some old) =
      (if \<forall>s \<in> set old. s * ?K \<le> u64_max then Some ?sc else None)"
    using in_ok(5) member_le_sum_list
    by (auto simp: scale_shares_eq resize_scale_def intro: order_trans)
  have K1: "expected_resize_shares old f n =
    Option.bind (if \<forall>s \<in> set old. s * ?K \<le> u64_max then Some ?sc else None) (\<lambda>scaled.
      Option.bind (checked_total 0 scaled) (\<lambda>scaled_total.
      Option.bind (checked_add_u64 (scaled ! f) (scaled ! n)) (\<lambda>scaled_pair.
        if scaled_pair mod 16 \<noteq> 0 then None
        else
          let delta = scaled_pair div 16; donor = scaled ! n in
          if delta = 0 then None
          else if donor \<le> 1 then None
          else if donor \<le> delta
          then Option.bind (checked_sub_u64 donor 1) (\<lambda>clamped.
                 if clamped = 0 then None else transfer_share scaled scaled_pair clamped f n)
          else transfer_share scaled scaled_pair delta f n)))"
    unfolding expected_resize_shares_def scaled [symmetric] resize_step_denominator_def
    using in_ok adj pos pair nz by auto
  show ?thesis
  proof (cases "sum_list old * ?K \<le> u64_max")
    case False
    then have "expected_resize_shares old f n = None"
      unfolding K1 by (simp add: sum_list_map_mult)
    with False show ?thesis by (simp add: resize_possible_def)
  next
    case total: True
    have all: "\<forall>s \<in> set old. s * ?K \<le> u64_max"
    proof
      fix s
      assume "s \<in> set old"
      then have "s \<le> sum_list old" by (simp add: member_le_sum_list)
      then show "s * ?K \<le> u64_max" using total mult_le_mono1 order_trans by blast
    qed
    have sc: "f < length ?sc" "n < length ?sc" "0 \<notin> set ?sc" "sum_list ?sc \<le> u64_max"
      using in_ok total by (auto simp: sum_list_map_mult)
    have scf: "?sc ! f + ?sc ! n = ?K * (old ! f + old ! n)" "?sc ! n = old ! n * ?K" "?sc ! f = old ! f * ?K"
      using in_ok by (auto simp: algebra_simps)
    have le: "?sc ! f + ?sc ! n \<le> u64_max"
      using two_shares_le_sum [OF sc(1,2) in_ok(3)] sc(4) by linarith
    have m: "(?sc ! f + ?sc ! n) mod 16 = 0"
      unfolding scf(1) using resize_scale_dvd [of old f n] by (simp add: mod_eq_0_iff_dvd)
    have d: "(?sc ! f + ?sc ! n) div 16 \<noteq> 0"
      using m pos unfolding scf(1) by (auto simp: div_eq_0_iff)
    have K2: "expected_resize_shares old f n =
      (let delta = (?sc ! f + ?sc ! n) div 16; donor = ?sc ! n in
          if donor \<le> 1 then None
          else if donor \<le> delta
          then transfer_share ?sc (?sc ! f + ?sc ! n) (donor - 1) f n
          else transfer_share ?sc (?sc ! f + ?sc ! n) delta f n)"
      unfolding K1 using all sc(4) le m d by (simp add: Let_def)
    have D: "resize_delta old f n = min ((?sc ! f + ?sc ! n) div 16) (?sc ! n - 1)"
      unfolding scf(1) unfolding scf(2) resize_delta_def by (simp add: mult.commute)
    show ?thesis
    proof (cases "1 < ?sc ! n")
      case False
      then show ?thesis unfolding K2 resize_possible_def scf(2) [symmetric] by (simp add: Let_def)
    next
      case donor: True
      have "0 < resize_delta old f n" "resize_delta old f n < ?sc ! n"
        using D d donor by auto
      from transfer_share_eq [OF sc(1,2) in_ok(3) sc(3,4) this]
      have T: "transfer_share ?sc (?sc ! f + ?sc ! n) (resize_delta old f n) f n
          = Some (resize_result old f n)"
        unfolding resize_result_def scf(2,3) .
      have "expected_resize_shares old f n =
          transfer_share ?sc (?sc ! f + ?sc ! n) (resize_delta old f n) f n"
        unfolding K2 D Let_def using donor
        by (cases "?sc ! n \<le> (?sc ! f + ?sc ! n) div 16") (simp_all add: min_def)
      with T donor total True show ?thesis by (simp add: resize_possible_def scf(2) [symmetric])
    qed
  qed
qed

lemma sum_list_two_update:
  assumes "f < length xs" "n < length xs" "f \<noteq> n" "u + v = xs ! f + xs ! n"
  shows "sum_list (xs[f := u, n := v]) = sum_list (xs :: nat list)"
proof -
  have "xs ! f \<le> sum_list xs" "xs[f := u] ! n \<le> sum_list (xs[f := u])"
    using assms(1,2) by (simp_all add: share_le_sum)
  with assms show ?thesis
    using two_shares_le_sum [OF assms(1-3)] by (simp add: sum_list_update)
qed

text \<open>
  What the transfer guarantees: positive shares of the same length, the total scaled exactly, the
  focused share grown by what the neighbour loses, every other share scaled alone.
\<close>

lemma resize_delta_bounds:
  assumes "resize_input_ok old f n" "resize_possible old f n"
  shows "0 < resize_delta old f n" "resize_delta old f n < old ! n * resize_scale old f n"
proof -
  have "0 < old ! n" "0 < old ! f"
    using assms(1) by (auto simp: resize_input_ok_def nth_pos)
  then have "0 < resize_scale old f n * (old ! f + old ! n)" by simp
  with resize_scale_dvd [of old f n]
  have "0 < resize_scale old f n * (old ! f + old ! n) div 16" by (simp add: dvd_imp_le div_greater_zero_iff)
  then show "0 < resize_delta old f n" "resize_delta old f n < old ! n * resize_scale old f n"
    using assms(2) by (auto simp: resize_delta_def resize_possible_def mult.commute)
qed

lemma resize_result_ok:
  assumes "resize_input_ok old f n" "resize_possible old f n"
  shows "length (resize_result old f n) = length old"
    "sum_list (resize_result old f n) = sum_list old * resize_scale old f n"
    "0 \<notin> set (resize_result old f n)"
    "resize_result old f n ! f = old ! f * resize_scale old f n + resize_delta old f n"
    "resize_result old f n ! n = old ! n * resize_scale old f n - resize_delta old f n"
    "\<And>j. j < length old \<Longrightarrow> j \<noteq> f \<Longrightarrow> j \<noteq> n \<Longrightarrow>
       resize_result old f n ! j = old ! j * resize_scale old f n"
proof -
  note d = resize_delta_bounds [OF assms]
  have idx: "f < length old" "n < length old" "f \<noteq> n" "0 \<notin> set old"
    using assms(1) by (auto simp: resize_input_ok_def)
  show "length (resize_result old f n) = length old" by (simp add: resize_result_def)
  show "sum_list (resize_result old f n) = sum_list old * resize_scale old f n"
    unfolding resize_result_def sum_list_map_mult [symmetric]
    using idx d by (intro sum_list_two_update) auto
  show j: "resize_result old f n ! f = old ! f * resize_scale old f n + resize_delta old f n"
    "resize_result old f n ! n = old ! n * resize_scale old f n - resize_delta old f n"
    "\<And>j. j < length old \<Longrightarrow> j \<noteq> f \<Longrightarrow> j \<noteq> n \<Longrightarrow>
       resize_result old f n ! j = old ! j * resize_scale old f n"
    using idx by (simp_all add: resize_result_def)
  have "resize_result old f n ! i \<noteq> 0" if "i < length old" for i
    using j d idx that nth_pos [OF idx(4) that] by (cases "i = f"; cases "i = n") auto
  then show "0 \<notin> set (resize_result old f n)"
    using \<open>length (resize_result old f n) = length old\<close> by (metis in_set_conv_nth)
qed

subsection \<open>The share replacement in closed form\<close>

fun replace_shares :: "node_id \<Rightarrow> nat list \<Rightarrow> node \<Rightarrow> node" where
  "replace_shares g new (Leaf i) = Leaf i"
| "replace_shares g new (Group i a cs sh) =
     Group i a (map (replace_shares g new) cs) (if i = g then new else sh)"

text \<open>Every group named \<open>g\<close> carries as many children and shares as \<open>new\<close> has.\<close>

fun shares_fit :: "node_id \<Rightarrow> nat list \<Rightarrow> node \<Rightarrow> bool" where
  "shares_fit g new (Leaf i) = True"
| "shares_fit g new (Group i a cs sh) =
     ((i = g \<longrightarrow> length cs = length new \<and> length sh = length cs)
       \<and> (\<forall>c \<in> set cs. shares_fit g new c))"

lemma apply_checked_eq:
  "apply_resize_shares_checked t g new k =
     (if shares_fit g new t
      then Some (replace_shares g new t, k + count_list (group_ids t) g) else None)"
  "apply_resize_children cs g new k =
     (if \<forall>c \<in> set cs. shares_fit g new c
      then Some (map (replace_shares g new) cs, k + count_list (concat (map group_ids cs)) g)
      else None)"
  by (induction t g new k and cs g new k
      rule: apply_resize_shares_checked_apply_resize_children.induct)
    (auto split: option.splits)

lemma leaves_replace [simp]: "leaves (replace_shares g new t) = leaves t"
proof (induction t)
  case (Group i a cs sh)
  then show ?case by (simp add: comp_def cong: map_cong)
qed simp

lemma node_ids_replace [simp]: "node_ids (replace_shares g new t) = node_ids t"
proof (induction t)
  case (Group i a cs sh)
  then show ?case by (simp add: comp_def cong: map_cong)
qed simp

lemma wf_groups_replace:
  "wf_groups t \<Longrightarrow> shares_fit g new t \<Longrightarrow> 0 \<notin> set new \<Longrightarrow> sum_list new \<le> u64_max \<Longrightarrow>
    wf_groups (replace_shares g new t)"
  by (induction t) (auto simp: group_ok_def)

lemma count_list_distinct: "distinct xs \<Longrightarrow> count_list xs x = (if x \<in> set xs then 1 else 0)"
  by (induction xs) auto

lemma apply_resize_iff:
  "apply_resize_shares t g new = Some t' \<longleftrightarrow> wf_node t \<and> g \<in> set (group_ids t)
     \<and> 2 \<le> length new \<and> 0 \<notin> set new \<and> sum_list new \<le> u64_max \<and> shares_fit g new t
     \<and> t' = replace_shares g new t"
proof -
  have g: "g \<noteq> []" if "wf_node t" "g \<in> set (group_ids t)"
    using that group_ids_subset_node_ids by (auto simp: wf_node_def)
  have pos: "\<not> (\<forall>x \<in> set new. x = 0)" if "2 \<le> length new" "0 \<notin> set new"
    using that by (cases new) auto
  have count: "count_list (group_ids t) g = (if g \<in> set (group_ids t) then 1 else 0)" if "wf_node t"
    using that by (intro count_list_distinct) (auto simp: wf_node_def distinct_node_ids)
  show ?thesis
    using g pos count
    by (auto simp: apply_resize_shares_def validate_resize_tree_def check_focus_None apply_checked_eq
        not_less Option.bind_eq_Some_conv split: if_splits)
qed

text \<open>With unique identities a group is determined by its identity.\<close>

lemma group_unique:
  "distinct (group_ids t) \<Longrightarrow> Group g a cs sh \<in> set (subnodes t) \<Longrightarrow>
    Group g a' cs' sh' \<in> set (subnodes t) \<Longrightarrow> a' = a \<and> cs' = cs \<and> sh' = sh"
proof (induction t)
  case (Leaf i)
  then show ?case by simp
next
  case (Group i b ds ss)
  have d: "distinct (concat (map group_ids ds))" "i \<notin> set (concat (map group_ids ds))"
    using Group.prems(1) by (simp_all del: set_concat distinct_concat_iff)
  have below: "g \<in> set (concat (map group_ids ds))"
    if "Group g x xs ys \<in> set (subnodes c)" "c \<in> set ds" for x xs ys c
    using that subnode_group_id by fastforce
  consider "g = i" | "g \<noteq> i" by blast
  then show ?case
  proof cases
    case 1
    then have "Group g a cs sh = Group i b ds ss" "Group g a' cs' sh' = Group i b ds ss"
      using Group.prems(2,3) d(2) below by fastforce+
    then show ?thesis by simp
  next
    case 2
    then obtain c c' where c: "c \<in> set ds" "Group g a cs sh \<in> set (subnodes c)"
      and c': "c' \<in> set ds" "Group g a' cs' sh' \<in> set (subnodes c')"
      using Group.prems(2,3) by auto
    then obtain j k where jk: "j < length ds" "c = ds ! j" "k < length ds" "c' = ds ! k"
      by (metis in_set_conv_nth)
    have "j = k"
      using distinct_concat_nth_neq [OF d(1) jk(1,3)] subnode_group_id [OF c(2)]
        subnode_group_id [OF c'(2)] jk(2,4) by blast
    then have "c' = c" using jk by simp
    moreover have "distinct (group_ids c)" using distinct_concat_member [OF d(1) c(1)] .
    ultimately show ?thesis using Group.IH [OF c(1)] c(2) c'(2) by blast
  qed
qed

lemma shares_fit_iff:
  "shares_fit g new t \<longleftrightarrow> (\<forall>n \<in> set (subnodes t). case n of
       Leaf i \<Rightarrow> True
     | Group h a cs sh \<Rightarrow> h = g \<longrightarrow> length cs = length new \<and> length sh = length cs)"
  by (induction t) auto

lemma shares_fit_subnode:
  assumes "distinct (group_ids t)" "Group g a cs sh \<in> set (subnodes t)"
    "length cs = length new" "length sh = length cs"
  shows "shares_fit g new t"
  unfolding shares_fit_iff
  using group_unique [OF assms(1,2)] assms(3,4) by (fastforce split: node.splits)

lemma resize_group_shares_found:
  "resize_group_shares t g = Some sh \<Longrightarrow> \<exists>a cs. Group g a cs sh \<in> set (subnodes t)"
  "resize_group_shares_in ds g = Some sh \<Longrightarrow> \<exists>c \<in> set ds. \<exists>a cs. Group g a cs sh \<in> set (subnodes c)"
  by (induction t g and ds g arbitrary: sh and sh
      rule: resize_group_shares_resize_group_shares_in.induct)
    (fastforce split: if_splits option.splits)+

lemma resize_group_shares_missing:
  "resize_group_shares t g = None \<Longrightarrow> g \<notin> set (group_ids t)"
  "resize_group_shares_in ds g = None \<Longrightarrow> g \<notin> set (concat (map group_ids ds))"
  by (induction t g and ds g rule: resize_group_shares_resize_group_shares_in.induct)
    (auto split: if_splits option.splits)

lemma resize_group_shares_eq:
  assumes "distinct (group_ids t)" "Group g a cs sh \<in> set (subnodes t)"
  shows "resize_group_shares t g = Some sh"
proof (cases "resize_group_shares t g")
  case None
  with resize_group_shares_missing(1) [of t g] subnode_group_id [OF assms(2)] show ?thesis by simp
next
  case (Some sh')
  with resize_group_shares_found(1) [OF Some] group_unique [OF assms] show ?thesis by blast
qed

subsection \<open>The boundary search in closed form\<close>

definition level_shares :: "node \<Rightarrow> path_level \<Rightarrow> nat list" where
  "level_shares t l = the (resize_group_shares t (pl_group l))"

definition level_neighbour_index :: "direction \<Rightarrow> path_level \<Rightarrow> nat" where
  "level_neighbour_index d l = nat (int (pl_index l) + step_for d)"

definition level_step :: "node \<Rightarrow> direction \<Rightarrow> path_level \<Rightarrow> resize_step" where
  "level_step t d l = (let old = level_shares t l; f = pl_index l; n = level_neighbour_index d l in
     \<lparr>rs_target_group = pl_group l, rs_focused_index = f, rs_neighbor_index = n,
      rs_focused_child = ident (pl_children l ! f), rs_neighbor_child = ident (pl_children l ! n),
      rs_old_shares = old, rs_new_shares = resize_result old f n\<rparr>)"

text \<open>The neighbour's scaled share has nothing left to give.\<close>

definition level_exhausted :: "node \<Rightarrow> direction \<Rightarrow> path_level \<Rightarrow> bool" where
  "level_exhausted t d l \<longleftrightarrow> (let old = level_shares t l; n = level_neighbour_index d l in
     old ! n * resize_scale old (pl_index l) n \<le> 1)"

definition level_fits :: "node \<Rightarrow> direction \<Rightarrow> path_level \<Rightarrow> bool" where
  "level_fits t d l \<longleftrightarrow> (let old = level_shares t l; n = level_neighbour_index d l in
     sum_list old * resize_scale old (pl_index l) n \<le> u64_max)"

lemma level_group:
  assumes "level_ok t x l" "wf_node t"
  obtains sh where "Group (pl_group l) (pl_axis l) (pl_children l) sh \<in> set (subnodes t)"
    "resize_group_shares t (pl_group l) = Some sh" "level_shares t l = sh"
    "length sh = length (pl_children l)" "0 \<notin> set sh" "sum_list sh \<le> u64_max"
proof -
  from assms(1) obtain sh where sub:
    "Group (pl_group l) (pl_axis l) (pl_children l) sh \<in> set (subnodes t)"
    by (auto simp: level_ok_def)
  have "distinct (group_ids t)" "wf_groups t"
    using assms(2) by (auto simp: wf_node_def distinct_node_ids)
  from resize_group_shares_eq [OF this(1) sub] wf_groups_subnodes [OF this(2) sub] sub
  show thesis by (auto simp: level_shares_def group_ok_def intro: that)
qed

lemma level_open_index:
  assumes "level_open d l"
  shows "level_neighbour_index d l < length (pl_children l)"
    "int (pl_index l) + step_for d = int (level_neighbour_index d l)"
    "level_neighbour_index d l = Suc (pl_index l) \<or> pl_index l = Suc (level_neighbour_index d l)"
    "pl_axis l = axis_for_direction d"
  using assms step_for_cases [of d]
  by (auto simp: level_open_def child_at_def level_neighbour_index_def split: if_splits)

lemma level_input_ok:
  assumes "level_ok t x l" "wf_node t" "level_open d l"
  shows "resize_input_ok (level_shares t l) (pl_index l) (level_neighbour_index d l)"
proof -
  obtain sh where "level_shares t l = sh" "length sh = length (pl_children l)" "0 \<notin> set sh"
    "sum_list sh \<le> u64_max" using level_group [OF assms(1,2)] by metis
  with level_open_index [OF assms(3)] assms(1) show ?thesis
    by (auto simp: resize_input_ok_def level_ok_def)
qed

lemma not_level_open:
  "\<not> level_open d l \<longleftrightarrow> pl_axis l \<noteq> axis_for_direction d
     \<or> int (pl_index l) + step_for d < 0
     \<or> length (pl_children l) \<le> nat (int (pl_index l) + step_for d)"
  by (auto simp: level_open_def child_at_def)

lemma resize_levels_closed:
  "\<not> level_open d l \<Longrightarrow> resize_levels t d (l # ls) = resize_levels t d ls"
  unfolding not_level_open by (auto simp: Let_def)

lemma resize_boundary_eq:
  assumes "resize_input_ok old f n"
  shows "resize_boundary old f n =
    (if old ! n * resize_scale old f n \<le> 1 then Inr None
     else if sum_list old * resize_scale old f n \<le> u64_max then Inr (Some (resize_result old f n))
     else Inl Malformed)"
proof -
  have lt: "f < length old" "n < length old" "f \<noteq> n" "0 \<notin> set old" "sum_list old \<le> u64_max"
    using assms by (auto simp: resize_input_ok_def)
  have pos: "0 < old ! f" "0 < old ! n" using nth_pos [OF lt(4)] lt by auto
  note le = two_shares_le_sum [OF lt(1-3)]
  let ?K = "resize_scale old f n"
  have big: "old ! f * ?K + old ! n * ?K \<le> sum_list old * ?K"
    using mult_le_mono1 [OF le, of ?K] by (simp add: add_mult_distrib)
  have exp: "expected_resize_shares old f n = (if sum_list old * ?K \<le> u64_max \<and> 1 < old ! n * ?K
      then Some (resize_result old f n) else None)"
    using assms by (simp add: expected_resize_iff resize_possible_def)
  have sixteen: "old ! f * ?K + old ! n * ?K \<ge> 16"
    using resize_scale_dvd [of old f n] pos by (auto simp: algebra_simps intro!: dvd_imp_le)
  show ?thesis
  proof (cases "(old ! f + old ! n) mod 16 = 0")
    case True
    then have K: "?K = 1" by (simp add: resize_scale_def)
    show ?thesis
      using big exp sixteen lt le True pos unfolding K
      by (auto simp: resize_boundary_def resize_step_denominator_def Let_def div_eq_0_iff)
  next
    case False
    then have K: "?K = 16" by (simp add: resize_scale_def)
    show ?thesis
      using big exp sixteen lt le False pos unfolding K
      by (auto simp: resize_boundary_def resize_step_denominator_def Let_def div_eq_0_iff bind_r_def
          not_le)
  qed
qed

lemma resize_levels_open:
  assumes "level_ok t x l" "wf_node t" "level_open d l"
  shows "resize_levels t d (l # ls) =
    (if level_exhausted t d l then resize_levels t d ls
     else if level_fits t d l then Inr (level_step t d l) else Inl Malformed)"
proof -
  obtain old where old: "resize_group_shares t (pl_group l) = Some old" "level_shares t l = old"
    "length old = length (pl_children l)" using level_group [OF assms(1,2)] by metis
  have idx: "nat (int (pl_index l) + step_for d) = level_neighbour_index d l"
    by (simp add: level_neighbour_index_def)
  note b = resize_boundary_eq [OF level_input_ok [OF assms], unfolded old(2)]
  have "resize_levels t d (l # ls) =
      bind_r (resize_boundary old (pl_index l) (level_neighbour_index d l)) (\<lambda>boundary.
            case boundary of
              None \<Rightarrow> resize_levels t d ls
            | Some new_shares \<Rightarrow> Inr (level_step t d l \<lparr>rs_new_shares := new_shares\<rparr>))"
    using assms(3) not_level_open [of d l] old
    by (simp add: Let_def idx level_step_def cong: option.case_cong)
  also have "\<dots> = (if level_exhausted t d l then resize_levels t d ls
     else if level_fits t d l then Inr (level_step t d l) else Inl Malformed)"
    unfolding b by (simp add: level_exhausted_def level_fits_def old(2) Let_def level_step_def)
  finally show ?thesis .
qed

lemma resize_levels_find:
  assumes "wf_node t" "\<forall>l \<in> set ls. level_ok t x l"
  shows "resize_levels t d ls =
    (case find (\<lambda>l. level_open d l \<and> \<not> level_exhausted t d l) ls of
       None \<Rightarrow> Inl NoBoundary
     | Some l \<Rightarrow> if level_fits t d l then Inr (level_step t d l) else Inl Malformed)"
  using assms(2)
proof (induction ls)
  case Nil
  then show ?case by simp
next
  case (Cons l ls)
  then show ?case
    using resize_levels_open [OF _ assms(1), of x l d ls] resize_levels_closed [of d l t ls]
    by (cases "level_open d l") (simp_all del: resize_levels.simps)
qed

lemma plan_resize_eq:
  "plan_resize_step t x d =
    (if \<not> wf_node t then Inl Malformed
     else case path_to t x of
       None \<Rightarrow> Inl Malformed
     | Some path \<Rightarrow>
         (case find (\<lambda>l. level_open d l \<and> \<not> level_exhausted t d l) (rev path) of
            None \<Rightarrow> Inl NoBoundary
          | Some l \<Rightarrow> if level_fits t d l then Inr (level_step t d l) else Inl Malformed))"
proof (cases "wf_node t")
  case False
  then show ?thesis by (simp add: plan_resize_step_def check_focus_None)
next
  case True
  show ?thesis
  proof (cases "path_to t x")
    case None
    with True show ?thesis by (simp add: plan_resize_step_def)
  next
    case (Some path)
    then have ok: "path_ok t path x" by (rule path_to_ok)
    then have "x \<noteq> []" using wf_node_leaf [OF True] path_ok_leaf by blast
    moreover have "\<forall>l \<in> set (rev path). level_ok t x l" using path_ok_levels [OF ok] by simp
    ultimately show ?thesis
      using True Some resize_levels_find [OF True, of "rev path" x d]
      by (simp add: plan_resize_step_def check_focus_None)
  qed
qed

lemma plan_resize_level:
  assumes "plan_resize_step t x d = Inr st"
  obtains l where "wf_node t" "level_ok t x l" "level_open d l" "\<not> level_exhausted t d l"
    "level_fits t d l" "st = level_step t d l"
proof -
  obtain path l where p: "wf_node t" "path_to t x = Some path"
    "find (\<lambda>l. level_open d l \<and> \<not> level_exhausted t d l) (rev path) = Some l"
    "level_fits t d l" "st = level_step t d l"
    using assms unfolding plan_resize_eq by (auto split: if_splits option.splits)
  have "l \<in> set path \<and> level_open d l \<and> \<not> level_exhausted t d l"
    using find_SomeD [OF p(3)] by simp
  then show thesis
    using that p path_ok_levels [OF path_to_ok [OF p(2)]] by blast
qed

text \<open>A planned resize: the target boundary, the new shares, and that they apply.\<close>

definition resize_boundary_at ::
  "node \<Rightarrow> node_id \<Rightarrow> direction \<Rightarrow> resize_step \<Rightarrow> bool" where
  "resize_boundary_at t x d st \<longleftrightarrow> at_group t (rs_target_group st) (\<lambda>a cs.
     a = axis_for_direction d \<and> rs_focused_index st < length cs \<and> rs_neighbor_index st < length cs
     \<and> int (rs_neighbor_index st) = int (rs_focused_index st) + step_for d
     \<and> x \<in> set (leaves (cs ! rs_focused_index st))
     \<and> ident (cs ! rs_focused_index st) = rs_focused_child st
     \<and> ident (cs ! rs_neighbor_index st) = rs_neighbor_child st)"

lemma plan_resize_ok:
  assumes "plan_resize_step t x d = Inr st"
  shows "resize_boundary_at t x d st"
    "resize_group_shares t (rs_target_group st) = Some (rs_old_shares st)"
    "resize_input_ok (rs_old_shares st) (rs_focused_index st) (rs_neighbor_index st)"
    "resize_possible (rs_old_shares st) (rs_focused_index st) (rs_neighbor_index st)"
    "rs_new_shares st =
      resize_result (rs_old_shares st) (rs_focused_index st) (rs_neighbor_index st)"
    "apply_resize_shares t (rs_target_group st) (rs_new_shares st) =
      Some (replace_shares (rs_target_group st) (rs_new_shares st) t)"
    "wf_node (replace_shares (rs_target_group st) (rs_new_shares st) t)"
proof -
  obtain l where l: "wf_node t" "level_ok t x l" "level_open d l" "\<not> level_exhausted t d l"
    "level_fits t d l" "st = level_step t d l"
    using plan_resize_level [OF assms] .
  obtain sh where sh: "Group (pl_group l) (pl_axis l) (pl_children l) sh \<in> set (subnodes t)"
    "resize_group_shares t (pl_group l) = Some sh" "level_shares t l = sh"
    "length sh = length (pl_children l)" "0 \<notin> set sh" "sum_list sh \<le> u64_max"
    using level_group [OF l(2,1)] .
  note idx = level_open_index [OF l(3)]
  show "resize_boundary_at t x d st"
    unfolding resize_boundary_at_def l(6)
    using idx l(2) by (auto simp: level_step_def Let_def level_ok_def intro!: at_groupI [OF sh(1)])
  show "resize_group_shares t (rs_target_group st) = Some (rs_old_shares st)"
    using sh by (simp add: l(6) level_step_def Let_def)
  show in_ok: "resize_input_ok (rs_old_shares st) (rs_focused_index st) (rs_neighbor_index st)"
    using level_input_ok [OF l(2,1,3)] by (simp add: l(6) level_step_def Let_def)
  show pos: "resize_possible (rs_old_shares st) (rs_focused_index st) (rs_neighbor_index st)"
    using l(4,5) by (simp add: l(6) level_step_def Let_def level_exhausted_def level_fits_def
        resize_possible_def)
  show new: "rs_new_shares st =
      resize_result (rs_old_shares st) (rs_focused_index st) (rs_neighbor_index st)"
    by (simp add: l(6) level_step_def Let_def)
  note res = resize_result_ok [OF in_ok pos, folded new]
  have len: "length (rs_old_shares st) = length sh" using sh(3) by (simp add: l(6) level_step_def Let_def)
  have tgt: "rs_target_group st = pl_group l" by (simp add: l(6) level_step_def Let_def)
  have fit: "shares_fit (rs_target_group st) (rs_new_shares st) t"
    unfolding tgt using shares_fit_subnode [OF _ sh(1)] l(1) res(1) len sh(4)
    by (simp add: wf_node_def distinct_node_ids)
  have bound: "sum_list (rs_new_shares st) \<le> u64_max"
    using res(2) pos by (simp add: resize_possible_def)
  have two: "2 \<le> length (rs_new_shares st)"
    using in_ok res(1) by (auto simp: resize_input_ok_def)
  show "apply_resize_shares t (rs_target_group st) (rs_new_shares st) =
      Some (replace_shares (rs_target_group st) (rs_new_shares st) t)"
    using l(1) subnode_group_id [OF sh(1)] fit bound two res(3) by (simp add: apply_resize_iff tgt)
  show "wf_node (replace_shares (rs_target_group st) (rs_new_shares st) t)"
    using l(1) wf_groups_replace [OF _ fit res(3) bound] by (simp add: wf_node_def)
qed

subsection \<open>Properties\<close>

definition resize_tree :: node where
  "resize_tree = Group ''r'' Horizontal
     [Group ''h'' Vertical [Leaf ''a'', Leaf ''b''] [1, 1], Leaf ''c''] [3, 2]"

lemma resize_tree_wf: "wf_node resize_tree"
  by (simp add: wf_node_def resize_tree_def group_ok_def u64_max_def)

lemma resize_tree_step: "plan_resize_step resize_tree ''b'' Right =
    Inr \<lparr>rs_target_group = ''r'', rs_focused_index = 0, rs_neighbor_index = 1,
      rs_focused_child = ''h'', rs_neighbor_child = ''c'',
      rs_old_shares = [3, 2], rs_new_shares = [53, 27]\<rparr>"
  by (simp add: plan_resize_eq resize_tree_wf)
    (simp add: resize_tree_def path_to_def level_open_def child_at_def level_exhausted_def
      level_shares_def level_neighbour_index_def resize_scale_def level_fits_def level_step_def
      resize_result_def resize_delta_def u64_max_def Let_def)

lemma resize_tree_focus: "plan_focus resize_tree ''b'' Right = Some (Focused ''c'' [''c''])"
  by (simp add: plan_focus_eq resize_tree_wf)
    (simp add: resize_tree_def path_to_def child_at_def descend_focus_target_def)

text \<open>
  C29. Directional focus on a well-formed tree that holds the leaf always answers: it names a
  different leaf that lies below the next child, in the direction, of a group along its axis that
  holds the focused leaf, with a route ending at that leaf, or it answers \<open>Edge\<close> when no
  leaf stands so.
\<close>

theorem plan_focus_correct:
  assumes "wf_node t" "x \<in> set (leaves t)"
  shows "(plan_focus t x d = Some Edge \<and> (\<nexists>y. sibling_leaf t d x y))
    \<or> (\<exists>y r. plan_focus t x d = Some (Focused y r) \<and> sibling_leaf t d x y \<and> y \<noteq> x \<and> last r = y)"
  by (rule plan_focus_cases [OF assms])

theorem plan_focus_correct_witness:
  "plan_focus resize_tree ''b'' Right = Some (Focused ''c'' [''c''])
    \<and> sibling_leaf resize_tree Right ''b'' ''c''"
  using plan_focus_correct [OF resize_tree_wf, of "''b''" Right] resize_tree_focus
  by (simp add: resize_tree_def)

text \<open>
  The share-step transfer in closed form: it succeeds exactly on adjacent indices of a
  positive, non-overflowing share vector whose scaled total fits in 64 bits and whose donor has
  more than one scaled share; the result moves a sixteenth of the pair, or what the donor can
  spare, after scaling every share by 1 or 16.
\<close>

theorem expected_resize_exact:
  "expected_resize_shares old f n =
     (if resize_input_ok old f n \<and> resize_possible old f n then Some (resize_result old f n) else None)"
  by (rule expected_resize_iff)

text \<open>
  C28. A planned resize step names a boundary of the tree along the direction's axis with the
  focused leaf below the growing child; its new shares keep the group's scaled total, stay
  positive, move a positive amount from the neighbour to the focused child and leave every other
  ratio alone; applying them succeeds and gives a well-formed tree with the same identities and
  leaves.
\<close>

theorem plan_resize_applies:
  assumes "plan_resize_step t x d = Inr st"
  shows "resize_boundary_at t x d st \<and> (\<exists>k m. 0 < k \<and> 0 < m
    \<and> sum_list (rs_new_shares st) = k * sum_list (rs_old_shares st) \<and> 0 \<notin> set (rs_new_shares st)
    \<and> rs_new_shares st ! rs_focused_index st = k * (rs_old_shares st ! rs_focused_index st) + m
    \<and> rs_new_shares st ! rs_neighbor_index st + m = k * (rs_old_shares st ! rs_neighbor_index st)
    \<and> (\<forall>j < length (rs_old_shares st). j \<noteq> rs_focused_index st \<longrightarrow> j \<noteq> rs_neighbor_index st \<longrightarrow>
         rs_new_shares st ! j = k * (rs_old_shares st ! j)))
    \<and> (\<exists>t'. apply_resize_shares t (rs_target_group st) (rs_new_shares st) = Some t'
      \<and> wf_node t' \<and> leaves t' = leaves t \<and> node_ids t' = node_ids t)"
proof -
  note ok = plan_resize_ok [OF assms]
  note res = resize_result_ok [OF ok(3,4), folded ok(5)]
  note d = resize_delta_bounds [OF ok(3,4)]
  define k where "k = resize_scale (rs_old_shares st) (rs_focused_index st) (rs_neighbor_index st)"
  define m where "m = resize_delta (rs_old_shares st) (rs_focused_index st) (rs_neighbor_index st)"
  have "0 < k" by (simp add: k_def)
  note step = this res [folded k_def m_def, unfolded mult.commute [of _ k]]
    d [folded k_def m_def, unfolded mult.commute [of _ k]]
  have "rs_new_shares st ! rs_neighbor_index st + m = k * (rs_old_shares st ! rs_neighbor_index st)"
    using step by linarith
  moreover have "leaves (replace_shares (rs_target_group st) (rs_new_shares st) t) = leaves t"
    "node_ids (replace_shares (rs_target_group st) (rs_new_shares st) t) = node_ids t" by simp_all
  ultimately show ?thesis using ok(1,6,7) step by blast
qed

theorem plan_resize_applies_witness:
  "\<exists>t'. apply_resize_shares resize_tree ''r'' [53, 27] = Some t' \<and> leaves t' = [''a'', ''b'', ''c'']"
  using plan_resize_applies [OF resize_tree_step] by (auto simp: resize_tree_def)

text \<open>
  A refused resize is refused for cause: \<open>NoBoundary\<close> only on a well-formed tree in
  which every matching boundary around the leaf has an exhausted donor, and
  \<open>Malformed\<close> only if the tree is malformed, the leaf absent, or the nearest boundary
  that could move overflows.
\<close>

theorem plan_resize_refusal:
  "plan_resize_step t x d = Inl e \<longleftrightarrow>
    (if wf_node t \<and> x \<in> set (leaves t)
     then case find (\<lambda>l. level_open d l \<and> \<not> level_exhausted t d l) (rev (the (path_to t x))) of
        None \<Rightarrow> e = NoBoundary
      | Some l \<Rightarrow> e = Malformed \<and> \<not> level_fits t d l
     else e = Malformed)"
  using path_to_None [of t x]
  by (cases "path_to t x") (auto simp: plan_resize_eq split: option.splits)

end
