(* ===== verification/Ids.thy ===== *)
theory Ids
  imports TilerPrelude
begin

text \<open>
  The bounded opaque tokens of \<open>tiler-core/src/ids.rs\<close>. A \<open>&str\<close> is the list of
  its bytes, so \<open>len()\<close> is \<^const>\<open>length\<close>; the newtypes are their validated backing
  strings and \<open>as_str\<close> is the identity. The redacted \<open>Debug\<close> renderings are the
  constants \<open>debug_owner\<close>, \<open>debug_generation\<close> and \<open>debug_correlation\<close>.
\<close>

definition max_owner_len :: nat where
  "max_owner_len = 128"

definition max_generation_len :: nat where
  "max_generation_len = 64"

definition max_correlation_len :: nat where
  "max_correlation_len = 128"

definition is_ascii_lowercase :: "char \<Rightarrow> bool" where
  "is_ascii_lowercase c \<longleftrightarrow> (97 :: nat) \<le> of_char c \<and> of_char c \<le> (122 :: nat)"

definition is_ascii_uppercase :: "char \<Rightarrow> bool" where
  "is_ascii_uppercase c \<longleftrightarrow> (65 :: nat) \<le> of_char c \<and> of_char c \<le> (90 :: nat)"

definition is_ascii_digit :: "char \<Rightarrow> bool" where
  "is_ascii_digit c \<longleftrightarrow> (48 :: nat) \<le> of_char c \<and> of_char c \<le> (57 :: nat)"

definition is_ascii_alphanumeric :: "char \<Rightarrow> bool" where
  "is_ascii_alphanumeric c \<longleftrightarrow> is_ascii_lowercase c \<or> is_ascii_uppercase c \<or> is_ascii_digit c"

definition token_char :: "char \<Rightarrow> bool" where
  "token_char c \<longleftrightarrow> is_ascii_alphanumeric c \<or> c = CHR ''-'' \<or> c = CHR ''_'' \<or> c = CHR ''.''"

definition generation_char :: "char \<Rightarrow> bool" where
  "generation_char c \<longleftrightarrow> is_ascii_lowercase c \<or> is_ascii_digit c \<or> c = CHR ''-''"

definition is_owner_token :: "string \<Rightarrow> bool" where
  "is_owner_token v \<longleftrightarrow> v \<noteq> [] \<and> length v \<le> max_owner_len \<and> list_all token_char v"

definition is_owner_id :: "string \<Rightarrow> bool" where
  "is_owner_id v = is_owner_token v"

definition is_correlation_id :: "string \<Rightarrow> bool" where
  "is_correlation_id v \<longleftrightarrow> v \<noteq> [] \<and> length v \<le> max_correlation_len \<and> list_all token_char v"

definition is_generation_id :: "string \<Rightarrow> bool" where
  "is_generation_id v \<longleftrightarrow>
     v \<noteq> [] \<and> length v \<le> max_generation_len \<and> list_all generation_char v"

type_synonym owner_id = string
type_synonym generation_id = string
type_synonym correlation_id = string

definition parse_owner :: "string \<Rightarrow> owner_id option" where
  "parse_owner v = (if is_owner_id v then Some v else None)"

definition parse_generation :: "string \<Rightarrow> generation_id option" where
  "parse_generation v = (if is_generation_id v then Some v else None)"

definition parse_correlation :: "string \<Rightarrow> correlation_id option" where
  "parse_correlation v = (if is_correlation_id v then Some v else None)"

definition debug_owner :: "owner_id \<Rightarrow> string" where
  "debug_owner v = ''OwnerId(redacted)''"

definition debug_generation :: "generation_id \<Rightarrow> string" where
  "debug_generation v = ''GenerationId(redacted)''"

definition debug_correlation :: "correlation_id \<Rightarrow> string" where
  "debug_correlation v = ''CorrelationId(redacted)''"

lemma parse_owner_Some [simp]: "parse_owner v = Some t \<longleftrightarrow> is_owner_id v \<and> t = v"
  by (auto simp: parse_owner_def)

lemma parse_generation_Some [simp]: "parse_generation v = Some t \<longleftrightarrow> is_generation_id v \<and> t = v"
  by (auto simp: parse_generation_def)

lemma parse_correlation_Some [simp]: "parse_correlation v = Some t \<longleftrightarrow> is_correlation_id v \<and> t = v"
  by (auto simp: parse_correlation_def)

text \<open>Every generation token is made of owner-token bytes, so it is an owner token as well.\<close>

lemma generation_char_token: "generation_char c \<Longrightarrow> token_char c"
  by (auto simp: generation_char_def token_char_def is_ascii_alphanumeric_def)

lemma generation_is_owner: "is_generation_id v \<Longrightarrow> is_owner_id v"
  by (auto simp: is_generation_id_def is_owner_id_def is_owner_token_def max_generation_len_def
      max_owner_len_def list_all_iff generation_char_token)

lemmas token_eval = is_owner_id_def is_owner_token_def is_correlation_id_def is_generation_id_def
  max_owner_len_def max_generation_len_def max_correlation_len_def token_char_def generation_char_def
  is_ascii_alphanumeric_def is_ascii_lowercase_def is_ascii_uppercase_def is_ascii_digit_def

lemma token_examples: "is_owner_id ''owner-1''" "is_generation_id ''gen-1''"
  "is_correlation_id ''corr-1''" "\<not> is_owner_id ''bad id''" "\<not> is_generation_id ''GEN-1''"
  by (simp_all add: token_eval)

end
