(* ===== verification/Contract.thy ===== *)
theory Contract
  imports Movement Ids
begin

text \<open>
  The adapter contract of \<open>tiler-core/src/contract.rs\<close>: observations, dispatches,
  acknowledgements, post-observations, divergence kinds, and the capability, intent, operation and
  plan types of the five plan kinds. The structs that the five kinds repeat with the same fields
  are one polymorphic record, extended where a kind has a field more.
\<close>

subsection \<open>Bounds and observations\<close>

definition contract_version :: nat where
  "contract_version = 1"

definition policy_version :: nat where
  "policy_version = 1"

definition lifecycle_policy_version :: nat where
  "lifecycle_policy_version = 1"

definition max_revision :: nat where
  "max_revision = 1000000"

definition max_preconditions :: nat where
  "max_preconditions = 8"

definition is_revision :: "nat \<Rightarrow> bool" where
  "is_revision v \<longleftrightarrow> v \<le> max_revision"

record observation =
  ob_owner :: owner_id
  ob_generation :: generation_id
  ob_revision :: nat
  ob_fingerprint :: nat

definition observation_from_strings ::
  "string \<Rightarrow> string \<Rightarrow> nat \<Rightarrow> nat \<Rightarrow> observation option" where
  "observation_from_strings ow gen revision fingerprint =
     (if \<not> is_revision revision then None
      else Option.bind (parse_owner ow) (\<lambda>pow. Option.bind (parse_generation gen) (\<lambda>pgen.
        Some \<lparr>ob_owner = pow, ob_generation = pgen, ob_revision = revision,
          ob_fingerprint = fingerprint\<rparr>)))"

definition observation_validate :: "observation \<Rightarrow> bool" where
  "observation_validate ob \<longleftrightarrow>
     is_owner_id (ob_owner ob) \<and> is_generation_id (ob_generation ob) \<and> is_revision (ob_revision ob)"

subsection \<open>Acknowledgements and divergence\<close>

datatype ack_outcome = AckAccepted | AckRefusedCapability | AckPartialApplication | AckAdapterLost

record adapter_ack =
  ack_correlation :: correlation_id
  ack_owner :: owner_id
  ack_generation :: generation_id
  ack_base_revision :: nat
  ack_outcome :: ack_outcome

definition ack_from_strings ::
  "string \<Rightarrow> string \<Rightarrow> string \<Rightarrow> nat \<Rightarrow> ack_outcome \<Rightarrow> adapter_ack option" where
  "ack_from_strings corr ow gen base outcome =
     (if \<not> is_revision base then None
      else Option.bind (parse_correlation corr) (\<lambda>pcorr. Option.bind (parse_owner ow) (\<lambda>pow.
        Option.bind (parse_generation gen) (\<lambda>pgen.
        Some \<lparr>ack_correlation = pcorr, ack_owner = pow, ack_generation = pgen,
          ack_base_revision = base, ack_outcome = outcome\<rparr>))))"

definition ack_validate :: "adapter_ack \<Rightarrow> bool" where
  "ack_validate a \<longleftrightarrow> is_correlation_id (ack_correlation a) \<and> is_owner_id (ack_owner a)
     \<and> is_generation_id (ack_generation a) \<and> is_revision (ack_base_revision a)"

datatype divergence_kind = StaleRevision | OwnerMismatch | GenerationMismatch | CorrelationMismatch
  | CapabilityRefused | PartialApplication | AdapterLost | PostconditionUnverified
  | PostconditionMismatch | RevisionExhausted

fun divergence_as_str :: "divergence_kind \<Rightarrow> string" where
  "divergence_as_str StaleRevision = ''stale-revision''"
| "divergence_as_str OwnerMismatch = ''owner-mismatch''"
| "divergence_as_str GenerationMismatch = ''generation-mismatch''"
| "divergence_as_str CorrelationMismatch = ''correlation-mismatch''"
| "divergence_as_str CapabilityRefused = ''capability-refused''"
| "divergence_as_str PartialApplication = ''partial-application''"
| "divergence_as_str AdapterLost = ''adapter-lost''"
| "divergence_as_str PostconditionUnverified = ''postcondition-unverified''"
| "divergence_as_str PostconditionMismatch = ''postcondition-mismatch''"
| "divergence_as_str RevisionExhausted = ''revision-exhausted''"

fun divergence_message :: "divergence_kind \<Rightarrow> string" where
  "divergence_message StaleRevision = ''observation revision does not match verified state''"
| "divergence_message OwnerMismatch = ''owner token does not pin verified state''"
| "divergence_message GenerationMismatch = ''generation does not match verified state''"
| "divergence_message CorrelationMismatch = ''correlation does not match the pending plan''"
| "divergence_message CapabilityRefused = ''adapter cannot realize the required capability''"
| "divergence_message PartialApplication = ''adapter reported partial application''"
| "divergence_message AdapterLost = ''adapter contact was lost''"
| "divergence_message PostconditionUnverified = ''adapter did not verify postconditions''"
| "divergence_message PostconditionMismatch = ''plan postconditions do not bind the pending plan''"
| "divergence_message RevisionExhausted = ''revision bound reached''"

subsection \<open>The shapes shared by the plan kinds\<close>

record ('cap, 'pre, 'intent, 'op) dispatch =
  d_correlation :: correlation_id
  d_owner :: owner_id
  d_generation :: generation_id
  d_base_revision :: nat
  d_required_capability :: 'cap
  d_preconditions :: "'pre list"
  d_intent :: 'intent
  d_operation :: 'op

record ('cap, 'pre, 'intent, 'op) plan =
  p_intent :: 'intent
  p_operation :: 'op
  p_required_capability :: 'cap
  p_preconditions :: "'pre list"

record ('pre, 'op) post_observation =
  po_observation :: observation
  po_correlation :: correlation_id
  po_verified :: bool
  po_preconditions :: "'pre list"
  po_operation :: 'op

definition post_validate :: "('pre, 'op, 'z) post_observation_scheme \<Rightarrow> bool" where
  "post_validate post \<longleftrightarrow> observation_validate (po_observation post)
     \<and> is_correlation_id (po_correlation post)
     \<and> length (po_preconditions post) \<le> max_preconditions"

subsection \<open>Movement\<close>

record move_dispatch = "(capability, precondition, move_intent, move_operation) dispatch" +
  d_rule :: rule

type_synonym move_post = "(precondition, move_operation) post_observation"

subsection \<open>Lifecycle\<close>

datatype lifecycle_capability = AdmitTiled | RemoveTiled | MoveTiledCap | ToggleOrientationCap

fun lifecycle_capability_as_str :: "lifecycle_capability \<Rightarrow> string" where
  "lifecycle_capability_as_str AdmitTiled = ''admit-tiled''"
| "lifecycle_capability_as_str RemoveTiled = ''remove-tiled''"
| "lifecycle_capability_as_str MoveTiledCap = ''move-tiled''"
| "lifecycle_capability_as_str ToggleOrientationCap = ''toggle-orientation''"

record lifecycle_capabilities =
  admit_tiled :: bool
  remove_tiled :: bool
  move_tiled :: bool
  toggle_orientation :: bool

definition lifecycle_full :: lifecycle_capabilities where
  "lifecycle_full = \<lparr>admit_tiled = True, remove_tiled = True, move_tiled = True,
     toggle_orientation = True\<rparr>"

definition lifecycle_none :: lifecycle_capabilities where
  "lifecycle_none = \<lparr>admit_tiled = False, remove_tiled = False, move_tiled = False,
     toggle_orientation = False\<rparr>"

fun lifecycle_supports :: "lifecycle_capabilities \<Rightarrow> lifecycle_capability \<Rightarrow> bool" where
  "lifecycle_supports caps AdmitTiled = admit_tiled caps"
| "lifecycle_supports caps RemoveTiled = remove_tiled caps"
| "lifecycle_supports caps MoveTiledCap = move_tiled caps"
| "lifecycle_supports caps ToggleOrientationCap = toggle_orientation caps"

datatype lifecycle_precondition = WindowObserved | DesiredTopologyValid
  | LifecycleMustVerifyPostconditions

text \<open>
  Fields in the source's order: \<open>IntentMoveToWorkspace window target_output target_workspace
  follow\<close>, \<open>OpMoveTiled window leaf source_output source_workspace target_output
  target_workspace\<close>, \<open>OpToggleOrientation window leaf group output workspace\<close>.
\<close>

datatype lifecycle_intent =
    IntentAdmit window_id output_id workspace_id
  | IntentRemove window_id
  | IntentMoveToWorkspace window_id output_id workspace_id bool
  | IntentMoveToOutput window_id output_id workspace_id bool
  | IntentToggleOrientation window_id output_id workspace_id

datatype lifecycle_operation =
    OpAdmit window_id node_id output_id workspace_id
  | OpAdmitDeferred window_id output_id workspace_id
  | OpRemove window_id node_id output_id workspace_id
  | OpRemoveDeferred window_id output_id workspace_id
  | OpMoveTiled window_id node_id output_id workspace_id output_id workspace_id
  | OpToggleOrientation window_id node_id node_id output_id workspace_id

fun lifecycle_required_capability :: "lifecycle_operation \<Rightarrow> lifecycle_capability" where
  "lifecycle_required_capability (OpAdmit w l p ws) = AdmitTiled"
| "lifecycle_required_capability (OpAdmitDeferred w p ws) = AdmitTiled"
| "lifecycle_required_capability (OpRemove w l p ws) = RemoveTiled"
| "lifecycle_required_capability (OpRemoveDeferred w p ws) = RemoveTiled"
| "lifecycle_required_capability (OpMoveTiled w l p ws p' ws') = MoveTiledCap"
| "lifecycle_required_capability (OpToggleOrientation w l g p ws) = ToggleOrientationCap"

definition lifecycle_preconditions :: "lifecycle_operation \<Rightarrow> lifecycle_precondition list" where
  "lifecycle_preconditions op =
     [WindowObserved, DesiredTopologyValid, LifecycleMustVerifyPostconditions]"

record lifecycle_plan =
  "(lifecycle_capability, lifecycle_precondition, lifecycle_intent, lifecycle_operation) plan" +
  p_policy_version :: nat

definition lifecycle_for_operation ::
  "lifecycle_intent \<Rightarrow> lifecycle_operation \<Rightarrow> lifecycle_plan" where
  "lifecycle_for_operation intent op =
     \<lparr>p_intent = intent, p_operation = op,
      p_required_capability = lifecycle_required_capability op,
      p_preconditions = lifecycle_preconditions op,
      p_policy_version = lifecycle_policy_version\<rparr>"

definition valid_policy :: "lifecycle_plan \<Rightarrow> bool" where
  "valid_policy plan \<longleftrightarrow> p_policy_version plan = lifecycle_policy_version"

record lifecycle_dispatch =
  "(lifecycle_capability, lifecycle_precondition, lifecycle_intent, lifecycle_operation) dispatch" +
  d_policy_version :: nat

type_synonym lifecycle_post = "(lifecycle_precondition, lifecycle_operation) post_observation"

subsection \<open>Focus\<close>

datatype focus_capability = DirectionalFocus

fun focus_capability_as_str :: "focus_capability \<Rightarrow> string" where
  "focus_capability_as_str DirectionalFocus = ''directional-focus''"

record focus_capabilities =
  directional_focus :: bool

fun focus_supports :: "focus_capabilities \<Rightarrow> focus_capability \<Rightarrow> bool" where
  "focus_supports caps DirectionalFocus = directional_focus caps"

datatype focus_precondition = FocusLeafOccupied | FocusedFloatingWindow | TargetLeafOccupied
  | FocusTargetsSameDomain | FocusTargetsAdjacentOutput | FocusMustVerifyPostconditions

record focus_intent =
  fi_domain_output :: output_id
  fi_domain_workspace :: workspace_id
  fi_focused_leaf :: "node_id option"
  fi_focused_window :: window_id
  fi_direction :: direction

record focus_operation =
  fo_domain_output :: output_id
  fo_domain_workspace :: workspace_id
  fo_from_leaf :: "node_id option"
  fo_to_leaf :: node_id
  fo_from_window :: window_id
  fo_to_window :: window_id
  fo_direction :: direction
  fo_route :: "node_id list"
  fo_cross_source_output :: "output_id option"
  fo_cross_source_workspace :: "workspace_id option"

definition focus_required_capability :: "focus_operation \<Rightarrow> focus_capability" where
  "focus_required_capability op = DirectionalFocus"

definition focus_is_cross_output :: "focus_operation \<Rightarrow> bool" where
  "focus_is_cross_output op \<longleftrightarrow>
     fo_cross_source_output op \<noteq> None \<or> fo_cross_source_workspace op \<noteq> None"

definition focus_preconditions :: "focus_operation \<Rightarrow> focus_precondition list" where
  "focus_preconditions op =
     [if fo_from_leaf op = None then FocusedFloatingWindow else FocusLeafOccupied,
      TargetLeafOccupied,
      if fo_cross_source_output op \<noteq> None \<or> fo_cross_source_workspace op \<noteq> None
      then FocusTargetsAdjacentOutput else FocusTargetsSameDomain,
      FocusMustVerifyPostconditions]"

type_synonym focus_plan_contract =
  "(focus_capability, focus_precondition, focus_intent, focus_operation) plan"
type_synonym focus_dispatch =
  "(focus_capability, focus_precondition, focus_intent, focus_operation) dispatch"
type_synonym focus_post = "(focus_precondition, focus_operation) post_observation"

definition focus_for_operation :: "focus_intent \<Rightarrow> focus_operation \<Rightarrow> focus_plan_contract" where
  "focus_for_operation intent op =
     \<lparr>p_intent = intent, p_operation = op, p_required_capability = focus_required_capability op,
      p_preconditions = focus_preconditions op\<rparr>"

subsection \<open>Resize\<close>

datatype resize_capability = KeyboardResize | PointerResize

fun resize_capability_as_str :: "resize_capability \<Rightarrow> string" where
  "resize_capability_as_str KeyboardResize = ''keyboard-resize''"
| "resize_capability_as_str PointerResize = ''pointer-resize''"

record resize_capabilities =
  keyboard_resize :: bool
  pointer_resize :: bool

definition resize_caps_full :: resize_capabilities where
  "resize_caps_full = \<lparr>keyboard_resize = True, pointer_resize = True\<rparr>"

fun resize_supports :: "resize_capabilities \<Rightarrow> resize_capability \<Rightarrow> bool" where
  "resize_supports caps KeyboardResize = keyboard_resize caps"
| "resize_supports caps PointerResize = pointer_resize caps"

datatype resize_precondition = ResizeLeafOccupied | TargetBoundaryValid | ResizeTargetsSameDomain
  | ResizeMustVerifyPostconditions

datatype resize_mode = Inwards | Outwards

fun resize_mode_as_str :: "resize_mode \<Rightarrow> string" where
  "resize_mode_as_str Inwards = ''inwards''"
| "resize_mode_as_str Outwards = ''outwards''"

record resize_intent =
  ri_domain_output :: output_id
  ri_domain_workspace :: workspace_id
  ri_focused_leaf :: node_id
  ri_focused_window :: window_id
  ri_direction :: direction
  ri_mode :: resize_mode

record resize_operation =
  ro_domain_output :: output_id
  ro_domain_workspace :: workspace_id
  ro_focused_leaf :: node_id
  ro_focused_window :: window_id
  ro_direction :: direction
  ro_mode :: resize_mode
  ro_target_group :: node_id
  ro_focused_child :: node_id
  ro_neighbor_child :: node_id
  ro_focused_index :: nat
  ro_neighbor_index :: nat
  ro_old_shares :: "nat list"
  ro_new_shares :: "nat list"

definition resize_required_capability :: "resize_operation \<Rightarrow> resize_capability" where
  "resize_required_capability op = KeyboardResize"

definition resize_preconditions :: "resize_operation \<Rightarrow> resize_precondition list" where
  "resize_preconditions op =
     [ResizeLeafOccupied, TargetBoundaryValid, ResizeTargetsSameDomain,
      ResizeMustVerifyPostconditions]"

type_synonym resize_plan =
  "(resize_capability, resize_precondition, resize_intent, resize_operation) plan"

record resize_dispatch =
  "(resize_capability, resize_precondition, resize_intent, resize_operation) dispatch" +
  d_secondary_operation :: "resize_operation option"

record resize_post = "(resize_precondition, resize_operation) post_observation" +
  po_secondary_operation :: "resize_operation option"

definition resize_for_operation :: "resize_intent \<Rightarrow> resize_operation \<Rightarrow> resize_plan" where
  "resize_for_operation intent op =
     \<lparr>p_intent = intent, p_operation = op, p_required_capability = resize_required_capability op,
      p_preconditions = resize_preconditions op\<rparr>"

subsection \<open>Drag\<close>

datatype drag_capability = PlaceTiled

fun drag_capability_as_str :: "drag_capability \<Rightarrow> string" where
  "drag_capability_as_str PlaceTiled = ''place-tiled''"

record drag_capabilities =
  place_tiled :: bool

fun drag_supports :: "drag_capabilities \<Rightarrow> drag_capability \<Rightarrow> bool" where
  "drag_supports caps PlaceTiled = place_tiled caps"

datatype drag_precondition = SourceLeafOccupied | DragTargetLeafOccupied | DragTargetsSameDomain
  | DragMustVerifyPostconditions

datatype drag_side = DragLeft | DragRight | DragTop | DragBottom | DragCenter

fun drag_side_as_str :: "drag_side \<Rightarrow> string" where
  "drag_side_as_str DragLeft = ''left''"
| "drag_side_as_str DragRight = ''right''"
| "drag_side_as_str DragTop = ''top''"
| "drag_side_as_str DragBottom = ''bottom''"
| "drag_side_as_str DragCenter = ''center''"

fun drag_side_axis :: "drag_side \<Rightarrow> axis option" where
  "drag_side_axis DragLeft = Some Horizontal"
| "drag_side_axis DragRight = Some Horizontal"
| "drag_side_axis DragTop = Some Vertical"
| "drag_side_axis DragBottom = Some Vertical"
| "drag_side_axis DragCenter = None"

fun drag_side_before :: "drag_side \<Rightarrow> bool option" where
  "drag_side_before DragLeft = Some True"
| "drag_side_before DragTop = Some True"
| "drag_side_before DragRight = Some False"
| "drag_side_before DragBottom = Some False"
| "drag_side_before DragCenter = None"

definition drag_side_is_stack :: "drag_side \<Rightarrow> bool" where
  "drag_side_is_stack s \<longleftrightarrow> s = DragCenter"

record drag_intent =
  di_domain_output :: output_id
  di_domain_workspace :: workspace_id
  di_source_leaf :: node_id
  di_source_window :: window_id
  di_target_leaf :: node_id
  di_target_window :: window_id
  di_side :: drag_side

record drag_operation =
  do_domain_output :: output_id
  do_domain_workspace :: workspace_id
  do_source_leaf :: node_id
  do_source_window :: window_id
  do_target_leaf :: node_id
  do_target_window :: window_id
  do_side :: drag_side
  do_axis :: axis
  do_before :: bool
  do_target_group :: node_id
  do_insertion_index :: nat
  do_wrap :: bool
  do_new_group :: "node_id option"

definition drag_required_capability :: "drag_operation \<Rightarrow> drag_capability" where
  "drag_required_capability op = PlaceTiled"

definition drag_preconditions :: "drag_operation \<Rightarrow> drag_precondition list" where
  "drag_preconditions op =
     [SourceLeafOccupied, DragTargetLeafOccupied, DragTargetsSameDomain,
      DragMustVerifyPostconditions]"

type_synonym drag_plan = "(drag_capability, drag_precondition, drag_intent, drag_operation) plan"
type_synonym drag_dispatch =
  "(drag_capability, drag_precondition, drag_intent, drag_operation) dispatch"
type_synonym drag_post = "(drag_precondition, drag_operation) post_observation"

definition drag_for_operation :: "drag_intent \<Rightarrow> drag_operation \<Rightarrow> drag_plan" where
  "drag_for_operation intent op =
     \<lparr>p_intent = intent, p_operation = op, p_required_capability = drag_required_capability op,
      p_preconditions = drag_preconditions op\<rparr>"

subsection \<open>Facts\<close>

lemma observation_from_strings_validate:
  "observation_from_strings ow gen base fp = Some ob \<Longrightarrow> observation_validate ob
    \<and> ob = \<lparr>ob_owner = ow, ob_generation = gen, ob_revision = base, ob_fingerprint = fp\<rparr>"
  by (auto simp: observation_from_strings_def observation_validate_def Option.bind_eq_Some_conv
      split: if_splits)

lemma ack_from_strings_validate:
  "ack_from_strings corr ow gen base out = Some a \<Longrightarrow> ack_validate a"
  by (auto simp: ack_from_strings_def ack_validate_def Option.bind_eq_Some_conv split: if_splits)

lemma divergence_as_str_inj: "divergence_as_str a = divergence_as_str b \<longleftrightarrow> a = b"
  by (cases a; cases b) simp_all

lemma preconditions_bounded:
  "length (op_preconditions op) \<le> max_preconditions"
  "length (lifecycle_preconditions lop) \<le> max_preconditions"
  "length (focus_preconditions fop) \<le> max_preconditions"
  "length (resize_preconditions rop) \<le> max_preconditions"
  "length (drag_preconditions dop) \<le> max_preconditions"
  by (cases op; simp add: op_preconditions_def max_preconditions_def)
    (simp_all add: lifecycle_preconditions_def focus_preconditions_def resize_preconditions_def
      drag_preconditions_def max_preconditions_def)

end
