(* ===== verification/Reconcile.thy ===== *)
theory Reconcile
  imports Contract Focus_Resize
begin

text \<open>
  The reconciler of \<open>tiler-core/src/reconcile.rs\<close>: the state machine that binds at most
  one pending plan of any kind to an owner, a generation, a base revision and a correlation, and
  advances the verified revision by one when the adapter's post-observation binds. Every method
  is a function on the state; \<open>?\<close> and the repeated \<open>diverge\<close> and early
  \<open>return\<close> are the branches of \<open>propose_with\<close> and \<open>verify_with\<close>, which
  take the kind's own checks as an ordered list of conditions.
\<close>

subsection \<open>State\<close>

datatype state_kind = StVerified | StPendingUnacked | StPendingAcked | StDivergent

record status_view =
  sv_state :: state_kind
  sv_revision :: nat
  sv_pending :: bool
  sv_divergence :: "divergence_kind option"

record commit =
  cm_revision :: nat
  cm_fingerprint :: nat

datatype ack_applied = AppliedAccepted | DuplicateDiscarded

datatype propose_error = PendingExists | ProposeDiverged divergence_kind

datatype ack_error = AckNoPending | AckDiverged divergence_kind

datatype verify_error = VerifyNoPending | NotAcknowledged | VerifyDiverged divergence_kind

datatype new_error = InvalidOwner | InvalidGeneration | RevisionOutOfBounds

datatype cancel_error = CancelNoPending | AlreadyAcknowledged | BindingMismatch | DragActive
  | CancelDiverged divergence_kind

fun propose_error_kind :: "propose_error \<Rightarrow> string" where
  "propose_error_kind PendingExists = ''pending-exists''"
| "propose_error_kind (ProposeDiverged reason) = divergence_as_str reason"

fun propose_error_message :: "propose_error \<Rightarrow> string" where
  "propose_error_message PendingExists = ''complete the pending plan before proposing''"
| "propose_error_message (ProposeDiverged reason) = divergence_message reason"

fun ack_error_kind :: "ack_error \<Rightarrow> string" where
  "ack_error_kind AckNoPending = ''no-pending''"
| "ack_error_kind (AckDiverged reason) = divergence_as_str reason"

fun ack_error_message :: "ack_error \<Rightarrow> string" where
  "ack_error_message AckNoPending = ''no dispatched plan awaits acknowledgement''"
| "ack_error_message (AckDiverged reason) = divergence_message reason"

fun verify_error_kind :: "verify_error \<Rightarrow> string" where
  "verify_error_kind VerifyNoPending = ''no-pending''"
| "verify_error_kind NotAcknowledged = ''not-acknowledged''"
| "verify_error_kind (VerifyDiverged reason) = divergence_as_str reason"

fun verify_error_message :: "verify_error \<Rightarrow> string" where
  "verify_error_message VerifyNoPending = ''no dispatched plan awaits verification''"
| "verify_error_message NotAcknowledged = ''acknowledge the dispatched plan first''"
| "verify_error_message (VerifyDiverged reason) = divergence_message reason"

fun cancel_error_kind :: "cancel_error \<Rightarrow> string" where
  "cancel_error_kind CancelNoPending = ''no-pending''"
| "cancel_error_kind AlreadyAcknowledged = ''already-acknowledged''"
| "cancel_error_kind BindingMismatch = ''binding-mismatch''"
| "cancel_error_kind DragActive = ''drag-active''"
| "cancel_error_kind (CancelDiverged reason) = divergence_as_str reason"

fun cancel_error_message :: "cancel_error \<Rightarrow> string" where
  "cancel_error_message CancelNoPending = ''no dispatched plan awaits cancellation''"
| "cancel_error_message AlreadyAcknowledged = ''plan was already acknowledged''"
| "cancel_error_message BindingMismatch = ''cancellation does not bind the pending plan''"
| "cancel_error_message DragActive = ''pending plan holds a drag capture''"
| "cancel_error_message (CancelDiverged reason) = divergence_message reason"

fun new_error_kind :: "new_error \<Rightarrow> string" where
  "new_error_kind InvalidOwner = ''owner-invalid''"
| "new_error_kind InvalidGeneration = ''generation-invalid''"
| "new_error_kind RevisionOutOfBounds = ''revision-out-of-bounds''"

datatype pending_kind =
    PendingMove "precondition list" move_operation
  | PendingLifecycle "lifecycle_precondition list" lifecycle_operation
  | PendingFocus "focus_precondition list" focus_operation
  | PendingResize "resize_precondition list" resize_operation "resize_operation option"
  | PendingDrag "drag_precondition list" drag_operation

record pending =
  pd_correlation :: correlation_id
  pd_base_revision :: nat
  pd_acked :: bool
  pd_kind :: pending_kind

record reconciler =
  rc_owner :: owner_id
  rc_generation :: generation_id
  rc_revision :: nat
  rc_fingerprint :: nat
  rc_pending :: "pending option"
  rc_diverged :: "divergence_kind option"

definition reconciler_new ::
  "owner_id \<Rightarrow> generation_id \<Rightarrow> nat \<Rightarrow> nat \<Rightarrow> new_error + reconciler" where
  "reconciler_new ow gen revision fingerprint =
     (if \<not> is_owner_id ow then Inl InvalidOwner
      else if \<not> is_generation_id gen then Inl InvalidGeneration
      else if \<not> is_revision revision then Inl RevisionOutOfBounds
      else Inr \<lparr>rc_owner = ow, rc_generation = gen, rc_revision = revision,
        rc_fingerprint = fingerprint, rc_pending = None, rc_diverged = None\<rparr>)"

definition reconciler_new_from_strings ::
  "string \<Rightarrow> string \<Rightarrow> nat \<Rightarrow> nat \<Rightarrow> new_error + reconciler" where
  "reconciler_new_from_strings ow gen revision fingerprint =
     (case parse_owner ow of
        None \<Rightarrow> Inl InvalidOwner
      | Some pow \<Rightarrow>
          (case parse_generation gen of
             None \<Rightarrow> Inl InvalidGeneration
           | Some pgen \<Rightarrow> reconciler_new pow pgen revision fingerprint))"

definition status :: "reconciler \<Rightarrow> status_view" where
  "status r = \<lparr>sv_state =
       (if rc_diverged r \<noteq> None then StDivergent
        else case rc_pending r of
          Some p \<Rightarrow> if pd_acked p then StPendingAcked else StPendingUnacked
        | None \<Rightarrow> StVerified),
     sv_revision = rc_revision r, sv_pending = (rc_pending r \<noteq> None),
     sv_divergence = rc_diverged r\<rparr>"

definition diverge :: "divergence_kind \<Rightarrow> reconciler \<Rightarrow> reconciler" where
  "diverge reason r = r\<lparr>rc_diverged := Some reason, rc_pending := None\<rparr>"

subsection \<open>The ordered checks\<close>

text \<open>The reason of the first condition that holds, as a chain of early returns.\<close>

fun first_reason :: "(bool \<times> divergence_kind) list \<Rightarrow> divergence_kind option" where
  "first_reason [] = None"
| "first_reason ((bad, reason) # rest) = (if bad then Some reason else first_reason rest)"

lemma first_reason_append [simp]: "first_reason (xs @ ys) =
    (case first_reason xs of Some reason \<Rightarrow> Some reason | None \<Rightarrow> first_reason ys)"
  by (induction xs rule: first_reason.induct) auto

lemma first_reason_None: "first_reason xs = None \<longleftrightarrow> (\<forall>(bad, reason) \<in> set xs. \<not> bad)"
  by (induction xs rule: first_reason.induct) auto

text \<open>The observation checks that every \<open>propose\<close> opens with.\<close>

definition observation_checks ::
  "reconciler \<Rightarrow> observation \<Rightarrow> correlation_id \<Rightarrow> (bool \<times> divergence_kind) list" where
  "observation_checks r ob corr =
     [(\<not> is_correlation_id corr, CorrelationMismatch),
      (\<not> observation_validate ob \<or> ob_owner ob \<noteq> rc_owner r,
       if ob_owner ob \<noteq> rc_owner r then OwnerMismatch
       else if \<not> is_generation_id (ob_generation ob) then GenerationMismatch
       else StaleRevision),
      (ob_generation ob \<noteq> rc_generation r, GenerationMismatch),
      (ob_revision ob \<noteq> rc_revision r, StaleRevision),
      (max_revision \<le> rc_revision r, RevisionExhausted)]"

definition propose_with ::
  "(bool \<times> divergence_kind) list \<Rightarrow> 'd \<Rightarrow> pending_kind \<Rightarrow> observation \<Rightarrow> correlation_id
    \<Rightarrow> reconciler \<Rightarrow> (propose_error + 'd) \<times> reconciler" where
  "propose_with checks disp kind ob corr r =
     (case rc_diverged r of
        Some reason \<Rightarrow> (Inl (ProposeDiverged reason), r)
      | None \<Rightarrow>
          if rc_pending r \<noteq> None then (Inl PendingExists, r)
          else (case first_reason (observation_checks r ob corr @ checks) of
              Some reason \<Rightarrow> (Inl (ProposeDiverged reason), diverge reason r)
            | None \<Rightarrow> (Inr disp, r\<lparr>rc_pending := Some \<lparr>pd_correlation = corr,
                pd_base_revision = rc_revision r, pd_acked = False, pd_kind = kind\<rparr>\<rparr>)))"

text \<open>The dispatch a plan is sent as.\<close>

definition dispatch_of :: "('c, 'p, 'i, 'o, 'z) plan_scheme \<Rightarrow> correlation_id \<Rightarrow> reconciler
    \<Rightarrow> ('c, 'p, 'i, 'o) dispatch" where
  "dispatch_of plan corr r = \<lparr>d_correlation = corr, d_owner = rc_owner r,
     d_generation = rc_generation r, d_base_revision = rc_revision r,
     d_required_capability = p_required_capability plan, d_preconditions = p_preconditions plan,
     d_intent = p_intent plan, d_operation = p_operation plan\<rparr>"

subsection \<open>Movement, lifecycle and focus proposals\<close>

definition move_checks :: "move_plan \<Rightarrow> capabilities \<Rightarrow> (bool \<times> divergence_kind) list" where
  "move_checks plan caps =
     [(mp_rule plan \<noteq> op_rule (mp_operation plan), PostconditionMismatch),
      (mp_required_capability plan \<noteq> op_required_capability (mp_operation plan), CapabilityRefused),
      (mp_preconditions plan \<noteq> op_preconditions (mp_operation plan), PostconditionMismatch),
      (\<not> supports caps (op_required_capability (mp_operation plan)), CapabilityRefused),
      (max_preconditions < length (mp_preconditions plan)
        \<or> AdapterMustVerifyPostconditions \<notin> set (mp_preconditions plan), PostconditionMismatch)]"

definition propose :: "move_plan \<Rightarrow> observation \<Rightarrow> correlation_id \<Rightarrow> capabilities \<Rightarrow> reconciler
    \<Rightarrow> (propose_error + move_dispatch) \<times> reconciler" where
  "propose plan ob corr caps r = propose_with (move_checks plan caps)
     \<lparr>d_correlation = corr, d_owner = rc_owner r, d_generation = rc_generation r,
      d_base_revision = rc_revision r, d_required_capability = mp_required_capability plan,
      d_preconditions = mp_preconditions plan, d_intent = mp_intent plan,
      d_operation = mp_operation plan, d_rule = mp_rule plan\<rparr>
     (PendingMove (mp_preconditions plan) (mp_operation plan)) ob corr r"

definition lifecycle_checks ::
  "lifecycle_plan \<Rightarrow> lifecycle_capabilities \<Rightarrow> (bool \<times> divergence_kind) list" where
  "lifecycle_checks plan caps =
     [(p_policy_version plan \<noteq> lifecycle_policy_version \<or> \<not> valid_policy plan,
       PostconditionMismatch),
      (p_required_capability plan \<noteq> lifecycle_required_capability (p_operation plan),
       CapabilityRefused),
      (p_preconditions plan \<noteq> lifecycle_preconditions (p_operation plan), PostconditionMismatch),
      (\<not> lifecycle_supports caps (lifecycle_required_capability (p_operation plan)),
       CapabilityRefused),
      (max_preconditions < length (p_preconditions plan)
        \<or> LifecycleMustVerifyPostconditions \<notin> set (p_preconditions plan), PostconditionMismatch)]"

definition propose_lifecycle :: "lifecycle_plan \<Rightarrow> observation \<Rightarrow> correlation_id
    \<Rightarrow> lifecycle_capabilities \<Rightarrow> reconciler \<Rightarrow> (propose_error + lifecycle_dispatch) \<times> reconciler"
  where
  "propose_lifecycle plan ob corr caps r = propose_with (lifecycle_checks plan caps)
     (dispatch.extend (dispatch_of plan corr r) \<lparr>d_policy_version = p_policy_version plan\<rparr>)
     (PendingLifecycle (p_preconditions plan) (p_operation plan)) ob corr r"

definition focus_checks ::
  "focus_plan_contract \<Rightarrow> focus_capabilities \<Rightarrow> (bool \<times> divergence_kind) list" where
  "focus_checks plan caps =
     [(p_required_capability plan \<noteq> focus_required_capability (p_operation plan),
       CapabilityRefused),
      (p_preconditions plan \<noteq> focus_preconditions (p_operation plan), PostconditionMismatch),
      (\<not> focus_supports caps (focus_required_capability (p_operation plan)), CapabilityRefused),
      (max_preconditions < length (p_preconditions plan)
        \<or> FocusMustVerifyPostconditions \<notin> set (p_preconditions plan), PostconditionMismatch),
      (fo_from_leaf (p_operation plan) = Some (fo_to_leaf (p_operation plan)),
       PostconditionMismatch),
      (fo_from_leaf (p_operation plan) = None \<and> \<not> focus_is_cross_output (p_operation plan),
       PostconditionMismatch),
      (fo_route (p_operation plan) = [], PostconditionMismatch)]"

definition propose_focus :: "focus_plan_contract \<Rightarrow> observation \<Rightarrow> correlation_id
    \<Rightarrow> focus_capabilities \<Rightarrow> reconciler \<Rightarrow> (propose_error + focus_dispatch) \<times> reconciler" where
  "propose_focus plan ob corr caps r = propose_with (focus_checks plan caps)
     (dispatch_of plan corr r)
     (PendingFocus (p_preconditions plan) (p_operation plan)) ob corr r"

subsection \<open>Share and drag operation validity\<close>

definition fixed_share_shape :: "resize_operation \<Rightarrow> bool" where
  "fixed_share_shape op \<longleftrightarrow>
     \<not> (ro_domain_output op = [] \<or> ro_domain_workspace op = [] \<or> ro_focused_leaf op = []
        \<or> ro_focused_window op = [] \<or> ro_target_group op = [] \<or> ro_focused_child op = []
        \<or> ro_neighbor_child op = [])
     \<and> ro_focused_child op \<noteq> ro_neighbor_child op
     \<and> \<not> (length (ro_old_shares op) < 2
        \<or> length (ro_new_shares op) \<noteq> length (ro_old_shares op))
     \<and> \<not> (length (ro_old_shares op) \<le> ro_focused_index op
        \<or> length (ro_old_shares op) \<le> ro_neighbor_index op
        \<or> ro_focused_index op = ro_neighbor_index op)
     \<and> \<bar>int (ro_focused_index op) - int (ro_neighbor_index op)\<bar> = 1
     \<and> int (ro_neighbor_index op) - int (ro_focused_index op) = step_for (ro_direction op)
     \<and> \<not> (0 \<in> set (ro_old_shares op) \<or> 0 \<in> set (ro_new_shares op))
     \<and> ro_old_shares op \<noteq> ro_new_shares op"

text \<open>The tail both branches share: totals and pair scale by \<open>k\<close> and the pair moves.\<close>

definition pair_moves :: "nat list \<Rightarrow> nat list \<Rightarrow> nat \<Rightarrow> nat \<Rightarrow> nat \<Rightarrow> bool" where
  "pair_moves old new fi ni k \<longleftrightarrow>
     (case checked_mul_u64 (old ! fi) k of
        None \<Rightarrow> False
      | Some scaled_fi \<Rightarrow>
          (case checked_mul_u64 (old ! ni) k of
             None \<Rightarrow> False
           | Some scaled_ni \<Rightarrow> \<not> (new ! fi = scaled_fi \<or> new ! ni = scaled_ni)))"

definition shares_move :: "nat list \<Rightarrow> nat list \<Rightarrow> nat \<Rightarrow> nat \<Rightarrow> nat \<Rightarrow> nat \<Rightarrow> nat \<Rightarrow> nat \<Rightarrow> bool" where
  "shares_move old new fi ni old_total new_total old_pair new_pair \<longleftrightarrow>
     (case filter (\<lambda>i. i \<noteq> fi \<and> i \<noteq> ni) [0..<length old] of
        first # rest \<Rightarrow>
          \<not> (old ! first = 0 \<or> new ! first mod old ! first \<noteq> 0)
          \<and> (let k = new ! first div old ! first in
             k \<noteq> 0
             \<and> list_all (\<lambda>i. checked_mul_u64 (old ! i) k = Some (new ! i)) (first # rest)
             \<and> checked_mul_u64 old_pair k = Some new_pair
             \<and> checked_mul_u64 old_total k = Some new_total
             \<and> pair_moves old new fi ni k)
      | [] \<Rightarrow>
          new_pair mod old_pair = 0
          \<and> (let k = new_pair div old_pair in
             k \<noteq> 0 \<and> checked_mul_u64 old_total k = Some new_total
             \<and> pair_moves old new fi ni k))"

definition valid_fixed_share_operation :: "resize_operation \<Rightarrow> bool" where
  "valid_fixed_share_operation op \<longleftrightarrow> fixed_share_shape op \<and>
     (let old = ro_old_shares op; new = ro_new_shares op;
          fi = ro_focused_index op; ni = ro_neighbor_index op in
      case checked_total 0 old of
        None \<Rightarrow> False
      | Some old_total \<Rightarrow>
          (case checked_total 0 new of
             None \<Rightarrow> False
           | Some new_total \<Rightarrow>
               \<not> (old_total = 0 \<or> new_total = 0)
               \<and> (case checked_add_u64 (old ! fi) (old ! ni) of
                    None \<Rightarrow> False
                  | Some old_pair \<Rightarrow> old_pair \<noteq> 0
                      \<and> (case checked_add_u64 (new ! fi) (new ! ni) of
                           None \<Rightarrow> False
                         | Some new_pair \<Rightarrow> new_pair \<noteq> 0
                             \<and> shares_move old new fi ni old_total new_total old_pair new_pair))))"

definition valid_keyboard_resize_mode :: "resize_operation \<Rightarrow> bool" where
  "valid_keyboard_resize_mode op \<longleftrightarrow>
     \<not> (length (ro_old_shares op) \<noteq> length (ro_new_shares op)
        \<or> length (ro_old_shares op) \<le> ro_focused_index op)
     \<and> (case checked_total 0 (ro_old_shares op) of
          None \<Rightarrow> False
        | Some old_total \<Rightarrow>
            (case checked_total 0 (ro_new_shares op) of
               None \<Rightarrow> False
             | Some new_total \<Rightarrow>
                 \<not> (old_total = 0 \<or> new_total = 0 \<or> new_total mod old_total \<noteq> 0)
                 \<and> (let k = new_total div old_total in
                    k \<noteq> 0 \<and> checked_mul_u64 old_total k = Some new_total
                    \<and> (case checked_mul_u64 (ro_old_shares op ! ro_focused_index op) k of
                         None \<Rightarrow> False
                       | Some scaled \<Rightarrow>
                           (let new_focused = ro_new_shares op ! ro_focused_index op in
                            case ro_mode op of
                              Inwards \<Rightarrow> new_focused < scaled
                            | Outwards \<Rightarrow> scaled < new_focused)))))"

definition valid_resize_operation :: "resize_operation \<Rightarrow> bool" where
  "valid_resize_operation op \<longleftrightarrow> valid_fixed_share_operation op \<and> valid_keyboard_resize_mode op"

definition valid_drag_operation :: "drag_operation \<Rightarrow> bool" where
  "valid_drag_operation op \<longleftrightarrow>
     \<not> (do_domain_output op = [] \<or> do_domain_workspace op = [] \<or> do_source_leaf op = []
        \<or> do_source_window op = [] \<or> do_target_leaf op = [] \<or> do_target_window op = []
        \<or> do_target_group op = [])
     \<and> \<not> (do_source_leaf op = do_target_leaf op \<or> do_source_window op = do_target_window op)
     \<and> drag_side_axis (do_side op) = Some (do_axis op)
     \<and> drag_side_before (do_side op) = Some (do_before op)
     \<and> (if do_wrap op
        then (case do_new_group op of
                None \<Rightarrow> False
              | Some new_group \<Rightarrow>
                  \<not> (new_group = [] \<or> new_group = do_source_leaf op
                     \<or> new_group = do_target_leaf op \<or> new_group = do_target_group op)
                  \<and> (if do_target_group op = do_target_leaf op then do_insertion_index op = 0
                     else do_target_group op \<noteq> do_source_leaf op))
        else do_new_group op = None \<and> do_target_group op \<noteq> do_source_leaf op)"

subsection \<open>Resize and drag proposals\<close>

definition resize_intent_differs :: "resize_plan \<Rightarrow> bool" where
  "resize_intent_differs plan \<longleftrightarrow>
     ri_domain_output (p_intent plan) \<noteq> ro_domain_output (p_operation plan)
     \<or> ri_domain_workspace (p_intent plan) \<noteq> ro_domain_workspace (p_operation plan)
     \<or> ri_focused_leaf (p_intent plan) \<noteq> ro_focused_leaf (p_operation plan)
     \<or> ri_focused_window (p_intent plan) \<noteq> ro_focused_window (p_operation plan)
     \<or> ri_direction (p_intent plan) \<noteq> ro_direction (p_operation plan)
     \<or> ri_mode (p_intent plan) \<noteq> ro_mode (p_operation plan)"

definition resize_checks ::
  "resize_plan \<Rightarrow> resize_capabilities \<Rightarrow> (bool \<times> divergence_kind) list" where
  "resize_checks plan caps =
     [(p_required_capability plan \<noteq> KeyboardResize
        \<or> p_required_capability plan \<noteq> resize_required_capability (p_operation plan),
       CapabilityRefused),
      (p_preconditions plan \<noteq> resize_preconditions (p_operation plan), PostconditionMismatch),
      (\<not> resize_supports caps KeyboardResize, CapabilityRefused),
      (max_preconditions < length (p_preconditions plan)
        \<or> ResizeMustVerifyPostconditions \<notin> set (p_preconditions plan), PostconditionMismatch),
      (resize_intent_differs plan, PostconditionMismatch),
      (\<not> valid_resize_operation (p_operation plan), PostconditionMismatch)]"

definition resize_dispatch_of :: "resize_plan \<Rightarrow> resize_operation option \<Rightarrow> correlation_id
    \<Rightarrow> reconciler \<Rightarrow> resize_dispatch" where
  "resize_dispatch_of plan secondary corr r =
     dispatch.extend (dispatch_of plan corr r) \<lparr>d_secondary_operation = secondary\<rparr>"

definition propose_resize :: "resize_plan \<Rightarrow> observation \<Rightarrow> correlation_id
    \<Rightarrow> resize_capabilities \<Rightarrow> reconciler \<Rightarrow> (propose_error + resize_dispatch) \<times> reconciler" where
  "propose_resize plan ob corr caps r = propose_with (resize_checks plan caps)
     (resize_dispatch_of plan None corr r)
     (PendingResize (p_preconditions plan) (p_operation plan) None) ob corr r"

definition pointer_checks ::
  "resize_plan \<Rightarrow> resize_capabilities \<Rightarrow> (bool \<times> divergence_kind) list" where
  "pointer_checks plan caps =
     [(p_required_capability plan \<noteq> PointerResize, CapabilityRefused),
      (p_preconditions plan \<noteq> resize_preconditions (p_operation plan), PostconditionMismatch),
      (\<not> resize_supports caps PointerResize, CapabilityRefused),
      (max_preconditions < length (p_preconditions plan)
        \<or> ResizeMustVerifyPostconditions \<notin> set (p_preconditions plan), PostconditionMismatch),
      (resize_intent_differs plan, PostconditionMismatch),
      (\<not> valid_fixed_share_operation (p_operation plan), PostconditionMismatch)]"

definition propose_pointer_resize :: "resize_plan \<Rightarrow> observation \<Rightarrow> correlation_id
    \<Rightarrow> resize_capabilities \<Rightarrow> reconciler \<Rightarrow> (propose_error + resize_dispatch) \<times> reconciler" where
  "propose_pointer_resize plan ob corr caps r = propose_with (pointer_checks plan caps)
     (resize_dispatch_of plan None corr r)
     (PendingResize (p_preconditions plan) (p_operation plan) None) ob corr r"

text \<open>The checks of one axis in the loop over \<open>[primary, secondary]\<close>.\<close>

definition corner_axis_checks :: "resize_plan \<Rightarrow> (bool \<times> divergence_kind) list" where
  "corner_axis_checks plan =
     [(p_required_capability plan \<noteq> PointerResize, CapabilityRefused),
      (p_preconditions plan \<noteq> resize_preconditions (p_operation plan), PostconditionMismatch),
      (resize_intent_differs plan, PostconditionMismatch),
      (\<not> valid_fixed_share_operation (p_operation plan), PostconditionMismatch)]"

definition corner_checks ::
  "resize_plan \<Rightarrow> resize_plan \<Rightarrow> resize_capabilities \<Rightarrow> (bool \<times> divergence_kind) list" where
  "corner_checks primary secondary caps =
     corner_axis_checks primary @ corner_axis_checks secondary @
     [(p_preconditions primary \<noteq> p_preconditions secondary, PostconditionMismatch),
      (axis_for_direction (ro_direction (p_operation primary))
        = axis_for_direction (ro_direction (p_operation secondary)), PostconditionMismatch),
      (\<not> resize_supports caps PointerResize, CapabilityRefused),
      (max_preconditions < length (p_preconditions primary)
        \<or> ResizeMustVerifyPostconditions \<notin> set (p_preconditions primary), PostconditionMismatch),
      (ri_domain_output (p_intent primary) \<noteq> ri_domain_output (p_intent secondary)
        \<or> ri_domain_workspace (p_intent primary) \<noteq> ri_domain_workspace (p_intent secondary)
        \<or> ri_focused_leaf (p_intent primary) \<noteq> ri_focused_leaf (p_intent secondary)
        \<or> ri_focused_window (p_intent primary) \<noteq> ri_focused_window (p_intent secondary),
       PostconditionMismatch)]"

definition propose_pointer_resize_corner :: "resize_plan \<Rightarrow> resize_plan \<Rightarrow> observation
    \<Rightarrow> correlation_id \<Rightarrow> resize_capabilities \<Rightarrow> reconciler
    \<Rightarrow> (propose_error + resize_dispatch) \<times> reconciler" where
  "propose_pointer_resize_corner primary secondary ob corr caps r =
     propose_with (corner_checks primary secondary caps)
     (resize_dispatch_of primary (Some (p_operation secondary)) corr r)
     (PendingResize (p_preconditions primary) (p_operation primary)
       (Some (p_operation secondary))) ob corr r"

definition drag_checks :: "drag_plan \<Rightarrow> drag_capabilities \<Rightarrow> (bool \<times> divergence_kind) list" where
  "drag_checks plan caps =
     [(p_required_capability plan \<noteq> drag_required_capability (p_operation plan), CapabilityRefused),
      (p_preconditions plan \<noteq> drag_preconditions (p_operation plan), PostconditionMismatch),
      (\<not> drag_supports caps (drag_required_capability (p_operation plan)), CapabilityRefused),
      (max_preconditions < length (p_preconditions plan)
        \<or> DragMustVerifyPostconditions \<notin> set (p_preconditions plan), PostconditionMismatch),
      (di_domain_output (p_intent plan) \<noteq> do_domain_output (p_operation plan)
        \<or> di_domain_workspace (p_intent plan) \<noteq> do_domain_workspace (p_operation plan)
        \<or> di_source_leaf (p_intent plan) \<noteq> do_source_leaf (p_operation plan)
        \<or> di_source_window (p_intent plan) \<noteq> do_source_window (p_operation plan)
        \<or> di_target_leaf (p_intent plan) \<noteq> do_target_leaf (p_operation plan)
        \<or> di_target_window (p_intent plan) \<noteq> do_target_window (p_operation plan)
        \<or> di_side (p_intent plan) \<noteq> do_side (p_operation plan), PostconditionMismatch),
      (\<not> valid_drag_operation (p_operation plan), PostconditionMismatch)]"

definition propose_drag :: "drag_plan \<Rightarrow> observation \<Rightarrow> correlation_id
    \<Rightarrow> drag_capabilities \<Rightarrow> reconciler \<Rightarrow> (propose_error + drag_dispatch) \<times> reconciler" where
  "propose_drag plan ob corr caps r = propose_with (drag_checks plan caps)
     (dispatch_of plan corr r)
     (PendingDrag (p_preconditions plan) (p_operation plan)) ob corr r"

subsection \<open>Cancellation, acknowledgement, verification\<close>

definition cancel_unacked ::
  "correlation_id \<Rightarrow> nat \<Rightarrow> reconciler \<Rightarrow> (cancel_error + unit) \<times> reconciler" where
  "cancel_unacked corr base r =
     (case rc_diverged r of
        Some reason \<Rightarrow> (Inl (CancelDiverged reason), r)
      | None \<Rightarrow>
          (case rc_pending r of
             None \<Rightarrow> (Inl CancelNoPending, r)
           | Some p \<Rightarrow>
               if pd_acked p then (Inl AlreadyAcknowledged, r)
               else if pd_correlation p \<noteq> corr \<or> pd_base_revision p \<noteq> base
               then (Inl BindingMismatch, r)
               else (Inr (), r\<lparr>rc_pending := None\<rparr>)))"

definition ack_checks ::
  "adapter_ack \<Rightarrow> pending \<Rightarrow> reconciler \<Rightarrow> (bool \<times> divergence_kind) list" where
  "ack_checks a p r =
     [(\<not> is_correlation_id (ack_correlation a), CorrelationMismatch),
      (\<not> is_owner_id (ack_owner a), OwnerMismatch),
      (\<not> is_generation_id (ack_generation a), GenerationMismatch),
      (\<not> is_revision (ack_base_revision a), StaleRevision),
      (ack_owner a \<noteq> rc_owner r, OwnerMismatch),
      (ack_generation a \<noteq> rc_generation r, GenerationMismatch),
      (ack_correlation a \<noteq> pd_correlation p \<or> ack_base_revision a \<noteq> pd_base_revision p,
       CorrelationMismatch),
      (ack_outcome a = AckRefusedCapability, CapabilityRefused),
      (ack_outcome a = AckPartialApplication, PartialApplication),
      (ack_outcome a = AckAdapterLost, AdapterLost)]"

definition acknowledge ::
  "adapter_ack \<Rightarrow> reconciler \<Rightarrow> (ack_error + ack_applied) \<times> reconciler" where
  "acknowledge a r =
     (case rc_diverged r of
        Some reason \<Rightarrow> (Inl (AckDiverged reason), r)
      | None \<Rightarrow>
          (case rc_pending r of
             None \<Rightarrow> (Inl AckNoPending, r)
           | Some p \<Rightarrow>
               (case first_reason (ack_checks a p r) of
                  Some reason \<Rightarrow> (Inl (AckDiverged reason), diverge reason r)
                | None \<Rightarrow>
                    if pd_acked p then (Inr DuplicateDiscarded, r)
                    else (Inr AppliedAccepted, r\<lparr>rc_pending := Some (p\<lparr>pd_acked := True\<rparr>)\<rparr>))))"

text \<open>
  The checks of every \<open>verify\<close>: \<open>binds\<close> is the kind's own match on the pending
  plan's kind, preconditions and operation (each of the code's separate tests diverges with
  \<open>PostconditionMismatch\<close>).
\<close>

definition verify_checks :: "('p, 'o, 'z) post_observation_scheme \<Rightarrow> (pending_kind \<Rightarrow> bool)
    \<Rightarrow> pending \<Rightarrow> reconciler \<Rightarrow> (bool \<times> divergence_kind) list" where
  "verify_checks post binds p r =
     [(max_preconditions < length (po_preconditions post), PostconditionMismatch),
      (\<not> is_correlation_id (po_correlation post), CorrelationMismatch),
      (\<not> is_owner_id (ob_owner (po_observation post)), OwnerMismatch),
      (\<not> is_generation_id (ob_generation (po_observation post)), GenerationMismatch),
      (\<not> is_revision (ob_revision (po_observation post)), StaleRevision),
      (po_correlation post \<noteq> pd_correlation p, CorrelationMismatch),
      (ob_owner (po_observation post) \<noteq> rc_owner r, OwnerMismatch),
      (ob_generation (po_observation post) \<noteq> rc_generation r, GenerationMismatch),
      (ob_revision (po_observation post) \<noteq> pd_base_revision p, StaleRevision),
      (\<not> po_verified post, PostconditionUnverified),
      (\<not> binds (pd_kind p), PostconditionMismatch),
      (max_revision \<le> pd_base_revision p, RevisionExhausted)]"

definition verify_with :: "('p, 'o, 'z) post_observation_scheme \<Rightarrow> (pending_kind \<Rightarrow> bool)
    \<Rightarrow> reconciler \<Rightarrow> (verify_error + commit) \<times> reconciler" where
  "verify_with post binds r =
     (case rc_diverged r of
        Some reason \<Rightarrow> (Inl (VerifyDiverged reason), r)
      | None \<Rightarrow>
          (case rc_pending r of
             None \<Rightarrow> (Inl VerifyNoPending, r)
           | Some p \<Rightarrow>
               if \<not> pd_acked p then (Inl NotAcknowledged, r)
               else (case first_reason (verify_checks post binds p r) of
                    Some reason \<Rightarrow> (Inl (VerifyDiverged reason), diverge reason r)
                  | None \<Rightarrow>
                      (Inr \<lparr>cm_revision = pd_base_revision p + 1,
                            cm_fingerprint = ob_fingerprint (po_observation post)\<rparr>,
                       r\<lparr>rc_revision := pd_base_revision p + 1,
                         rc_fingerprint := ob_fingerprint (po_observation post),
                         rc_pending := None\<rparr>))))"

fun move_binds :: "move_post \<Rightarrow> pending_kind \<Rightarrow> bool" where
  "move_binds post (PendingMove pre op) \<longleftrightarrow> po_preconditions post = pre \<and> po_operation post = op"
| "move_binds post kind \<longleftrightarrow> False"

fun lifecycle_binds :: "lifecycle_post \<Rightarrow> pending_kind \<Rightarrow> bool" where
  "lifecycle_binds post (PendingLifecycle pre op) \<longleftrightarrow>
     po_preconditions post = pre \<and> po_operation post = op"
| "lifecycle_binds post kind \<longleftrightarrow> False"

fun focus_binds :: "focus_post \<Rightarrow> pending_kind \<Rightarrow> bool" where
  "focus_binds post (PendingFocus pre op) \<longleftrightarrow> po_preconditions post = pre \<and> po_operation post = op"
| "focus_binds post kind \<longleftrightarrow> False"

fun resize_binds :: "resize_post \<Rightarrow> pending_kind \<Rightarrow> bool" where
  "resize_binds post (PendingResize pre op secondary) \<longleftrightarrow>
     po_preconditions post = pre \<and> po_operation post = op
     \<and> po_secondary_operation post = secondary"
| "resize_binds post kind \<longleftrightarrow> False"

fun drag_binds :: "drag_post \<Rightarrow> pending_kind \<Rightarrow> bool" where
  "drag_binds post (PendingDrag pre op) \<longleftrightarrow> po_preconditions post = pre \<and> po_operation post = op"
| "drag_binds post kind \<longleftrightarrow> False"

definition verify :: "move_post \<Rightarrow> reconciler \<Rightarrow> (verify_error + commit) \<times> reconciler" where
  "verify post r = verify_with post (move_binds post) r"

definition verify_lifecycle ::
  "lifecycle_post \<Rightarrow> reconciler \<Rightarrow> (verify_error + commit) \<times> reconciler" where
  "verify_lifecycle post r = verify_with post (lifecycle_binds post) r"

definition verify_focus :: "focus_post \<Rightarrow> reconciler \<Rightarrow> (verify_error + commit) \<times> reconciler" where
  "verify_focus post r = verify_with post (focus_binds post) r"

definition verify_resize :: "resize_post \<Rightarrow> reconciler \<Rightarrow> (verify_error + commit) \<times> reconciler" where
  "verify_resize post r = verify_with post (resize_binds post) r"

definition verify_drag :: "drag_post \<Rightarrow> reconciler \<Rightarrow> (verify_error + commit) \<times> reconciler" where
  "verify_drag post r = verify_with post (drag_binds post) r"

subsection \<open>Explicit signals and observation convergence\<close>

definition note_divergence :: "divergence_kind \<Rightarrow> reconciler \<Rightarrow> divergence_kind \<times> reconciler" where
  "note_divergence reason r =
     (case rc_diverged r of Some existing \<Rightarrow> (existing, r) | None \<Rightarrow> (reason, diverge reason r))"

definition note_adapter_loss :: "reconciler \<Rightarrow> divergence_kind \<times> reconciler" where
  "note_adapter_loss r = note_divergence AdapterLost r"

definition note_postcondition_mismatch :: "reconciler \<Rightarrow> divergence_kind \<times> reconciler" where
  "note_postcondition_mismatch r = note_divergence PostconditionMismatch r"

definition diverge_convergence ::
  "divergence_kind \<Rightarrow> reconciler \<Rightarrow> divergence_kind \<times> reconciler" where
  "diverge_convergence reason r = note_divergence reason r"

definition commit_observation_convergence ::
  "nat \<Rightarrow> reconciler \<Rightarrow> (divergence_kind + commit) \<times> reconciler" where
  "commit_observation_convergence fingerprint r =
     (case rc_diverged r of
        Some reason \<Rightarrow> (Inl reason, r)
      | None \<Rightarrow>
          if rc_pending r \<noteq> None then (Inl PostconditionMismatch, r)
          else if max_revision \<le> rc_revision r then (Inl RevisionExhausted, r)
          else (Inr \<lparr>cm_revision = rc_revision r + 1, cm_fingerprint = fingerprint\<rparr>,
                r\<lparr>rc_revision := rc_revision r + 1, rc_fingerprint := fingerprint\<rparr>))"

subsection \<open>The contract of a proposal and of a verification\<close>

definition rc_inv :: "reconciler \<Rightarrow> bool" where
  "rc_inv r \<longleftrightarrow> is_owner_id (rc_owner r) \<and> is_generation_id (rc_generation r)
     \<and> rc_revision r \<le> max_revision
     \<and> (rc_diverged r \<noteq> None \<longrightarrow> rc_pending r = None)
     \<and> (\<forall>p. rc_pending r = Some p \<longrightarrow>
         pd_base_revision p = rc_revision r \<and> rc_revision r < max_revision
         \<and> is_correlation_id (pd_correlation p))"

definition slot :: "correlation_id \<Rightarrow> pending_kind \<Rightarrow> reconciler \<Rightarrow> reconciler" where
  "slot corr kind r = r\<lparr>rc_pending := Some \<lparr>pd_correlation = corr,
     pd_base_revision = rc_revision r, pd_acked = False, pd_kind = kind\<rparr>\<rparr>"

definition committed :: "nat \<Rightarrow> reconciler \<Rightarrow> reconciler" where
  "committed fingerprint r = r\<lparr>rc_revision := rc_revision r + 1, rc_fingerprint := fingerprint,
     rc_pending := None\<rparr>"

lemma rc_inv_diverge: "rc_inv r \<Longrightarrow> rc_inv (diverge reason r)"
  by (simp add: rc_inv_def diverge_def)

lemma rc_inv_slot:
  "rc_inv r \<Longrightarrow> rc_diverged r = None \<Longrightarrow> is_correlation_id corr \<Longrightarrow> rc_revision r < max_revision
    \<Longrightarrow> rc_inv (slot corr kind r)"
  by (simp add: rc_inv_def slot_def)

lemma rc_inv_committed:
  "rc_inv r \<Longrightarrow> rc_revision r < max_revision \<Longrightarrow> rc_inv (committed fp r)"
  by (simp add: rc_inv_def committed_def)

text \<open>
  What a caller may rely on of any \<open>propose\<close>: a diverged or pending reconciler is left
  alone, and an idle one either takes the plan into its slot or diverges.
\<close>

locale proposal =
  fixes offer :: "reconciler \<Rightarrow> (propose_error + 'd) \<times> reconciler"
    and corr :: correlation_id
    and kind :: pending_kind
  assumes refuse_diverged: "rc_diverged r = Some reason \<Longrightarrow> offer r = (Inl (ProposeDiverged reason), r)"
    and refuse_pending: "rc_diverged r = None \<Longrightarrow> rc_pending r = Some p
      \<Longrightarrow> offer r = (Inl PendingExists, r)"
    and idle: "rc_diverged r = None \<Longrightarrow> rc_pending r = None \<Longrightarrow>
      (\<exists>reason. offer r = (Inl (ProposeDiverged reason), diverge reason r))
      \<or> (\<exists>d. offer r = (Inr d, slot corr kind r) \<and> is_correlation_id corr
          \<and> rc_revision r < max_revision)"
begin

lemma outcome:
  "snd (offer r) = r \<and> (\<exists>e. fst (offer r) = Inl e)
    \<or> rc_diverged r = None \<and> rc_pending r = None \<and>
      ((\<exists>reason. offer r = (Inl (ProposeDiverged reason), diverge reason r))
       \<or> (\<exists>d. offer r = (Inr d, slot corr kind r) \<and> is_correlation_id corr
          \<and> rc_revision r < max_revision))"
proof (cases "rc_diverged r")
  case None
  then show ?thesis using refuse_pending [of r] idle [of r] by (cases "rc_pending r") auto
next
  case (Some reason)
  then show ?thesis by (simp add: refuse_diverged)
qed

lemma keeps_inv: "rc_inv r \<Longrightarrow> rc_inv (snd (offer r))"
  using outcome [of r] by (auto simp: rc_inv_diverge rc_inv_slot)

lemma accepted:
  assumes "fst (offer r) = Inr d"
  shows "rc_diverged r = None" "rc_pending r = None" "snd (offer r) = slot corr kind r"
    "is_correlation_id corr" "rc_revision r < max_revision"
  using outcome [of r] assms by auto

end

text \<open>
  What a caller may rely on of any \<open>verify\<close>: without an acknowledged plan nothing
  changes; with one it commits exactly one revision when the post-observation binds and
  otherwise diverges.
\<close>

locale verification =
  fixes confirm :: "reconciler \<Rightarrow> (verify_error + commit) \<times> reconciler"
    and binds :: "pending_kind \<Rightarrow> bool"
    and post_corr :: correlation_id
    and post_ob :: observation
  assumes refuse_diverged: "rc_diverged r = Some reason \<Longrightarrow> confirm r = (Inl (VerifyDiverged reason), r)"
    and refuse_idle: "rc_diverged r = None \<Longrightarrow> rc_pending r = None \<Longrightarrow> confirm r = (Inl VerifyNoPending, r)"
    and refuse_unacked: "rc_diverged r = None \<Longrightarrow> rc_pending r = Some p \<Longrightarrow> \<not> pd_acked p
      \<Longrightarrow> confirm r = (Inl NotAcknowledged, r)"
    and acked: "rc_diverged r = None \<Longrightarrow> rc_pending r = Some p \<Longrightarrow> pd_acked p \<Longrightarrow>
      pd_base_revision p = rc_revision r \<Longrightarrow>
      (\<exists>reason. confirm r = (Inl (VerifyDiverged reason), diverge reason r))
      \<or> (confirm r = (Inr \<lparr>cm_revision = rc_revision r + 1, cm_fingerprint = ob_fingerprint post_ob\<rparr>,
            committed (ob_fingerprint post_ob) r)
         \<and> rc_revision r < max_revision \<and> binds (pd_kind p) \<and> post_corr = pd_correlation p
         \<and> ob_owner post_ob = rc_owner r \<and> ob_generation post_ob = rc_generation r
         \<and> ob_revision post_ob = rc_revision r)"
begin

lemma outcome:
  assumes "rc_inv r"
  shows "snd (confirm r) = r \<and> (\<exists>e. fst (confirm r) = Inl e)
    \<or> (\<exists>p. rc_diverged r = None \<and> rc_pending r = Some p \<and> pd_acked p \<and>
      ((\<exists>reason. confirm r = (Inl (VerifyDiverged reason), diverge reason r))
       \<or> (confirm r = (Inr \<lparr>cm_revision = rc_revision r + 1, cm_fingerprint = ob_fingerprint post_ob\<rparr>,
            committed (ob_fingerprint post_ob) r)
         \<and> rc_revision r < max_revision \<and> binds (pd_kind p) \<and> post_corr = pd_correlation p
         \<and> ob_owner post_ob = rc_owner r \<and> ob_generation post_ob = rc_generation r
         \<and> ob_revision post_ob = rc_revision r)))"
proof (cases "rc_diverged r")
  case None
  show ?thesis
  proof (cases "rc_pending r")
    case None
    with \<open>rc_diverged r = None\<close> show ?thesis by (simp add: refuse_idle)
  next
    case (Some p)
    with assms have "pd_base_revision p = rc_revision r" by (simp add: rc_inv_def)
    with None Some show ?thesis using refuse_unacked [of r p] acked [of r p] by (cases "pd_acked p") auto
  qed
next
  case (Some reason)
  then show ?thesis by (simp add: refuse_diverged)
qed

lemma keeps_inv: "rc_inv r \<Longrightarrow> rc_inv (snd (confirm r))"
  using outcome [of r] by (auto simp: rc_inv_diverge rc_inv_committed)

lemma commits:
  assumes "rc_inv r" "fst (confirm r) = Inr c"
  obtains p where "rc_pending r = Some p" "pd_acked p" "binds (pd_kind p)"
    "post_corr = pd_correlation p" "ob_owner post_ob = rc_owner r"
    "ob_generation post_ob = rc_generation r" "ob_revision post_ob = rc_revision r"
    "cm_revision c = rc_revision r + 1" "snd (confirm r) = committed (ob_fingerprint post_ob) r"
    "rc_diverged r = None"
  using outcome [OF assms(1)] assms(2) by auto

end

text \<open>The two skeletons of the code satisfy the contracts.\<close>

lemma proposal_with: 
  "proposal (\<lambda>r. propose_with checks (disp r) kind ob corr r) corr kind"
  by unfold_locales
    (auto simp: propose_with_def observation_checks_def slot_def not_le split: option.splits)

lemma verification_with:
  "verification (verify_with post binds) binds (po_correlation post) (po_observation post)"
  by unfold_locales
    (auto simp: verify_with_def verify_checks_def committed_def not_le split: option.splits if_splits)

subsection \<open>The code's proposals and verifications satisfy the contracts\<close>

interpretation move_proposal: proposal "propose plan ob corr caps" corr
  "PendingMove (mp_preconditions plan) (mp_operation plan)" for plan ob corr caps
  unfolding propose_def by (rule proposal_with)

interpretation lifecycle_proposal: proposal "propose_lifecycle lplan ob corr lcaps" corr
  "PendingLifecycle (p_preconditions lplan) (p_operation lplan)" for lplan ob corr lcaps
  unfolding propose_lifecycle_def by (rule proposal_with)

interpretation focus_proposal: proposal "propose_focus fplan ob corr fcaps" corr
  "PendingFocus (p_preconditions fplan) (p_operation fplan)" for fplan ob corr fcaps
  unfolding propose_focus_def by (rule proposal_with)

interpretation resize_proposal: proposal "propose_resize rplan ob corr rcaps" corr
  "PendingResize (p_preconditions rplan) (p_operation rplan) None" for rplan ob corr rcaps
  unfolding propose_resize_def by (rule proposal_with)

interpretation pointer_proposal: proposal "propose_pointer_resize rplan ob corr rcaps" corr
  "PendingResize (p_preconditions rplan) (p_operation rplan) None" for rplan ob corr rcaps
  unfolding propose_pointer_resize_def by (rule proposal_with)

interpretation corner_proposal: proposal
  "propose_pointer_resize_corner rplan rplan2 ob corr rcaps" corr
  "PendingResize (p_preconditions rplan) (p_operation rplan) (Some (p_operation rplan2))"
  for rplan rplan2 ob corr rcaps
  unfolding propose_pointer_resize_corner_def by (rule proposal_with)

interpretation drag_proposal: proposal "propose_drag dplan ob corr dcaps" corr
  "PendingDrag (p_preconditions dplan) (p_operation dplan)" for dplan ob corr dcaps
  unfolding propose_drag_def by (rule proposal_with)

interpretation move_verification: verification "verify mpost" "move_binds mpost"
  "po_correlation mpost" "po_observation mpost" for mpost
  unfolding verify_def by (rule verification_with)

interpretation lifecycle_verification: verification "verify_lifecycle lpost" "lifecycle_binds lpost"
  "po_correlation lpost" "po_observation lpost" for lpost
  unfolding verify_lifecycle_def by (rule verification_with)

interpretation focus_verification: verification "verify_focus fpost" "focus_binds fpost"
  "po_correlation fpost" "po_observation fpost" for fpost
  unfolding verify_focus_def by (rule verification_with)

interpretation resize_verification: verification "verify_resize rpost" "resize_binds rpost"
  "po_correlation rpost" "po_observation rpost" for rpost
  unfolding verify_resize_def by (rule verification_with)

interpretation drag_verification: verification "verify_drag dpost" "drag_binds dpost"
  "po_correlation dpost" "po_observation dpost" for dpost
  unfolding verify_drag_def by (rule verification_with)

subsection \<open>Traces\<close>

text \<open>One call of a public method, with its arguments.\<close>

datatype event =
    EvPropose move_plan observation correlation_id capabilities
  | EvProposeLifecycle lifecycle_plan observation correlation_id lifecycle_capabilities
  | EvProposeFocus focus_plan_contract observation correlation_id focus_capabilities
  | EvProposeResize resize_plan observation correlation_id resize_capabilities
  | EvProposePointer resize_plan observation correlation_id resize_capabilities
  | EvProposeCorner resize_plan resize_plan observation correlation_id resize_capabilities
  | EvProposeDrag drag_plan observation correlation_id drag_capabilities
  | EvCancel correlation_id nat
  | EvAck adapter_ack
  | EvVerify move_post
  | EvVerifyLifecycle lifecycle_post
  | EvVerifyFocus focus_post
  | EvVerifyResize resize_post
  | EvVerifyDrag drag_post
  | EvAdapterLoss
  | EvPostconditionMismatch
  | EvDivergeConvergence divergence_kind
  | EvConverge nat

fun receipt :: "'e + commit \<Rightarrow> commit option" where
  "receipt (Inl e) = None"
| "receipt (Inr c) = Some c"

text \<open>The state after the call and the commit it returned, if any.\<close>

fun step_event :: "event \<Rightarrow> reconciler \<Rightarrow> commit option \<times> reconciler" where
  "step_event (EvPropose plan ob corr caps) r = (None, snd (propose plan ob corr caps r))"
| "step_event (EvProposeLifecycle plan ob corr lcaps) r =
     (None, snd (propose_lifecycle plan ob corr lcaps r))"
| "step_event (EvProposeFocus plan ob corr fcaps) r = (None, snd (propose_focus plan ob corr fcaps r))"
| "step_event (EvProposeResize plan ob corr rcaps) r =
     (None, snd (propose_resize plan ob corr rcaps r))"
| "step_event (EvProposePointer plan ob corr rcaps) r =
     (None, snd (propose_pointer_resize plan ob corr rcaps r))"
| "step_event (EvProposeCorner p1 p2 ob corr rcaps) r =
     (None, snd (propose_pointer_resize_corner p1 p2 ob corr rcaps r))"
| "step_event (EvProposeDrag plan ob corr dcaps) r = (None, snd (propose_drag plan ob corr dcaps r))"
| "step_event (EvCancel corr base) r = (None, snd (cancel_unacked corr base r))"
| "step_event (EvAck a) r = (None, snd (acknowledge a r))"
| "step_event (EvVerify post) r = (receipt (fst (verify post r)), snd (verify post r))"
| "step_event (EvVerifyLifecycle post) r =
     (receipt (fst (verify_lifecycle post r)), snd (verify_lifecycle post r))"
| "step_event (EvVerifyFocus post) r =
     (receipt (fst (verify_focus post r)), snd (verify_focus post r))"
| "step_event (EvVerifyResize post) r =
     (receipt (fst (verify_resize post r)), snd (verify_resize post r))"
| "step_event (EvVerifyDrag post) r = (receipt (fst (verify_drag post r)), snd (verify_drag post r))"
| "step_event EvAdapterLoss r = (None, snd (note_adapter_loss r))"
| "step_event EvPostconditionMismatch r = (None, snd (note_postcondition_mismatch r))"
| "step_event (EvDivergeConvergence reason) r = (None, snd (diverge_convergence reason r))"
| "step_event (EvConverge fp) r = (receipt (fst (commit_observation_convergence fp r)),
     snd (commit_observation_convergence fp r))"

fun run_events :: "event list \<Rightarrow> reconciler \<Rightarrow> commit list \<times> reconciler" where
  "run_events [] r = ([], r)"
| "run_events (e # es) r =
     (let (c, r') = step_event e r; (cs, r'') = run_events es r' in
      (case c of None \<Rightarrow> cs | Some x \<Rightarrow> x # cs, r''))"

inductive reachable :: "reconciler \<Rightarrow> bool" where
  reachable_new: "reconciler_new ow gen revision fp = Inr r \<Longrightarrow> reachable r"
| reachable_step: "reachable r \<Longrightarrow> reachable (snd (step_event e r))"

inductive_cases reachableE: "reachable r"

text \<open>The abstract protocol that the module header states.\<close>

datatype protocol = Idle nat | Pending nat | Acked nat | Divergent

inductive protocol_step :: "protocol \<Rightarrow> protocol \<Rightarrow> bool" where
  proto_stutter: "protocol_step s s"
| proto_propose: "protocol_step (Idle n) (Pending n)"
| proto_cancel: "protocol_step (Pending n) (Idle n)"
| proto_ack: "protocol_step (Pending n) (Acked n)"
| proto_verify: "protocol_step (Acked n) (Idle (Suc n))"
| proto_converge: "protocol_step (Idle n) (Idle (Suc n))"
| proto_diverge: "protocol_step s Divergent"

inductive_simps protocol_step_Divergent: "protocol_step Divergent s"

definition abs_state :: "reconciler \<Rightarrow> protocol" where
  "abs_state r = (if rc_diverged r \<noteq> None then Divergent
     else case rc_pending r of
       None \<Rightarrow> Idle (rc_revision r)
     | Some p \<Rightarrow> if pd_acked p then Acked (rc_revision r) else Pending (rc_revision r))"

lemma abs_diverge [simp]: "abs_state (diverge reason r) = Divergent"
  by (simp add: abs_state_def diverge_def)

lemma abs_slot: "rc_diverged r = None \<Longrightarrow> abs_state (slot corr kind r) = Pending (rc_revision r)"
  by (simp add: abs_state_def slot_def)

lemma abs_committed: "rc_diverged r = None \<Longrightarrow> abs_state (committed fp r) = Idle (Suc (rc_revision r))"
  by (simp add: abs_state_def committed_def)

text \<open>
  What one event does: the invariant stays, the abstract protocol steps, owner and generation are
  fixed, a recorded divergence freezes everything, and the revision moves by one exactly with a
  commit receipt.
\<close>

definition step_ok :: "reconciler \<Rightarrow> commit option \<Rightarrow> reconciler \<Rightarrow> bool" where
  "step_ok r c r' \<longleftrightarrow> rc_inv r' \<and> protocol_step (abs_state r) (abs_state r')
     \<and> rc_owner r' = rc_owner r \<and> rc_generation r' = rc_generation r
     \<and> (rc_diverged r \<noteq> None \<longrightarrow> r' = r)
     \<and> (case c of
          None \<Rightarrow> rc_revision r' = rc_revision r \<and> rc_fingerprint r' = rc_fingerprint r
        | Some x \<Rightarrow> rc_revision r' = rc_revision r + 1 \<and> cm_revision x = rc_revision r'
            \<and> cm_fingerprint x = rc_fingerprint r' \<and> rc_pending r' = None)"

lemma step_ok_same: "rc_inv r \<Longrightarrow> step_ok r None r"
  by (simp add: step_ok_def proto_stutter)

lemma step_ok_diverge: "rc_inv r \<Longrightarrow> rc_diverged r = None \<Longrightarrow> step_ok r None (diverge reason r)"
  by (simp add: step_ok_def rc_inv_diverge proto_diverge) (simp add: diverge_def)

context proposal
begin

lemma step_ok_offer:
  assumes "rc_inv r"
  shows "step_ok r None (snd (offer r))"
proof -
  have "step_ok r None (slot corr kind r)"
    if "rc_diverged r = None" "rc_pending r = None" "is_correlation_id corr" "rc_revision r < max_revision"
  proof -
    have "abs_state r = Idle (rc_revision r)" using that by (simp add: abs_state_def)
    then show ?thesis
      using that assms by (simp add: step_ok_def rc_inv_slot abs_slot proto_propose) (simp add: slot_def)
  qed
  then show ?thesis
    using outcome [of r] assms by (auto simp: step_ok_same step_ok_diverge)
qed

end

lemma step_ok_committed:
  assumes "rc_inv r" "rc_diverged r = None" "rc_revision r < max_revision"
    "\<forall>p. rc_pending r = Some p \<longrightarrow> pd_acked p"
  shows "step_ok r (Some \<lparr>cm_revision = Suc (rc_revision r), cm_fingerprint = fp\<rparr>) (committed fp r)"
proof -
  have "protocol_step (abs_state r) (Idle (Suc (rc_revision r)))"
    using assms(2,4) by (cases "rc_pending r") (auto simp: abs_state_def intro: protocol_step.intros)
  then show ?thesis
    using assms by (simp add: step_ok_def rc_inv_committed abs_committed) (simp add: committed_def)
qed

context verification
begin

lemma step_ok_confirm:
  assumes "rc_inv r"
  shows "step_ok r (receipt (fst (confirm r))) (snd (confirm r))"
  using outcome [OF assms] assms by (auto simp: step_ok_same step_ok_diverge step_ok_committed)

end

lemma step_ok_cancel: "rc_inv r \<Longrightarrow> step_ok r None (snd (cancel_unacked corr base r))"
  by (auto simp: cancel_unacked_def step_ok_same split: option.splits)
    (auto simp: step_ok_def rc_inv_def abs_state_def intro: protocol_step.intros)

lemma step_ok_ack: "rc_inv r \<Longrightarrow> step_ok r None (snd (acknowledge a r))"
  by (auto simp: acknowledge_def step_ok_same step_ok_diverge split: option.splits)
    (auto simp: step_ok_def rc_inv_def abs_state_def intro: protocol_step.intros)

lemma step_ok_note: "rc_inv r \<Longrightarrow> step_ok r None (snd (note_divergence reason r))"
  by (auto simp: note_divergence_def step_ok_same step_ok_diverge split: option.splits)

lemma step_ok_converge: "rc_inv r \<Longrightarrow> step_ok r (receipt (fst (commit_observation_convergence fp r)))
    (snd (commit_observation_convergence fp r))"
proof -
  assume inv: "rc_inv r"
  show ?thesis
  proof (cases "rc_diverged r = None \<and> rc_pending r = None \<and> rc_revision r < max_revision")
    case True
    then have "commit_observation_convergence fp r =
        (Inr \<lparr>cm_revision = rc_revision r + 1, cm_fingerprint = fp\<rparr>, committed fp r)"
      by (simp add: commit_observation_convergence_def committed_def)
    with True inv show ?thesis by (simp add: step_ok_committed)
  next
    case False
    then show ?thesis
      using inv by (auto simp: commit_observation_convergence_def step_ok_same split: option.splits)
  qed
qed

lemmas step_oks = move_proposal.step_ok_offer lifecycle_proposal.step_ok_offer
  focus_proposal.step_ok_offer resize_proposal.step_ok_offer pointer_proposal.step_ok_offer
  corner_proposal.step_ok_offer drag_proposal.step_ok_offer move_verification.step_ok_confirm
  lifecycle_verification.step_ok_confirm focus_verification.step_ok_confirm
  resize_verification.step_ok_confirm drag_verification.step_ok_confirm step_ok_cancel step_ok_ack
  step_ok_note step_ok_converge

lemma step_event_ok: "rc_inv r \<Longrightarrow> step_event e r = (c, r') \<Longrightarrow> step_ok r c r'"
  by (cases e) (auto simp: step_oks note_adapter_loss_def note_postcondition_mismatch_def
      diverge_convergence_def)

lemma reachable_inv: "reachable r \<Longrightarrow> rc_inv r"
proof (induction rule: reachable.induct)
  case (reachable_new ow gen revision fp r)
  then show ?case by (auto simp: reconciler_new_def rc_inv_def is_revision_def split: if_splits)
next
  case (reachable_step r e)
  then show ?case
    using step_event_ok [of r e] by (cases "step_event e r") (auto simp: step_ok_def)
qed

lemma run_events_ok:
  "rc_inv r \<Longrightarrow> run_events es r = (cs, r') \<Longrightarrow> rc_inv r' \<and> rc_revision r' = rc_revision r + length cs
     \<and> map cm_revision cs = [Suc (rc_revision r)..<Suc (rc_revision r + length cs)]
     \<and> rc_fingerprint r' = (if cs = [] then rc_fingerprint r else cm_fingerprint (last cs))
     \<and> (rc_diverged r \<noteq> None \<longrightarrow> r' = r)"
proof (induction es arbitrary: r cs)
  case Nil
  then show ?case by simp
next
  case (Cons e es)
  obtain c r1 where c: "step_event e r = (c, r1)" by (cases "step_event e r")
  obtain cs1 where cs1: "run_events es r1 = (cs1, r')"
    and cs: "cs = (case c of None \<Rightarrow> cs1 | Some x \<Rightarrow> x # cs1)"
    using Cons.prems(2) c by (auto simp: Let_def split: prod.splits)
  have step: "step_ok r c r1" using step_event_ok [OF Cons.prems(1) c] .
  then have inv: "rc_inv r1" by (simp add: step_ok_def)
  note IH = Cons.IH [OF inv cs1]
  show ?case
  proof (cases c)
    case None
    with IH step cs show ?thesis by (auto simp: step_ok_def)
  next
    case (Some x)
    with cs have cs: "cs = x # cs1" by simp
    have x: "rc_revision r1 = Suc (rc_revision r)" "cm_revision x = Suc (rc_revision r)"
      "cm_fingerprint x = rc_fingerprint r1" using step Some by (auto simp: step_ok_def)
    have "map cm_revision cs = Suc (rc_revision r) # [Suc (rc_revision r1)..<Suc (rc_revision r1 + length cs1)]"
      using IH x cs by simp
    also have "\<dots> = [Suc (rc_revision r)..<Suc (rc_revision r + length cs)]"
      using x cs by (simp add: upt_conv_Cons del: upt_Suc)
    finally have revs: "map cm_revision cs = [Suc (rc_revision r)..<Suc (rc_revision r + length cs)]" .
    have "rc_diverged r = None" using step Some by (auto simp: step_ok_def)
    with IH revs x cs show ?thesis by simp
  qed
qed

subsection \<open>The neutral share relation\<close>

lemma scaled_sum:
  assumes "length new = length old" "f < length old" "n < length old" "f \<noteq> n"
    "\<forall>j < length old. j \<noteq> f \<longrightarrow> j \<noteq> n \<longrightarrow> new ! j = old ! j * k"
    "new ! f + new ! n = (old ! f + old ! n) * k"
  shows "sum_list new = sum_list old * (k :: nat)"
proof -
  have "new = (map (\<lambda>s. s * k) old)[f := new ! f, n := new ! n]"
    using assms(1-5) by (intro nth_equalityI) (auto simp: nth_list_update)
  then have "sum_list new = sum_list (map (\<lambda>s. s * k) old)"
    using sum_list_two_update [of f "map (\<lambda>s. s * k) old" n "new ! f" "new ! n"] assms(1-4,6)
    by (simp add: add_mult_distrib)
  then show ?thesis by (simp add: sum_list_map_mult)
qed

lemma filter_upt_Cons:
  "filter P [0..<m] = i # rest \<Longrightarrow> i < m \<and> P i \<and> set (i # rest) = {j. j < m \<and> P j}"
proof -
  assume a: "filter P [0..<m] = i # rest"
  have "set (filter P [0..<m]) = {j. j < m \<and> P j}" by auto
  with a have s: "set (i # rest) = {j. j < m \<and> P j}" by (simp del: set_filter)
  then have "i \<in> {j. j < m \<and> P j}" by force
  with s show ?thesis by simp
qed

definition moves_shares :: "nat list \<Rightarrow> nat list \<Rightarrow> nat \<Rightarrow> nat \<Rightarrow> nat \<Rightarrow> bool" where
  "moves_shares old new f n k \<longleftrightarrow> 0 < k
     \<and> (\<forall>j < length old. j \<noteq> f \<longrightarrow> j \<noteq> n \<longrightarrow> new ! j = old ! j * k)
     \<and> new ! f + new ! n = (old ! f + old ! n) * k
     \<and> new ! f \<noteq> old ! f * k"

lemma pair_moves_iff:
  assumes "moves_shares old new f n k" "(old ! f + old ! n) * k \<le> u64_max"
  shows "pair_moves old new f n k"
proof -
  have "old ! f * k \<le> u64_max" "old ! n * k \<le> u64_max"
    using assms(2) by (auto simp: add_mult_distrib)
  moreover have "new ! n \<noteq> old ! n * k" "new ! f \<noteq> old ! f * k"
    using assms(1) by (auto simp: moves_shares_def add_mult_distrib)
  ultimately show ?thesis by (simp add: pair_moves_def)
qed

lemma checked_mul_Some: "checked_mul_u64 a b = Some c \<Longrightarrow> c = a * b"
  by (simp split: if_splits)

lemma pair_movesD: "pair_moves old new f n k \<Longrightarrow> new ! f \<noteq> old ! f * k"
  by (auto simp: pair_moves_def split: option.splits if_splits)

lemma shares_move_iff:
  assumes "length new = length old" "f < length old" "n < length old" "f \<noteq> n"
    "0 \<notin> set old" "sum_list old \<le> u64_max" "sum_list new \<le> u64_max"
  shows "shares_move old new f n (sum_list old) (sum_list new) (old ! f + old ! n) (new ! f + new ! n)
    \<longleftrightarrow> (\<exists>k. moves_shares old new f n k)" (is "?lhs \<longleftrightarrow> ?rhs")
proof
  assume ?lhs
  show ?rhs
  proof (cases "filter (\<lambda>i. i \<noteq> f \<and> i \<noteq> n) [0..<length old]")
    case Nil
    then have off: "\<forall>j < length old. j = f \<or> j = n" by (auto simp: filter_empty_conv)
    with \<open>?lhs\<close> Nil have "moves_shares old new f n ((new ! f + new ! n) div (old ! f + old ! n))"
      by (auto simp: shares_move_def moves_shares_def Let_def mult.commute dest: pair_movesD)
    then show ?thesis ..
  next
    case (Cons i rest)
    note idx = filter_upt_Cons [OF this]
    let ?k = "new ! i div old ! i"
    have "moves_shares old new f n ?k"
    proof -
      have "list_all (\<lambda>j. checked_mul_u64 (old ! j) ?k = Some (new ! j)) (i # rest)"
        "?k \<noteq> 0" "checked_mul_u64 (old ! f + old ! n) ?k = Some (new ! f + new ! n)"
        "pair_moves old new f n ?k"
        using \<open>?lhs\<close> Cons by (simp_all add: shares_move_def Let_def)
      note * = this
      have "checked_mul_u64 (old ! j) ?k = Some (new ! j)" if "j < length old" "j \<noteq> f" "j \<noteq> n" for j
        using *(1) that idx unfolding list_all_iff by blast
      then have "new ! j = old ! j * ?k" if "j < length old" "j \<noteq> f" "j \<noteq> n" for j
        using that checked_mul_Some by metis
      moreover have "new ! f + new ! n = (old ! f + old ! n) * ?k"
        using checked_mul_Some [OF *(3)] .
      ultimately show ?thesis
        using *(2) pair_movesD [OF *(4)] unfolding moves_shares_def by blast
    qed
    then show ?thesis ..
  qed
next
  assume ?rhs
  then obtain k where k: "moves_shares old new f n k" ..
  have sum: "sum_list new = sum_list old * k"
    using scaled_sum [OF assms(1-4), of k] k by (simp add: moves_shares_def)
  have pair: "new ! f + new ! n = (old ! f + old ! n) * k" "(old ! f + old ! n) * k \<le> u64_max"
    using k two_shares_le_sum [of f new n] assms(1-4,7) by (auto simp: moves_shares_def)
  have pos: "0 < old ! f + old ! n" using nth_pos [OF assms(5,2)] by simp
  note moves = pair_moves_iff [OF k pair(2)]
  show ?lhs
  proof (cases "filter (\<lambda>i. i \<noteq> f \<and> i \<noteq> n) [0..<length old]")
    case Nil
    have "(new ! f + new ! n) mod (old ! f + old ! n) = 0"
      "(new ! f + new ! n) div (old ! f + old ! n) = k"
      unfolding pair(1) using pos by simp_all
    then show ?thesis
      using Nil k sum assms(7) moves by (simp add: shares_move_def Let_def moves_shares_def)
  next
    case (Cons i rest)
    note idx = filter_upt_Cons [OF this]
    have each: "checked_mul_u64 (old ! j) k = Some (new ! j)" if "j \<in> set (i # rest)" for j
    proof -
      have j: "j < length old" "j \<noteq> f" "j \<noteq> n" using that idx by auto
      then have "new ! j = old ! j * k" using k by (simp add: moves_shares_def)
      moreover have "new ! j \<le> u64_max" using share_le_sum [of j new] j(1) assms(1,7) by linarith
      ultimately show ?thesis by simp
    qed
    have "0 < old ! i" using nth_pos [OF assms(5)] idx by auto
    moreover have "new ! i = old ! i * k" using k idx by (simp add: moves_shares_def)
    ultimately have "new ! i mod old ! i = 0" "new ! i div old ! i = k" "old ! i \<noteq> 0" by simp_all
    then show ?thesis
      using Cons k sum assms(7) moves pair each
      by (simp add: shares_move_def Let_def moves_shares_def list_all_iff)
  qed
qed

lemma valid_fixed_share_iff:
  "valid_fixed_share_operation op \<longleftrightarrow> fixed_share_shape op
     \<and> sum_list (ro_old_shares op) \<le> u64_max \<and> sum_list (ro_new_shares op) \<le> u64_max
     \<and> (\<exists>k. moves_shares (ro_old_shares op) (ro_new_shares op) (ro_focused_index op)
          (ro_neighbor_index op) k)"
proof (cases "fixed_share_shape op \<and> sum_list (ro_old_shares op) \<le> u64_max
    \<and> sum_list (ro_new_shares op) \<le> u64_max")
  case False
  then show ?thesis by (auto simp: valid_fixed_share_operation_def Let_def split: if_splits)
next
  case True
  let ?old = "ro_old_shares op" and ?new = "ro_new_shares op"
  let ?f = "ro_focused_index op" and ?n = "ro_neighbor_index op"
  have shape: "length ?new = length ?old" "?f < length ?old" "?n < length ?old" "?f \<noteq> ?n"
    "0 \<notin> set ?old" "0 \<notin> set ?new"
    using True by (auto simp: fixed_share_shape_def)
  have pos: "0 < ?old ! ?f" "0 < ?new ! ?f"
    using nth_pos [OF shape(5,2)] nth_pos [of ?new ?f] shape by auto
  have le: "?old ! ?f + ?old ! ?n \<le> u64_max" "?new ! ?f + ?new ! ?n \<le> u64_max"
    using two_shares_le_sum [of ?f ?old ?n] two_shares_le_sum [of ?f ?new ?n] shape True by auto
  have tot: "sum_list ?old \<noteq> 0" "sum_list ?new \<noteq> 0"
    using pos share_le_sum [of ?f ?old] share_le_sum [of ?f ?new] shape by linarith+
  show ?thesis
    using shares_move_iff [OF shape(1-5)] True le tot pos
    by (auto simp: valid_fixed_share_operation_def Let_def simp del: sum_list_eq_0_iff)
qed

subsection \<open>What a commit rests on\<close>

text \<open>
  The event and the state behind a commit: an acknowledged plan whose kind, preconditions,
  operation, correlation and base the post-observation repeats, or an idle convergence.
\<close>

definition echoes :: "('p, 'o, 'z) post_observation_scheme \<Rightarrow> (pending_kind \<Rightarrow> bool)
    \<Rightarrow> reconciler \<Rightarrow> bool" where
  "echoes post binds r \<longleftrightarrow> (\<exists>p. rc_pending r = Some p \<and> pd_acked p \<and> binds (pd_kind p)
     \<and> po_correlation post = pd_correlation p \<and> ob_owner (po_observation post) = rc_owner r
     \<and> ob_generation (po_observation post) = rc_generation r
     \<and> ob_revision (po_observation post) = rc_revision r)"

fun justified :: "event \<Rightarrow> reconciler \<Rightarrow> bool" where
  "justified (EvVerify post) r = echoes post (move_binds post) r"
| "justified (EvVerifyLifecycle post) r = echoes post (lifecycle_binds post) r"
| "justified (EvVerifyFocus post) r = echoes post (focus_binds post) r"
| "justified (EvVerifyResize post) r = echoes post (resize_binds post) r"
| "justified (EvVerifyDrag post) r = echoes post (drag_binds post) r"
| "justified (EvConverge fp) r = (rc_pending r = None)"
| "justified e r = False"

lemma receipt_Some [simp]: "receipt x = Some c \<longleftrightarrow> x = Inr c"
  by (cases x) auto

lemma commit_justified:
  assumes inv: "rc_inv r" and step: "step_event e r = (Some c, r')"
  shows "justified e r"
proof (cases e)
  case (EvVerify post)
  with step have "fst (verify post r) = Inr c" by simp
  then show ?thesis
    using move_verification.commits [OF inv] EvVerify by (simp add: echoes_def) metis
next
  case (EvVerifyLifecycle post)
  with step have "fst (verify_lifecycle post r) = Inr c" by simp
  then show ?thesis
    using lifecycle_verification.commits [OF inv] EvVerifyLifecycle by (simp add: echoes_def) metis
next
  case (EvVerifyFocus post)
  with step have "fst (verify_focus post r) = Inr c" by simp
  then show ?thesis
    using focus_verification.commits [OF inv] EvVerifyFocus by (simp add: echoes_def) metis
next
  case (EvVerifyResize post)
  with step have "fst (verify_resize post r) = Inr c" by simp
  then show ?thesis
    using resize_verification.commits [OF inv] EvVerifyResize by (simp add: echoes_def) metis
next
  case (EvVerifyDrag post)
  with step have "fst (verify_drag post r) = Inr c" by simp
  then show ?thesis
    using drag_verification.commits [OF inv] EvVerifyDrag by (simp add: echoes_def) metis
next
  case (EvConverge fp)
  with step show ?thesis
    by (auto simp: commit_observation_convergence_def split: option.splits if_splits)
qed (use step in auto)

subsection \<open>The full cycle\<close>

definition observed :: "reconciler \<Rightarrow> observation \<Rightarrow> bool" where
  "observed r ob \<longleftrightarrow> ob_owner ob = rc_owner r \<and> ob_generation ob = rc_generation r
     \<and> ob_revision ob = rc_revision r"

definition ready :: "reconciler \<Rightarrow> bool" where
  "ready r \<longleftrightarrow> rc_inv r \<and> rc_diverged r = None \<and> rc_pending r = None \<and> rc_revision r < max_revision"

lemma observation_checks_pass:
  "ready r \<Longrightarrow> observed r ob \<Longrightarrow> is_correlation_id corr \<Longrightarrow>
    first_reason (observation_checks r ob corr) = None"
  by (simp add: observation_checks_def ready_def observed_def observation_validate_def rc_inv_def
      is_revision_def)

lemma propose_with_accepts:
  "ready r \<Longrightarrow> observed r ob \<Longrightarrow> is_correlation_id corr \<Longrightarrow> first_reason checks = None \<Longrightarrow>
    propose_with checks d kind ob corr r = (Inr d, slot corr kind r)"
  using observation_checks_pass [of r ob corr]
  by (simp add: propose_with_def slot_def) (simp add: ready_def)

definition accepting_ack :: "correlation_id \<Rightarrow> reconciler \<Rightarrow> adapter_ack" where
  "accepting_ack corr r = \<lparr>ack_correlation = corr, ack_owner = rc_owner r,
     ack_generation = rc_generation r, ack_base_revision = rc_revision r,
     ack_outcome = AckAccepted\<rparr>"

definition acked_slot :: "correlation_id \<Rightarrow> pending_kind \<Rightarrow> reconciler \<Rightarrow> reconciler" where
  "acked_slot corr kind r = r\<lparr>rc_pending := Some \<lparr>pd_correlation = corr,
     pd_base_revision = rc_revision r, pd_acked = True, pd_kind = kind\<rparr>\<rparr>"

lemma acknowledge_slot:
  assumes "ready r" "is_correlation_id corr"
  shows "acknowledge (accepting_ack corr r) (slot corr kind r) =
    (Inr AppliedAccepted, acked_slot corr kind r)"
  using assms
  by (simp add: acknowledge_def slot_def ack_checks_def accepting_ack_def ready_def rc_inv_def
      is_revision_def acked_slot_def)

lemma verify_with_slot:
  assumes "ready r" "is_correlation_id corr" "observed r (po_observation post)"
    "po_correlation post = corr" "po_verified post" "length (po_preconditions post) \<le> max_preconditions"
    "binds kind"
  shows "verify_with post binds (acked_slot corr kind r) =
    (Inr \<lparr>cm_revision = rc_revision r + 1, cm_fingerprint = ob_fingerprint (po_observation post)\<rparr>,
     committed (ob_fingerprint (po_observation post)) r)"
  using assms
  by (simp add: verify_with_def acked_slot_def verify_checks_def ready_def rc_inv_def observed_def
      is_revision_def committed_def)

lemma move_checks_for_operation:
  "first_reason (move_checks (for_operation intent op) caps) =
    (if supports caps (op_required_capability op) then None else Some CapabilityRefused)"
  using preconditions_bounded(1) [of op]
  by (simp add: move_checks_def for_operation_def not_less op_preconditions_def)

lemma move_cycle:
  assumes "plan_move_with_capabilities s intent caps = Planned plan" "ready r" "observed r ob"
    "is_correlation_id corr" "observed r post_ob"
  shows "\<exists>d r1 r2. propose plan ob corr caps r = (Inr d, r1)
    \<and> d_operation d = mp_operation plan \<and> d_base_revision d = rc_revision r
    \<and> acknowledge (accepting_ack corr r) r1 = (Inr AppliedAccepted, r2)
    \<and> verify \<lparr>po_observation = post_ob, po_correlation = corr, po_verified = True,
        po_preconditions = d_preconditions d, po_operation = d_operation d\<rparr> r2 =
      (Inr \<lparr>cm_revision = rc_revision r + 1, cm_fingerprint = ob_fingerprint post_ob\<rparr>,
       committed (ob_fingerprint post_ob) r)"
proof -
  from plan_sound [OF assms(1)] have plan: "plan = for_operation intent (mp_operation plan)"
    and sup: "supports caps (op_required_capability (mp_operation plan))" by auto
  have checks: "first_reason (move_checks plan caps) = None"
    using move_checks_for_operation [of intent "mp_operation plan" caps] plan sup by simp
  let ?kind = "PendingMove (mp_preconditions plan) (mp_operation plan)"
  have pre: "length (mp_preconditions plan) \<le> max_preconditions"
    using preconditions_bounded(1) [of "mp_operation plan"] arg_cong [OF plan, of mp_preconditions]
    by (simp add: for_operation_def)
  define d where "d = \<lparr>d_correlation = corr, d_owner = rc_owner r,
      d_generation = rc_generation r, d_base_revision = rc_revision r,
      d_required_capability = mp_required_capability plan,
      d_preconditions = mp_preconditions plan, d_intent = mp_intent plan,
      d_operation = mp_operation plan, d_rule = mp_rule plan\<rparr>"
  have d: "propose plan ob corr caps r = (Inr d, slot corr ?kind r)"
    "d_operation d = mp_operation plan" "d_base_revision d = rc_revision r"
    "d_preconditions d = mp_preconditions plan"
    unfolding propose_def d_def using propose_with_accepts [OF assms(2-4) checks] by simp_all
  let ?post = "\<lparr>po_observation = post_ob, po_correlation = corr, po_verified = True,
      po_preconditions = d_preconditions d, po_operation = d_operation d\<rparr>"
  have "verify ?post (acked_slot corr ?kind r) =
      (Inr \<lparr>cm_revision = rc_revision r + 1, cm_fingerprint = ob_fingerprint post_ob\<rparr>,
       committed (ob_fingerprint post_ob) r)"
    unfolding verify_def using verify_with_slot [OF assms(2,4), of ?post "move_binds ?post" ?kind]
      assms(5) pre d(2,4) by simp
  with d acknowledge_slot [OF assms(2,4)] show ?thesis by blast
qed

subsection \<open>Properties\<close>

definition example_reconciler :: reconciler where
  "example_reconciler = \<lparr>rc_owner = ''owner-1'', rc_generation = ''gen-1'', rc_revision = 7,
     rc_fingerprint = 0, rc_pending = None, rc_diverged = None\<rparr>"

definition example_observation :: observation where
  "example_observation = \<lparr>ob_owner = ''owner-1'', ob_generation = ''gen-1'', ob_revision = 7,
     ob_fingerprint = 9\<rparr>"

lemma example_reachable: "reachable example_reconciler"
proof (rule reachable_new)
  show "reconciler_new ''owner-1'' ''gen-1'' 7 0 = Inr example_reconciler"
    by (simp add: reconciler_new_def token_examples is_revision_def max_revision_def
        example_reconciler_def)
qed

lemma example_ready: "ready example_reconciler"
  using reachable_inv [OF example_reachable]
  by (simp add: ready_def) (simp add: example_reconciler_def max_revision_def)

lemma example_observed: "observed example_reconciler example_observation"
  by (simp add: observed_def example_reconciler_def example_observation_def)

lemma example_converge: "step_event (EvConverge 5) example_reconciler =
    (Some \<lparr>cm_revision = 8, cm_fingerprint = 5\<rparr>,
     example_reconciler\<lparr>rc_revision := 8, rc_fingerprint := 5\<rparr>)"
  by (simp add: commit_observation_convergence_def example_reconciler_def max_revision_def)

text \<open>
  C31. In every reachable state the reconciler is well-formed: valid owner and generation
  tokens, a bounded revision, no pending plan after a divergence, and a pending plan bound to
  the current revision, which can still advance.
\<close>

theorem reachable_well_formed:
  assumes "reachable r"
  shows "rc_inv r"
  by (rule reachable_inv [OF assms])

theorem reachable_well_formed_witness: "rc_inv example_reconciler"
  by (rule reachable_well_formed [OF example_reachable])

text \<open>
  C30. Every public call is a step of the protocol of the module header (idle, pending,
  acknowledged, committed, divergent), keeps owner and generation, and leaves a diverged
  reconciler exactly as it is.
\<close>

theorem calls_follow_protocol:
  assumes "reachable r"
  shows "protocol_step (abs_state r) (abs_state (snd (step_event e r)))
    \<and> rc_owner (snd (step_event e r)) = rc_owner r
    \<and> rc_generation (snd (step_event e r)) = rc_generation r
    \<and> (rc_diverged r \<noteq> None \<longrightarrow> snd (step_event e r) = r)"
  using step_event_ok [OF reachable_inv [OF assms]]
  by (cases "step_event e r") (auto simp: step_ok_def)

theorem calls_follow_protocol_witness:
  "protocol_step (abs_state example_reconciler)
    (abs_state (snd (step_event (EvConverge 5) example_reconciler)))"
  using calls_follow_protocol [OF example_reachable] by (rule conjunct1)

text \<open>
  Over any sequence of calls the verified revision counts the commits: the receipts carry
  the consecutive revisions after the first state's, the last one's fingerprint is the verified
  one, and nothing but a commit moves either.
\<close>

theorem revision_counts_commits:
  assumes "reachable r" "run_events es r = (cs, r')"
  shows "rc_revision r' = rc_revision r + length cs
    \<and> map cm_revision cs = [Suc (rc_revision r)..<Suc (rc_revision r + length cs)]
    \<and> rc_fingerprint r' = (if cs = [] then rc_fingerprint r else cm_fingerprint (last cs))
    \<and> (rc_diverged r \<noteq> None \<longrightarrow> cs = [] \<and> r' = r)"
  using run_events_ok [OF reachable_inv [OF assms(1)] assms(2)] by auto

theorem revision_counts_commits_witness:
  "rc_revision (snd (run_events [EvConverge 5] example_reconciler)) = 8"
  using revision_counts_commits [OF example_reachable, of "[EvConverge 5]"] example_converge
  by (simp add: example_reconciler_def)

text \<open>
  C32. No commit without cause: a call that returns a commit is a verification whose
  post-observation repeats kind, preconditions, operation, correlation, owner, generation and base
  revision of the acknowledged pending plan, or a convergence of an idle reconciler.
\<close>

theorem commits_are_justified:
  assumes "reachable r" "step_event e r = (Some c, r')"
  shows "justified e r"
  by (rule commit_justified [OF reachable_inv [OF assms(1)] assms(2)])

theorem commits_are_justified_witness: "justified (EvConverge 5) example_reconciler"
  by (rule commits_are_justified [OF example_reachable example_converge])

text \<open>
  C33. A plan of the movement planner goes through: an idle reconciler that observes its own
  revision accepts it under the same capabilities, the accepting acknowledgement is applied, and
  the post-observation that repeats the dispatch commits exactly one revision.
\<close>

theorem planned_move_commits:
  assumes "plan_move_with_capabilities s intent caps = Planned plan" "ready r" "observed r ob"
    "is_correlation_id corr" "observed r post_ob"
  shows "\<exists>d r1 r2. propose plan ob corr caps r = (Inr d, r1)
    \<and> d_operation d = mp_operation plan \<and> d_base_revision d = rc_revision r
    \<and> acknowledge (accepting_ack corr r) r1 = (Inr AppliedAccepted, r2)
    \<and> verify \<lparr>po_observation = post_ob, po_correlation = corr, po_verified = True,
        po_preconditions = d_preconditions d, po_operation = d_operation d\<rparr> r2 =
      (Inr \<lparr>cm_revision = rc_revision r + 1, cm_fingerprint = ob_fingerprint post_ob\<rparr>,
       committed (ob_fingerprint post_ob) r)"
  by (rule move_cycle [OF assms])

theorem planned_move_commits_witness:
  "\<exists>d r1. propose (for_operation (example_intent ''c'' ''wc'' ''A'' Right)
      (EscapeParent R3 ''h'' ''g'' 1 (Some 2) ContinueNone)) example_observation ''corr-1''
      capabilities_full example_reconciler = (Inr d, r1)"
  using planned_move_commits [OF example_plan_escape [unfolded planned_def] example_ready
      example_observed token_examples(3) example_observed] by blast

text \<open>
  The neutral share check accepts exactly the well-shaped adjacent redistributions: both
  totals fit in 64 bits and for one positive factor every other share is scaled by it, the pair's
  total is scaled by it, and the focused share is not just scaled.
\<close>

theorem fixed_share_exact:
  "valid_fixed_share_operation op \<longleftrightarrow> fixed_share_shape op
     \<and> sum_list (ro_old_shares op) \<le> u64_max \<and> sum_list (ro_new_shares op) \<le> u64_max
     \<and> (\<exists>k. moves_shares (ro_old_shares op) (ro_new_shares op) (ro_focused_index op)
          (ro_neighbor_index op) k)"
  by (rule valid_fixed_share_iff)

end
