(* ===== verification/Cosmic.thy ===== *)
theory Cosmic
  imports Geometry Contract
begin

text \<open>
  The COSMIC v1 policy of \<open>tiler-core/src/cosmic_v1.rs\<close> and the shared predicates of
  \<open>tiler-core/src/bounds.rs\<close>: admission axis, exact share arithmetic for insertion and
  removal, the pixel resize clamps, and the drag zones. \<open>shrink - amount\<close> and
  \<open>(rect.w + 1) / 3\<close> are unchecked in the code; the first is taken in range, the second wraps as
  the release build does.
\<close>

subsection \<open>Shared bounds\<close>

definition max_opaque_id_len :: nat where
  "max_opaque_id_len = 128"

definition geometry_bound :: int where
  "geometry_bound = 16384"

definition max_gap :: int where
  "max_gap = 64"

definition is_opaque_id :: "string \<Rightarrow> bool" where
  "is_opaque_id v \<longleftrightarrow> v \<noteq> [] \<and> length v \<le> max_opaque_id_len \<and> list_all token_char v"

definition valid_carried_rect :: "int \<Rightarrow> int \<Rightarrow> int \<Rightarrow> int \<Rightarrow> bool" where
  "valid_carried_rect x y w h \<longleftrightarrow> 0 < w \<and> 0 < h
     \<and> (- geometry_bound \<le> x \<and> x \<le> geometry_bound)
     \<and> (- geometry_bound \<le> y \<and> y \<le> geometry_bound)
     \<and> w \<le> geometry_bound \<and> h \<le> geometry_bound
     \<and> x + w \<le> i32_max \<and> y + h \<le> i32_max"

definition rect_contained :: "rect \<Rightarrow> rect \<Rightarrow> bool" where
  "rect_contained inner outer \<longleftrightarrow> rx outer \<le> rx inner \<and> ry outer \<le> ry inner
     \<and> rx inner + rw inner \<le> rx outer + rw outer
     \<and> ry inner + rh inner \<le> ry outer + rh outer"

definition is_gap :: "int \<Rightarrow> bool" where
  "is_gap v \<longleftrightarrow> 0 \<le> v \<and> v \<le> max_gap"

subsection \<open>Admission\<close>

definition cosmic_v1_version :: nat where
  "cosmic_v1_version = 1"

definition admission_axis :: "int \<Rightarrow> int \<Rightarrow> axis" where
  "admission_axis target_w target_h = (if target_w > target_h then Horizontal else Vertical)"

definition admission_axis_for_rect :: "rect \<Rightarrow> axis" where
  "admission_axis_for_rect r = admission_axis (rw r) (rh r)"

subsection \<open>Groups and shares\<close>

definition new_group_shares :: "nat list" where
  "new_group_shares = [1, 1]"

fun gcd_loop :: "nat \<Rightarrow> nat \<Rightarrow> nat" where
  "gcd_loop a b = (if b = 0 then a else gcd_loop b (a mod b))"

declare gcd_loop.simps [simp del]

fun gcd_all_loop :: "nat \<Rightarrow> nat list \<Rightarrow> nat" where
  "gcd_all_loop acc [] = acc"
| "gcd_all_loop acc (s # ss) =
     (let out = gcd_loop acc s in if out = 1 then out else gcd_all_loop out ss)"

definition gcd_all :: "nat list \<Rightarrow> nat" where
  "gcd_all shares = gcd_all_loop 0 shares"

definition normalize_shares :: "nat list \<Rightarrow> nat list" where
  "normalize_shares out =
     (let g = gcd_all out in if 1 < g then map (\<lambda>v. v div g) out else out)"

text \<open>\<open>scaled.push(s.checked_mul(n)?)\<close> over the shares.\<close>

fun scale_all :: "nat \<Rightarrow> nat list \<Rightarrow> nat list option" where
  "scale_all n [] = Some []"
| "scale_all n (s # ss) = Option.bind (checked_mul_u64 s n) (\<lambda>v.
     Option.bind (scale_all n ss) (\<lambda>vs. Some (v # vs)))"

text \<open>The loop that pushes the entrant before index \<open>idx\<close>, \<open>i\<close> the current index.\<close>

fun insertion_loop :: "nat \<Rightarrow> nat \<Rightarrow> nat \<Rightarrow> nat list \<Rightarrow> nat list" where
  "insertion_loop i idx entrant [] = []"
| "insertion_loop i idx entrant (v # vs) =
     (if i = idx then entrant # v # insertion_loop (Suc i) idx entrant vs
      else v # insertion_loop (Suc i) idx entrant vs)"

definition proportional_insertion_shares :: "nat list \<Rightarrow> nat \<Rightarrow> nat list option" where
  "proportional_insertion_shares existing insertion_index =
     (if existing = [] \<or> length existing < insertion_index then None
      else if 0 \<in> set existing then None
      else Option.bind (checked_total 0 existing) (\<lambda>sum.
        if sum = 0 then None
        else Option.bind (scale_all (length existing) existing) (\<lambda>scaled.
          let out = insertion_loop 0 insertion_index sum scaled
                @ (if insertion_index = length scaled then [sum] else [])
          in if length out \<noteq> length existing + 1 \<or> 0 \<in> set out then None
             else Some (normalize_shares out))))"

text \<open>The loop that keeps every slot but the removed one.\<close>

fun removal_loop :: "nat \<Rightarrow> nat \<Rightarrow> nat list \<Rightarrow> nat list" where
  "removal_loop i removed [] = []"
| "removal_loop i removed (s # ss) =
     (if i \<noteq> removed then s # removal_loop (Suc i) removed ss else removal_loop (Suc i) removed ss)"

definition proportional_removal_shares :: "nat list \<Rightarrow> nat \<Rightarrow> nat list option" where
  "proportional_removal_shares existing removed_index =
     (if length existing < 2 \<or> length existing \<le> removed_index then None
      else if 0 \<in> set existing then None
      else let out = removal_loop 0 removed_index existing in
        if out = [] \<or> 0 \<in> set out then None else Some (normalize_shares out))"

subsection \<open>Keyboard and pointer pixel resize\<close>

definition keyboard_previous_px :: int where
  "keyboard_previous_px = 10"

definition keyboard_step_increment_px :: int where
  "keyboard_step_increment_px = 2"

definition keyboard_max_step_px :: int where
  "keyboard_max_step_px = 20"

definition keyboard_step_px :: "nat \<Rightarrow> int" where
  "keyboard_step_px press_index =
     (let step = keyboard_previous_px + keyboard_step_increment_px
            + keyboard_step_increment_px * int press_index
      in if keyboard_max_step_px < step then keyboard_max_step_px else step)"

fun pair_min_for_axis :: "axis \<Rightarrow> int" where
  "pair_min_for_axis Horizontal = 720"
| "pair_min_for_axis Vertical = 480"

fun child_min_for_axis :: "axis \<Rightarrow> int" where
  "child_min_for_axis Horizontal = 360"
| "child_min_for_axis Vertical = 240"

fun pair_admits_resize :: "int \<Rightarrow> int \<Rightarrow> axis \<Rightarrow> bool" where
  "pair_admits_resize pair_w pair_h Horizontal \<longleftrightarrow> 720 \<le> pair_w"
| "pair_admits_resize pair_w pair_h Vertical \<longleftrightarrow> 480 \<le> pair_h"

definition clamp_pair_split :: "int \<Rightarrow> int \<Rightarrow> axis \<Rightarrow> (int \<times> int) option" where
  "clamp_pair_split pair_total desired_first a =
     (let mn = child_min_for_axis a in
      if pair_total < mn * 2 then None
      else
        let first = max mn (min (pair_total - mn) desired_first); second = pair_total - first in
        if first < mn \<or> second < mn then None else Some (first, second))"

definition clamp_keyboard_shrink_pair ::
  "int \<Rightarrow> int \<Rightarrow> int \<Rightarrow> axis \<Rightarrow> (int \<times> int) option" where
  "clamp_keyboard_shrink_pair shrink grow amount a =
     Option.bind (checked_add_i64 shrink grow) (\<lambda>pair_total.
       if pair_total < pair_min_for_axis a then None
       else
         let mn = child_min_for_axis a;
             new_shrink = max (shrink - amount) mn;
             removed = shrink - new_shrink
         in Option.bind (checked_add_i64 grow removed) (\<lambda>new_grow. Some (new_shrink, new_grow)))"

subsection \<open>Drag zones\<close>

definition group_edge_inactive_px :: int where
  "group_edge_inactive_px = 32"

definition group_edge_active_px :: int where
  "group_edge_active_px = 80"

record prior_group_edge =
  pg_group :: node_id
  pg_edge :: drag_side

definition group_edge_depth_for :: "node_id \<Rightarrow> drag_side \<Rightarrow> prior_group_edge option \<Rightarrow> int" where
  "group_edge_depth_for grp edge prior =
     (case prior of
        Some p \<Rightarrow> if pg_group p = grp \<and> pg_edge p = edge then group_edge_active_px
          else group_edge_inactive_px
      | None \<Rightarrow> group_edge_inactive_px)"

definition classify_group_point ::
  "rect \<Rightarrow> node_id \<Rightarrow> int \<Rightarrow> int \<Rightarrow> prior_group_edge option \<Rightarrow> drag_side option" where
  "classify_group_point r grp x y prior =
     (if rw r \<le> 0 \<or> rh r \<le> 0 then None
      else Option.bind (checked_sub_i32 x (rx r)) (\<lambda>dx.
      Option.bind (checked_sub_i32 y (ry r)) (\<lambda>dy.
        if dx < 0 \<or> dy < 0 \<or> rw r \<le> dx \<or> rh r \<le> dy then None
        else
          let left_depth = min (group_edge_depth_for grp DragLeft prior) (rw r);
              top_depth = min (group_edge_depth_for grp DragTop prior) (rh r)
          in if dx < left_depth then Some DragLeft
          else let w1 = rw r - left_depth in
          if w1 \<le> 0 then None
          else let h2 = rh r - top_depth;
                   right_depth = min (group_edge_depth_for grp DragRight prior) w1;
                   right_start = rw r - right_depth in
          if 0 < h2 \<and> 0 < w1 \<and> right_start \<le> dx \<and> top_depth \<le> dy then Some DragRight
          else if left_depth \<le> dx \<and> dy < top_depth then Some DragTop
          else if h2 \<le> 0 then None
          else let w3 = w1 - right_depth in
          if w3 \<le> 0 then None
          else let bottom_depth = min (group_edge_depth_for grp DragBottom prior) h2;
                   bottom_start = rh r - bottom_depth in
          if left_depth \<le> dx \<and> dx < rw r - right_depth \<and> bottom_start \<le> dy then Some DragBottom
          else None)))"

text \<open>\<open>i32\<close> addition as the release build computes it.\<close>

definition wrapping_add_i32 :: "int \<Rightarrow> int \<Rightarrow> int" where
  "wrapping_add_i32 a b = (a + b + 2147483648) mod 4294967296 - 2147483648"

definition classify_window_point :: "rect \<Rightarrow> int \<Rightarrow> int \<Rightarrow> drag_side option" where
  "classify_window_point r x y =
     (if rw r \<le> 0 \<or> rh r \<le> 0 then None
      else Option.bind (checked_sub_i32 x (rx r)) (\<lambda>dx.
      Option.bind (checked_sub_i32 y (ry r)) (\<lambda>dy.
        if dx < 0 \<or> dy < 0 \<or> rw r \<le> dx \<or> rh r \<le> dy then None
        else
          let third_w = rust_div (wrapping_add_i32 (rw r) 1) 3;
              third_h = rust_div (wrapping_add_i32 (rh r) 1) 3;
              in_middle_x = (third_w \<le> dx \<and> dx < wrapping_add_i32 (rw r) (- third_w));
              in_middle_y = (third_h \<le> dy \<and> dy < wrapping_add_i32 (rh r) (- third_h))
          in if in_middle_x \<and> in_middle_y then Some DragCenter
          else
            let left_d = dx; right_d = rw r - dx; top_d = dy; bottom_d = rh r - dy;
                h_min = min left_d right_d; v_min = min top_d bottom_d
            in if h_min * rh r < v_min * rw r
               then (if left_d \<le> right_d then Some DragLeft else Some DragRight)
               else if top_d \<le> bottom_d then Some DragTop else Some DragBottom)))"

definition insertion_index_for_offset :: "int list \<Rightarrow> int \<Rightarrow> nat" where
  "insertion_index_for_offset child_starts offset =
     (case Option.bind (position (\<lambda>start. offset < start) child_starts)
             (\<lambda>pos. checked_sub_u64 pos 1) of
        None \<Rightarrow> 0 | Some i \<Rightarrow> i)"

subsection \<open>Share normalization\<close>

lemma gcd_loop_eq: "gcd_loop a b = gcd a b"
proof (induction a b rule: gcd_loop.induct)
  case (1 a b)
  show ?case
  proof (cases "b = 0")
    case True
    then show ?thesis by (subst gcd_loop.simps) simp
  next
    case False
    with 1 show ?thesis by (subst gcd_loop.simps) (simp add: gcd_red_nat [of a b])
  qed
qed

lemma gcd_all_loop_eq: "gcd_all_loop acc ss = gcd acc (Gcd (set ss))"
proof (induction ss arbitrary: acc)
  case Nil
  then show ?case by simp
next
  case (Cons s ss)
  then show ?case by (auto simp: gcd_loop_eq Let_def gcd.assoc [symmetric])
qed

lemma gcd_all_eq: "gcd_all ss = Gcd (set ss)"
  by (simp add: gcd_all_def gcd_all_loop_eq)

lemma Gcd_pos: "0 \<notin> set ss \<Longrightarrow> ss \<noteq> [] \<Longrightarrow> 0 < Gcd (set ss :: nat set)"
  by (metis Gcd_0_iff gr0I insertI1 list.set_cases list.set_intros(1) singletonD subsetD
      neq_Nil_conv)

lemma normalize_eq:
  assumes "0 \<notin> set out" "out \<noteq> []"
  shows "normalize_shares out = map (\<lambda>v. v div Gcd (set out)) out"
proof (cases "1 < Gcd (set out)")
  case True
  then show ?thesis by (simp add: normalize_shares_def gcd_all_eq Let_def)
next
  case False
  with Gcd_pos [OF assms] have "Gcd (set out) = 1" by simp
  then show ?thesis by (simp add: normalize_shares_def gcd_all_eq)
qed

text \<open>Normalization divides every share exactly by one positive factor.\<close>

lemma normalize_shares_ok:
  assumes "0 \<notin> set out" "out \<noteq> []"
  obtains g where "0 < g" "out = map (\<lambda>v. g * v) (normalize_shares out)"
    "0 \<notin> set (normalize_shares out)" "Gcd (set (normalize_shares out)) = 1"
proof
  let ?g = "Gcd (set out)" and ?n = "normalize_shares out"
  show pos: "0 < ?g" using assms by (rule Gcd_pos)
  have dvd: "?g * (v div ?g) = v" if "v \<in> set out" for v
    using that by (simp add: Gcd_dvd)
  show eq: "out = map (\<lambda>v. ?g * v) ?n"
    unfolding normalize_eq [OF assms] using dvd by (simp add: map_idI)
  show "0 \<notin> set ?n"
  proof
    assume "0 \<in> set ?n"
    then obtain v where "v \<in> set out" "v div ?g = 0"
      unfolding normalize_eq [OF assms] by auto
    with dvd [of v] have "v = 0" by simp
    with \<open>v \<in> set out\<close> assms(1) show False by simp
  qed
  have "?g = Gcd ((\<lambda>v. ?g * v) ` set ?n)" using eq by (metis set_map)
  also have "\<dots> = ?g * Gcd (set ?n)" by (simp add: Gcd_mult)
  finally have "?g * Gcd (set ?n) = ?g * 1" by (simp only: mult_1_right)
  with pos show "Gcd (set ?n) = 1" by (simp only: nat_mult_eq_cancel1)
qed

lemma normalize_length [simp]: "length (normalize_shares out) = length out"
  by (simp add: normalize_shares_def Let_def)

text \<open>Two positive share vectors that are proportional normalize to the same vector.\<close>

lemma normalize_scaled:
  assumes "0 \<notin> set xs" "xs \<noteq> []" "0 < k"
  shows "normalize_shares (map (\<lambda>v. k * v) xs) = normalize_shares xs"
proof -
  have "Gcd (set (map (\<lambda>v. k * v) xs)) = k * Gcd (set xs)" by (simp add: Gcd_mult)
  with assms show ?thesis by (subst (1 2) normalize_eq) (auto simp: comp_def)
qed

subsection \<open>Insertion and removal of shares\<close>

lemma scale_all_eq:
  "scale_all n ss = (if \<forall>s \<in> set ss. s * n \<le> u64_max then Some (map (\<lambda>s. s * n) ss) else None)"
  by (induction ss) auto

lemma insertion_loop_skip: "idx < i \<Longrightarrow> insertion_loop i idx x vs = vs"
  by (induction vs arbitrary: i) auto

lemma insertion_loop_eq:
  "i \<le> idx \<Longrightarrow> idx \<le> i + length vs \<Longrightarrow>
    insertion_loop i idx x vs @ (if idx = i + length vs then [x] else []) = insert_at (idx - i) x vs"
proof (induction vs arbitrary: i)
  case Nil
  then show ?case by (simp add: insert_at_def)
next
  case (Cons v vs)
  show ?case
  proof (cases "i = idx")
    case True
    then show ?thesis by (simp add: insertion_loop_skip insert_at_def)
  next
    case False
    with Cons.prems have "Suc i \<le> idx" "idx \<le> Suc i + length vs" by auto
    from Cons.IH [OF this] False have
      "insertion_loop i idx x (v # vs) @ (if idx = i + length (v # vs) then [x] else [])
        = v # insert_at (idx - Suc i) x vs"
      by simp
    moreover have "idx - i = Suc (idx - Suc i)" using \<open>Suc i \<le> idx\<close> by arith
    ultimately show ?thesis by (simp add: insert_at_def)
  qed
qed

lemma removal_loop_skip: "removed < i \<Longrightarrow> removal_loop i removed ss = ss"
  by (induction ss arbitrary: i) auto

lemma removal_loop_eq:
  "i \<le> removed \<Longrightarrow> removed < i + length ss \<Longrightarrow> removal_loop i removed ss = remove_at (removed - i) ss"
proof (induction ss arbitrary: i)
  case Nil
  then show ?case by simp
next
  case (Cons s ss)
  show ?case
  proof (cases "i = removed")
    case True
    then show ?thesis by (simp add: removal_loop_skip remove_at_def)
  next
    case False
    with Cons.prems have "Suc i \<le> removed" "removed < Suc i + length ss" by auto
    from Cons.IH [OF this] False have
      "removal_loop i removed (s # ss) = s # remove_at (removed - Suc i) ss"
      by simp
    moreover have "removed - i = Suc (removed - Suc i)" using \<open>Suc i \<le> removed\<close> by arith
    ultimately show ?thesis by (simp add: remove_at_def)
  qed
qed

lemma insert_at_nth:
  "i \<le> length xs \<Longrightarrow> insert_at i x xs ! i = x"
  "j < i \<Longrightarrow> i \<le> length xs \<Longrightarrow> insert_at i x xs ! j = xs ! j"
  "i \<le> j \<Longrightarrow> j < length xs \<Longrightarrow> insert_at i x xs ! Suc j = xs ! j"
  by (auto simp: insert_at_def nth_append min_def)

lemma remove_insert_at [simp]: "i \<le> length xs \<Longrightarrow> remove_at i (insert_at i x xs) = xs"
  by (simp add: insert_at_def remove_at_def)

lemma map_insert_at: "map f (insert_at i x xs) = insert_at i (f x) (map f xs)"
  by (simp add: insert_at_def take_map drop_map)

lemma map_remove_at: "map f (remove_at i xs) = remove_at i (map f xs)"
  by (simp add: remove_at_def take_map drop_map)

definition insertion_fits :: "nat list \<Rightarrow> nat \<Rightarrow> bool" where
  "insertion_fits existing i \<longleftrightarrow> existing \<noteq> [] \<and> i \<le> length existing \<and> 0 \<notin> set existing
     \<and> sum_list existing \<le> u64_max \<and> (\<forall>s \<in> set existing. s * length existing \<le> u64_max)"

lemma insertion_shares_eq:
  "proportional_insertion_shares existing i =
    (if insertion_fits existing i
     then Some (normalize_shares
       (insert_at i (sum_list existing) (map (\<lambda>s. s * length existing) existing)))
     else None)"
proof (cases "existing = [] \<or> length existing < i \<or> 0 \<in> set existing")
  case True
  then show ?thesis by (auto simp: proportional_insertion_shares_def insertion_fits_def)
next
  case False
  then have ex: "existing \<noteq> []" "i \<le> length existing" "0 \<notin> set existing" by auto
  then have pos: "sum_list existing \<noteq> 0" "\<not> (\<forall>s \<in> set existing. s = 0)"
    by (cases existing; auto)+
  let ?sc = "map (\<lambda>s. s * length existing) existing"
  have loop: "insertion_loop 0 i (sum_list existing) ?sc
      @ (if i = length existing then [sum_list existing] else []) = insert_at i (sum_list existing) ?sc"
    using insertion_loop_eq [of 0 i ?sc "sum_list existing"] ex(2) by simp
  have zero: "0 \<notin> set (insert_at i (sum_list existing) ?sc)"
    using ex pos by auto
  have code: "proportional_insertion_shares existing i =
      Option.bind (if sum_list existing \<le> u64_max then Some (sum_list existing) else None) (\<lambda>sum.
        Option.bind (scale_all (length existing) existing) (\<lambda>scaled.
          let out = insertion_loop 0 i sum scaled @ (if i = length scaled then [sum] else [])
          in if length out \<noteq> length existing + 1 \<or> 0 \<in> set out then None
             else Some (normalize_shares out)))"
    using ex pos(1) by (simp add: proportional_insertion_shares_def del: sum_list_eq_0_iff)
  have len: "length (insert_at i (sum_list existing) ?sc) = length existing + 1"
    using ex(2) by simp
  show ?thesis
  proof (cases "insertion_fits existing i")
    case True
    then have "scale_all (length existing) existing = Some ?sc" "sum_list existing \<le> u64_max"
      by (simp_all add: scale_all_eq insertion_fits_def)
    then have "proportional_insertion_shares existing i =
        (let out = insertion_loop 0 i (sum_list existing) ?sc
            @ (if i = length existing then [sum_list existing] else [])
         in if length out \<noteq> length existing + 1 \<or> 0 \<in> set out then None
            else Some (normalize_shares out))"
      unfolding code by simp
    also have "\<dots> = Some (normalize_shares (insert_at i (sum_list existing) ?sc))"
      unfolding loop Let_def using len zero by simp
    finally show ?thesis using True by simp
  next
    case False
    with ex have "sum_list existing \<le> u64_max \<longrightarrow> scale_all (length existing) existing = None"
      by (auto simp: scale_all_eq insertion_fits_def)
    with False show ?thesis unfolding code by simp
  qed
qed

lemma sum_list_mult_const_nat: "(\<Sum>s\<leftarrow>xs. s * (n::nat)) = sum_list xs * n"
  by (simp add: sum_list_mult_const)

lemma sum_list_insert_at: "sum_list (insert_at i x xs) = x + sum_list xs" for x :: nat
proof -
  have "sum_list xs = sum_list (take i xs) + sum_list (drop i xs)"
    by (metis append_take_drop_id sum_list_append)
  then show ?thesis by (simp add: insert_at_def)
qed

lemma removal_shares_eq:
  "proportional_removal_shares existing i =
    (if 2 \<le> length existing \<and> i < length existing \<and> 0 \<notin> set existing
     then Some (normalize_shares (remove_at i existing)) else None)"
proof (cases "2 \<le> length existing \<and> i < length existing \<and> 0 \<notin> set existing")
  case True
  then have "removal_loop 0 i existing = remove_at i existing"
    using removal_loop_eq [of 0 i existing] by simp
  moreover have "remove_at i existing \<noteq> []"
    using True remove_at_length [of i existing] by (metis One_nat_def Suc_1 diff_is_0_eq
        list.size(3) not_less_eq_eq)
  moreover have "0 \<notin> set (remove_at i existing)"
    using True by (auto simp: remove_at_def dest: in_set_takeD in_set_dropD)
  ultimately show ?thesis using True by (simp add: proportional_removal_shares_def Let_def)
next
  case False
  then show ?thesis by (auto simp: proportional_removal_shares_def)
qed

text \<open>An accepted insertion is, up to one positive factor, the scaled shares with their total put
  at the index.\<close>

lemma insertion_shares_cases:
  assumes "proportional_insertion_shares existing i = Some out"
  obtains g where "0 < g" "i \<le> length existing" "existing \<noteq> []" "0 \<notin> set existing"
    "map ((*) g) out = insert_at i (sum_list existing) (map (\<lambda>s. s * length existing) existing)"
    "0 \<notin> set out" "Gcd (set out) = 1" "length out = Suc (length existing)"
proof -
  let ?raw = "insert_at i (sum_list existing) (map (\<lambda>s. s * length existing) existing)"
  from assms have fits: "existing \<noteq> []" "i \<le> length existing" "0 \<notin> set existing"
    and out: "out = normalize_shares ?raw"
    by (auto simp: insertion_shares_eq insertion_fits_def split: if_splits)
  have len: "length ?raw = Suc (length existing)" using fits(2) by simp
  have "sum_list existing \<noteq> 0" using fits by (cases existing) auto
  then have "0 \<notin> set ?raw" using fits by (auto simp del: sum_list_eq_0_iff)
  moreover have "?raw \<noteq> []" using len by (metis Zero_not_Suc list.size(3))
  ultimately obtain g where g: "0 < g" "?raw = map (\<lambda>v. g * v) (normalize_shares ?raw)"
      "0 \<notin> set (normalize_shares ?raw)" "Gcd (set (normalize_shares ?raw)) = 1"
    by (rule normalize_shares_ok)
  show ?thesis
    using that [of g] g fits out len normalize_length [of ?raw] by simp
qed

subsection \<open>Share properties\<close>

text \<open>
  C34. Admitting an entrant into a group gives it exactly the part an equal split would: of the
  \<open>n + 1\<close> resulting shares the entrant's is the total divided by \<open>n + 1\<close>, with no rounding; the
  previous members keep the ratios they had, every share is positive, and the vector is reduced
  to lowest terms.
\<close>

theorem insertion_gives_equal_part:
  assumes "proportional_insertion_shares existing i = Some out"
  shows "length out = length existing + 1 \<and> 0 \<notin> set out \<and> Gcd (set out) = 1
    \<and> length out * out ! i = sum_list out
    \<and> (\<forall>j < length existing. \<forall>k < length existing.
         remove_at i out ! j * existing ! k = remove_at i out ! k * existing ! j)"
proof -
  from assms obtain g where g: "0 < g" "i \<le> length existing" "existing \<noteq> []" "0 \<notin> set existing"
    "map ((*) g) out = insert_at i (sum_list existing) (map (\<lambda>s. s * length existing) existing)"
    "0 \<notin> set out" "Gcd (set out) = 1" "length out = Suc (length existing)"
    by (rule insertion_shares_cases)
  let ?n = "length existing"
  have "g * (length out * out ! i) = length out * (map ((*) g) out ! i)"
    using g(2,8) by (simp add: mult.left_commute del: length_map)
  also have "\<dots> = sum_list (map ((*) g) out)"
    unfolding g(5) using g(2,8)
    by (simp add: insert_at_nth sum_list_insert_at sum_list_mult_const_nat)
  also have "\<dots> = g * sum_list out" by (simp add: sum_list_const_mult)
  finally have part: "length out * out ! i = sum_list out"
    using g(1) by (simp only: nat_mult_eq_cancel1)
  have rest: "map ((*) g) (remove_at i out) = map (\<lambda>s. s * ?n) existing"
    unfolding map_remove_at g(5) using g(2) by simp
  then have "length (remove_at i out) = ?n" by (metis length_map)
  with rest have nth: "g * remove_at i out ! j = existing ! j * ?n" if "j < ?n" for j
    using that by (metis (no_types, lifting) nth_map)
  have "remove_at i out ! j * existing ! k = remove_at i out ! k * existing ! j"
    if "j < ?n" "k < ?n" for j k
  proof -
    have "g * (remove_at i out ! j * existing ! k) = (existing ! j * ?n) * existing ! k"
      using nth [OF that(1)] by (simp only: mult.assoc [symmetric])
    also have "\<dots> = (existing ! k * ?n) * existing ! j" by (simp only: mult_ac)
    also have "\<dots> = g * (remove_at i out ! k * existing ! j)"
      using nth [OF that(2)] by (simp only: mult.assoc [symmetric])
    finally show ?thesis using g(1) by (simp only: nat_mult_eq_cancel1)
  qed
  with part g show ?thesis by simp
qed

lemma normalize_example: "normalize_shares [6, 4, Suc (Suc 0)] = [3, 2, 1]"
  by code_simp

lemma insertion_example: "proportional_insertion_shares [3, 1] 1 = Some [3, 2, 1]"
  by (simp add: insertion_shares_eq insertion_fits_def u64_max_def insert_at_def normalize_example)

theorem insertion_gives_equal_part_witness:
  "proportional_insertion_shares [3, 1] 1 = Some [3, 2, 1] \<and> 3 * ([3, 2, 1] ! 1) = (6::nat)"
  using insertion_gives_equal_part [OF insertion_example] insertion_example by simp

lemma removal_of_inserted:
  assumes "proportional_insertion_shares existing i = Some out"
  shows "proportional_removal_shares out i = Some (normalize_shares existing)"
proof -
  from assms obtain g where g: "0 < g" "i \<le> length existing" "existing \<noteq> []" "0 \<notin> set existing"
    "map ((*) g) out = insert_at i (sum_list existing) (map (\<lambda>s. s * length existing) existing)"
    "0 \<notin> set out" "Gcd (set out) = 1" "length out = Suc (length existing)"
    by (rule insertion_shares_cases)
  let ?n = "length existing" and ?rest = "remove_at i out"
  have n: "0 < ?n" using g(3) by simp
  have len: "length ?rest = ?n" using g(2,8) by (simp add: remove_at_length)
  have rest: "map ((*) g) ?rest = map (\<lambda>s. s * ?n) existing"
    unfolding map_remove_at g(5) using g(2) by simp
  have nz: "0 \<notin> set ?rest"
    using g(6) by (auto simp: remove_at_def dest: in_set_takeD in_set_dropD)
  have "normalize_shares ?rest = normalize_shares (map ((*) g) ?rest)"
    using normalize_scaled [OF nz _ g(1)] len n by fastforce
  also have "\<dots> = normalize_shares (map (\<lambda>v. ?n * v) existing)"
    unfolding rest by (simp add: mult.commute)
  also have "\<dots> = normalize_shares existing"
    using normalize_scaled [OF g(4) g(3) n] .
  finally have "normalize_shares ?rest = normalize_shares existing" .
  moreover have "2 \<le> length out" "i < length out" using g(2,8) n by linarith+
  ultimately show ?thesis using g(6) by (simp add: removal_shares_eq)
qed

text \<open>
  C35. Removing the member that was just admitted restores the shares the group had, reduced to
  lowest terms: insertion and removal are inverse, whatever the insertion index.
\<close>

theorem removal_undoes_insertion:
  assumes "proportional_insertion_shares existing i = Some out"
  shows "proportional_removal_shares out i = Some (normalize_shares existing)"
  by (rule removal_of_inserted [OF assms])

theorem removal_undoes_insertion_witness:
  "proportional_removal_shares [3, 2, 1] 1 = Some (normalize_shares [3, 1])"
  by (rule removal_undoes_insertion [OF insertion_example])

subsection \<open>Resize clamps\<close>

text \<open>
  The pointer clamp is the nearest legal split: it refuses exactly when the pair cannot hold
  two children of the minimum extent, otherwise it answers the one split of the total, both sides
  at least the minimum, whose first side is closest to the requested one.
\<close>

theorem clamp_pair_split_nearest:
  "clamp_pair_split whole desired a = Some (f, s) \<longleftrightarrow>
    f + s = whole \<and> child_min_for_axis a \<le> f \<and> child_min_for_axis a \<le> s
    \<and> (\<forall>f'. child_min_for_axis a \<le> f' \<and> child_min_for_axis a \<le> whole - f'
         \<longrightarrow> \<bar>f - desired\<bar> \<le> \<bar>f' - desired\<bar>)"
proof -
  define m where "m = child_min_for_axis a"
  define c where "c = max m (min (whole - m) desired)"
  have eq: "clamp_pair_split whole desired a = (if whole < m * 2 then None else Some (c, whole - c))"
    by (auto simp: clamp_pair_split_def m_def [symmetric] c_def Let_def)
  have near: "\<bar>c - desired\<bar> \<le> \<bar>f' - desired\<bar>" if "m \<le> f'" "m \<le> whole - f'" for f'
    using that by (auto simp: c_def)
  have uniq: "f = c" if "m \<le> f" "m \<le> whole - f"
      "\<And>f'. m \<le> f' \<Longrightarrow> m \<le> whole - f' \<Longrightarrow> \<bar>f - desired\<bar> \<le> \<bar>f' - desired\<bar>"
    using that(3) [of c] that(1,2) by (auto simp: c_def max_def min_def split: if_splits)
  show ?thesis
    unfolding eq m_def [symmetric]
  proof (cases "whole < m * 2")
    case True
    then show "((if whole < m * 2 then None else Some (c, whole - c)) = Some (f, s)) = (f + s = whole
        \<and> m \<le> f \<and> m \<le> s \<and> (\<forall>f'. m \<le> f' \<and> m \<le> whole - f' \<longrightarrow> \<bar>f - desired\<bar> \<le> \<bar>f' - desired\<bar>))"
      by auto
  next
    case False
    then have c: "m \<le> c" "m \<le> whole - c" by (auto simp: c_def)
    show "((if whole < m * 2 then None else Some (c, whole - c)) = Some (f, s)) = (f + s = whole
        \<and> m \<le> f \<and> m \<le> s \<and> (\<forall>f'. m \<le> f' \<and> m \<le> whole - f' \<longrightarrow> \<bar>f - desired\<bar> \<le> \<bar>f' - desired\<bar>))"
      (is "?L = ?R")
    proof
      assume ?L
      with False have "f = c" "s = whole - c" by auto
      with c near show ?R by simp
    next
      assume R: ?R
      then have "s = whole - f" by arith
      have "f = c"
        by (rule uniq) (use R \<open>s = whole - f\<close> in auto)
      with False \<open>s = whole - f\<close> show ?L by simp
    qed
  qed
qed

theorem clamp_pair_split_nearest_witness:
  "clamp_pair_split 1000 100 Horizontal = Some (360, 640) \<and> \<bar>360 - 100\<bar> \<le> \<bar>400 - (100::int)\<bar>"
  using clamp_pair_split_nearest [of 1000 100 Horizontal 360 640]
  by (simp add: clamp_pair_split_def)

text \<open>
  A keyboard shrink step, of a side that has at least the minimum extent, takes from that side the
  step of the press (12 pixels for the first, 2 more for each repetition, at most 20) or what it has
  above the minimum, whichever is less, and gives exactly that to the other side. The pair keeps its
  total and the shrinking side keeps the minimum. (A side below the minimum is widened instead.)
\<close>

theorem keyboard_shrink_conserves:
  assumes "clamp_keyboard_shrink_pair shrink grow (keyboard_step_px n) a = Some (s, g)"
    and "child_min_for_axis a \<le> shrink"
  shows "shrink - s = min (min (12 + 2 * int n) 20) (shrink - child_min_for_axis a) \<and> g - grow = shrink - s
    \<and> s + g = shrink + grow \<and> child_min_for_axis a \<le> s \<and> s \<le> shrink"
proof -
  have "keyboard_step_px n = min (12 + 2 * int n) 20"
    by (auto simp: keyboard_step_px_def keyboard_previous_px_def keyboard_step_increment_px_def
        keyboard_max_step_px_def Let_def)
  then show ?thesis
    using assms
    by (auto simp: clamp_keyboard_shrink_pair_def Let_def max_def min_def bind_eq_Some_conv range_defs
        split: if_splits)
qed

theorem keyboard_shrink_conserves_witness:
  "clamp_keyboard_shrink_pair 370 400 (keyboard_step_px 0) Horizontal = Some (360, 410)
    \<and> (360::int) + 410 = 370 + 400"
proof -
  have ev: "clamp_keyboard_shrink_pair 370 400 (keyboard_step_px 0) Horizontal = Some (360, 410)"
    by code_simp
  show ?thesis using keyboard_shrink_conserves [OF ev] ev by simp
qed

subsection \<open>Drag edges\<close>

lemma group_edge_depth_values:
  "group_edge_depth_for grp e prior = 32 \<or> group_edge_depth_for grp e prior = 80"
  "group_edge_depth_for grp e (Some \<lparr>pg_group = grp, pg_edge = e'\<rparr>) = (if e' = e then 80 else 32)"
  "group_edge_depth_for grp e None = 32"
  by (auto simp: group_edge_depth_for_def group_edge_inactive_px_def group_edge_active_px_def
      split: option.splits)

text \<open>The distance of a point to one edge of the group's rectangle.\<close>

fun edge_distance :: "rect \<Rightarrow> int \<Rightarrow> int \<Rightarrow> drag_side \<Rightarrow> int" where
  "edge_distance r x y DragLeft = x - rx r"
| "edge_distance r x y DragRight = rx r + rw r - 1 - x"
| "edge_distance r x y DragTop = y - ry r"
| "edge_distance r x y DragBottom = ry r + rh r - 1 - y"
| "edge_distance r x y DragCenter = 0"

lemma classify_sound:
  assumes "classify_group_point r grp x y prior = Some e"
  shows "e \<noteq> DragCenter \<and> 0 \<le> edge_distance r x y e
    \<and> edge_distance r x y e < group_edge_depth_for grp e prior
    \<and> (0 \<le> x - rx r \<and> x - rx r < rw r \<and> 0 \<le> y - ry r \<and> y - ry r < rh r)"
  using assms
  by (auto simp: classify_group_point_def Let_def bind_eq_Some_conv range_defs split: if_splits)

text \<open>The zones in the order the code tests them: left, right below the top zone, top, bottom.\<close>

definition edge_zone ::
  "int \<Rightarrow> int \<Rightarrow> int \<Rightarrow> int \<Rightarrow> (drag_side \<Rightarrow> int) \<Rightarrow> drag_side \<Rightarrow> bool" where
  "edge_zone w h dx dy d e \<longleftrightarrow>
     0 \<le> dx \<and> dx < w \<and> 0 \<le> dy \<and> dy < h \<and>
     (case e of
        DragLeft \<Rightarrow> dx < d DragLeft
      | DragRight \<Rightarrow> d DragLeft \<le> dx \<and> d DragTop \<le> dy \<and> w - d DragRight \<le> dx
      | DragTop \<Rightarrow> d DragLeft \<le> dx \<and> dy < d DragTop
      | DragBottom \<Rightarrow> d DragLeft \<le> dx \<and> d DragTop \<le> dy \<and> dx < w - d DragRight
          \<and> h - d DragBottom \<le> dy
      | DragCenter \<Rightarrow> False)"

lemma classify_iff_zone:
  "classify_group_point r grp x y prior = Some e \<longleftrightarrow>
    in_i32 (x - rx r) \<and> in_i32 (y - ry r)
    \<and> edge_zone (rw r) (rh r) (x - rx r) (y - ry r) (\<lambda>s. group_edge_depth_for grp s prior) e"
  (is "?L \<longleftrightarrow> ?R")
proof (cases "in_i32 (x - rx r) \<and> in_i32 (y - ry r)")
  case False
  then show ?thesis by (auto simp: classify_group_point_def checked_sub_i32_def try_i32_def)
next
  case True
  define dx dy L R T B where "dx = x - rx r" "dy = y - ry r"
    "L = group_edge_depth_for grp DragLeft prior" "R = group_edge_depth_for grp DragRight prior"
    "T = group_edge_depth_for grp DragTop prior" "B = group_edge_depth_for grp DragBottom prior"
  note defs = this
  have pos: "0 < L" "0 < R" "0 < T" "0 < B"
    using group_edge_depth_values(1) [of grp _ prior] unfolding defs by (smt (verit))+
  have "?L \<longleftrightarrow> edge_zone (rw r) (rh r) dx dy (\<lambda>s. group_edge_depth_for grp s prior) e"
    using True pos
    unfolding classify_group_point_def checked_sub_i32_def try_i32_def edge_zone_def defs(1,2) [symmetric]
      defs(3-6) [symmetric]
    by (cases e; auto simp: Let_def split: if_splits)
  with True defs(1,2) show ?thesis by simp
qed

text \<open>
  Edge detection is sound and has hysteresis: a classified point lies in the group's rectangle
  and nearer than the edge's active depth of 80 pixels to it, and once an edge is reported the same
  point keeps reporting that edge when it is passed back as the prior edge, so a still pointer never
  flickers between edges.
\<close>

theorem group_edge_hysteresis:
  assumes "classify_group_point r grp x y prior = Some e"
  shows "rx r \<le> x \<and> x < rx r + rw r \<and> ry r \<le> y \<and> y < ry r + rh r
    \<and> 0 \<le> edge_distance r x y e \<and> edge_distance r x y e < group_edge_active_px
    \<and> classify_group_point r grp x y (Some \<lparr>pg_group = grp, pg_edge = e\<rparr>) = Some e"
proof -
  have act: "group_edge_depth_for grp e prior \<le> group_edge_active_px"
    by (auto simp: group_edge_depth_for_def group_edge_inactive_px_def group_edge_active_px_def
        split: option.splits)
  have low: "32 \<le> group_edge_depth_for grp e' prior \<and> group_edge_depth_for grp e' prior \<le> 80" for e'
    using group_edge_depth_values(1) [of grp e' prior] by auto
  note lows = low [of DragLeft] low [of DragRight] low [of DragTop] low [of DragBottom]
  have "classify_group_point r grp x y (Some \<lparr>pg_group = grp, pg_edge = e\<rparr>) = Some e"
    using assms lows unfolding classify_iff_zone edge_zone_def
    by (cases e) (simp_all add: group_edge_depth_values(2))
  with classify_sound [OF assms] act show ?thesis by auto
qed

theorem group_edge_hysteresis_witness:
  "classify_group_point \<lparr>rx = 0, ry = 0, rw = 400, rh = 300\<rparr> ''g'' 10 200 None = Some DragLeft
    \<and> classify_group_point \<lparr>rx = 0, ry = 0, rw = 400, rh = 300\<rparr> ''g'' 10 200
        (Some \<lparr>pg_group = ''g'', pg_edge = DragLeft\<rparr>) = Some DragLeft"
proof -
  have ev: "classify_group_point \<lparr>rx = 0, ry = 0, rw = 400, rh = 300\<rparr> ''g'' 10 200 None
      = Some DragLeft"
    by (simp add: classify_group_point_def group_edge_depth_values(3) range_defs)
  show ?thesis using group_edge_hysteresis [OF ev] ev by simp
qed

end
