(* ===== verification/Policy.thy ===== *)
theory Policy
  imports Movement Cosmic
begin

text \<open>
  The layout-policy seam of \<open>tiler-core/src/policy.rs\<close>: the trait object \<open>dyn LayoutPolicy\<close> is a
  record with one function per method, \<open>cosmic_v1_policy\<close> the only implementation. The locale
  \<open>share_policy\<close> states what the session's tree operations rely on; the COSMIC policy satisfies
  it.
\<close>

record layout_policy =
  lp_plan_move :: "snapshot \<Rightarrow> move_intent \<Rightarrow> capabilities \<Rightarrow> move_outcome"
  lp_admission_axis_for_rect :: "rect \<Rightarrow> axis"
  lp_new_group_shares :: "nat list"
  lp_insertion_shares :: "nat list \<Rightarrow> nat \<Rightarrow> nat list option"
  lp_removal_shares :: "nat list \<Rightarrow> nat \<Rightarrow> nat list option"
  lp_keyboard_step_px :: "nat \<Rightarrow> int"
  lp_pair_admits_resize :: "int \<Rightarrow> int \<Rightarrow> axis \<Rightarrow> bool"
  lp_clamp_pair_split :: "int \<Rightarrow> int \<Rightarrow> axis \<Rightarrow> (int \<times> int) option"
  lp_clamp_keyboard_shrink_pair :: "int \<Rightarrow> int \<Rightarrow> int \<Rightarrow> axis \<Rightarrow> (int \<times> int) option"
  lp_pair_min_for_axis :: "axis \<Rightarrow> int"
  lp_child_min_for_axis :: "axis \<Rightarrow> int"
  lp_classify_window_point :: "rect \<Rightarrow> int \<Rightarrow> int \<Rightarrow> drag_side option"
  lp_classify_group_point ::
    "rect \<Rightarrow> node_id \<Rightarrow> int \<Rightarrow> int \<Rightarrow> prior_group_edge option \<Rightarrow> drag_side option"
  lp_insertion_index_for_offset :: "int list \<Rightarrow> int \<Rightarrow> nat"

definition cosmic_plan_move :: "snapshot \<Rightarrow> move_intent \<Rightarrow> move_outcome" where
  "cosmic_plan_move = plan_move"

definition cosmic_plan_move_with_capabilities ::
  "snapshot \<Rightarrow> move_intent \<Rightarrow> capabilities \<Rightarrow> move_outcome" where
  "cosmic_plan_move_with_capabilities = plan_move_with_capabilities"

definition cosmic_v1_policy :: layout_policy where
  "cosmic_v1_policy = \<lparr>
     lp_plan_move = cosmic_plan_move_with_capabilities,
     lp_admission_axis_for_rect = admission_axis_for_rect,
     lp_new_group_shares = new_group_shares,
     lp_insertion_shares = proportional_insertion_shares,
     lp_removal_shares = proportional_removal_shares,
     lp_keyboard_step_px = keyboard_step_px,
     lp_pair_admits_resize = pair_admits_resize,
     lp_clamp_pair_split = clamp_pair_split,
     lp_clamp_keyboard_shrink_pair = clamp_keyboard_shrink_pair,
     lp_pair_min_for_axis = pair_min_for_axis,
     lp_child_min_for_axis = child_min_for_axis,
     lp_classify_window_point = classify_window_point,
     lp_classify_group_point = classify_group_point,
     lp_insertion_index_for_offset = insertion_index_for_offset\<rparr>"

definition default_policy :: layout_policy where
  "default_policy = cosmic_v1_policy"

subsection \<open>What the tree operations rely on\<close>

text \<open>
  Two shares for a new pair; insertion adds one positive slot; removal drops one, is defined on
  every valid vector of two or more, and never raises the total.
\<close>

locale share_policy =
  fixes p :: layout_policy
  assumes new_shares: "length (lp_new_group_shares p) = 2" "0 \<notin> set (lp_new_group_shares p)"
      "sum_list (lp_new_group_shares p) \<le> u64_max"
    and insertion: "lp_insertion_shares p sh i = Some out \<Longrightarrow>
      i \<le> length sh \<and> length out = Suc (length sh) \<and> 0 \<notin> set out"
    and removal: "lp_removal_shares p sh i = Some out \<Longrightarrow>
      length out = length sh - 1 \<and> 0 \<notin> set out \<and> sum_list out \<le> sum_list sh"
    and removal_defined: "2 \<le> length sh \<Longrightarrow> i < length sh \<Longrightarrow> 0 \<notin> set sh \<Longrightarrow>
      \<exists>out. lp_removal_shares p sh i = Some out"
begin

lemma new_group_ok: "length cs = 2 \<Longrightarrow> group_ok cs (lp_new_group_shares p)"
  using new_shares by (simp add: group_ok_def)

end

lemma sum_list_div_le: "(\<Sum>v\<leftarrow>xs. v div g) \<le> sum_list xs" for g :: nat
  by (induction xs) (simp_all add: add_mono div_le_dividend)

lemma normalize_sum_le: "sum_list (normalize_shares xs) \<le> sum_list xs"
  by (simp add: normalize_shares_def Let_def sum_list_div_le)

lemma sum_list_remove_at_le: "sum_list (remove_at i xs) \<le> sum_list (xs :: nat list)"
proof -
  have "sum_list xs = sum_list (take i xs) + sum_list (drop i xs)"
    by (metis append_take_drop_id sum_list_append)
  moreover have "sum_list (drop (Suc i) xs) \<le> sum_list (drop i xs)"
    by (cases "i < length xs") (simp_all add: Cons_nth_drop_Suc [symmetric])
  ultimately show ?thesis by (simp add: remove_at_def)
qed

interpretation cosmic: share_policy cosmic_v1_policy
proof
  show "length (lp_new_group_shares cosmic_v1_policy) = 2"
    "0 \<notin> set (lp_new_group_shares cosmic_v1_policy)"
    "sum_list (lp_new_group_shares cosmic_v1_policy) \<le> u64_max"
    by (simp_all add: cosmic_v1_policy_def new_group_shares_def u64_max_def)
next
  fix sh i out
  assume "lp_insertion_shares cosmic_v1_policy sh i = Some out"
  then have "proportional_insertion_shares sh i = Some out" by (simp add: cosmic_v1_policy_def)
  then show "i \<le> length sh \<and> length out = Suc (length sh) \<and> 0 \<notin> set out"
    by (rule insertion_shares_cases) simp
next
  fix sh i out
  assume "lp_removal_shares cosmic_v1_policy sh i = Some out"
  then have r: "2 \<le> length sh" "i < length sh" "0 \<notin> set sh"
      "out = normalize_shares (remove_at i sh)"
    by (auto simp: cosmic_v1_policy_def removal_shares_eq split: if_splits)
  have "0 \<notin> set (remove_at i sh)" "remove_at i sh \<noteq> []"
    using r(1-3) set_remove_at_subset [of i sh] remove_at_length [OF r(2)]
    by (auto simp del: remove_at_length)
  then have "0 \<notin> set out" unfolding r(4) by (rule normalize_shares_ok)
  moreover have "sum_list out \<le> sum_list sh"
    unfolding r(4) using normalize_sum_le sum_list_remove_at_le by (rule order_trans)
  ultimately show "length out = length sh - 1 \<and> 0 \<notin> set out \<and> sum_list out \<le> sum_list sh"
    using r(2,4) by simp
next
  fix sh :: "nat list" and i
  assume "2 \<le> length sh" "i < length sh" "0 \<notin> set sh"
  then show "\<exists>out. lp_removal_shares cosmic_v1_policy sh i = Some out"
    by (simp add: cosmic_v1_policy_def removal_shares_eq)
qed

end
