(* ===== verification/Session_Tree.thy ===== *)
theory Session_Tree
  imports Policy Focus_Resize
begin

text \<open>
  The tree operations of \<open>tiler-core/src/session.rs\<close>: lookup of groups and parents, replacement
  inside a group, admission (\<open>insert_tiled\<close>), removal (\<open>remove_node\<close>) and the generated group
  identities. The policy is an argument, as in the code. Rust's loops over the children that stop
  at the first child holding the identity are the mutually recursive list functions.
\<close>

subsection \<open>Lookup\<close>

fun subtree_contains_id :: "node \<Rightarrow> node_id \<Rightarrow> bool" where
  "subtree_contains_id (Leaf i) x \<longleftrightarrow> i = x"
| "subtree_contains_id (Group i a cs sh) x \<longleftrightarrow> i = x \<or> list_ex (\<lambda>c. subtree_contains_id c x) cs"

definition subtree_contains :: "node \<Rightarrow> node_id \<Rightarrow> bool" where
  "subtree_contains = subtree_contains_id"

lemma subtree_contains_id_iff: "subtree_contains_id c x \<longleftrightarrow> x \<in> set (node_ids c)"
  by (induction c x rule: subtree_contains_id.induct) (auto simp: list_ex_iff)

lemma ident_in_ids: "ident n \<in> set (node_ids n)"
  by (cases n) simp_all

fun find_group_full :: "node \<Rightarrow> node_id \<Rightarrow> (node list \<times> nat list \<times> node_id \<times> axis) option"
  and find_group_full_in ::
    "node list \<Rightarrow> node_id \<Rightarrow> (node list \<times> nat list \<times> node_id \<times> axis) option" where
  "find_group_full (Leaf i) g = None"
| "find_group_full (Group i a cs sh) g = (if i = g then Some (cs, sh, i, a) else find_group_full_in cs g)"
| "find_group_full_in [] g = None"
| "find_group_full_in (c # cs) g =
     (case find_group_full c g of Some r \<Rightarrow> Some r | None \<Rightarrow> find_group_full_in cs g)"

fun find_group :: "node \<Rightarrow> node_id \<Rightarrow> (node list \<times> axis \<times> node_id) option"
  and find_group_in :: "node list \<Rightarrow> node_id \<Rightarrow> (node list \<times> axis \<times> node_id) option" where
  "find_group (Leaf i) g = None"
| "find_group (Group i a cs sh) g = (if i = g then Some (cs, a, i) else find_group_in cs g)"
| "find_group_in [] g = None"
| "find_group_in (c # cs) g = (case find_group c g of Some r \<Rightarrow> Some r | None \<Rightarrow> find_group_in cs g)"

fun find_group_shares :: "node \<Rightarrow> node_id \<Rightarrow> nat list option"
  and find_group_shares_in :: "node list \<Rightarrow> node_id \<Rightarrow> nat list option" where
  "find_group_shares (Leaf i) g = None"
| "find_group_shares (Group i a cs sh) g = (if i = g then Some sh else find_group_shares_in cs g)"
| "find_group_shares_in [] g = None"
| "find_group_shares_in (c # cs) g =
     (case find_group_shares c g of Some r \<Rightarrow> Some r | None \<Rightarrow> find_group_shares_in cs g)"

fun direct_parent_of_leaf :: "node \<Rightarrow> node_id \<Rightarrow> node_id option"
  and direct_parent_in :: "node list \<Rightarrow> node_id \<Rightarrow> node_id option" where
  "direct_parent_of_leaf (Leaf i) x = None"
| "direct_parent_of_leaf (Group i a cs sh) x =
     (if list_ex (\<lambda>c. ident c = x \<and> is_leaf c) cs then Some i else direct_parent_in cs x)"
| "direct_parent_in [] x = None"
| "direct_parent_in (c # cs) x =
     (case direct_parent_of_leaf c x of Some r \<Rightarrow> Some r | None \<Rightarrow> direct_parent_in cs x)"

fun parent_of_group :: "node \<Rightarrow> node_id \<Rightarrow> node_id option"
  and parent_of_group_in :: "node list \<Rightarrow> node_id \<Rightarrow> node_id option" where
  "parent_of_group (Leaf i) g = None"
| "parent_of_group (Group i a cs sh) g =
     (if list_ex (\<lambda>c. ident c = g) cs then Some i else parent_of_group_in cs g)"
| "parent_of_group_in [] g = None"
| "parent_of_group_in (c # cs) g =
     (case parent_of_group c g of Some r \<Rightarrow> Some r | None \<Rightarrow> parent_of_group_in cs g)"

fun find_subtree :: "node \<Rightarrow> node_id \<Rightarrow> node option"
  and find_subtree_in :: "node list \<Rightarrow> node_id \<Rightarrow> node option" where
  "find_subtree (Leaf i) x = (if i = x then Some (Leaf i) else None)"
| "find_subtree (Group i a cs sh) x =
     (if i = x then Some (Group i a cs sh) else find_subtree_in cs x)"
| "find_subtree_in [] x = None"
| "find_subtree_in (c # cs) x = (case find_subtree c x of Some r \<Rightarrow> Some r | None \<Rightarrow> find_subtree_in cs x)"

subsection \<open>Replacement inside a group\<close>

fun insert_leaf_into_group ::
    "layout_policy \<Rightarrow> node \<Rightarrow> node_id \<Rightarrow> nat \<Rightarrow> node \<Rightarrow> node option"
  and insert_leaf_into_group_in ::
    "layout_policy \<Rightarrow> node list \<Rightarrow> node_id \<Rightarrow> nat \<Rightarrow> node \<Rightarrow> node list option" where
  "insert_leaf_into_group p (Leaf i) g ix leaf = None"
| "insert_leaf_into_group p (Group i a cs sh) g ix leaf =
     (if i = g then
        (if length cs < ix then None
         else map_option (\<lambda>sh'. Group i a (insert_at ix leaf cs) sh') (lp_insertion_shares p sh ix))
      else map_option (\<lambda>cs'. Group i a cs' sh) (insert_leaf_into_group_in p cs g ix leaf))"
| "insert_leaf_into_group_in p [] g ix leaf = None"
| "insert_leaf_into_group_in p (c # cs) g ix leaf =
     (if ident c = g \<or> subtree_contains_id c g
      then map_option (\<lambda>u. u # cs) (insert_leaf_into_group p c g ix leaf)
      else map_option (\<lambda>us. c # us) (insert_leaf_into_group_in p cs g ix leaf))"

fun replace_group_children ::
    "node \<Rightarrow> node_id \<Rightarrow> node list \<Rightarrow> nat list \<Rightarrow> node option"
  and replace_group_children_in ::
    "node list \<Rightarrow> node_id \<Rightarrow> node list \<Rightarrow> nat list \<Rightarrow> node list option" where
  "replace_group_children (Leaf i) g new shares = None"
| "replace_group_children (Group i a cs sh) g new shares =
     (if i = g then
        (if length new < 2 \<or> length shares \<noteq> length new then None else Some (Group i a new shares))
      else map_option (\<lambda>cs'. Group i a cs' sh) (replace_group_children_in cs g new shares))"
| "replace_group_children_in [] g new shares = None"
| "replace_group_children_in (c # cs) g new shares =
     (if ident c = g \<or> subtree_contains_id c g
      then map_option (\<lambda>u. u # cs) (replace_group_children c g new shares)
      else map_option (\<lambda>us. c # us) (replace_group_children_in cs g new shares))"

text \<open>\<open>new_shares[index] = s\<close> panics when the shares are shorter than the children; the trees of a
  session never are.\<close>

fun replace_child_at :: "node \<Rightarrow> node_id \<Rightarrow> nat \<Rightarrow> node \<Rightarrow> nat \<Rightarrow> node option"
  and replace_child_at_in ::
    "node list \<Rightarrow> node_id \<Rightarrow> nat \<Rightarrow> node \<Rightarrow> nat \<Rightarrow> node list option" where
  "replace_child_at (Leaf i) g ix new s = None"
| "replace_child_at (Group i a cs sh) g ix new s =
     (if i = g then
        (if length cs \<le> ix then None else Some (Group i a (cs[ix := new]) (sh[ix := s])))
      else map_option (\<lambda>cs'. Group i a cs' sh) (replace_child_at_in cs g ix new s))"
| "replace_child_at_in [] g ix new s = None"
| "replace_child_at_in (c # cs) g ix new s =
     (if ident c = g \<or> subtree_contains_id c g
      then map_option (\<lambda>u. u # cs) (replace_child_at c g ix new s)
      else map_option (\<lambda>us. c # us) (replace_child_at_in cs g ix new s))"

text \<open>\<open>slice::swap\<close> at two indices in range.\<close>

definition swap_at :: "nat \<Rightarrow> nat \<Rightarrow> 'a list \<Rightarrow> 'a list" where
  "swap_at i j xs = xs[i := xs ! j, j := xs ! i]"

fun swap_direct_children :: "node \<Rightarrow> node_id \<Rightarrow> node_id \<Rightarrow> node_id \<Rightarrow> node option"
  and swap_direct_children_in ::
    "node list \<Rightarrow> node_id \<Rightarrow> node_id \<Rightarrow> node_id \<Rightarrow> node list option" where
  "swap_direct_children (Leaf i) g x y = None"
| "swap_direct_children (Group i a cs sh) g x y =
     (if i = g then
        Option.bind (position (\<lambda>c. ident c = x) cs) (\<lambda>ix.
        Option.bind (position (\<lambda>c. ident c = y) cs) (\<lambda>iy.
          if \<not> is_leaf (cs ! ix) \<or> \<not> is_leaf (cs ! iy) then None
          else Some (Group i a (swap_at ix iy cs) (swap_at ix iy sh))))
      else map_option (\<lambda>cs'. Group i a cs' sh) (swap_direct_children_in cs g x y))"
| "swap_direct_children_in [] g x y = None"
| "swap_direct_children_in (c # cs) g x y =
     (if ident c = g \<or> subtree_contains_id c g
      then map_option (\<lambda>u. u # cs) (swap_direct_children c g x y)
      else map_option (\<lambda>us. c # us) (swap_direct_children_in cs g x y))"

subsection \<open>Admission\<close>

fun nest_focused_ordered ::
    "layout_policy \<Rightarrow> node \<Rightarrow> node_id \<Rightarrow> node \<Rightarrow> node_id \<Rightarrow> axis \<Rightarrow> bool \<Rightarrow> node option"
  and nest_focused_ordered_in ::
    "layout_policy \<Rightarrow> node list \<Rightarrow> node_id \<Rightarrow> node \<Rightarrow> node_id \<Rightarrow> axis \<Rightarrow> bool \<Rightarrow> node list option"
  where
  "nest_focused_ordered p (Leaf i) x new g ax first =
     (if i = x
      then Some (Group g ax (if first then [new, Leaf i] else [Leaf i, new]) (lp_new_group_shares p))
      else None)"
| "nest_focused_ordered p (Group i a cs sh) x new g ax first =
     map_option (\<lambda>cs'. Group i a cs' sh) (nest_focused_ordered_in p cs x new g ax first)"
| "nest_focused_ordered_in p [] x new g ax first = None"
| "nest_focused_ordered_in p (c # cs) x new g ax first =
     (if subtree_contains c x
      then map_option (\<lambda>u. u # cs) (nest_focused_ordered p c x new g ax first)
      else map_option (\<lambda>us. c # us) (nest_focused_ordered_in p cs x new g ax first))"

fun nest_focused_with_new ::
    "layout_policy \<Rightarrow> node \<Rightarrow> node_id \<Rightarrow> node \<Rightarrow> node_id \<Rightarrow> axis \<Rightarrow> node option"
  and nest_focused_with_new_in ::
    "layout_policy \<Rightarrow> node list \<Rightarrow> node_id \<Rightarrow> node \<Rightarrow> node_id \<Rightarrow> axis \<Rightarrow> node list option" where
  "nest_focused_with_new p (Leaf i) x new g ax =
     (if i = x then Some (Group g ax [Leaf i, new] (lp_new_group_shares p)) else None)"
| "nest_focused_with_new p (Group i a cs sh) x new g ax =
     map_option (\<lambda>cs'. Group i a cs' sh) (nest_focused_with_new_in p cs x new g ax)"
| "nest_focused_with_new_in p [] x new g ax = None"
| "nest_focused_with_new_in p (c # cs) x new g ax =
     (if subtree_contains c x
      then map_option (\<lambda>u. u # cs) (nest_focused_with_new p c x new g ax)
      else map_option (\<lambda>us. c # us) (nest_focused_with_new_in p cs x new g ax))"

text \<open>Decimal notation of a machine integer, as \<open>format!\<close> writes it.\<close>

fun decimal :: "nat \<Rightarrow> string" where
  "decimal n = (if n < 10 then [char_of (48 + n)] else decimal (n div 10) @ [char_of (48 + n mod 10)])"

declare decimal.simps [simp del]

definition group_id_base :: "window_id \<Rightarrow> nat \<Rightarrow> string" where
  "group_id_base window rv = ''grp-'' @ window @ ''-r'' @ decimal rv"

definition group_id_candidate :: "string \<Rightarrow> nat \<Rightarrow> node_id" where
  "group_id_candidate base n = base @ ''-'' @ decimal n"

text \<open>The search loop, with its \<open>u32\<close> counter; it may not end, so it answers an option.\<close>

partial_function (option) group_id_loop :: "string \<Rightarrow> node_id set \<Rightarrow> nat \<Rightarrow> node_id option" where
  [code]: "group_id_loop base existing n =
     (if group_id_candidate base n \<notin> existing then Some (group_id_candidate base n)
      else group_id_loop base existing ((n + 1) mod 2 ^ 32))"

definition generate_group_id :: "window_id \<Rightarrow> nat \<Rightarrow> node_id set \<Rightarrow> node_id option" where
  "generate_group_id window base_revision existing =
     (let base = group_id_base window base_revision in
      if base \<notin> existing then Some base else group_id_loop base existing 1)"

text \<open>The outer option of \<open>insert_tiled\<close> is the return of the search loop, the inner one the code's
  result; the second component is the updated identity set.\<close>

definition insert_tiled ::
  "layout_policy \<Rightarrow> node option \<Rightarrow> node_id option \<Rightarrow> node_id \<Rightarrow> axis \<Rightarrow> node_id set \<Rightarrow> window_id
    \<Rightarrow> nat \<Rightarrow> (node option \<times> node_id set) option" where
  "insert_tiled p tree focused new_leaf_id orientation existing_ids window base_revision =
     (let new_leaf = Leaf new_leaf_id in
      case tree of
        None \<Rightarrow> Some (Some new_leaf, existing_ids)
      | Some t \<Rightarrow>
          Option.bind (generate_group_id window base_revision existing_ids) (\<lambda>group_id.
            case focused of
              None \<Rightarrow> Some (Some (Group group_id orientation [t, new_leaf] (lp_new_group_shares p)),
                insert group_id existing_ids)
            | Some f \<Rightarrow> Some (nest_focused_with_new p t f new_leaf group_id orientation,
                insert group_id existing_ids)))"

subsection \<open>Removal\<close>

text \<open>
  \<open>remove_children\<close> is the loop of \<open>remove_node\<close> over the children, \<open>index\<close> the current index and
  \<open>removed\<close> the slot dropped so far; \<open>None\<close> is the early return when a second slot vanishes.
\<close>

fun remove_node :: "layout_policy \<Rightarrow> node \<Rightarrow> node_id \<Rightarrow> node option"
  and remove_children ::
    "layout_policy \<Rightarrow> node list \<Rightarrow> node_id \<Rightarrow> nat \<Rightarrow> nat option \<Rightarrow> (nat option \<times> node list) option"
  where
  "remove_node p (Leaf i) x = (if i = x then None else Some (Leaf i))"
| "remove_node p (Group i a cs sh) x =
     (case remove_children p cs x 0 None of
        None \<Rightarrow> None
      | Some (None, new) \<Rightarrow> if length new \<noteq> length cs then None else Some (Group i a new sh)
      | Some (Some removed, new) \<Rightarrow>
          (case new of
             [] \<Rightarrow> None
           | [c] \<Rightarrow> Some c
           | _ \<Rightarrow> Option.bind (lp_removal_shares p sh removed) (\<lambda>new_shares.
                 if length new_shares \<noteq> length new then None else Some (Group i a new new_shares))))"
| "remove_children p [] x index removed = Some (removed, [])"
| "remove_children p (c # cs) x index removed =
     (if removed = None \<and> ident c = x \<and> is_leaf c
      then remove_children p cs x (Suc index) (Some index)
      else case remove_node p c x of
          Some updated \<Rightarrow>
            map_option (\<lambda>(r, kept). (r, updated # kept)) (remove_children p cs x (Suc index) removed)
        | None \<Rightarrow>
            if removed = None then remove_children p cs x (Suc index) (Some index) else None)"

definition remove_leaf_from_tree :: "layout_policy \<Rightarrow> node option \<Rightarrow> node_id \<Rightarrow> node option" where
  "remove_leaf_from_tree p tree leaf = Option.bind tree (\<lambda>node. remove_node p node leaf)"

subsection \<open>Lemmas on lookup\<close>

lemma subtree_contains_iff [simp]: "subtree_contains_id t x \<longleftrightarrow> x \<in> set (node_ids t)"
  by (induction t x rule: subtree_contains_id.induct) (auto simp: list_ex_iff)

lemma subtree_contains_eq [simp]: "subtree_contains t x \<longleftrightarrow> x \<in> set (node_ids t)"
  by (simp add: subtree_contains_def)

lemma ident_or_contains [simp]: "ident c = g \<or> g \<in> set (node_ids c) \<longleftrightarrow> g \<in> set (node_ids c)"
  by auto

lemma find_group_full_None:
  "g \<notin> set (group_ids t) \<Longrightarrow> find_group_full t g = None"
  "g \<notin> set (concat (map group_ids cs)) \<Longrightarrow> find_group_full_in cs g = None"
  by (induction t g and cs g rule: find_group_full_find_group_full_in.induct) auto

text \<open>The three lookups read the same group.\<close>

lemma find_group_eq:
  "find_group t g = map_option (\<lambda>(cs, sh, i, a). (cs, a, i)) (find_group_full t g)"
  "find_group_in cs g = map_option (\<lambda>(cs, sh, i, a). (cs, a, i)) (find_group_full_in cs g)"
  by (induction t g and cs g rule: find_group_full_find_group_full_in.induct)
    (auto split: option.splits)

lemma find_group_shares_eq:
  "find_group_shares t g = map_option (\<lambda>(cs, sh, i, a). sh) (find_group_full t g)"
  "find_group_shares_in cs g = map_option (\<lambda>(cs, sh, i, a). sh) (find_group_full_in cs g)"
  by (induction t g and cs g rule: find_group_full_find_group_full_in.induct)
    (auto split: option.splits)

subsection \<open>Lemmas on removal\<close>

lemma remove_absent:
  "x \<notin> set (leaves t) \<Longrightarrow> remove_node p t x = Some t"
  "x \<notin> set (concat (map leaves cs)) \<Longrightarrow> remove_children p cs x k r = Some (r, cs)"
proof (induction p t x and p cs x k r rule: remove_node_remove_children.induct)
  case (4 p c cs x index removed)
  then have "\<not> (ident c = x \<and> is_leaf c)" by (cases c) auto
  with 4 show ?case by auto
qed auto

text \<open>A leaf child drops its own slot; a leaf below a group child replaces that child.\<close>

lemma remove_children_split:
  assumes "x \<notin> set (concat (map leaves pre))" "x \<notin> set (concat (map leaves post))"
  shows "remove_children p (pre @ c # post) x k None =
    (if c = Leaf x then Some (Some (k + length pre), pre @ post)
     else case remove_node p c x of
         None \<Rightarrow> Some (Some (k + length pre), pre @ post)
       | Some c' \<Rightarrow> Some (None, pre @ c' # post))"
  using assms
proof (induction pre arbitrary: k)
  case Nil
  then show ?case
    by (cases c) (auto simp: remove_absent(2) split: option.splits)
next
  case (Cons d pre)
  then have "\<not> (ident d = x \<and> is_leaf d)" by (cases d) auto
  with Cons show ?case by (auto simp: remove_absent(1) split: option.splits)
qed

lemma child_with_leaf:
  assumes "x \<in> set (concat (map leaves cs))" "distinct (concat (map leaves cs))"
  obtains pre c post where "cs = pre @ c # post" "x \<in> set (leaves c)"
    "x \<notin> set (concat (map leaves pre))" "x \<notin> set (concat (map leaves post))"
proof -
  from assms(1) obtain c where c: "c \<in> set cs" "x \<in> set (leaves c)" by auto
  from c(1) obtain pre post where cs: "cs = pre @ c # post" by (meson split_list)
  show thesis
    by (rule that [OF cs c(2)]) (use assms(2) c(2) in \<open>auto simp: cs\<close>)
qed

lemma filter_neq_absent: "x \<notin> set xs \<Longrightarrow> filter (\<lambda>y. y \<noteq> x) xs = xs"
  by (induction xs) auto

context share_policy
begin

lemma remove_node_correct:
  assumes "wf_groups t" "distinct (leaves t)" "x \<in> set (leaves t)" "t \<noteq> Leaf x"
  shows "\<exists>t'. remove_node p t x = Some t' \<and> wf_groups t'
    \<and> leaves t' = filter (\<lambda>y. y \<noteq> x) (leaves t) \<and> mset (group_ids t') \<subseteq># mset (group_ids t)"
  using assms
proof (induction t)
  case (Leaf i)
  then show ?case by simp
next
  case (Group i a cs sh)
  then have "x \<in> set (concat (map leaves cs))" "distinct (concat (map leaves cs))" by simp_all
  then obtain pre c post where cs: "cs = pre @ c # post" "x \<in> set (leaves c)"
      "x \<notin> set (concat (map leaves pre))" "x \<notin> set (concat (map leaves post))"
    by (rule child_with_leaf)
  have rest: "filter (\<lambda>y. y \<noteq> x) (concat (map leaves pre)) = concat (map leaves pre)"
    "filter (\<lambda>y. y \<noteq> x) (concat (map leaves post)) = concat (map leaves post)"
    using cs(3,4) by (simp_all add: filter_neq_absent)
  note split = remove_children_split [OF cs(3,4), of p c 0]
  show ?case
  proof (cases "c = Leaf x")
    case True
    then have rm: "remove_children p cs x 0 None = Some (Some (length pre), pre @ post)"
      using split cs(1) by simp
    have ok: "2 \<le> length sh" "length pre < length sh" "0 \<notin> set sh" "length sh = length cs"
        "sum_list sh \<le> u64_max"
      using Group.prems(1) by (auto simp: group_ok_def cs(1))
    from removal_defined [OF ok(1,2,3)] obtain out
      where out: "lp_removal_shares p sh (length pre) = Some out" by blast
    note law = removal [OF out]
    have len: "length out = length (pre @ post)" using law ok(4) cs(1) by simp
    have wf: "\<forall>d \<in> set (pre @ post). wf_groups d" using Group.prems(1) cs(1) by auto
    show ?thesis
    proof (cases "\<exists>d. pre @ post = [d]")
      case True
      then obtain d where d: "pre @ post = [d]" by blast
      then have "concat (map leaves pre) @ concat (map leaves post) = leaves d"
        "concat (map group_ids pre) @ concat (map group_ids post) = group_ids d"
        by (metis concat_append map_append list.map(1,2) concat.simps append_Nil2)+
      then show ?thesis using rm d wf rest \<open>c = Leaf x\<close> cs(1)
        by (auto simp: subset_mset.add_increasing mset_append [symmetric] simp del: mset_append)
    next
      case False
      then obtain d e ds where d: "pre @ post = d # e # ds"
        using ok(1,4) cs(1) by (cases "pre @ post" rule: remdups_adj.cases) auto
      then have "remove_node p (Group i a cs sh) x = Some (Group i a (pre @ post) out)"
        using rm out len by simp
      moreover have "group_ok (pre @ post) out"
        using law len d ok(5) by (auto simp: group_ok_def)
      ultimately show ?thesis using wf rest \<open>c = Leaf x\<close> cs(1) by auto
    qed
  next
    case False
    have "wf_groups c" "distinct (leaves c)" using Group.prems(1,2) cs(1) by auto
    with Group.IH [of c] False cs(1,2) obtain c' where c':
        "remove_node p c x = Some c'" "wf_groups c'"
        "leaves c' = filter (\<lambda>y. y \<noteq> x) (leaves c)" "mset (group_ids c') \<subseteq># mset (group_ids c)"
      by auto
    then have "remove_node p (Group i a cs sh) x = Some (Group i a (pre @ c' # post) sh)"
      using split False cs(1) by simp
    moreover have "group_ok (pre @ c' # post) sh"
      using Group.prems(1) cs(1) by (simp add: group_ok_def)
    ultimately show ?thesis using Group.prems(1) c' rest cs(1) by auto
  qed
qed

end

subsection \<open>Lemmas on admission\<close>

text \<open>\<open>nest_focused_with_new\<close> is \<open>nest_focused_ordered\<close> with the new leaf second.\<close>

lemma nest_with_new_eq:
  "nest_focused_with_new p t x new g ax = nest_focused_ordered p t x new g ax False"
  "nest_focused_with_new_in p cs x new g ax = nest_focused_ordered_in p cs x new g ax False"
  by (induction p t x new g ax and p cs x new g ax
      rule: nest_focused_with_new_nest_focused_with_new_in.induct) auto

lemma nest_in_split:
  assumes "x \<notin> set (concat (map node_ids pre))" "x \<in> set (node_ids c)"
  shows "nest_focused_ordered_in p (pre @ c # post) x new g ax first =
    map_option (\<lambda>u. pre @ u # post) (nest_focused_ordered p c x new g ax first)"
  using assms(1)
proof (induction pre)
  case Nil
  with assms(2) show ?case by simp
next
  case (Cons d pre)
  then show ?case
    by (cases "nest_focused_ordered p c x new g ax first") auto
qed

text \<open>What the new pair puts in place of the focused leaf.\<close>

definition pair_leaves :: "node \<Rightarrow> node_id \<Rightarrow> bool \<Rightarrow> node_id \<Rightarrow> node_id list" where
  "pair_leaves new x first y =
     (if y \<noteq> x then [y] else if first then leaves new @ [y] else y # leaves new)"

lemma pair_leaves_absent:
  "x \<notin> set ys \<Longrightarrow> concat (map (pair_leaves new x first) ys) = ys"
  by (induction ys) (auto simp: pair_leaves_def)

lemma child_with_node_id:
  assumes "x \<in> set (leaves t)" "t = Group i a cs sh" "distinct (node_ids t)"
  obtains pre c post where "cs = pre @ c # post" "x \<in> set (leaves c)" "x \<in> set (node_ids c)"
    "x \<notin> set (concat (map node_ids pre))" "x \<notin> set (concat (map node_ids post))"
    "distinct (node_ids c)"
proof -
  from assms(1,2) obtain c where c: "c \<in> set cs" "x \<in> set (leaves c)" by auto
  then have x: "x \<in> set (node_ids c)" using leaves_subset_node_ids by blast
  from c(1) obtain pre post where cs: "cs = pre @ c # post" by (meson split_list)
  show thesis
    by (rule that [OF cs c(2) x]) (use assms(3) x in \<open>auto simp: cs assms(2)\<close>)
qed

lemma absent_leaves: "x \<notin> set (concat (map node_ids cs)) \<Longrightarrow> x \<notin> set (concat (map leaves cs))"
  using leaves_subset_node_ids by fastforce

context share_policy
begin

lemma nest_correct:
  assumes "wf_groups t" "distinct (node_ids t)" "x \<in> set (leaves t)" "wf_groups new"
  shows "\<exists>t'. nest_focused_ordered p t x new g ax first = Some t' \<and> wf_groups t'
    \<and> leaves t' = concat (map (pair_leaves new x first) (leaves t))
    \<and> mset (node_ids t') = mset (node_ids t) + mset (node_ids new) + {#g#}"
  using assms(1-3)
proof (induction t)
  case (Leaf i)
  then show ?case using assms(4) new_group_ok by (auto simp: pair_leaves_def)
next
  case (Group i a cs sh)
  obtain pre c post where cs: "cs = pre @ c # post" "x \<in> set (leaves c)" "x \<in> set (node_ids c)"
      "x \<notin> set (concat (map node_ids pre))" "x \<notin> set (concat (map node_ids post))"
      "distinct (node_ids c)"
    using child_with_node_id [OF Group.prems(3) refl Group.prems(2)] .
  have "wf_groups c" using Group.prems(1) cs(1) by simp
  with Group.IH [of c] cs(1,2,6) obtain c' where c':
      "nest_focused_ordered p c x new g ax first = Some c'" "wf_groups c'"
      "leaves c' = concat (map (pair_leaves new x first) (leaves c))"
      "mset (node_ids c') = mset (node_ids c) + mset (node_ids new) + {#g#}"
    by auto
  have "concat (map (pair_leaves new x first) (concat (map leaves pre))) = concat (map leaves pre)"
    "concat (map (pair_leaves new x first) (concat (map leaves post))) = concat (map leaves post)"
    by (rule pair_leaves_absent [OF absent_leaves [OF cs(4)]],
        rule pair_leaves_absent [OF absent_leaves [OF cs(5)]])
  moreover have "nest_focused_ordered p (Group i a cs sh) x new g ax first
      = Some (Group i a (pre @ c' # post) sh)"
    using nest_in_split [OF cs(4,3)] c'(1) cs(1) by simp
  moreover have "group_ok (pre @ c' # post) sh" using Group.prems(1) cs(1) by (simp add: group_ok_def)
  ultimately show ?case using Group.prems(1) c' cs(1) by auto
qed

text \<open>Removing the leaf just nested restores the tree, shares included.\<close>

lemma remove_nested:
  assumes "distinct (node_ids t)" "x \<in> set (leaves t)" "n \<notin> set (node_ids t)"
  shows "\<exists>t'. nest_focused_ordered p t x (Leaf n) g ax first = Some t' \<and> t' \<noteq> Leaf n
    \<and> remove_node p t' n = Some t"
  using assms
proof (induction t)
  case (Leaf i)
  then show ?case by auto
next
  case (Group i a cs sh)
  obtain pre c post where cs: "cs = pre @ c # post" "x \<in> set (leaves c)" "x \<in> set (node_ids c)"
      "x \<notin> set (concat (map node_ids pre))" "x \<notin> set (concat (map node_ids post))"
      "distinct (node_ids c)"
    using child_with_node_id [OF Group.prems(2) refl Group.prems(1)] .
  with Group.IH [of c] Group.prems(3) obtain c' where c':
      "nest_focused_ordered p c x (Leaf n) g ax first = Some c'" "c' \<noteq> Leaf n"
      "remove_node p c' n = Some c"
    by auto
  have "n \<notin> set (concat (map leaves pre))" "n \<notin> set (concat (map leaves post))"
    using Group.prems(3) cs(1) by (auto intro!: absent_leaves simp del: set_concat)
  from remove_children_split [OF this, of p c' 0] c' cs(1)
  show ?case using nest_in_split [OF cs(4,3), of p post "Leaf n"] by simp
qed

end

subsection \<open>Generated identities\<close>

definition decimal_value :: "string \<Rightarrow> nat" where
  "decimal_value = foldl (\<lambda>v c. 10 * v + (of_char c - 48)) 0"

lemma decimal_value [simp]: "decimal_value (decimal n) = n"
proof (induction n rule: decimal.induct)
  case (1 n)
  show ?case
  proof (cases "n < 10")
    case True
    then show ?thesis by (subst decimal.simps) (simp add: decimal_value_def)
  next
    case False
    with 1 show ?thesis by (subst decimal.simps) (simp add: decimal_value_def)
  qed
qed

lemma decimal_inj: "decimal m = decimal n \<longleftrightarrow> m = n"
  by (metis decimal_value)

lemma group_id_candidate_inj [simp]: "group_id_candidate b m = group_id_candidate b n \<longleftrightarrow> m = n"
  by (simp add: group_id_candidate_def decimal_inj)

lemma group_id_loop_finds:
  "group_id_candidate b (n + k) \<notin> ids \<Longrightarrow> n + k < 2 ^ 32 \<Longrightarrow>
    \<exists>g. group_id_loop b ids n = Some g \<and> g \<notin> ids \<and> g \<noteq> []"
proof (induction k arbitrary: n)
  case 0
  then show ?case by (subst group_id_loop.simps) (simp add: group_id_candidate_def)
next
  case (Suc k)
  show ?case
  proof (cases "group_id_candidate b n \<in> ids")
    case False
    then show ?thesis by (subst group_id_loop.simps) (simp add: group_id_candidate_def)
  next
    case True
    then have "group_id_loop b ids n = group_id_loop b ids (n + 1)"
      using Suc.prems(2) by (subst group_id_loop.simps) simp
    with Suc.IH [of "n + 1"] Suc.prems show ?thesis by simp
  qed
qed

lemma fresh_candidate:
  assumes "finite ids" "card ids < 2 ^ 32 - 1"
  shows "\<exists>k. 1 + k < 2 ^ 32 \<and> group_id_candidate b (1 + k) \<notin> ids"
proof (rule ccontr)
  assume none: "\<not> ?thesis"
  have "group_id_candidate b ` {1..<2 ^ 32} \<subseteq> ids"
  proof
    fix g
    assume "g \<in> group_id_candidate b ` {1..<2 ^ 32}"
    then obtain n where n: "1 \<le> n" "n < 2 ^ 32" "g = group_id_candidate b n" by auto
    then have "n = 1 + (n - 1)" by simp
    with none n show "g \<in> ids" by metis
  qed
  then have "card (group_id_candidate b ` {1..<2 ^ 32}) \<le> card ids"
    using assms(1) by (rule card_mono [rotated])
  moreover have "card (group_id_candidate b ` {1..<2 ^ 32}) = 2 ^ 32 - 1"
    by (subst card_image) (auto intro: inj_onI)
  ultimately show False using assms(2) by simp
qed

lemma generate_group_id_fresh:
  assumes "finite ids" "card ids < 2 ^ 32 - 1"
  shows "\<exists>g. generate_group_id w rv ids = Some g \<and> g \<notin> ids \<and> g \<noteq> []"
proof (cases "group_id_base w rv \<in> ids")
  case False
  then show ?thesis by (simp add: generate_group_id_def Let_def group_id_base_def)
next
  case True
  from fresh_candidate [OF assms] obtain k where
    "1 + k < 2 ^ 32" "group_id_candidate (group_id_base w rv) (1 + k) \<notin> ids" by blast
  from group_id_loop_finds [OF this(2,1)] True show ?thesis
    by (simp add: generate_group_id_def Let_def)
qed

lemma distinct_submset:
  assumes "mset xs \<subseteq># mset ys" "distinct ys"
  shows "distinct xs"
proof -
  from assms(1) obtain zs where "mset ys = mset xs + mset zs"
    by (metis ex_mset mset_subset_eq_exists_conv)
  then have "distinct ys = distinct (xs @ zs)" by (metis mset_append mset_eq_imp_distinct_iff)
  with assms(2) show ?thesis by simp
qed

subsection \<open>Properties of admission and removal\<close>

text \<open>The leaf order after admission: the new leaf directly after the focused one, or last.\<close>

definition admitted_leaves :: "node_id list \<Rightarrow> node_id option \<Rightarrow> node_id \<Rightarrow> node_id list" where
  "admitted_leaves ls focused n =
     (case focused of
        None \<Rightarrow> ls @ [n]
      | Some f \<Rightarrow> concat (map (\<lambda>y. if y = f then [y, n] else [y]) ls))"

lemma pair_leaves_Leaf: "pair_leaves (Leaf n) f False = (\<lambda>y. if y = f then [y, n] else [y])"
  by (auto simp: pair_leaves_def)

context share_policy
begin

lemma insert_tiled_ok:
  assumes t: "wf_node t" and ids: "finite ids" "card ids < 2 ^ 32 - 1" "set (node_ids t) \<subseteq> ids"
    and n: "n \<in> ids" "n \<notin> set (node_ids t)" "n \<noteq> []"
    and f: "\<And>x. focused = Some x \<Longrightarrow> x \<in> set (leaves t)"
  shows "\<exists>t' g. insert_tiled p (Some t) focused n ax ids w rv = Some (Some t', insert g ids)
    \<and> g \<notin> ids \<and> wf_node t' \<and> leaves t' = admitted_leaves (leaves t) focused n
    \<and> set (node_ids t') = insert n (insert g (set (node_ids t)))
    \<and> remove_leaf_from_tree p (Some t') n = Some t"
proof -
  from generate_group_id_fresh [OF ids(1,2)] obtain g
    where g: "generate_group_id w rv ids = Some g" "g \<notin> ids" "g \<noteq> []" by blast
  have fresh: "g \<notin> set (node_ids t)" "g \<noteq> n" using g(2) ids(3) n(1) by auto
  have wt: "wf_groups t" "distinct (node_ids t)" "[] \<notin> set (node_ids t)"
    using t by (auto simp: wf_node_def)
  have n': "n \<notin> set (leaves t)" using n(2) leaves_subset_node_ids by blast
  show ?thesis
  proof (cases focused)
    case None
    let ?t = "Group g ax [t, Leaf n] (lp_new_group_shares p)"
    have "wf_node ?t" using wt n(2,3) fresh g(3) new_group_ok by (auto simp: wf_node_def)
    moreover have "remove_node p ?t n = Some t"
      using remove_children_split [of n "[t]" "[]" p "Leaf n" 0] n' by simp
    ultimately show ?thesis using None g fresh
      by (intro exI [of _ ?t] exI [of _ g])
        (auto simp: insert_tiled_def admitted_leaves_def remove_leaf_from_tree_def)
  next
    case (Some x)
    note x = f [OF Some]
    from nest_correct [OF wt(1,2) x, of "Leaf n" g ax False] obtain t' where t':
      "nest_focused_ordered p t x (Leaf n) g ax False = Some t'" "wf_groups t'"
      "leaves t' = concat (map (pair_leaves (Leaf n) x False) (leaves t))"
      "mset (node_ids t') = mset (node_ids t) + mset (node_ids (Leaf n)) + {#g#}" by auto
    have "mset (node_ids t') = mset (g # n # node_ids t)" using t'(4) by simp
    then have "distinct (node_ids t')" "set (node_ids t') = set (g # n # node_ids t)"
      using wt(2) n(2) fresh by (metis distinct.simps(2) insert_iff list.set(2)
          mset_eq_imp_distinct_iff, metis set_mset_mset)
    moreover have "remove_node p t' n = Some t"
      using remove_nested [OF wt(2) x n(2), of g ax False] t'(1) by simp
    ultimately show ?thesis using Some g t' wt n
      by (intro exI [of _ t'] exI [of _ g])
        (auto simp: insert_tiled_def admitted_leaves_def remove_leaf_from_tree_def
          nest_with_new_eq pair_leaves_Leaf wf_node_def)
  qed
qed

lemma remove_leaf_ok:
  assumes t: "wf_node t" and x: "x \<in> set (leaves t)"
  shows "case remove_leaf_from_tree p (Some t) x of
      None \<Rightarrow> t = Leaf x
    | Some t' \<Rightarrow> wf_node t' \<and> leaves t' = filter (\<lambda>y. y \<noteq> x) (leaves t)
        \<and> set (node_ids t') \<subseteq> set (node_ids t) - {x}"
proof (cases "t = Leaf x")
  case True
  then show ?thesis by (simp add: remove_leaf_from_tree_def)
next
  case False
  have wt: "wf_groups t" "distinct (leaves t)" "distinct (group_ids t)"
      "set (leaves t) \<inter> set (group_ids t) = {}" "[] \<notin> set (node_ids t)"
    using t by (auto simp: wf_node_def distinct_node_ids)
  from remove_node_correct [OF wt(1,2) x False] obtain t' where t':
    "remove_node p t x = Some t'" "wf_groups t'" "leaves t' = filter (\<lambda>y. y \<noteq> x) (leaves t)"
    "mset (group_ids t') \<subseteq># mset (group_ids t)" by blast
  have sub: "set (group_ids t') \<subseteq> set (group_ids t)"
    using set_mset_mono [OF t'(4)] by simp
  have "distinct (group_ids t')"
    using t'(4) wt(3) by (rule distinct_submset)
  then have "distinct (node_ids t')" using wt sub t'(3) by (auto simp: distinct_node_ids)
  moreover have "set (node_ids t') \<subseteq> set (node_ids t) - {x}"
    using sub t'(3) x wt(4) by (auto simp: node_ids_leaves_groups)
  ultimately show ?thesis
    using t' wt(5) by (auto simp: remove_leaf_from_tree_def wf_node_def)
qed

end

subsection \<open>Updates of one group\<close>

text \<open>The shape the in-group operations share: the first child on the way to the group is updated.\<close>

fun update_group ::
    "node_id \<Rightarrow> (axis \<Rightarrow> node list \<Rightarrow> nat list \<Rightarrow> node option) \<Rightarrow> node \<Rightarrow> node option"
  and update_group_in ::
    "node_id \<Rightarrow> (axis \<Rightarrow> node list \<Rightarrow> nat list \<Rightarrow> node option) \<Rightarrow> node list \<Rightarrow> node list option" where
  "update_group g f (Leaf i) = None"
| "update_group g f (Group i a cs sh) =
     (if i = g then f a cs sh else map_option (\<lambda>cs'. Group i a cs' sh) (update_group_in g f cs))"
| "update_group_in g f [] = None"
| "update_group_in g f (c # cs) =
     (if g \<in> set (node_ids c) then map_option (\<lambda>u. u # cs) (update_group g f c)
      else map_option (\<lambda>us. c # us) (update_group_in g f cs))"

definition insertion_update ::
  "layout_policy \<Rightarrow> node_id \<Rightarrow> nat \<Rightarrow> node \<Rightarrow> axis \<Rightarrow> node list \<Rightarrow> nat list \<Rightarrow> node option" where
  "insertion_update p g ix leaf a cs sh =
     (if length cs < ix then None
      else map_option (Group g a (insert_at ix leaf cs)) (lp_insertion_shares p sh ix))"

lemma insert_leaf_update:
  "insert_leaf_into_group p t g ix leaf = update_group g (insertion_update p g ix leaf) t"
  "insert_leaf_into_group_in p cs g ix leaf = update_group_in g (insertion_update p g ix leaf) cs"
  by (induction p t g ix leaf and p cs g ix leaf
      rule: insert_leaf_into_group_insert_leaf_into_group_in.induct)
    (auto simp: insertion_update_def)

definition children_update ::
  "node_id \<Rightarrow> node list \<Rightarrow> nat list \<Rightarrow> axis \<Rightarrow> node list \<Rightarrow> nat list \<Rightarrow> node option" where
  "children_update g new shares a cs sh =
     (if length new < 2 \<or> length shares \<noteq> length new then None else Some (Group g a new shares))"

lemma replace_children_update:
  "replace_group_children t g new shares = update_group g (children_update g new shares) t"
  "replace_group_children_in cs g new shares = update_group_in g (children_update g new shares) cs"
  by (induction t g new shares and cs g new shares
      rule: replace_group_children_replace_group_children_in.induct)
    (auto simp: children_update_def)

definition child_update ::
  "node_id \<Rightarrow> nat \<Rightarrow> node \<Rightarrow> nat \<Rightarrow> axis \<Rightarrow> node list \<Rightarrow> nat list \<Rightarrow> node option" where
  "child_update g ix new s a cs sh =
     (if length cs \<le> ix then None else Some (Group g a (cs[ix := new]) (sh[ix := s])))"

lemma replace_child_update:
  "replace_child_at t g ix new s = update_group g (child_update g ix new s) t"
  "replace_child_at_in cs g ix new s = update_group_in g (child_update g ix new s) cs"
  by (induction t g ix new s and cs g ix new s rule: replace_child_at_replace_child_at_in.induct)
    (auto simp: child_update_def)

definition swap_update ::
  "node_id \<Rightarrow> node_id \<Rightarrow> node_id \<Rightarrow> axis \<Rightarrow> node list \<Rightarrow> nat list \<Rightarrow> node option" where
  "swap_update g x y a cs sh =
     Option.bind (position (\<lambda>c. ident c = x) cs) (\<lambda>ix.
     Option.bind (position (\<lambda>c. ident c = y) cs) (\<lambda>iy.
       if \<not> is_leaf (cs ! ix) \<or> \<not> is_leaf (cs ! iy) then None
       else Some (Group g a (swap_at ix iy cs) (swap_at ix iy sh))))"

lemma swap_children_update:
  "swap_direct_children t g x y = update_group g (swap_update g x y) t"
  "swap_direct_children_in cs g x y = update_group_in g (swap_update g x y) cs"
  by (induction t g x y and cs g x y rule: swap_direct_children_swap_direct_children_in.induct)
    (auto simp: swap_update_def)

lemma update_in_split:
  assumes "g \<notin> set (concat (map node_ids pre))" "g \<in> set (node_ids c)"
  shows "update_group_in g f (pre @ c # post) = map_option (\<lambda>u. pre @ u # post) (update_group g f c)"
  using assms(1)
proof (induction pre)
  case Nil
  with assms(2) show ?case by simp
next
  case (Cons d pre)
  then show ?case by (cases "update_group g f c") auto
qed

lemma find_in_split:
  assumes "g \<notin> set (concat (map node_ids pre))" "g \<notin> set (concat (map node_ids post))"
  shows "find_group_full_in (pre @ c # post) g = find_group_full c g"
  using assms(1)
proof (induction pre)
  case Nil
  have "g \<notin> set (concat (map group_ids post))"
    using assms(2) group_ids_subset_node_ids by fastforce
  then show ?case by (simp add: find_group_full_None split: option.splits)
next
  case (Cons d pre)
  then have "find_group_full d g = None"
    using group_ids_subset_node_ids by (auto intro!: find_group_full_None)
  with Cons show ?case by simp
qed

text \<open>The group with identity \<open>g\<close> below a group that is not it.\<close>

lemma child_with_group:
  assumes "g \<in> set (group_ids (Group i a cs sh))" "i \<noteq> g" "distinct (node_ids (Group i a cs sh))"
  obtains pre c post where "cs = pre @ c # post" "g \<in> set (group_ids c)" "g \<in> set (node_ids c)"
    "g \<notin> set (concat (map node_ids pre))" "g \<notin> set (concat (map node_ids post))"
    "distinct (node_ids c)"
proof -
  from assms(1,2) obtain c where c: "c \<in> set cs" "g \<in> set (group_ids c)" by auto
  then have x: "g \<in> set (node_ids c)" using group_ids_subset_node_ids by blast
  from c(1) obtain pre post where cs: "cs = pre @ c # post" by (meson split_list)
  show thesis
    by (rule that [OF cs c(2) x]) (use assms(3) x in \<open>auto simp: cs\<close>)
qed

text \<open>
  An update replaces exactly the subtree of its group: the identities change as the subtree's do,
  the update is refused iff the function refuses the group's contents, and everything else stays.
\<close>

lemma update_group_ok:
  assumes "distinct (node_ids t)" "g \<in> set (group_ids t)"
  shows "\<exists>cs sh a. find_group_full t g = Some (cs, sh, g, a)
    \<and> (case f a cs sh of
         None \<Rightarrow> update_group g f t = None
       | Some u \<Rightarrow> \<exists>t'. update_group g f t = Some t'
           \<and> mset (node_ids t') + mset (node_ids (Group g a cs sh)) = mset (node_ids t) + mset (node_ids u)
           \<and> mset (leaves t') + mset (leaves (Group g a cs sh)) = mset (leaves t) + mset (leaves u)
           \<and> (wf_groups t \<longrightarrow> wf_groups (Group g a cs sh) \<and> (wf_groups u \<longrightarrow> wf_groups t')))"
  using assms
proof (induction t)
  case (Leaf i)
  then show ?case by simp
next
  case (Group i a cs sh)
  show ?case
  proof (cases "i = g")
    case True
    then show ?thesis by (auto split: option.splits)
  next
    case False
    obtain pre c post where cs: "cs = pre @ c # post" "g \<in> set (group_ids c)" "g \<in> set (node_ids c)"
        "g \<notin> set (concat (map node_ids pre))" "g \<notin> set (concat (map node_ids post))"
        "distinct (node_ids c)"
      using child_with_group [OF Group.prems(2) False Group.prems(1)] .
    have up: "update_group g f (Group i a cs sh)
        = map_option (\<lambda>u. Group i a (pre @ u # post) sh) (update_group g f c)"
      using update_in_split [OF cs(4,3), of f post] False cs(1)
      by (cases "update_group g f c") auto
    have find: "find_group_full (Group i a cs sh) g = find_group_full c g"
      using find_in_split [OF cs(4,5)] False cs(1) by simp
    from Group.IH [of c] cs(1,2,6) obtain ds dh b where ih: "find_group_full c g = Some (ds, dh, g, b)"
      "case f b ds dh of
         None \<Rightarrow> update_group g f c = None
       | Some u \<Rightarrow> \<exists>t'. update_group g f c = Some t'
           \<and> mset (node_ids t') + mset (node_ids (Group g b ds dh)) = mset (node_ids c) + mset (node_ids u)
           \<and> mset (leaves t') + mset (leaves (Group g b ds dh)) = mset (leaves c) + mset (leaves u)
           \<and> (wf_groups c \<longrightarrow> wf_groups (Group g b ds dh) \<and> (wf_groups u \<longrightarrow> wf_groups t'))"
      by auto
    show ?thesis
    proof (cases "f b ds dh")
      case None
      with ih find up show ?thesis by (intro exI [of _ ds] exI [of _ dh] exI [of _ b]) simp
    next
      case (Some u)
      with ih(2) obtain t' where t': "update_group g f c = Some t'"
        "mset (node_ids t') + mset (node_ids (Group g b ds dh)) = mset (node_ids c) + mset (node_ids u)"
        "mset (leaves t') + mset (leaves (Group g b ds dh)) = mset (leaves c) + mset (leaves u)"
        "wf_groups c \<longrightarrow> wf_groups (Group g b ds dh) \<and> (wf_groups u \<longrightarrow> wf_groups t')"
        by auto
      have "update_group g f (Group i a cs sh) = Some (Group i a (pre @ t' # post) sh)"
        using up t'(1) by simp
      moreover have "group_ok (pre @ t' # post) sh \<longleftrightarrow> group_ok cs sh" by (simp add: group_ok_def cs(1))
      ultimately show ?thesis using ih(1) find Some t'(2-4) cs(1)
        by (intro exI [of _ ds] exI [of _ dh] exI [of _ b]) (auto simp del: node_ids.simps(2) simp: node_ids.simps(2) [of i])
    qed
  qed
qed

lemma update_group_missing:
  "g \<notin> set (group_ids t) \<Longrightarrow> update_group g f t = None"
  "g \<notin> set (concat (map group_ids cs)) \<Longrightarrow> update_group_in g f cs = None"
  by (induction g f t and g f cs rule: update_group_update_group_in.induct) auto

text \<open>An update only looks at the contents of its group, and a second one sees the first's result.\<close>

lemma update_group_cong:
  "distinct (node_ids t) \<Longrightarrow> find_group_full t g = Some (cs, sh, g, a) \<Longrightarrow> f a cs sh = h a cs sh
    \<Longrightarrow> g \<in> set (group_ids t) \<Longrightarrow> update_group g f t = update_group g h t"
proof (induction t)
  case (Leaf i)
  then show ?case by simp
next
  case (Group i b ds dh)
  show ?case
  proof (cases "i = g")
    case True
    with Group.prems show ?thesis by auto
  next
    case False
    obtain pre c post where c: "ds = pre @ c # post" "g \<in> set (group_ids c)" "g \<in> set (node_ids c)"
        "g \<notin> set (concat (map node_ids pre))" "g \<notin> set (concat (map node_ids post))"
        "distinct (node_ids c)"
      using child_with_group [OF Group.prems(4) False Group.prems(1)] .
    have "find_group_full c g = Some (cs, sh, g, a)"
      using Group.prems(2) find_in_split [OF c(4,5)] False c(1) by simp
    with Group.IH [of c] Group.prems(3) c(1,2,6) have "update_group g f c = update_group g h c" by simp
    then show ?thesis
      using update_in_split [OF c(4,3), of f post] update_in_split [OF c(4,3), of h post] False c(1)
      by simp
  qed
qed

lemma update_group_same:
  "update_group g (\<lambda>a cs sh. Some (Group g a cs sh)) t
    = (if g \<in> set (group_ids t) then Some t else None)" if "distinct (node_ids t)"
  using that
proof (induction t)
  case (Leaf i)
  then show ?case by simp
next
  case (Group i a cs sh)
  show ?case
  proof (cases "i = g \<or> g \<notin> set (group_ids (Group i a cs sh))")
    case True
    then show ?thesis by (auto simp: update_group_missing(2))
  next
    case False
    then obtain pre c post where c: "cs = pre @ c # post" "g \<in> set (group_ids c)"
        "g \<in> set (node_ids c)" "g \<notin> set (concat (map node_ids pre))"
        "g \<notin> set (concat (map node_ids post))" "distinct (node_ids c)"
      using child_with_group [OF _ _ Group.prems] by (metis (no_types, lifting))
    with Group.IH [of c] False show ?thesis
      using update_in_split [OF c(4,3), of "\<lambda>a cs sh. Some (Group g a cs sh)" post] by auto
  qed
qed

lemma update_group_twice:
  assumes "distinct (node_ids t)" "g \<in> set (group_ids t)" "find_group_full t g = Some (cs, sh, g, a)"
    "f a cs sh = Some (Group g a cs' sh')"
  shows "\<exists>t'. update_group g f t = Some t' \<and> g \<in> set (group_ids t')
    \<and> update_group g h t' = update_group g (\<lambda>_ _ _. h a cs' sh') t"
  using assms
proof (induction t)
  case (Leaf i)
  then show ?case by simp
next
  case (Group i b ds dh)
  show ?case
  proof (cases "i = g")
    case True
    with Group.prems show ?thesis by auto
  next
    case False
    obtain pre c post where c: "ds = pre @ c # post" "g \<in> set (group_ids c)" "g \<in> set (node_ids c)"
        "g \<notin> set (concat (map node_ids pre))" "g \<notin> set (concat (map node_ids post))"
        "distinct (node_ids c)"
      using child_with_group [OF Group.prems(2) False Group.prems(1)] .
    have "find_group_full c g = Some (cs, sh, g, a)"
      using Group.prems(3) find_in_split [OF c(4,5)] False c(1) by simp
    with Group.IH [of c] Group.prems(4) c(1,2,6) obtain c' where c': "update_group g f c = Some c'"
      "g \<in> set (group_ids c')" "update_group g h c' = update_group g (\<lambda>_ _ _. h a cs' sh') c" by auto
    have "g \<in> set (node_ids c')" using c'(2) group_ids_subset_node_ids by blast
    show ?thesis
      using update_in_split [OF c(4,3), of f post] c'
        update_in_split [OF c(4) \<open>g \<in> set (node_ids c')\<close>, of h post]
        update_in_split [OF c(4,3), of "\<lambda>_ _ _. h a cs' sh'" post] False c(1)
      by simp
  qed
qed

lemma swap_at_length [simp]: "length (swap_at i j xs) = length xs"
  by (simp add: swap_at_def)

lemma swap_at_nth: "i < length xs \<Longrightarrow> j < length xs \<Longrightarrow> k < length xs \<Longrightarrow>
    swap_at i j xs ! k = (if k = j then xs ! i else if k = i then xs ! j else xs ! k)"
  by (simp add: swap_at_def nth_list_update)

lemma swap_at_swap_at: "i < length xs \<Longrightarrow> j < length xs \<Longrightarrow> swap_at j i (swap_at i j xs) = xs"
  by (rule nth_equalityI) (auto simp: swap_at_nth)

lemma distinct_idents: "distinct (concat (map node_ids cs)) \<Longrightarrow> distinct (map ident cs)"
proof (induction cs)
  case Nil
  then show ?case by simp
next
  case (Cons c cs)
  have "ident c \<noteq> ident d" if "d \<in> set cs" for d
  proof
    assume "ident c = ident d"
    with that have "ident c \<in> set (concat (map node_ids cs))" by (auto intro: bexI [of _ d])
    moreover have "set (node_ids c) \<inter> set (concat (map node_ids cs)) = {}" using Cons.prems by simp
    ultimately show False using ident_in_node_ids [of c] by blast
  qed
  with Cons show ?case by auto
qed

lemma position_ident:
  assumes "distinct (map ident cs)" "k < length cs" "ident (cs ! k) = x"
  shows "position (\<lambda>c. ident c = x) cs = Some k"
  unfolding position_Some_iff
  using assms by (auto simp: distinct_conv_nth)

lemma swap_update_twice:
  assumes "swap_update g x y a cs sh = Some u" "distinct (map ident cs)" "length sh = length cs"
  obtains cs' sh' where "u = Group g a cs' sh'" "swap_update g x y a cs' sh' = Some (Group g a cs sh)"
    "mset cs' = mset cs"
proof -
  from assms(1) obtain i j where p: "position (\<lambda>c. ident c = x) cs = Some i"
      "position (\<lambda>c. ident c = y) cs = Some j" "is_leaf (cs ! i)" "is_leaf (cs ! j)"
      "u = Group g a (swap_at i j cs) (swap_at i j sh)"
    by (auto simp: swap_update_def bind_eq_Some_conv split: if_splits)
  then have ij: "i < length cs" "ident (cs ! i) = x" "j < length cs" "ident (cs ! j) = y"
    by (auto simp: position_Some_iff)
  let ?cs = "swap_at i j cs"
  have ms: "mset ?cs = mset cs" using ij by (simp add: swap_at_def mset_swap)
  then have "mset (map ident ?cs) = mset (map ident cs)" by simp
  then have d: "distinct (map ident ?cs)" using assms(2) by (metis mset_eq_imp_distinct_iff)
  have "position (\<lambda>c. ident c = x) ?cs = Some j" "position (\<lambda>c. ident c = y) ?cs = Some i"
    using position_ident [OF d] ij by (auto simp: swap_at_nth)
  moreover have "is_leaf (?cs ! i)" "is_leaf (?cs ! j)" using p(3,4) ij by (auto simp: swap_at_nth)
  ultimately have "swap_update g x y a ?cs (swap_at i j sh) = Some (Group g a cs sh)"
    using ij assms(3) by (simp add: swap_update_def swap_at_swap_at)
  with p(5) ms that show thesis by blast
qed

lemma mset_concat_map: "mset (concat (map f xs)) = sum_mset (image_mset (\<lambda>x. mset (f x)) (mset xs))"
  by (induction xs) auto

lemma swap_update_group_ok:
  assumes "swap_update g x y a cs sh = Some u" "wf_groups (Group g a cs sh)" "u = Group g a cs' sh'"
  shows "group_ok cs' sh'"
proof -
  from assms(1,3) obtain i j where ij: "i < length cs" "j < length cs"
      "cs' = swap_at i j cs" "sh' = swap_at i j sh"
    by (auto simp: swap_update_def bind_eq_Some_conv position_Some_iff split: if_splits)
  have ok: "group_ok cs sh" using assms(2) by simp
  then have "mset sh' = mset sh" using ij by (simp add: group_ok_def swap_at_def mset_swap)
  then have "set sh' = set sh" "sum_list sh' = sum_list sh"
    by (metis set_mset_mset, metis sum_mset_sum_list)
  with ok ij show ?thesis by (simp add: group_ok_def)
qed

lemma find_group_distinct:
  assumes "find_group_full t g = Some (cs, sh, i, a)" "distinct (node_ids t)" "wf_groups t"
    "g \<in> set (group_ids t)"
  shows "distinct (map ident cs) \<and> length sh = length cs"
proof -
  from update_group_ok [OF assms(2,4), of "\<lambda>a cs sh. Some (Group g a cs sh)"] assms(1)
  have "wf_groups (Group g a cs sh)" using assms(3) by auto
  moreover from update_group_ok [OF assms(2,4), of "\<lambda>_ _ _. Some (Leaf g)"] assms(1)
  obtain t' where "mset (node_ids t') + mset (node_ids (Group g a cs sh)) = mset (node_ids t) + {#g#}"
    by auto
  then have "mset (node_ids t' @ concat (map node_ids cs)) = mset (node_ids t)" by simp
  then have "distinct (node_ids t' @ concat (map node_ids cs))"
    using assms(2) by (metis mset_eq_imp_distinct_iff)
  ultimately show ?thesis using distinct_idents by (auto simp: group_ok_def)
qed

lemma update_group_Some_group: "update_group g f t = Some t' \<Longrightarrow> g \<in> set (group_ids t)"
  using update_group_missing(1) [of g t f] by fastforce

lemma update_group_Some:
  assumes "update_group g f t = Some t'" "distinct (node_ids t)" "wf_groups t"
  obtains cs sh a u where "g \<in> set (group_ids t)" "find_group_full t g = Some (cs, sh, g, a)"
    "f a cs sh = Some u"
    "mset (node_ids t') + mset (node_ids (Group g a cs sh)) = mset (node_ids t) + mset (node_ids u)"
    "mset (leaves t') + mset (leaves (Group g a cs sh)) = mset (leaves t) + mset (leaves u)"
    "wf_groups (Group g a cs sh)" "wf_groups u \<longrightarrow> wf_groups t'"
proof -
  note g = update_group_Some_group [OF assms(1)]
  from update_group_ok [OF assms(2) g, of f] obtain cs sh a where
    find: "find_group_full t g = Some (cs, sh, g, a)" and
    cases: "case f a cs sh of
         None \<Rightarrow> update_group g f t = None
       | Some u \<Rightarrow> \<exists>t'. update_group g f t = Some t'
           \<and> mset (node_ids t') + mset (node_ids (Group g a cs sh)) = mset (node_ids t) + mset (node_ids u)
           \<and> mset (leaves t') + mset (leaves (Group g a cs sh)) = mset (leaves t) + mset (leaves u)
           \<and> (wf_groups t \<longrightarrow> wf_groups (Group g a cs sh) \<and> (wf_groups u \<longrightarrow> wf_groups t'))"
    by blast
  show thesis
  proof (cases "f a cs sh")
    case None
    with cases assms(1) show ?thesis by simp
  next
    case (Some u)
    with cases assms(1,3) that [OF g find Some] show ?thesis by simp
  qed
qed

lemma swap_involutive:
  assumes "wf_node t" "swap_direct_children t g x y = Some t'"
  shows "swap_direct_children t' g x y = Some t \<and> wf_node t' \<and> mset (leaves t') = mset (leaves t)"
proof -
  have t: "wf_groups t" "distinct (node_ids t)" using assms(1) by (auto simp: wf_node_def)
  have up: "update_group g (swap_update g x y) t = Some t'"
    using assms(2) by (simp add: swap_children_update)
  from up t(2,1) obtain cs sh a u where g: "g \<in> set (group_ids t)"
    and u: "find_group_full t g = Some (cs, sh, g, a)" "swap_update g x y a cs sh = Some u"
    "mset (node_ids t') + mset (node_ids (Group g a cs sh)) = mset (node_ids t) + mset (node_ids u)"
    "mset (leaves t') + mset (leaves (Group g a cs sh)) = mset (leaves t) + mset (leaves u)"
    "wf_groups (Group g a cs sh)" "wf_groups u \<longrightarrow> wf_groups t'"
    by (rule update_group_Some)
  note d = find_group_distinct [OF u(1) t(2,1) g]
  from d have dd: "distinct (map ident cs)" "length sh = length cs" by simp_all
  from swap_update_twice [OF u(2) dd] obtain cs' sh' where r: "u = Group g a cs' sh'"
      "swap_update g x y a cs' sh' = Some (Group g a cs sh)" "mset cs' = mset cs"
    by metis
  have conc: "mset (concat (map f cs')) = mset (concat (map f cs))" for f :: "node \<Rightarrow> node_id list"
    by (simp add: mset_concat_map r(3))
  have "\<exists>s. update_group g (swap_update g x y) t = Some s \<and> g \<in> set (group_ids s)
      \<and> update_group g (swap_update g x y) s
        = update_group g (\<lambda>_ _ _. swap_update g x y a cs' sh') t"
    using update_group_twice [OF t(2) g u(1)] u(2) r(1) by blast
  then have "update_group g (swap_update g x y) t' = update_group g (\<lambda>_ _ _. Some (Group g a cs sh)) t"
    using up r(2) by simp
  also have "\<dots> = update_group g (\<lambda>a cs sh. Some (Group g a cs sh)) t"
    by (rule update_group_cong [OF t(2) u(1) refl g])
  also have "\<dots> = Some t" using update_group_same [OF t(2)] g by simp
  finally have again: "update_group g (swap_update g x y) t' = Some t" .
  have ids: "mset (node_ids t') = mset (node_ids t)" "mset (leaves t') = mset (leaves t)"
    using u(3,4) r(1) conc by simp_all
  have "group_ok cs' sh'"
    using u(2,5) r(1) by (rule swap_update_group_ok)
  then have "wf_groups u" using u(5) r(1) mset_eq_setD [OF r(3)] by simp
  then have "wf_groups t'" using u(6) by simp
  with ids assms(1) have "wf_node t'"
    unfolding wf_node_def by (metis mset_eq_imp_distinct_iff set_mset_mset)
  with again ids show ?thesis by (simp add: swap_children_update)
qed

lemma replace_shares_absent: "g \<notin> set (group_ids t) \<Longrightarrow> replace_shares g new t = t"
  by (induction t) (auto intro: map_idI)

lemma replace_shares_absent_list:
  "g \<notin> set (concat (map node_ids cs)) \<Longrightarrow> map (replace_shares g new) cs = cs"
  using group_ids_subset_node_ids by (fastforce intro!: map_idI replace_shares_absent)

text \<open>Removing a leaf inserted into a group restores the tree with that group's shares reduced.\<close>

lemma remove_inserted_leaf:
  assumes "distinct (node_ids t)" "g \<in> set (group_ids t)" "wf_groups t"
    "find_group_full t g = Some (cs, sh, g, a)" "ix \<le> length cs"
    "proportional_insertion_shares sh ix = Some sh'" "n \<notin> set (node_ids t)"
  shows "\<exists>t'. update_group g (insertion_update cosmic_v1_policy g ix (Leaf n)) t = Some t' \<and> t' \<noteq> Leaf n
    \<and> remove_node cosmic_v1_policy t' n = Some (replace_shares g (normalize_shares sh) t)"
  using assms
proof (induction t)
  case (Leaf i)
  then show ?case by simp
next
  case (Group i b ds dh)
  let ?p = cosmic_v1_policy
  show ?case
  proof (cases "i = g")
    case True
    with Group.prems(4) have eq: "ds = cs" "dh = sh" "b = a" by auto
    have ok: "group_ok cs sh" using Group.prems(3) eq by simp
    have "n \<notin> set (concat (map leaves (take ix cs)))"
      by (rule absent_leaves) (use Group.prems(7) eq in \<open>auto dest: in_set_takeD\<close>)
    moreover have "n \<notin> set (concat (map leaves (drop ix cs)))"
      by (rule absent_leaves) (use Group.prems(7) eq in \<open>auto dest: in_set_dropD\<close>)
    ultimately have "remove_children ?p (take ix cs @ Leaf n # drop ix cs) n 0 None
        = Some (Some (length (take ix cs)), take ix cs @ drop ix cs)"
      using remove_children_split [of n "take ix cs" "drop ix cs" ?p "Leaf n" 0] by simp
    then have rm: "remove_children ?p (insert_at ix (Leaf n) cs) n 0 None = Some (Some ix, cs)"
      using Group.prems(5) by (simp add: insert_at_def)
    obtain c d es where cs: "cs = c # d # es"
      using ok by (cases cs rule: remdups_adj.cases) (auto simp: group_ok_def)
    have "lp_removal_shares ?p sh' ix = Some (normalize_shares sh)"
      using removal_of_inserted [OF Group.prems(6)] by (simp add: cosmic_v1_policy_def)
    then have "remove_node ?p (Group g a (insert_at ix (Leaf n) cs) sh') n
        = Some (Group g a cs (normalize_shares sh))"
      using rm ok cs by (simp add: group_ok_def)
    moreover have "map (replace_shares g (normalize_shares sh)) cs = cs"
      using Group.prems(1) True eq by (intro replace_shares_absent_list) simp
    moreover have "lp_insertion_shares ?p sh ix = Some sh'"
      using Group.prems(6) by (simp add: cosmic_v1_policy_def)
    ultimately show ?thesis using True eq Group.prems(5) by (simp add: insertion_update_def)
  next
    case False
    obtain pre c post where c: "ds = pre @ c # post" "g \<in> set (group_ids c)" "g \<in> set (node_ids c)"
        "g \<notin> set (concat (map node_ids pre))" "g \<notin> set (concat (map node_ids post))"
        "distinct (node_ids c)"
      using child_with_group [OF Group.prems(2) False Group.prems(1)] .
    have "find_group_full c g = Some (cs, sh, g, a)"
      using Group.prems(4) find_in_split [OF c(4,5)] False c(1) by simp
    with Group.IH [of c] Group.prems(3,5-7) c(1,2,6) obtain c' where c':
      "update_group g (insertion_update ?p g ix (Leaf n)) c = Some c'" "c' \<noteq> Leaf n"
      "remove_node ?p c' n = Some (replace_shares g (normalize_shares sh) c)"
      by auto
    have "n \<notin> set (concat (map leaves pre))" "n \<notin> set (concat (map leaves post))"
      using Group.prems(7) c(1) by (auto intro!: absent_leaves simp del: set_concat)
    from remove_children_split [OF this, of ?p c' 0] c' c(1)
    show ?thesis
      using update_in_split [OF c(4,3), of "insertion_update ?p g ix (Leaf n)" post] False
        replace_shares_absent_list [OF c(4)] replace_shares_absent_list [OF c(5)]
      by simp
  qed
qed

lemma insert_leaf_removed:
  assumes "wf_node t" "insert_leaf_into_group cosmic_v1_policy t g ix (Leaf n) = Some t'"
    "n \<notin> set (node_ids t)"
  shows "\<exists>sh. find_group_shares t g = Some sh
    \<and> remove_leaf_from_tree cosmic_v1_policy (Some t') n = Some (replace_shares g (normalize_shares sh) t)
    \<and> mset (leaves t') = add_mset n (mset (leaves t))"
proof -
  have t: "wf_groups t" "distinct (node_ids t)" using assms(1) by (auto simp: wf_node_def)
  have up: "update_group g (insertion_update cosmic_v1_policy g ix (Leaf n)) t = Some t'"
    using assms(2) by (simp add: insert_leaf_update)
  from up t(2,1) obtain cs sh a u where g: "g \<in> set (group_ids t)"
    and u: "find_group_full t g = Some (cs, sh, g, a)"
      "insertion_update cosmic_v1_policy g ix (Leaf n) a cs sh = Some u"
      "mset (leaves t') + mset (leaves (Group g a cs sh)) = mset (leaves t) + mset (leaves u)"
    by (rule update_group_Some)
  from u(2) obtain sh' where sh': "ix \<le> length cs" "proportional_insertion_shares sh ix = Some sh'"
      "u = Group g a (insert_at ix (Leaf n) cs) sh'"
    by (auto simp: insertion_update_def cosmic_v1_policy_def split: if_splits)
  have "mset (leaves u) = add_mset n (mset (leaves (Group g a cs sh)))"
    by (simp add: sh'(3) mset_concat_map insert_at_def)
      (metis append_take_drop_id mset_append image_mset_union sum_mset.union union_commute)
  then have "mset (leaves t') = add_mset n (mset (leaves t))" using u(3) by simp
  moreover have "find_group_shares t g = Some sh" using u(1) by (simp add: find_group_shares_eq)
  ultimately show ?thesis
    using remove_inserted_leaf [OF t(2) g t(1) u(1) sh'(1,2) assms(3)] up
    by (auto simp: remove_leaf_from_tree_def)
qed

subsection \<open>Properties\<close>

text \<open>A small tree for the examples: two leaves side by side.\<close>

definition pair_tree :: node where
  "pair_tree = Group ''r'' Horizontal [Leaf ''a'', Leaf ''b''] [2, 1]"

lemma pair_tree_wf: "wf_node pair_tree"
  by (simp add: pair_tree_def wf_node_def group_ok_def u64_max_def)

text \<open>
  C36. Admission keeps the tree well-formed and always returns: a fresh leaf is placed directly
  after the focused leaf (last without focus), under one fresh group identity found within the
  counter's range, every other leaf keeps its place, and removing the new leaf gives the tree
  back exactly, shares included.
\<close>

theorem admission_correct:
  assumes "wf_node t" "finite ids" "card ids < 2 ^ 32 - 1" "set (node_ids t) \<subseteq> ids"
    and "n \<in> ids" "n \<notin> set (node_ids t)" "n \<noteq> []"
    and "\<forall>x. focused = Some x \<longrightarrow> x \<in> set (leaves t)"
  shows "\<exists>t' g. insert_tiled cosmic_v1_policy (Some t) focused n ax ids w rv = Some (Some t', insert g ids)
    \<and> g \<notin> ids \<and> wf_node t' \<and> leaves t' = admitted_leaves (leaves t) focused n
    \<and> set (node_ids t') = insert n (insert g (set (node_ids t)))
    \<and> remove_leaf_from_tree cosmic_v1_policy (Some t') n = Some t"
  using assms by (intro cosmic.insert_tiled_ok) auto

theorem admission_correct_witness:
  "\<exists>t' g. insert_tiled cosmic_v1_policy (Some pair_tree) (Some ''a'') ''n'' Vertical
      {''r'', ''a'', ''b'', ''n''} ''w'' 3 = Some (Some t', insert g {''r'', ''a'', ''b'', ''n''})
    \<and> leaves t' = [''a'', ''n'', ''b'']"
  using admission_correct [OF pair_tree_wf, of "{''r'', ''a'', ''b'', ''n''}" "''n''" "Some ''a''"
      Vertical "''w''" 3]
  by (auto simp: pair_tree_def admitted_leaves_def card_insert_if)

text \<open>
  Removing a leaf of a well-formed tree empties the tree only when the leaf is the whole tree;
  otherwise it gives a well-formed tree with the remaining leaves in their order and no new
  identity, single-child groups collapsed.
\<close>

theorem removal_correct:
  assumes "wf_node t" "x \<in> set (leaves t)"
  shows "case remove_leaf_from_tree cosmic_v1_policy (Some t) x of
      None \<Rightarrow> t = Leaf x
    | Some t' \<Rightarrow> wf_node t' \<and> leaves t' = filter (\<lambda>y. y \<noteq> x) (leaves t)
        \<and> set (node_ids t') \<subseteq> set (node_ids t) - {x}"
  by (rule cosmic.remove_leaf_ok [OF assms])

lemma pair_tree_leaf: "''a'' \<in> set (leaves pair_tree)"
  by (simp add: pair_tree_def)

lemma pair_tree_remove: "remove_leaf_from_tree cosmic_v1_policy (Some pair_tree) ''a'' = Some (Leaf ''b'')"
  by (simp add: remove_leaf_from_tree_def pair_tree_def)

theorem removal_correct_witness:
  "remove_leaf_from_tree cosmic_v1_policy (Some pair_tree) ''a'' = Some (Leaf ''b'') \<and> wf_node (Leaf ''b'')"
  using removal_correct [OF pair_tree_wf pair_tree_leaf] unfolding pair_tree_remove by simp

text \<open>
  A leaf moved into a group and removed again leaves the tree as it was but for that group's
  shares, which come back reduced to lowest terms.
\<close>

theorem group_insertion_undone:
  assumes "wf_node t" "insert_leaf_into_group cosmic_v1_policy t g ix (Leaf n) = Some t'"
    and "n \<notin> set (node_ids t)"
  shows "\<exists>sh. find_group_shares t g = Some sh
    \<and> remove_leaf_from_tree cosmic_v1_policy (Some t') n = Some (replace_shares g (normalize_shares sh) t)
    \<and> mset (leaves t') = add_mset n (mset (leaves t))"
  by (rule insert_leaf_removed [OF assms])

lemma pair_tree_shares: "proportional_insertion_shares [2, 1] 1 = Some [4, 3, 2]"
proof -
  have "normalize_shares [4, 3, Suc (Suc 0)] = [4, 3, 2]" by code_simp
  then show ?thesis
    by (simp add: insertion_shares_eq insertion_fits_def u64_max_def insert_at_def)
qed

lemma pair_tree_insert:
  "insert_leaf_into_group cosmic_v1_policy pair_tree ''r'' 1 (Leaf ''n'')
    = Some (Group ''r'' Horizontal [Leaf ''a'', Leaf ''n'', Leaf ''b''] [4, 3, 2])"
  using pair_tree_shares by (simp add: pair_tree_def cosmic_v1_policy_def insert_at_def)

theorem group_insertion_undone_witness:
  "\<exists>sh. find_group_shares pair_tree ''r'' = Some sh \<and> remove_leaf_from_tree cosmic_v1_policy
      (Some (Group ''r'' Horizontal [Leaf ''a'', Leaf ''n'', Leaf ''b''] [4, 3, 2])) ''n''
    = Some (replace_shares ''r'' (normalize_shares sh) pair_tree)"
  using group_insertion_undone [OF pair_tree_wf pair_tree_insert] by (auto simp: pair_tree_def)

text \<open>
  Swapping two leaves of a group is an involution: it keeps the tree well-formed and its leaves
  the same, and swapping them again restores the tree.
\<close>

theorem swap_is_involution:
  assumes "wf_node t" "swap_direct_children t g x y = Some t'"
  shows "swap_direct_children t' g x y = Some t \<and> wf_node t' \<and> mset (leaves t') = mset (leaves t)"
  by (rule swap_involutive [OF assms])

lemma pair_tree_swap: "swap_direct_children pair_tree ''r'' ''a'' ''b''
    = Some (Group ''r'' Horizontal [Leaf ''b'', Leaf ''a''] [1, 2])"
  by (simp add: pair_tree_def swap_at_def)

theorem swap_is_involution_witness:
  "swap_direct_children (Group ''r'' Horizontal [Leaf ''b'', Leaf ''a''] [1, 2]) ''r'' ''a'' ''b''
    = Some pair_tree"
  using swap_is_involution [OF pair_tree_wf pair_tree_swap] by blast

end
