(* ===== verification/Size_Hints.thy ===== *)
theory Size_Hints
  imports Cosmic
begin

text \<open>
  Client size hints, \<open>tiler-core/src/size_hints.rs\<close>: the fixed-size classification, the clamp
  acceptance of observed rectangles, the integer redistribution and the hint-aware projector.
  \<open>enforce_minimums_i64\<close> is the redistribution in the \<open>i64\<close> arithmetic of the code, where a sum,
  difference or product that leaves the range is \<open>None\<close>; \<open>enforce_minimums\<close> takes the same steps
  over the integers, and the two agree on the sizes and minimums that the projector passes
  (\<open>enforce_minimums_i64_eq\<close>, \<open>projector_minimums_fit\<close>). The saturating sums of \<open>subtree_min\<close>
  are written out.
\<close>

subsection \<open>Hints\<close>

definition clamp_tolerance_px :: int where
  "clamp_tolerance_px = 2"

record window_size_hints =
  min_w :: "int option"
  min_h :: "int option"
  max_w :: "int option"
  max_h :: "int option"

definition hints_none :: window_size_hints where
  "hints_none = \<lparr>min_w = None, min_h = None, max_w = None, max_h = None\<rparr>"

definition hints_is_empty :: "window_size_hints \<Rightarrow> bool" where
  "hints_is_empty h \<longleftrightarrow> min_w h = None \<and> min_h h = None \<and> max_w h = None \<and> max_h h = None"

definition meaningful :: "int option \<Rightarrow> int option" where
  "meaningful value =
     (case value of Some v \<Rightarrow> if 1 \<le> v \<and> v \<le> geometry_bound then Some v else None | None \<Rightarrow> None)"

fun min_for_axis :: "window_size_hints \<Rightarrow> axis \<Rightarrow> int option" where
  "min_for_axis h Horizontal = meaningful (min_w h)"
| "min_for_axis h Vertical = meaningful (min_h h)"

fun max_for_axis :: "window_size_hints \<Rightarrow> axis \<Rightarrow> int option" where
  "max_for_axis h Horizontal = meaningful (max_w h)"
| "max_for_axis h Vertical = meaningful (max_h h)"

definition usable_fixed_bound :: "int option \<Rightarrow> int option" where
  "usable_fixed_bound value =
     (case value of Some v \<Rightarrow> if 0 \<le> v \<and> v \<le> geometry_bound then Some v else None | None \<Rightarrow> None)"

subsection \<open>Fixed sizes\<close>

datatype fixed_size_predicate = BothAxes | EitherAxis

fun fixed_predicate_as_wire_str :: "fixed_size_predicate \<Rightarrow> string" where
  "fixed_predicate_as_wire_str BothAxes = ''both-axes-fixed''"
| "fixed_predicate_as_wire_str EitherAxis = ''either-axis-fixed''"

definition fixed_predicate_parse_wire :: "string \<Rightarrow> fixed_size_predicate option" where
  "fixed_predicate_parse_wire value =
     (if value = ''both-axes-fixed'' then Some BothAxes
      else if value = ''either-axis-fixed'' then Some EitherAxis else None)"

definition fixed_size_reason_with :: "window_size_hints \<Rightarrow> fixed_size_predicate \<Rightarrow> string" where
  "fixed_size_reason_with hints predicate =
     (let raw = [min_w hints, min_h hints, max_w hints, max_h hints] in
      if list_ex (\<lambda>b. case b of Some v \<Rightarrow> v < 0 | None \<Rightarrow> False) raw then ''not-fixed-negative''
      else if list_ex (\<lambda>b. b = None) raw then ''not-fixed-missing''
      else if list_ex (\<lambda>b. b = Some i32_max) raw then ''not-fixed-sentinel''
      else if list_ex (\<lambda>b. usable_fixed_bound b = None) raw then ''not-fixed-out-of-range''
      else if min_w hints = Some 0 \<and> min_h hints = Some 0 \<and> max_w hints = Some 0
          \<and> max_h hints = Some 0 then ''not-fixed-zero''
      else
        let width_fixed = (min_w hints = max_w hints \<and> min_w hints \<noteq> Some 0);
            height_fixed = (min_h hints = max_h hints \<and> min_h hints \<noteq> Some 0);
            fixed = (case predicate of BothAxes \<Rightarrow> width_fixed \<and> height_fixed
                     | EitherAxis \<Rightarrow> width_fixed \<or> height_fixed)
        in if fixed then ''fixed-equal'' else ''not-fixed-unequal'')"

definition fixed_size_reason :: "window_size_hints \<Rightarrow> string" where
  "fixed_size_reason hints = fixed_size_reason_with hints BothAxes"

definition is_fixed_size_with :: "window_size_hints \<Rightarrow> fixed_size_predicate \<Rightarrow> bool" where
  "is_fixed_size_with hints predicate \<longleftrightarrow> fixed_size_reason_with hints predicate = ''fixed-equal''"

definition is_fixed_size :: "window_size_hints \<Rightarrow> bool" where
  "is_fixed_size hints = is_fixed_size_with hints BothAxes"

subsection \<open>Clamp acceptance\<close>

definition clamp_axis :: "int \<Rightarrow> int option \<Rightarrow> int option \<Rightarrow> int" where
  "clamp_axis desired mn mx =
     (let value = desired;
          value = (case meaningful mn of Some lo \<Rightarrow> if value < lo then lo else value | None \<Rightarrow> value);
          value = (case meaningful mx of Some hi \<Rightarrow> if hi < value then hi else value | None \<Rightarrow> value)
      in case (meaningful mn, meaningful mx) of
           (Some lo, Some hi) \<Rightarrow> if hi < lo \<and> value < lo then lo else value
         | _ \<Rightarrow> value)"

definition axis_accepts_clamp :: "int \<Rightarrow> int \<Rightarrow> int option \<Rightarrow> int option \<Rightarrow> bool" where
  "axis_accepts_clamp observed desired mn mx \<longleftrightarrow>
     \<not> (meaningful mn = None \<and> meaningful mx = None)
     \<and> \<bar>observed - clamp_axis desired mn mx\<bar> \<le> clamp_tolerance_px"

record clamp_assessment =
  accepted :: bool
  width_accepted :: bool
  height_accepted :: bool

definition assess_window_clamp :: "rect \<Rightarrow> rect \<Rightarrow> window_size_hints \<Rightarrow> clamp_assessment" where
  "assess_window_clamp observed desired hints =
     (if rx observed \<noteq> rx desired \<or> ry observed \<noteq> ry desired
      then \<lparr>accepted = False, width_accepted = False, height_accepted = False\<rparr>
      else
        let w = (rw observed = rw desired
              \<or> axis_accepts_clamp (rw observed) (rw desired) (min_w hints) (max_w hints));
            h = (rh observed = rh desired
              \<or> axis_accepts_clamp (rh observed) (rh desired) (min_h hints) (max_h hints))
        in \<lparr>accepted = (w \<and> h), width_accepted = w, height_accepted = h\<rparr>)"

subsection \<open>Minimums\<close>

text \<open>One unit more from each entry above its floor, in order, while units remain.\<close>

fun spread_remainder :: "int \<Rightarrow> (int \<times> int \<times> int) list \<Rightarrow> int list \<times> int" where
  "spread_remainder remaining [] = ([], remaining)"
| "spread_remainder remaining ((sz, floor, tk) # es) =
     (if remaining = 0 then (tk # map (\<lambda>e. snd (snd e)) es, 0)
      else if floor < sz - tk
        then (let (ts, r) = spread_remainder (remaining - 1) es in ((tk + 1) # ts, r))
      else (let (ts, r) = spread_remainder remaining es in (tk # ts, r)))"

definition min_floors :: "int list \<Rightarrow> int list" where
  "min_floors mins = map (\<lambda>m. max m 1) mins"

definition deficit_of :: "(int \<times> int) list \<Rightarrow> int" where
  "deficit_of es = (\<Sum>(sz, floor)\<leftarrow>es. if sz < floor then floor - sz else 0)"

definition slack_of :: "(int \<times> int) list \<Rightarrow> int" where
  "slack_of es = (\<Sum>(sz, floor)\<leftarrow>es. if sz < floor then 0 else sz - floor)"

definition floor_takes :: "int \<Rightarrow> int \<Rightarrow> (int \<times> int) list \<Rightarrow> int list" where
  "floor_takes deficit slack_total es =
     map (\<lambda>(sz, floor).
       if floor < sz \<and> 0 < slack_total
       then min (rust_div (deficit * (sz - floor)) slack_total) (sz - floor) else 0) es"

definition enforce_minimums :: "int list \<Rightarrow> int list \<Rightarrow> bool \<times> int list" where
  "enforce_minimums sizes mins =
     (if length sizes \<noteq> length mins then (False, sizes)
      else
        let tot = sum_list sizes; floors = min_floors mins in
        if tot < sum_list floors then (False, sizes)
        else
          let es = zip sizes floors; deficit = deficit_of es; slack_total = slack_of es in
          if deficit = 0 then (True, sizes)
          else
            let takes = floor_takes deficit slack_total es;
                remaining = deficit - sum_list takes;
                (takes', remaining') = spread_remainder remaining
                  (map2 (\<lambda>(sz, floor) tk. (sz, floor, tk)) es takes)
            in if remaining' \<noteq> 0 then (False, sizes)
               else (True, map2 (\<lambda>(sz, floor) tk. if sz < floor then floor else sz - tk) es takes'))"

text \<open>
  The same routine in the \<open>i64\<close> arithmetic of the code, whose sums, differences and products are
  unchecked: \<open>None\<close> is an overflow. \<open>enforce_minimums\<close> above is its value where nothing overflows.
\<close>

fun sum_i64 :: "int \<Rightarrow> int list \<Rightarrow> int option" where
  "sum_i64 acc [] = Some acc"
| "sum_i64 acc (v # vs) = Option.bind (checked_add_i64 acc v) (\<lambda>acc'. sum_i64 acc' vs)"

fun deficit_slack_i64 :: "int \<Rightarrow> int \<Rightarrow> (int \<times> int) list \<Rightarrow> (int \<times> int) option" where
  "deficit_slack_i64 deficit slack [] = Some (deficit, slack)"
| "deficit_slack_i64 deficit slack ((sz, floor) # es) =
     (if sz < floor
      then Option.bind (checked_sub_i64 floor sz) (\<lambda>v.
        Option.bind (checked_add_i64 deficit v) (\<lambda>deficit'. deficit_slack_i64 deficit' slack es))
      else Option.bind (checked_sub_i64 sz floor) (\<lambda>v.
        Option.bind (checked_add_i64 slack v) (\<lambda>slack'. deficit_slack_i64 deficit slack' es)))"

fun takes_i64 :: "int \<Rightarrow> int \<Rightarrow> int \<Rightarrow> (int \<times> int) list \<Rightarrow> (int list \<times> int) option" where
  "takes_i64 deficit slack_total taken [] = Some ([], taken)"
| "takes_i64 deficit slack_total taken ((sz, floor) # es) =
     (if floor < sz \<and> 0 < slack_total
      then Option.bind (checked_sub_i64 sz floor) (\<lambda>slack.
        Option.bind (checked_mul_i64 deficit slack) (\<lambda>product.
          let tk = min (rust_div product slack_total) slack
          in Option.bind (checked_add_i64 taken tk) (\<lambda>taken'.
            map_option (\<lambda>(ts, r). (tk # ts, r)) (takes_i64 deficit slack_total taken' es))))
      else map_option (\<lambda>(ts, r). (0 # ts, r)) (takes_i64 deficit slack_total taken es))"

fun spread_i64 :: "int \<Rightarrow> (int \<times> int \<times> int) list \<Rightarrow> (int list \<times> int) option" where
  "spread_i64 remaining [] = Some ([], remaining)"
| "spread_i64 remaining ((sz, floor, tk) # es) =
     (if remaining = 0 then Some (tk # map (\<lambda>e. snd (snd e)) es, 0)
      else Option.bind (checked_sub_i64 sz tk) (\<lambda>rest.
        if floor < rest
        then Option.bind (checked_add_i64 tk 1) (\<lambda>tk'.
          Option.bind (checked_sub_i64 remaining 1) (\<lambda>remaining'.
            map_option (\<lambda>(ts, r). (tk' # ts, r)) (spread_i64 remaining' es)))
        else map_option (\<lambda>(ts, r). (tk # ts, r)) (spread_i64 remaining es)))"

fun settle_i64 :: "(int \<times> int) list \<Rightarrow> int list \<Rightarrow> int list option" where
  "settle_i64 ((sz, floor) # es) (tk # tks) =
     Option.bind (if sz < floor then Some floor else checked_sub_i64 sz tk) (\<lambda>v.
       map_option (\<lambda>vs. v # vs) (settle_i64 es tks))"
| "settle_i64 es tks = Some []"

definition enforce_minimums_i64 :: "int list \<Rightarrow> int list \<Rightarrow> (bool \<times> int list) option" where
  "enforce_minimums_i64 sizes mins =
     (if length sizes \<noteq> length mins then Some (False, sizes)
      else Option.bind (sum_i64 0 sizes) (\<lambda>tot.
        let floors = min_floors mins; es = zip sizes floors
        in Option.bind (sum_i64 0 floors) (\<lambda>floor_total.
          if tot < floor_total then Some (False, sizes)
          else Option.bind (deficit_slack_i64 0 0 es) (\<lambda>(deficit, slack_total).
            if deficit = 0 then Some (True, sizes)
            else Option.bind (takes_i64 deficit slack_total 0 es) (\<lambda>(takes, taken).
              Option.bind (checked_sub_i64 deficit taken) (\<lambda>remaining.
                Option.bind (spread_i64 remaining (map2 (\<lambda>(sz, floor) tk. (sz, floor, tk)) es takes)) (\<lambda>(takes', remaining').
                  if remaining' \<noteq> 0 then Some (False, sizes)
                  else map_option (\<lambda>out. (True, out)) (settle_i64 es takes'))))))))"

fun subtree_min :: "node \<Rightarrow> axis \<Rightarrow> int \<Rightarrow> (node_id \<Rightarrow> window_size_hints) \<Rightarrow> int" where
  "subtree_min (Leaf i) a gap resolve =
     (case min_for_axis (resolve i) a of None \<Rightarrow> 0 | Some v \<Rightarrow> v)"
| "subtree_min (Group i b cs sh) a gap resolve =
     (if b = a
      then saturating_add_i64 (foldl saturating_add_i64 0 (map (\<lambda>c. subtree_min c a gap resolve) cs))
        (saturating_mul_i64 gap (int (length cs - 1)))
      else (case map (\<lambda>c. subtree_min c a gap resolve) cs of [] \<Rightarrow> 0 | m # ms \<Rightarrow> foldl max m ms))"

subsection \<open>The hinted projector\<close>

definition violates_minimum :: "rect \<Rightarrow> window_size_hints \<Rightarrow> bool" where
  "violates_minimum r hints \<longleftrightarrow>
     (case meaningful (min_w hints) of Some v \<Rightarrow> rw r < v | None \<Rightarrow> False)
     \<or> (case meaningful (min_h hints) of Some v \<Rightarrow> rh r < v | None \<Rightarrow> False)"

record hinted_projection =
  hp_leaves :: "projected_leaf list"
  hp_overconstrained :: "node_id list"

text \<open>
  \<open>layout_hinted\<close> answers the pushed leaves, the pushed overconstrained identities and the seen set
  after them; \<open>layout_hinted_in\<close> is the loop over the zipped children and sizes. The division by
  the total needs a positive total, which the validation of \<open>project\<close> gives.
\<close>

fun layout_hinted ::
    "node \<Rightarrow> rect \<Rightarrow> int \<Rightarrow> (node_id \<Rightarrow> window_size_hints) \<Rightarrow> node_id set
      \<Rightarrow> projection_error + (projected_leaf list \<times> node_id list \<times> node_id set)"
  and layout_hinted_in ::
    "node list \<Rightarrow> int list \<Rightarrow> axis \<Rightarrow> rect \<Rightarrow> int \<Rightarrow> int \<Rightarrow> (node_id \<Rightarrow> window_size_hints) \<Rightarrow> node_id set
      \<Rightarrow> projection_error + (projected_leaf list \<times> node_id list \<times> node_id set)" where
  "layout_hinted (Leaf i) r gap resolve seen =
     (let over = violates_minimum r (resolve i) \<and> i \<notin> seen in
      Inr ([\<lparr>pleaf = i, prect = r\<rparr>], if over then [i] else [], if over then insert i seen else seen))"
| "layout_hinted (Group i a cs sh) r gap resolve seen =
     bind_r (ok_or ''group shares total overflows'' (checked_total 0 sh)) (\<lambda>tot.
       let n = int (length cs); extent = axis_extent a r in
       bind_r (ok_or ''gap budget overflows'' (checked_mul_i64 gap (n - 1))) (\<lambda>gaps_total.
         let avail = extent - gaps_total;
             sizes = proportional_base_sizes sh tot (avail - n) avail;
             mins = map (\<lambda>c. subtree_min c a gap resolve) cs;
             sizes' = snd (enforce_minimums sizes mins)
         in layout_hinted_in cs sizes' a r gap (axis_origin a r) resolve seen))"
| "layout_hinted_in [] sizes a r gap cursor resolve seen = Inr ([], [], seen)"
| "layout_hinted_in (c # cs) [] a r gap cursor resolve seen = Inr ([], [], seen)"
| "layout_hinted_in (c # cs) (sz # sizes) a r gap cursor resolve seen =
     bind_r (ok_or ''segment size overflows'' (try_i32 sz)) (\<lambda>size_i32.
     bind_r (ok_or ''segment offset overflows'' (try_i32 cursor)) (\<lambda>off.
     bind_r (layout_hinted c (child_rect a r off size_i32) gap resolve seen) (\<lambda>(here, over, seen').
       if cs = [] then Inr (here, over, seen')
       else bind_r (ok_or ''segment offset overflows''
              (Option.bind (checked_add_i64 cursor sz) (\<lambda>next. checked_add_i64 next gap)))
            (\<lambda>cursor'. bind_r (layout_hinted_in cs sizes a r gap cursor' resolve seen')
              (\<lambda>(rest, over', seen''). Inr (here @ rest, over @ over', seen''))))))"

definition project_with_hints ::
  "node \<Rightarrow> rect \<Rightarrow> int \<Rightarrow> (node_id \<Rightarrow> window_size_hints) \<Rightarrow> projection_error + hinted_projection" where
  "project_with_hints tree bounds gap resolve =
     bind_r (project tree bounds gap) (\<lambda>_.
     bind_r (layout_hinted tree bounds gap resolve {}) (\<lambda>(out, over, seen).
       Inr \<lparr>hp_leaves = out, hp_overconstrained = over\<rparr>))"

subsection \<open>Redistribution\<close>

text \<open>The rounding left over by the proportional takes is at most the number of rounded entries.\<close>

lemma rounding_sum:
  fixes d s :: int
  assumes "0 < s"
  shows "d * sum_list ws - s * (\<Sum>w\<leftarrow>ws. d * w div s) = (\<Sum>w\<leftarrow>ws. d * w mod s)"
    "(\<Sum>w\<leftarrow>ws. d * w mod s) \<le> (s - 1) * int (length (filter (\<lambda>w. d * w mod s \<noteq> 0) ws))"
    "0 \<le> (\<Sum>w\<leftarrow>ws. d * w mod s)"
proof (induction ws)
  case Nil
  case 1 show ?case by simp
  case 2 show ?case by simp
  case 3 show ?case by simp
next
  case (Cons w ws)
  have m: "d * w = s * (d * w div s) + d * w mod s" by simp
  have b: "0 \<le> d * w mod s" "d * w mod s \<le> s - 1" using assms pos_mod_bound [of s "d * w"] by simp_all
  { case 1 show ?case using Cons(1) m by (simp add: algebra_simps)
  next
    case 2 show ?case using Cons(2) b by (simp add: algebra_simps)
  next
    case 3 show ?case using Cons(3) b by simp
  }
qed

lemma rounding_left:
  fixes d s :: int
  assumes "0 < s" "sum_list ws = s"
  defines "r \<equiv> d - (\<Sum>w\<leftarrow>ws. d * w div s)"
  shows "0 \<le> r" "r \<le> int (length (filter (\<lambda>w. d * w mod s \<noteq> 0) ws))"
proof -
  let ?k = "int (length (filter (\<lambda>w. d * w mod s \<noteq> 0) ws))"
  have eq: "s * r = (\<Sum>w\<leftarrow>ws. d * w mod s)"
    using rounding_sum(1) [OF assms(1), of d ws] assms(2) by (simp add: r_def algebra_simps)
  with rounding_sum(3) [OF assms(1), of d ws] assms(1) show "0 \<le> r"
    by (metis mult_pos_neg not_le)
  have "s * r \<le> (s - 1) * ?k" using eq rounding_sum(2) [OF assms(1), of d ws] by simp
  also have "\<dots> \<le> s * ?k" by (simp add: algebra_simps)
  finally show "r \<le> ?k" using assms(1) by simp
qed

definition spread_step :: "int \<times> int \<times> int \<Rightarrow> int \<Rightarrow> bool" where
  "spread_step e t' = (case e of (sz, floor, tk) \<Rightarrow> t' = tk \<or> t' = tk + 1 \<and> floor < sz - tk)"

lemma spread_remainder_ok:
  "0 \<le> r \<Longrightarrow> r \<le> int (length (filter (\<lambda>(sz, floor, tk). floor < sz - tk) es)) \<Longrightarrow>
    \<exists>ts. spread_remainder r es = (ts, 0) \<and> list_all2 spread_step es ts
      \<and> sum_list ts = (\<Sum>(sz, floor, tk)\<leftarrow>es. tk) + r"
proof (induction es arbitrary: r)
  case Nil
  then show ?case by simp
next
  case (Cons e es)
  obtain sz floor tk where e: "e = (sz, floor, tk)" by (cases e)
  show ?case
  proof (cases "r = 0")
    case True
    have "list_all2 spread_step es (map (\<lambda>e. snd (snd e)) es)"
      by (auto simp: list_all2_conv_all_nth spread_step_def split: prod.splits)
    moreover have "spread_step e tk" by (simp add: spread_step_def e)
    moreover have "(\<Sum>e\<leftarrow>es. snd (snd e)) = (\<Sum>(sz, floor, tk)\<leftarrow>es. tk)"
      by (induction es) auto
    ultimately show ?thesis using True e by simp
  next
    case False
    show ?thesis
    proof (cases "floor < sz - tk")
      case True
      with Cons.prems False e Cons.IH [of "r - 1"] show ?thesis
        by (fastforce simp: spread_step_def)
    next
      case no: False
      with Cons.prems False e Cons.IH [of r] show ?thesis
        by (fastforce simp: spread_step_def)
    qed
  qed
qed

text \<open>The slack of an entry, and the takes as proportional shares of it.\<close>

definition entry_slack :: "int \<times> int \<Rightarrow> int" where
  "entry_slack e = (case e of (sz, floor) \<Rightarrow> if sz < floor then 0 else sz - floor)"

lemma entry_slack_nonneg: "0 \<le> entry_slack e"
  by (auto simp: entry_slack_def split: prod.splits)

lemma slack_of_eq: "slack_of es = sum_list (map entry_slack es)"
  by (induction es) (auto simp: slack_of_def entry_slack_def)

lemma deficit_slack: "deficit_of es - slack_of es = (\<Sum>(sz, floor)\<leftarrow>es. floor - sz)"
  by (induction es) (auto simp: deficit_of_def slack_of_def)

lemma deficit_nonneg: "0 \<le> deficit_of es"
  by (induction es) (auto simp: deficit_of_def)

lemma floor_takes_eq:
  assumes "0 \<le> d" "d \<le> s" "0 < s"
  shows "floor_takes d s es = map (\<lambda>e. d * entry_slack e div s) es"
proof -
  have "min (rust_div (d * w) s) w = d * w div s" if "0 < w" for w
  proof -
    have "d * w div s \<le> s * w div s"
      using assms that by (intro zdiv_mono1 mult_right_mono) auto
    then show ?thesis using assms that by (simp add: rust_div_nonneg)
  qed
  then show ?thesis using assms(3) by (auto simp: floor_takes_def entry_slack_def)
qed

lemma take_room:
  fixes d s w :: int
  assumes "0 < s" "d \<le> s" "0 \<le> w" "d * w mod s \<noteq> 0"
  shows "d * w div s < w"
proof -
  have "s * (d * w div s) < d * w"
    using assms(1,4) mult_div_mod_eq [of s "d * w"] pos_mod_sign [of s "d * w"] by linarith
  also have "\<dots> \<le> s * w" using assms by (intro mult_right_mono) auto
  finally show ?thesis using assms(1) by simp
qed

lemma length_filter_mono:
  "(\<And>x. x \<in> set xs \<Longrightarrow> P x \<Longrightarrow> Q x) \<Longrightarrow> length (filter P xs) \<le> length (filter Q xs)"
  by (induction xs) (auto simp: le_SucI)

text \<open>An entry after its take.\<close>

definition taken_entry :: "int \<times> int \<Rightarrow> int \<Rightarrow> int" where
  "taken_entry e tk = (case e of (sz, floor) \<Rightarrow> if sz < floor then floor else sz - tk)"

definition take_ok :: "int \<times> int \<Rightarrow> int \<Rightarrow> bool" where
  "take_ok e tk \<longleftrightarrow> 0 \<le> tk \<and> tk \<le> entry_slack e"

lemma taken_sum:
  "list_all2 take_ok es ts \<Longrightarrow>
    sum_list (map2 taken_entry es ts) = (\<Sum>e\<leftarrow>es. fst e) - sum_list ts + deficit_of es"
proof (induction es ts rule: list_all2_induct)
  case Nil
  then show ?case by (simp add: deficit_of_def)
next
  case (Cons e es tk ts)
  then show ?case
    by (cases e) (auto simp: taken_entry_def take_ok_def entry_slack_def deficit_of_def)
qed

lemma map2_map_same: "map2 f xs (map g xs) = map (\<lambda>x. f x (g x)) xs"
  by (induction xs) auto

lemma takes_below:
  assumes "deficit_of es \<le> slack_of es" "0 < deficit_of es"
  shows "sum_list (floor_takes (deficit_of es) (slack_of es) es) \<le> deficit_of es"
proof -
  have s: "0 < slack_of es" using assms by simp
  have "floor_takes (deficit_of es) (slack_of es) es = map (\<lambda>e. deficit_of es * entry_slack e div slack_of es) es"
    using floor_takes_eq [of "deficit_of es" "slack_of es" es] assms s by simp
  with rounding_left(1) [OF s, of "map entry_slack es" "deficit_of es"] show ?thesis
    by (simp add: slack_of_eq comp_def)
qed

lemma spread_takes:
  assumes "deficit_of es \<le> slack_of es" "0 < deficit_of es"
  defines "takes \<equiv> floor_takes (deficit_of es) (slack_of es) es"
  shows "\<exists>ts. spread_remainder (deficit_of es - sum_list takes)
      (map2 (\<lambda>(sz, floor) tk. (sz, floor, tk)) es takes) = (ts, 0)
    \<and> list_all2 take_ok es ts \<and> sum_list ts = deficit_of es"
proof -
  let ?d = "deficit_of es" and ?s = "slack_of es"
  let ?tk = "\<lambda>e. ?d * entry_slack e div ?s"
  let ?ws = "map entry_slack es"
  let ?es = "map (\<lambda>(sz, floor). (sz, floor, ?tk (sz, floor))) es"
  have s: "0 < ?s" using assms(1,2) by simp
  have takes: "takes = map ?tk es"
    using floor_takes_eq [of ?d ?s es] assms(1,2) s by (simp add: takes_def)
  have zip: "map2 (\<lambda>(sz, floor) tk. (sz, floor, tk)) es takes = ?es"
    unfolding takes map2_map_same by (rule map_cong) (auto split: prod.splits)
  have sum: "sum_list takes = (\<Sum>w\<leftarrow>?ws. ?d * w div ?s)" unfolding takes by (simp add: comp_def)
  note left = rounding_left [OF s, of ?ws ?d, folded slack_of_eq, OF refl, folded sum]
  have room: "?tk e < entry_slack e" if "?d * entry_slack e mod ?s \<noteq> 0" for e
    using take_room [OF s assms(1) entry_slack_nonneg that] .
  have "length (filter (\<lambda>w. ?d * w mod ?s \<noteq> 0) ?ws)
      \<le> length (filter (\<lambda>(sz, floor, tk). floor < sz - tk) ?es)"
    unfolding filter_map length_map
    by (rule length_filter_mono) (use room in \<open>force simp: entry_slack_def split: if_splits\<close>)
  with left have "?d - sum_list takes
      \<le> int (length (filter (\<lambda>(sz, floor, tk). floor < sz - tk) ?es))" by simp
  from spread_remainder_ok [OF left(1) this] obtain ts where ts:
    "spread_remainder (?d - sum_list takes) ?es = (ts, 0)" "list_all2 spread_step ?es ts"
    "sum_list ts = (\<Sum>(sz, floor, tk)\<leftarrow>?es. tk) + (?d - sum_list takes)" by blast
  have "(\<Sum>(sz, floor, tk)\<leftarrow>?es. tk) = sum_list takes"
    unfolding takes by (simp add: comp_def case_prod_unfold)
  moreover have "list_all2 take_ok es ts"
  proof -
    have "take_ok e t'" if "spread_step (fst e, snd e, ?tk e) t'" for e t'
    proof -
      have "0 \<le> ?tk e" using s assms(2) entry_slack_nonneg [of e] by (simp add: pos_imp_zdiv_nonneg_iff)
      moreover have "?tk e \<le> entry_slack e"
      proof -
        have "?tk e \<le> ?s * entry_slack e div ?s"
          using s assms(1) entry_slack_nonneg [of e] by (intro zdiv_mono1 mult_right_mono) auto
        then show ?thesis using s by simp
      qed
      ultimately show ?thesis
        using that by (cases e) (auto simp: spread_step_def take_ok_def entry_slack_def split: if_splits)
    qed
    moreover have "list_all2 (\<lambda>e. spread_step (fst e, snd e, ?tk e)) es ts"
      using ts(2) by (simp add: list_all2_map1 case_prod_unfold)
    ultimately show ?thesis by (blast intro: list_all2_mono)
  qed
  ultimately show ?thesis using ts zip by auto
qed

definition minimums_feasible :: "int list \<Rightarrow> int list \<Rightarrow> bool" where
  "minimums_feasible sizes mins \<longleftrightarrow>
     length sizes = length mins \<and> sum_list (min_floors mins) \<le> sum_list sizes"

text \<open>What a redistribution promises: the total, every floor, and only the needed changes.\<close>

definition redistributed :: "int list \<Rightarrow> int list \<Rightarrow> int list \<Rightarrow> bool" where
  "redistributed sizes floors out \<longleftrightarrow>
     length out = length sizes \<and> sum_list out = sum_list sizes
     \<and> (\<forall>i < length sizes. floors ! i \<le> out ! i
         \<and> (if sizes ! i < floors ! i then out ! i = floors ! i else out ! i \<le> sizes ! i))"

lemma min_floors_length [simp]: "length (min_floors mins) = length mins"
  by (simp add: min_floors_def)

lemma sum_zip: "length xs = length ys \<Longrightarrow> (\<Sum>(sz, floor)\<leftarrow>zip xs ys. floor - sz) = sum_list ys - sum_list (xs :: int list)"
  by (induction xs ys rule: list_induct2) auto

lemma sum_fst_zip: "length xs = length ys \<Longrightarrow> (\<Sum>e\<leftarrow>zip xs ys. fst e) = sum_list xs"
  by (induction xs ys rule: list_induct2) auto

lemma taken_redistributed:
  assumes "length floors = length sizes" "list_all2 take_ok (zip sizes floors) ts"
    "sum_list ts = deficit_of (zip sizes floors)"
  shows "redistributed sizes floors (map2 taken_entry (zip sizes floors) ts)"
proof -
  have len: "length ts = length sizes" using assms(1) list_all2_lengthD [OF assms(2)] by simp
  have entry: "floors ! i \<le> taken_entry (sizes ! i, floors ! i) (ts ! i)
      \<and> (if sizes ! i < floors ! i then taken_entry (sizes ! i, floors ! i) (ts ! i) = floors ! i
         else taken_entry (sizes ! i, floors ! i) (ts ! i) \<le> sizes ! i)" if "i < length sizes" for i
    using list_all2_nthD [OF assms(2), of i] that assms(1)
    by (auto simp: taken_entry_def take_ok_def entry_slack_def split: if_splits)
  show ?thesis
    unfolding redistributed_def
    using assms(1) len taken_sum [OF assms(2)] assms(3) sum_fst_zip [of sizes floors] entry
    by simp
qed

lemma no_deficit: "deficit_of es = 0 \<Longrightarrow> (sz, floor) \<in> set es \<Longrightarrow> floor \<le> sz"
proof (induction es)
  case Nil
  then show ?case by simp
next
  case (Cons e es)
  then show ?case
    using deficit_nonneg [of es] by (cases e) (auto simp: deficit_of_def split: if_splits)
qed

lemma enforce_minimums_eq:
  "fst (enforce_minimums sizes mins) = minimums_feasible sizes mins"
  "\<not> minimums_feasible sizes mins \<Longrightarrow> snd (enforce_minimums sizes mins) = sizes"
  "minimums_feasible sizes mins \<Longrightarrow>
    redistributed sizes (min_floors mins) (snd (enforce_minimums sizes mins))"
proof -
  let ?es = "zip sizes (min_floors mins)"
  have main: "(fst (enforce_minimums sizes mins) = minimums_feasible sizes mins)
    \<and> (\<not> minimums_feasible sizes mins \<longrightarrow> snd (enforce_minimums sizes mins) = sizes)
    \<and> (minimums_feasible sizes mins \<longrightarrow>
        redistributed sizes (min_floors mins) (snd (enforce_minimums sizes mins)))"
  proof (cases "minimums_feasible sizes mins")
    case False
    then show ?thesis by (auto simp: enforce_minimums_def minimums_feasible_def)
  next
    case True
    then have len: "length (min_floors mins) = length sizes"
      and le: "sum_list (min_floors mins) \<le> sum_list sizes" by (auto simp: minimums_feasible_def)
    have ds: "deficit_of ?es \<le> slack_of ?es"
      using deficit_slack [of ?es] sum_zip [of sizes "min_floors mins"] len le by simp
    show ?thesis
    proof (cases "deficit_of ?es = 0")
      case True
      have "min_floors mins ! i \<le> sizes ! i" if "i < length sizes" for i
        using no_deficit [OF True, of "sizes ! i" "min_floors mins ! i"] that len
        by (auto simp: in_set_zip)
      then have "redistributed sizes (min_floors mins) sizes" by (force simp: redistributed_def)
      with True len le show ?thesis
        by (simp add: enforce_minimums_def Let_def \<open>minimums_feasible sizes mins\<close>)
    next
      case False
      then have pos: "0 < deficit_of ?es" using deficit_nonneg [of ?es] by simp
      from spread_takes [OF ds pos] obtain ts where ts:
        "spread_remainder (deficit_of ?es - sum_list (floor_takes (deficit_of ?es) (slack_of ?es) ?es))
          (map2 (\<lambda>(sz, floor) tk. (sz, floor, tk)) ?es
            (floor_takes (deficit_of ?es) (slack_of ?es) ?es)) = (ts, 0)"
        "list_all2 take_ok ?es ts" "sum_list ts = deficit_of ?es" by blast
      have "map2 taken_entry ?es ts
          = map2 (\<lambda>(sz, floor) tk. if sz < floor then floor else sz - tk) ?es ts"
        by (rule map_cong) (auto simp: taken_entry_def split: prod.splits)
      with taken_redistributed [OF len ts(2,3)] False len le ts(1) show ?thesis
        by (simp add: enforce_minimums_def Let_def \<open>minimums_feasible sizes mins\<close>)
    qed
  qed
  from main show "fst (enforce_minimums sizes mins) = minimums_feasible sizes mins" by simp
  from main show "\<not> minimums_feasible sizes mins \<Longrightarrow> snd (enforce_minimums sizes mins) = sizes" by simp
  from main show "minimums_feasible sizes mins \<Longrightarrow>
    redistributed sizes (min_floors mins) (snd (enforce_minimums sizes mins))" by simp
qed

subsection \<open>No overflow\<close>

lemma sum_i64_eq:
  "0 \<le> acc \<Longrightarrow> \<forall>v \<in> set vs. 0 \<le> v \<Longrightarrow> acc + sum_list vs \<le> 9223372036854775807 \<Longrightarrow> sum_i64 acc vs = Some (acc + sum_list vs)"
proof (induction vs arbitrary: acc)
  case (Cons v vs)
  have "0 \<le> sum_list vs" using Cons.prems(2) by (simp add: sum_list_nonneg)
  with Cons show ?case by (simp add: range_defs)
qed simp

text \<open>Entries of at most 31 bits.\<close>

abbreviation small_entries :: "(int \<times> int) list \<Rightarrow> bool" where
  "small_entries es \<equiv> \<forall>(sz, floor) \<in> set es. 0 \<le> sz \<and> sz \<le> 2147483647 \<and> 0 \<le> floor \<and> floor \<le> 2147483647"

lemma deficit_slack_nonneg: "0 \<le> slack_of es"
  unfolding slack_of_eq by (rule sum_list_nonneg) (auto simp: entry_slack_nonneg)

lemma deficit_slack_i64_eq:
  "small_entries es \<Longrightarrow> 0 \<le> d \<Longrightarrow> 0 \<le> s \<Longrightarrow> d + deficit_of es \<le> 9223372036854775807 \<Longrightarrow> s + slack_of es \<le> 9223372036854775807
    \<Longrightarrow> deficit_slack_i64 d s es = Some (d + deficit_of es, s + slack_of es)"
proof (induction es arbitrary: d s)
  case Nil
  then show ?case by (simp add: deficit_of_def slack_of_def)
next
  case (Cons e es)
  obtain sz floor where e: "e = (sz, floor)" by (cases e)
  have cons: "deficit_of (e # es) = (if sz < floor then floor - sz else 0) + deficit_of es"
    "slack_of (e # es) = (if sz < floor then 0 else sz - floor) + slack_of es"
    by (simp_all add: e deficit_of_def slack_of_def)
  have pos: "0 \<le> deficit_of es" "0 \<le> slack_of es" by (rule deficit_nonneg deficit_slack_nonneg)+
  have b: "0 \<le> sz" "sz \<le> 2147483647" "0 \<le> floor" "floor \<le> 2147483647" "small_entries es"
    using Cons.prems(1) by (auto simp: e)
  show ?case
  proof (cases "sz < floor")
    case True
    then have "d + (floor - sz) + deficit_of es \<le> 9223372036854775807" "s + slack_of es \<le> 9223372036854775807"
      using Cons.prems(4,5) unfolding cons by simp_all
    with Cons.IH [of "d + (floor - sz)" s] True b pos Cons.prems(2,3) show ?thesis
      unfolding cons by (simp add: e range_defs)
  next
    case False
    then have "d + deficit_of es \<le> 9223372036854775807" "s + (sz - floor) + slack_of es \<le> 9223372036854775807"
      using Cons.prems(4,5) unfolding cons by simp_all
    with Cons.IH [of d "s + (sz - floor)"] False b pos Cons.prems(2,3) show ?thesis
      unfolding cons by (simp add: e range_defs)
  qed
qed

lemma takes_i64_eq:
  "small_entries es \<Longrightarrow> 0 \<le> d \<Longrightarrow> d \<le> 2147483647 \<Longrightarrow> 0 \<le> taken \<Longrightarrow> taken + slack_of es \<le> 9223372036854775807
    \<Longrightarrow> takes_i64 d s taken es = Some (floor_takes d s es, taken + sum_list (floor_takes d s es))"
proof (induction es arbitrary: taken)
  case Nil
  then show ?case by (simp add: floor_takes_def)
next
  case (Cons e es)
  obtain sz floor where e: "e = (sz, floor)" by (cases e)
  have slack: "slack_of (e # es) = (if sz < floor then 0 else sz - floor) + slack_of es" by (simp add: e slack_of_def)
  have takes: "floor_takes d s (e # es) =
      (if floor < sz \<and> 0 < s then min (rust_div (d * (sz - floor)) s) (sz - floor) else 0) # floor_takes d s es"
    by (simp add: e floor_takes_def)
  show ?case
  proof (cases "floor < sz \<and> 0 < s")
    case True
    let ?w = "sz - floor" and ?t = "min (rust_div (d * (sz - floor)) s) (sz - floor)"
    have w: "0 \<le> ?w" "?w \<le> 2147483647" using Cons.prems(1) True by (auto simp: e)
    have "d * ?w \<le> 2147483647 * 2147483647" using mult_mono [OF Cons.prems(3) w(2)] Cons.prems(2) w(1) by simp
    moreover have "0 \<le> d * ?w" using Cons.prems(2) w(1) by (rule mult_nonneg_nonneg)
    ultimately have product: "in_i64 (d * ?w)" "0 \<le> d * ?w" by (simp_all add: in_i64_def)
    have t: "0 \<le> ?t" "?t \<le> ?w" using product(2) True w(1) by (simp_all add: rust_div_nonneg pos_imp_zdiv_nonneg_iff)
    have "0 \<le> slack_of es" by (rule deficit_slack_nonneg)
    then have "in_i64 (taken + ?t)" "in_i64 ?w" "0 \<le> taken + ?t" "taken + ?t + slack_of es \<le> 9223372036854775807"
      using t w Cons.prems(4,5) True unfolding slack by (auto simp: in_i64_def)
    moreover note Cons.IH [of "taken + ?t"]
    ultimately show ?thesis
      using True Cons.prems(1-3) product(1) unfolding takes
      by (simp add: e checked_sub_i64_def checked_mul_i64_def checked_add_i64_def try_i64_def Let_def)
  next
    case False
    have "0 \<le> slack_of es" by (rule deficit_slack_nonneg)
    then have "taken + slack_of es \<le> 9223372036854775807"
      using Cons.prems(5) unfolding slack by (auto split: if_splits)
    with Cons.IH [of taken] Cons.prems False show ?thesis unfolding takes by (auto simp: e)
  qed
qed

lemma spread_i64_eq:
  "\<forall>(sz, floor, tk) \<in> set es. 0 \<le> tk \<and> tk \<le> 2147483647 \<and> 0 \<le> sz \<and> sz \<le> 2147483647 \<Longrightarrow> 0 \<le> r \<Longrightarrow> r \<le> 2147483647
    \<Longrightarrow> spread_i64 r es = Some (spread_remainder r es)"
proof (induction es arbitrary: r)
  case (Cons e es)
  obtain sz floor tk where e: "e = (sz, floor, tk)" by (cases e)
  show ?case
    using Cons.IH [of r] Cons.IH [of "r - 1"] Cons.prems
    by (auto simp: e range_defs Let_def split: prod.split)
qed simp

lemma settle_i64_eq:
  "list_all2 (\<lambda>e tk. case e of (sz, floor) \<Rightarrow> floor \<le> sz \<longrightarrow> in_i64 (sz - tk)) es tks
    \<Longrightarrow> settle_i64 es tks = Some (map2 (\<lambda>(sz, floor) tk. if sz < floor then floor else sz - tk) es tks)"
  by (induction es tks rule: list_all2_induct) (auto simp: checked_sub_i64_def try_i64_def)

lemma sum_member: "\<forall>v \<in> set vs. 0 \<le> v \<Longrightarrow> v \<in> set vs \<Longrightarrow> v \<le> sum_list (vs :: int list)"
  by (induction vs) (auto simp: sum_list_nonneg add_increasing2)

lemma floors_pos: "v \<in> set (min_floors mins) \<Longrightarrow> 1 \<le> v"
  by (auto simp: min_floors_def)

text \<open>Non-negative sizes of a 31-bit total and floors whose sum is representable: nothing overflows.\<close>

lemma enforce_minimums_i64_eq:
  assumes pos: "\<forall>v \<in> set sizes. 0 \<le> v" and small: "sum_list sizes \<le> 2147483647"
    and floors: "sum_list (min_floors mins) \<le> 9223372036854775807"
  shows "enforce_minimums_i64 sizes mins = Some (enforce_minimums sizes mins)"
proof (cases "length sizes = length mins \<and> sum_list (min_floors mins) \<le> sum_list sizes")
  case False
  have "\<forall>v \<in> set (min_floors mins). 0 \<le> v" using floors_pos by fastforce
  with sum_i64_eq [of 0 sizes] sum_i64_eq [of 0 "min_floors mins"] pos small floors False show ?thesis
    by (auto simp: enforce_minimums_i64_def enforce_minimums_def Let_def)
next
  case True
  let ?fs = "min_floors mins" let ?es = "zip sizes ?fs"
  let ?d = "deficit_of ?es" and ?s = "slack_of ?es"
  have fs: "\<forall>v \<in> set ?fs. 0 \<le> v" using floors_pos by fastforce
  have sums: "sum_i64 0 sizes = Some (sum_list sizes)" "sum_i64 0 ?fs = Some (sum_list ?fs)"
    using sum_i64_eq [of 0 sizes] sum_i64_eq [of 0 ?fs] pos small floors fs by simp_all
  have es: "small_entries ?es"
  proof -
    have "0 \<le> sz \<and> sz \<le> 2147483647 \<and> 0 \<le> floor \<and> floor \<le> 2147483647" if "(sz, floor) \<in> set ?es" for sz floor
    proof -
      have "sz \<in> set sizes" "floor \<in> set ?fs" using that by (blast dest: set_zip_leftD set_zip_rightD)+
      with pos fs sum_member [OF pos] sum_member [OF fs] small True show ?thesis by fastforce
    qed
    then show ?thesis by auto
  qed
  have "?s \<le> sum_list sizes"
  proof -
    have "entry_slack e \<le> fst e" if "e \<in> set ?es" for e
      using es that by (auto simp: entry_slack_def split: prod.splits)
    then have "sum_list (map entry_slack ?es) \<le> sum_list (map fst ?es)" by (intro sum_list_mono) simp
    then show ?thesis using True by (simp add: slack_of_eq)
  qed
  moreover have ds: "?d \<le> ?s" using deficit_slack [of ?es] sum_zip [of sizes ?fs] True by simp
  ultimately have d: "0 \<le> ?d" "?d \<le> 2147483647" "?s \<le> 2147483647" using deficit_nonneg [of ?es] small by simp_all
  have deficit: "deficit_slack_i64 0 0 ?es = Some (?d, ?s)" using deficit_slack_i64_eq [OF es, of 0 0] d by simp
  show ?thesis
  proof (cases "?d = 0")
    case True
    with \<open>length sizes = length mins \<and> sum_list ?fs \<le> sum_list sizes\<close> show ?thesis
      by (simp add: enforce_minimums_i64_def enforce_minimums_def sums deficit Let_def)
  next
    case False
    let ?ts = "floor_takes ?d ?s ?es"
    let ?in = "map2 (\<lambda>(sz, floor) tk. (sz, floor, tk)) ?es ?ts"
    have takes: "takes_i64 ?d ?s 0 ?es = Some (?ts, sum_list ?ts)" using takes_i64_eq [OF es d(1,2), of 0 ?s] d by simp
    have eq: "?ts = map (\<lambda>e. ?d * entry_slack e div ?s) ?es" using floor_takes_eq [of ?d ?s ?es] d ds False by simp
    have each: "0 \<le> ?d * entry_slack e div ?s \<and> ?d * entry_slack e div ?s \<le> entry_slack e" for e
    proof -
      have "?d * entry_slack e div ?s \<le> ?s * entry_slack e div ?s"
        using d ds False entry_slack_nonneg [of e] by (intro zdiv_mono1 mult_right_mono) auto
      then show ?thesis using d ds False entry_slack_nonneg [of e] by (simp add: pos_imp_zdiv_nonneg_iff)
    qed
    have below: "sum_list ?ts \<le> ?d" using takes_below [OF ds] False d(1) by simp
    have "0 \<le> sum_list ?ts" unfolding eq by (rule sum_list_nonneg) (use each in auto)
    from spread_takes [OF ds] False d(1) obtain ts where ts: "spread_remainder (?d - sum_list ?ts) ?in = (ts, 0)"
      "list_all2 take_ok ?es ts" by force
    have rem: "in_i64 (?d - sum_list ?ts)" "?d - sum_list ?ts \<le> 2147483647"
      using d \<open>0 \<le> sum_list ?ts\<close> below by (simp_all add: in_i64_def)
    have nonneg: "0 \<le> ?d - sum_list ?ts" using below by simp
    have "\<forall>(sz, floor, tk) \<in> set ?in. 0 \<le> tk \<and> tk \<le> 2147483647 \<and> 0 \<le> sz \<and> sz \<le> 2147483647"
    proof -
      have "0 \<le> tk \<and> tk \<le> 2147483647" if "tk \<in> set ?ts" for tk
      proof -
        from that have "tk \<in> (\<lambda>e. ?d * entry_slack e div ?s) ` set ?es" unfolding eq set_map .
        then obtain e where e: "e \<in> set ?es" "tk = ?d * entry_slack e div ?s" by (rule imageE) simp
        moreover have "entry_slack e \<le> 2147483647" using es e(1) by (auto simp: entry_slack_def split: prod.splits)
        ultimately show ?thesis using each [of e] by simp
      qed
      then show ?thesis using es by (fastforce dest: set_zip_leftD set_zip_rightD)
    qed
    from spread_i64_eq [OF this nonneg rem(2)] ts(1) have spread: "spread_i64 (?d - sum_list ?ts) ?in = Some (ts, 0)" by simp
    have "list_all2 (\<lambda>e tk. case e of (sz, floor) \<Rightarrow> floor \<le> sz \<longrightarrow> in_i64 (sz - tk)) ?es ts"
    proof (rule list_all2_all_nthI)
      show "length ?es = length ts" by (rule list_all2_lengthD [OF ts(2)])
      fix i
      assume i: "i < length ?es"
      then have "?es ! i \<in> set ?es" by (rule nth_mem)
      then show "case ?es ! i of (sz, floor) \<Rightarrow> floor \<le> sz \<longrightarrow> in_i64 (sz - ts ! i)"
        using list_all2_nthD [OF ts(2) i] es by (fastforce simp: take_ok_def entry_slack_def in_i64_def split: prod.splits if_splits)
    qed
    from settle_i64_eq [OF this] show ?thesis
      using True False
      by (simp add: enforce_minimums_i64_def enforce_minimums_def sums deficit takes spread ts(1) Let_def
          checked_sub_i64_def try_i64_def rem(1))
  qed
qed

text \<open>So it is for the sizes of the projector, which share an extent of at most 31 bits.\<close>

lemma projector_minimums_fit:
  assumes "group_ok cs sh" "int (length sh) \<le> avail" "avail \<le> 2147483647"
    and "sum_list (min_floors mins) \<le> 9223372036854775807"
  defines "sizes \<equiv> proportional_base_sizes sh (sum_list sh) (avail - int (length sh)) avail"
  shows "enforce_minimums_i64 sizes mins = Some (enforce_minimums sizes mins)"
proof (rule enforce_minimums_i64_eq)
  have "in_i64 avail" using assms(2,3) by (auto simp: in_i64_def)
  from base_sizes_pos [OF assms(1,2) this] show "\<forall>v \<in> set sizes. 0 \<le> v" unfolding sizes_def by force
  have "sh \<noteq> []" using assms(1) by (auto simp: group_ok_def)
  then show "sum_list sizes \<le> 2147483647" using assms(3) by (simp add: sizes_def base_sizes_sum)
qed (rule assms(4))

lemma enforce_satisfied:
  assumes "list_all2 (\<lambda>m sz. m \<le> sz \<and> 1 \<le> sz) mins sizes"
  shows "enforce_minimums sizes mins = (True, sizes)"
proof -
  have "sum_list (min_floors mins) \<le> sum_list sizes \<and> deficit_of (zip sizes (min_floors mins)) = 0"
    using assms
    by (induction mins sizes rule: list_all2_induct) (auto simp: min_floors_def deficit_of_def)
  then show ?thesis
    using list_all2_lengthD [OF assms] by (simp add: enforce_minimums_def Let_def)
qed

subsection \<open>Projection without minimums\<close>

definition unhinted :: "(node_id \<Rightarrow> window_size_hints) \<Rightarrow> bool" where
  "unhinted resolve \<longleftrightarrow> (\<forall>i. meaningful (min_w (resolve i)) = None \<and> meaningful (min_h (resolve i)) = None)"

lemma unhinted_axis: "unhinted resolve \<Longrightarrow> min_for_axis (resolve i) a = None"
  by (cases a) (auto simp: unhinted_def)

lemma unhinted_violates: "unhinted resolve \<Longrightarrow> \<not> violates_minimum r (resolve i)"
  by (auto simp: unhinted_def violates_minimum_def)

lemma foldl_saturating:
  "0 \<le> acc \<Longrightarrow> \<forall>m \<in> set ms. 0 \<le> m \<Longrightarrow> acc + sum_list ms \<le> i64_max \<Longrightarrow>
    foldl saturating_add_i64 acc ms = acc + sum_list ms"
proof (induction ms arbitrary: acc)
  case Nil
  then show ?case by simp
next
  case (Cons m ms)
  have "0 \<le> sum_list ms" using Cons.prems(2) by (intro sum_list_nonneg) auto
  then have "saturating_add_i64 acc m = acc + m"
    using Cons.prems by (auto simp: saturating_add_i64_def saturating_i64_def)
  with Cons show ?case by simp
qed

text \<open>Every child of a laid-out group was laid out in a segment of its size.\<close>

definition laid_child :: "axis \<Rightarrow> rect \<Rightarrow> int \<Rightarrow> node \<Rightarrow> int \<Rightarrow> bool" where
  "laid_child a r gap c sz \<longleftrightarrow> in_i32 sz
     \<and> (\<exists>off out. in_i32 off \<and> layout_into c (child_rect a r off sz) gap = Inr out)"

lemma layout_children_laid:
  "layout_children cs sizes a r gap cursor = Inr out \<Longrightarrow> length sizes = length cs \<Longrightarrow>
    list_all2 (laid_child a r gap) cs sizes"
proof (induction cs arbitrary: sizes cursor out)
  case Nil
  then show ?case by simp
next
  case (Cons c cs)
  then obtain s ss where s: "sizes = s # ss" by (cases sizes) auto
  from Cons.prems(1) [unfolded s] show ?case
  proof (rule layout_children_Cons_Inr)
    fix here rest
    assume "in_i32 s" "in_i32 cursor" "layout_into c (child_rect a r cursor s) gap = Inr here"
      and more: "cs \<noteq> [] \<longrightarrow> layout_children cs ss a r gap (cursor + s + gap) = Inr rest"
    moreover have "list_all2 (laid_child a r gap) cs ss"
      using Cons.IH [of ss] more Cons.prems(2) s by (cases "cs = []") auto
    moreover from calculation(1-3) have "laid_child a r gap c s" by (auto simp: laid_child_def)
    ultimately show ?thesis using s by simp
  qed
qed

lemma foldl_max_le: "m \<le> b \<Longrightarrow> \<forall>x \<in> set ms. x \<le> b \<Longrightarrow> foldl max m ms \<le> (b :: int)"
  by (induction ms arbitrary: m) auto

lemma foldl_max_ge: "a \<le> m \<Longrightarrow> a \<le> foldl max m (ms :: int list)"
  by (induction ms arbitrary: m) auto

lemma axis_extent_child: "axis_extent a (child_rect b r off sz) = (if a = b then sz else axis_extent a r)"
  by (cases a; cases b) auto

lemma list_all2_sum_le: "list_all2 (\<lambda>m sz. m \<le> sz) ms ss \<Longrightarrow> sum_list ms \<le> (sum_list ss :: int)"
  by (induction ms ss rule: list_all2_induct) auto

lemma axis_extent_pos: "rect_pos r \<Longrightarrow> 0 < axis_extent a r"
  by (cases a) (auto simp: rect_pos_def)

text \<open>Without hints the minimum of a laid-out subtree, its gaps only, fits the extent it got.\<close>

lemma subtree_min_fits:
  assumes "unhinted resolve" "0 \<le> gap"
  shows "layout_into t r gap = Inr out \<Longrightarrow> wf_groups t \<Longrightarrow> rect_pos r \<Longrightarrow> rect_i32 r \<Longrightarrow>
    0 \<le> subtree_min t a gap resolve \<and> subtree_min t a gap resolve \<le> axis_extent a r"
proof (induction t arbitrary: r out)
  case (Leaf i)
  then show ?case using axis_extent_pos [of r a] unhinted_axis [OF assms(1)] by simp
next
  case (Group i b cs sh)
  have ok: "group_ok cs sh" using Group.prems(2) by simp
  then have n: "2 \<le> length cs" by (simp add: group_ok_def)
  from layout_into_Group_Inr [OF Group.prems(1) ok Group.prems(4) assms(2)]
  obtain sizes where sizes: "layout_children cs sizes b r gap (axis_origin b r) = Inr out"
      "length sizes = length cs" "\<forall>v \<in> set sizes. 1 \<le> v" "span_of gap sizes = axis_extent b r" .
  let ?ms = "map (\<lambda>c. subtree_min c a gap resolve) cs"
  have "list_all2 (\<lambda>c sz. 0 \<le> subtree_min c a gap resolve
      \<and> subtree_min c a gap resolve \<le> (if a = b then sz else axis_extent a r)) cs sizes"
  proof (rule list.rel_mono_strong [OF layout_children_laid [OF sizes(1,2)]])
    fix c sz
    assume "c \<in> set cs" "sz \<in> set sizes" "laid_child b r gap c sz"
    then obtain off out' where l: "in_i32 sz" "in_i32 off"
        "layout_into c (child_rect b r off sz) gap = Inr out'" by (auto simp: laid_child_def)
    have "rect_pos (child_rect b r off sz)"
      using sizes(3) \<open>sz \<in> set sizes\<close> Group.prems(3) by (intro child_rect_pos) auto
    moreover have "rect_i32 (child_rect b r off sz)"
      using rect_i32_child [OF Group.prems(4) l(2,1)] .
    moreover have "wf_groups c" using Group.prems(2) \<open>c \<in> set cs\<close> by simp
    ultimately show "0 \<le> subtree_min c a gap resolve
        \<and> subtree_min c a gap resolve \<le> (if a = b then sz else axis_extent a r)"
      using Group.IH [OF \<open>c \<in> set cs\<close> l(3)] by (simp add: axis_extent_child split: if_splits)
  qed
  then have kids: "list_all2 (\<lambda>m sz. 0 \<le> m \<and> m \<le> (if a = b then sz else axis_extent a r)) ?ms sizes"
    by (simp add: list_all2_map1)
  then have nonneg: "\<forall>m \<in> set ?ms. 0 \<le> m" by (auto simp: list_all2_conv_all_nth in_set_conv_nth)
  show ?case
  proof (cases "a = b")
    case True
    have "sum_list ?ms \<le> sum_list sizes"
      using kids True by (intro list_all2_sum_le) (auto elim: list_all2_mono)
    then have le: "sum_list ?ms + gap * (int (length cs) - 1) \<le> axis_extent b r"
      using sizes(2,4) by (simp add: span_of_def)
    have ext: "axis_extent b r \<le> i64_max"
      using rect_i32_extent [OF Group.prems(4)] by (simp add: in_i64_def)
    have g: "0 \<le> gap * (int (length cs) - 1)" using assms(2) n by (intro mult_nonneg_nonneg) auto
    have s: "0 \<le> sum_list ?ms" using nonneg by (intro sum_list_nonneg) auto
    have "foldl saturating_add_i64 0 ?ms = sum_list ?ms"
      using foldl_saturating [of 0 ?ms] nonneg le g ext by simp
    moreover have "saturating_mul_i64 gap (int (length cs - 1)) = gap * (int (length cs) - 1)"
      using g s le ext n by (simp add: saturating_mul_i64_def saturating_i64_def of_nat_diff)
    ultimately show ?thesis
      using True g s le ext by (simp add: saturating_add_i64_def saturating_i64_def)
  next
    case False
    with kids have upper: "\<forall>x \<in> set ?ms. x \<le> axis_extent a r"
      by (auto simp: list_all2_conv_all_nth in_set_conv_nth)
    obtain m ms where ms: "?ms = m # ms" using n by (cases cs) auto
    have "subtree_min (Group i b cs sh) a gap resolve = foldl max m ms"
      using False unfolding subtree_min.simps ms by auto
    then show ?thesis
      using upper nonneg unfolding ms by (auto intro: foldl_max_le foldl_max_ge)
  qed
qed

lemma layout_hinted_in_eq:
  "layout_children cs sizes a r gap cursor = Inr out \<Longrightarrow> length sizes = length cs \<Longrightarrow>
    (\<And>c sz off o'. c \<in> set cs \<Longrightarrow> sz \<in> set sizes \<Longrightarrow> in_i32 off \<Longrightarrow> in_i32 sz \<Longrightarrow>
      layout_into c (child_rect a r off sz) gap = Inr o' \<Longrightarrow>
      layout_hinted c (child_rect a r off sz) gap resolve seen = Inr (o', [], seen)) \<Longrightarrow>
    layout_hinted_in cs sizes a r gap cursor resolve seen = Inr (out, [], seen)"
proof (induction cs arbitrary: sizes cursor out)
  case Nil
  then show ?case by (simp add: layout_children.simps)
next
  case (Cons c cs)
  then obtain s ss where s: "sizes = s # ss" by (cases sizes) auto
  have len: "length ss = length cs" using Cons.prems(2) s by simp
  obtain here where here: "in_i32 s" "in_i32 cursor"
      "layout_into c (child_rect a r cursor s) gap = Inr here"
    using Cons.prems(1) unfolding s by (rule layout_children_Cons_Inr)
  have first: "layout_hinted c (child_rect a r cursor s) gap resolve seen = Inr (here, [], seen)"
    using Cons.prems(3) [OF _ _ here(2,1,3)] s by simp
  show ?case
  proof (cases "cs = []")
    case True
    with Cons.prems(1) s here have "out = here"
      by (auto simp: layout_children.simps bind_r_Inr_iff split: if_splits)
    with True s here first show ?thesis by (simp add: try_i32_def)
  next
    case False
    with Cons.prems(1) s here obtain cursor' rest where r:
        "Option.bind (checked_add_i64 cursor s) (\<lambda>next. checked_add_i64 next gap) = Some cursor'"
        "layout_children cs ss a r gap cursor' = Inr rest" "out = here @ rest"
      by (auto simp: layout_children.simps bind_r_Inr_iff split: if_splits)
    have "layout_hinted_in cs ss a r gap cursor' resolve seen = Inr (rest, [], seen)"
      by (rule Cons.IH [OF r(2) len]) (use Cons.prems(3) s in auto)
    with False s here first r show ?thesis by (simp add: try_i32_def)
  qed
qed

lemma layout_hinted_eq:
  assumes "unhinted resolve" "0 \<le> gap"
  shows "layout_into t r gap = Inr out \<Longrightarrow> wf_groups t \<Longrightarrow> rect_pos r \<Longrightarrow> rect_i32 r \<Longrightarrow>
    layout_hinted t r gap resolve seen = Inr (out, [], seen)"
proof (induction t arbitrary: r out)
  case (Leaf i)
  then show ?case using unhinted_violates [OF assms(1)] by simp
next
  case (Group i a cs sh)
  have ok: "group_ok cs sh" using Group.prems(2) by simp
  then have n: "2 \<le> length cs" by (simp add: group_ok_def)
  let ?g = "gap * (int (length cs) - 1)"
  let ?ext = "axis_extent a r"
  let ?sizes = "proportional_base_sizes sh (sum_list sh) (?ext - ?g - int (length cs)) (?ext - ?g)"
  from Group.prems(1) have fits: "?g + int (length cs) \<le> ?ext" "in_i64 ?g"
    and kids: "layout_children cs ?sizes a r gap (axis_origin a r) = Inr out"
    unfolding layout_into_Group_eq [OF ok] Let_def by (simp_all split: if_splits)
  note sizes = group_layout_sizes [OF ok fits(1) rect_i32_extent [OF Group.prems(4)] assms(2)]
  have child: "rect_pos (child_rect a r off sz)" "rect_i32 (child_rect a r off sz)"
    if "sz \<in> set ?sizes" "in_i32 off" "in_i32 sz" for off sz
  proof -
    from sizes(2) that(1) have "1 \<le> sz" by blast
    then show "rect_pos (child_rect a r off sz)" by (intro child_rect_pos [OF Group.prems(3)]) simp
    show "rect_i32 (child_rect a r off sz)" by (rule rect_i32_child [OF Group.prems(4) that(2,3)])
  qed
  let ?mins = "map (\<lambda>c. subtree_min c a gap resolve) cs"
  have "list_all2 (\<lambda>c sz. subtree_min c a gap resolve \<le> sz \<and> 1 \<le> sz) cs ?sizes"
  proof (rule list.rel_mono_strong [OF layout_children_laid [OF kids sizes(1)]])
    fix c sz
    assume c: "c \<in> set cs" and sz: "sz \<in> set ?sizes" and "laid_child a r gap c sz"
    then obtain off out' where l: "in_i32 sz" "in_i32 off"
        "layout_into c (child_rect a r off sz) gap = Inr out'" by (auto simp: laid_child_def)
    have "wf_groups c" using Group.prems(2) c by simp
    from subtree_min_fits [OF assms l(3) this child [OF sz l(2,1)], of a]
    show "subtree_min c a gap resolve \<le> sz \<and> 1 \<le> sz"
      using sizes(2) sz by (simp add: axis_extent_child)
  qed
  then have "enforce_minimums ?sizes ?mins = (True, ?sizes)"
    by (intro enforce_satisfied) (simp add: list_all2_map1)
  moreover have "layout_hinted_in cs ?sizes a r gap (axis_origin a r) resolve seen = Inr (out, [], seen)"
  proof (rule layout_hinted_in_eq [OF kids sizes(1)])
    fix c sz off o'
    assume c: "c \<in> set cs" and sz: "sz \<in> set ?sizes" "in_i32 off" "in_i32 sz"
      and l: "layout_into c (child_rect a r off sz) gap = Inr o'"
    have "wf_groups c" using Group.prems(2) c by simp
    then show "layout_hinted c (child_rect a r off sz) gap resolve seen = Inr (o', [], seen)"
      by (rule Group.IH [OF c l _ child [OF sz]])
  qed
  moreover have "sum_list sh \<le> u64_max" using ok by (simp add: group_ok_def)
  ultimately show ?case
    using fits(2) by (simp add: Let_def checked_mul_i64_def try_i64_def)
qed

lemma unhinted_plain:
  assumes "unhinted resolve" "rect_i32 bounds"
  shows "project_with_hints t bounds gap resolve =
    (case project t bounds gap of
       Inl e \<Rightarrow> Inl e
     | Inr out \<Rightarrow> Inr \<lparr>hp_leaves = out, hp_overconstrained = []\<rparr>)"
proof (cases "project t bounds gap")
  case (Inl e)
  then show ?thesis by (simp add: project_with_hints_def)
next
  case (Inr out)
  then have ok: "valid_rect bounds" "0 \<le> gap" "wf_node t" "layout_into t bounds gap = Inr out"
    using validate_tree_wf [of t] by (auto simp: project_def bind_r_Inr_iff split: if_splits)
  have "rect_pos bounds" using ok(1) by (simp add: valid_rect_def rect_pos_def)
  from layout_hinted_eq [OF assms(1) ok(2,4) wf_node_groups [OF ok(3)] this assms(2), of "{}"] Inr
  show ?thesis by (simp add: project_with_hints_def)
qed

subsection \<open>Properties\<close>

text \<open>
  C37. On non-negative sizes with a total of at most 31 bits, as the projector passes them, and minimums
  whose sum fits 64 bits, no sum, difference or product of the redistribution leaves \<open>i64\<close>. It succeeds
  exactly when the floors (each minimum, at least one unit) fit the total; then the total is kept, every
  entry reaches its floor, entries below it are raised exactly to it and the others only shrink.
  Otherwise the sizes come back untouched. The remainder loop never runs out of entries.
\<close>

theorem enforce_minimums_correct:
  assumes "\<forall>v \<in> set sizes. 0 \<le> v" "sum_list sizes \<le> 2147483647"
    and "sum_list (min_floors mins) \<le> 9223372036854775807"
  shows "\<exists>ok out. enforce_minimums_i64 sizes mins = Some (ok, out) \<and> ok = minimums_feasible sizes mins
    \<and> (if ok then redistributed sizes (min_floors mins) out else out = sizes)"
  using enforce_minimums_i64_eq [OF assms] enforce_minimums_eq [of sizes mins]
  by (cases "enforce_minimums sizes mins") auto

theorem enforce_minimums_correct_witness:
  "\<exists>out. enforce_minimums_i64 [100, 300, 200] [150, 0, 180] = Some (True, out)
    \<and> redistributed [100, 300, 200] [150, 1, 180] out"
proof -
  have fs: "min_floors [150, 0, 180] = [150, 1, 180]" by (simp add: min_floors_def)
  then have "minimums_feasible [100, 300, 200] [150, 0, 180]" by (simp add: minimums_feasible_def)
  moreover have "\<forall>v \<in> set [100, 300, 200 :: int]. 0 \<le> v" "sum_list [100, 300, 200 :: int] \<le> 2147483647"
    "sum_list (min_floors [150, 0, 180]) \<le> 9223372036854775807" unfolding fs by simp_all
  note enforce_minimums_correct [OF this]
  ultimately show ?thesis unfolding fs by fastforce
qed

text \<open>
  Without meaningful minimums the hint-aware projector is the plain one: same leaves, same
  errors, nothing overconstrained.
\<close>

theorem unhinted_projection_plain:
  assumes "unhinted resolve" "rect_i32 bounds"
  shows "project_with_hints t bounds gap resolve =
    (case project t bounds gap of
       Inl e \<Rightarrow> Inl e
     | Inr out \<Rightarrow> Inr \<lparr>hp_leaves = out, hp_overconstrained = []\<rparr>)"
  by (rule unhinted_plain [OF assms])

theorem unhinted_projection_plain_witness:
  "project_with_hints example_tree example_bounds 10 (\<lambda>_. hints_none) =
    (case project example_tree example_bounds 10 of
       Inl e \<Rightarrow> Inl e
     | Inr out \<Rightarrow> Inr \<lparr>hp_leaves = out, hp_overconstrained = []\<rparr>)"
  by (rule unhinted_projection_plain)
    (simp_all add: unhinted_def hints_none_def meaningful_def example_bounds_i32)

definition squeezed_tree :: node where
  "squeezed_tree = Group ''r'' Horizontal
     [Leaf ''a'', Group ''g'' Horizontal [Leaf ''b'', Leaf ''c''] [1, 1]] [1, 1]"

definition squeezing_hints :: "node_id \<Rightarrow> window_size_hints" where
  "squeezing_hints i =
     (if i = ''a'' then \<lparr>min_w = Some 980, min_h = None, max_w = None, max_h = None\<rparr> else hints_none)"

definition squeezed_bounds :: rect where
  "squeezed_bounds = \<lparr>rx = 0, ry = 0, rw = 1000, rh = 500\<rparr>"

lemmas squeezed_eval = project_eval squeezed_tree_def squeezed_bounds_def squeezing_hints_def
  hints_none_def enforce_minimums_def min_floors_def deficit_of_def slack_of_def floor_takes_def
  meaningful_def violates_minimum_def saturating_add_i64_def saturating_mul_i64_def geometry_bound_def

text \<open>
  C38. The hint-aware projector does not keep the projector's invariant of positive extents: a
  nested group counts only its gaps as its minimum, so a sibling's feasible minimum can leave it
  without room for its leaves. Here the plain projection succeeds with positive widths, the hinted
  one answers two leaves of width zero and reports nothing overconstrained.
\<close>

theorem hinted_projection_zero_width:
  "map_sum id (map (\<lambda>l. rw (prect l))) (project squeezed_tree squeezed_bounds 10)
      = Inr [495, 242, 243]
    \<and> map_sum id (\<lambda>h. (map (\<lambda>l. rw (prect l)) (hp_leaves h), hp_overconstrained h))
        (project_with_hints squeezed_tree squeezed_bounds 10 squeezing_hints)
      = Inr ([980, 0, 0], [])"
proof -
  have plain: "project squeezed_tree squeezed_bounds 10 = Inr
      [\<lparr>pleaf = ''a'', prect = \<lparr>rx = 0, ry = 0, rw = 495, rh = 500\<rparr>\<rparr>,
       \<lparr>pleaf = ''b'', prect = \<lparr>rx = 505, ry = 0, rw = 242, rh = 500\<rparr>\<rparr>,
       \<lparr>pleaf = ''c'', prect = \<lparr>rx = 757, ry = 0, rw = 243, rh = 500\<rparr>\<rparr>]"
    by (simp add: squeezed_eval)
  moreover have "layout_hinted squeezed_tree squeezed_bounds 10 squeezing_hints {} = Inr
      ([\<lparr>pleaf = ''a'', prect = \<lparr>rx = 0, ry = 0, rw = 980, rh = 500\<rparr>\<rparr>,
        \<lparr>pleaf = ''b'', prect = \<lparr>rx = 990, ry = 0, rw = 0, rh = 500\<rparr>\<rparr>,
        \<lparr>pleaf = ''c'', prect = \<lparr>rx = 1000, ry = 0, rw = 0, rh = 500\<rparr>\<rparr>], [], {})"
    by (simp add: squeezed_eval)
  ultimately show ?thesis by (simp add: project_with_hints_def)
qed

definition axis_explained :: "int \<Rightarrow> int \<Rightarrow> int option \<Rightarrow> int option \<Rightarrow> bool" where
  "axis_explained obs d mn mx \<longleftrightarrow> obs = d \<or>
     (case (meaningful mn, meaningful mx) of
        (None, None) \<Rightarrow> False
      | (Some lo, None) \<Rightarrow> \<bar>obs - max lo d\<bar> \<le> 2
      | (None, Some hi) \<Rightarrow> \<bar>obs - min hi d\<bar> \<le> 2
      | (Some lo, Some hi) \<Rightarrow> \<bar>obs - max lo (min hi d)\<bar> \<le> 2)"

text \<open>
  A clamp is accepted exactly when the position agrees and each axis either agrees or carries a
  meaningful hint and lies within the tolerance of the desired extent moved into its range, the
  minimum winning over a smaller maximum; an unhinted axis never accepts a difference.
\<close>

theorem clamp_assessment_exact:
  "accepted (assess_window_clamp obs d h) \<longleftrightarrow> rx obs = rx d \<and> ry obs = ry d
    \<and> axis_explained (rw obs) (rw d) (min_w h) (max_w h)
    \<and> axis_explained (rh obs) (rh d) (min_h h) (max_h h)"
proof -
  have axis: "(x = y \<or> axis_accepts_clamp x y mn mx) = axis_explained x y mn mx" for x y mn mx
    by (cases "meaningful mn"; cases "meaningful mx")
      (auto simp: axis_accepts_clamp_def clamp_axis_def axis_explained_def clamp_tolerance_px_def
        max_def min_def Let_def)
  show ?thesis by (auto simp: assess_window_clamp_def Let_def axis)
qed

definition pinned :: "int option \<Rightarrow> int option \<Rightarrow> bool" where
  "pinned mn mx \<longleftrightarrow> mn = mx \<and> mn \<noteq> Some 0"

definition known_bound :: "int option \<Rightarrow> bool" where
  "known_bound b \<longleftrightarrow> (case b of None \<Rightarrow> False | Some v \<Rightarrow> 0 \<le> v \<and> v \<le> geometry_bound)"

lemma usable_fixed_bound_eq: "usable_fixed_bound b = (if known_bound b then b else None)"
  by (auto simp: usable_fixed_bound_def known_bound_def geometry_bound_def split: option.splits)

lemma known_boundE:
  assumes "known_bound b"
  obtains v where "b = Some v" "(v < 0) = False" "(v = i32_max) = False"
  using assms by (auto simp: known_bound_def geometry_bound_def split: option.splits)

lemma fixed_size_reason_known:
  assumes "known_bound (min_w h)" "known_bound (min_h h)" "known_bound (max_w h)" "known_bound (max_h h)"
  shows "is_fixed_size_with h p \<longleftrightarrow>
    (case p of BothAxes \<Rightarrow> pinned (min_w h) (max_w h) \<and> pinned (min_h h) (max_h h)
       | EitherAxis \<Rightarrow> pinned (min_w h) (max_w h) \<or> pinned (min_h h) (max_h h))"
proof -
  obtain a where a: "min_w h = Some a" "(a < 0) = False" "(a = i32_max) = False"
    using assms(1) by (rule known_boundE)
  obtain b where b: "min_h h = Some b" "(b < 0) = False" "(b = i32_max) = False"
    using assms(2) by (rule known_boundE)
  obtain c where c: "max_w h = Some c" "(c < 0) = False" "(c = i32_max) = False"
    using assms(3) by (rule known_boundE)
  obtain d where d: "max_h h = Some d" "(d < 0) = False" "(d = i32_max) = False"
    using assms(4) by (rule known_boundE)
  show ?thesis
    using assms by (cases p) (auto simp: is_fixed_size_with_def fixed_size_reason_with_def
      usable_fixed_bound_eq pinned_def a b c d)
qed

lemma fixed_size_reason_unknown:
  assumes "\<not> (known_bound (min_w h) \<and> known_bound (min_h h) \<and> known_bound (max_w h) \<and> known_bound (max_h h))"
  shows "\<not> is_fixed_size_with h p"
proof -
  have "list_ex (\<lambda>b. usable_fixed_bound b = None) [min_w h, min_h h, max_w h, max_h h]"
    using assms by (auto simp: usable_fixed_bound_eq)
  then show ?thesis
    unfolding is_fixed_size_with_def fixed_size_reason_with_def Let_def by (simp only: if_True) simp
qed

text \<open>
  A window is fixed-size exactly when all four bounds are present and within the geometry
  bound, and the minimum equals the maximum and is not zero on both axes, or on either under the
  relaxed predicate.
\<close>

theorem fixed_size_exact:
  "is_fixed_size_with h p \<longleftrightarrow>
    known_bound (min_w h) \<and> known_bound (min_h h) \<and> known_bound (max_w h) \<and> known_bound (max_h h)
    \<and> (case p of BothAxes \<Rightarrow> pinned (min_w h) (max_w h) \<and> pinned (min_h h) (max_h h)
       | EitherAxis \<Rightarrow> pinned (min_w h) (max_w h) \<or> pinned (min_h h) (max_h h))"
  using fixed_size_reason_known fixed_size_reason_unknown by blast

end
