(* ===== verification/Output_Selection.thy ===== *)
theory Output_Selection
  imports Geometry "HOL-Library.Product_Lexorder" "HOL-Library.List_Lexorder" "HOL-Library.Char_ord"
begin

text \<open>
  \<open>tiler-core/src/output_selection.rs\<close>: which neighbouring output a window or a workspace moves to.
  Rust's \<open>Ordering\<close> and the comparators built with \<open>cmp\<close>, \<open>then\<close> are written out; \<open>sort_by\<close> is
  the stable sort by a comparator. An identity is a list of bytes, compared lexicographically, as
  \<open>String\<close> is.
\<close>

subsection \<open>Comparators\<close>

datatype ordering = Less | Equal | Greater

definition cmp :: "'a::linorder \<Rightarrow> 'a \<Rightarrow> ordering" where
  "cmp a b = (if a < b then Less else if a = b then Equal else Greater)"

fun cmp_then :: "ordering \<Rightarrow> ordering \<Rightarrow> ordering" where
  "cmp_then Equal d = d"
| "cmp_then Less d = Less"
| "cmp_then Greater d = Greater"

fun insert_by :: "('a \<Rightarrow> 'a \<Rightarrow> ordering) \<Rightarrow> 'a \<Rightarrow> 'a list \<Rightarrow> 'a list" where
  "insert_by c x [] = [x]"
| "insert_by c x (y # ys) = (if c x y = Greater then y # insert_by c x ys else x # y # ys)"

definition sort_by :: "('a \<Rightarrow> 'a \<Rightarrow> ordering) \<Rightarrow> 'a list \<Rightarrow> 'a list" where
  "sort_by c xs = foldr (insert_by c) xs []"

lemma insert_by_key: "insert_by (\<lambda>a b. cmp (f a) (f b)) x xs = insort_key f x xs"
  by (induction xs) (auto simp: cmp_def)

lemma sort_by_key:
  assumes "\<And>a b. c a b = cmp (f a) (f b)"
  shows "sort_by c xs = sort_key f xs"
proof -
  have "c = (\<lambda>a b. cmp (f a) (f b))" using assms by blast
  then show ?thesis by (simp add: sort_by_def sort_key_def insert_by_key [abs_def])
qed

lemma cmp_then_pair: "cmp_then (cmp a b) (cmp c d) = cmp (a, c) (b, d)"
  by (auto simp: cmp_def less_prod_def')

text \<open>The first element of a sorted list is a least one.\<close>

lemma hd_sort_key:
  assumes "xs \<noteq> []"
  shows "hd (sort_key f xs) \<in> set xs" "\<And>y. y \<in> set xs \<Longrightarrow> f (hd (sort_key f xs)) \<le> f y"
proof -
  obtain z zs where zs: "sort_key f xs = z # zs"
    using assms by (metis list.exhaust list.set_intros(1) set_sort empty_iff list.set(1))
  have "z \<in> set xs" using set_sort [of f xs] unfolding zs by auto
  then show "hd (sort_key f xs) \<in> set xs" using zs by simp
  fix y
  assume "y \<in> set xs"
  then have "y \<in> set (z # zs)" using zs set_sort [of f xs] by simp
  moreover have "sorted (map f (z # zs))" using sorted_sort_key [of f xs] zs by simp
  ultimately show "f (hd (sort_key f xs)) \<le> f y" using zs by auto
qed

subsection \<open>Candidates\<close>

record output_entry =
  oe_id :: output_id
  oe_rect :: rect

record candidate =
  cd_id :: output_id
  cd_rect :: rect
  edge_start :: int
  edge_end :: int

datatype selection_error = UnreadableTopology

definition span_overlap :: "int \<Rightarrow> int \<Rightarrow> int \<Rightarrow> int \<Rightarrow> int" where
  "span_overlap a_start a_len b_start b_len =
     (let a_end = a_start + a_len; b_end = b_start + b_len; start = max a_start b_start; e = min a_end b_end
      in e - start)"

text \<open>The validation loop over all entries, with the identities seen and whether the source was.\<close>

fun check_entries ::
  "output_entry \<Rightarrow> output_entry list \<Rightarrow> bool \<Rightarrow> output_id set \<Rightarrow> selection_error + bool" where
  "check_entries source [] seen_source seen_ids = Inr seen_source"
| "check_entries source (e # es) seen_source seen_ids =
     (if \<not> valid_rect (oe_rect e) then Inl UnreadableTopology
      else if oe_id e \<in> seen_ids then Inl UnreadableTopology
      else if oe_id e = oe_id source
        then (if oe_rect e \<noteq> oe_rect source then Inl UnreadableTopology
              else check_entries source es True (insert (oe_id e) seen_ids))
      else check_entries source es seen_source (insert (oe_id e) seen_ids))"

fun touches :: "direction \<Rightarrow> rect \<Rightarrow> rect \<Rightarrow> bool" where
  "touches Left s e \<longleftrightarrow> checked_add_i32 (rx e) (rw e) = Some (rx s)"
| "touches Right s e \<longleftrightarrow> checked_add_i32 (rx s) (rw s) = Some (rx e)"
| "touches Up s e \<longleftrightarrow> checked_add_i32 (ry e) (rh e) = Some (ry s)"
| "touches Down s e \<longleftrightarrow> checked_add_i32 (ry s) (rh s) = Some (ry e)"

definition horizontal_dir :: "direction \<Rightarrow> bool" where
  "horizontal_dir d \<longleftrightarrow> d = Left \<or> d = Right"

definition shared_edge :: "direction \<Rightarrow> rect \<Rightarrow> rect \<Rightarrow> int \<times> int" where
  "shared_edge d s e =
     (if horizontal_dir d then (max (ry s) (ry e), min (ry s + rh s) (ry e + rh e))
      else (max (rx s) (rx e), min (rx s + rw s) (rx e + rw e)))"

fun candidate_loop ::
  "output_entry \<Rightarrow> direction \<Rightarrow> output_entry list \<Rightarrow> selection_error + candidate list" where
  "candidate_loop source d [] = Inr []"
| "candidate_loop source d (e # es) =
     (if oe_id e = oe_id source then candidate_loop source d es
      else if \<not> touches d (oe_rect source) (oe_rect e) then candidate_loop source d es
      else let (start, en) = shared_edge d (oe_rect source) (oe_rect e) in
        if en - start \<le> 0 then candidate_loop source d es
        else bind_r (ok_or UnreadableTopology (try_i32 start)) (\<lambda>start_i32.
          bind_r (ok_or UnreadableTopology (try_i32 (en - start))) (\<lambda>len_i32.
          bind_r (ok_or UnreadableTopology (checked_add_i32 start_i32 len_i32)) (\<lambda>edge_e.
          bind_r (candidate_loop source d es) (\<lambda>cs.
            Inr (\<lparr>cd_id = oe_id e, cd_rect = oe_rect e, edge_start = start_i32, edge_end = edge_e\<rparr> # cs))))))"

definition position_order :: "candidate \<Rightarrow> candidate \<Rightarrow> ordering" where
  "position_order a b =
     cmp_then (cmp_then (cmp (rx (cd_rect a)) (rx (cd_rect b))) (cmp (ry (cd_rect a)) (ry (cd_rect b))))
       (cmp (cd_id a) (cd_id b))"

definition candidates_in_direction ::
  "output_entry \<Rightarrow> direction \<Rightarrow> output_entry list \<Rightarrow> selection_error + candidate list" where
  "candidates_in_direction source d entries =
     (if \<not> valid_rect (oe_rect source) then Inl UnreadableTopology
      else bind_r (check_entries source entries False {}) (\<lambda>seen_source.
        if \<not> seen_source then Inl UnreadableTopology
        else bind_r (candidate_loop source d entries) (\<lambda>out. Inr (sort_by position_order out))))"

subsection \<open>Selection\<close>

definition centre_contained :: "rect \<Rightarrow> int \<Rightarrow> int \<Rightarrow> bool \<Rightarrow> bool" where
  "centre_contained window e_start e_end horizontal =
     (case (if horizontal
            then Option.bind (checked_mul_i64 (ry window) 2) (\<lambda>v. checked_add_i64 v (rh window))
            else Option.bind (checked_mul_i64 (rx window) 2) (\<lambda>v. checked_add_i64 v (rw window))) of
        None \<Rightarrow> False
      | Some doubled \<Rightarrow> e_start * 2 \<le> doubled \<and> doubled < e_end * 2)"

definition window_edge_overlap :: "rect \<Rightarrow> candidate \<Rightarrow> bool \<Rightarrow> int" where
  "window_edge_overlap window c horizontal =
     (if horizontal then max (span_overlap (ry window) (rh window) (edge_start c) (edge_end c - edge_start c)) 0
      else max (span_overlap (rx window) (rw window) (edge_start c) (edge_end c - edge_start c)) 0)"

definition window_order :: "rect \<Rightarrow> bool \<Rightarrow> candidate \<Rightarrow> candidate \<Rightarrow> ordering" where
  "window_order window horizontal a b =
     (let a_centred = centre_contained window (edge_start a) (edge_end a) horizontal;
          b_centred = centre_contained window (edge_start b) (edge_end b) horizontal in
      cmp_then (cmp_then (cmp_then (cmp_then
        (cmp b_centred a_centred)
        (if a_centred \<and> b_centred then Equal
         else cmp (window_edge_overlap window b horizontal) (window_edge_overlap window a horizontal)))
        (cmp (rx (cd_rect a)) (rx (cd_rect b))))
        (cmp (ry (cd_rect a)) (ry (cd_rect b))))
        (cmp (cd_id a) (cd_id b)))"

definition select_for_window ::
  "direction \<Rightarrow> output_entry \<Rightarrow> rect \<Rightarrow> output_entry list \<Rightarrow> selection_error + candidate option" where
  "select_for_window d source window entries =
     (if \<not> valid_rect window then Inl UnreadableTopology
      else bind_r (candidates_in_direction source d entries) (\<lambda>cs.
        if cs = [] then Inr None
        else case sort_by (window_order window (horizontal_dir d)) cs of
            [] \<Rightarrow> Inr None
          | c # _ \<Rightarrow> Inr (Some c)))"

definition migration_order :: "candidate \<Rightarrow> candidate \<Rightarrow> ordering" where
  "migration_order a b =
     cmp_then (cmp_then (cmp_then
       (cmp (edge_end b - edge_start b) (edge_end a - edge_start a))
       (cmp (rx (cd_rect a)) (rx (cd_rect b))))
       (cmp (ry (cd_rect a)) (ry (cd_rect b))))
       (cmp (cd_id a) (cd_id b))"

definition select_for_migration ::
  "direction \<Rightarrow> output_entry \<Rightarrow> output_entry list \<Rightarrow> selection_error + candidate option" where
  "select_for_migration d source entries =
     bind_r (candidates_in_direction source d entries) (\<lambda>cs.
       if cs = [] then Inr None
       else case sort_by migration_order cs of [] \<Rightarrow> Inr None | c # _ \<Rightarrow> Inr (Some c))"

subsection \<open>Migration refill\<close>

datatype migration_source_refill = LastRemaining | MostRecentlyUsed

fun refill_as_wire_str :: "migration_source_refill \<Rightarrow> string" where
  "refill_as_wire_str LastRemaining = ''last-remaining-workspace''"
| "refill_as_wire_str MostRecentlyUsed = ''most-recently-used-workspace''"

definition refill_parse_wire :: "string \<Rightarrow> migration_source_refill option" where
  "refill_parse_wire value =
     (if value = ''last-remaining-workspace'' then Some LastRemaining
      else if value = ''most-recently-used-workspace'' then Some MostRecentlyUsed else None)"

definition select_migration_source_refill ::
  "migration_source_refill \<Rightarrow> workspace_id option \<Rightarrow> workspace_id list \<Rightarrow> workspace_id option" where
  "select_migration_source_refill refill previous remaining =
     (case (refill, previous) of
        (MostRecentlyUsed, Some remembered) \<Rightarrow>
          if remembered \<in> set remaining then Some remembered
          else if remaining = [] then None else Some (last remaining)
      | _ \<Rightarrow> if remaining = [] then None else Some (last remaining))"

subsection \<open>Which entries are candidates\<close>

text \<open>The conditions without the code's order of evaluation.\<close>

definition readable :: "output_entry \<Rightarrow> output_entry list \<Rightarrow> bool" where
  "readable source entries \<longleftrightarrow> source \<in> set entries \<and> distinct (map oe_id entries)
     \<and> list_all (\<lambda>e. valid_rect (oe_rect e)) entries"

fun abuts :: "direction \<Rightarrow> rect \<Rightarrow> rect \<Rightarrow> bool" where
  "abuts Left s e \<longleftrightarrow> rx e + rw e = rx s"
| "abuts Right s e \<longleftrightarrow> rx s + rw s = rx e"
| "abuts Up s e \<longleftrightarrow> ry e + rh e = ry s"
| "abuts Down s e \<longleftrightarrow> ry s + rh s = ry e"

definition neighbour :: "direction \<Rightarrow> output_entry \<Rightarrow> output_entry \<Rightarrow> bool" where
  "neighbour d s e \<longleftrightarrow> oe_id e \<noteq> oe_id s \<and> abuts d (oe_rect s) (oe_rect e)
     \<and> fst (shared_edge d (oe_rect s) (oe_rect e)) < snd (shared_edge d (oe_rect s) (oe_rect e))"

definition candidate_of :: "direction \<Rightarrow> output_entry \<Rightarrow> output_entry \<Rightarrow> candidate" where
  "candidate_of d s e = \<lparr>cd_id = oe_id e, cd_rect = oe_rect e,
     edge_start = fst (shared_edge d (oe_rect s) (oe_rect e)),
     edge_end = snd (shared_edge d (oe_rect s) (oe_rect e))\<rparr>"

definition place :: "candidate \<Rightarrow> (int \<times> int) \<times> output_id" where
  "place c = ((rx (cd_rect c), ry (cd_rect c)), cd_id c)"

lemma touches_abuts:
  assumes "valid_rect s" "valid_rect e"
  shows "touches d s e \<longleftrightarrow> abuts d s e"
  using assms by (cases d) (auto simp: valid_rect_def checked_add_i32_def)

lemma check_entries_eq:
  "check_entries s es seen ids =
    (if list_all (\<lambda>e. valid_rect (oe_rect e)) es \<and> distinct (map oe_id es)
        \<and> set (map oe_id es) \<inter> ids = {} \<and> (\<forall>e \<in> set es. oe_id e = oe_id s \<longrightarrow> oe_rect e = oe_rect s)
     then Inr (seen \<or> oe_id s \<in> set (map oe_id es)) else Inl UnreadableTopology)"
  by (induction s es seen ids rule: check_entries.induct) auto

lemma position_order_key: "position_order a b = cmp (place a) (place b)"
  by (simp add: position_order_def place_def cmp_then_pair)

lemma shared_edge_range:
  assumes "rect_i32 s" "rect_i32 e" "valid_rect s" "valid_rect e"
    "fst (shared_edge d s e) < snd (shared_edge d s e)"
  shows "in_i32 (fst (shared_edge d s e))" "in_i32 (snd (shared_edge d s e))"
    "in_i32 (snd (shared_edge d s e) - fst (shared_edge d s e))"
proof -
  have "in_i32 (rx s + rw s)" "in_i32 (ry s + rh s)" "in_i32 (rx e + rw e)" "in_i32 (ry e + rh e)"
    using assms(3,4) by (auto simp: valid_rect_def checked_add_i32_def)
  with assms(1,2,5) show "in_i32 (fst (shared_edge d s e))" "in_i32 (snd (shared_edge d s e))"
    "in_i32 (snd (shared_edge d s e) - fst (shared_edge d s e))"
    using assms(3,4) by (auto simp: shared_edge_def rect_i32_def in_i32_def valid_rect_def)
qed

lemma candidate_loop_eq:
  assumes "rect_i32 (oe_rect s)" "valid_rect (oe_rect s)"
    "\<forall>e \<in> set es. rect_i32 (oe_rect e) \<and> valid_rect (oe_rect e)"
  shows "candidate_loop s d es = Inr (map (candidate_of d s) (filter (neighbour d s) es))"
  using assms(3)
proof (induction es)
  case Nil
  then show ?case by simp
next
  case (Cons e es)
  then have e: "rect_i32 (oe_rect e)" "valid_rect (oe_rect e)" and
    IH: "candidate_loop s d es = Inr (map (candidate_of d s) (filter (neighbour d s) es))" by auto
  show ?case
  proof (cases "neighbour d s e")
    case True
    then have lt: "fst (shared_edge d (oe_rect s) (oe_rect e)) < snd (shared_edge d (oe_rect s) (oe_rect e))"
      and t: "touches d (oe_rect s) (oe_rect e)" "oe_id e \<noteq> oe_id s"
      using touches_abuts [OF assms(2) e(2)] by (auto simp: neighbour_def)
    note r = shared_edge_range [OF assms(1) e(1) assms(2) e(2) lt]
    show ?thesis using True t lt r IH
      by (simp add: split_beta try_i32_def checked_add_i32_def candidate_of_def)
  next
    case False
    then have "oe_id e = oe_id s \<or> \<not> touches d (oe_rect s) (oe_rect e)
        \<or> snd (shared_edge d (oe_rect s) (oe_rect e)) \<le> fst (shared_edge d (oe_rect s) (oe_rect e))"
      using touches_abuts [OF assms(2) e(2), of d] by (auto simp: neighbour_def)
    then have "candidate_loop s d (e # es) = candidate_loop s d es" by (auto simp: split_beta)
    with False IH show ?thesis by simp
  qed
qed

lemma readable_source:
  "readable s es \<longleftrightarrow> valid_rect (oe_rect s) \<and> list_all (\<lambda>e. valid_rect (oe_rect e)) es
    \<and> distinct (map oe_id es) \<and> (\<forall>e \<in> set es. oe_id e = oe_id s \<longrightarrow> oe_rect e = oe_rect s)
    \<and> oe_id s \<in> set (map oe_id es)"
proof
  assume r: "readable s es"
  then have "\<forall>e \<in> set es. oe_id e = oe_id s \<longrightarrow> e = s"
    by (metis (no_types, lifting) readable_def distinct_map inj_onD)
  with r show "valid_rect (oe_rect s) \<and> list_all (\<lambda>e. valid_rect (oe_rect e)) es
    \<and> distinct (map oe_id es) \<and> (\<forall>e \<in> set es. oe_id e = oe_id s \<longrightarrow> oe_rect e = oe_rect s)
    \<and> oe_id s \<in> set (map oe_id es)"
    by (auto simp: readable_def list_all_iff)
next
  assume r: "valid_rect (oe_rect s) \<and> list_all (\<lambda>e. valid_rect (oe_rect e)) es
    \<and> distinct (map oe_id es) \<and> (\<forall>e \<in> set es. oe_id e = oe_id s \<longrightarrow> oe_rect e = oe_rect s)
    \<and> oe_id s \<in> set (map oe_id es)"
  then obtain e where e: "e \<in> set es" "oe_id e = oe_id s" by auto
  with r have "e = s" by (metis output_entry.equality unit.exhaust)
  with e r show "readable s es" by (simp add: readable_def)
qed

lemma candidates_eq:
  assumes "\<forall>e \<in> set es. rect_i32 (oe_rect e)"
  shows "candidates_in_direction s d es =
    (if readable s es then Inr (sort_key place (map (candidate_of d s) (filter (neighbour d s) es)))
     else Inl UnreadableTopology)"
proof (cases "readable s es")
  case True
  then have "rect_i32 (oe_rect s)" "valid_rect (oe_rect s)"
    "\<forall>e \<in> set es. rect_i32 (oe_rect e) \<and> valid_rect (oe_rect e)"
    using assms by (auto simp: readable_def list_all_iff)
  note loop = candidate_loop_eq [OF this, of d]
  have "check_entries s es False {} = Inr True"
    using True by (simp add: check_entries_eq readable_source)
  then show ?thesis using True loop readable_source [of s es]
    by (simp add: candidates_in_direction_def sort_by_key [OF position_order_key])
next
  case False
  then show ?thesis
    by (auto simp: candidates_in_direction_def check_entries_eq readable_source)
qed

lemma candidates_nonempty:
  assumes "\<forall>e \<in> set es. rect_i32 (oe_rect e)" "candidates_in_direction s d es = Inr cs"
  shows "readable s es" "set cs = candidate_of d s ` {e \<in> set es. neighbour d s e}"
  using assms(2) unfolding candidates_eq [OF assms(1)] by (auto split: if_splits)

subsection \<open>The ranking\<close>

definition centred :: "direction \<Rightarrow> rect \<Rightarrow> candidate \<Rightarrow> bool" where
  "centred d w c \<longleftrightarrow> (if horizontal_dir d
     then 2 * edge_start c \<le> 2 * ry w + rh w \<and> 2 * ry w + rh w < 2 * edge_end c
     else 2 * edge_start c \<le> 2 * rx w + rw w \<and> 2 * rx w + rw w < 2 * edge_end c)"

text \<open>\<open>c\<close> is at least as good as \<open>b\<close> for a moving window.\<close>

definition preferred :: "direction \<Rightarrow> rect \<Rightarrow> candidate \<Rightarrow> candidate \<Rightarrow> bool" where
  "preferred d w c b \<longleftrightarrow>
     (let oc = window_edge_overlap w c (horizontal_dir d); ob = window_edge_overlap w b (horizontal_dir d)
      in if centred d w c then centred d w b \<longrightarrow> place c \<le> place b
         else \<not> centred d w b \<and> (ob < oc \<or> ob = oc \<and> place c \<le> place b))"

definition migration_preferred :: "candidate \<Rightarrow> candidate \<Rightarrow> bool" where
  "migration_preferred c b \<longleftrightarrow>
     edge_end b - edge_start b < edge_end c - edge_start c
     \<or> edge_end b - edge_start b = edge_end c - edge_start c \<and> place c \<le> place b"

definition window_key :: "direction \<Rightarrow> rect \<Rightarrow> candidate \<Rightarrow> ((bool \<times> int) \<times> (int \<times> int)) \<times> output_id" where
  "window_key d w c =
     (((\<not> centred d w c, if centred d w c then 0 else - window_edge_overlap w c (horizontal_dir d)),
       fst (place c)), snd (place c))"

lemma centre_contained_eq:
  assumes "rect_i32 w"
  shows "centre_contained w (edge_start c) (edge_end c) (horizontal_dir d) = centred d w c"
proof -
  have "in_i64 (rx w * 2)" "in_i64 (ry w * 2)" "in_i64 (rx w * 2 + rw w)" "in_i64 (ry w * 2 + rh w)"
    using assms by (auto simp: rect_i32_def range_defs)
  then show ?thesis
    by (simp add: centre_contained_def centred_def checked_mul_i64_def checked_add_i64_def try_i64_def
        algebra_simps)
qed

lemma cmp_not: "cmp a b = cmp (\<not> b) (\<not> a)"
  by (auto simp: cmp_def)

lemma cmp_minus: "cmp a b = cmp (- b) (- a :: int)"
  by (auto simp: cmp_def)

lemma cmp_refl [simp]: "cmp a a = Equal"
  by (simp add: cmp_def)

lemma cmp_then_assoc: "cmp_then (cmp_then a b) c = cmp_then a (cmp_then b c)"
  by (cases a) simp_all

lemma window_order_key:
  assumes "rect_i32 w"
  shows "window_order w (horizontal_dir d) a b = cmp (window_key d w a) (window_key d w b)"
proof -
  let ?o = "\<lambda>c. if centred d w c then 0 else - window_edge_overlap w c (horizontal_dir d)"
  have "cmp_then (cmp (centred d w b) (centred d w a))
      (if centred d w a \<and> centred d w b then Equal
       else cmp (window_edge_overlap w b (horizontal_dir d)) (window_edge_overlap w a (horizontal_dir d)))
    = cmp_then (cmp (\<not> centred d w a) (\<not> centred d w b)) (cmp (?o a) (?o b))"
    by (cases "centred d w a"; cases "centred d w b") (auto simp: cmp_def)
  note eq = this
  show ?thesis
    unfolding window_order_def Let_def centre_contained_eq [OF assms] eq
    by (simp only: cmp_then_assoc window_key_def place_def fst_conv snd_conv flip: cmp_then_pair)
qed

lemma window_key_le: "window_key d w c \<le> window_key d w b \<longleftrightarrow> preferred d w c b"
  by (auto simp: window_key_def preferred_def Let_def less_eq_prod_simp less_prod_simp place_def)

definition migration_key :: "candidate \<Rightarrow> (int \<times> (int \<times> int)) \<times> output_id" where
  "migration_key c = ((- (edge_end c - edge_start c), fst (place c)), snd (place c))"

lemma migration_order_key: "migration_order a b = cmp (migration_key a) (migration_key b)"
proof -
  have "cmp (edge_end b - edge_start b) (edge_end a - edge_start a)
    = cmp (- (edge_end a - edge_start a)) (- (edge_end b - edge_start b))"
    by (rule cmp_minus)
  then show ?thesis
    by (simp only: migration_order_def migration_key_def place_def cmp_then_assoc fst_conv snd_conv
        flip: cmp_then_pair)
qed

lemma migration_key_le: "migration_key c \<le> migration_key b \<longleftrightarrow> migration_preferred c b"
  by (auto simp: migration_key_def migration_preferred_def less_eq_prod_simp less_prod_simp place_def)

lemma sort_by_first:
  fixes f :: "'a \<Rightarrow> 'b::linorder"
  assumes "\<And>a b. c a b = cmp (f a) (f b)" "xs \<noteq> []"
  obtains z zs where "sort_by c xs = z # zs" "z \<in> set xs" "\<And>y. y \<in> set xs \<Longrightarrow> f z \<le> f y"
proof -
  have "sort_by c xs \<noteq> []"
    using assms(2) by (simp add: sort_by_key [OF assms(1)] flip: length_greater_0_conv)
  then obtain z zs where "sort_by c xs = z # zs" by (cases "sort_by c xs") auto
  with hd_sort_key [OF assms(2), where f = f] show thesis
    by (intro that) (auto simp: sort_by_key [OF assms(1)])
qed

lemma select_for_window_eq:
  assumes "\<forall>e \<in> set es. rect_i32 (oe_rect e)" "rect_i32 w"
  shows "case select_for_window d s w es of
      Inl _ \<Rightarrow> \<not> (valid_rect w \<and> readable s es)
    | Inr None \<Rightarrow> valid_rect w \<and> readable s es \<and> (\<forall>e \<in> set es. \<not> neighbour d s e)
    | Inr (Some c) \<Rightarrow> valid_rect w \<and> readable s es
        \<and> (\<exists>e \<in> set es. neighbour d s e \<and> c = candidate_of d s e)
        \<and> (\<forall>e \<in> set es. neighbour d s e \<longrightarrow> preferred d w c (candidate_of d s e))"
proof (cases "valid_rect w \<and> readable s es")
  case False
  then show ?thesis by (auto simp: select_for_window_def candidates_eq [OF assms(1)])
next
  case True
  then obtain cs where cs: "candidates_in_direction s d es = Inr cs"
    by (simp add: candidates_eq [OF assms(1)])
  note set = candidates_nonempty(2) [OF assms(1) cs]
  show ?thesis
  proof (cases "cs = []")
    case True
    then show ?thesis using \<open>valid_rect w \<and> readable s es\<close> cs set by (auto simp: select_for_window_def)
  next
    case False
    obtain z zs where z: "sort_by (window_order w (horizontal_dir d)) cs = z # zs" "z \<in> set cs"
      "\<And>y. y \<in> set cs \<Longrightarrow> window_key d w z \<le> window_key d w y"
      by (rule sort_by_first [of "window_order w (horizontal_dir d)" "window_key d w", OF window_order_key [OF assms(2)] False]) blast
    then have "select_for_window d s w es = Inr (Some z)"
      using True cs False by (simp add: select_for_window_def)
    with True z(2,3) set show ?thesis by (auto simp: window_key_le)
  qed
qed

lemma select_for_migration_eq:
  assumes "\<forall>e \<in> set es. rect_i32 (oe_rect e)"
  shows "case select_for_migration d s es of
      Inl _ \<Rightarrow> \<not> readable s es
    | Inr None \<Rightarrow> readable s es \<and> (\<forall>e \<in> set es. \<not> neighbour d s e)
    | Inr (Some c) \<Rightarrow> readable s es \<and> (\<exists>e \<in> set es. neighbour d s e \<and> c = candidate_of d s e)
        \<and> (\<forall>e \<in> set es. neighbour d s e \<longrightarrow> migration_preferred c (candidate_of d s e))"
proof (cases "readable s es")
  case False
  then show ?thesis by (auto simp: select_for_migration_def candidates_eq [OF assms])
next
  case True
  then obtain cs where cs: "candidates_in_direction s d es = Inr cs"
    by (simp add: candidates_eq [OF assms])
  note set = candidates_nonempty(2) [OF assms cs]
  show ?thesis
  proof (cases "cs = []")
    case True
    then show ?thesis using \<open>readable s es\<close> cs set by (auto simp: select_for_migration_def)
  next
    case False
    obtain z zs where z: "sort_by migration_order cs = z # zs" "z \<in> set cs"
      "\<And>y. y \<in> set cs \<Longrightarrow> migration_key z \<le> migration_key y"
      by (rule sort_by_first [of migration_order migration_key, OF migration_order_key False]) blast
    then have "select_for_migration d s es = Inr (Some z)"
      using True cs False by (simp add: select_for_migration_def)
    with True z(2,3) set show ?thesis by (auto simp: migration_key_le)
  qed
qed

lemma neighbour_opposite: "neighbour (opposite_direction d) e s \<longleftrightarrow> neighbour d s e"
  by (cases d) (auto simp: neighbour_def shared_edge_def horizontal_dir_def max.commute min.commute)

lemma readable_member: "readable s es \<Longrightarrow> e \<in> set es \<Longrightarrow> readable e es"
  by (simp add: readable_def)

subsection \<open>Properties\<close>

text \<open>
  C39. The output chosen for a moving window: an error exactly for an unreadable topology, none
  exactly when no output touches in the direction, otherwise an edge-touching output that no other
  beats: an edge holding the window's centre wins, without one the larger overlap, then the
  leftmost, topmost and least identity.
\<close>

theorem window_selection_best:
  assumes "\<forall>e \<in> set es. rect_i32 (oe_rect e)" "rect_i32 w"
  shows "case select_for_window d s w es of
      Inl _ \<Rightarrow> \<not> (valid_rect w \<and> readable s es)
    | Inr None \<Rightarrow> valid_rect w \<and> readable s es \<and> (\<forall>e \<in> set es. \<not> neighbour d s e)
    | Inr (Some c) \<Rightarrow> valid_rect w \<and> readable s es
        \<and> (\<exists>e \<in> set es. neighbour d s e \<and> c = candidate_of d s e)
        \<and> (\<forall>e \<in> set es. neighbour d s e \<longrightarrow> preferred d w c (candidate_of d s e))"
  by (rule select_for_window_eq [OF assms])

definition two_outputs :: "output_entry list" where
  "two_outputs =
     [\<lparr>oe_id = ''A'', oe_rect = \<lparr>rx = 0, ry = 0, rw = 100, rh = 100\<rparr>\<rparr>,
      \<lparr>oe_id = ''B'', oe_rect = \<lparr>rx = 100, ry = 50, rw = 100, rh = 100\<rparr>\<rparr>]"

lemma two_outputs_i32: "\<forall>e \<in> set two_outputs. rect_i32 (oe_rect e)"
  by (simp add: two_outputs_def rect_i32_def in_i32_def)

theorem window_selection_best_witness:
  "case select_for_window Right (two_outputs ! 0) (oe_rect (two_outputs ! 1)) two_outputs of
      Inl _ \<Rightarrow> \<not> (valid_rect (oe_rect (two_outputs ! 1)) \<and> readable (two_outputs ! 0) two_outputs)
    | Inr None \<Rightarrow> valid_rect (oe_rect (two_outputs ! 1)) \<and> readable (two_outputs ! 0) two_outputs
        \<and> (\<forall>e \<in> set two_outputs. \<not> neighbour Right (two_outputs ! 0) e)
    | Inr (Some c) \<Rightarrow> valid_rect (oe_rect (two_outputs ! 1)) \<and> readable (two_outputs ! 0) two_outputs
        \<and> (\<exists>e \<in> set two_outputs. neighbour Right (two_outputs ! 0) e \<and> c = candidate_of Right (two_outputs ! 0) e)
        \<and> (\<forall>e \<in> set two_outputs. neighbour Right (two_outputs ! 0) e
              \<longrightarrow> preferred Right (oe_rect (two_outputs ! 1)) c (candidate_of Right (two_outputs ! 0) e))"
  by (rule window_selection_best [OF two_outputs_i32]) (simp add: two_outputs_def rect_i32_def in_i32_def)

text \<open>
  Moving is reversible as far as the topology goes: an output chosen for a whole-workspace
  migration has the largest shared edge, and from it the source is a candidate in the opposite
  direction over the same edge, so that the way back always answers an output.
\<close>

theorem migration_selection_best:
  assumes "\<forall>e \<in> set es. rect_i32 (oe_rect e)" "select_for_migration d s es = Inr (Some c)"
  shows "\<exists>e \<in> set es. c = candidate_of d s e
    \<and> (\<forall>e' \<in> set es. neighbour d s e' \<longrightarrow> migration_preferred c (candidate_of d s e'))
    \<and> (\<exists>cs. candidates_in_direction e (opposite_direction d) es = Inr cs
        \<and> \<lparr>cd_id = oe_id s, cd_rect = oe_rect s, edge_start = edge_start c, edge_end = edge_end c\<rparr> \<in> set cs)
    \<and> (\<exists>b. select_for_migration (opposite_direction d) e es = Inr (Some b))"
proof -
  from select_for_migration_eq [OF assms(1), of s d] assms(2) obtain e
    where r: "readable s es" and e: "e \<in> set es" "neighbour d s e" "c = candidate_of d s e"
      and best: "\<forall>e' \<in> set es. neighbour d s e' \<longrightarrow> migration_preferred c (candidate_of d s e')"
    by auto
  have s: "s \<in> set es" "neighbour (opposite_direction d) e s"
    using r e(2) by (auto simp: readable_def neighbour_opposite)
  have re: "readable e es" using r e(1) by (rule readable_member)
  then obtain cs where cs: "candidates_in_direction e (opposite_direction d) es = Inr cs"
    by (simp add: candidates_eq [OF assms(1)])
  have "candidate_of (opposite_direction d) e s \<in> set cs"
    using s by (auto simp: candidates_nonempty(2) [OF assms(1) cs])
  moreover have "candidate_of (opposite_direction d) e s
      = \<lparr>cd_id = oe_id s, cd_rect = oe_rect s, edge_start = edge_start c, edge_end = edge_end c\<rparr>"
    by (cases d) (simp_all add: e(3) candidate_of_def shared_edge_def horizontal_dir_def
        max.commute min.commute)
  moreover have "\<exists>b. select_for_migration (opposite_direction d) e es = Inr (Some b)"
    using select_for_migration_eq [OF assms(1), of e "opposite_direction d"] re s
    by (auto split: sum.splits option.splits)
  ultimately show ?thesis using e best cs by metis
qed

lemma two_outputs_migrate: "select_for_migration Right (two_outputs ! 0) two_outputs
    = Inr (Some \<lparr>cd_id = ''B'', cd_rect = \<lparr>rx = 100, ry = 50, rw = 100, rh = 100\<rparr>, edge_start = 50, edge_end = 100\<rparr>)"
  by (simp add: two_outputs_def select_for_migration_def candidates_in_direction_def valid_rect_def
      shared_edge_def horizontal_dir_def sort_by_def range_defs)

theorem migration_selection_best_witness:
  "\<exists>e \<in> set two_outputs.
    \<lparr>cd_id = ''B'', cd_rect = \<lparr>rx = 100, ry = 50, rw = 100, rh = 100\<rparr>, edge_start = 50, edge_end = 100\<rparr>
      = candidate_of Right (two_outputs ! 0) e
    \<and> (\<exists>b. select_for_migration Left e two_outputs = Inr (Some b))"
  using migration_selection_best [OF two_outputs_i32 two_outputs_migrate] by auto

end
