(* ===== verification/Active_Group.thy ===== *)
theory Active_Group
  imports Size_Hints
begin

text \<open>
  \<open>tiler-core/src/active_group.rs\<close>: the parent group of the focused leaf, its leaves with their
  projected rectangles, and the union of these rectangles. The \<open>BTreeMap\<close> from leaves to windows
  is a map; it is only looked up.
\<close>

record active_group_member =
  am_window :: window_id
  am_leaf :: node_id
  am_rect :: rect

record active_group =
  ag_group :: node_id
  ag_members :: "active_group_member list"
  ag_bounds :: rect

fun immediate_parent_group :: "node \<Rightarrow> node_id \<Rightarrow> node option"
  and immediate_parent_in :: "node list \<Rightarrow> node_id \<Rightarrow> node option" where
  "immediate_parent_group (Leaf i) x = None"
| "immediate_parent_group (Group i a cs sh) x =
     (if list_ex (\<lambda>c. ident c = x) cs then Some (Group i a cs sh) else immediate_parent_in cs x)"
| "immediate_parent_in [] x = None"
| "immediate_parent_in (c # cs) x =
     (case immediate_parent_group c x of Some p \<Rightarrow> Some p | None \<Rightarrow> immediate_parent_in cs x)"

fun collect_descendant_leaves :: "node \<Rightarrow> node_id list \<Rightarrow> node_id list" where
  "collect_descendant_leaves (Leaf i) out = out @ [i]"
| "collect_descendant_leaves (Group i a cs sh) out =
     foldl (\<lambda>out c. collect_descendant_leaves c out) out cs"

text \<open>The accumulators are the minimum of the left and top and the maximum of the right and bottom edges.\<close>

fun union_loop :: "rect list \<Rightarrow> int \<Rightarrow> int \<Rightarrow> int \<Rightarrow> int \<Rightarrow> (int \<times> int \<times> int \<times> int) option" where
  "union_loop [] min_x min_y max_r max_b = Some (min_x, min_y, max_r, max_b)"
| "union_loop (r # rs) min_x min_y max_r max_b =
     (if rw r \<le> 0 \<or> rh r \<le> 0 then None
      else Option.bind (checked_add_i64 (rx r) (rw r)) (\<lambda>right.
        Option.bind (checked_add_i64 (ry r) (rh r)) (\<lambda>bottom.
          union_loop rs (min min_x (rx r)) (min min_y (ry r)) (max max_r right) (max max_b bottom))))"

definition union_rect :: "rect list \<Rightarrow> rect option" where
  "union_rect rects =
     Option.bind (union_loop rects i64_max i64_max i64_min i64_min) (\<lambda>(min_x, min_y, max_r, max_b).
       Option.bind (Option.bind (checked_sub_i64 max_r min_x) try_i32) (\<lambda>w.
       Option.bind (Option.bind (checked_sub_i64 max_b min_y) try_i32) (\<lambda>h.
         if w \<le> 0 \<or> h \<le> 0 then None
         else Option.bind (try_i32 min_x) (\<lambda>x. Option.bind (try_i32 min_y) (\<lambda>y.
           Some \<lparr>rx = x, ry = y, rw = w, rh = h\<rparr>)))))"

fun member_loop ::
  "node_id set \<Rightarrow> (node_id \<rightharpoonup> window_id) \<Rightarrow> projected_leaf list \<Rightarrow> active_group_member list option" where
  "member_loop descendants m [] = Some []"
| "member_loop descendants m (e # es) =
     (if pleaf e \<notin> descendants then member_loop descendants m es
      else case m (pleaf e) of
        None \<Rightarrow> None
      | Some window \<Rightarrow>
          if \<not> is_opaque_id window \<or> \<not> is_opaque_id (pleaf e) then None
          else if rw (prect e) \<le> 0 \<or> rh (prect e) \<le> 0 then None
          else map_option (\<lambda>ms. \<lparr>am_window = window, am_leaf = pleaf e, am_rect = prect e\<rparr> # ms)
            (member_loop descendants m es))"

definition describe_active_group_with_hints ::
  "node \<Rightarrow> rect \<Rightarrow> int \<Rightarrow> node_id \<Rightarrow> (node_id \<rightharpoonup> window_id) \<Rightarrow> (node_id \<Rightarrow> window_size_hints)
    \<Rightarrow> active_group option" where
  "describe_active_group_with_hints tree bounds gap focused m resolve =
     (if focused = [] \<or> \<not> is_opaque_id focused then None
      else case immediate_parent_group tree focused of
        None \<Rightarrow> None
      | Some (Leaf i) \<Rightarrow> None
      | Some (Group group_id a cs sh) \<Rightarrow>
          if \<not> is_opaque_id group_id then None
          else let descendants = collect_descendant_leaves (Group group_id a cs sh) [] in
            if length descendants < 2 then None
            else if focused \<notin> set descendants then None
            else case project_with_hints tree bounds gap resolve of
              Inl e \<Rightarrow> None
            | Inr hinted \<Rightarrow>
                Option.bind (member_loop (set descendants) m (hp_leaves hinted)) (\<lambda>members.
                  if length members \<noteq> length descendants then None
                  else Option.bind (union_rect (map am_rect members)) (\<lambda>u.
                    Some \<lparr>ag_group = group_id, ag_members = members, ag_bounds = u\<rparr>)))"

definition describe_active_group ::
  "node \<Rightarrow> rect \<Rightarrow> int \<Rightarrow> node_id \<Rightarrow> (node_id \<rightharpoonup> window_id) \<Rightarrow> active_group option" where
  "describe_active_group tree bounds gap focused m =
     describe_active_group_with_hints tree bounds gap focused m (\<lambda>_. hints_none)"

subsection \<open>Subtrees\<close>

fun subnodes :: "node \<Rightarrow> node list" where
  "subnodes (Leaf i) = [Leaf i]"
| "subnodes (Group i a cs sh) = Group i a cs sh # concat (map subnodes cs)"

fun children_of :: "node \<Rightarrow> node list" where
  "children_of (Leaf i) = []"
| "children_of (Group i a cs sh) = cs"

lemma collect_descendants [simp]: "collect_descendant_leaves t out = out @ leaves t"
proof (induction t arbitrary: out)
  case (Leaf i)
  then show ?case by simp
next
  case (Group i a cs sh)
  have "foldl (\<lambda>out c. collect_descendant_leaves c out) out cs = out @ concat (map leaves cs)"
    using Group.IH by (induction cs arbitrary: out) auto
  then show ?case by simp
qed

lemma parent_Some:
  "immediate_parent_group t x = Some p \<Longrightarrow>
    p \<in> set (subnodes t) \<and> \<not> is_leaf p \<and> x \<in> ident ` set (children_of p)"
  "immediate_parent_in cs x = Some p \<Longrightarrow>
    (\<exists>c \<in> set cs. p \<in> set (subnodes c)) \<and> \<not> is_leaf p \<and> x \<in> ident ` set (children_of p)"
proof (induction t x and cs x rule: immediate_parent_group_immediate_parent_in.induct)
  case (2 i a cs sh x)
  show ?case
  proof (cases "list_ex (\<lambda>c. ident c = x) cs")
    case True
    then have "x \<in> ident ` set cs" by (auto simp: list_ex_iff)
    then show ?thesis using True "2.prems" by auto
  next
    case False
    then show ?thesis using "2.IH" "2.prems" by auto
  qed
next
  case (4 c cs x)
  show ?case
  proof (cases "immediate_parent_group c x")
    case None
    then show ?thesis using "4.IH"(2) "4.prems" by simp
  next
    case (Some q)
    then show ?thesis using "4.IH"(1) "4.prems" by simp
  qed
qed simp_all

lemma parent_exists:
  "x \<in> set (leaves t) \<Longrightarrow> t \<noteq> Leaf x \<Longrightarrow> immediate_parent_group t x \<noteq> None"
  "\<exists>c \<in> set cs. x \<in> set (leaves c) \<and> c \<noteq> Leaf x \<Longrightarrow> immediate_parent_in cs x \<noteq> None"
proof (induction t x and cs x rule: immediate_parent_group_immediate_parent_in.induct)
  case (2 i a cs sh x)
  show ?case
  proof (cases "list_ex (\<lambda>c. ident c = x) cs")
    case False
    obtain c where c: "c \<in> set cs" "x \<in> set (leaves c)" using "2.prems" by auto
    with False have "c \<noteq> Leaf x" by (auto simp: list_ex_iff)
    with c have "\<exists>c \<in> set cs. x \<in> set (leaves c) \<and> c \<noteq> Leaf x" by blast
    from "2.IH" [OF False this] False show ?thesis by simp
  qed simp
next
  case (4 c cs x)
  show ?case
  proof (cases "immediate_parent_group c x")
    case None
    then have "\<not> (x \<in> set (leaves c) \<and> c \<noteq> Leaf x)" using "4.IH"(1) by blast
    with "4.prems" have "\<exists>c \<in> set cs. x \<in> set (leaves c) \<and> c \<noteq> Leaf x" by simp
    from "4.IH"(2) [OF None this] None show ?thesis by simp
  qed simp
qed simp_all

lemma subnodes_leaves: "p \<in> set (subnodes t) \<Longrightarrow> set (leaves p) \<subseteq> set (leaves t)"
  by (induction t) auto

lemma subnodes_ids: "p \<in> set (subnodes t) \<Longrightarrow> set (node_ids p) \<subseteq> set (node_ids t)"
  by (induction t) auto

lemma distinct_subnodes: "distinct (node_ids t) \<Longrightarrow> p \<in> set (subnodes t) \<Longrightarrow> distinct (node_ids p)"
  by (induction t) (auto dest: distinct_concat_member)

lemma subnodes_wf: "wf_groups t \<Longrightarrow> p \<in> set (subnodes t) \<Longrightarrow> wf_groups p"
  by (induction t) auto

lemma leaves_subset_ids_list: "set (concat (map leaves cs)) \<subseteq> set (concat (map node_ids cs))"
  using leaves_subset_node_ids by (auto dest: subsetD)

lemma distinct_leaves: "distinct (node_ids t) \<Longrightarrow> distinct (leaves t)"
proof (induction t)
  case (Group i a cs sh)
  then have "distinct (concat (map node_ids cs))" by simp
  with Group.IH have "distinct (concat (map leaves cs))"
  proof (induction cs)
    case (Cons c cs)
    have "set (leaves c) \<inter> set (concat (map leaves cs)) = {}"
      using Cons.prems(2) leaves_subset_node_ids [of c] leaves_subset_ids_list [of cs]
      unfolding list.map concat.simps distinct_append by (meson disjoint_iff subsetD)
    with Cons show ?case by simp
  qed simp
  then show ?case by simp
qed simp

text \<open>The leaves of a subtree are a segment of the tree's leaves.\<close>

lemma filter_subtree_leaves:
  "distinct (leaves t) \<Longrightarrow> p \<in> set (subnodes t) \<Longrightarrow> filter (\<lambda>x. x \<in> set (leaves p)) (leaves t) = leaves p"
proof (induction t)
  case (Leaf i)
  then show ?case by simp
next
  case (Group i a cs sh)
  show ?case
  proof (cases "p = Group i a cs sh")
    case True
    then show ?thesis by simp
  next
    case False
    then obtain c where c: "c \<in> set cs" "p \<in> set (subnodes c)" using Group.prems(2) by auto
    obtain us vs where split: "cs = us @ c # vs" using c(1) by (meson split_list)
    have d: "distinct (concat (map leaves us) @ leaves c @ concat (map leaves vs))"
      using Group.prems(1) split by simp
    have sub: "set (leaves p) \<subseteq> set (leaves c)" using c(2) by (rule subnodes_leaves)
    have "filter (\<lambda>x. x \<in> set (leaves p)) (concat (map leaves us)) = []"
      "filter (\<lambda>x. x \<in> set (leaves p)) (concat (map leaves vs)) = []"
      using d sub by (auto simp: filter_empty_conv)
    moreover have "filter (\<lambda>x. x \<in> set (leaves p)) (leaves c) = leaves p"
      using Group.IH [OF c(1)] d c(2) by simp
    ultimately show ?thesis by (simp add: split)
  qed
qed

lemma same_child:
  assumes "distinct (concat (map node_ids cs))" "c \<in> set cs" "c' \<in> set cs" "x \<in> set (node_ids c)" "x \<in> set (node_ids c')"
  shows "c = c'"
proof (rule ccontr)
  assume "c \<noteq> c'"
  then obtain k l where kl: "k < length cs" "l < length cs" "cs ! k = c" "cs ! l = c'" "k \<noteq> l"
    using assms(2,3) by (auto simp: in_set_conv_nth)
  then show False using distinct_concat_nth_neq [OF assms(1) kl(1,2,5)] assms(4,5) by auto
qed

text \<open>A child with a leaf's identity is that leaf.\<close>

lemma child_is_leaf:
  assumes "distinct (node_ids t)" "p \<in> set (subnodes t)" "x \<in> ident ` set (children_of p)" "x \<in> set (leaves p)"
  shows "Leaf x \<in> set (children_of p)"
proof -
  obtain i a cs sh where p: "p = Group i a cs sh" using assms(3) by (cases p) auto
  from assms(3) obtain c where c: "c \<in> set cs" "ident c = x" using p by auto
  from assms(4) obtain c' where c': "c' \<in> set cs" "x \<in> set (leaves c')" using p by auto
  have d: "distinct (concat (map node_ids cs))" using distinct_subnodes [OF assms(1,2)] p by simp
  have "c' = c"
    using d c'(1) c(1) subsetD [OF leaves_subset_node_ids c'(2)] by (rule same_child) (use c(2) in auto)
  moreover have "is_leaf c"
  proof (cases c)
    case (Group j b ds ss)
    have "distinct (node_ids c)" using d c(1) by (rule distinct_concat_member)
    then have "x \<notin> set (concat (map node_ids ds))" using Group c(2) by simp
    then have "x \<notin> set (concat (map leaves ds))" using leaves_subset_ids_list [of ds] by blast
    then show ?thesis using c'(2) \<open>c' = c\<close> Group by simp
  qed simp
  ultimately show ?thesis using c p by (cases c) auto
qed

subsection \<open>Leaves of the hinted projection\<close>

lemma spread_length [simp]: "length (fst (spread_remainder n es)) = length es"
  by (induction n es rule: spread_remainder.induct) (auto simp: Let_def split_beta)

lemma enforce_length: "length mins = length sizes \<Longrightarrow> length (snd (enforce_minimums sizes mins)) = length sizes"
  by (simp add: enforce_minimums_def Let_def split_beta min_floors_def floor_takes_def)

lemma layout_hinted_leaves:
  "layout_hinted t r gap resolve seen = Inr (out, over, seen') \<Longrightarrow> wf_groups t \<Longrightarrow> rect_i32 r \<Longrightarrow>
    map pleaf out = leaves t \<and> (\<forall>l \<in> set out. rect_i32 (prect l))"
  "layout_hinted_in cs sizes a r gap cursor resolve seen = Inr (out, over, seen') \<Longrightarrow>
    \<forall>c \<in> set cs. wf_groups c \<Longrightarrow> rect_i32 r \<Longrightarrow> length sizes = length cs \<Longrightarrow>
    map pleaf out = concat (map leaves cs) \<and> (\<forall>l \<in> set out. rect_i32 (prect l))"
proof (induction t r gap resolve seen and cs sizes a r gap cursor resolve seen
    arbitrary: out over seen' and out over seen' rule: layout_hinted_layout_hinted_in.induct)
  case (1 i r gap resolve seen)
  then show ?case by (auto simp: Let_def)
next
  case (2 i a cs sh r gap resolve seen)
  have ok: "length sh = length cs" "\<forall>c \<in> set cs. wf_groups c" using "2.prems"(2) by (auto simp: group_ok_def)
  obtain tot gaps where tot: "ok_or ''group shares total overflows'' (checked_total 0 sh) = Inr tot"
    "ok_or ''gap budget overflows'' (checked_mul_i64 gap (int (length cs) - 1)) = Inr gaps"
    and l: "layout_hinted_in cs (snd (enforce_minimums
        (proportional_base_sizes sh tot (axis_extent a r - gaps - int (length cs)) (axis_extent a r - gaps))
        (map (\<lambda>c. subtree_min c a gap resolve) cs))) a r gap (axis_origin a r) resolve seen = Inr (out, over, seen')"
    using "2.prems"(1) by (auto simp: Let_def bind_r_Inr_iff)
  have "map pleaf out = concat (map leaves cs) \<and> (\<forall>l \<in> set out. rect_i32 (prect l))"
    by (rule "2.IH" [OF refl refl refl refl refl refl l ok(2) "2.prems"(3)])
      (simp add: enforce_length ok(1))
  then show ?case by simp
next
  case (5 c cs sz sizes a r gap cursor resolve seen)
  obtain here ov sn where h: "in_i32 sz" "in_i32 cursor"
      "layout_hinted c (child_rect a r cursor sz) gap resolve seen = Inr (here, ov, sn)"
    using "5.prems"(1) by (auto simp: bind_r_Inr_iff)
  have first: "map pleaf here = leaves c \<and> (\<forall>l \<in> set here. rect_i32 (prect l))"
    by (rule "5.IH"(1) [OF h(3)]) (use "5.prems"(2,3) h rect_i32_child in auto)
  show ?case
  proof (cases "cs = []")
    case True
    then show ?thesis using "5.prems"(1) h first by (simp add: try_i32_def)
  next
    case False
    obtain cur rest ov' where r: "layout_hinted_in cs sizes a r gap cur resolve sn = Inr (rest, ov', seen')"
        "out = here @ rest"
      and cur: "ok_or ''segment offset overflows''
          (Option.bind (checked_add_i64 cursor sz) (\<lambda>next. checked_add_i64 next gap)) = Inr cur"
      using "5.prems"(1) h False by (auto simp: try_i32_def bind_r_Inr_iff)
    have "map pleaf rest = concat (map leaves cs) \<and> (\<forall>l \<in> set rest. rect_i32 (prect l))"
      by (rule "5.IH"(2) [OF False r(1)])
        (use "5.prems"(2,3,4) h cur in \<open>auto simp: try_i32_def\<close>)
    then show ?thesis using first r(2) by auto
  qed
qed auto

subsection \<open>The union\<close>

text \<open>The least rectangle around a list of rectangles: it holds each and each side touches one.\<close>

definition tight_bounds :: "rect \<Rightarrow> rect list \<Rightarrow> bool" where
  "tight_bounds u rs \<longleftrightarrow> (\<forall>r \<in> set rs. rect_inside r u)
     \<and> (\<exists>r \<in> set rs. rx r = rx u) \<and> (\<exists>r \<in> set rs. ry r = ry u)
     \<and> (\<exists>r \<in> set rs. rx r + rw r = rx u + rw u) \<and> (\<exists>r \<in> set rs. ry r + rh r = ry u + rh u)"

lemma fold_min:
  assumes "xs \<noteq> []" "\<forall>x \<in> set xs. x \<le> (M :: int)"
  shows "fold (\<lambda>x m. min m x) xs M = Min (set xs)"
proof -
  have "fold (\<lambda>x m. min m x) xs M = fold min xs M" by (rule List.fold_cong) (auto simp: min.commute)
  also have "\<dots> = Min (insert M (set xs))" by (metis Min.set_eq_fold list.simps(15))
  also have "\<dots> = min M (Min (set xs))" using assms(1) by (intro Min_insert) auto
  also have "\<dots> = Min (set xs)" using assms Min_in [of "set xs"] by simp
  finally show ?thesis .
qed

lemma fold_max:
  assumes "xs \<noteq> []" "\<forall>x \<in> set xs. (L :: int) \<le> x"
  shows "fold (\<lambda>x m. max m x) xs L = Max (set xs)"
proof -
  have "fold (\<lambda>x m. max m x) xs L = fold max xs L" by (rule List.fold_cong) (auto simp: max.commute)
  also have "\<dots> = Max (insert L (set xs))" by (metis Max.set_eq_fold list.simps(15))
  also have "\<dots> = max L (Max (set xs))" using assms(1) by (intro Max_insert) auto
  also have "\<dots> = Max (set xs)" using assms Max_in [of "set xs"] by simp
  finally show ?thesis .
qed

lemma union_loop_eq:
  "\<forall>r \<in> set rs. rect_i32 r \<Longrightarrow> union_loop rs a b c d =
    (if \<forall>r \<in> set rs. rect_pos r
     then Some (fold (\<lambda>x m. min m x) (map rx rs) a, fold (\<lambda>x m. min m x) (map ry rs) b,
       fold (\<lambda>x m. max m x) (map (\<lambda>r. rx r + rw r) rs) c, fold (\<lambda>x m. max m x) (map (\<lambda>r. ry r + rh r) rs) d)
     else None)"
proof (induction rs arbitrary: a b c d)
  case (Cons r rs)
  have "in_i64 (rx r + rw r)" "in_i64 (ry r + rh r)"
    using Cons.prems by (auto simp: rect_i32_def range_defs)
  then show ?case using Cons by (auto simp: checked_add_i64_def try_i64_def rect_pos_def)
qed simp

lemma union_loop_start:
  assumes "\<forall>r \<in> set rs. rect_i32 r" "rs \<noteq> []"
  shows "union_loop rs i64_max i64_max i64_min i64_min =
    (if \<forall>r \<in> set rs. rect_pos r
     then Some (Min (rx ` set rs), Min (ry ` set rs), Max ((\<lambda>r. rx r + rw r) ` set rs), Max ((\<lambda>r. ry r + rh r) ` set rs))
     else None)"
proof -
  have "\<forall>x \<in> set (map rx rs). x \<le> i64_max" "\<forall>x \<in> set (map ry rs). x \<le> i64_max"
    "\<forall>x \<in> set (map (\<lambda>r. rx r + rw r) rs). i64_min \<le> x" "\<forall>x \<in> set (map (\<lambda>r. ry r + rh r) rs). i64_min \<le> x"
    using assms(1) by (auto simp: rect_i32_def in_i32_def)
  with assms show ?thesis by (simp add: union_loop_eq fold_min fold_max)
qed

lemma union_rect_tight:
  assumes "\<forall>r \<in> set rs. rect_i32 r" "rs \<noteq> []" "union_rect rs = Some u"
  shows "tight_bounds u rs"
proof -
  let ?X = "rx ` set rs" and ?Y = "ry ` set rs"
  let ?R = "(\<lambda>r. rx r + rw r) ` set rs" and ?B = "(\<lambda>r. ry r + rh r) ` set rs"
  have u: "rx u = Min ?X" "ry u = Min ?Y" "rx u + rw u = Max ?R" "ry u + rh u = Max ?B"
    using assms(3) unfolding union_rect_def union_loop_start [OF assms(1,2)]
    by (auto simp: checked_sub_i64_def split: if_splits bind_splits)
  have fin: "finite ?X" "finite ?Y" "finite ?R" "finite ?B" "?X \<noteq> {}" "?Y \<noteq> {}" "?R \<noteq> {}" "?B \<noteq> {}"
    using assms(2) by auto
  have "\<forall>r \<in> set rs. rect_inside r u"
    using u fin by (auto simp: rect_inside_def)
  moreover have "\<exists>r \<in> set rs. rx r = rx u" using Min_in [OF fin(1,5)] u by auto
  moreover have "\<exists>r \<in> set rs. ry r = ry u" using Min_in [OF fin(2,6)] u by auto
  moreover have "\<exists>r \<in> set rs. rx r + rw r = rx u + rw u" using Max_in [OF fin(3,7)] u by auto
  moreover have "\<exists>r \<in> set rs. ry r + rh r = ry u + rh u" using Max_in [OF fin(4,8)] u by auto
  ultimately show ?thesis by (simp add: tight_bounds_def)
qed

lemma union_rect_exists:
  assumes "\<forall>r \<in> set rs. rect_i32 r" "rs \<noteq> []" "\<forall>r \<in> set rs. rect_pos r \<and> rect_inside r b" "rect_i32 b"
  shows "\<exists>u. union_rect rs = Some u"
proof -
  let ?X = "rx ` set rs" and ?Y = "ry ` set rs"
  let ?R = "(\<lambda>r. rx r + rw r) ` set rs" and ?B = "(\<lambda>r. ry r + rh r) ` set rs"
  obtain r where r: "r \<in> set rs" using assms(2) by (cases rs) auto
  have fin: "finite ?X" "finite ?Y" "finite ?R" "finite ?B" "?X \<noteq> {}" "?Y \<noteq> {}" "?R \<noteq> {}" "?B \<noteq> {}"
    using assms(2) by auto
  have "Min ?X \<le> rx r" "Min ?Y \<le> ry r" "rx r + rw r \<le> Max ?R" "ry r + rh r \<le> Max ?B"
    using fin r by auto
  moreover have "rx b \<le> Min ?X" "ry b \<le> Min ?Y" "Max ?R \<le> rx b + rw b" "Max ?B \<le> ry b + rh b"
    using fin assms(3) by (auto simp: rect_inside_def)
  moreover have "rect_pos r" "rect_inside r b" "rect_i32 r" using assms(1,3) r by auto
  ultimately have "in_i32 (Min ?X)" "in_i32 (Min ?Y)" "in_i32 (Max ?R - Min ?X)" "in_i32 (Max ?B - Min ?Y)"
    "0 < Max ?R - Min ?X" "0 < Max ?B - Min ?Y"
    using assms(4) by (auto simp: rect_i32_def in_i32_def rect_pos_def)
  moreover from this have "in_i64 (Max ?R - Min ?X)" "in_i64 (Max ?B - Min ?Y)"
    by (auto intro: in_i32_in_i64)
  moreover have "\<forall>r \<in> set rs. rect_pos r" using assms(3) by blast
  ultimately show ?thesis
    by (simp add: union_rect_def union_loop_start [OF assms(1,2)] checked_sub_i64_def try_i64_def try_i32_def)
qed

subsection \<open>Members\<close>

definition member_of :: "(node_id \<rightharpoonup> window_id) \<Rightarrow> projected_leaf \<Rightarrow> active_group_member" where
  "member_of m e = \<lparr>am_window = the (m (pleaf e)), am_leaf = pleaf e, am_rect = prect e\<rparr>"

definition member_ok :: "(node_id \<rightharpoonup> window_id) \<Rightarrow> projected_leaf \<Rightarrow> bool" where
  "member_ok m e \<longleftrightarrow> (\<exists>w. m (pleaf e) = Some w \<and> is_opaque_id w) \<and> is_opaque_id (pleaf e) \<and> rect_pos (prect e)"

lemma member_loop_eq:
  "member_loop D m es =
    (let sel = filter (\<lambda>e. pleaf e \<in> D) es in
     if list_all (member_ok m) sel then Some (map (member_of m) sel) else None)"
  by (induction D m es rule: member_loop.induct)
    (auto simp: member_ok_def member_of_def rect_pos_def Let_def split: option.splits)

lemma describe_Some:
  assumes "rect_i32 b" "describe_active_group_with_hints t b gap f m resolve = Some ag"
  shows "\<exists>hp p. project_with_hints t b gap resolve = Inr hp \<and> p \<in> set (subnodes t)
    \<and> ident p = ag_group ag \<and> Leaf f \<in> set (children_of p)
    \<and> map am_leaf (ag_members ag) = leaves p
    \<and> (\<forall>k \<in> set (ag_members ag). (\<exists>e \<in> set (hp_leaves hp). pleaf e = am_leaf k \<and> prect e = am_rect k)
        \<and> m (am_leaf k) = Some (am_window k))
    \<and> tight_bounds (ag_bounds ag) (map am_rect (ag_members ag))"
proof -
  from assms(2) obtain g a cs sh hp members u where
    p: "immediate_parent_group t f = Some (Group g a cs sh)"
    and f: "f \<in> set (leaves (Group g a cs sh))" "2 \<le> length (leaves (Group g a cs sh))"
    and hp: "project_with_hints t b gap resolve = Inr hp"
    and mem: "member_loop (set (leaves (Group g a cs sh))) m (hp_leaves hp) = Some members"
      "length members = length (leaves (Group g a cs sh))"
    and u: "union_rect (map am_rect members) = Some u"
    and ag: "ag = \<lparr>ag_group = g, ag_members = members, ag_bounds = u\<rparr>"
    by (auto simp: describe_active_group_with_hints_def Let_def bind_eq_Some_conv
        split: if_splits option.splits node.splits sum.splits)
  let ?p = "Group g a cs sh"
  have sub: "?p \<in> set (subnodes t)" "f \<in> ident ` set (children_of ?p)" using parent_Some(1) [OF p] by auto
  obtain out over seen where pr: "wf_node t" "layout_hinted t b gap resolve {} = Inr (hp_leaves hp, over, seen)"
    using hp by (auto simp: project_with_hints_def bind_r_Inr_iff project_Inr_iff)
  from pr(1) have wf: "wf_groups t" "distinct (node_ids t)" by (auto simp: wf_node_def)
  note proj = layout_hinted_leaves(1) [OF pr(2) wf(1) assms(1)]
  let ?sel = "filter (\<lambda>e. pleaf e \<in> set (leaves ?p)) (hp_leaves hp)"
  have members: "members = map (member_of m) ?sel" "list_all (member_ok m) ?sel"
    using mem(1) by (auto simp: member_loop_eq Let_def split: if_splits)
  have "map am_leaf members = map pleaf ?sel" by (simp add: members(1) member_of_def comp_def)
  also have "\<dots> = filter (\<lambda>x. x \<in> set (leaves ?p)) (leaves t)"
    using proj by (metis (no_types, lifting) filter_map comp_def filter_cong)
  also have "\<dots> = leaves ?p" using distinct_leaves [OF wf(2)] sub(1) by (rule filter_subtree_leaves)
  finally have ls: "map am_leaf members = leaves ?p" .
  have each: "\<forall>k \<in> set members. (\<exists>e \<in> set (hp_leaves hp). pleaf e = am_leaf k \<and> prect e = am_rect k)
      \<and> m (am_leaf k) = Some (am_window k)"
    using members by (auto simp: member_of_def member_ok_def list_all_iff)
  have i32: "\<forall>r \<in> set (map am_rect members). rect_i32 r"
    using proj members(1) by (auto simp: member_of_def)
  have ne: "map am_rect members \<noteq> []" using mem(2) f(2) by (cases members) (simp_all del: leaves.simps)
  have "tight_bounds u (map am_rect members)" by (rule union_rect_tight [OF i32 ne u])
  moreover have "Leaf f \<in> set (children_of ?p)" by (rule child_is_leaf [OF wf(2) sub f(1)])
  ultimately show ?thesis using hp sub(1) ls each ag by fastforce
qed

lemma leaf_in_subtree:
  "distinct (node_ids t) \<Longrightarrow> p \<in> set (subnodes t) \<Longrightarrow> x \<in> set (leaves t) \<Longrightarrow> x \<in> set (node_ids p) \<Longrightarrow> x \<in> set (leaves p)"
proof (induction t)
  case (Leaf i)
  then show ?case by simp
next
  case (Group i a cs sh)
  show ?case
  proof (cases "p = Group i a cs sh")
    case True
    then show ?thesis using Group.prems(3) by simp
  next
    case False
    then obtain c where c: "c \<in> set cs" "p \<in> set (subnodes c)" using Group.prems(2) by auto
    obtain c' where c': "c' \<in> set cs" "x \<in> set (leaves c')" using Group.prems(3) by auto
    have "c = c'"
      using Group.prems(1) c(1) c'(1) subnodes_ids [OF c(2)] Group.prems(4) c'(2) leaves_subset_node_ids [of c']
      by (intro same_child [of cs _ _ x]) auto
    then show ?thesis using Group.IH [OF c(1) _ c(2)] Group.prems c c' by (auto dest: distinct_concat_member)
  qed
qed

lemma subtree_has_leaf: "wf_groups t \<Longrightarrow> 1 \<le> length (leaves t)"
proof (induction t)
  case (Group i a cs sh)
  then obtain c where "c \<in> set cs" "1 \<le> length (leaves c)" by (cases cs) (auto simp: group_ok_def)
  then show ?case by (auto simp: Suc_le_eq)
qed simp

lemma two_leaves:
  assumes "wf_groups (Group i a cs sh)"
  shows "2 \<le> length (leaves (Group i a cs sh))"
proof -
  have "2 \<le> length cs" using assms by (simp add: group_ok_def)
  then obtain c d ds where cs: "cs = c # d # ds" by (metis Suc_le_length_iff numeral_2_eq_2)
  have "1 \<le> length (leaves c)" "1 \<le> length (leaves d)" using assms cs subtree_has_leaf by auto
  then show ?thesis by (simp add: cs)
qed

lemma describe_exists:
  assumes "project t b gap = Inr out" "rect_i32 b" "f \<in> set (leaves t)" "t \<noteq> Leaf f"
    and "list_all is_opaque_id (node_ids t)"
    and mapped: "\<forall>i \<in> set (leaves t). \<exists>w. m i = Some w \<and> is_opaque_id w"
  shows "\<exists>ag. describe_active_group t b gap f m = Some ag"
proof -
  have wf: "wf_groups t" "distinct (node_ids t)" using assms(1) by (auto simp: project_Inr_iff wf_node_def)
  have opaque: "\<forall>i \<in> set (node_ids t). is_opaque_id i" using assms(5) by (simp add: list_all_iff)
  obtain p where p: "immediate_parent_group t f = Some p" using parent_exists(1) [OF assms(3,4)] by auto
  note ps = parent_Some(1) [OF p]
  then obtain g a cs sh where g: "p = Group g a cs sh" by (cases p) auto
  have sub: "p \<in> set (subnodes t)" using ps by simp
  have "f \<in> set (node_ids p)" using ps ident_in_node_ids g by fastforce
  then have fl: "f \<in> set (leaves p)" by (rule leaf_in_subtree [OF wf(2) sub assms(3)])
  have two: "2 \<le> length (leaves p)" using two_leaves subnodes_wf [OF wf(1) sub] unfolding g .
  have ids: "is_opaque_id f" "is_opaque_id g" "f \<noteq> []"
    using opaque assms(3) leaves_subset_node_ids [of t] subnodes_ids [OF sub] g by (auto simp: is_opaque_id_def)
  let ?sel = "filter (\<lambda>e. pleaf e \<in> set (leaves p)) out"
  have hp: "project_with_hints t b gap (\<lambda>_. hints_none) = Inr \<lparr>hp_leaves = out, hp_overconstrained = []\<rparr>"
    using unhinted_plain [of "\<lambda>_. hints_none" b t gap] assms(1,2) by (simp add: unhinted_def hints_none_def meaningful_def)
  have lay: "map pleaf out = leaves t" "\<forall>l \<in> set out. rect_inside (prect l) b \<and> rect_pos (prect l)"
    using project_layout_ok [OF assms(1,2)] by (auto simp: layout_ok_def)
  have "member_ok m e" if "e \<in> set out" for e
  proof -
    have e: "pleaf e \<in> set (leaves t)" using that lay(1) by (metis image_eqI set_map)
    then have "is_opaque_id (pleaf e)" using opaque leaves_subset_node_ids [of t] by blast
    then show ?thesis using mapped e lay(2) that by (simp add: member_ok_def)
  qed
  then have "list_all (member_ok m) ?sel" by (simp add: list_all_iff)
  then have mem: "member_loop (set (leaves p)) m out = Some (map (member_of m) ?sel)"
    by (simp add: member_loop_eq Let_def)
  have "map pleaf ?sel = filter (\<lambda>x. x \<in> set (leaves p)) (leaves t)"
    unfolding lay(1) [symmetric] by (simp add: filter_map comp_def)
  also have "\<dots> = leaves p" using distinct_leaves [OF wf(2)] sub by (rule filter_subtree_leaves)
  finally have len: "length ?sel = length (leaves p)" by (metis length_map)
  let ?rs = "map am_rect (map (member_of m) ?sel)"
  have "?rs \<noteq> []" using len two by (metis list.size(3) length_map not_numeral_le_zero)
  moreover have "\<forall>r \<in> set ?rs. rect_pos r \<and> rect_inside r b" using lay(2) by (auto simp: member_of_def)
  moreover have "\<forall>r \<in> set ?rs. rect_i32 r"
    using layout_hinted_leaves(1) [of t b gap "\<lambda>_. hints_none"] hp wf(1) assms(2)
    by (auto simp: project_with_hints_def bind_r_Inr_iff member_of_def)
  ultimately obtain u where u: "union_rect ?rs = Some u" using union_rect_exists assms(2) by blast
  show ?thesis
    using p g ids two fl hp mem len u
    by (simp add: describe_active_group_def describe_active_group_with_hints_def Let_def)
qed

subsection \<open>Properties\<close>

text \<open>
  C40. An active group is sound: the group is the parent of the focused leaf, its members are exactly
  the leaves below it in tree order, each with the rectangle of the hint-aware projection and its
  mapped window, and the bounds are the least rectangle around them.
\<close>

theorem active_group_sound:
  assumes "rect_i32 b" "describe_active_group_with_hints t b gap f m resolve = Some ag"
  shows "\<exists>hp p. project_with_hints t b gap resolve = Inr hp \<and> p \<in> set (subnodes t)
    \<and> ident p = ag_group ag \<and> Leaf f \<in> set (children_of p)
    \<and> map am_leaf (ag_members ag) = leaves p
    \<and> (\<forall>k \<in> set (ag_members ag). (\<exists>e \<in> set (hp_leaves hp). pleaf e = am_leaf k \<and> prect e = am_rect k)
        \<and> m (am_leaf k) = Some (am_window k))
    \<and> tight_bounds (ag_bounds ag) (map am_rect (ag_members ag))"
  by (rule describe_Some [OF assms])

definition example_windows :: "node_id \<rightharpoonup> window_id" where
  "example_windows = Map.empty(''a'' := Some ''wa'', ''b'' := Some ''wb'', ''c'' := Some ''wc'')"

lemma example_active_group:
  "\<exists>ag. describe_active_group example_tree example_bounds 8 ''b'' example_windows = Some ag"
  by (rule describe_exists [OF example_project example_bounds_i32])
    (simp_all add: example_tree_def example_windows_def is_opaque_id_def token_char_def max_opaque_id_len_def
      is_ascii_alphanumeric_def is_ascii_lowercase_def)

theorem active_group_sound_witness:
  "\<exists>ag p. describe_active_group example_tree example_bounds 8 ''b'' example_windows = Some ag
    \<and> p \<in> set (subnodes example_tree) \<and> Leaf ''b'' \<in> set (children_of p)
    \<and> tight_bounds (ag_bounds ag) (map am_rect (ag_members ag))"
proof -
  obtain ag where "describe_active_group_with_hints example_tree example_bounds 8 ''b'' example_windows
      (\<lambda>_. hints_none) = Some ag"
    using example_active_group by (auto simp: describe_active_group_def)
  from active_group_sound [OF example_bounds_i32 this] this show ?thesis
    unfolding describe_active_group_def by blast
qed

text \<open>
  Whenever the tree projects, its identities are opaque and every leaf has an opaque window, a
  focused leaf that is not the root has an active group.
\<close>

theorem active_group_total:
  assumes "project t b gap = Inr out" "rect_i32 b" "f \<in> set (leaves t)" "t \<noteq> Leaf f"
    and "list_all is_opaque_id (node_ids t)"
    and "\<forall>i \<in> set (leaves t). \<exists>w. m i = Some w \<and> is_opaque_id w"
  shows "\<exists>ag. describe_active_group t b gap f m = Some ag"
  by (rule describe_exists [OF assms])

theorem active_group_total_witness:
  "\<exists>ag. describe_active_group example_tree example_bounds 8 ''b'' example_windows = Some ag"
  by (rule active_group_total [OF example_project example_bounds_i32])
    (simp_all add: example_tree_def example_windows_def is_opaque_id_def token_char_def max_opaque_id_len_def
      is_ascii_alphanumeric_def is_ascii_lowercase_def)

end
