(* ===== verification/Workspace_Policy.thy ===== *)
theory Workspace_Policy
  imports TilerPrelude
begin

text \<open>
  \<open>tiler-core/src/workspace.rs\<close>: selection by ordinal, the trailing-workspace plan and the output
  that takes over displaced windows. The distance of \<open>choose_displaced_destination\<close> is computed in
  \<open>f64\<close> and only compared; it is an argument with values in a linear order.
\<close>

definition min_workspaces :: nat where
  "min_workspaces = 2"

definition max_ordered :: nat where
  "max_ordered = 32"

definition select_existing :: "nat \<Rightarrow> nat \<Rightarrow> nat option" where
  "select_existing order_len index =
     (if \<not> (1 \<le> index \<and> index \<le> 9) then None
      else let pos = index - 1 in if pos < order_len then Some pos else None)"

definition resolve_send_target :: "nat \<Rightarrow> nat \<Rightarrow> nat option" where
  "resolve_send_target = select_existing"

record workspace_facts =
  wsf_empty :: bool
  wsf_visible :: bool
  wsf_occupied :: bool
  wsf_retained :: bool

record trailing_plan =
  tp_remove :: "nat list"
  tp_need_append :: bool

definition kept_by_facts :: "workspace_facts \<Rightarrow> bool" where
  "kept_by_facts f \<longleftrightarrow> \<not> wsf_empty f \<or> wsf_visible f \<or> wsf_occupied f \<or> wsf_retained f"

text \<open>The \<open>while\<close> loop that takes removals back from the front.\<close>

fun spare_minimum :: "nat \<Rightarrow> nat list \<Rightarrow> nat list" where
  "spare_minimum n [] = []"
| "spare_minimum n (r # rs) =
     (if n - length (r # rs) < min_workspaces then spare_minimum n rs else r # rs)"

definition plan_trailing :: "workspace_facts list \<Rightarrow> trailing_plan" where
  "plan_trailing facts =
     (if facts = [] then \<lparr>tp_remove = [], tp_need_append = True\<rparr>
      else
        let n = length facts; final = n - 1;
            trailing_empty = (wsf_empty (facts ! final) \<and> \<not> wsf_occupied (facts ! final));
            remove = filter (\<lambda>i. \<not> (i = final \<and> trailing_empty) \<and> \<not> kept_by_facts (facts ! i)) [0..<n];
            remove = spare_minimum n remove;
            remaining = filter (\<lambda>i. i \<notin> set remove) [0..<n];
            trailing_ok = (case remaining of [] \<Rightarrow> False
              | _ \<Rightarrow> wsf_empty (facts ! last remaining) \<and> \<not> wsf_occupied (facts ! last remaining))
        in \<lparr>tp_remove = remove, tp_need_append = (\<not> trailing_ok \<or> length remaining < min_workspaces)\<rparr>)"

definition trailing_reusable :: "bool \<Rightarrow> bool \<Rightarrow> bool" where
  "trailing_reusable last_empty last_occupied \<longleftrightarrow> last_empty \<and> \<not> last_occupied"

record displaced_rect =
  dr_x :: int
  dr_y :: int
  dr_w :: int
  dr_h :: int

record survivor =
  sv_key :: string
  sv_rect :: "displaced_rect option"

fun nearest_loop ::
  "(displaced_rect \<Rightarrow> 'd::linorder) \<Rightarrow> survivor list \<Rightarrow> (string \<times> 'd) option \<Rightarrow> (string \<times> 'd) option" where
  "nearest_loop dist [] best = best"
| "nearest_loop dist (c # cs) best =
     (case sv_rect c of
        None \<Rightarrow> nearest_loop dist cs best
      | Some r \<Rightarrow>
          if (case best of None \<Rightarrow> True | Some (k, d) \<Rightarrow> dist r < d)
          then nearest_loop dist cs (Some (sv_key c, dist r))
          else nearest_loop dist cs best)"

definition choose_displaced_destination ::
  "(displaced_rect \<Rightarrow> displaced_rect \<Rightarrow> 'd::linorder) \<Rightarrow> survivor list \<Rightarrow> string option
    \<Rightarrow> displaced_rect option \<Rightarrow> string option" where
  "choose_displaced_destination dist survivors active reference =
     (case survivors of
        [] \<Rightarrow> None
      | [s] \<Rightarrow> Some (sv_key s)
      | s # _ \<Rightarrow>
          (case (case reference of None \<Rightarrow> None | Some r \<Rightarrow> nearest_loop (dist r) survivors None) of
             Some (key, d) \<Rightarrow> Some key
           | None \<Rightarrow>
               (case active of
                  Some a \<Rightarrow> if list_ex (\<lambda>s. sv_key s = a) survivors then Some a else Some (sv_key s)
                | None \<Rightarrow> Some (sv_key s))))"

subsection \<open>The trailing plan\<close>

lemma spare_minimum_suffix: "\<exists>us. rs = us @ spare_minimum n rs"
proof (induction n rs rule: spare_minimum.induct)
  case (2 n r rs)
  show ?case
  proof (cases "n - length (r # rs) < min_workspaces")
    case True
    with 2 obtain us where "rs = us @ spare_minimum n rs" by blast
    then have "r # rs = (r # us) @ spare_minimum n rs" by simp
    with True show ?thesis by (metis spare_minimum.simps(2))
  qed simp
qed simp

lemma spare_minimum_subset: "set (spare_minimum n rs) \<subseteq> set rs"
  using spare_minimum_suffix [of rs n] by (metis set_append sup_ge2)

lemma spare_minimum_room: "spare_minimum n rs \<noteq> [] \<Longrightarrow> min_workspaces \<le> n - length (spare_minimum n rs)"
  by (induction n rs rule: spare_minimum.induct) (auto split: if_splits)

text \<open>Removals are taken back only down to the minimum.\<close>

lemma spare_minimum_least:
  "spare_minimum n rs \<noteq> rs \<Longrightarrow> n - length (spare_minimum n rs) \<le> min_workspaces"
proof (induction n rs rule: spare_minimum.induct)
  case (2 n r rs)
  show ?case
  proof (cases "n - length (r # rs) < min_workspaces \<and> spare_minimum n rs = rs")
    case True
    then have "n - length rs \<le> min_workspaces" by (simp only: list.size) arith
    with True show ?thesis by simp
  next
    case False
    then show ?thesis using 2 by (auto split: if_splits)
  qed
qed simp

definition expendable :: "workspace_facts list \<Rightarrow> nat \<Rightarrow> bool" where
  "expendable facts i \<longleftrightarrow> i < length facts \<and> \<not> kept_by_facts (facts ! i)
     \<and> \<not> (i = length facts - 1 \<and> wsf_empty (facts ! i) \<and> \<not> wsf_occupied (facts ! i))"

definition remaining_indices :: "workspace_facts list \<Rightarrow> nat list" where
  "remaining_indices facts = filter (\<lambda>i. i \<notin> set (tp_remove (plan_trailing facts))) [0..<length facts]"

definition trailing_empty_at :: "workspace_facts list \<Rightarrow> nat list \<Rightarrow> bool" where
  "trailing_empty_at facts is' \<longleftrightarrow> is' \<noteq> [] \<and> wsf_empty (facts ! last is') \<and> \<not> wsf_occupied (facts ! last is')"

lemma plan_trailing_eq:
  "tp_remove (plan_trailing facts)
     = spare_minimum (length facts) (filter (expendable facts) [0..<length facts])"
  "tp_need_append (plan_trailing facts) \<longleftrightarrow>
     \<not> trailing_empty_at facts (remaining_indices facts) \<or> length (remaining_indices facts) < min_workspaces"
proof -
  have eq: "filter (\<lambda>i. \<not> (i = length facts - 1 \<and> wsf_empty (facts ! (length facts - 1))
        \<and> \<not> wsf_occupied (facts ! (length facts - 1))) \<and> \<not> kept_by_facts (facts ! i)) [0..<length facts]
      = filter (expendable facts) [0..<length facts]"
    by (rule filter_cong) (auto simp: expendable_def)
  show remove: "tp_remove (plan_trailing facts)
     = spare_minimum (length facts) (filter (expendable facts) [0..<length facts])"
    unfolding plan_trailing_def Let_def eq by (cases "facts = []") simp_all
  show "tp_need_append (plan_trailing facts) \<longleftrightarrow>
     \<not> trailing_empty_at facts (remaining_indices facts) \<or> length (remaining_indices facts) < min_workspaces"
    unfolding remaining_indices_def remove unfolding plan_trailing_def Let_def eq
    by (cases "facts = []") (simp_all add: trailing_empty_at_def min_workspaces_def split: list.split)
qed

lemma remaining_length:
  "length (remaining_indices facts) = length facts - length (tp_remove (plan_trailing facts))"
proof -
  let ?r = "tp_remove (plan_trailing facts)"
  obtain us where us: "filter (expendable facts) [0..<length facts] = us @ ?r"
    using spare_minimum_suffix plan_trailing_eq(1) by metis
  have "distinct (us @ ?r)" unfolding us [symmetric] by simp
  then have d: "distinct ?r" by simp
  have "set (us @ ?r) \<subseteq> {0..<length facts}" unfolding us [symmetric] by auto
  then have s: "set ?r \<subseteq> {0..<length facts}" by simp
  have "length (remaining_indices facts) = card ({0..<length facts} - set ?r)"
    unfolding remaining_indices_def by (subst distinct_card [symmetric]) (auto intro!: arg_cong [of _ _ card])
  also have "\<dots> = length facts - card (set ?r)" using s by (simp add: card_Diff_subset)
  finally show ?thesis using d by (simp add: distinct_card)
qed

lemma plan_trailing_ok:
  "list_all (expendable facts) (tp_remove (plan_trailing facts))
    \<and> min (length facts) min_workspaces \<le> length (remaining_indices facts)
    \<and> (min_workspaces < length (remaining_indices facts) \<longrightarrow> \<not> list_ex (expendable facts) (remaining_indices facts))
    \<and> (tp_need_append (plan_trailing facts) \<longleftrightarrow>
        \<not> (trailing_empty_at facts (remaining_indices facts) \<and> min_workspaces \<le> length (remaining_indices facts)))"
proof (intro conjI impI)
  let ?c = "filter (expendable facts) [0..<length facts]" and ?n = "length facts"
  have sub: "set (tp_remove (plan_trailing facts)) \<subseteq> set ?c"
    unfolding plan_trailing_eq by (rule spare_minimum_subset)
  then show "list_all (expendable facts) (tp_remove (plan_trailing facts))"
    by (auto simp: list_all_iff)
  show "min ?n min_workspaces \<le> length (remaining_indices facts)"
    using spare_minimum_room [of ?n ?c] unfolding remaining_length plan_trailing_eq
    by (cases "spare_minimum ?n ?c = []") auto
  show "\<not> list_ex (expendable facts) (remaining_indices facts)"
    if "min_workspaces < length (remaining_indices facts)"
  proof -
    have "tp_remove (plan_trailing facts) = ?c"
      using that spare_minimum_least [of ?n ?c] unfolding remaining_length plan_trailing_eq by linarith
    then show ?thesis by (auto simp: remaining_indices_def list_ex_iff)
  qed
  show "tp_need_append (plan_trailing facts) \<longleftrightarrow>
      \<not> (trailing_empty_at facts (remaining_indices facts) \<and> min_workspaces \<le> length (remaining_indices facts))"
    unfolding plan_trailing_eq(2) by auto
qed

subsection \<open>The displaced destination\<close>

definition nearest_of :: "(displaced_rect \<Rightarrow> 'd::linorder) \<Rightarrow> survivor list \<Rightarrow> string \<Rightarrow> 'd \<Rightarrow> bool" where
  "nearest_of dist cs key d \<longleftrightarrow> (\<exists>c \<in> set cs. \<exists>r. sv_rect c = Some r \<and> key = sv_key c \<and> d = dist r)
     \<and> (\<forall>c \<in> set cs. \<forall>r. sv_rect c = Some r \<longrightarrow> d \<le> dist r)"

lemma nearest_loop_ok:
  "nearest_loop dist cs best = Some (key, d) \<Longrightarrow>
    (best = Some (key, d) \<or> (\<exists>c \<in> set cs. \<exists>r. sv_rect c = Some r \<and> key = sv_key c \<and> d = dist r))
    \<and> (\<forall>c \<in> set cs. \<forall>r. sv_rect c = Some r \<longrightarrow> d \<le> dist r)
    \<and> (\<forall>k e. best = Some (k, e) \<longrightarrow> d \<le> e)"
proof (induction dist cs best arbitrary: key d rule: nearest_loop.induct)
  case (1 dist best)
  then show ?case by simp
next
  case (2 dist c cs best)
  show ?case
  proof (cases "sv_rect c")
    case None
    then show ?thesis using 2 by simp
  next
    case (Some r)
    show ?thesis
    proof (cases "case best of None \<Rightarrow> True | Some (k, e) \<Rightarrow> dist r < e")
      case True
      with 2 Some have IH: "(key = sv_key c \<and> d = dist r
          \<or> (\<exists>c \<in> set cs. \<exists>r. sv_rect c = Some r \<and> key = sv_key c \<and> d = dist r))
        \<and> (\<forall>c \<in> set cs. \<forall>r. sv_rect c = Some r \<longrightarrow> d \<le> dist r) \<and> d \<le> dist r"
        by (fastforce split: if_splits)
      with Some True show ?thesis by (auto split: option.splits)
    next
      case False
      then obtain k e where b: "best = Some (k, e)" "e \<le> dist r" by (auto split: option.splits)
      with 2 Some False have "(best = Some (key, d)
          \<or> (\<exists>c \<in> set cs. \<exists>r. sv_rect c = Some r \<and> key = sv_key c \<and> d = dist r))
        \<and> (\<forall>c \<in> set cs. \<forall>r. sv_rect c = Some r \<longrightarrow> d \<le> dist r) \<and> d \<le> e"
        by (auto split: if_splits)
      with Some b show ?thesis by auto
    qed
  qed
qed

lemma nearest_loop_None: "nearest_loop dist cs best = None \<longleftrightarrow> best = None \<and> (\<forall>c \<in> set cs. sv_rect c = None)"
  by (induction dist cs best rule: nearest_loop.induct) (auto split: option.splits)

lemma destination_ok:
  "case choose_displaced_destination dist ss active reference of
      None \<Rightarrow> ss = []
    | Some key \<Rightarrow> key \<in> sv_key ` set ss
        \<and> (\<forall>r. reference = Some r \<longrightarrow> 2 \<le> length ss \<longrightarrow> (\<exists>c \<in> set ss. sv_rect c \<noteq> None) \<longrightarrow> (\<exists>d. nearest_of (dist r) ss key d))"
proof (cases "length ss < 2")
  case True
  then show ?thesis
    by (cases ss; cases "tl ss") (auto simp: choose_displaced_destination_def)
next
  case False
  then obtain a b cs where ss: "ss = a # b # cs"
    by (metis Suc_le_length_iff not_less numeral_2_eq_2)
  define near where "near = (case reference of None \<Rightarrow> None | Some r \<Rightarrow> nearest_loop (dist r) ss None)"
  show ?thesis
  proof (cases near)
    case None
    then have "\<forall>r. reference = Some r \<longrightarrow> (\<forall>c \<in> set ss. sv_rect c = None)"
      by (auto simp: near_def nearest_loop_None split: option.splits)
    moreover have "choose_displaced_destination dist ss active reference =
        (case active of Some k \<Rightarrow> if list_ex (\<lambda>s. sv_key s = k) ss then Some k else Some (sv_key a)
         | None \<Rightarrow> Some (sv_key a))"
      using None unfolding choose_displaced_destination_def near_def ss by simp
    ultimately show ?thesis by (auto simp: ss list_ex_iff split: option.splits if_splits)
  next
    case (Some kd)
    obtain k d where kd: "kd = (k, d)" by (cases kd)
    with Some obtain r where r: "reference = Some r" "nearest_loop (dist r) ss None = Some (k, d)"
      by (auto simp: near_def split: option.splits)
    then have "nearest_of (dist r) ss k d"
      using nearest_loop_ok [OF r(2)] by (auto simp: nearest_of_def)
    moreover have "choose_displaced_destination dist ss active reference = Some k"
      using Some kd unfolding choose_displaced_destination_def near_def ss by simp
    moreover from calculation(1) have "k \<in> sv_key ` set ss" by (auto simp: nearest_of_def)
    ultimately show ?thesis using r(1) by auto
  qed
qed

subsection \<open>Properties\<close>

text \<open>
  The trailing plan removes only workspaces that are empty, hidden, unoccupied and not retained,
  and not the trailing empty one; it never goes below two workspaces, or below what there was;
  above two nothing removable stays; and it asks for an appended workspace exactly when the last
  remaining one is not free or fewer than two remain.
\<close>

theorem trailing_plan_correct:
  "list_all (expendable facts) (tp_remove (plan_trailing facts))
    \<and> min (length facts) min_workspaces \<le> length (remaining_indices facts)
    \<and> (min_workspaces < length (remaining_indices facts) \<longrightarrow> \<not> list_ex (expendable facts) (remaining_indices facts))
    \<and> (tp_need_append (plan_trailing facts) \<longleftrightarrow>
        \<not> (trailing_empty_at facts (remaining_indices facts) \<and> min_workspaces \<le> length (remaining_indices facts)))"
  by (rule plan_trailing_ok)

definition example_facts :: "workspace_facts list" where
  "example_facts =
     [\<lparr>wsf_empty = True, wsf_visible = False, wsf_occupied = False, wsf_retained = False\<rparr>,
      \<lparr>wsf_empty = False, wsf_visible = True, wsf_occupied = False, wsf_retained = False\<rparr>,
      \<lparr>wsf_empty = False, wsf_visible = False, wsf_occupied = False, wsf_retained = False\<rparr>,
      \<lparr>wsf_empty = True, wsf_visible = False, wsf_occupied = False, wsf_retained = False\<rparr>]"

lemma example_facts_plan:
  "plan_trailing example_facts = \<lparr>tp_remove = [0], tp_need_append = False\<rparr>"
  by code_simp

lemma example_facts_remaining: "remaining_indices example_facts = [1, 2, 3]"
  unfolding remaining_indices_def example_facts_plan by (simp add: example_facts_def upt_rec)

theorem trailing_plan_correct_witness:
  "plan_trailing example_facts = \<lparr>tp_remove = [0], tp_need_append = False\<rparr>
    \<and> \<not> list_ex (expendable example_facts) [1, 2, 3]"
  using trailing_plan_correct [of example_facts]
  unfolding example_facts_plan example_facts_remaining by (simp add: min_workspaces_def)

text \<open>
  The destination of displaced windows is always one of the surviving outputs, and none only
  when there is none; with a reference rectangle and a survivor of known geometry it is one
  nearest to the reference.
\<close>

theorem displaced_destination_nearest:
  "case choose_displaced_destination dist ss active reference of
      None \<Rightarrow> ss = []
    | Some key \<Rightarrow> key \<in> sv_key ` set ss
        \<and> (\<forall>r. reference = Some r \<longrightarrow> 2 \<le> length ss \<longrightarrow> (\<exists>c \<in> set ss. sv_rect c \<noteq> None) \<longrightarrow> (\<exists>d. nearest_of (dist r) ss key d))"
  by (rule destination_ok)

theorem displaced_destination_nearest_witness:
  "\<exists>d. nearest_of (\<lambda>r. \<bar>dr_x r\<bar>)
    [\<lparr>sv_key = ''A'', sv_rect = Some \<lparr>dr_x = 9, dr_y = 0, dr_w = 1, dr_h = 1\<rparr>\<rparr>,
     \<lparr>sv_key = ''B'', sv_rect = Some \<lparr>dr_x = -3, dr_y = 0, dr_w = 1, dr_h = 1\<rparr>\<rparr>] ''B'' d"
  using displaced_destination_nearest [where dist = "\<lambda>_ r. \<bar>dr_x r\<bar>" and active = None
    and ss = "[\<lparr>sv_key = ''A'', sv_rect = Some \<lparr>dr_x = 9, dr_y = 0, dr_w = 1, dr_h = 1\<rparr>\<rparr>,
     \<lparr>sv_key = ''B'', sv_rect = Some \<lparr>dr_x = -3, dr_y = 0, dr_w = 1, dr_h = 1\<rparr>\<rparr>]"
    and reference = "Some \<lparr>dr_x = 0, dr_y = 0, dr_w = 1, dr_h = 1\<rparr>"]
  by (simp add: choose_displaced_destination_def)

end
