(* ===== verification/Ordered_Map.thy ===== *)
theory Ordered_Map
  imports TilerPrelude "HOL-Library.List_Lexorder" "HOL-Library.Char_ord"
begin

text \<open>
  Rust's \<open>BTreeMap\<close>: an association list in strictly increasing key order, so that iteration order
  and equality are those of the code. The locale \<open>ordered_map\<close> is the contract the session relies
  on; \<open>om\<close> is its interpretation on the association lists.
\<close>

type_synonym ('k, 'v) omap = "('k \<times> 'v) list"

definition om_empty :: "('k, 'v) omap" where
  "om_empty = []"

definition om_get :: "('k, 'v) omap \<Rightarrow> 'k \<Rightarrow> 'v option" where
  "om_get m k = map_of m k"

definition om_contains :: "('k, 'v) omap \<Rightarrow> 'k \<Rightarrow> bool" where
  "om_contains m k \<longleftrightarrow> om_get m k \<noteq> None"

fun om_insert :: "'k::linorder \<Rightarrow> 'v \<Rightarrow> ('k, 'v) omap \<Rightarrow> ('k, 'v) omap" where
  "om_insert k v [] = [(k, v)]"
| "om_insert k v ((j, w) # m) =
     (if k < j then (k, v) # (j, w) # m
      else if k = j then (k, v) # m
      else (j, w) # om_insert k v m)"

definition om_remove :: "'k \<Rightarrow> ('k, 'v) omap \<Rightarrow> ('k, 'v) omap" where
  "om_remove k m = filter (\<lambda>(j, w). j \<noteq> k) m"

definition om_keys :: "('k, 'v) omap \<Rightarrow> 'k list" where
  "om_keys m = map fst m"

definition om_values :: "('k, 'v) omap \<Rightarrow> 'v list" where
  "om_values m = map snd m"

definition om_map_values :: "('v \<Rightarrow> 'w) \<Rightarrow> ('k, 'v) omap \<Rightarrow> ('k, 'w) omap" where
  "om_map_values f m = map (\<lambda>(k, v). (k, f v)) m"

text \<open>Collecting an iterator of pairs: the last value of a key wins.\<close>

definition om_from_list :: "('k::linorder \<times> 'v) list \<Rightarrow> ('k, 'v) omap" where
  "om_from_list kvs = foldl (\<lambda>m (k, v). om_insert k v m) om_empty kvs"

definition om_ok :: "('k::linorder, 'v) omap \<Rightarrow> bool" where
  "om_ok m \<longleftrightarrow> sorted_wrt (<) (om_keys m)"

subsection \<open>Lookup\<close>

lemma om_get_empty [simp]: "om_get om_empty k = None"
  by (simp add: om_get_def om_empty_def)

lemma om_ok_empty [simp]: "om_ok om_empty"
  by (simp add: om_ok_def om_empty_def om_keys_def)

lemma om_get_insert [simp]: "om_get (om_insert k v m) j = (if j = k then Some v else om_get m j)"
  by (induction k v m rule: om_insert.induct) (auto simp: om_get_def)

lemma om_get_remove [simp]: "om_get (om_remove k m) j = (if j = k then None else om_get m j)"
  by (induction m) (auto simp: om_get_def om_remove_def)

lemma om_get_map_values [simp]: "om_get (om_map_values f m) k = map_option f (om_get m k)"
  by (simp add: om_get_def om_map_values_def map_of_map)

lemma om_contains_insert [simp]: "om_contains (om_insert k v m) j \<longleftrightarrow> j = k \<or> om_contains m j"
  by (simp add: om_contains_def)

lemma om_contains_remove [simp]: "om_contains (om_remove k m) j \<longleftrightarrow> j \<noteq> k \<and> om_contains m j"
  by (simp add: om_contains_def)

lemma om_contains_empty [simp]: "\<not> om_contains om_empty k"
  by (simp add: om_contains_def)

lemma om_keys_contains [simp]: "k \<in> set (om_keys m) \<longleftrightarrow> om_contains m k"
  by (simp add: om_keys_def om_contains_def om_get_def map_of_eq_None_iff)

lemma om_keys_insert: "set (om_keys (om_insert k v m)) = insert k (set (om_keys m))"
  by auto

lemma om_ok_insert [simp]:
  assumes "om_ok m"
  shows "om_ok (om_insert k v m)"
  using assms
proof (induction k v m rule: om_insert.induct)
  case (1 k v)
  then show ?case by (simp add: om_ok_def om_keys_def)
next
  case (2 k v j w m)
  have tl: "om_ok m" "\<forall>i \<in> set (om_keys m). j < i" using "2.prems" by (auto simp: om_ok_def om_keys_def)
  show ?case
  proof (cases "k < j \<or> k = j")
    case True
    with "2.prems" show ?thesis by (auto simp: om_ok_def om_keys_def)
  next
    case False
    then have "om_ok (om_insert k v m)" using "2.IH" tl(1) by auto
    moreover have "\<forall>i \<in> set (om_keys (om_insert k v m)). j < i"
      using tl(2) False unfolding om_keys_insert by auto
    ultimately show ?thesis using False by (auto simp: om_ok_def om_keys_def)
  qed
qed

lemma om_ok_filter: "om_ok m \<Longrightarrow> om_ok (filter P m)"
  by (induction m) (auto simp: om_ok_def om_keys_def)

lemma om_ok_remove [simp]: "om_ok m \<Longrightarrow> om_ok (om_remove k m)"
  by (simp add: om_remove_def om_ok_filter)

lemma om_keys_map_values [simp]: "om_keys (om_map_values f m) = om_keys m"
  by (simp add: om_keys_def om_map_values_def comp_def split_beta)

lemma om_ok_map_values [simp]: "om_ok (om_map_values f m) \<longleftrightarrow> om_ok m"
  by (simp add: om_ok_def)

lemma om_ok_distinct: "om_ok m \<Longrightarrow> distinct (om_keys m)"
  unfolding om_ok_def by (simp add: strict_sorted_iff)

lemma om_length_keys: "length (om_keys m) = length m"
  by (simp add: om_keys_def)

lemma om_get_iff: "om_ok m \<Longrightarrow> om_get m k = Some v \<longleftrightarrow> (k, v) \<in> set m"
  using om_ok_distinct [of m] by (simp add: om_get_def om_keys_def)

lemma om_in_values: "om_ok m \<Longrightarrow> v \<in> set (om_values m) \<longleftrightarrow> (\<exists>k. om_get m k = Some v)"
  by (force simp: om_get_iff om_values_def)

text \<open>A \<open>BTreeMap\<close> is determined by its lookups.\<close>

lemma om_ext:
  assumes "om_ok m" "om_ok n" "\<And>k. om_get m k = om_get n k"
  shows "m = n"
proof -
  have "set (om_keys m) = set (om_keys n)"
    using assms(3) by (auto simp: set_eq_iff om_contains_def)
  then have keys: "map fst m = map fst n"
    using assms(1,2) unfolding om_ok_def om_keys_def by (intro strict_sorted_equal) auto
  have "map_of m = map_of n" using assms(3) by (auto simp: om_get_def)
  moreover have "map snd m = map (\<lambda>k. the (map_of m k)) (map fst m)"
    "map snd n = map (\<lambda>k. the (map_of n k)) (map fst n)"
    using om_ok_distinct [OF assms(1)] om_ok_distinct [OF assms(2)] by (auto simp: om_keys_def)
  ultimately have "map snd m = map snd n" using keys by metis
  with keys show ?thesis by (metis zip_map_fst_snd)
qed

lemma om_from_list_snoc: "om_from_list (kvs @ [(k, v)]) = om_insert k v (om_from_list kvs)"
  by (simp add: om_from_list_def)

lemma om_ok_from_list [simp]: "om_ok (om_from_list kvs)"
  by (induction kvs rule: rev_induct) (auto simp: om_from_list_snoc, simp add: om_from_list_def)

lemma om_get_from_list: "om_get (om_from_list kvs) k = map_of (rev kvs) k"
  by (induction kvs rule: rev_induct) (auto simp: om_from_list_snoc, simp add: om_from_list_def)

lemma om_get_from_list_distinct:
  "distinct (map fst kvs) \<Longrightarrow> om_get (om_from_list kvs) k = map_of kvs k"
proof -
  assume d: "distinct (map fst kvs)"
  then have "distinct (map fst (rev kvs))" by (simp add: rev_map [symmetric])
  then have "map_of (rev kvs) k = Some v \<longleftrightarrow> map_of kvs k = Some v" for v
    using d by (simp add: map_of_eq_Some_iff)
  then show ?thesis unfolding om_get_from_list by (metis not_Some_eq)
qed

subsection \<open>The contract\<close>

locale ordered_map =
  fixes get :: "'m \<Rightarrow> 'k \<Rightarrow> 'v option"
    and ins :: "'k \<Rightarrow> 'v \<Rightarrow> 'm \<Rightarrow> 'm"
    and del :: "'k \<Rightarrow> 'm \<Rightarrow> 'm"
    and ok :: "'m \<Rightarrow> bool"
  assumes get_ins: "get (ins k v m) j = (if j = k then Some v else get m j)"
    and get_del: "get (del k m) j = (if j = k then None else get m j)"
    and ok_ins: "ok m \<Longrightarrow> ok (ins k v m)"
    and ok_del: "ok m \<Longrightarrow> ok (del k m)"
    and ext: "ok m \<Longrightarrow> ok n \<Longrightarrow> (\<And>k. get m k = get n k) \<Longrightarrow> m = n"
begin

lemma ins_same: "ok m \<Longrightarrow> get m k = Some v \<Longrightarrow> ins k v m = m"
  by (rule ext) (auto simp: get_ins ok_ins)

lemma ins_twice: "ok m \<Longrightarrow> ins k v (ins k w m) = ins k v m"
  by (rule ext) (auto simp: get_ins ok_ins)

lemma del_absent: "ok m \<Longrightarrow> get m k = None \<Longrightarrow> del k m = m"
  by (rule ext) (auto simp: get_del ok_del)

lemma del_ins: "ok m \<Longrightarrow> get m k = None \<Longrightarrow> del k (ins k v m) = m"
  by (rule ext) (auto simp: get_del get_ins ok_del ok_ins)

lemma ins_del: "ok m \<Longrightarrow> get m k = Some v \<Longrightarrow> ins k v (del k m) = m"
  by (rule ext) (auto simp: get_del get_ins ok_del ok_ins)

lemma ins_changes: "get m k = None \<Longrightarrow> ins k v m \<noteq> m"
  by (metis get_ins option.distinct(1))

lemma del_changes: "get m k = Some v \<Longrightarrow> del k m \<noteq> m"
  by (metis get_del option.distinct(1))

end

interpretation om: ordered_map om_get om_insert om_remove om_ok
  by unfold_locales (auto intro: om_ext)

end
