(* ===== verification/Session_World.thy ===== *)
theory Session_World
  imports Session_Tree Size_Hints Reconcile Ordered_Map
begin

text \<open>
  The session's state and world: \<open>tiler-core/src/session.rs\<close> (state, construction, validation,
  acknowledgement, verification) and \<open>session/world.rs\<close> (domains, membership, focus history, gaps,
  relocation). A \<open>BTreeMap\<close> is an ordered association list, a \<open>BTreeSet\<close> a set; a method that
  mutates the session answers the new session beside its result.
\<close>

subsection \<open>Domains\<close>

datatype domain_key = DomainKey (dk_output: output_id) (dk_workspace: workspace_id)

text \<open>The derived order: output first, then workspace.\<close>

instantiation domain_key :: linorder
begin

definition less_eq_domain_key :: "domain_key \<Rightarrow> domain_key \<Rightarrow> bool" where
  "less_eq_domain_key a b \<longleftrightarrow> dk_output a < dk_output b
     \<or> dk_output a = dk_output b \<and> dk_workspace a \<le> dk_workspace b"

definition less_domain_key :: "domain_key \<Rightarrow> domain_key \<Rightarrow> bool" where
  "less_domain_key a b \<longleftrightarrow> dk_output a < dk_output b
     \<or> dk_output a = dk_output b \<and> dk_workspace a < dk_workspace b"

instance
  by standard (auto simp: less_eq_domain_key_def less_domain_key_def domain_key.expand)

end

record output_domain =
  od_id :: output_id
  od_workspace :: workspace_id
  od_bounds :: rect
  od_gap :: int
  od_adjacent :: "direction \<Rightarrow> output_id option"

definition domain_validate :: "output_domain \<Rightarrow> bool" where
  "domain_validate d \<longleftrightarrow> od_id d \<noteq> [] \<and> od_workspace d \<noteq> []
     \<and> rw (od_bounds d) > 0 \<and> rh (od_bounds d) > 0
     \<and> checked_add_i32 (rx (od_bounds d)) (rw (od_bounds d)) \<noteq> None
     \<and> checked_add_i32 (ry (od_bounds d)) (rh (od_bounds d)) \<noteq> None
     \<and> 0 \<le> od_gap d \<and> length (adjacent_values (od_adjacent d)) \<le> 4
     \<and> list_all (\<lambda>t. t \<noteq> [] \<and> t \<noteq> od_id d) (adjacent_values (od_adjacent d))"

definition domain_key_of :: "output_domain \<Rightarrow> domain_key" where
  "domain_key_of d = DomainKey (od_id d) (od_workspace d)"

definition validate_adjacency :: "output_domain list \<Rightarrow> bool" where
  "validate_adjacency domains \<longleftrightarrow> list_all (\<lambda>d. list_all (\<lambda>dir.
     (case od_adjacent d dir of
        None \<Rightarrow> True
      | Some target \<Rightarrow> target \<noteq> [] \<and> target \<noteq> od_id d
          \<and> (case filter (\<lambda>e. od_id e = target) domains of
               [e] \<Rightarrow> od_adjacent e (opposite_direction dir) = Some (od_id d)
             | _ \<Rightarrow> False))) all_directions) domains"

record domain_view =
  dv_output :: output_id
  dv_workspace :: workspace_id
  dv_tree :: "node option"

record session_snapshot =
  sn_domains :: "domain_view list"
  sn_windows :: "window_link list"

subsection \<open>Observations and exceptions\<close>

record exception_flags =
  fl_floating :: bool
  fl_fullscreen :: bool
  fl_maximized :: bool
  fl_sticky :: bool

definition flags_none :: exception_flags where
  "flags_none = \<lparr>fl_floating = False, fl_fullscreen = False, fl_maximized = False, fl_sticky = False\<rparr>"

definition flags_any :: "exception_flags \<Rightarrow> bool" where
  "flags_any f \<longleftrightarrow> fl_floating f \<or> fl_fullscreen f \<or> fl_maximized f \<or> fl_sticky f"

datatype exception_behavior = Defer

record observed_window =
  ow_window :: window_id
  ow_output :: output_id
  ow_workspace :: workspace_id
  ow_floating :: bool
  ow_fullscreen :: bool
  ow_maximized :: bool
  ow_sticky :: bool
  ow_fixed_auto :: bool
  ow_fixed_suppress :: bool
  ow_hints :: window_size_hints

definition ow_flags :: "observed_window \<Rightarrow> exception_flags" where
  "ow_flags w = \<lparr>fl_floating = ow_floating w, fl_fullscreen = ow_fullscreen w,
     fl_maximized = ow_maximized w, fl_sticky = ow_sticky w\<rparr>"

record session_observation =
  so_observation :: observation
  so_windows :: "observed_window list"

record exception_record =
  ex_window :: window_id
  ex_output :: output_id
  ex_workspace :: workspace_id
  ex_flags :: exception_flags
  ex_geometry :: "rect option"

fun valid_observed_loop :: "observed_window list \<Rightarrow> window_id set \<Rightarrow> bool" where
  "valid_observed_loop [] seen = True"
| "valid_observed_loop (e # es) seen =
     (if ow_window e = [] \<or> ow_output e = [] \<or> ow_workspace e = [] then False
      else if ow_window e \<in> seen then False
      else valid_observed_loop es (insert (ow_window e) seen))"

definition valid_observed_shapes :: "observed_window list \<Rightarrow> bool" where
  "valid_observed_shapes ws = valid_observed_loop ws {}"

definition valid_rect_shape :: "rect \<Rightarrow> bool" where
  "valid_rect_shape r \<longleftrightarrow> rw r > 0 \<and> rh r > 0
     \<and> checked_add_i32 (rx r) (rw r) \<noteq> None \<and> checked_add_i32 (ry r) (rh r) \<noteq> None"

subsection \<open>The session\<close>

type_synonym trees = "(domain_key, node option) omap"
type_synonym links = "(window_id, window_link) omap"
type_synonym exceptions = "(window_id, exception_record) omap"

record pending_desired =
  pe_trees :: trees
  pe_windows :: links
  pe_focused_domain :: "domain_key option"
  pe_focused_leaf :: "node_id option"
  pe_last_active :: "(domain_key, node_id) omap"
  pe_exceptions :: exceptions
  pe_retained :: "(window_id, rect) omap"
  pe_automatic_fixed :: "window_id set"
  pe_tile_override :: "window_id set"

record drag_state =
  ds_domain :: domain_key
  ds_source_leaf :: node_id
  ds_source_window :: window_id
  ds_revision :: nat
  ds_generation :: generation_id
  ds_trees :: trees
  ds_windows :: links
  ds_exceptions :: exceptions
  ds_focused_domain :: "domain_key option"
  ds_focused_leaf :: "node_id option"
  ds_source_rect :: rect
  ds_work_area :: rect
  ds_prior :: "prior_group_edge option"

record send_placement_trace =
  sp_anchor_kind :: string
  sp_anchor :: "node_id option"
  sp_axis :: axis
  sp_projected :: rect
  sp_target_leaves :: nat

record session =
  se_policy :: layout_policy
  se_owner :: owner_id
  se_generation :: generation_id
  se_fingerprint :: nat
  se_domains :: "output_domain list"
  se_trees :: trees
  se_windows :: links
  se_focused_domain :: "domain_key option"
  se_focused_leaf :: "node_id option"
  se_focus_stack :: "(domain_key, node_id list) omap"
  se_last_active :: "(domain_key, node_id) omap"
  se_exceptions :: exceptions
  se_retained :: "(window_id, rect) omap"
  se_fixed_admission :: bool
  se_fixed_predicate :: fixed_size_predicate
  se_focus_fence :: bool
  se_automatic_fixed :: "window_id set"
  se_tile_override :: "window_id set"
  se_pair_restore :: "(node_id, node_id) omap"
  se_reconciler :: reconciler
  se_pending :: "pending_desired option"
  se_drag :: "drag_state option"
  se_last_send :: "send_placement_trace option"

datatype session_new_error = SnInvalidOwner | SnInvalidGeneration | SnRevisionOutOfBounds | SnInvalidDomain

fun session_new_error_kind :: "session_new_error \<Rightarrow> string" where
  "session_new_error_kind SnInvalidOwner = ''owner-invalid''"
| "session_new_error_kind SnInvalidGeneration = ''generation-invalid''"
| "session_new_error_kind SnRevisionOutOfBounds = ''revision-out-of-bounds''"
| "session_new_error_kind SnInvalidDomain = ''domain-invalid''"

fun distinct_domains :: "output_domain list \<Rightarrow> (output_id \<times> workspace_id) set \<Rightarrow> bool" where
  "distinct_domains [] seen = True"
| "distinct_domains (d # ds) seen =
     (if (od_id d, od_workspace d) \<in> seen then False
      else distinct_domains ds (insert (od_id d, od_workspace d) seen))"

definition new_with_policy ::
  "owner_id \<Rightarrow> generation_id \<Rightarrow> nat \<Rightarrow> nat \<Rightarrow> output_domain list \<Rightarrow> layout_policy
    \<Rightarrow> session_new_error + session" where
  "new_with_policy ow gen revision fingerprint domains policy =
     (if \<not> is_owner_id ow then Inl SnInvalidOwner
      else if \<not> is_generation_id gen then Inl SnInvalidGeneration
      else if \<not> is_revision revision then Inl SnRevisionOutOfBounds
      else if domains = [] \<or> \<not> list_all domain_validate domains then Inl SnInvalidDomain
      else if \<not> distinct_domains domains {} then Inl SnInvalidDomain
      else if \<not> validate_adjacency domains then Inl SnInvalidDomain
      else case reconciler_new ow gen revision fingerprint of
          Inl e \<Rightarrow> Inl SnRevisionOutOfBounds
        | Inr r \<Rightarrow> Inr \<lparr>se_policy = policy, se_owner = ow, se_generation = gen,
            se_fingerprint = fingerprint, se_domains = domains,
            se_trees = om_from_list (map (\<lambda>d. (domain_key_of d, None)) domains),
            se_windows = om_empty, se_focused_domain = None, se_focused_leaf = None,
            se_focus_stack = om_empty, se_last_active = om_empty, se_exceptions = om_empty,
            se_retained = om_empty, se_fixed_admission = False, se_fixed_predicate = BothAxes,
            se_focus_fence = False, se_automatic_fixed = {}, se_tile_override = {},
            se_pair_restore = om_empty, se_reconciler = r, se_pending = None, se_drag = None,
            se_last_send = None\<rparr>)"

definition session_new ::
  "owner_id \<Rightarrow> generation_id \<Rightarrow> nat \<Rightarrow> nat \<Rightarrow> output_domain list \<Rightarrow> session_new_error + session" where
  "session_new ow gen revision fingerprint domains =
     new_with_policy ow gen revision fingerprint domains default_policy"

definition accepted_revision :: "session \<Rightarrow> nat" where
  "accepted_revision s = rc_revision (se_reconciler s)"

definition session_divergence :: "session \<Rightarrow> divergence_kind option" where
  "session_divergence s = rc_diverged (se_reconciler s)"

definition has_pending :: "session \<Rightarrow> bool" where
  "has_pending s = sv_pending (status (se_reconciler s))"

definition has_pending_desired :: "session \<Rightarrow> bool" where
  "has_pending_desired s \<longleftrightarrow> se_pending s \<noteq> None"

definition has_drag :: "session \<Rightarrow> bool" where
  "has_drag s \<longleftrightarrow> se_drag s \<noteq> None"

subsection \<open>Queries\<close>

text \<open>\<open>get(key).cloned().flatten()\<close>.\<close>

definition tree_at :: "trees \<Rightarrow> domain_key \<Rightarrow> node option" where
  "tree_at trees k = (case om_get trees k of Some (Some t) \<Rightarrow> Some t | _ \<Rightarrow> None)"

definition homed :: "window_link \<Rightarrow> domain_key \<Rightarrow> bool" where
  "homed l k \<longleftrightarrow> link_output l = dk_output k \<and> link_workspace l = dk_workspace k"

definition link_key :: "window_link \<Rightarrow> domain_key" where
  "link_key l = DomainKey (link_output l) (link_workspace l)"

definition domain_for :: "output_domain list \<Rightarrow> output_id \<Rightarrow> workspace_id \<Rightarrow> output_domain option" where
  "domain_for domains p w = find (\<lambda>d. od_id d = p \<and> od_workspace d = w) domains"

text \<open>\<open>collect_leaves\<close> is \<open>leaves\<close>; the identity sets collected are the sets of \<open>node_ids\<close>.\<close>

definition collect_leaves :: "node \<Rightarrow> node_id list" where
  "collect_leaves t = leaves t"

definition all_node_ids :: "trees \<Rightarrow> node_id set" where
  "all_node_ids trees = (\<Union>t \<in> set (om_values trees). case t of None \<Rightarrow> {} | Some t \<Rightarrow> set (node_ids t))"

definition snapshot_for :: "output_domain list \<Rightarrow> trees \<Rightarrow> links \<Rightarrow> session_snapshot" where
  "snapshot_for domains trees windows =
     \<lparr>sn_domains = map (\<lambda>d. \<lparr>dv_output = od_id d, dv_workspace = od_workspace d,
        dv_tree = tree_at trees (domain_key_of d)\<rparr>) domains,
      sn_windows = om_values windows\<rparr>"

definition domain_snapshot :: "session \<Rightarrow> output_id \<Rightarrow> workspace_id \<Rightarrow> snapshot option" where
  "domain_snapshot s p w =
     (case domain_for (se_domains s) p w of
        None \<Rightarrow> None
      | Some d \<Rightarrow> Some \<lparr>snap_outputs = [\<lparr>out_id = p, out_workspace = w,
            out_tree = tree_at (se_trees s) (domain_key_of d), out_adjacent = Map.empty\<rparr>],
          snap_windows = filter (\<lambda>l. link_output l = p \<and> link_workspace l = w) (om_values (se_windows s))\<rparr>)"

definition leaf_linked :: "links \<Rightarrow> node_id \<Rightarrow> domain_key \<Rightarrow> bool" where
  "leaf_linked windows leaf k \<longleftrightarrow> list_ex (\<lambda>l. link_leaf l = leaf \<and> homed l k) (om_values windows)"

definition eligible_focus_in :: "session \<Rightarrow> domain_key \<Rightarrow> node_id option" where
  "eligible_focus_in s k =
     (if se_focused_domain s \<noteq> Some k then None
      else Option.bind (se_focused_leaf s) (\<lambda>focused.
        Option.bind (tree_at (se_trees s) k) (\<lambda>t.
          if focused \<in> set (collect_leaves t) \<and> leaf_linked (se_windows s) focused k
          then Some focused else None)))"

definition focus_resolves :: "domain_key option \<Rightarrow> node_id option \<Rightarrow> trees \<Rightarrow> links \<Rightarrow> bool" where
  "focus_resolves domain leaf trees windows =
     (case (domain, leaf) of
        (Some k, Some l) \<Rightarrow>
          (case tree_at trees k of
             None \<Rightarrow> False
           | Some t \<Rightarrow> l \<in> set (collect_leaves t) \<and> leaf_linked windows l k)
      | _ \<Rightarrow> domain = None \<and> leaf = None)"

definition focused_window_for :: "links \<Rightarrow> node_id \<Rightarrow> domain_key \<Rightarrow> window_id option" where
  "focused_window_for windows leaf k =
     map_option link_window (find (\<lambda>l. link_leaf l = leaf \<and> homed l k) (om_values windows))"

definition remembered_leaf :: "session \<Rightarrow> domain_key \<Rightarrow> node_id option" where
  "remembered_leaf s k =
     Option.bind (om_get (se_last_active s) k) (\<lambda>leaf.
       Option.bind (tree_at (se_trees s) k) (\<lambda>t.
         if leaf \<notin> set (collect_leaves t) then None
         else if leaf_linked (se_windows s) leaf k then Some leaf else None))"

definition focus_stack_fallback ::
  "(domain_key, node_id list) omap \<Rightarrow> domain_key \<Rightarrow> trees \<Rightarrow> links \<Rightarrow> node_id option" where
  "focus_stack_fallback stack k trees windows =
     Option.bind (om_get stack k) (\<lambda>ls. find (\<lambda>l. focus_resolves (Some k) (Some l) trees windows) (rev ls))"

definition updated_focus_stack ::
  "(domain_key, node_id list) omap \<Rightarrow> domain_key option \<Rightarrow> node_id option \<Rightarrow> trees \<Rightarrow> links
    \<Rightarrow> (domain_key, node_id list) omap" where
  "updated_focus_stack stack domain leaf trees windows =
     (let kept = filter (\<lambda>(k, ls). ls \<noteq> [])
            (map (\<lambda>(k, ls). (k, filter (\<lambda>l. focus_resolves (Some k) (Some l) trees windows) ls)) stack)
      in case (domain, leaf) of
           (Some k, Some l) \<Rightarrow>
             om_insert k (filter (\<lambda>known. known \<noteq> l) (case om_get kept k of None \<Rightarrow> [] | Some ls \<Rightarrow> ls) @ [l]) kept
         | _ \<Rightarrow> kept)"

definition updated_last_active ::
  "(domain_key, node_id) omap \<Rightarrow> domain_key option \<Rightarrow> node_id option \<Rightarrow> trees \<Rightarrow> links
    \<Rightarrow> (domain_key, node_id) omap" where
  "updated_last_active active domain leaf trees windows =
     (case (domain, leaf) of
        (Some k, Some l) \<Rightarrow>
          (case tree_at trees k of
             Some t \<Rightarrow> if l \<in> set (collect_leaves t) \<and> leaf_linked windows l k then om_insert k l active else active
           | None \<Rightarrow> active)
      | _ \<Rightarrow> active)"

definition exception_observed :: "session \<Rightarrow> observed_window list" where
  "exception_observed s = map (\<lambda>r. \<lparr>ow_window = ex_window r, ow_output = ex_output r,
     ow_workspace = ex_workspace r, ow_floating = fl_floating (ex_flags r),
     ow_fullscreen = fl_fullscreen (ex_flags r), ow_maximized = fl_maximized (ex_flags r),
     ow_sticky = fl_sticky (ex_flags r), ow_fixed_auto = False, ow_fixed_suppress = False,
     ow_hints = hints_none\<rparr>) (om_values (se_exceptions s))"

definition floating_geometry :: "session \<Rightarrow> window_id \<Rightarrow> rect option" where
  "floating_geometry s w = Option.bind (om_get (se_exceptions s) w) ex_geometry"

definition pending_float_geometry :: "session \<Rightarrow> window_id \<Rightarrow> rect option" where
  "pending_float_geometry s w =
     Option.bind (se_pending s) (\<lambda>d. Option.bind (om_get (pe_exceptions d) w) ex_geometry)"

definition known_window :: "links \<Rightarrow> exceptions \<Rightarrow> window_id \<Rightarrow> bool" where
  "known_window windows exceptions w \<longleftrightarrow> om_contains windows w \<or> om_contains exceptions w"

definition prune_fixed_size_state :: "session \<Rightarrow> session" where
  "prune_fixed_size_state s = s\<lparr>
     se_automatic_fixed := {w \<in> se_automatic_fixed s. known_window (se_windows s) (se_exceptions s) w},
     se_tile_override := {w \<in> se_tile_override s. known_window (se_windows s) (se_exceptions s) w}\<rparr>"

subsection \<open>Topology validation\<close>

fun valid_links :: "links \<Rightarrow> output_domain list \<Rightarrow> trees \<Rightarrow> node_id set \<Rightarrow> bool" where
  "valid_links [] domains trees seen = True"
| "valid_links ((w, l) # ls) domains trees seen =
     (if link_window l = [] \<or> link_leaf l = [] \<or> link_output l = [] then False
      else if link_workspace l = [] then False
      else if link_leaf l \<in> seen then False
      else if find (\<lambda>d. domain_key_of d = link_key l) domains = None then False
      else case tree_at trees (link_key l) of
          None \<Rightarrow> False
        | Some t \<Rightarrow> link_leaf l \<in> set (collect_leaves t)
            \<and> valid_links ls domains trees (insert (link_leaf l) seen))"

definition validate_topology ::
  "output_domain list \<Rightarrow> trees \<Rightarrow> links \<Rightarrow> exceptions \<Rightarrow> domain_key option \<Rightarrow> node_id option \<Rightarrow> bool" where
  "validate_topology domains trees windows exceptions focused_domain focused_leaf \<longleftrightarrow>
     domains \<noteq> []
     \<and> length trees = length domains
     \<and> list_all (\<lambda>d. domain_validate d \<and> om_contains trees (domain_key_of d)) domains
     \<and> list_all (\<lambda>k. list_ex (\<lambda>d. domain_key_of d = k) domains) (om_keys trees)
     \<and> list_all (\<lambda>d. case tree_at trees (domain_key_of d) of
          None \<Rightarrow> True | Some t \<Rightarrow> validate_node_shares t {} \<noteq> None) domains
     \<and> list_all (\<lambda>w. \<not> om_contains exceptions w) (om_keys windows)
     \<and> list_all (\<lambda>r. ex_window r \<noteq> [] \<and> ex_output r \<noteq> [] \<and> ex_workspace r \<noteq> []
          \<and> domain_for domains (ex_output r) (ex_workspace r) \<noteq> None) (om_values exceptions)
     \<and> valid_links windows domains trees {}
     \<and> list_all (\<lambda>d. case tree_at trees (domain_key_of d) of
          None \<Rightarrow> True
        | Some t \<Rightarrow> list_all (\<lambda>leaf. leaf_linked windows leaf (domain_key_of d)) (collect_leaves t)) domains
     \<and> (case (focused_domain, focused_leaf) of
          (None, None) \<Rightarrow> True
        | (Some k, Some leaf) \<Rightarrow>
            (case tree_at trees k of
               None \<Rightarrow> False
             | Some t \<Rightarrow> leaf \<in> set (collect_leaves t) \<and> leaf_linked windows leaf k)
        | _ \<Rightarrow> False)"

definition validate_current_topology :: "session \<Rightarrow> bool" where
  "validate_current_topology s = validate_topology (se_domains s) (se_trees s) (se_windows s)
     (se_exceptions s) (se_focused_domain s) (se_focused_leaf s)"

subsection \<open>Mutations outside the transaction\<close>

definition reproject_domain :: "session \<Rightarrow> domain_key \<Rightarrow> rect \<Rightarrow> session" where
  "reproject_domain s k bounds =
     (case position (\<lambda>d. domain_key_of d = k) (se_domains s) of
        None \<Rightarrow> s
      | Some i \<Rightarrow> s\<lparr>se_domains := (se_domains s)[i := (se_domains s ! i)\<lparr>od_bounds := bounds\<rparr>]\<rparr>)"

definition update_domain_gaps :: "session \<Rightarrow> domain_key \<Rightarrow> rect \<Rightarrow> int \<Rightarrow> bool \<times> session" where
  "update_domain_gaps s k bounds gap =
     (if \<not> (0 \<le> gap \<and> gap \<le> 64) then (False, s)
      else if rw bounds \<le> 0 \<or> rh bounds \<le> 0 then (False, s)
      else if session_divergence s \<noteq> None then (False, s)
      else if has_pending s \<or> has_pending_desired s then (False, s)
      else if se_drag s \<noteq> None then (False, s)
      else case position (\<lambda>d. domain_key_of d = k) (se_domains s) of
          None \<Rightarrow> (False, s)
        | Some i \<Rightarrow>
            let s' = s\<lparr>se_domains := (se_domains s)[i := (se_domains s ! i)\<lparr>od_bounds := bounds, od_gap := gap\<rparr>]\<rparr>
            in if validate_current_topology s' then (True, s') else (False, s))"

definition rehome_link :: "domain_key \<Rightarrow> domain_key \<Rightarrow> window_link \<Rightarrow> window_link" where
  "rehome_link source target l = (if homed l source then l\<lparr>link_output := dk_output target\<rparr> else l)"

definition rehome_record :: "domain_key \<Rightarrow> domain_key \<Rightarrow> exception_record \<Rightarrow> exception_record" where
  "rehome_record source target r =
     (if ex_output r = dk_output source \<and> ex_workspace r = dk_workspace source
      then r\<lparr>ex_output := dk_output target\<rparr> else r)"

definition rekey :: "domain_key \<Rightarrow> domain_key \<Rightarrow> (domain_key, 'v) omap \<Rightarrow> (domain_key, 'v) omap" where
  "rekey source target m =
     (case om_get m source of None \<Rightarrow> om_remove source m | Some v \<Rightarrow> om_insert target v (om_remove source m))"

definition relocate_domain ::
  "session \<Rightarrow> domain_key \<Rightarrow> domain_key \<Rightarrow> rect \<Rightarrow> int \<Rightarrow> bool \<times> session" where
  "relocate_domain s source target bounds gap =
     (if source = target then (False, s)
      else if dk_workspace source \<noteq> dk_workspace target then (False, s)
      else if dk_output source = dk_output target then (False, s)
      else if rw bounds \<le> 0 \<or> rh bounds \<le> 0 then (False, s)
      else if \<not> (0 \<le> gap \<and> gap \<le> 64) then (False, s)
      else if session_divergence s \<noteq> None then (False, s)
      else if has_pending s \<or> has_pending_desired s then (False, s)
      else if se_drag s \<noteq> None then (False, s)
      else if om_contains (se_trees s) target then (False, s)
      else if find (\<lambda>d. domain_key_of d = target) (se_domains s) \<noteq> None then (False, s)
      else case position (\<lambda>d. domain_key_of d = source) (se_domains s) of
          None \<Rightarrow> (False, s)
        | Some i \<Rightarrow>
            if \<not> validate_current_topology s then (False, s)
            else if \<not> om_contains (se_trees s) source then (False, s)
            else
              let s' = s\<lparr>
                  se_domains := (se_domains s)[i := (se_domains s ! i)
                    \<lparr>od_id := dk_output target, od_bounds := bounds, od_gap := gap\<rparr>],
                  se_trees := rekey source target (se_trees s),
                  se_windows := om_map_values (rehome_link source target) (se_windows s),
                  se_exceptions := om_map_values (rehome_record source target) (se_exceptions s),
                  se_focused_domain := (if se_focused_domain s = Some source then Some target
                    else se_focused_domain s),
                  se_focus_stack := rekey source target (se_focus_stack s),
                  se_last_active := rekey source target (se_last_active s)\<rparr>
              in if validate_current_topology s' then (True, s') else (False, s))"

definition sync_focus_from_window :: "session \<Rightarrow> domain_key \<Rightarrow> window_id \<Rightarrow> bool \<times> session" where
  "sync_focus_from_window s k w =
     (if session_divergence s \<noteq> None then (False, s)
      else if has_pending s \<or> se_drag s \<noteq> None then (False, s)
      else if find (\<lambda>d. domain_key_of d = k) (se_domains s) = None then (False, s)
      else if \<not> validate_current_topology s then (False, s)
      else case om_get (se_windows s) w of
          None \<Rightarrow> (False, s)
        | Some l \<Rightarrow>
            if \<not> homed l k then (False, s)
            else case tree_at (se_trees s) k of
                None \<Rightarrow> (False, s)
              | Some t \<Rightarrow>
                  if link_leaf l \<notin> set (collect_leaves t) then (False, s)
                  else (True, s\<lparr>se_focused_domain := Some k, se_focused_leaf := Some (link_leaf l),
                    se_focus_stack := updated_focus_stack (se_focus_stack s) (Some k) (Some (link_leaf l))
                      (se_trees s) (se_windows s)\<rparr>))"

end
