(* ===== verification/Session_Topology.thy ===== *)
theory Session_Topology
  imports Session_World
begin

text \<open>
  What the session's topology validation means, and the bookkeeping lemmas of trees, links and focus
  history that the session's operations share.
\<close>

subsection \<open>What validation means\<close>

lemma homed_key: "homed l k \<longleftrightarrow> link_key l = k"
  by (cases k) (auto simp: homed_def link_key_def)

lemma leaf_linked_iff:
  "om_ok windows \<Longrightarrow> leaf_linked windows x k \<longleftrightarrow> (\<exists>w l. om_get windows w = Some l \<and> link_leaf l = x \<and> link_key l = k)"
  by (simp add: leaf_linked_def list_ex_iff Bex_def om_in_values homed_key) blast

lemma tree_at_Some: "tree_at trees k = Some t \<longleftrightarrow> om_get trees k = Some (Some t)"
  by (auto simp: tree_at_def split: option.splits)

lemma tree_at_insert [simp]: "tree_at (om_insert k v trees) j = (if j = k then v else tree_at trees j)"
  by (auto simp: tree_at_def split: option.splits)

lemma tree_at_known: "tree_at trees k = Some t \<Longrightarrow> om_contains trees k"
  by (simp add: tree_at_Some om_contains_def)

lemma collect_leaves_eq [simp]: "collect_leaves t = leaves t"
  by (simp add: collect_leaves_def)

lemma all_node_ids_finite [simp]: "finite (all_node_ids trees)"
  by (auto simp: all_node_ids_def split: option.split)

lemma domain_for_Some: "domain_for ds p w \<noteq> None \<longleftrightarrow> DomainKey p w \<in> domain_key_of ` set ds"
  by (auto simp: domain_for_def find_None_iff domain_key_of_def)

lemma find_domain: "find (\<lambda>d. domain_key_of d = k) ds \<noteq> None \<longleftrightarrow> k \<in> domain_key_of ` set ds"
  by (auto simp: find_None_iff)

definition tiled_ok :: "trees \<Rightarrow> window_link \<Rightarrow> bool" where
  "tiled_ok trees l \<longleftrightarrow> link_window l \<noteq> [] \<and> link_leaf l \<noteq> [] \<and> link_output l \<noteq> [] \<and> link_workspace l \<noteq> []
     \<and> (\<exists>t. tree_at trees (link_key l) = Some t \<and> link_leaf l \<in> set (leaves t))"

lemma valid_links_iff:
  assumes "\<And>k t. tree_at trees k = Some t \<Longrightarrow> k \<in> domain_key_of ` set ds"
  shows "valid_links ls ds trees seen \<longleftrightarrow> list_all (\<lambda>p. tiled_ok trees (snd p)) ls
    \<and> distinct (map (\<lambda>p. link_leaf (snd p)) ls) \<and> (\<forall>p \<in> set ls. link_leaf (snd p) \<notin> seen)"
proof (induction ls arbitrary: seen)
  case (Cons p ls)
  obtain w l where p: "p = (w, l)" by (cases p)
  show ?case
  proof (cases "tiled_ok trees l \<and> link_leaf l \<notin> seen")
    case True
    then obtain t where t: "tree_at trees (link_key l) = Some t" "link_leaf l \<in> set (leaves t)"
      unfolding tiled_ok_def by blast
    then have "find (\<lambda>d. domain_key_of d = link_key l) ds \<noteq> None" using assms find_domain by blast
    with t True have step: "valid_links (p # ls) ds trees seen = valid_links ls ds trees (insert (link_leaf l) seen)"
      by (auto simp: p tiled_ok_def)
    show ?thesis using True unfolding step Cons.IH by (auto simp: p image_iff)
  next
    case False
    then show ?thesis by (auto simp: p tiled_ok_def split: option.splits)
  qed
qed simp

text \<open>The tree, link, exception and focus parts of a valid topology, without the order of the checks.\<close>

definition links_ok :: "trees \<Rightarrow> links \<Rightarrow> bool" where
  "links_ok trees windows \<longleftrightarrow> (\<forall>w l. om_get windows w = Some l \<longrightarrow> tiled_ok trees l)
     \<and> (\<forall>w w' l l'. om_get windows w = Some l \<longrightarrow> om_get windows w' = Some l'
          \<longrightarrow> link_leaf l = link_leaf l' \<longrightarrow> w = w')
     \<and> (\<forall>k t x. tree_at trees k = Some t \<longrightarrow> x \<in> set (leaves t)
          \<longrightarrow> (\<exists>w l. om_get windows w = Some l \<and> link_leaf l = x \<and> link_key l = k))"

definition exception_ok :: "output_domain list \<Rightarrow> exception_record \<Rightarrow> bool" where
  "exception_ok ds r \<longleftrightarrow> ex_window r \<noteq> [] \<and> ex_output r \<noteq> [] \<and> ex_workspace r \<noteq> []
     \<and> DomainKey (ex_output r) (ex_workspace r) \<in> domain_key_of ` set ds"

definition topology_ok ::
  "output_domain list \<Rightarrow> trees \<Rightarrow> links \<Rightarrow> exceptions \<Rightarrow> domain_key option \<Rightarrow> node_id option \<Rightarrow> bool" where
  "topology_ok ds trees windows exceptions fd fl \<longleftrightarrow>
     ds \<noteq> [] \<and> list_all domain_validate ds \<and> distinct (map domain_key_of ds)
     \<and> set (om_keys trees) = domain_key_of ` set ds
     \<and> (\<forall>k t. tree_at trees k = Some t \<longrightarrow> wf_node t)
     \<and> links_ok trees windows
     \<and> (\<forall>w. \<not> (om_contains windows w \<and> om_contains exceptions w))
     \<and> (\<forall>w r. om_get exceptions w = Some r \<longrightarrow> exception_ok ds r)
     \<and> focus_resolves fd fl trees windows"

lemma distinct_links:
  assumes "om_ok windows"
  shows "distinct (map (\<lambda>p. link_leaf (snd p)) windows) \<longleftrightarrow>
    (\<forall>w w' l l'. om_get windows w = Some l \<longrightarrow> om_get windows w' = Some l' \<longrightarrow> link_leaf l = link_leaf l' \<longrightarrow> w = w')"
proof -
  have d: "distinct (map fst windows)" using om_ok_distinct [OF assms] by (simp add: om_keys_def)
  then have "distinct windows" by (simp add: distinct_map)
  then show ?thesis
    using d unfolding distinct_map om_get_iff [OF assms] inj_on_def by fastforce
qed

lemma validate_shares_wf: "validate_node_shares t {} \<noteq> None \<longleftrightarrow> wf_node t"
  using check_focus_iff(1) [of t "{}"]
  by (auto simp: validate_node_shares_def wf_node_def ids_fresh_def)

lemma key_count:
  assumes "om_ok (trees :: trees)" "\<forall>d \<in> set ds. om_contains trees (domain_key_of d)"
    "\<forall>k \<in> set (om_keys trees). \<exists>d \<in> set ds. domain_key_of d = k"
  shows "length trees = length ds \<longleftrightarrow> distinct (map domain_key_of ds)"
    "set (om_keys trees) = domain_key_of ` set ds"
proof -
  show eq: "set (om_keys trees) = domain_key_of ` set ds" using assms(2,3) by force
  have "length trees = card (set (om_keys trees))"
    using distinct_card [OF om_ok_distinct [OF assms(1)]] by (simp add: om_length_keys)
  then have "length trees = card (set (map domain_key_of ds))" using eq by simp
  then show "length trees = length ds \<longleftrightarrow> distinct (map domain_key_of ds)"
    using card_distinct [of "map domain_key_of ds"] distinct_card [of "map domain_key_of ds"] by auto
qed

lemma validate_topology_iff:
  assumes "om_ok trees" "om_ok windows" "om_ok exceptions"
  shows "validate_topology ds trees windows exceptions fd fl \<longleftrightarrow> topology_ok ds trees windows exceptions fd fl"
proof (cases "(\<forall>d \<in> set ds. domain_validate d \<and> om_contains trees (domain_key_of d))
    \<and> (\<forall>k \<in> set (om_keys trees). \<exists>d \<in> set ds. domain_key_of d = k)")
  case False
  then have "\<not> validate_topology ds trees windows exceptions fd fl"
    unfolding validate_topology_def list_all_iff list_ex_iff by blast
  moreover have "\<not> topology_ok ds trees windows exceptions fd fl"
    using False unfolding topology_ok_def list_all_iff by (metis (no_types, lifting) imageE image_eqI om_keys_contains)
  ultimately show ?thesis by blast
next
  case True
  then have d: "\<forall>d \<in> set ds. om_contains trees (domain_key_of d)"
      "\<forall>k \<in> set (om_keys trees). \<exists>d \<in> set ds. domain_key_of d = k" "list_all domain_validate ds"
    by (auto simp: list_all_iff)
  note count = key_count [OF assms(1) d(1,2)]
  have known: "k \<in> domain_key_of ` set ds" if "tree_at trees k = Some t" for k t
    using tree_at_known [OF that] count(2) by auto
  have wf: "list_all (\<lambda>d. case tree_at trees (domain_key_of d) of None \<Rightarrow> True
      | Some t \<Rightarrow> validate_node_shares t {} \<noteq> None) ds \<longleftrightarrow> (\<forall>k t. tree_at trees k = Some t \<longrightarrow> wf_node t)"
    unfolding list_all_iff validate_shares_wf using known by (force split: option.splits)
  have vl: "valid_links windows ds trees {} \<longleftrightarrow> list_all (\<lambda>p. tiled_ok trees (snd p)) windows
      \<and> distinct (map (\<lambda>p. link_leaf (snd p)) windows) \<and> (\<forall>p \<in> set windows. link_leaf (snd p) \<notin> {})"
    by (rule valid_links_iff) (rule known)
  have links: "valid_links windows ds trees {} \<longleftrightarrow> (\<forall>w l. om_get windows w = Some l \<longrightarrow> tiled_ok trees l)
     \<and> (\<forall>w w' l l'. om_get windows w = Some l \<longrightarrow> om_get windows w' = Some l' \<longrightarrow> link_leaf l = link_leaf l' \<longrightarrow> w = w')"
    unfolding vl distinct_links [OF assms(2)] om_get_iff [OF assms(2)] list_all_iff by auto
  have cover: "list_all (\<lambda>d. case tree_at trees (domain_key_of d) of None \<Rightarrow> True
      | Some t \<Rightarrow> list_all (\<lambda>leaf. leaf_linked windows leaf (domain_key_of d)) (collect_leaves t)) ds
    \<longleftrightarrow> (\<forall>k t x. tree_at trees k = Some t \<longrightarrow> x \<in> set (leaves t)
          \<longrightarrow> (\<exists>w l. om_get windows w = Some l \<and> link_leaf l = x \<and> link_key l = k))"
    unfolding list_all_iff leaf_linked_iff [OF assms(2)] using known by (force split: option.splits)
  have disj: "list_all (\<lambda>w. \<not> om_contains exceptions w) (om_keys windows)
      \<longleftrightarrow> (\<forall>w. \<not> (om_contains windows w \<and> om_contains exceptions w))"
    by (auto simp: list_all_iff)
  have exc: "list_all (\<lambda>r. ex_window r \<noteq> [] \<and> ex_output r \<noteq> [] \<and> ex_workspace r \<noteq> []
          \<and> domain_for ds (ex_output r) (ex_workspace r) \<noteq> None) (om_values exceptions)
      \<longleftrightarrow> (\<forall>w r. om_get exceptions w = Some r \<longrightarrow> exception_ok ds r)"
    unfolding list_all_iff domain_for_Some exception_ok_def using om_in_values [OF assms(3)] by metis
  have foc: "(case (fd, fl) of (None, None) \<Rightarrow> True
        | (Some k, Some leaf) \<Rightarrow> (case tree_at trees k of None \<Rightarrow> False
             | Some t \<Rightarrow> leaf \<in> set (collect_leaves t) \<and> leaf_linked windows leaf k)
        | _ \<Rightarrow> False) = focus_resolves fd fl trees windows"
    by (cases fd; cases fl) (auto simp: focus_resolves_def)
  have dl: "list_all (\<lambda>d. domain_validate d \<and> om_contains trees (domain_key_of d)) ds"
    "list_all (\<lambda>k. list_ex (\<lambda>d. domain_key_of d = k) ds) (om_keys trees)"
    using True by (auto simp: list_all_iff list_ex_iff)
  show ?thesis
    unfolding validate_topology_def topology_ok_def links_ok_def wf links cover disj exc foc
    using dl d(3) count by blast
qed

text \<open>
  C27. On ordered maps the topology check decides exactly the well-formed worlds, whatever the order of
  its loops: every domain is valid and has its own tree slot, every tree is well-formed, windows and
  leaves of the trees are in bijection within their own domain, no window is both tiled and an
  exception, every exception lives on a known domain, and the focus is a linked leaf or nothing.
\<close>

theorem validate_topology_exact:
  assumes "om_ok trees" "om_ok windows" "om_ok exceptions"
  shows "validate_topology ds trees windows exceptions fd fl \<longleftrightarrow>
    ds \<noteq> [] \<and> list_all domain_validate ds \<and> distinct (map domain_key_of ds)
    \<and> set (om_keys trees) = domain_key_of ` set ds
    \<and> (\<forall>k t. tree_at trees k = Some t \<longrightarrow> wf_node t)
    \<and> links_ok trees windows
    \<and> (\<forall>w. \<not> (om_contains windows w \<and> om_contains exceptions w))
    \<and> (\<forall>w r. om_get exceptions w = Some r \<longrightarrow> exception_ok ds r)
    \<and> focus_resolves fd fl trees windows"
  unfolding validate_topology_iff [OF assms] topology_ok_def ..

end
