(* ===== verification/Session_Transaction.thy ===== *)
theory Session_Transaction
  imports Session_Topology
begin

text \<open>
  The transaction of \<open>tiler-core/src/session.rs\<close>: a plan is staged beside the reconciler's slot,
  acknowledged, and on verification applied; a divergence drops it. Every operation family stages
  through \<open>stage_plan\<close> and commits through \<open>session_verify\<close>, the shape that the code repeats per
  family.
\<close>

subsection \<open>Errors\<close>

datatype refusal_kind =
    DuplicateWindow | UnknownWindow | UnknownDomain | FocusMismatch | NotTiled | PlannerNoop
  | PlannerRejected | RfUnsupportedCapability | CrossDomainMismatch | MalformedInput
  | RfMalformedTopology | PartialObservation | ExceptionBehaviorUnselected | Unchanged
  | PairBelowMinimum

fun refusal_as_str :: "refusal_kind \<Rightarrow> string" where
  "refusal_as_str DuplicateWindow = ''duplicate-window''"
| "refusal_as_str UnknownWindow = ''unknown-window''"
| "refusal_as_str UnknownDomain = ''unknown-domain''"
| "refusal_as_str FocusMismatch = ''focus-mismatch''"
| "refusal_as_str NotTiled = ''not-tiled''"
| "refusal_as_str PlannerNoop = ''planner-noop''"
| "refusal_as_str PlannerRejected = ''planner-rejected''"
| "refusal_as_str RfUnsupportedCapability = ''unsupported-capability''"
| "refusal_as_str CrossDomainMismatch = ''cross-domain-mismatch''"
| "refusal_as_str MalformedInput = ''malformed-input''"
| "refusal_as_str RfMalformedTopology = ''malformed-topology''"
| "refusal_as_str PartialObservation = ''partial-observation''"
| "refusal_as_str ExceptionBehaviorUnselected = ''exception-behavior-unselected''"
| "refusal_as_str Unchanged = ''unchanged''"
| "refusal_as_str PairBelowMinimum = ''pair-below-minimum''"

fun refusal_message :: "refusal_kind \<Rightarrow> string" where
  "refusal_message DuplicateWindow = ''window is already known to the session''"
| "refusal_message UnknownWindow = ''window is not known to the session''"
| "refusal_message UnknownDomain = ''domain is not known to the session''"
| "refusal_message FocusMismatch = ''focus does not resolve to the selected domain''"
| "refusal_message NotTiled = ''focused window is not a tiled window''"
| "refusal_message PlannerNoop = ''planner reports no movement''"
| "refusal_message PlannerRejected = ''planner rejects the movement''"
| "refusal_message RfUnsupportedCapability = ''adapter does not declare the required capability''"
| "refusal_message CrossDomainMismatch = ''input output or workspace does not match a logical domain''"
| "refusal_message MalformedInput = ''command or observation input is malformed''"
| "refusal_message RfMalformedTopology = ''topology or shares are malformed or not projectable''"
| "refusal_message PartialObservation = ''observation does not cover the known window set''"
| "refusal_message ExceptionBehaviorUnselected = ''exception window requires an explicit behavior selection''"
| "refusal_message Unchanged = ''command would not change session state''"
| "refusal_message PairBelowMinimum = ''resize pair is below the minimum size''"

datatype session_error = SPendingExists | SDiverged divergence_kind | SRefused refusal_kind

fun session_error_kind :: "session_error \<Rightarrow> string" where
  "session_error_kind SPendingExists = ''pending-exists''"
| "session_error_kind (SDiverged reason) = divergence_as_str reason"
| "session_error_kind (SRefused reason) = refusal_as_str reason"

fun session_error_message :: "session_error \<Rightarrow> string" where
  "session_error_message SPendingExists = ''complete the pending plan before proposing''"
| "session_error_message (SDiverged reason) = divergence_message reason"
| "session_error_message (SRefused reason) = refusal_message reason"

subsection \<open>Staging, acknowledgement, verification\<close>

text \<open>The reconciler is asked; its divergence drops what is staged, its acceptance stages the desired state.\<close>

definition stage_plan ::
  "(reconciler \<Rightarrow> (propose_error + 'd) \<times> reconciler) \<Rightarrow> pending_desired \<Rightarrow> ('d \<Rightarrow> 'a) \<Rightarrow> session
    \<Rightarrow> (session_error + 'a) \<times> session" where
  "stage_plan offer desired answer s =
     (case offer (se_reconciler s) of
        (Inl PendingExists, r) \<Rightarrow> (Inl SPendingExists, s\<lparr>se_reconciler := r\<rparr>)
      | (Inl (ProposeDiverged reason), r) \<Rightarrow>
          (Inl (SDiverged reason), s\<lparr>se_reconciler := r, se_pending := None, se_drag := None\<rparr>)
      | (Inr d, r) \<Rightarrow> (Inr (answer d), s\<lparr>se_reconciler := r, se_pending := Some desired\<rparr>))"

definition session_acknowledge ::
  "adapter_ack \<Rightarrow> session \<Rightarrow> (ack_error + ack_applied) \<times> session" where
  "session_acknowledge a s =
     (case acknowledge a (se_reconciler s) of
        (Inr applied, r) \<Rightarrow> (Inr applied, s\<lparr>se_reconciler := r\<rparr>)
      | (Inl AckNoPending, r) \<Rightarrow> (Inl AckNoPending, s\<lparr>se_reconciler := r\<rparr>)
      | (Inl (AckDiverged reason), r) \<Rightarrow>
          (Inl (AckDiverged reason), s\<lparr>se_reconciler := r, se_pending := None, se_drag := None\<rparr>))"

definition cancel_unacked_pending ::
  "correlation_id \<Rightarrow> nat \<Rightarrow> session \<Rightarrow> (cancel_error + unit) \<times> session" where
  "cancel_unacked_pending corr base s =
     (if se_drag s \<noteq> None then (Inl DragActive, s)
      else case cancel_unacked corr base (se_reconciler s) of
          (Inr u, r) \<Rightarrow> (Inr (), s\<lparr>se_reconciler := r, se_pending := None\<rparr>)
        | (Inl e, r) \<Rightarrow> (Inl e, s\<lparr>se_reconciler := r\<rparr>))"

text \<open>\<open>with_active\<close> is whether the family also adopts the staged last-active leaves; drags do not.\<close>

definition apply_desired :: "bool \<Rightarrow> nat \<Rightarrow> pending_desired \<Rightarrow> session \<Rightarrow> session" where
  "apply_desired with_active fingerprint d s =
     (prune_fixed_size_state (s\<lparr>se_pending := None, se_trees := pe_trees d, se_windows := pe_windows d,
        se_focused_domain := pe_focused_domain d, se_focused_leaf := pe_focused_leaf d,
        se_focus_stack := updated_focus_stack (se_focus_stack s) (pe_focused_domain d) (pe_focused_leaf d)
          (pe_trees d) (pe_windows d),
        se_last_active := (if with_active then pe_last_active d else se_last_active s),
        se_exceptions := pe_exceptions d, se_retained := pe_retained d,
        se_automatic_fixed := pe_automatic_fixed d, se_tile_override := pe_tile_override d\<rparr>))
      \<lparr>se_fingerprint := fingerprint\<rparr>"

definition session_verify ::
  "bool \<Rightarrow> (reconciler \<Rightarrow> (verify_error + commit) \<times> reconciler) \<Rightarrow> session
    \<Rightarrow> (verify_error + commit) \<times> session" where
  "session_verify with_active confirm s =
     (case confirm (se_reconciler s) of
        (Inr c, r) \<Rightarrow> (Inr c, let s = s\<lparr>se_reconciler := r\<rparr> in
          (case se_pending s of None \<Rightarrow> s | Some d \<Rightarrow> apply_desired with_active (cm_fingerprint c) d s))
      | (Inl (VerifyDiverged reason), r) \<Rightarrow>
          (Inl (VerifyDiverged reason), s\<lparr>se_reconciler := r, se_pending := None, se_drag := None\<rparr>)
      | (Inl e, r) \<Rightarrow> (Inl e, s\<lparr>se_reconciler := r\<rparr>))"

definition session_verify_lifecycle ::
  "lifecycle_post \<Rightarrow> session \<Rightarrow> (verify_error + commit) \<times> session" where
  "session_verify_lifecycle post = session_verify True (verify_lifecycle post)"

definition session_verify_move :: "move_post \<Rightarrow> session \<Rightarrow> (verify_error + commit) \<times> session" where
  "session_verify_move post = session_verify True (verify post)"

definition session_verify_focus :: "focus_post \<Rightarrow> session \<Rightarrow> (verify_error + commit) \<times> session" where
  "session_verify_focus post = session_verify True (verify_focus post)"

definition session_verify_resize :: "resize_post \<Rightarrow> session \<Rightarrow> (verify_error + commit) \<times> session" where
  "session_verify_resize post = session_verify True (verify_resize post)"

definition session_verify_drag :: "drag_post \<Rightarrow> session \<Rightarrow> (verify_error + commit) \<times> session" where
  "session_verify_drag post = session_verify False (verify_drag post)"

definition session_adapter_loss :: "session \<Rightarrow> divergence_kind \<times> session" where
  "session_adapter_loss s =
     (let (k, r) = note_adapter_loss (se_reconciler s)
      in (k, s\<lparr>se_reconciler := r, se_pending := None, se_drag := None\<rparr>))"

definition session_postcondition_mismatch :: "session \<Rightarrow> divergence_kind \<times> session" where
  "session_postcondition_mismatch s =
     (let (k, r) = note_postcondition_mismatch (se_reconciler s)
      in (k, s\<lparr>se_reconciler := r, se_pending := None, se_drag := None\<rparr>))"

subsection \<open>The session invariant\<close>

definition world_ok ::
  "output_domain list \<Rightarrow> trees \<Rightarrow> links \<Rightarrow> exceptions \<Rightarrow> domain_key option \<Rightarrow> node_id option \<Rightarrow> bool" where
  "world_ok ds trees windows exceptions fd fl \<longleftrightarrow>
     om_ok trees \<and> om_ok windows \<and> om_ok exceptions
     \<and> (\<forall>w l. om_get windows w = Some l \<longrightarrow> link_window l = w)
     \<and> (\<forall>w r. om_get exceptions w = Some r \<longrightarrow> ex_window r = w)
     \<and> topology_ok ds trees windows exceptions fd fl"

definition stack_ok :: "(domain_key, node_id list) omap \<Rightarrow> trees \<Rightarrow> links \<Rightarrow> bool" where
  "stack_ok stack trees windows \<longleftrightarrow> om_ok stack \<and> (\<forall>k ls. om_get stack k = Some ls \<longrightarrow>
     ls \<noteq> [] \<and> distinct ls \<and> (\<forall>l \<in> set ls. focus_resolves (Some k) (Some l) trees windows))"

definition active_ok :: "(domain_key, node_id) omap \<Rightarrow> trees \<Rightarrow> bool" where
  "active_ok active trees \<longleftrightarrow> om_ok active \<and> (\<forall>k. om_contains active k \<longrightarrow> om_contains trees k)"

definition desired_ok :: "output_domain list \<Rightarrow> pending_desired \<Rightarrow> bool" where
  "desired_ok ds d \<longleftrightarrow> world_ok ds (pe_trees d) (pe_windows d) (pe_exceptions d) (pe_focused_domain d) (pe_focused_leaf d)
     \<and> active_ok (pe_last_active d) (pe_trees d) \<and> om_ok (pe_retained d)"

definition current_ok :: "session \<Rightarrow> bool" where
  "current_ok s \<longleftrightarrow> world_ok (se_domains s) (se_trees s) (se_windows s) (se_exceptions s)
       (se_focused_domain s) (se_focused_leaf s)
     \<and> stack_ok (se_focus_stack s) (se_trees s) (se_windows s)
     \<and> active_ok (se_last_active s) (se_trees s) \<and> om_ok (se_retained s)"

definition bound_ok :: "session \<Rightarrow> bool" where
  "bound_ok s \<longleftrightarrow> rc_inv (se_reconciler s) \<and> rc_owner (se_reconciler s) = se_owner s
     \<and> rc_generation (se_reconciler s) = se_generation s \<and> rc_fingerprint (se_reconciler s) = se_fingerprint s
     \<and> (se_pending s = None \<longleftrightarrow> rc_pending (se_reconciler s) = None)
     \<and> (se_drag s \<noteq> None \<longrightarrow> se_pending s = None \<and> rc_diverged (se_reconciler s) = None)"

definition session_inv :: "session \<Rightarrow> bool" where
  "session_inv s \<longleftrightarrow> bound_ok s \<and> current_ok s
     \<and> (\<forall>d. se_pending s = Some d \<longrightarrow> desired_ok (se_domains s) d)"

text \<open>The parts of a well-formed world, one fact each.\<close>

lemma world_parts:
  assumes "world_ok ds trees windows exceptions fd fl"
  shows world_maps: "om_ok trees" "om_ok windows" "om_ok exceptions"
    and world_link_window: "\<And>w l. om_get windows w = Some l \<Longrightarrow> link_window l = w"
    and world_record_window: "\<And>w r. om_get exceptions w = Some r \<Longrightarrow> ex_window r = w"
    and world_domains: "ds \<noteq> []" "list_all domain_validate ds" "distinct (map domain_key_of ds)"
    and world_tree_wf: "\<And>k t. tree_at trees k = Some t \<Longrightarrow> wf_node t"
    and world_tiled: "\<And>w l. om_get windows w = Some l \<Longrightarrow> tiled_ok trees l"
    and world_leaf_unique: "\<And>w w' l l'. om_get windows w = Some l \<Longrightarrow> om_get windows w' = Some l'
      \<Longrightarrow> link_leaf l = link_leaf l' \<Longrightarrow> w = w'"
    and world_covered: "\<And>k t x. tree_at trees k = Some t \<Longrightarrow> x \<in> set (leaves t)
      \<Longrightarrow> \<exists>w l. om_get windows w = Some l \<and> link_leaf l = x \<and> link_key l = k"
    and world_disjoint: "\<And>w. om_get windows w \<noteq> None \<Longrightarrow> om_get exceptions w = None"
    and world_exception: "\<And>w r. om_get exceptions w = Some r \<Longrightarrow> exception_ok ds r"
    and world_focus: "focus_resolves fd fl trees windows"
proof -
  have t: "topology_ok ds trees windows exceptions fd fl" using assms by (simp add: world_ok_def)
  then have l: "links_ok trees windows" by (simp add: topology_ok_def)
  show "om_ok trees" "om_ok windows" "om_ok exceptions" using assms by (simp_all add: world_ok_def)
  show "link_window l = w" if "om_get windows w = Some l" for w l
    using assms that by (simp add: world_ok_def)
  show "ex_window r = w" if "om_get exceptions w = Some r" for w r
    using assms that by (simp add: world_ok_def)
  show "ds \<noteq> []" "list_all domain_validate ds" "distinct (map domain_key_of ds)"
    using t by (simp_all add: topology_ok_def)
  show "wf_node t" if "tree_at trees k = Some t" for k t
    using t that by (simp add: topology_ok_def)
  show "tiled_ok trees l" if "om_get windows w = Some l" for w l
    using l that by (simp add: links_ok_def)
  show "w = w'" if "om_get windows w = Some l" "om_get windows w' = Some l'" "link_leaf l = link_leaf l'" for w w' l l'
    using l that unfolding links_ok_def by blast
  show "\<exists>w l. om_get windows w = Some l \<and> link_leaf l = x \<and> link_key l = k"
    if "tree_at trees k = Some t" "x \<in> set (leaves t)" for k t x
    using l that unfolding links_ok_def by blast
  show "om_get exceptions w = None" if "om_get windows w \<noteq> None" for w
    using t that unfolding topology_ok_def om_contains_def by blast
  show "exception_ok ds r" if "om_get exceptions w = Some r" for w r
    using t that by (simp add: topology_ok_def)
  show "focus_resolves fd fl trees windows" using t by (simp add: topology_ok_def)
qed

lemma validate_current_ok: "session_inv s \<Longrightarrow> validate_current_topology s"
  by (simp add: session_inv_def current_ok_def world_ok_def validate_current_topology_def validate_topology_iff)

lemma stack_ok_updated:
  assumes "om_ok stack" "focus_resolves fd fl trees windows"
    and "\<And>k ls. om_get stack k = Some ls \<Longrightarrow> distinct ls"
  shows "stack_ok (updated_focus_stack stack fd fl trees windows) trees windows"
proof -
  define kept where "kept = filter (\<lambda>(k, ls). ls \<noteq> [])
    (map (\<lambda>(k, ls). (k, filter (\<lambda>l. focus_resolves (Some k) (Some l) trees windows) ls)) stack)"
  have ok: "om_ok kept"
  proof -
    have "om_keys (map (\<lambda>(k, ls). (k, filter (\<lambda>l. focus_resolves (Some k) (Some l) trees windows) ls)) stack) = om_keys stack"
      by (simp add: om_keys_def comp_def split_beta)
    then show ?thesis using assms(1) unfolding kept_def by (intro om_ok_filter) (simp add: om_ok_def)
  qed
  have kept: "ls \<noteq> [] \<and> distinct ls \<and> (\<forall>l \<in> set ls. focus_resolves (Some k) (Some l) trees windows)"
    if "om_get kept k = Some ls" for k ls
  proof -
    have "(k, ls) \<in> set kept" using that om_get_iff [OF ok] by simp
    then obtain ls0 where ls0: "(k, ls0) \<in> set stack"
        "ls = filter (\<lambda>l. focus_resolves (Some k) (Some l) trees windows) ls0" "ls \<noteq> []"
      by (auto simp: kept_def)
    have "om_get stack k = Some ls0" using ls0(1) om_get_iff [OF assms(1)] by simp
    then have "distinct ls0" by (rule assms(3))
    with ls0(2,3) show ?thesis by simp
  qed
  show ?thesis
  proof (cases "\<exists>k l. fd = Some k \<and> fl = Some l")
    case False
    then have "updated_focus_stack stack fd fl trees windows = kept"
      by (auto simp: updated_focus_stack_def kept_def Let_def split: option.splits)
    then show ?thesis using ok kept by (simp add: stack_ok_def)
  next
    case True
    then obtain k l where kl: "fd = Some k" "fl = Some l" by auto
    let ?ls = "case om_get kept k of None \<Rightarrow> [] | Some ls \<Rightarrow> ls"
    have "updated_focus_stack stack fd fl trees windows = om_insert k (filter (\<lambda>known. known \<noteq> l) ?ls @ [l]) kept"
      by (simp add: updated_focus_stack_def kept_def Let_def kl)
    moreover have "distinct ?ls \<and> (\<forall>l \<in> set ?ls. focus_resolves (Some k) (Some l) trees windows)"
      using kept by (cases "om_get kept k") auto
    ultimately show ?thesis using ok kept assms(2) kl by (auto simp: stack_ok_def)
  qed
qed

subsection \<open>The invariant under the transaction\<close>

lemma bound_ok_diverge:
  assumes "bound_ok s"
  shows "bound_ok (s\<lparr>se_reconciler := diverge reason (se_reconciler s), se_pending := None, se_drag := None\<rparr>)"
  using assms rc_inv_diverge [of "se_reconciler s"] by (simp add: bound_ok_def) (simp add: diverge_def)

lemma session_inv_diverge:
  "session_inv s \<Longrightarrow>
    session_inv (s\<lparr>se_reconciler := diverge reason (se_reconciler s), se_pending := None, se_drag := None\<rparr>)"
  using bound_ok_diverge [of s reason] by (simp add: session_inv_def current_ok_def)

text \<open>Dropping what is staged when the reconciler has already diverged.\<close>

lemma session_inv_drop:
  assumes "session_inv s" "rc_diverged (se_reconciler s) = Some reason"
  shows "s\<lparr>se_reconciler := se_reconciler s, se_pending := None, se_drag := None\<rparr> = s"
proof -
  have "se_pending s = None" "se_drag s = None"
    using assms by (auto simp: session_inv_def bound_ok_def rc_inv_def)
  then show ?thesis by simp
qed

context proposal
begin

text \<open>Staging: either the plan takes the slot with its desired state, or the session diverges, or nothing changes.\<close>

lemma stage_outcome:
  assumes "session_inv s"
  shows "(\<exists>d. stage_plan offer desired answer s =
        (Inr (answer d), s\<lparr>se_reconciler := slot corr kind (se_reconciler s), se_pending := Some desired\<rparr>)
        \<and> is_correlation_id corr \<and> rc_revision (se_reconciler s) < max_revision
        \<and> rc_diverged (se_reconciler s) = None \<and> se_pending s = None)
    \<or> (\<exists>reason. stage_plan offer desired answer s = (Inl (SDiverged reason),
        s\<lparr>se_reconciler := diverge reason (se_reconciler s), se_pending := None, se_drag := None\<rparr>)
        \<and> rc_diverged (se_reconciler s) = None \<and> se_pending s = None)
    \<or> (\<exists>e. stage_plan offer desired answer s = (Inl e, s) \<and> (e = SPendingExists
        \<or> (\<exists>reason. e = SDiverged reason \<and> rc_diverged (se_reconciler s) = Some reason)))"
proof (cases "rc_diverged (se_reconciler s)")
  case (Some reason)
  have "stage_plan offer desired answer s = (Inl (SDiverged reason), s)"
    unfolding stage_plan_def refuse_diverged [OF Some] prod.case sum.case propose_error.case
      session_inv_drop [OF assms Some] ..
  then show ?thesis using Some by blast
next
  case None
  show ?thesis
  proof (cases "rc_pending (se_reconciler s)")
    case (Some p)
    with None show ?thesis by (simp add: stage_plan_def refuse_pending)
  next
    case None': None
    then have "se_pending s = None" using assms by (simp add: session_inv_def bound_ok_def)
    consider (div) reason where "offer (se_reconciler s) = (Inl (ProposeDiverged reason), diverge reason (se_reconciler s))"
      | (take) d where "offer (se_reconciler s) = (Inr d, slot corr kind (se_reconciler s))"
          "is_correlation_id corr" "rc_revision (se_reconciler s) < max_revision"
      using idle [OF None None'] by blast
    then show ?thesis
    proof cases
      case div
      then have "stage_plan offer desired answer s = (Inl (SDiverged reason),
          s\<lparr>se_reconciler := diverge reason (se_reconciler s), se_pending := None, se_drag := None\<rparr>)"
        by (simp add: stage_plan_def)
      with None \<open>se_pending s = None\<close> show ?thesis by blast
    next
      case take
      then have "stage_plan offer desired answer s =
          (Inr (answer d), s\<lparr>se_reconciler := slot corr kind (se_reconciler s), se_pending := Some desired\<rparr>)"
        by (simp add: stage_plan_def)
      with None \<open>se_pending s = None\<close> take show ?thesis by blast
    qed
  qed
qed

lemma stage_inv:
  assumes "session_inv s" "desired_ok (se_domains s) desired" "se_drag s = None"
  shows "session_inv (snd (stage_plan offer desired answer s))"
proof -
  have "session_inv (s\<lparr>se_reconciler := slot corr kind (se_reconciler s), se_pending := Some desired\<rparr>)"
    if "is_correlation_id corr" "rc_revision (se_reconciler s) < max_revision"
      "rc_diverged (se_reconciler s) = None" "se_pending s = None"
  proof -
    have "rc_inv (slot corr kind (se_reconciler s))"
      using that assms(1) by (intro rc_inv_slot) (auto simp: session_inv_def bound_ok_def)
    then show ?thesis
      using assms that by (simp add: session_inv_def bound_ok_def current_ok_def) (simp add: slot_def)
  qed
  then show ?thesis
    using stage_outcome [OF assms(1), of desired answer] session_inv_diverge [OF assms(1)] assms(1) by auto
qed

end

lemma world_keys:
  assumes "world_ok ds trees windows ex fd fl"
  shows "om_contains trees k \<longleftrightarrow> k \<in> domain_key_of ` set ds"
proof -
  have "set (om_keys trees) = domain_key_of ` set ds" using assms by (simp add: world_ok_def topology_ok_def)
  then show ?thesis by auto
qed

lemma current_ok_apply:
  assumes "current_ok s" "desired_ok (se_domains s) d"
  shows "current_ok (apply_desired act fp d s)"
proof -
  have "om_contains (se_trees s) k \<longleftrightarrow> om_contains (pe_trees d) k" for k
    using assms unfolding current_ok_def desired_ok_def by (metis world_keys)
  then have "active_ok (if act then pe_last_active d else se_last_active s) (pe_trees d)"
    using assms by (simp add: current_ok_def desired_ok_def active_ok_def)
  moreover
  have "stack_ok (updated_focus_stack (se_focus_stack s) (pe_focused_domain d) (pe_focused_leaf d)
      (pe_trees d) (pe_windows d)) (pe_trees d) (pe_windows d)"
    using assms by (intro stack_ok_updated) (auto simp: current_ok_def stack_ok_def desired_ok_def world_ok_def topology_ok_def)
  ultimately show ?thesis
    using assms by (simp add: current_ok_def desired_ok_def apply_desired_def prune_fixed_size_state_def)
qed

context verification
begin

lemma session_verify_outcome:
  assumes "session_inv s"
  shows "(\<exists>d. se_pending s = Some d \<and> rc_revision (se_reconciler s) < max_revision
        \<and> session_verify act confirm s =
          (Inr \<lparr>cm_revision = accepted_revision s + 1, cm_fingerprint = ob_fingerprint post_ob\<rparr>,
           apply_desired act (ob_fingerprint post_ob) d
             (s\<lparr>se_reconciler := committed (ob_fingerprint post_ob) (se_reconciler s)\<rparr>)))
    \<or> (\<exists>reason. session_verify act confirm s = (Inl (VerifyDiverged reason),
          s\<lparr>se_reconciler := diverge reason (se_reconciler s), se_pending := None, se_drag := None\<rparr>)
        \<and> rc_diverged (se_reconciler s) = None)
    \<or> (\<exists>e. session_verify act confirm s = (Inl e, s))"
proof -
  let ?r = "se_reconciler s"
  have inv: "rc_inv ?r" using assms by (simp add: session_inv_def bound_ok_def)
  consider (div) reason where "rc_diverged ?r = Some reason"
    | (idle) "rc_diverged ?r = None" "rc_pending ?r = None"
    | (pend) p where "rc_diverged ?r = None" "rc_pending ?r = Some p"
    by (cases "rc_diverged ?r"; cases "rc_pending ?r") auto
  then show ?thesis
  proof cases
    case div
    have "session_verify act confirm s = (Inl (VerifyDiverged reason), s)"
      unfolding session_verify_def refuse_diverged [OF div] prod.case sum.case verify_error.case
        session_inv_drop [OF assms div] ..
    then show ?thesis by blast
  next
    case idle
    then show ?thesis by (simp add: session_verify_def refuse_idle)
  next
    case pend
    then obtain d where d: "se_pending s = Some d" using assms by (auto simp: session_inv_def bound_ok_def)
    show ?thesis
    proof (cases "pd_acked p")
      case False
      with pend show ?thesis by (simp add: session_verify_def refuse_unacked)
    next
      case True
      have "pd_base_revision p = rc_revision ?r" using inv pend by (simp add: rc_inv_def)
      from acked [OF pend True this] show ?thesis
        using d pend(1) by (auto simp: session_verify_def Let_def accepted_revision_def)
    qed
  qed
qed

lemma session_verify_inv:
  assumes "session_inv s"
  shows "session_inv (snd (session_verify act confirm s))"
proof -
  have "session_inv (apply_desired act (ob_fingerprint post_ob) d
      (s\<lparr>se_reconciler := committed (ob_fingerprint post_ob) (se_reconciler s)\<rparr>))"
    if d: "se_pending s = Some d" and rev: "rc_revision (se_reconciler s) < max_revision" for d
  proof -
    let ?s = "s\<lparr>se_reconciler := committed (ob_fingerprint post_ob) (se_reconciler s)\<rparr>"
    have ok: "desired_ok (se_domains ?s) d" "current_ok ?s"
      using assms d by (auto simp: session_inv_def current_ok_def)
    have "rc_inv (se_reconciler ?s)"
      using assms rev by (auto simp: session_inv_def bound_ok_def intro: rc_inv_committed)
    then have "bound_ok (apply_desired act (ob_fingerprint post_ob) d ?s)"
      using assms d unfolding bound_ok_def session_inv_def
      by (auto simp: apply_desired_def prune_fixed_size_state_def committed_def)
    then show ?thesis using current_ok_apply [OF ok(2,1)]
      by (simp add: session_inv_def) (simp add: apply_desired_def prune_fixed_size_state_def)
  qed
  then show ?thesis
    using session_verify_outcome [OF assms, of act] session_inv_diverge [OF assms] assms by auto
qed

end

lemma session_acknowledge_inv:
  assumes "session_inv s"
  shows "session_inv (snd (session_acknowledge a s))"
proof (cases "rc_diverged (se_reconciler s)")
  case (Some reason)
  then have "acknowledge a (se_reconciler s) = (Inl (AckDiverged reason), se_reconciler s)"
    by (simp add: acknowledge_def)
  then have "session_acknowledge a s = (Inl (AckDiverged reason), s)"
    unfolding session_acknowledge_def using session_inv_drop [OF assms Some] by (simp only: prod.case sum.case ack_error.case)
  then show ?thesis using assms by simp
next
  case None
  show ?thesis
  proof (cases "rc_pending (se_reconciler s)")
    case None': None
    then have "session_acknowledge a s = (Inl AckNoPending, s)"
      using None by (simp add: session_acknowledge_def acknowledge_def)
    then show ?thesis using assms by simp
  next
    case (Some p)
    show ?thesis
    proof (cases "first_reason (ack_checks a p (se_reconciler s))")
      case (Some reason)
      then have "session_acknowledge a s = (Inl (AckDiverged reason),
          s\<lparr>se_reconciler := diverge reason (se_reconciler s), se_pending := None, se_drag := None\<rparr>)"
        using None \<open>rc_pending (se_reconciler s) = Some p\<close> by (simp add: session_acknowledge_def acknowledge_def)
      then show ?thesis using session_inv_diverge [OF assms] by simp
    next
      case None'': None
      have "session_acknowledge a s = (if pd_acked p then (Inr DuplicateDiscarded, s)
          else (Inr AppliedAccepted, s\<lparr>se_reconciler := (se_reconciler s)\<lparr>rc_pending := Some (p\<lparr>pd_acked := True\<rparr>)\<rparr>\<rparr>))"
        using None Some None'' by (simp add: session_acknowledge_def acknowledge_def)
      then show ?thesis using assms Some
        by (auto simp: session_inv_def bound_ok_def current_ok_def rc_inv_def)
    qed
  qed
qed

lemma cancel_unacked_pending_inv:
  assumes "session_inv s"
  shows "session_inv (snd (cancel_unacked_pending corr base s))"
proof -
  have "snd (cancel_unacked_pending corr base s) = s
      \<or> snd (cancel_unacked_pending corr base s) = s\<lparr>se_reconciler := (se_reconciler s)\<lparr>rc_pending := None\<rparr>, se_pending := None\<rparr>"
    by (simp add: cancel_unacked_pending_def cancel_unacked_def split: option.split)
  then show ?thesis
    using assms by (auto simp: session_inv_def bound_ok_def current_ok_def rc_inv_def)
qed

lemma session_lost_inv:
  assumes "session_inv s"
  shows "session_inv (snd (session_adapter_loss s))" "session_inv (snd (session_postcondition_mismatch s))"
proof -
  have "session_inv (s\<lparr>se_reconciler := snd (note_divergence k (se_reconciler s)), se_pending := None, se_drag := None\<rparr>)" for k
  proof (cases "rc_diverged (se_reconciler s)")
    case None
    then show ?thesis using session_inv_diverge [OF assms, of k] by (simp add: note_divergence_def)
  next
    case (Some reason)
    then have "s\<lparr>se_reconciler := snd (note_divergence k (se_reconciler s)), se_pending := None, se_drag := None\<rparr> = s"
      using session_inv_drop [OF assms Some] by (simp add: note_divergence_def)
    then show ?thesis using assms by simp
  qed
  then show "session_inv (snd (session_adapter_loss s))" "session_inv (snd (session_postcondition_mismatch s))"
    by (simp_all add: session_adapter_loss_def session_postcondition_mismatch_def note_adapter_loss_def
        note_postcondition_mismatch_def split_beta)
qed

subsection \<open>The invariant under the other mutations\<close>

lemma distinct_domains_iff:
  "distinct_domains ds seen \<longleftrightarrow>
    distinct (map domain_key_of ds) \<and> (\<forall>d \<in> set ds. (od_id d, od_workspace d) \<notin> seen)"
  by (induction ds seen rule: distinct_domains.induct) (auto simp: domain_key_of_def image_iff)

lemma fresh_trees: "om_get (om_from_list (map (\<lambda>d. (domain_key_of d, None)) ds)) k =
    (if k \<in> domain_key_of ` set ds then Some None else None)"
proof -
  have "map_of (rev (map (\<lambda>d. (domain_key_of d, None)) ds)) k =
    (if k \<in> domain_key_of ` set ds then Some None else None)"
    by (induction ds rule: rev_induct) (auto simp: map_add_def split: option.splits)
  then show ?thesis by (simp add: om_get_from_list)
qed

lemma session_new_inv:
  assumes "new_with_policy ow gen revision fingerprint domains policy = Inr s"
  shows "session_inv s"
proof -
  let ?trees = "om_from_list (map (\<lambda>d. (domain_key_of d, None)) domains)"
  from assms obtain r where r: "reconciler_new ow gen revision fingerprint = Inr r"
    and d: "domains \<noteq> []" "list_all domain_validate domains" "distinct (map domain_key_of domains)"
    and s: "se_owner s = ow" "se_generation s = gen" "se_fingerprint s = fingerprint" "se_domains s = domains"
      "se_trees s = ?trees" "se_windows s = om_empty" "se_focused_domain s = None" "se_focused_leaf s = None"
      "se_focus_stack s = om_empty" "se_last_active s = om_empty" "se_exceptions s = om_empty"
      "se_retained s = om_empty" "se_reconciler s = r" "se_pending s = None" "se_drag s = None"
    by (auto simp: new_with_policy_def distinct_domains_iff split: if_splits sum.splits)
  have no_tree: "tree_at ?trees k = None" for k by (simp add: tree_at_def fresh_trees)
  have "set (om_keys ?trees) = domain_key_of ` set domains"
    by (auto simp: om_contains_def fresh_trees split: if_splits)
  then have "topology_ok domains ?trees om_empty om_empty None None"
    using d by (simp add: topology_ok_def links_ok_def no_tree focus_resolves_def)
  then have "current_ok s" using s by (simp add: current_ok_def world_ok_def stack_ok_def active_ok_def om_contains_def)
  moreover have "rc_inv r \<and> rc_owner r = ow \<and> rc_generation r = gen \<and> rc_fingerprint r = fingerprint \<and> rc_pending r = None"
    using r by (auto simp: reconciler_new_def rc_inv_def is_revision_def split: if_splits)
  then have "bound_ok s" using s by (simp add: bound_ok_def)
  ultimately show ?thesis using s by (simp add: session_inv_def)
qed

text \<open>A refused step answers the session it was given: guard by guard.\<close>

lemma refused_if: "(\<not> c \<Longrightarrow> \<not> fst x \<longrightarrow> snd x = s) \<Longrightarrow>
    \<not> fst (if c then (False, s) else x) \<longrightarrow> snd (if c then (False, s) else x) = s"
  by simp

lemma refused_if': "(c \<Longrightarrow> \<not> fst x \<longrightarrow> snd x = s) \<Longrightarrow>
    \<not> fst (if c then x else (False, s)) \<longrightarrow> snd (if c then x else (False, s)) = s"
  by simp

lemma refused_option: "(\<And>i. m = Some i \<Longrightarrow> \<not> fst (f i) \<longrightarrow> snd (f i) = s) \<Longrightarrow>
    \<not> fst (case m of None \<Rightarrow> (False, s) | Some i \<Rightarrow> f i)
      \<longrightarrow> snd (case m of None \<Rightarrow> (False, s) | Some i \<Rightarrow> f i) = s"
  by (cases m) simp_all

lemma kept_accepted: "\<not> fst (True, x) \<longrightarrow> snd (True, x) = s"
  by simp

lemma accepted_iff:
  "(if c then (False, s) else x) = (True, s') \<longleftrightarrow> \<not> c \<and> x = (True, s')"
  "(if c then x else (False, s)) = (True, s') \<longleftrightarrow> c \<and> x = (True, s')"
  "(case m of None \<Rightarrow> (False, s) | Some i \<Rightarrow> f i) = (True, s') \<longleftrightarrow> (\<exists>i. m = Some i \<and> f i = (True, s'))"
  "(True, y) = (True, s') \<longleftrightarrow> s' = y"
  by (auto split: option.split)

lemmas refused_steps = refused_if refused_if' refused_option kept_accepted

lemma update_domain_gaps_inv:
  assumes "session_inv s"
  shows "session_inv (snd (update_domain_gaps s k bounds gap))"
proof -
  have "session_inv (s\<lparr>se_domains := ds\<rparr>)"
    if "validate_current_topology (s\<lparr>se_domains := ds\<rparr>)" "se_pending s = None" for ds
    using that assms
    by (simp add: session_inv_def current_ok_def bound_ok_def world_ok_def validate_current_topology_def
        validate_topology_iff)
  then show ?thesis
    using assms by (auto simp: update_domain_gaps_def has_pending_desired_def Let_def split: option.split)
qed

text \<open>
  A reprojection is unguarded: it keeps a session well-formed exactly because its caller passes bounds that
  a domain may have.
\<close>

definition bounds_valid :: "rect \<Rightarrow> bool" where
  "bounds_valid b \<longleftrightarrow> 0 < rw b \<and> 0 < rh b \<and> checked_add_i32 (rx b) (rw b) \<noteq> None \<and> checked_add_i32 (ry b) (rh b) \<noteq> None"

abbreviation rebound :: "output_domain list \<Rightarrow> nat \<Rightarrow> rect \<Rightarrow> output_domain list" where
  "rebound ds i b \<equiv> ds[i := (ds ! i)\<lparr>od_bounds := b\<rparr>]"

lemma rebound_keys: "map domain_key_of (rebound ds i b) = map domain_key_of ds"
proof (cases "i < length ds")
  case True
  have "map domain_key_of (rebound ds i b) = (map domain_key_of ds)[i := map domain_key_of ds ! i]"
    using True by (simp add: map_update domain_key_of_def)
  then show ?thesis by simp
qed (simp add: list_update_beyond)

lemma rebound_valid:
  assumes "list_all domain_validate ds" "bounds_valid b"
  shows "list_all domain_validate (rebound ds i b)"
proof (cases "i < length ds")
  case True
  then have "domain_validate ((ds ! i)\<lparr>od_bounds := b\<rparr>)"
    using assms by (simp add: list_all_length domain_validate_def bounds_valid_def)
  then show ?thesis using assms(1) set_update_subset_insert [of ds i] by (auto simp: list_all_iff)
qed (use assms in \<open>simp add: list_update_beyond\<close>)

lemma rebound_world:
  assumes "world_ok ds trees windows exceptions fd fl" "bounds_valid b"
  shows "world_ok (rebound ds i b) trees windows exceptions fd fl"
proof -
  have keys: "domain_key_of ` set (rebound ds i b) = domain_key_of ` set ds"
    using arg_cong [OF rebound_keys, of set] by simp
  then have "exception_ok (rebound ds i b) = exception_ok ds" by (intro ext) (simp add: exception_ok_def)
  then show ?thesis
    using assms rebound_valid [of ds b i] keys rebound_keys [of ds i b] unfolding world_ok_def topology_ok_def by force
qed

lemma reproject_domain_inv:
  assumes "session_inv s" "bounds_valid b"
  shows "session_inv (reproject_domain s k b)"
proof (cases "position (\<lambda>d. domain_key_of d = k) (se_domains s)")
  case None
  then show ?thesis using assms(1) by (simp add: reproject_domain_def)
next
  case (Some i)
  note world = rebound_world [OF _ assms(2), of "se_domains s" _ _ _ _ _ i]
  have "current_ok (reproject_domain s k b)" "bound_ok (reproject_domain s k b)"
    using assms(1) world by (simp_all add: reproject_domain_def Some session_inv_def current_ok_def bound_ok_def)
  moreover have "desired_ok (rebound (se_domains s) i b) d" if "se_pending s = Some d" for d
    using assms(1) that world by (simp add: session_inv_def desired_ok_def)
  ultimately show ?thesis by (simp add: session_inv_def reproject_domain_def Some)
qed

lemma focus_resolves_Some:
  "focus_resolves (Some k) (Some l) trees windows \<longleftrightarrow>
    (\<exists>t. tree_at trees k = Some t \<and> l \<in> set (leaves t)) \<and> leaf_linked windows l k"
  by (auto simp: focus_resolves_def split: option.splits)

lemma sync_focus_inv:
  assumes "session_inv s"
  shows "session_inv (snd (sync_focus_from_window s k w))"
proof (cases "fst (sync_focus_from_window s k w)")
  case False
  moreover have "\<not> fst (sync_focus_from_window s k w) \<longrightarrow> snd (sync_focus_from_window s k w) = s"
    unfolding sync_focus_from_window_def by (intro refused_steps)
  ultimately show ?thesis using assms by simp
next
  case True
  then obtain l t where l: "om_get (se_windows s) w = Some l" "link_key l = k" "tree_at (se_trees s) k = Some t"
      "link_leaf l \<in> set (leaves t)" "\<not> has_pending s"
    and eq: "snd (sync_focus_from_window s k w) = s\<lparr>se_focused_domain := Some k,
        se_focused_leaf := Some (link_leaf l),
        se_focus_stack := updated_focus_stack (se_focus_stack s) (Some k) (Some (link_leaf l)) (se_trees s) (se_windows s)\<rparr>"
    by (auto simp: sync_focus_from_window_def homed_key split: option.splits if_splits)
  have ok: "current_ok s" "bound_ok s" using assms by (auto simp: session_inv_def)
  have "leaf_linked (se_windows s) (link_leaf l) k"
    using l ok(1) by (auto simp: leaf_linked_iff current_ok_def world_ok_def)
  then have res: "focus_resolves (Some k) (Some (link_leaf l)) (se_trees s) (se_windows s)"
    using l by (auto simp: focus_resolves_Some)
  have "stack_ok (updated_focus_stack (se_focus_stack s) (Some k) (Some (link_leaf l)) (se_trees s) (se_windows s))
      (se_trees s) (se_windows s)"
    using ok(1) res by (intro stack_ok_updated) (auto simp: current_ok_def stack_ok_def)
  then show ?thesis
    unfolding eq using assms res
    by (simp add: session_inv_def current_ok_def bound_ok_def world_ok_def topology_ok_def)
qed

lemma set_fixed_inv: "session_inv s \<Longrightarrow> session_inv (s\<lparr>se_fixed_admission := a, se_fixed_predicate := p, se_focus_fence := f\<rparr>)"
  by (simp add: session_inv_def current_ok_def bound_ok_def)

subsection \<open>What a verification commits\<close>

text \<open>\<open>keeps_world s s'\<close>: the accepted trees, windows, focus, exceptions, domains and revision are untouched.\<close>

definition keeps_world :: "session \<Rightarrow> session \<Rightarrow> bool" where
  "keeps_world s s' \<longleftrightarrow> se_domains s' = se_domains s \<and> se_trees s' = se_trees s \<and> se_windows s' = se_windows s
     \<and> se_exceptions s' = se_exceptions s \<and> se_focused_domain s' = se_focused_domain s
     \<and> se_focused_leaf s' = se_focused_leaf s \<and> se_focus_stack s' = se_focus_stack s
     \<and> se_last_active s' = se_last_active s \<and> se_retained s' = se_retained s
     \<and> accepted_revision s' = accepted_revision s \<and> se_fingerprint s' = se_fingerprint s"

definition commits_staged :: "session \<Rightarrow> pending_desired \<Rightarrow> commit \<Rightarrow> session \<Rightarrow> bool" where
  "commits_staged s d c s' \<longleftrightarrow> se_trees s' = pe_trees d \<and> se_windows s' = pe_windows d
     \<and> se_exceptions s' = pe_exceptions d \<and> se_focused_domain s' = pe_focused_domain d
     \<and> se_focused_leaf s' = pe_focused_leaf d \<and> se_retained s' = pe_retained d
     \<and> se_domains s' = se_domains s \<and> se_pending s' = None \<and> se_drag s' = se_drag s
     \<and> accepted_revision s' = accepted_revision s + 1 \<and> cm_revision c = accepted_revision s'
     \<and> se_fingerprint s' = cm_fingerprint c"

lemma keeps_world_refl [simp]: "keeps_world s s"
  by (simp add: keeps_world_def)

lemma keeps_world_diverge [simp]:
  "keeps_world s (s\<lparr>se_reconciler := diverge reason (se_reconciler s), se_pending := None, se_drag := None\<rparr>)"
  by (simp add: keeps_world_def accepted_revision_def diverge_def)

context verification
begin

lemma session_commit:
  assumes "session_inv s" "session_verify act confirm s = (res, s')"
  shows "case res of
      Inr c \<Rightarrow> (\<exists>d. se_pending s = Some d \<and> commits_staged s d c s')
    | Inl e \<Rightarrow> keeps_world s s' \<and> (se_pending s' = se_pending s
        \<or> (\<exists>reason. e = VerifyDiverged reason \<and> session_divergence s' = Some reason \<and> se_pending s' = None))"
  using session_verify_outcome [OF assms(1), of act] assms(2)
proof (elim disjE exE conjE)
  fix d assume d: "se_pending s = Some d" and "session_verify act confirm s =
      (Inr \<lparr>cm_revision = accepted_revision s + 1, cm_fingerprint = ob_fingerprint post_ob\<rparr>,
       apply_desired act (ob_fingerprint post_ob) d
         (s\<lparr>se_reconciler := committed (ob_fingerprint post_ob) (se_reconciler s)\<rparr>))"
  then show ?thesis using assms(2)
    by (auto simp: commits_staged_def apply_desired_def prune_fixed_size_state_def accepted_revision_def committed_def)
next
  fix reason assume "session_verify act confirm s = (Inl (VerifyDiverged reason),
      s\<lparr>se_reconciler := diverge reason (se_reconciler s), se_pending := None, se_drag := None\<rparr>)"
  then show ?thesis using assms(2) by (auto simp: session_divergence_def diverge_def keeps_world_def accepted_revision_def)
next
  fix e assume "session_verify act confirm s = (Inl e, s)"
  then show ?thesis using assms(2) by auto
qed

end

lemmas session_commits = lifecycle_verification.session_commit move_verification.session_commit
  focus_verification.session_commit resize_verification.session_commit drag_verification.session_commit

lemmas session_verify_invs = lifecycle_verification.session_verify_inv move_verification.session_verify_inv
  focus_verification.session_verify_inv resize_verification.session_verify_inv drag_verification.session_verify_inv

lemmas session_verify_defs = session_verify_lifecycle_def session_verify_move_def session_verify_focus_def
  session_verify_resize_def session_verify_drag_def

text \<open>
  C7. Whatever the family of the plan, a verification either commits or leaves the accepted world
  alone. When it commits, a plan was staged, the session's trees, windows, exceptions, retained
  geometries and focus become exactly the staged ones, nothing stays staged, and the accepted revision
  advances by one, the revision and fingerprint of the commit. When it fails, trees, windows, focus,
  history and revision are those of before, and what was staged stays or is dropped with a terminal
  divergence.
\<close>

theorem verification_commits_staged:
  assumes "session_inv s"
    and "(res, s') \<in> {session_verify_lifecycle lpost s, session_verify_move mpost s, session_verify_focus fpost s,
      session_verify_resize rpost s, session_verify_drag dpost s}"
  shows "case res of
      Inr c \<Rightarrow> (\<exists>d. se_pending s = Some d \<and> commits_staged s d c s')
    | Inl e \<Rightarrow> keeps_world s s' \<and> (se_pending s' = se_pending s
        \<or> (\<exists>reason. e = VerifyDiverged reason \<and> session_divergence s' = Some reason \<and> se_pending s' = None))"
proof -
  consider "session_verify_lifecycle lpost s = (res, s')" | "session_verify_move mpost s = (res, s')"
    | "session_verify_focus fpost s = (res, s')" | "session_verify_resize rpost s = (res, s')"
    | "session_verify_drag dpost s = (res, s')"
    using assms(2) by (elim insertE emptyE) simp_all
  then show ?thesis
    by cases (unfold session_verify_defs, (rule session_commits [OF assms(1)], assumption)+)
qed

end
