(* ===== verification/Session_Relocation.thy ===== *)
theory Session_Relocation
  imports Session_Transaction
begin

text \<open>
  Relocation of a domain to another output (\<open>relocate_domain\<close> of \<open>session/world.rs\<close>) keeps the
  session's invariant and is undone by the relocation back.
\<close>

subsection \<open>Rekeying\<close>

lemma rekey_get: "om_get (rekey a b m) k =
    (if om_get m a = None then (if k = a then None else om_get m k)
     else if k = b then om_get m a else if k = a then None else om_get m k)"
  by (auto simp: rekey_def split: option.splits)

lemma rekey_ok [simp]: "om_ok m \<Longrightarrow> om_ok (rekey a b m)"
  by (auto simp: rekey_def split: option.splits)

lemma rekey_back:
  assumes "om_ok m" "om_get m b = None" "a \<noteq> b"
  shows "rekey b a (rekey a b m) = m"
  by (rule om_ext) (use assms in \<open>auto simp: rekey_get\<close>)

lemma rehome_link_key:
  assumes "dk_workspace a = dk_workspace b"
  shows "link_key (rehome_link a b l) = (if link_key l = a then b else link_key l)"
  using assms by (cases a; cases b) (auto simp: rehome_link_def homed_def link_key_def)

lemma rehome_link_fields [simp]:
  "link_window (rehome_link a b l) = link_window l" "link_leaf (rehome_link a b l) = link_leaf l"
  by (simp_all add: rehome_link_def)

lemma rehome_link_back:
  assumes "link_key l \<noteq> b" "dk_workspace a = dk_workspace b"
  shows "rehome_link b a (rehome_link a b l) = l"
  using assms by (cases a; cases b) (auto simp: rehome_link_def homed_def link_key_def)

lemma rehome_record_window [simp]: "ex_window (rehome_record a b r) = ex_window r"
  by (simp add: rehome_record_def)

lemma rehome_record_back:
  assumes "DomainKey (ex_output r) (ex_workspace r) \<noteq> b" "dk_workspace a = dk_workspace b"
  shows "rehome_record b a (rehome_record a b r) = r"
  using assms by (cases a; cases b) (auto simp: rehome_record_def)

text \<open>\<open>om_map_values\<close> that restores every value restores the map.\<close>

lemma om_map_values_id: "(\<And>k v. om_get m k = Some v \<Longrightarrow> g (f v) = v) \<Longrightarrow> om_ok m
    \<Longrightarrow> om_map_values g (om_map_values f m) = m"
  by (rule om_ext) (auto simp: option.map_comp comp_def split: option.splits intro!: option.map_ident_strong)

subsection \<open>Focus under relocation\<close>

lemma tree_at_rekey:
  assumes "om_get trees a \<noteq> None" "a \<noteq> b"
  shows "tree_at (rekey a b trees) k = (if k = b then tree_at trees a else if k = a then None else tree_at trees k)"
  using assms by (auto simp: tree_at_def rekey_get split: option.splits)

lemma leaf_linked_rehome:
  assumes "om_ok windows" "dk_workspace a = dk_workspace b" "a \<noteq> b"
  shows "leaf_linked (om_map_values (rehome_link a b) windows) x k \<longleftrightarrow>
    (if k = b then leaf_linked windows x a \<or> leaf_linked windows x b else k \<noteq> a \<and> leaf_linked windows x k)"
proof -
  have "leaf_linked (om_map_values (rehome_link a b) windows) x k \<longleftrightarrow>
      (\<exists>w l. om_get windows w = Some l \<and> link_leaf l = x \<and> (if link_key l = a then b else link_key l) = k)"
  proof -
    have "leaf_linked (om_map_values (rehome_link a b) windows) x k \<longleftrightarrow>
        (\<exists>w l. om_get windows w = Some l \<and> link_leaf (rehome_link a b l) = x \<and> link_key (rehome_link a b l) = k)"
      using assms(1) by (simp add: leaf_linked_iff ex_simps [symmetric] del: ex_simps)
    then show ?thesis by (simp add: rehome_link_key [OF assms(2)])
  qed
  also have "\<dots> \<longleftrightarrow> (\<exists>w l. om_get windows w = Some l \<and> link_leaf l = x
      \<and> (if k = b then link_key l = a \<or> link_key l = b else k \<noteq> a \<and> link_key l = k))"
    using assms(3) by (intro ex_cong1) auto
  also have "\<dots> \<longleftrightarrow> (if k = b then leaf_linked windows x a \<or> leaf_linked windows x b
      else k \<noteq> a \<and> leaf_linked windows x k)"
    using assms(1) by (auto simp: leaf_linked_iff)
  finally show ?thesis .
qed

definition relocated :: "session \<Rightarrow> domain_key \<Rightarrow> domain_key \<Rightarrow> nat \<Rightarrow> rect \<Rightarrow> int \<Rightarrow> session" where
  "relocated s a b i bounds gap = s\<lparr>
     se_domains := (se_domains s)[i := (se_domains s ! i)\<lparr>od_id := dk_output b, od_bounds := bounds, od_gap := gap\<rparr>],
     se_trees := rekey a b (se_trees s),
     se_windows := om_map_values (rehome_link a b) (se_windows s),
     se_exceptions := om_map_values (rehome_record a b) (se_exceptions s),
     se_focused_domain := (if se_focused_domain s = Some a then Some b else se_focused_domain s),
     se_focus_stack := rekey a b (se_focus_stack s),
     se_last_active := rekey a b (se_last_active s)\<rparr>"

lemma relocated_fields [simp]:
  "se_domains (relocated s a b i bounds gap) =
    (se_domains s)[i := (se_domains s ! i)\<lparr>od_id := dk_output b, od_bounds := bounds, od_gap := gap\<rparr>]"
  "se_trees (relocated s a b i bounds gap) = rekey a b (se_trees s)"
  "se_windows (relocated s a b i bounds gap) = om_map_values (rehome_link a b) (se_windows s)"
  "se_exceptions (relocated s a b i bounds gap) = om_map_values (rehome_record a b) (se_exceptions s)"
  "se_focused_domain (relocated s a b i bounds gap) =
    (if se_focused_domain s = Some a then Some b else se_focused_domain s)"
  "se_focused_leaf (relocated s a b i bounds gap) = se_focused_leaf s"
  "se_focus_stack (relocated s a b i bounds gap) = rekey a b (se_focus_stack s)"
  "se_last_active (relocated s a b i bounds gap) = rekey a b (se_last_active s)"
  "se_retained (relocated s a b i bounds gap) = se_retained s"
  "se_pending (relocated s a b i bounds gap) = se_pending s"
  "se_drag (relocated s a b i bounds gap) = se_drag s"
  "se_reconciler (relocated s a b i bounds gap) = se_reconciler s"
  "se_owner (relocated s a b i bounds gap) = se_owner s"
  "se_generation (relocated s a b i bounds gap) = se_generation s"
  "se_fingerprint (relocated s a b i bounds gap) = se_fingerprint s"
  "se_policy (relocated s a b i bounds gap) = se_policy s"
  "se_fixed_admission (relocated s a b i bounds gap) = se_fixed_admission s"
  "se_fixed_predicate (relocated s a b i bounds gap) = se_fixed_predicate s"
  "se_focus_fence (relocated s a b i bounds gap) = se_focus_fence s"
  "se_automatic_fixed (relocated s a b i bounds gap) = se_automatic_fixed s"
  "se_tile_override (relocated s a b i bounds gap) = se_tile_override s"
  "se_pair_restore (relocated s a b i bounds gap) = se_pair_restore s"
  "se_last_send (relocated s a b i bounds gap) = se_last_send s"
  "session.more (relocated s a b i bounds gap) = session.more s"
  by (simp_all add: relocated_def)

lemma relocate_iff:
  "relocate_domain s a b bounds gap = (True, s') \<longleftrightarrow>
     a \<noteq> b \<and> dk_workspace a = dk_workspace b \<and> dk_output a \<noteq> dk_output b
     \<and> \<not> (rw bounds \<le> 0 \<or> rh bounds \<le> 0) \<and> 0 \<le> gap \<and> gap \<le> 64
     \<and> session_divergence s = None \<and> \<not> has_pending s \<and> se_pending s = None \<and> se_drag s = None
     \<and> om_get (se_trees s) b = None \<and> b \<notin> domain_key_of ` set (se_domains s)
     \<and> (\<exists>i. position (\<lambda>d. domain_key_of d = a) (se_domains s) = Some i
         \<and> validate_current_topology s \<and> om_get (se_trees s) a \<noteq> None
         \<and> validate_current_topology (relocated s a b i bounds gap) \<and> s' = relocated s a b i bounds gap)"
  unfolding relocate_domain_def Let_def accepted_iff relocated_def [symmetric]
  by (simp add: has_pending_desired_def om_contains_def find_None_iff image_iff) blast

lemma relocate_True:
  assumes "relocate_domain s a b bounds gap = (True, s')"
  obtains i where "position (\<lambda>d. domain_key_of d = a) (se_domains s) = Some i"
    "s' = relocated s a b i bounds gap" "validate_current_topology s'"
    "a \<noteq> b" "dk_workspace a = dk_workspace b" "se_pending s = None"
    "om_get (se_trees s) b = None" "om_get (se_trees s) a \<noteq> None"
    "b \<notin> domain_key_of ` set (se_domains s)"
  using assms unfolding relocate_iff by blast

lemma stack_at_no_tree:
  assumes "stack_ok stack trees windows" "tree_at trees b = None"
  shows "om_get stack b = None"
proof (cases "om_get stack b")
  case (Some ls)
  with assms(1) have "ls \<noteq> []" "\<forall>l \<in> set ls. focus_resolves (Some b) (Some l) trees windows"
    by (auto simp: stack_ok_def)
  with assms(2) show ?thesis by (cases ls) (auto simp: focus_resolves_Some)
qed

lemma stack_ok_relocated:
  assumes "stack_ok stack trees windows" "om_get trees a \<noteq> None" "om_get trees b = None" "a \<noteq> b"
    "dk_workspace a = dk_workspace b" "om_ok windows"
  shows "stack_ok (rekey a b stack) (rekey a b trees) (om_map_values (rehome_link a b) windows)"
proof -
  have noB: "om_get stack b = None"
    by (rule stack_at_no_tree [OF assms(1)]) (simp add: tree_at_def assms(3))
  have "ls \<noteq> [] \<and> distinct ls \<and> (\<forall>l \<in> set ls. focus_resolves (Some k) (Some l) (rekey a b trees)
      (om_map_values (rehome_link a b) windows))"
    if "om_get (rekey a b stack) k = Some ls" for k ls
  proof (cases "k = b")
    case True
    then have "om_get stack a = Some ls" using that noB assms(4) by (auto simp: rekey_get split: if_splits)
    then show ?thesis
      using assms True by (auto simp: stack_ok_def focus_resolves_Some tree_at_rekey leaf_linked_rehome)
  next
    case False
    then have "om_get stack k = Some ls" "k \<noteq> a" using that by (auto simp: rekey_get split: if_splits)
    then show ?thesis
      using assms False by (auto simp: stack_ok_def focus_resolves_Some tree_at_rekey leaf_linked_rehome)
  qed
  then show ?thesis using assms(1) by (simp add: stack_ok_def)
qed

lemma active_ok_relocated:
  assumes "active_ok active trees" "a \<noteq> b" "om_get trees a \<noteq> None" "om_get trees b = None"
  shows "active_ok (rekey a b active) (rekey a b trees)"
proof -
  have known: "om_get active k \<noteq> None \<Longrightarrow> om_get trees k \<noteq> None" for k
    using assms(1) by (simp add: active_ok_def om_contains_def)
  then have "om_get active b = None" using assms(4) by blast
  then have "om_get (rekey a b active) k \<noteq> None \<Longrightarrow> om_get (rekey a b trees) k \<noteq> None" for k
    using assms(2,3) known [of k] by (simp add: rekey_get split: if_splits)
  then show ?thesis using assms(1) by (simp add: active_ok_def om_contains_def)
qed

lemma relocate_False: "\<not> fst (relocate_domain s a b bounds gap) \<longrightarrow> snd (relocate_domain s a b bounds gap) = s"
  unfolding relocate_domain_def Let_def by (intro refused_steps)

lemma relocate_domain_inv:
  assumes "session_inv s"
  shows "session_inv (snd (relocate_domain s a b bounds gap))"
proof (cases "fst (relocate_domain s a b bounds gap)")
  case False
  then show ?thesis using assms relocate_False [of s a b bounds gap] by simp
next
  case True
  then obtain s' where s': "relocate_domain s a b bounds gap = (True, s')" by (metis prod.collapse)
  from s' obtain i where r: "s' = relocated s a b i bounds gap" "validate_current_topology s'"
    "a \<noteq> b" "dk_workspace a = dk_workspace b" "se_pending s = None" "om_get (se_trees s) b = None"
    "om_get (se_trees s) a \<noteq> None" by (rule relocate_True)
  have c: "current_ok s" "bound_ok s" using assms by (auto simp: session_inv_def)
  have "stack_ok (se_focus_stack s') (se_trees s') (se_windows s')"
    unfolding r(1) using c(1) r stack_ok_relocated by (simp add: current_ok_def world_ok_def)
  moreover have "active_ok (se_last_active s') (se_trees s')"
    unfolding r(1) relocated_fields using c(1) r(3,6,7)
    by (intro active_ok_relocated) (simp_all add: current_ok_def)
  moreover have "world_ok (se_domains s') (se_trees s') (se_windows s') (se_exceptions s')
      (se_focused_domain s') (se_focused_leaf s')"
  proof -
    have w: "om_ok (se_trees s)" "om_ok (se_windows s)" "om_ok (se_exceptions s)"
      "\<forall>w l. om_get (se_windows s) w = Some l \<longrightarrow> link_window l = w"
      "\<forall>w r. om_get (se_exceptions s) w = Some r \<longrightarrow> ex_window r = w"
      using c(1) by (simp_all add: current_ok_def world_ok_def)
    have ok: "om_ok (se_trees s')" "om_ok (se_windows s')" "om_ok (se_exceptions s')"
      using w by (simp_all add: r(1))
    have "\<forall>w l. om_get (se_windows s') w = Some l \<longrightarrow> link_window l = w"
      "\<forall>w x. om_get (se_exceptions s') w = Some x \<longrightarrow> ex_window x = w"
      using w by (auto simp: r(1))
    then show ?thesis
      using r(2) ok unfolding world_ok_def validate_current_topology_def by (simp add: validate_topology_iff)
  qed
  ultimately have "current_ok s'" using c(1) by (simp add: current_ok_def r(1))
  moreover have "bound_ok s'" using c(2) by (simp add: bound_ok_def r(1))
  ultimately show ?thesis using r(5) by (simp add: s' session_inv_def r(1))
qed

subsection \<open>The way back\<close>

lemma relocated_back:
  assumes ok: "current_ok s" and i: "i < length (se_domains s)" "domain_key_of (se_domains s ! i) = a"
    and b: "b \<notin> domain_key_of ` set (se_domains s)" and ab: "a \<noteq> b" "dk_workspace a = dk_workspace b"
  shows "relocated (relocated s a b i bounds gap) b a i (od_bounds (se_domains s ! i)) (od_gap (se_domains s ! i)) = s"
proof -
  let ?s = "relocated s a b i bounds gap"
  have w: "world_ok (se_domains s) (se_trees s) (se_windows s) (se_exceptions s) (se_focused_domain s) (se_focused_leaf s)"
    and st: "stack_ok (se_focus_stack s) (se_trees s) (se_windows s)"
    and ac: "active_ok (se_last_active s) (se_trees s)"
    using ok by (simp_all add: current_ok_def)
  have nob: "om_get (se_trees s) b = None"
    using world_keys [OF w, of b] b by (simp add: om_contains_def)
  have tree: "tree_at (se_trees s) b = None" using nob by (simp add: tree_at_def)
  have t: "rekey b a (rekey a b (se_trees s)) = se_trees s"
    using nob ab world_maps(1) [OF w] by (intro rekey_back)
  have l: "rekey b a (rekey a b (se_last_active s)) = se_last_active s"
    using ac nob ab by (intro rekey_back) (auto simp: active_ok_def om_contains_def)
  have f: "rekey b a (rekey a b (se_focus_stack s)) = se_focus_stack s"
    using stack_at_no_tree [OF st tree] st ab by (intro rekey_back) (simp_all add: stack_ok_def)
  have lk: "link_key x \<noteq> b" if "om_get (se_windows s) k = Some x" for k x
    using world_tiled [OF w that] tree by (auto simp: tiled_ok_def)
  have lw: "om_map_values (rehome_link b a) (om_map_values (rehome_link a b) (se_windows s)) = se_windows s"
    using lk ab world_maps(2) [OF w] by (intro om_map_values_id rehome_link_back) auto
  have rk: "DomainKey (ex_output x) (ex_workspace x) \<noteq> b" if "om_get (se_exceptions s) k = Some x" for k x
    using world_exception [OF w that] b by (auto simp: exception_ok_def)
  have le: "om_map_values (rehome_record b a) (om_map_values (rehome_record a b) (se_exceptions s)) = se_exceptions s"
    using rk ab world_maps(3) [OF w] by (intro om_map_values_id rehome_record_back) auto
  have fd: "se_focused_domain s \<noteq> Some b"
  proof
    assume "se_focused_domain s = Some b"
    moreover have "focus_resolves (se_focused_domain s) (se_focused_leaf s) (se_trees s) (se_windows s)"
      by (rule world_focus [OF w])
    ultimately show False using tree by (cases "se_focused_leaf s") (simp_all add: focus_resolves_def)
  qed
  have id: "od_id (se_domains s ! i) = dk_output a" using i(2) by (auto simp: domain_key_of_def)
  then have same: "(se_domains s ! i)\<lparr>od_id := dk_output a\<rparr> = se_domains s ! i" by simp
  show ?thesis
    using i(1) by (intro session.equality) (simp_all add: t l f lw le fd ab(1) same)
qed

lemma updated_out:
  assumes "distinct ks" "i < length ks" "ks ! i = a" "a \<noteq> b"
  shows "a \<notin> set (ks[i := b])"
proof
  assume "a \<in> set (ks[i := b])"
  then obtain j where "j < length ks" "ks[i := b] ! j = a" by (auto simp: in_set_conv_nth)
  with assms show False by (cases "j = i") (auto simp: nth_eq_iff_index_eq)
qed

lemma updated_position:
  assumes "map f ds' = (map f ds)[i := b]" "b \<notin> f ` set ds" "i < length ds"
  shows "position (\<lambda>d. f d = b) ds' = Some i"
proof -
  have len: "length ds' = length ds" using arg_cong [OF assms(1), of length] by simp
  have nth: "f (ds' ! j) = (if j = i then b else f (ds ! j))" if "j < length ds" for j
    using arg_cong [OF assms(1), of "\<lambda>xs. xs ! j"] that len by (auto simp: nth_list_update)
  then show ?thesis
    using assms(2,3) len by (auto simp: position_Some_iff nth)
qed

text \<open>
  C8. Moving a domain to another output is reversible. When \<open>relocate_domain\<close> has moved the domain at
  \<open>a\<close> to \<open>b\<close>, relocating it from \<open>b\<close> back to \<open>a\<close> with its former bounds and gap succeeds (a gap above
  the limit of a relocation apart) and restores the session exactly: trees, links, exceptions, focus,
  focus history and last-active leaves, and every other domain.
\<close>

theorem relocation_reversible:
  assumes "session_inv s" "relocate_domain s a b bounds gap = (True, s')"
    and "d \<in> set (se_domains s)" "domain_key_of d = a" "od_gap d \<le> 64"
  shows "relocate_domain s' b a (od_bounds d) (od_gap d) = (True, s)"
proof -
  have ok: "current_ok s" using assms(1) by (simp add: session_inv_def)
  then have w: "world_ok (se_domains s) (se_trees s) (se_windows s) (se_exceptions s) (se_focused_domain s) (se_focused_leaf s)"
    by (simp add: current_ok_def)
  then have dist: "distinct (map domain_key_of (se_domains s))" and val: "domain_validate d"
    using assms(3) world_domains [OF w] by (auto simp: list_all_iff)
  from assms(2) obtain i where i: "position (\<lambda>d. domain_key_of d = a) (se_domains s) = Some i"
    and s': "s' = relocated s a b i bounds gap" and c: "validate_current_topology s'" "a \<noteq> b"
      "dk_workspace a = dk_workspace b" "dk_output a \<noteq> dk_output b" "session_divergence s = None" "\<not> has_pending s" "se_pending s = None"
      "se_drag s = None" "om_get (se_trees s) b = None" "om_get (se_trees s) a \<noteq> None"
      "b \<notin> domain_key_of ` set (se_domains s)"
    unfolding relocate_iff by blast
  have li: "i < length (se_domains s)" "domain_key_of (se_domains s ! i) = a"
    using i by (auto simp: position_Some_iff)
  have d: "se_domains s ! i = d"
    using dist li assms(3,4) by (metis distinct_map in_set_conv_nth inj_onD nth_mem)
  have return: "relocated s' b a i (od_bounds d) (od_gap d) = s"
    unfolding s' using relocated_back [OF ok li c(11) c(2,3), of bounds gap] by (simp add: d)
  have keys: "map domain_key_of (se_domains s') = (map domain_key_of (se_domains s))[i := b]"
    using li c(3) d assms(4) by (simp add: s' map_update) (cases b; auto simp: domain_key_of_def)
  have "a \<notin> set ((map domain_key_of (se_domains s))[i := b])"
    by (rule updated_out [OF dist]) (use li c(2) in simp_all)
  then have "a \<notin> domain_key_of ` set (se_domains s')" by (simp add: keys [symmetric])
  moreover have "position (\<lambda>d. domain_key_of d = b) (se_domains s') = Some i"
    by (rule updated_position [OF keys c(11)]) (rule li(1))
  moreover have "om_get (se_trees s') a = None" "om_get (se_trees s') b \<noteq> None"
    using c(2,10) by (auto simp: s' rekey_get)
  moreover have "session_divergence s' = None" "\<not> has_pending s'" "se_pending s' = None" "se_drag s' = None"
    using c(5-8) by (simp_all add: s' session_divergence_def has_pending_def)
  moreover have "validate_current_topology s" by (rule validate_current_ok [OF assms(1)])
  moreover have "0 < rw (od_bounds d)" "0 < rh (od_bounds d)" "0 \<le> od_gap d"
    using val by (simp_all add: domain_validate_def)
  ultimately show ?thesis
    unfolding relocate_iff using return c(1-4) assms(5) by (intro conjI exI [of _ i]) auto
qed

end
