(* ===== verification/Session_Proposal.thy ===== *)
theory Session_Proposal
  imports Session_Transaction
begin

text \<open>
  What the session's proposals share: the plan types of \<open>tiler-core/src/session.rs\<close>, the binding of an
  observation to the known windows, the projection of the desired geometry, and staging. A proposal
  first decides without effect: a refusal, or a plan with the state to stage and the answer to give;
  then it stages through the reconciler. \<open>proposal_ok\<close> is the contract of every proposal.
\<close>

subsection \<open>Plans\<close>

record desired_geometry =
  dg_window :: window_id
  dg_leaf :: node_id
  dg_output :: output_id
  dg_workspace :: workspace_id
  dg_rect :: rect
  dg_overconstrained :: bool
  dg_clamped :: bool

record session_plan =
  pl_dispatch :: lifecycle_dispatch
  pl_snapshot :: session_snapshot
  pl_focus_domain :: "domain_key option"
  pl_focus_leaf :: "node_id option"
  pl_geometry :: "desired_geometry list"

subsection \<open>Observations\<close>

definition known_ids :: "session \<Rightarrow> window_id set" where
  "known_ids s = set (om_keys (se_windows s)) \<union> set (om_keys (se_exceptions s))"

definition observed_ids :: "session_observation \<Rightarrow> window_id set" where
  "observed_ids obs = set (map ow_window (so_windows obs))"

definition observed_entry :: "window_id \<Rightarrow> observed_window list \<Rightarrow> observed_window option" where
  "observed_entry w ws = find (\<lambda>e. ow_window e = w) ws"

definition observed_by_id :: "observed_window list \<Rightarrow> (window_id, observed_window) omap" where
  "observed_by_id ws = om_from_list (map (\<lambda>e. (ow_window e, e)) ws)"

definition link_matches :: "bool \<Rightarrow> window_link \<Rightarrow> observed_window \<Rightarrow> bool" where
  "link_matches relaxed l e \<longleftrightarrow> ow_output e = link_output l \<and> ow_workspace e = link_workspace l
     \<and> (if relaxed then \<not> ow_floating e else \<not> flags_any (ow_flags e))"

definition record_matches :: "bool \<Rightarrow> exception_record \<Rightarrow> observed_window \<Rightarrow> bool" where
  "record_matches relaxed r e \<longleftrightarrow> ow_output e = ex_output r \<and> ow_workspace e = ex_workspace r
     \<and> (if relaxed then ow_floating e = fl_floating (ex_flags r) else ow_flags e = ex_flags r)"

definition observed_known_match :: "session \<Rightarrow> observed_window list \<Rightarrow> window_id option \<Rightarrow> bool" where
  "observed_known_match s ws admit_new \<longleftrightarrow>
     (let by_id = observed_by_id ws
      in list_all (\<lambda>(w, l). case om_get by_id w of None \<Rightarrow> False | Some e \<Rightarrow> link_matches (se_fixed_admission s) l e)
           (se_windows s)
       \<and> list_all (\<lambda>(w, r). Some w = admit_new
           \<or> (case om_get by_id w of None \<Rightarrow> False | Some e \<Rightarrow> record_matches (se_fixed_admission s) r e))
           (se_exceptions s))"

definition hints_from_observed :: "observed_window list \<Rightarrow> (window_id, window_size_hints) omap" where
  "hints_from_observed ws = om_from_list (map (\<lambda>e. (ow_window e, ow_hints e)) ws)"

definition all_homed :: "session \<Rightarrow> observed_window list \<Rightarrow> bool" where
  "all_homed s ws \<longleftrightarrow>
     list_all (\<lambda>e. domain_for (se_domains s) (ow_output e) (ow_workspace e) \<noteq> None) ws"

subsection \<open>Desired geometry\<close>

text \<open>\<open>None\<close> is the \<open>Err(())\<close> of the projection helpers.\<close>

fun geometry_loop :: "projected_leaf list \<Rightarrow> (node_id, window_id) omap \<Rightarrow> domain_key \<Rightarrow> node_id list
    \<Rightarrow> desired_geometry list option" where
  "geometry_loop [] leaf_to_window key over = Some []"
| "geometry_loop (p # ps) leaf_to_window key over =
     (case om_get leaf_to_window (pleaf p) of
        None \<Rightarrow> None
      | Some w \<Rightarrow>
          if rw (prect p) \<le> 0 \<or> rh (prect p) \<le> 0 then None
          else map_option (\<lambda>gs. \<lparr>dg_window = w, dg_leaf = pleaf p, dg_output = dk_output key,
              dg_workspace = dk_workspace key, dg_rect = prect p,
              dg_overconstrained = (pleaf p \<in> set over), dg_clamped = False\<rparr> # gs)
            (geometry_loop ps leaf_to_window key over))"

definition leaf_windows :: "links \<Rightarrow> domain_key \<Rightarrow> (node_id, window_id) omap" where
  "leaf_windows windows key =
     om_from_list (map (\<lambda>l. (link_leaf l, link_window l)) (filter (\<lambda>l. homed l key) (om_values windows)))"

definition resolve_hints ::
  "(node_id, window_id) omap \<Rightarrow> (window_id, window_size_hints) omap \<Rightarrow> node_id \<Rightarrow> window_size_hints" where
  "resolve_hints leaf_to_window hints leaf =
     (case Option.bind (om_get leaf_to_window leaf) (om_get hints) of None \<Rightarrow> hints_none | Some h \<Rightarrow> h)"

definition project_output_geometry ::
  "output_domain option \<Rightarrow> node option \<Rightarrow> links \<Rightarrow> domain_key \<Rightarrow> (window_id, window_size_hints) omap
    \<Rightarrow> desired_geometry list option" where
  "project_output_geometry domain tree windows key hints =
     (case (domain, tree) of
        (Some d, Some t) \<Rightarrow>
          (let leaf_to_window = leaf_windows windows key
           in case project_with_hints t (od_bounds d) (od_gap d) (resolve_hints leaf_to_window hints) of
                Inl e \<Rightarrow> None
              | Inr hinted \<Rightarrow> geometry_loop (hp_leaves hinted) leaf_to_window key (hp_overconstrained hinted))
      | _ \<Rightarrow> Some [])"

fun affected_loop :: "domain_key list \<Rightarrow> output_domain list \<Rightarrow> trees \<Rightarrow> links
    \<Rightarrow> (window_id, window_size_hints) omap \<Rightarrow> desired_geometry list option" where
  "affected_loop [] domains trees windows hints = Some []"
| "affected_loop (key # keys) domains trees windows hints =
     (case find (\<lambda>d. domain_key_of d = key) domains of
        None \<Rightarrow> None
      | Some d \<Rightarrow>
          (case project_output_geometry (Some d) (tree_at trees key) windows key hints of
             None \<Rightarrow> None
           | Some gs \<Rightarrow> map_option (\<lambda>rest. gs @ rest) (affected_loop keys domains trees windows hints)))"

text \<open>The stable sort by output, workspace and leaf.\<close>

definition geometry_before :: "desired_geometry \<Rightarrow> desired_geometry \<Rightarrow> bool" where
  "geometry_before g h \<longleftrightarrow>
     (let k = DomainKey (dg_output g) (dg_workspace g); k' = DomainKey (dg_output h) (dg_workspace h)
      in k < k' \<or> k = k' \<and> dg_leaf g \<le> dg_leaf h)"

fun insert_geometry :: "desired_geometry \<Rightarrow> desired_geometry list \<Rightarrow> desired_geometry list" where
  "insert_geometry g [] = [g]"
| "insert_geometry g (h # hs) = (if geometry_before g h then g # h # hs else h # insert_geometry g hs)"

definition sort_geometry :: "desired_geometry list \<Rightarrow> desired_geometry list" where
  "sort_geometry gs = foldr insert_geometry gs []"

definition project_affected_geometry ::
  "output_domain list \<Rightarrow> trees \<Rightarrow> links \<Rightarrow> domain_key list \<Rightarrow> (window_id, window_size_hints) omap
    \<Rightarrow> desired_geometry list option" where
  "project_affected_geometry domains trees windows affected hints =
     map_option sort_geometry (affected_loop affected domains trees windows hints)"

definition covers_one :: "desired_geometry list \<Rightarrow> links \<Rightarrow> domain_key \<Rightarrow> bool" where
  "covers_one geometry windows key \<longleftrightarrow>
     (let here = filter (\<lambda>g. dg_output g = dk_output key \<and> dg_workspace g = dk_workspace key) geometry
      in set (map link_leaf (filter (\<lambda>l. homed l key) (om_values windows))) = set (map dg_leaf here)
       \<and> list_all (\<lambda>g. dg_window g \<noteq> [] \<and> dg_leaf g \<noteq> []
            \<and> \<not> (rw (dg_rect g) \<le> 0 \<or> rh (dg_rect g) \<le> 0)
            \<and> (case om_get windows (dg_window g) of
                 None \<Rightarrow> False
               | Some l \<Rightarrow> link_leaf l = dg_leaf g \<and> link_output l = dg_output g
                   \<and> link_workspace l = dg_workspace g)) here)"

definition geometry_covers_affected :: "desired_geometry list \<Rightarrow> links \<Rightarrow> domain_key list \<Rightarrow> bool" where
  "geometry_covers_affected geometry windows affected \<longleftrightarrow>
     list_all (covers_one geometry windows) affected
     \<and> list_all (\<lambda>g. list_ex (\<lambda>k. dk_output k = dg_output g \<and> dk_workspace k = dg_workspace g) affected) geometry"

subsection \<open>Staging a decision\<close>

text \<open>The staged state that keeps everything; each operation replaces what it changes.\<close>

definition desired_of :: "session \<Rightarrow> pending_desired" where
  "desired_of s = \<lparr>pe_trees = se_trees s, pe_windows = se_windows s, pe_focused_domain = se_focused_domain s,
     pe_focused_leaf = se_focused_leaf s, pe_last_active = se_last_active s, pe_exceptions = se_exceptions s,
     pe_retained = se_retained s, pe_automatic_fixed = se_automatic_fixed s,
     pe_tile_override = se_tile_override s\<rparr>"

type_synonym ('p, 'd, 'a) decision = "refusal_kind + ('p \<times> pending_desired \<times> ('d \<Rightarrow> 'a))"

definition stage ::
  "('p \<Rightarrow> reconciler \<Rightarrow> (propose_error + 'd) \<times> reconciler) \<Rightarrow> ('p, 'd, 'a) decision \<Rightarrow> session
    \<Rightarrow> (session_error + 'a) \<times> session" where
  "stage offer decision s =
     (case decision of
        Inl kind \<Rightarrow> (Inl (SRefused kind), s)
      | Inr (plan, desired, answer) \<Rightarrow> stage_plan (offer plan) desired answer s)"

text \<open>The first guards of every proposal.\<close>

definition ready_error :: "session \<Rightarrow> session_error option" where
  "ready_error s =
     (case session_divergence s of
        Some reason \<Rightarrow> Some (SDiverged reason)
      | None \<Rightarrow> if has_pending s then Some SPendingExists
          else if se_drag s \<noteq> None then Some SPendingExists
          else None)"

definition when_ready :: "session \<Rightarrow> (session_error + 'a) \<times> session \<Rightarrow> (session_error + 'a) \<times> session" where
  "when_ready s k = (case ready_error s of Some e \<Rightarrow> (Inl e, s) | None \<Rightarrow> k)"

definition session_plan_of ::
  "session_snapshot \<Rightarrow> domain_key option \<Rightarrow> node_id option \<Rightarrow> desired_geometry list \<Rightarrow> lifecycle_dispatch
    \<Rightarrow> session_plan" where
  "session_plan_of snapshot fd fl geometry dispatch =
     \<lparr>pl_dispatch = dispatch, pl_snapshot = snapshot, pl_focus_domain = fd, pl_focus_leaf = fl,
      pl_geometry = geometry\<rparr>"

subsection \<open>The contract of a proposal\<close>

definition proposal_ok :: "session \<Rightarrow> (session_error + 'a) \<times> session \<Rightarrow> bool" where
  "proposal_ok s x \<longleftrightarrow> session_inv (snd x) \<and> keeps_world s (snd x)
     \<and> (case fst x of
          Inl (SRefused kind) \<Rightarrow> snd x = s
        | Inl SPendingExists \<Rightarrow> snd x = s
        | Inl (SDiverged reason) \<Rightarrow> session_divergence (snd x) = Some reason \<and> se_pending (snd x) = None
        | Inr a \<Rightarrow> session_divergence s = None \<and> se_pending s = None \<and> se_drag s = None
            \<and> session_divergence (snd x) = None \<and> se_pending (snd x) \<noteq> None)"

lemma proposal_refused: "session_inv s \<Longrightarrow> proposal_ok s (Inl (SRefused k), s)"
  by (simp add: proposal_ok_def)

lemma ready_error_None:
  assumes "session_inv s"
  shows "ready_error s = None \<longleftrightarrow> session_divergence s = None \<and> se_pending s = None \<and> se_drag s = None"
  using assms by (auto simp: session_inv_def bound_ok_def has_pending_def status_def ready_error_def
      session_divergence_def split: option.splits)

lemma proposal_not_ready:
  assumes "session_inv s" "ready_error s = Some e"
  shows "proposal_ok s (Inl e, s)"
proof -
  have "session_divergence s = Some reason \<Longrightarrow> se_pending s = None" for reason
    using assms(1) by (auto simp: session_inv_def bound_ok_def rc_inv_def session_divergence_def)
  then show ?thesis
    using assms by (auto simp: proposal_ok_def ready_error_def split: option.splits if_splits)
qed

lemma proposal_when_ready:
  assumes "session_inv s"
    and "session_divergence s = None \<Longrightarrow> se_pending s = None \<Longrightarrow> se_drag s = None \<Longrightarrow> proposal_ok s k"
  shows "proposal_ok s (when_ready s k)"
  using assms proposal_not_ready [OF assms(1)] ready_error_None [OF assms(1)]
  by (cases "ready_error s") (auto simp: when_ready_def)

text \<open>A decision whose staged states are all well-formed gives a proposal that keeps its contract.\<close>

definition decision_ok :: "session \<Rightarrow> ('p, 'd, 'a) decision \<Rightarrow> bool" where
  "decision_ok s decision \<longleftrightarrow> (\<forall>plan desired answer.
     decision = Inr (plan, desired, answer) \<longrightarrow> desired_ok (se_domains s) desired)"

lemma decision_refused [simp]: "decision_ok s (Inl k)"
  by (simp add: decision_ok_def)

lemma decision_staged [simp]: "decision_ok s (Inr (plan, desired, answer)) \<longleftrightarrow> desired_ok (se_domains s) desired"
  by (simp add: decision_ok_def)

lemma decision_if: "(c \<Longrightarrow> decision_ok s x) \<Longrightarrow> (\<not> c \<Longrightarrow> decision_ok s y) \<Longrightarrow> decision_ok s (if c then x else y)"
  by simp

lemma decision_option: "decision_ok s x \<Longrightarrow> (\<And>v. m = Some v \<Longrightarrow> decision_ok s (f v))
    \<Longrightarrow> decision_ok s (case m of None \<Rightarrow> x | Some v \<Rightarrow> f v)"
  by (cases m) simp_all

lemma decision_stage: "desired_ok (se_domains s) desired \<Longrightarrow> decision_ok s (Inr (plan, desired, answer))"
  by simp

lemmas decision_steps = decision_if decision_option decision_refused

context proposal
begin

lemma stage_ok:
  assumes "session_inv s" "desired_ok (se_domains s) desired" "se_drag s = None"
  shows "proposal_ok s (stage_plan offer desired answer s)"
proof -
  have inv: "session_inv (snd (stage_plan offer desired answer s))" by (rule stage_inv [OF assms])
  have slot: "keeps_world s (s\<lparr>se_reconciler := slot corr kind (se_reconciler s), se_pending := Some desired\<rparr>)"
    by (simp add: keeps_world_def accepted_revision_def slot_def)
  from stage_outcome [OF assms(1), of desired answer] show ?thesis
  proof (elim disjE exE conjE)
    fix d
    assume "stage_plan offer desired answer s =
        (Inr (answer d), s\<lparr>se_reconciler := slot corr kind (se_reconciler s), se_pending := Some desired\<rparr>)"
      "rc_diverged (se_reconciler s) = None" "se_pending s = None"
    with inv slot assms(3) show ?thesis
      by (simp add: proposal_ok_def session_divergence_def) (simp add: slot_def)
  next
    fix e reason
    assume "stage_plan offer desired answer s = (Inl e, s)" "e = SDiverged reason"
      and d: "rc_diverged (se_reconciler s) = Some reason"
    moreover have "se_pending s = None" using assms(1) d by (auto simp: session_inv_def bound_ok_def rc_inv_def)
    ultimately show ?thesis using assms(1) by (simp add: proposal_ok_def session_divergence_def)
  qed (use inv in \<open>auto simp: proposal_ok_def session_divergence_def diverge_def keeps_world_def accepted_revision_def\<close>)
qed

end

lemma stage_decision_ok:
  fixes decision :: "('p, 'd, 'a) decision"
  assumes "session_inv s" "decision_ok s decision"
    and "\<And>plan desired (answer :: 'd \<Rightarrow> 'a). desired_ok (se_domains s) desired \<Longrightarrow> proposal_ok s (stage_plan (offer plan) desired answer s)"
  shows "proposal_ok s (stage offer decision s)"
  using assms by (cases decision) (auto simp: stage_def proposal_refused decision_ok_def)

lemma stage_lifecycle_ok: "session_inv s \<Longrightarrow> se_drag s = None \<Longrightarrow> decision_ok s decision
    \<Longrightarrow> proposal_ok s (stage (\<lambda>plan. propose_lifecycle plan ob corr caps) decision s)"
  by (rule stage_decision_ok) (auto intro: lifecycle_proposal.stage_ok)

lemma stage_focus_ok: "session_inv s \<Longrightarrow> se_drag s = None \<Longrightarrow> decision_ok s decision
    \<Longrightarrow> proposal_ok s (stage (\<lambda>plan. propose_focus plan ob corr caps) decision s)"
  by (rule stage_decision_ok) (auto intro: focus_proposal.stage_ok)

lemma stage_resize_ok: "session_inv s \<Longrightarrow> se_drag s = None \<Longrightarrow> decision_ok s decision
    \<Longrightarrow> proposal_ok s (stage (\<lambda>plan. propose_resize plan ob corr caps) decision s)"
  by (rule stage_decision_ok) (auto intro: resize_proposal.stage_ok)

lemma stage_move_ok: "session_inv s \<Longrightarrow> se_drag s = None \<Longrightarrow> decision_ok s decision
    \<Longrightarrow> proposal_ok s (stage (\<lambda>plan. propose plan ob corr caps) decision s)"
  by (rule stage_decision_ok) (auto intro: move_proposal.stage_ok)

subsection \<open>Well-formed staged states\<close>

lemma desired_of_ok: "current_ok s \<Longrightarrow> desired_ok (se_domains s) (desired_of s)"
  by (simp add: current_ok_def desired_ok_def desired_of_def)

lemma active_ok_updated:
  assumes "active_ok active trees'" "\<And>k. om_contains trees' k \<Longrightarrow> om_contains trees k"
    "\<And>k. om_contains trees'' k \<Longrightarrow> om_contains trees k"
  shows "active_ok (updated_last_active active fd fl trees'' windows) trees"
  using assms by (auto simp: active_ok_def updated_last_active_def om_contains_def tree_at_Some split: option.split)

text \<open>A validated desired world is well-formed when its maps are.\<close>

lemma validated_world:
  assumes "validate_topology ds trees windows exceptions fd fl" "om_ok trees" "om_ok windows" "om_ok exceptions"
    "\<And>w l. om_get windows w = Some l \<Longrightarrow> link_window l = w"
    "\<And>w r. om_get exceptions w = Some r \<Longrightarrow> ex_window r = w"
  shows "world_ok ds trees windows exceptions fd fl"
  using assms by (simp add: world_ok_def validate_topology_iff)

lemma desired_okI:
  assumes "validate_topology ds (pe_trees d) (pe_windows d) (pe_exceptions d) (pe_focused_domain d) (pe_focused_leaf d)"
    "om_ok (pe_trees d)" "om_ok (pe_windows d)" "om_ok (pe_exceptions d)"
    "\<And>w l. om_get (pe_windows d) w = Some l \<Longrightarrow> link_window l = w"
    "\<And>w r. om_get (pe_exceptions d) w = Some r \<Longrightarrow> ex_window r = w"
    "active_ok (pe_last_active d) (pe_trees d)" "om_ok (pe_retained d)"
  shows "desired_ok ds d"
  using assms validated_world [OF assms(1-4)] by (simp add: desired_ok_def)

text \<open>Staged states that change trees, links and focus but no exception.\<close>

lemma desired_tiled_ok:
  assumes "current_ok s"
    and "validate_topology (se_domains s) (pe_trees d) (pe_windows d) (se_exceptions s) (pe_focused_domain d) (pe_focused_leaf d)"
    and "om_ok (pe_trees d)" "om_ok (pe_windows d)" "\<And>w l. om_get (pe_windows d) w = Some l \<Longrightarrow> link_window l = w"
    and "pe_exceptions d = se_exceptions s" "pe_retained d = se_retained s" "active_ok (pe_last_active d) (pe_trees d)"
  shows "desired_ok (se_domains s) d"
proof (rule desired_okI)
  have w: "world_ok (se_domains s) (se_trees s) (se_windows s) (se_exceptions s) (se_focused_domain s) (se_focused_leaf s)"
    and r: "om_ok (se_retained s)"
    using assms(1) by (simp_all add: current_ok_def)
  show "om_ok (pe_exceptions d)" "om_ok (pe_retained d)" using world_maps(3) [OF w] r assms(6,7) by simp_all
  show "ex_window r = w'" if "om_get (pe_exceptions d) w' = Some r" for w' r
    using world_record_window [OF w] that assms(6) by simp
qed (use assms in simp_all)

lemma world_exception_insert:
  assumes "world_ok ds trees windows exceptions fd fl" "om_get windows w = None" "ex_window r = w" "exception_ok ds r"
  shows "world_ok ds trees windows (om_insert w r exceptions) fd fl"
  using assms by (simp add: world_ok_def topology_ok_def om_contains_def)

lemma world_exception_remove:
  assumes "world_ok ds trees windows exceptions fd fl"
  shows "world_ok ds trees windows (om_remove w exceptions) fd fl"
  using assms by (simp add: world_ok_def topology_ok_def om_contains_def)

lemma current_world: "current_ok s \<Longrightarrow>
    world_ok (se_domains s) (se_trees s) (se_windows s) (se_exceptions s) (se_focused_domain s) (se_focused_leaf s)"
  by (simp add: current_ok_def)

lemma current_active: "current_ok s \<Longrightarrow> active_ok (se_last_active s) (se_trees s)"
  by (simp add: current_ok_def)

lemma active_ok_insert:
  assumes "current_ok s" "\<And>k. om_contains (se_trees s) k \<Longrightarrow> om_contains trees k"
  shows "active_ok (updated_last_active (se_last_active s) fd fl trees windows) trees"
    "active_ok (updated_last_active (se_last_active s) fd fl (se_trees s) windows) trees"
  using active_ok_updated [OF current_active [OF assms(1)], of trees] assms(2) by blast+

lemma inserted_contains [simp]: "om_contains m k \<Longrightarrow> om_contains (om_insert j v m) k"
  by (simp add: om_contains_def)

end
