(* ===== verification/Session_Lifecycle.thy ===== *)
theory Session_Lifecycle
  imports Session_Proposal
begin

text \<open>
  Admission, removal and the orientation toggle: \<open>session/ops/lifecycle.rs\<close> and
  \<open>session/ops/toggle_orientation.rs\<close>. A proposal whose identity search may not return is an option,
  \<open>None\<close> being the search that does not return.
\<close>

subsection \<open>Commands\<close>

datatype session_command =
    CmdAdmit window_id output_id workspace_id exception_flags "exception_behavior option" rect bool
  | CmdRemove window_id
  | CmdMoveToWorkspace window_id output_id workspace_id bool
  | CmdMoveToOutput window_id output_id workspace_id bool
  | CmdToggleFloat window_id "rect option"
  | CmdToggleOrientation window_id

fun valid_command_shapes :: "session_command \<Rightarrow> bool" where
  "valid_command_shapes (CmdAdmit w p ws flags behavior bounds suppress) \<longleftrightarrow>
     w \<noteq> [] \<and> p \<noteq> [] \<and> ws \<noteq> [] \<and> valid_rect_shape bounds"
| "valid_command_shapes (CmdRemove w) \<longleftrightarrow> w \<noteq> []"
| "valid_command_shapes (CmdMoveToWorkspace w p ws follow) \<longleftrightarrow> w \<noteq> [] \<and> p \<noteq> [] \<and> ws \<noteq> []"
| "valid_command_shapes (CmdMoveToOutput w p ws follow) \<longleftrightarrow> w \<noteq> [] \<and> p \<noteq> [] \<and> ws \<noteq> []"
| "valid_command_shapes (CmdToggleFloat w geometry) \<longleftrightarrow>
     w \<noteq> [] \<and> (case geometry of None \<Rightarrow> True | Some r \<Rightarrow> valid_rect_shape r)"
| "valid_command_shapes (CmdToggleOrientation w) \<longleftrightarrow> w \<noteq> []"

definition check_domains :: "session \<Rightarrow> session_command \<Rightarrow> observed_window list \<Rightarrow> refusal_kind option" where
  "check_domains s command ws =
     (case command of
        CmdAdmit w p wk flags behavior bounds suppress \<Rightarrow>
          if domain_for (se_domains s) p wk = None then Some CrossDomainMismatch
          else if \<not> all_homed s ws then Some CrossDomainMismatch else None
      | _ \<Rightarrow> if \<not> all_homed s ws then Some CrossDomainMismatch else None)"

subsection \<open>Admission\<close>

definition generate_leaf_id :: "window_id \<Rightarrow> node_id set \<Rightarrow> node_id option" where
  "generate_leaf_id window existing =
     (let base = ''leaf-'' @ window in if base \<notin> existing then Some base else group_id_loop base existing 1)"

type_synonym lifecycle_decision = "(lifecycle_plan, lifecycle_dispatch, session_plan) decision"

definition floating_only :: exception_flags where
  "floating_only = \<lparr>fl_floating = True, fl_fullscreen = False, fl_maximized = False, fl_sticky = False\<rparr>"

definition admit_record :: "window_id \<Rightarrow> output_id \<Rightarrow> workspace_id \<Rightarrow> exception_flags \<Rightarrow> exception_record" where
  "admit_record w p ws flags =
     \<lparr>ex_window = w, ex_output = p, ex_workspace = ws, ex_flags = flags, ex_geometry = None\<rparr>"

definition admit_deferred ::
  "session \<Rightarrow> window_id \<Rightarrow> output_id \<Rightarrow> workspace_id \<Rightarrow> exception_flags \<Rightarrow> lifecycle_decision" where
  "admit_deferred s w p ws flags =
     (let exceptions = om_insert w (admit_record w p ws flags) (se_exceptions s)
      in if exceptions = se_exceptions s then Inl Unchanged
         else Inr (lifecycle_for_operation (IntentAdmit w p ws) (OpAdmitDeferred w p ws),
           (desired_of s)\<lparr>pe_exceptions := exceptions\<rparr>,
           session_plan_of (snapshot_for (se_domains s) (se_trees s) (se_windows s))
             (se_focused_domain s) (se_focused_leaf s) []))"

definition admit_fixed :: "session \<Rightarrow> window_id \<Rightarrow> output_id \<Rightarrow> workspace_id \<Rightarrow> lifecycle_decision" where
  "admit_fixed s w p ws =
     Inr (lifecycle_for_operation (IntentAdmit w p ws) (OpAdmitDeferred w p ws),
       (desired_of s)\<lparr>pe_exceptions := om_insert w (admit_record w p ws floating_only) (se_exceptions s),
         pe_automatic_fixed := insert w (se_automatic_fixed s)\<rparr>,
       session_plan_of (snapshot_for (se_domains s) (se_trees s) (se_windows s))
         (se_focused_domain s) (se_focused_leaf s) [])"

definition admit_tiled_at ::
  "session \<Rightarrow> window_id \<Rightarrow> domain_key \<Rightarrow> node_id \<Rightarrow> node option \<Rightarrow> bool \<Rightarrow> observed_window list
    \<Rightarrow> lifecycle_decision" where
  "admit_tiled_at s w key leaf new_target tile_wins ws =
     (let trees = om_insert key new_target (se_trees s);
          windows = om_insert w \<lparr>link_window = w, link_leaf = leaf, link_output = dk_output key,
            link_workspace = dk_workspace key\<rparr> (se_windows s)
      in if \<not> validate_topology (se_domains s) trees windows (se_exceptions s) (Some key) (Some leaf)
         then Inl RfMalformedTopology
         else if trees = se_trees s \<and> windows = se_windows s \<and> se_focused_domain s = Some key
           \<and> se_focused_leaf s = Some leaf then Inl Unchanged
         else case project_output_geometry (domain_for (se_domains s) (dk_output key) (dk_workspace key))
             (tree_at trees key) windows key (hints_from_observed ws) of
             None \<Rightarrow> Inl RfMalformedTopology
           | Some geometry \<Rightarrow>
               if geometry = [] then Inl RfMalformedTopology
               else Inr (lifecycle_for_operation (IntentAdmit w (dk_output key) (dk_workspace key))
                   (OpAdmit w leaf (dk_output key) (dk_workspace key)),
                 (desired_of s)\<lparr>pe_trees := trees, pe_windows := windows, pe_focused_domain := Some key,
                   pe_focused_leaf := Some leaf,
                   pe_last_active := updated_last_active (se_last_active s) (Some key) (Some leaf) trees windows,
                   pe_automatic_fixed := (if tile_wins then se_automatic_fixed s - {w} else se_automatic_fixed s),
                   pe_tile_override := (if tile_wins then insert w (se_tile_override s) else se_tile_override s)\<rparr>,
                 session_plan_of (snapshot_for (se_domains s) trees windows) (Some key) (Some leaf) geometry))"

definition admit_tiled ::
  "session \<Rightarrow> window_id \<Rightarrow> output_id \<Rightarrow> workspace_id \<Rightarrow> rect \<Rightarrow> bool \<Rightarrow> session_observation
    \<Rightarrow> lifecycle_decision option" where
  "admit_tiled s w p ws bounds tile_wins obs =
     (let ids = all_node_ids (se_trees s); key = DomainKey p ws
      in Option.bind (generate_leaf_id w ids) (\<lambda>leaf.
         Option.bind (insert_tiled (se_policy s) (tree_at (se_trees s) key) (eligible_focus_in s key) leaf
             (lp_admission_axis_for_rect (se_policy s) bounds) (insert leaf ids) w
             (ob_revision (so_observation obs)))
           (\<lambda>(new_target, ids'). Some (admit_tiled_at s w key leaf new_target tile_wins (so_windows obs)))))"

definition admit_decision ::
  "session \<Rightarrow> window_id \<Rightarrow> output_id \<Rightarrow> workspace_id \<Rightarrow> exception_flags \<Rightarrow> exception_behavior option \<Rightarrow> rect
    \<Rightarrow> bool \<Rightarrow> session_observation \<Rightarrow> lifecycle_decision option" where
  "admit_decision s w p ws flags behavior bounds suppress obs =
     (if om_contains (se_windows s) w \<or> om_contains (se_exceptions s) w then Some (Inl DuplicateWindow)
      else if observed_ids obs \<noteq> insert w (known_ids s) then Some (Inl PartialObservation)
      else case observed_entry w (so_windows obs) of
          None \<Rightarrow> Some (Inl PartialObservation)
        | Some e \<Rightarrow>
            if ow_output e \<noteq> p \<or> ow_workspace e \<noteq> ws \<or> ow_flags e \<noteq> flags then Some (Inl PartialObservation)
            else if \<not> observed_known_match s (so_windows obs) (Some w) then Some (Inl PartialObservation)
            else if flags_any flags \<and> behavior = None then Some (Inl ExceptionBehaviorUnselected)
            else if \<not> flags_any flags \<and> behavior \<noteq> None then Some (Inl MalformedInput)
            else if \<not> valid_rect_shape bounds then Some (Inl MalformedInput)
            else if flags_any flags then Some (admit_deferred s w p ws flags)
            else if se_fixed_admission s \<and> \<not> (w \<in> se_tile_override s \<or> suppress) \<and> \<not> ow_floating e
                \<and> \<not> ow_fullscreen e \<and> \<not> ow_sticky e \<and> \<not> ow_fixed_suppress e
                \<and> is_fixed_size_with (ow_hints e) (se_fixed_predicate s)
              then Some (admit_fixed s w p ws)
            else if ow_floating e \<or> ow_fullscreen e \<or> ow_maximized e \<or> ow_sticky e
              then Some (Inl PartialObservation)
            else admit_tiled s w p ws bounds (suppress \<or> se_fixed_admission s \<and> ow_fixed_suppress e) obs)"

definition propose_admit ::
  "session \<Rightarrow> window_id \<Rightarrow> output_id \<Rightarrow> workspace_id \<Rightarrow> exception_flags \<Rightarrow> exception_behavior option \<Rightarrow> rect
    \<Rightarrow> bool \<Rightarrow> session_observation \<Rightarrow> correlation_id \<Rightarrow> lifecycle_capabilities
    \<Rightarrow> ((session_error + session_plan) \<times> session) option" where
  "propose_admit s w p ws flags behavior bounds suppress obs corr caps =
     map_option (\<lambda>d. stage (\<lambda>plan. propose_lifecycle plan (so_observation obs) corr caps) d s)
       (admit_decision s w p ws flags behavior bounds suppress obs)"

subsection \<open>Removal\<close>

fun first_leaf_global :: "output_domain list \<Rightarrow> trees \<Rightarrow> (domain_key \<times> node_id) option" where
  "first_leaf_global [] trees = None"
| "first_leaf_global (d # ds) trees =
     (case tree_at trees (domain_key_of d) of
        Some t \<Rightarrow> (case collect_leaves t of
            l # ls \<Rightarrow> Some (domain_key_of d, l)
          | [] \<Rightarrow> first_leaf_global ds trees)
      | None \<Rightarrow> first_leaf_global ds trees)"

definition remove_deferred :: "session \<Rightarrow> window_id \<Rightarrow> exception_record \<Rightarrow> lifecycle_decision" where
  "remove_deferred s w r =
     (let (fd, fl) =
        (if focus_resolves (se_focused_domain s) (se_focused_leaf s) (se_trees s) (se_windows s)
         then (se_focused_domain s, se_focused_leaf s)
         else (map_option fst (first_leaf_global (se_domains s) (se_trees s)),
               map_option snd (first_leaf_global (se_domains s) (se_trees s))))
      in Inr (lifecycle_for_operation (IntentRemove w) (OpRemoveDeferred w (ex_output r) (ex_workspace r)),
        (desired_of s)\<lparr>pe_focused_domain := fd, pe_focused_leaf := fl,
          pe_last_active := updated_last_active (se_last_active s) fd fl (se_trees s) (se_windows s),
          pe_exceptions := om_remove w (se_exceptions s)\<rparr>,
        session_plan_of (snapshot_for (se_domains s) (se_trees s) (se_windows s)) fd fl []))"

definition removal_focus ::
  "session \<Rightarrow> domain_key \<Rightarrow> node_id \<Rightarrow> trees \<Rightarrow> links \<Rightarrow> domain_key option \<times> node_id option" where
  "removal_focus s key leaf trees windows =
     (if se_focused_leaf s = Some leaf \<and> se_focused_domain s = Some key
      then case focus_stack_fallback (se_focus_stack s) key trees windows of
          Some successor \<Rightarrow> (Some key, Some successor)
        | None \<Rightarrow> (None, None)
      else if focus_resolves (se_focused_domain s) (se_focused_leaf s) trees windows
        then (se_focused_domain s, se_focused_leaf s)
      else (None, None))"

definition remove_tiled :: "session \<Rightarrow> window_id \<Rightarrow> window_link \<Rightarrow> observed_window list \<Rightarrow> lifecycle_decision" where
  "remove_tiled s w l ws =
     (let key = link_key l; leaf = link_leaf l;
          new_target = remove_leaf_from_tree (se_policy s) (tree_at (se_trees s) key) leaf;
          trees = om_insert key new_target (se_trees s);
          windows = om_remove w (se_windows s);
          (fd, fl) = removal_focus s key leaf trees windows
      in if \<not> validate_topology (se_domains s) trees windows (se_exceptions s) fd fl
         then Inl RfMalformedTopology
         else if trees = se_trees s \<and> windows = se_windows s \<and> fd = se_focused_domain s
           \<and> fl = se_focused_leaf s then Inl Unchanged
         else case (case new_target of
               Some t \<Rightarrow> project_output_geometry (domain_for (se_domains s) (dk_output key) (dk_workspace key))
                 (Some t) windows key (hints_from_observed ws)
             | None \<Rightarrow> Some []) of
             None \<Rightarrow> Inl RfMalformedTopology
           | Some geometry \<Rightarrow>
               Inr (lifecycle_for_operation (IntentRemove w) (OpRemove w leaf (dk_output key) (dk_workspace key)),
                 (desired_of s)\<lparr>pe_trees := trees, pe_windows := windows, pe_focused_domain := fd,
                   pe_focused_leaf := fl,
                   pe_last_active := updated_last_active (se_last_active s) fd fl trees windows\<rparr>,
                 session_plan_of (snapshot_for (se_domains s) trees windows) fd fl geometry))"

definition remove_decision :: "session \<Rightarrow> window_id \<Rightarrow> session_observation \<Rightarrow> lifecycle_decision" where
  "remove_decision s w obs =
     (let tiled = om_get (se_windows s) w; deferred = om_get (se_exceptions s) w
      in if tiled = None \<and> deferred = None then Inl UnknownWindow
         else if tiled \<noteq> None \<and> deferred \<noteq> None then Inl RfMalformedTopology
         else if observed_ids obs \<noteq> known_ids s then Inl PartialObservation
         else if \<not> observed_known_match s (so_windows obs) None then Inl PartialObservation
         else case deferred of
             Some r \<Rightarrow> remove_deferred s w r
           | None \<Rightarrow> (case tiled of
               None \<Rightarrow> Inl UnknownWindow
             | Some l \<Rightarrow> remove_tiled s w l (so_windows obs)))"

definition propose_remove ::
  "session \<Rightarrow> window_id \<Rightarrow> session_observation \<Rightarrow> correlation_id \<Rightarrow> lifecycle_capabilities
    \<Rightarrow> (session_error + session_plan) \<times> session" where
  "propose_remove s w obs corr caps =
     stage (\<lambda>plan. propose_lifecycle plan (so_observation obs) corr caps) (remove_decision s w obs) s"

subsection \<open>Orientation\<close>

fun flip_group_axis :: "node \<Rightarrow> node_id \<Rightarrow> node option"
  and flip_group_axis_in :: "node list \<Rightarrow> node_id \<Rightarrow> node list option" where
  "flip_group_axis (Leaf i) g = None"
| "flip_group_axis (Group i a cs sh) g =
     (if i = g then Some (Group i (case a of Horizontal \<Rightarrow> Vertical | Vertical \<Rightarrow> Horizontal) cs sh)
      else map_option (\<lambda>cs'. Group i a cs' sh) (flip_group_axis_in cs g))"
| "flip_group_axis_in [] g = None"
| "flip_group_axis_in (c # cs) g =
     (case flip_group_axis c g of
        Some c' \<Rightarrow> Some (c' # cs)
      | None \<Rightarrow> map_option (\<lambda>cs'. c # cs') (flip_group_axis_in cs g))"

text \<open>The focused window of a proposal bound to the keyboard focus.\<close>

definition toggle_orientation_at ::
  "session \<Rightarrow> window_id \<Rightarrow> domain_key \<Rightarrow> node_id \<Rightarrow> observed_window list \<Rightarrow> lifecycle_decision" where
  "toggle_orientation_at s w key leaf ws =
     (case tree_at (se_trees s) key of
        None \<Rightarrow> Inl RfMalformedTopology
      | Some tree \<Rightarrow>
          (case direct_parent_of_leaf tree leaf of
             None \<Rightarrow> Inl Unchanged
           | Some parent \<Rightarrow>
               (case flip_group_axis tree parent of
                  None \<Rightarrow> Inl RfMalformedTopology
                | Some flipped \<Rightarrow>
                    let trees = om_insert key (Some flipped) (se_trees s)
                    in if \<not> validate_topology (se_domains s) trees (se_windows s) (se_exceptions s)
                         (Some key) (Some leaf) then Inl RfMalformedTopology
                       else case project_output_geometry
                           (domain_for (se_domains s) (dk_output key) (dk_workspace key))
                           (Some flipped) (se_windows s) key (hints_from_observed ws) of
                           None \<Rightarrow> Inl RfMalformedTopology
                         | Some geometry \<Rightarrow>
                             Inr (lifecycle_for_operation
                                 (IntentToggleOrientation w (dk_output key) (dk_workspace key))
                                 (OpToggleOrientation w leaf parent (dk_output key) (dk_workspace key)),
                               (desired_of s)\<lparr>pe_trees := trees, pe_focused_domain := Some key,
                                 pe_focused_leaf := Some leaf,
                                 pe_last_active := updated_last_active (se_last_active s) (Some key) (Some leaf)
                                   (se_trees s) (se_windows s)\<rparr>,
                               session_plan_of (snapshot_for (se_domains s) trees (se_windows s))
                                 (Some key) (Some leaf) geometry))))"

definition toggle_orientation_decision :: "session \<Rightarrow> window_id \<Rightarrow> session_observation \<Rightarrow> lifecycle_decision" where
  "toggle_orientation_decision s w obs =
     (if \<not> validate_current_topology s then Inl RfMalformedTopology
      else if w = [] then Inl MalformedInput
      else if \<not> valid_observed_shapes (so_windows obs) then Inl MalformedInput
      else if \<not> all_homed s (so_windows obs) then Inl CrossDomainMismatch
      else if observed_ids obs \<noteq> known_ids s then Inl PartialObservation
      else if \<not> observed_known_match s (so_windows obs) None then Inl PartialObservation
      else if \<not> om_contains (se_windows s) w \<and> \<not> om_contains (se_exceptions s) w then Inl UnknownWindow
      else if om_contains (se_exceptions s) w then Inl NotTiled
      else case (se_focused_domain s, se_focused_leaf s) of
          (Some key, Some leaf) \<Rightarrow>
            (case focused_window_for (se_windows s) leaf key of
               None \<Rightarrow> Inl NotTiled
             | Some focused_window \<Rightarrow>
                 if om_contains (se_exceptions s) focused_window then Inl NotTiled
                 else if w \<noteq> focused_window then Inl FocusMismatch
                 else if (case observed_entry focused_window (so_windows obs) of
                     None \<Rightarrow> False | Some e \<Rightarrow> flags_any (ow_flags e)) then Inl NotTiled
                 else toggle_orientation_at s w key leaf (so_windows obs))
        | _ \<Rightarrow> Inl FocusMismatch)"

definition propose_toggle_orientation ::
  "session \<Rightarrow> window_id \<Rightarrow> session_observation \<Rightarrow> correlation_id \<Rightarrow> lifecycle_capabilities
    \<Rightarrow> (session_error + session_plan) \<times> session" where
  "propose_toggle_orientation s w obs corr caps =
     when_ready s (stage (\<lambda>plan. propose_lifecycle plan (so_observation obs) corr caps)
       (toggle_orientation_decision s w obs) s)"

subsection \<open>The contract of admission and removal\<close>

lemma admit_record_ok:
  assumes "w \<noteq> []" "p \<noteq> []" "ws \<noteq> []" "domain_for ds p ws \<noteq> None"
  shows "exception_ok ds (admit_record w p ws flags)"
  using assms domain_for_Some [of ds p ws] by (simp add: exception_ok_def admit_record_def)

lemma desired_exception_insert:
  assumes "current_ok s" "om_get (se_windows s) w = None" "exception_ok (se_domains s) r" "ex_window r = w"
  shows "desired_ok (se_domains s) ((desired_of s)\<lparr>pe_exceptions := om_insert w r (se_exceptions s)\<rparr>)"
    "desired_ok (se_domains s) ((desired_of s)\<lparr>pe_exceptions := om_insert w r (se_exceptions s),
       pe_automatic_fixed := a\<rparr>)"
  using assms by (simp_all add: desired_ok_def desired_of_def current_ok_def world_exception_insert)

lemma admit_tiled_at_ok:
  assumes "current_ok s"
  shows "decision_ok s (admit_tiled_at s w key leaf new_target tile_wins ws)"
proof -
  note ok = world_maps [OF current_world [OF assms]] world_link_window [OF current_world [OF assms]]
  show ?thesis
    unfolding admit_tiled_at_def Let_def
    by (intro decision_steps decision_stage desired_tiled_ok [OF assms])
      (auto simp: ok desired_of_def active_ok_insert [OF assms] split: if_splits)
qed

lemma admit_decision_ok:
  assumes ok: "current_ok s" and shape: "w \<noteq> []" "p \<noteq> []" "ws \<noteq> []" "domain_for (se_domains s) p ws \<noteq> None"
    and "admit_decision s w p ws flags behavior bounds suppress obs = Some decision"
  shows "decision_ok s decision"
proof -
  have free: "om_get (se_windows s) w = None \<Longrightarrow> decision_ok s (admit_deferred s w p ws flags)"
    "om_get (se_windows s) w = None \<Longrightarrow> decision_ok s (admit_fixed s w p ws)"
    using desired_exception_insert [OF ok _ admit_record_ok [OF shape]]
    by (simp_all add: admit_deferred_def admit_fixed_def Let_def admit_record_def)
  have "om_get (se_windows s) w = None \<Longrightarrow> admit_tiled s w p ws bounds c obs = Some d \<Longrightarrow> decision_ok s d" for c d
    by (auto simp: admit_tiled_def Let_def bind_eq_Some_conv admit_tiled_at_ok [OF ok])
  with free assms(6) show ?thesis
    by (auto simp: admit_decision_def om_contains_def split: if_splits option.splits)
qed

lemma propose_admit_ok:
  assumes "session_inv s" "se_drag s = None" "w \<noteq> []" "p \<noteq> []" "ws \<noteq> []" "domain_for (se_domains s) p ws \<noteq> None"
    and "propose_admit s w p ws flags behavior bounds suppress obs corr caps = Some x"
  shows "proposal_ok s x"
proof -
  have "current_ok s" using assms(1) by (simp add: session_inv_def)
  moreover obtain decision where d: "admit_decision s w p ws flags behavior bounds suppress obs = Some decision"
    and x: "x = stage (\<lambda>plan. propose_lifecycle plan (so_observation obs) corr caps) decision s"
    using assms(7) by (auto simp: propose_admit_def)
  ultimately have "decision_ok s decision" using assms(3-6) by (intro admit_decision_ok)
  then show ?thesis unfolding x by (rule stage_lifecycle_ok [OF assms(1,2)])
qed

lemma remove_tiled_ok:
  assumes "current_ok s"
  shows "decision_ok s (remove_tiled s w l ws)"
proof -
  note ok = world_maps [OF current_world [OF assms]] world_link_window [OF current_world [OF assms]]
  obtain fd fl where foc: "removal_focus s (link_key l) (link_leaf l)
      (om_insert (link_key l) (remove_leaf_from_tree (se_policy s) (tree_at (se_trees s) (link_key l)) (link_leaf l)) (se_trees s))
      (om_remove w (se_windows s)) = (fd, fl)" by (cases "removal_focus s (link_key l) (link_leaf l)
      (om_insert (link_key l) (remove_leaf_from_tree (se_policy s) (tree_at (se_trees s) (link_key l)) (link_leaf l)) (se_trees s))
      (om_remove w (se_windows s))")
  show ?thesis
    unfolding remove_tiled_def Let_def foc prod.case
    by (intro decision_steps decision_stage desired_tiled_ok [OF assms])
      (simp_all add: ok desired_of_def active_ok_insert [OF assms] split: if_splits)
qed

lemma remove_deferred_ok:
  assumes "current_ok s"
  shows "decision_ok s (remove_deferred s w r)"
proof -
  have "focus_resolves (se_focused_domain s) (se_focused_leaf s) (se_trees s) (se_windows s)"
    by (rule world_focus [OF current_world [OF assms]])
  then show ?thesis
    using assms world_exception_remove [OF current_world [OF assms], of w] active_ok_insert [OF assms, of "se_trees s"]
    by (simp add: remove_deferred_def desired_ok_def desired_of_def current_ok_def)
qed

lemma remove_decision_ok: "current_ok s \<Longrightarrow> decision_ok s (remove_decision s w obs)"
  unfolding remove_decision_def Let_def
  by (intro decision_steps remove_deferred_ok remove_tiled_ok)

lemma propose_remove_ok:
  assumes "session_inv s" "se_drag s = None"
  shows "proposal_ok s (propose_remove s w obs corr caps)"
  unfolding propose_remove_def
  using assms by (intro stage_lifecycle_ok remove_decision_ok) (simp_all add: session_inv_def)

lemma toggle_orientation_decision_ok:
  assumes "current_ok s"
  shows "decision_ok s (toggle_orientation_decision s w obs)"
proof -
  note ok = world_maps [OF current_world [OF assms]] world_link_window [OF current_world [OF assms]]
  have "decision_ok s (toggle_orientation_at s w key leaf ws)" for key leaf ws
    unfolding toggle_orientation_at_def Let_def
    by (intro decision_steps decision_stage desired_tiled_ok [OF assms])
      (simp_all add: ok desired_of_def active_ok_insert [OF assms])
  then show ?thesis
    unfolding toggle_orientation_decision_def by (auto split: option.split)
qed

lemma propose_toggle_orientation_ok:
  assumes "session_inv s"
  shows "proposal_ok s (propose_toggle_orientation s w obs corr caps)"
  unfolding propose_toggle_orientation_def
  using assms by (intro proposal_when_ready stage_lifecycle_ok toggle_orientation_decision_ok)
    (simp_all add: session_inv_def)

end
