(* ===== verification/Session_Transfer.thy ===== *)
theory Session_Transfer
  imports Session_Lifecycle
begin

text \<open>
  Sends to a workspace or an output (\<open>session/ops/workspace.rs\<close>), the intentional float
  (\<open>session/ops/float.rs\<close>) and \<open>Session::propose\<close>, which dispatches every lifecycle command.
\<close>

subsection \<open>Sends\<close>

definition send_anchor :: "session \<Rightarrow> domain_key \<Rightarrow> node_id option \<times> string" where
  "send_anchor s target =
     (let stored = remembered_leaf s target;
          mru = focus_stack_fallback (se_focus_stack s) target (se_trees s) (se_windows s);
          remembered = (case stored of Some l \<Rightarrow> Some l | None \<Rightarrow> mru);
          tree = tree_at (se_trees s) target
      in (remembered,
          if tree = None \<or> (case tree of None \<Rightarrow> 0 | Some t \<Rightarrow> length (collect_leaves t)) = 0 then ''empty''
          else case remembered of
              None \<Rightarrow> ''fallback''
            | Some l \<Rightarrow> if stored = Some l then ''remembered'' else if mru = Some l then ''mru'' else ''fallback''))"

definition send_axis :: "session \<Rightarrow> output_domain \<Rightarrow> node_id option \<Rightarrow> observed_window list \<Rightarrow> axis \<times> rect" where
  "send_axis s d remembered ws =
     (case Option.bind remembered (\<lambda>leaf.
         Option.bind (project_output_geometry (Some d) (tree_at (se_trees s) (domain_key_of d)) (se_windows s)
             (domain_key_of d) (hints_from_observed ws))
           (find (\<lambda>g. dg_leaf g = leaf))) of
        Some g \<Rightarrow> (lp_admission_axis_for_rect (se_policy s) (dg_rect g), dg_rect g)
      | None \<Rightarrow> (lp_admission_axis_for_rect (se_policy s) (od_bounds d), od_bounds d))"

definition send_trace :: "session \<Rightarrow> output_domain \<Rightarrow> observed_window list \<Rightarrow> send_placement_trace" where
  "send_trace s d ws =
     (let (remembered, kind) = send_anchor s (domain_key_of d); (axis, projected) = send_axis s d remembered ws
      in \<lparr>sp_anchor_kind = kind, sp_anchor = remembered, sp_axis = axis, sp_projected = projected,
          sp_target_leaves = (case tree_at (se_trees s) (domain_key_of d) of
             None \<Rightarrow> 0 | Some t \<Rightarrow> length (collect_leaves t))\<rparr>)"

definition send_stage ::
  "session \<Rightarrow> window_id \<Rightarrow> window_link \<Rightarrow> domain_key \<Rightarrow> node option \<Rightarrow> node \<Rightarrow> bool \<Rightarrow> bool
    \<Rightarrow> observed_window list \<Rightarrow> lifecycle_decision" where
  "send_stage s w l target new_source new_target follow cross ws =
     (let source = link_key l; leaf = link_leaf l;
          trees = om_insert target (Some new_target) (om_insert source new_source (se_trees s));
          windows = om_insert w \<lparr>link_window = w, link_leaf = leaf, link_output = dk_output target,
            link_workspace = dk_workspace target\<rparr> (se_windows s);
          (fd, fl) =
            (if follow then (Some target, Some leaf)
             else case focus_stack_fallback (se_focus_stack s) source trees windows of
                 Some successor \<Rightarrow> (Some source, Some successor)
               | None \<Rightarrow> (None, None));
          affected = [source, target]
      in if \<not> validate_topology (se_domains s) trees windows (se_exceptions s) fd fl then Inl RfMalformedTopology
         else case project_affected_geometry (se_domains s) trees windows affected (hints_from_observed ws) of
             None \<Rightarrow> Inl RfMalformedTopology
           | Some geometry \<Rightarrow>
               if \<not> geometry_covers_affected geometry windows affected then Inl RfMalformedTopology
               else Inr (lifecycle_for_operation
                   ((if cross then IntentMoveToOutput else IntentMoveToWorkspace)
                     w (dk_output target) (dk_workspace target) follow)
                   (OpMoveTiled w leaf (dk_output source) (dk_workspace source)
                     (dk_output target) (dk_workspace target)),
                 (desired_of s)\<lparr>pe_trees := trees, pe_windows := windows, pe_focused_domain := fd,
                   pe_focused_leaf := fl,
                   pe_last_active := updated_last_active (se_last_active s) fd fl trees windows\<rparr>,
                 session_plan_of (snapshot_for (se_domains s) trees windows) fd fl geometry))"

definition send_insert ::
  "session \<Rightarrow> window_id \<Rightarrow> window_link \<Rightarrow> output_domain \<Rightarrow> bool \<Rightarrow> bool \<Rightarrow> session_observation
    \<Rightarrow> lifecycle_decision option" where
  "send_insert s w l d follow cross obs =
     (let leaf = link_leaf l; source_tree = tree_at (se_trees s) (link_key l); target = domain_key_of d
      in if (case source_tree of None \<Rightarrow> True | Some t \<Rightarrow> leaf \<notin> set (collect_leaves t))
         then Some (Inl RfMalformedTopology)
         else let new_source = remove_leaf_from_tree (se_policy s) source_tree leaf
              in if (case new_source of None \<Rightarrow> False | Some t \<Rightarrow> leaf \<in> set (collect_leaves t))
                 then Some (Inl RfMalformedTopology)
                 else let remembered = fst (send_anchor s target)
                      in Option.bind (insert_tiled (se_policy s) (tree_at (se_trees s) target) remembered leaf
                           (fst (send_axis s d remembered (so_windows obs))) (all_node_ids (se_trees s)) w
                           (ob_revision (so_observation obs)))
                         (\<lambda>(inserted, ids). Some
                           (case inserted of
                              None \<Rightarrow> Inl RfMalformedTopology
                            | Some new_target \<Rightarrow>
                                if leaf \<notin> set (collect_leaves new_target) then Inl RfMalformedTopology
                                else send_stage s w l target new_source new_target follow cross (so_windows obs))))"

definition send_decision ::
  "session \<Rightarrow> window_id \<Rightarrow> output_id \<Rightarrow> workspace_id \<Rightarrow> bool \<Rightarrow> bool \<Rightarrow> session_observation
    \<Rightarrow> lifecycle_decision option" where
  "send_decision s w p wk follow cross obs =
     (if observed_ids obs \<noteq> known_ids s then Some (Inl PartialObservation)
      else if \<not> observed_known_match s (so_windows obs) None then Some (Inl PartialObservation)
      else if \<not> om_contains (se_windows s) w \<and> \<not> om_contains (se_exceptions s) w then Some (Inl UnknownWindow)
      else if om_contains (se_exceptions s) w then Some (Inl NotTiled)
      else case om_get (se_windows s) w of
          None \<Rightarrow> Some (Inl UnknownWindow)
        | Some l \<Rightarrow>
            let source = link_key l; target = DomainKey p wk
            in case (se_focused_domain s, se_focused_leaf s) of
                (Some fd, Some fl) \<Rightarrow>
                  if fd \<noteq> source then Some (Inl FocusMismatch)
                  else (case focused_window_for (se_windows s) fl source of
                      None \<Rightarrow> Some (Inl NotTiled)
                    | Some focused_window \<Rightarrow>
                        if w \<noteq> focused_window then Some (Inl FocusMismatch)
                        else if cross \<and> dk_output target = dk_output source then Some (Inl CrossDomainMismatch)
                        else if \<not> cross \<and> target = source then Some (Inl Unchanged)
                        else if \<not> cross \<and> dk_output target \<noteq> dk_output source then Some (Inl CrossDomainMismatch)
                        else (case find (\<lambda>d. domain_key_of d = target) (se_domains s) of
                            None \<Rightarrow> Some (Inl UnknownDomain)
                          | Some d \<Rightarrow> send_insert s w l d follow cross obs))
              | _ \<Rightarrow> Some (Inl FocusMismatch))"

text \<open>An accepted send also records its placement trace.\<close>

definition propose_send ::
  "session \<Rightarrow> window_id \<Rightarrow> output_id \<Rightarrow> workspace_id \<Rightarrow> bool \<Rightarrow> bool \<Rightarrow> session_observation \<Rightarrow> correlation_id
    \<Rightarrow> lifecycle_capabilities \<Rightarrow> ((session_error + session_plan) \<times> session) option" where
  "propose_send s w p wk follow cross obs corr caps =
     map_option (\<lambda>d.
         case stage (\<lambda>plan. propose_lifecycle plan (so_observation obs) corr caps) d s of
           (Inr plan, s') \<Rightarrow>
             (Inr plan, case find (\<lambda>d. domain_key_of d = DomainKey p wk) (se_domains s) of
                None \<Rightarrow> s'
              | Some d \<Rightarrow> s'\<lparr>se_last_send := Some (send_trace s d (so_windows obs))\<rparr>)
         | r \<Rightarrow> r)
       (send_decision s w p wk follow cross obs)"

definition propose_move_to_workspace ::
  "session \<Rightarrow> window_id \<Rightarrow> output_id \<Rightarrow> workspace_id \<Rightarrow> bool \<Rightarrow> session_observation \<Rightarrow> correlation_id
    \<Rightarrow> lifecycle_capabilities \<Rightarrow> ((session_error + session_plan) \<times> session) option" where
  "propose_move_to_workspace s w p wk follow = propose_send s w p wk follow False"

definition propose_move_to_output ::
  "session \<Rightarrow> window_id \<Rightarrow> output_id \<Rightarrow> workspace_id \<Rightarrow> bool \<Rightarrow> session_observation \<Rightarrow> correlation_id
    \<Rightarrow> lifecycle_capabilities \<Rightarrow> ((session_error + session_plan) \<times> session) option" where
  "propose_move_to_output s w p wk follow = propose_send s w p wk follow True"

subsection \<open>Intentional float\<close>

definition centered_float_rect :: "rect \<Rightarrow> rect" where
  "centered_float_rect b =
     (let w = max (rw b * 6 div 10) 1; h = max (rh b * 6 div 10) 1
      in \<lparr>rx = rx b + (rw b - w) div 2, ry = ry b + (rh b - h) div 2, rw = w, rh = h\<rparr>)"

definition admission_placement_for :: "output_domain \<Rightarrow> node option \<Rightarrow> node_id option \<Rightarrow> rect" where
  "admission_placement_for d tree eligible =
     (case (tree, eligible) of
        (Some t, Some leaf) \<Rightarrow>
          (case project t (od_bounds d) (od_gap d) of
             Inl e \<Rightarrow> od_bounds d
           | Inr projected \<Rightarrow> (case find (\<lambda>e. pleaf e = leaf) projected of None \<Rightarrow> od_bounds d | Some e \<Rightarrow> prect e))
      | _ \<Rightarrow> od_bounds d)"

definition seed_target_bounds :: "session \<Rightarrow> output_domain \<Rightarrow> rect" where
  "seed_target_bounds s d =
     (let key = DomainKey (od_id d) (od_workspace d);
          eligible = (if se_focused_domain s = Some key then se_focused_leaf s else None);
          tree = Option.bind (find (\<lambda>v. dv_output v = dk_output key \<and> dv_workspace v = dk_workspace key)
            (sn_domains (snapshot_for (se_domains s) (se_trees s) (se_windows s)))) dv_tree
      in admission_placement_for d tree eligible)"

fun clear_floating :: "window_id \<Rightarrow> observed_window list \<Rightarrow> observed_window list" where
  "clear_floating w [] = []"
| "clear_floating w (e # es) =
     (if ow_window e = w then e\<lparr>ow_floating := False\<rparr> # es else e # clear_floating w es)"

definition unfloat_geometry :: "session \<Rightarrow> window_id \<Rightarrow> exception_record \<Rightarrow> rect option \<Rightarrow> refusal_kind + rect option" where
  "unfloat_geometry s w r geometry =
     (case geometry of
        Some g \<Rightarrow> if valid_rect_shape g then Inr (Some g) else Inl MalformedInput
      | None \<Rightarrow> Inr (case ex_geometry r of Some g \<Rightarrow> Some g | None \<Rightarrow> om_get (se_retained s) w))"

definition unfloat_candidate :: "session \<Rightarrow> window_id \<Rightarrow> rect option \<Rightarrow> session" where
  "unfloat_candidate s w retained = s\<lparr>se_exceptions := om_remove w (se_exceptions s),
     se_retained := (case retained of None \<Rightarrow> se_retained s | Some g \<Rightarrow> om_insert w g (se_retained s))\<rparr>"

definition keep_accepted :: "session \<Rightarrow> (session_error + 'a) \<times> session \<Rightarrow> (session_error + 'a) \<times> session" where
  "keep_accepted s x = (case fst x of Inl err \<Rightarrow> (Inl err, s) | Inr plan \<Rightarrow> (Inr plan, snd x))"

text \<open>The unfloat admits a clone of the session that has already lost the exception, and keeps the
  clone only when the admission is accepted.\<close>

definition unfloat ::
  "session \<Rightarrow> window_id \<Rightarrow> exception_record \<Rightarrow> rect option \<Rightarrow> session_observation \<Rightarrow> correlation_id
    \<Rightarrow> lifecycle_capabilities \<Rightarrow> ((session_error + session_plan) \<times> session) option" where
  "unfloat s w r geometry obs corr caps =
     (if ex_flags r \<noteq> floating_only then Some (Inl (SRefused NotTiled), s)
      else case observed_entry w (so_windows obs) of
          None \<Rightarrow> Some (Inl (SRefused PartialObservation), s)
        | Some e \<Rightarrow>
            if \<not> record_matches (se_fixed_admission s) r e then Some (Inl (SRefused PartialObservation), s)
            else (case unfloat_geometry s w r geometry of
                Inl kind \<Rightarrow> Some (Inl (SRefused kind), s)
              | Inr retained \<Rightarrow>
                  let candidate = unfloat_candidate s w retained
                  in (case domain_for (se_domains candidate) (ow_output e) (ow_workspace e) of
                     None \<Rightarrow> Some (Inl (SRefused UnknownDomain), s)
                   | Some d \<Rightarrow>
                       map_option (keep_accepted s)
                         (propose_admit candidate w (ow_output e) (ow_workspace e) flags_none None
                           (seed_target_bounds candidate d) True
                           (obs\<lparr>so_windows := clear_floating w (so_windows obs)\<rparr>) corr caps))))"

definition float_placement :: "session \<Rightarrow> window_id \<Rightarrow> observed_window \<Rightarrow> rect option \<Rightarrow> refusal_kind + rect" where
  "float_placement s w e geometry =
     (case geometry of
        Some g \<Rightarrow> if valid_rect_shape g then Inr g else Inl MalformedInput
      | None \<Rightarrow>
          (let centered = (case domain_for (se_domains s) (ow_output e) (ow_workspace e) of
               None \<Rightarrow> Inl UnknownDomain | Some d \<Rightarrow> Inr (centered_float_rect (od_bounds d)))
           in case om_get (se_retained s) w of
                Some g \<Rightarrow> if valid_rect_shape g then Inr g else centered
              | None \<Rightarrow> centered))"

definition float_desired :: "window_id \<Rightarrow> observed_window \<Rightarrow> rect \<Rightarrow> pending_desired \<Rightarrow> pending_desired" where
  "float_desired w e g d = d\<lparr>
     pe_exceptions := om_insert w \<lparr>ex_window = w, ex_output = ow_output e, ex_workspace = ow_workspace e,
       ex_flags = floating_only, ex_geometry = Some g\<rparr> (pe_exceptions d),
     pe_retained := om_insert w g (pe_retained d),
     pe_automatic_fixed := pe_automatic_fixed d - {w},
     pe_tile_override := pe_tile_override d - {w}\<rparr>"

definition float_tiled ::
  "session \<Rightarrow> window_id \<Rightarrow> rect option \<Rightarrow> session_observation \<Rightarrow> correlation_id \<Rightarrow> lifecycle_capabilities
    \<Rightarrow> (session_error + session_plan) \<times> session" where
  "float_tiled s w geometry obs corr caps =
     (case observed_entry w (so_windows obs) of
        None \<Rightarrow> (Inl (SRefused PartialObservation), s)
      | Some e \<Rightarrow>
          if flags_any (ow_flags e) \<or> \<not> om_contains (se_windows s) w then (Inl (SRefused NotTiled), s)
          else (case float_placement s w e geometry of
              Inl kind \<Rightarrow> (Inl (SRefused kind), s)
            | Inr g \<Rightarrow>
                (case propose_remove s w obs corr caps of
                   (Inl err, s') \<Rightarrow> (Inl err, s')
                 | (Inr plan, s') \<Rightarrow>
                     (case se_pending s' of
                        None \<Rightarrow> (Inl (SRefused RfMalformedTopology), s')
                      | Some d \<Rightarrow> (Inr plan, s'\<lparr>se_pending := Some (float_desired w e g d)\<rparr>)))))"

definition propose_toggle_float ::
  "session \<Rightarrow> window_id \<Rightarrow> rect option \<Rightarrow> session_observation \<Rightarrow> correlation_id \<Rightarrow> lifecycle_capabilities
    \<Rightarrow> ((session_error + session_plan) \<times> session) option" where
  "propose_toggle_float s w geometry obs corr caps =
     (case om_get (se_exceptions s) w of
        Some r \<Rightarrow> unfloat s w r geometry obs corr caps
      | None \<Rightarrow> Some (float_tiled s w geometry obs corr caps))"

subsection \<open>The lifecycle entry\<close>

definition propose_command ::
  "session_command \<Rightarrow> session_observation \<Rightarrow> correlation_id \<Rightarrow> lifecycle_capabilities \<Rightarrow> session
    \<Rightarrow> ((session_error + session_plan) \<times> session) option" where
  "propose_command command obs corr caps s =
     (case command of
        CmdAdmit w p wk flags behavior bounds suppress \<Rightarrow>
          propose_admit s w p wk flags behavior bounds suppress obs corr caps
      | CmdRemove w \<Rightarrow> Some (propose_remove s w obs corr caps)
      | CmdMoveToWorkspace w p wk follow \<Rightarrow> propose_move_to_workspace s w p wk follow obs corr caps
      | CmdMoveToOutput w p wk follow \<Rightarrow> propose_move_to_output s w p wk follow obs corr caps
      | CmdToggleFloat w geometry \<Rightarrow> propose_toggle_float s w geometry obs corr caps
      | CmdToggleOrientation w \<Rightarrow> Some (propose_toggle_orientation s w obs corr caps))"

definition session_propose ::
  "session_command \<Rightarrow> session_observation \<Rightarrow> correlation_id \<Rightarrow> lifecycle_capabilities \<Rightarrow> session
    \<Rightarrow> ((session_error + session_plan) \<times> session) option" where
  "session_propose command obs corr caps s =
     (case ready_error s of
        Some e \<Rightarrow> Some (Inl e, s)
      | None \<Rightarrow>
          if \<not> validate_current_topology s then Some (Inl (SRefused RfMalformedTopology), s)
          else if \<not> valid_command_shapes command then Some (Inl (SRefused MalformedInput), s)
          else if \<not> valid_observed_shapes (so_windows obs) then Some (Inl (SRefused MalformedInput), s)
          else (case check_domains s command (so_windows obs) of
              Some kind \<Rightarrow> Some (Inl (SRefused kind), s)
            | None \<Rightarrow> propose_command command obs corr caps s))"

subsection \<open>The contract of the sends and the float\<close>

lemma send_stage_ok:
  assumes "current_ok s"
  shows "decision_ok s (send_stage s w l target new_source new_target follow cross ws)"
proof -
  note ok = world_maps [OF current_world [OF assms]] world_link_window [OF current_world [OF assms]]
  show ?thesis
    unfolding send_stage_def Let_def prod.case_eq_if
    by (intro decision_steps decision_stage desired_tiled_ok [OF assms])
      (auto simp: ok desired_of_def active_ok_insert [OF assms] split: if_splits)
qed

lemma send_decision_ok:
  assumes "current_ok s" "send_decision s w p wk follow cross obs = Some decision"
  shows "decision_ok s decision"
proof -
  have "decision_ok s d" if "send_insert s w l dom follow cross obs = Some d" for l dom d
    using that send_stage_ok [OF assms(1)]
    by (auto simp: send_insert_def Let_def bind_eq_Some_conv split: if_splits option.splits)
  then show ?thesis
    using assms(2) by (auto simp: send_decision_def Let_def split: if_splits option.splits)
qed

lemma proposal_ok_trace: "proposal_ok s (res, s') \<Longrightarrow> proposal_ok s (Inr plan, s') \<Longrightarrow> proposal_ok s (Inr plan, s'\<lparr>se_last_send := tr\<rparr>)"
  by (simp add: proposal_ok_def session_inv_def current_ok_def bound_ok_def keeps_world_def accepted_revision_def
      session_divergence_def)

lemma propose_send_ok:
  assumes "session_inv s" "se_drag s = None" "propose_send s w p wk follow cross obs corr caps = Some x"
  shows "proposal_ok s x"
proof -
  have "current_ok s" using assms(1) by (simp add: session_inv_def)
  moreover obtain decision where d: "send_decision s w p wk follow cross obs = Some decision"
    using assms(3) by (auto simp: propose_send_def)
  ultimately have "decision_ok s decision" by (rule send_decision_ok)
  then have ok: "proposal_ok s (stage (\<lambda>plan. propose_lifecycle plan (so_observation obs) corr caps) decision s)"
    by (rule stage_lifecycle_ok [OF assms(1,2)])
  obtain res s' where st: "stage (\<lambda>plan. propose_lifecycle plan (so_observation obs) corr caps) decision s = (res, s')"
    by (cases "stage (\<lambda>plan. propose_lifecycle plan (so_observation obs) corr caps) decision s")
  show ?thesis
    using assms(3) ok by (cases res) (auto simp: propose_send_def d st proposal_ok_trace split: option.split)
qed

lemma stage_Inr:
  assumes "stage offer decision s = (Inr a, s')"
  obtains plan desired answer where "decision = Inr (plan, desired, answer)" "se_pending s' = Some desired"
  using assms by (auto simp: stage_def stage_plan_def split: sum.splits prod.splits propose_error.splits)

lemma restage_ok:
  assumes "proposal_ok s (Inr a, s')" "desired_ok (se_domains s) d"
  shows "proposal_ok s (Inr a, s'\<lparr>se_pending := Some d\<rparr>)"
proof -
  have "se_domains s' = se_domains s" using assms(1) by (simp add: proposal_ok_def keeps_world_def)
  moreover have "se_pending s' \<noteq> None" using assms(1) by (simp add: proposal_ok_def)
  ultimately show ?thesis
    using assms by (auto simp: proposal_ok_def session_inv_def current_ok_def bound_ok_def keeps_world_def
        accepted_revision_def session_divergence_def)
qed

lemma remove_tiled_windows: "remove_tiled s w l ws = Inr (plan, d, answer) \<Longrightarrow>
    pe_windows d = om_remove w (se_windows s) \<and> pe_exceptions d = se_exceptions s"
  by (auto simp: remove_tiled_def Let_def desired_of_def split: prod.splits if_splits option.splits)

lemma observed_shape_loop: "valid_observed_loop es seen \<Longrightarrow> e \<in> set es \<Longrightarrow>
    ow_window e \<noteq> [] \<and> ow_output e \<noteq> [] \<and> ow_workspace e \<noteq> []"
  by (induction es seen rule: valid_observed_loop.induct) (auto split: if_splits)

lemma observed_shape: "valid_observed_shapes es \<Longrightarrow> e \<in> set es \<Longrightarrow>
    ow_window e \<noteq> [] \<and> ow_output e \<noteq> [] \<and> ow_workspace e \<noteq> []"
  unfolding valid_observed_shapes_def by (rule observed_shape_loop)

lemma observed_homed: "all_homed s es \<Longrightarrow> e \<in> set es \<Longrightarrow>
    DomainKey (ow_output e) (ow_workspace e) \<in> domain_key_of ` set (se_domains s)"
  using domain_for_Some by (simp add: all_homed_def list_all_iff)

lemma float_tiled_ok:
  assumes "session_inv s" "se_drag s = None" "w \<noteq> []" "valid_observed_shapes (so_windows obs)"
    "all_homed s (so_windows obs)" "om_get (se_exceptions s) w = None"
  shows "proposal_ok s (float_tiled s w geometry obs corr caps)"
proof (cases "\<exists>e g. observed_entry w (so_windows obs) = Some e \<and> \<not> flags_any (ow_flags e)
    \<and> om_contains (se_windows s) w \<and> float_placement s w e geometry = Inr g")
  case False
  then show ?thesis
    using assms(1) by (auto simp: float_tiled_def proposal_refused split: option.split sum.split)
next
  case True
  then obtain e g where e: "observed_entry w (so_windows obs) = Some e" "\<not> flags_any (ow_flags e)"
    "om_contains (se_windows s) w" "float_placement s w e geometry = Inr g" by blast
  have rem: "proposal_ok s (propose_remove s w obs corr caps)" by (rule propose_remove_ok [OF assms(1,2)])
  show ?thesis
  proof (cases "propose_remove s w obs corr caps")
    case (Pair res s')
    show ?thesis
    proof (cases res)
      case (Inl err)
      then show ?thesis using rem by (simp add: float_tiled_def e Pair)
    next
      case (Inr plan)
      have "stage (\<lambda>plan. propose_lifecycle plan (so_observation obs) corr caps) (remove_decision s w obs) s = (Inr plan, s')"
        using Pair Inr by (simp add: propose_remove_def)
      then obtain lp d answer where d: "remove_decision s w obs = Inr (lp, d, answer)" "se_pending s' = Some d"
        by (rule stage_Inr)
      have cur: "current_ok s" using assms(1) by (simp add: session_inv_def)
      have des: "desired_ok (se_domains s) d"
        using remove_decision_ok [OF cur, of w obs] d(1) by (simp add: decision_ok_def)
      have gone: "om_get (pe_windows d) w = None"
        using d(1) assms(6) e(3)
        by (auto simp: remove_decision_def Let_def om_contains_def dest!: remove_tiled_windows split: if_splits)
      have mem: "e \<in> set (so_windows obs)" "ow_window e = w"
        using e(1) by (auto simp: observed_entry_def find_Some_iff)
      have home: "exception_ok (se_domains s) \<lparr>ex_window = w, ex_output = ow_output e, ex_workspace = ow_workspace e,
          ex_flags = floating_only, ex_geometry = Some g\<rparr>"
        using assms(3) observed_shape [OF assms(4) mem(1)] observed_homed [OF assms(5) mem(1)]
        by (simp add: exception_ok_def)
      have "desired_ok (se_domains s) (float_desired w e g d)"
        using des gone home by (simp add: desired_ok_def float_desired_def world_exception_insert)
      then show ?thesis
        using rem Inr d(2) by (simp add: float_tiled_def e Pair restage_ok)
    qed
  qed
qed

subsection \<open>The contract of every lifecycle proposal\<close>

text \<open>\<open>keeps_tiled s s'\<close>: trees, links, focus, history, domains and revision untouched; an unfloat
  changes the exceptions and the retained geometries at once.\<close>

definition keeps_tiled :: "session \<Rightarrow> session \<Rightarrow> bool" where
  "keeps_tiled s s' \<longleftrightarrow> se_domains s' = se_domains s \<and> se_trees s' = se_trees s \<and> se_windows s' = se_windows s
     \<and> se_focused_domain s' = se_focused_domain s \<and> se_focused_leaf s' = se_focused_leaf s
     \<and> se_focus_stack s' = se_focus_stack s \<and> se_last_active s' = se_last_active s
     \<and> accepted_revision s' = accepted_revision s \<and> se_fingerprint s' = se_fingerprint s"

lemma keeps_world_tiled: "keeps_world s s' \<Longrightarrow> keeps_tiled s s'"
  by (simp add: keeps_world_def keeps_tiled_def)

lemma candidate_inv:
  assumes "session_inv s" "c = unfloat_candidate s w retained" "se_pending s = None"
  shows "session_inv c" "keeps_tiled s c" "se_drag c = se_drag s" "se_exceptions c = om_remove w (se_exceptions s)"
    "session_divergence c = session_divergence s" "se_pending c = None"
proof -
  note c = assms(2) [unfolded unfloat_candidate_def]
  have cur: "current_ok s" using assms(1) by (simp add: session_inv_def)
  have "current_ok c"
    using cur world_exception_remove [OF current_world [OF cur]]
    by (simp add: c current_ok_def split: option.split)
  then show "session_inv c" using assms(1,3) by (simp add: c session_inv_def bound_ok_def)
  show "keeps_tiled s c" "se_drag c = se_drag s" "se_exceptions c = om_remove w (se_exceptions s)"
    "session_divergence c = session_divergence s" "se_pending c = None"
    using assms(3) by (simp_all add: c keeps_tiled_def accepted_revision_def session_divergence_def)
qed

lemma keep_accepted_Inl: "keep_accepted s x = (Inl e, s') \<Longrightarrow> s' = s"
  by (auto simp: keep_accepted_def split: sum.splits)

lemma keep_accepted_Inr: "keep_accepted s x = (Inr a, s') \<longleftrightarrow> x = (Inr a, s')"
  by (cases x) (auto simp: keep_accepted_def split: sum.splits)

lemma unfloat_outcome:
  assumes "session_inv s" "ready_error s = None" "w \<noteq> []" "valid_observed_shapes (so_windows obs)"
    and "unfloat s w r geometry obs corr caps = Some (res, s')"
  shows "case res of Inl e \<Rightarrow> s' = s
    | Inr plan \<Rightarrow> session_inv s' \<and> keeps_tiled s s' \<and> se_exceptions s' = om_remove w (se_exceptions s)
        \<and> session_divergence s' = None \<and> se_pending s' \<noteq> None"
proof (cases res)
  case (Inl e)
  then show ?thesis using assms(5)
    by (auto simp: unfloat_def Let_def keep_accepted_Inl split: if_splits option.splits sum.splits)
next
  case (Inr plan)
  have ready: "se_pending s = None" "se_drag s = None" using assms(1,2) ready_error_None by blast+
  obtain e retained c d where c: "observed_entry w (so_windows obs) = Some e" "c = unfloat_candidate s w retained"
      "domain_for (se_domains c) (ow_output e) (ow_workspace e) = Some d"
    and adm: "propose_admit c w (ow_output e) (ow_workspace e) flags_none None (seed_target_bounds c d) True
        (obs\<lparr>so_windows := clear_floating w (so_windows obs)\<rparr>) corr caps = Some (Inr plan, s')"
    using assms(5) Inr
    by (auto simp: unfloat_def Let_def keep_accepted_Inr split: if_splits option.splits sum.splits)
  note cand = candidate_inv [OF assms(1) c(2) ready(1)]
  have "e \<in> set (so_windows obs)" using c(1) by (auto simp: observed_entry_def find_Some_iff)
  from observed_shape [OF assms(4) this] have shape: "ow_output e \<noteq> []" "ow_workspace e \<noteq> []" by auto
  have "proposal_ok c (Inr plan, s')"
    using propose_admit_ok [OF cand(1) _ assms(3) shape _ adm] cand(3) ready(2) c(3) by simp
  with cand(2,4) Inr show ?thesis by (simp add: proposal_ok_def keeps_world_def keeps_tiled_def)
qed

definition transactional :: "session \<Rightarrow> (session_error + 'a) \<times> session \<Rightarrow> bool" where
  "transactional s x \<longleftrightarrow> session_inv (snd x) \<and> keeps_tiled s (snd x)
     \<and> (case fst x of
          Inl (SRefused kind) \<Rightarrow> snd x = s
        | Inl SPendingExists \<Rightarrow> snd x = s
        | Inl (SDiverged reason) \<Rightarrow> snd x = s \<or> session_divergence (snd x) = Some reason \<and> se_pending (snd x) = None
        | Inr a \<Rightarrow> session_divergence s = None \<and> se_pending s = None \<and> se_drag s = None
            \<and> session_divergence (snd x) = None \<and> se_pending (snd x) \<noteq> None)"

lemma proposal_transactional: "proposal_ok s x \<Longrightarrow> transactional s x"
  by (auto simp: proposal_ok_def transactional_def keeps_world_tiled split: sum.splits session_error.splits)

text \<open>All commands but the unfloat keep the full contract.\<close>

definition unfloats :: "session \<Rightarrow> session_command \<Rightarrow> bool" where
  "unfloats s command \<longleftrightarrow> (case command of
     CmdToggleFloat w geometry \<Rightarrow> om_contains (se_exceptions s) w | _ \<Rightarrow> False)"

lemma propose_ok:
  assumes inv: "session_inv s" and res: "session_propose command obs corr caps s = Some x"
  shows "transactional s x" "\<not> unfloats s command \<Longrightarrow> proposal_ok s x"
proof -
  have "transactional s x \<and> (\<not> unfloats s command \<longrightarrow> proposal_ok s x)"
  proof (cases "ready_error s = None \<and> validate_current_topology s \<and> valid_command_shapes command
      \<and> valid_observed_shapes (so_windows obs) \<and> check_domains s command (so_windows obs) = None")
    case False
    then have "proposal_ok s x"
      using res inv proposal_not_ready [OF inv]
      by (auto simp: session_propose_def proposal_refused split: option.splits if_splits)
    then show ?thesis by (simp add: proposal_transactional)
  next
    case True
    then have ready: "session_divergence s = None" "se_pending s = None" "se_drag s = None"
      using ready_error_None [OF inv] by simp_all
    have cmd: "propose_command command obs corr caps s = Some x"
      using res True by (simp add: session_propose_def)
    have homed: "all_homed s (so_windows obs)"
      using True by (auto simp: check_domains_def split: session_command.splits if_splits)
    show ?thesis
    proof (cases command)
      case (CmdAdmit w p wk flags behavior bounds suppress)
      then have "proposal_ok s x"
        using True cmd by (intro propose_admit_ok [OF inv ready(3)])
          (auto simp: propose_command_def check_domains_def split: if_splits)
      then show ?thesis by (simp add: proposal_transactional)
    next
      case (CmdRemove w)
      then show ?thesis
        using cmd propose_remove_ok [OF inv ready(3)] by (auto simp: propose_command_def proposal_transactional)
    next
      case (CmdMoveToWorkspace w p wk follow)
      then show ?thesis
        using cmd propose_send_ok [OF inv ready(3)]
        by (auto simp: propose_command_def propose_move_to_workspace_def proposal_transactional)
    next
      case (CmdMoveToOutput w p wk follow)
      then show ?thesis
        using cmd propose_send_ok [OF inv ready(3)]
        by (auto simp: propose_command_def propose_move_to_output_def proposal_transactional)
    next
      case (CmdToggleOrientation w)
      then show ?thesis
        using cmd propose_toggle_orientation_ok [OF inv] by (auto simp: propose_command_def proposal_transactional)
    next
      case (CmdToggleFloat w geometry)
      then have w: "w \<noteq> []" using True by simp
      have toggle: "propose_toggle_float s w geometry obs corr caps = Some x"
        using cmd CmdToggleFloat by (simp add: propose_command_def)
      show ?thesis
      proof (cases "om_get (se_exceptions s) w")
        case None
        then have "proposal_ok s x"
          using toggle float_tiled_ok [OF inv ready(3) w _ homed None] True by (auto simp: propose_toggle_float_def)
        then show ?thesis by (simp add: proposal_transactional)
      next
        case (Some r)
        obtain res' s' where x: "x = (res', s')" by (cases x)
        have "unfloat s w r geometry obs corr caps = Some (res', s')"
          using toggle Some x by (simp add: propose_toggle_float_def)
        from unfloat_outcome [OF inv _ w _ this] True
        have out: "case res' of Inl e \<Rightarrow> s' = s
          | Inr plan \<Rightarrow> session_inv s' \<and> keeps_tiled s s' \<and> se_exceptions s' = om_remove w (se_exceptions s)
            \<and> session_divergence s' = None \<and> se_pending s' \<noteq> None" by simp
        have "unfloats s command" by (simp add: unfloats_def CmdToggleFloat om_contains_def Some)
        moreover have "keeps_tiled s s" by (simp add: keeps_tiled_def)
        ultimately show ?thesis
          using out inv ready by (auto simp: x transactional_def split: sum.splits session_error.splits)
      qed
    qed
  qed
  then show "transactional s x" "\<not> unfloats s command \<Longrightarrow> proposal_ok s x" by simp_all
qed

subsection \<open>Every proposal returns\<close>

lemma generate_leaf_id_fresh:
  assumes "finite ids" "card ids < 2 ^ 32 - 1"
  shows "\<exists>l. generate_leaf_id w ids = Some l \<and> l \<notin> ids"
proof -
  from fresh_candidate [OF assms] obtain k
    where "1 + k < 2 ^ 32" "group_id_candidate (''leaf-'' @ w) (1 + k) \<notin> ids" by blast
  then have "\<exists>g. group_id_loop (''leaf-'' @ w) ids 1 = Some g \<and> g \<notin> ids"
    using group_id_loop_finds [of "''leaf-'' @ w" 1 k ids] by blast
  then show ?thesis by (auto simp: generate_leaf_id_def Let_def)
qed

lemma insert_tiled_returns:
  assumes "finite ids" "card ids < 2 ^ 32 - 1"
  shows "\<exists>r. insert_tiled p tree focused leaf ax ids w rv = Some r"
proof (cases tree)
  case (Some t)
  from generate_group_id_fresh [OF assms] obtain g where "generate_group_id w rv ids = Some g" by blast
  then show ?thesis by (simp add: insert_tiled_def Let_def Some split: option.split)
qed (simp add: insert_tiled_def)

lemma propose_admit_returns:
  assumes "card (all_node_ids (se_trees s)) + 2 < 2 ^ 32"
  shows "\<exists>x. propose_admit s w p wk flags behavior bounds suppress obs corr caps = Some x"
proof -
  let ?ids = "all_node_ids (se_trees s)"
  have few: "card ?ids < 2 ^ 32 - 1" "card (insert l ?ids) < 2 ^ 32 - 1" for l
    using assms card_insert_le_m1 [of "card ?ids + 1" ?ids l] by (auto simp: card_insert_if)
  obtain leaf where leaf: "generate_leaf_id w ?ids = Some leaf"
    using generate_leaf_id_fresh few(1) by (metis all_node_ids_finite)
  have "\<exists>d. admit_tiled s w p wk bounds c obs = Some d" for c
    using insert_tiled_returns [OF _ few(2) [of leaf], of "se_policy s" "tree_at (se_trees s) (DomainKey p wk)"
        "eligible_focus_in s (DomainKey p wk)" leaf "lp_admission_axis_for_rect (se_policy s) bounds" w
        "ob_revision (so_observation obs)"]
    by (auto simp: admit_tiled_def Let_def leaf)
  then have "\<exists>d. admit_decision s w p wk flags behavior bounds suppress obs = Some d"
    by (simp add: admit_decision_def split: option.split)
  then show ?thesis by (auto simp: propose_admit_def)
qed

lemma propose_send_returns:
  assumes "card (all_node_ids (se_trees s)) + 2 < 2 ^ 32"
  shows "\<exists>x. propose_send s w p wk follow cross obs corr caps = Some x"
proof -
  have few: "card (all_node_ids (se_trees s)) < 2 ^ 32 - 1" using assms by simp
  have inner: "send_insert s w l dom follow c obs \<noteq> None" for l dom c
    using insert_tiled_returns [OF all_node_ids_finite few, of "se_policy s"
        "tree_at (se_trees s) (domain_key_of dom)" "fst (send_anchor s (domain_key_of dom))" "link_leaf l"
        "fst (send_axis s dom (fst (send_anchor s (domain_key_of dom))) (so_windows obs))" w
        "ob_revision (so_observation obs)"]
    by (auto simp: send_insert_def Let_def)
  have "send_decision s w p wk follow cross obs \<noteq> None"
    by (simp add: send_decision_def Let_def inner del: not_None_eq split: option.split)
  then show ?thesis by (auto simp: propose_send_def)
qed

lemma propose_toggle_float_returns:
  assumes "card (all_node_ids (se_trees s)) + 2 < 2 ^ 32"
  shows "\<exists>x. propose_toggle_float s w geometry obs corr caps = Some x"
proof -
  have inner: "propose_admit (unfloat_candidate s w g) w p wk flags_none None b True obs' corr caps \<noteq> None" for g p wk b obs'
    using propose_admit_returns [of "unfloat_candidate s w g"] assms by (simp add: unfloat_candidate_def)
  have "propose_toggle_float s w geometry obs corr caps \<noteq> None"
    by (simp add: propose_toggle_float_def unfloat_def Let_def inner del: not_None_eq split: option.split sum.split)
  then show ?thesis by simp
qed

lemma propose_returns:
  assumes "card (all_node_ids (se_trees s)) + 2 < 2 ^ 32"
  shows "\<exists>x. session_propose command obs corr caps s = Some x"
proof -
  have "\<exists>x. propose_command command obs corr caps s = Some x"
    using propose_admit_returns [OF assms] propose_send_returns [OF assms] propose_toggle_float_returns [OF assms]
    by (cases command) (simp_all add: propose_command_def propose_move_to_workspace_def propose_move_to_output_def)
  then show ?thesis by (auto simp: session_propose_def split: option.split)
qed

end
