(* ===== verification/Session_Focus.thy ===== *)
theory Session_Focus
  imports Session_Proposal Focus_Resize
begin

text \<open>
  Directional and cross-output focus: \<open>session/ops/focus.rs\<close>. The guards that focus, resize and move
  proposals share come first.
\<close>

subsection \<open>Guards of a directed proposal\<close>

definition directed_guard :: "session \<Rightarrow> domain_key \<Rightarrow> window_id \<Rightarrow> session_observation \<Rightarrow> refusal_kind option" where
  "directed_guard s domain window obs =
     (if find (\<lambda>d. domain_key_of d = domain) (se_domains s) = None then Some UnknownDomain
      else if \<not> validate_current_topology s then Some RfMalformedTopology
      else if window = [] then Some MalformedInput
      else if \<not> valid_observed_shapes (so_windows obs) then Some MalformedInput
      else if \<not> all_homed s (so_windows obs) then Some CrossDomainMismatch
      else if observed_ids obs \<noteq> known_ids s then Some PartialObservation
      else if \<not> observed_known_match s (so_windows obs) None then Some PartialObservation
      else if \<not> known_window (se_windows s) (se_exceptions s) window then Some UnknownWindow
      else None)"

text \<open>The focused leaf of the domain when the window is the focused tiled one; \<open>strict\<close> adds the
  check of the resize and move proposals that the focused window is no exception.\<close>

definition tiled_focus :: "bool \<Rightarrow> session \<Rightarrow> domain_key \<Rightarrow> window_id \<Rightarrow> refusal_kind + node_id" where
  "tiled_focus strict s domain window =
     (if om_contains (se_exceptions s) window then Inl NotTiled
      else case (se_focused_domain s, se_focused_leaf s) of
          (Some fd, Some fl) \<Rightarrow>
            if fd \<noteq> domain then Inl FocusMismatch
            else (case focused_window_for (se_windows s) fl domain of
                None \<Rightarrow> Inl NotTiled
              | Some fw \<Rightarrow>
                  if strict \<and> om_contains (se_exceptions s) fw then Inl NotTiled
                  else if window \<noteq> fw then Inl FocusMismatch else Inr fl)
        | _ \<Rightarrow> Inl FocusMismatch)"

definition focus_fenced :: "session \<Rightarrow> window_id \<Rightarrow> observed_window list \<Rightarrow> bool" where
  "focus_fenced s window ws \<longleftrightarrow> se_focus_fence s
     \<and> (case observed_entry window ws of None \<Rightarrow> False | Some e \<Rightarrow> ow_maximized e \<and> \<not> ow_fullscreen e)"

text \<open>The projection of the affected domains when it covers them.\<close>

definition covering_geometry ::
  "session \<Rightarrow> trees \<Rightarrow> links \<Rightarrow> domain_key list \<Rightarrow> observed_window list \<Rightarrow> desired_geometry list option" where
  "covering_geometry s trees windows affected ws =
     (case project_affected_geometry (se_domains s) trees windows affected (hints_from_observed ws) of
        None \<Rightarrow> None
      | Some gs \<Rightarrow> if geometry_covers_affected gs windows affected then Some gs else None)"

subsection \<open>Directional focus\<close>

record session_focus_plan =
  sf_dispatch :: focus_dispatch
  sf_plan :: focus_plan
  sf_snapshot :: session_snapshot
  sf_focus_domain :: domain_key
  sf_focus_leaf :: node_id
  sf_geometry :: "desired_geometry list"

type_synonym focus_decision = "(focus_plan_contract, focus_dispatch, session_focus_plan) decision"

text \<open>Only the focus and the focus memory are staged.\<close>

definition focus_desired :: "session \<Rightarrow> domain_key \<Rightarrow> node_id \<Rightarrow> pending_desired" where
  "focus_desired s key leaf = (desired_of s)\<lparr>pe_focused_domain := Some key, pe_focused_leaf := Some leaf,
     pe_last_active := updated_last_active (se_last_active s) (Some key) (Some leaf) (se_trees s) (se_windows s)\<rparr>"

definition session_focus_plan_of ::
  "session \<Rightarrow> domain_key \<Rightarrow> node_id \<Rightarrow> focus_plan \<Rightarrow> desired_geometry list \<Rightarrow> focus_dispatch \<Rightarrow> session_focus_plan" where
  "session_focus_plan_of s key leaf plan geometry dispatch =
     \<lparr>sf_dispatch = dispatch, sf_plan = plan,
      sf_snapshot = snapshot_for (se_domains s) (se_trees s) (se_windows s),
      sf_focus_domain = key, sf_focus_leaf = leaf, sf_geometry = geometry\<rparr>"

definition focus_target ::
  "session \<Rightarrow> domain_key \<Rightarrow> window_id \<Rightarrow> node_id \<Rightarrow> node_id \<Rightarrow> node_id list \<Rightarrow> direction
    \<Rightarrow> observed_window list \<Rightarrow> focus_capabilities \<Rightarrow> focus_decision" where
  "focus_target s domain window focused target route direction ws caps =
     (case focused_window_for (se_windows s) target domain of
        None \<Rightarrow> Inl RfMalformedTopology
      | Some target_window \<Rightarrow>
          if om_contains (se_exceptions s) target_window then Inl RfMalformedTopology
          else if target = focused then Inl Unchanged
          else if \<not> focus_supports caps DirectionalFocus then Inl RfUnsupportedCapability
          else (case covering_geometry s (se_trees s) (se_windows s) [domain] ws of
              None \<Rightarrow> Inl RfMalformedTopology
            | Some geometry \<Rightarrow>
                Inr (focus_for_operation
                  \<lparr>fi_domain_output = dk_output domain, fi_domain_workspace = dk_workspace domain,
                   fi_focused_leaf = Some focused, fi_focused_window = window, fi_direction = direction\<rparr>
                  \<lparr>fo_domain_output = dk_output domain, fo_domain_workspace = dk_workspace domain,
                   fo_from_leaf = Some focused, fo_to_leaf = target, fo_from_window = window,
                   fo_to_window = target_window, fo_direction = direction, fo_route = route,
                   fo_cross_source_output = None, fo_cross_source_workspace = None\<rparr>,
                  focus_desired s domain target,
                  session_focus_plan_of s domain target (Focused target route) geometry)))"

definition focus_decision ::
  "session \<Rightarrow> domain_key \<Rightarrow> window_id \<Rightarrow> direction \<Rightarrow> session_observation \<Rightarrow> focus_capabilities \<Rightarrow> focus_decision" where
  "focus_decision s domain window direction obs caps =
     (case directed_guard s domain window obs of
        Some kind \<Rightarrow> Inl kind
      | None \<Rightarrow>
          (case tiled_focus False s domain window of
             Inl kind \<Rightarrow> Inl kind
           | Inr focused \<Rightarrow>
               if focus_fenced s window (so_windows obs) then Inl Unchanged
               else (case tree_at (se_trees s) domain of
                   None \<Rightarrow> Inl FocusMismatch
                 | Some tree \<Rightarrow>
                     (case plan_focus tree focused direction of
                        None \<Rightarrow> Inl RfMalformedTopology
                      | Some Edge \<Rightarrow> Inl Unchanged
                      | Some (Focused target route) \<Rightarrow>
                          focus_target s domain window focused target route direction (so_windows obs) caps))))"

definition session_propose_focus ::
  "session \<Rightarrow> domain_key \<Rightarrow> window_id \<Rightarrow> direction \<Rightarrow> session_observation \<Rightarrow> correlation_id \<Rightarrow> focus_capabilities
    \<Rightarrow> (session_error + session_focus_plan) \<times> session" where
  "session_propose_focus s domain window direction obs corr caps =
     when_ready s (stage (\<lambda>plan. propose_focus plan (so_observation obs) corr caps)
       (focus_decision s domain window direction obs caps) s)"

subsection \<open>Cross-output focus\<close>

text \<open>The subject's leaf: none for a floating subject, the focused leaf for a tiled one whose local
  focus is exhausted.\<close>

definition cross_subject ::
  "session \<Rightarrow> domain_key \<Rightarrow> window_id \<Rightarrow> direction \<Rightarrow> observed_window list \<Rightarrow> bool \<Rightarrow> refusal_kind + node_id option" where
  "cross_subject s domain window direction ws float_subject =
     (if float_subject then
        (if \<not> om_contains (se_exceptions s) window then Inl FocusMismatch
         else case observed_entry window ws of
             None \<Rightarrow> Inl PartialObservation
           | Some e \<Rightarrow>
               if \<not> (ow_floating e \<or> ow_sticky e) \<or> ow_output e \<noteq> dk_output domain
                 \<or> ow_workspace e \<noteq> dk_workspace domain then Inl NotTiled else Inr None)
      else case tiled_focus False s domain window of
          Inl kind \<Rightarrow> Inl kind
        | Inr focused \<Rightarrow>
            (case tree_at (se_trees s) domain of
               None \<Rightarrow> Inl FocusMismatch
             | Some tree \<Rightarrow>
                 (case plan_focus tree focused direction of
                    None \<Rightarrow> Inl RfMalformedTopology
                  | Some Edge \<Rightarrow> Inr (Some focused)
                  | Some (Focused target route) \<Rightarrow> Inl Unchanged)))"

text \<open>The one domain that owns the adjacent output, when it names the source back.\<close>

definition cross_target :: "session \<Rightarrow> domain_key \<Rightarrow> direction \<Rightarrow> output_domain option" where
  "cross_target s domain direction =
     Option.bind (find (\<lambda>d. domain_key_of d = domain) (se_domains s)) (\<lambda>source.
       Option.bind (od_adjacent source direction) (\<lambda>target_output.
         case filter (\<lambda>d. od_id d = target_output) (se_domains s) of
           [target] \<Rightarrow>
             if od_adjacent target (opposite_direction direction) \<noteq> Some (dk_output domain) then None else Some target
         | _ \<Rightarrow> None))"

definition cross_stage ::
  "session \<Rightarrow> domain_key \<Rightarrow> window_id \<Rightarrow> node_id option \<Rightarrow> domain_key \<Rightarrow> direction
    \<Rightarrow> observed_window list \<Rightarrow> focus_capabilities \<Rightarrow> focus_decision" where
  "cross_stage s domain window focused target direction ws caps =
     (if tree_at (se_trees s) target = None then Inl Unchanged
      else case remembered_leaf s target of
          None \<Rightarrow> Inl Unchanged
        | Some leaf \<Rightarrow>
            (case focused_window_for (se_windows s) leaf target of
               None \<Rightarrow> Inl NotTiled
             | Some target_window \<Rightarrow>
                 if om_contains (se_exceptions s) target_window then Inl NotTiled
                 else if \<not> focus_supports caps DirectionalFocus then Inl RfUnsupportedCapability
                 else (case covering_geometry s (se_trees s) (se_windows s) [domain, target] ws of
                     None \<Rightarrow> Inl RfMalformedTopology
                   | Some geometry \<Rightarrow>
                       Inr (focus_for_operation
                         \<lparr>fi_domain_output = dk_output domain, fi_domain_workspace = dk_workspace domain,
                          fi_focused_leaf = focused, fi_focused_window = window, fi_direction = direction\<rparr>
                         \<lparr>fo_domain_output = dk_output target, fo_domain_workspace = dk_workspace target,
                          fo_from_leaf = focused, fo_to_leaf = leaf, fo_from_window = window,
                          fo_to_window = target_window, fo_direction = direction, fo_route = [leaf],
                          fo_cross_source_output = Some (dk_output domain),
                          fo_cross_source_workspace = Some (dk_workspace domain)\<rparr>,
                         focus_desired s target leaf,
                         session_focus_plan_of s target leaf (Focused leaf [leaf]) geometry))))"

definition cross_decision ::
  "session \<Rightarrow> domain_key \<Rightarrow> window_id \<Rightarrow> direction \<Rightarrow> session_observation \<Rightarrow> focus_capabilities \<Rightarrow> bool \<Rightarrow> focus_decision" where
  "cross_decision s domain window direction obs caps float_subject =
     (if direction \<noteq> Left \<and> direction \<noteq> Right then Inl Unchanged
      else case directed_guard s domain window obs of
          Some kind \<Rightarrow> Inl kind
        | None \<Rightarrow>
            (case cross_subject s domain window direction (so_windows obs) float_subject of
               Inl kind \<Rightarrow> Inl kind
             | Inr focused \<Rightarrow>
                 if focus_fenced s window (so_windows obs) then Inl Unchanged
                 else (case cross_target s domain direction of
                     None \<Rightarrow> Inl Unchanged
                   | Some d \<Rightarrow>
                       cross_stage s domain window focused (domain_key_of d) direction (so_windows obs) caps)))"

definition cross_output_focus ::
  "bool \<Rightarrow> session \<Rightarrow> domain_key \<Rightarrow> window_id \<Rightarrow> direction \<Rightarrow> session_observation \<Rightarrow> correlation_id
    \<Rightarrow> focus_capabilities \<Rightarrow> (session_error + session_focus_plan) \<times> session" where
  "cross_output_focus float_subject s domain window direction obs corr caps =
     when_ready s (stage (\<lambda>plan. propose_focus plan (so_observation obs) corr caps)
       (cross_decision s domain window direction obs caps float_subject) s)"

definition propose_cross_output_focus ::
  "session \<Rightarrow> domain_key \<Rightarrow> window_id \<Rightarrow> direction \<Rightarrow> session_observation \<Rightarrow> correlation_id
    \<Rightarrow> focus_capabilities \<Rightarrow> (session_error + session_focus_plan) \<times> session" where
  "propose_cross_output_focus = cross_output_focus False"

definition propose_float_cross_output_focus ::
  "session \<Rightarrow> domain_key \<Rightarrow> window_id \<Rightarrow> direction \<Rightarrow> session_observation \<Rightarrow> correlation_id
    \<Rightarrow> focus_capabilities \<Rightarrow> (session_error + session_focus_plan) \<times> session" where
  "propose_float_cross_output_focus = cross_output_focus True"

subsection \<open>The contract\<close>

lemma decision_sum: "(\<And>k. m = Inl k \<Longrightarrow> decision_ok s (f k)) \<Longrightarrow> (\<And>v. m = Inr v \<Longrightarrow> decision_ok s (g v))
    \<Longrightarrow> decision_ok s (case m of Inl k \<Rightarrow> f k | Inr v \<Rightarrow> g v)"
  by (cases m) simp_all

lemma focused_window_resolves:
  assumes "current_ok s" "focused_window_for (se_windows s) leaf key = Some w"
  shows "om_get (se_windows s) w = Some \<lparr>link_window = w, link_leaf = leaf, link_output = dk_output key,
      link_workspace = dk_workspace key\<rparr>"
    "focus_resolves (Some key) (Some leaf) (se_trees s) (se_windows s)"
proof -
  note w = current_world [OF assms(1)]
  obtain l where "find (\<lambda>l. link_leaf l = leaf \<and> homed l key) (om_values (se_windows s)) = Some l" "link_window l = w"
    using assms(2) by (auto simp: focused_window_for_def)
  then have l: "l \<in> set (om_values (se_windows s))" "link_leaf l = leaf" "homed l key" "link_window l = w"
    by (auto simp: find_Some_iff)
  then obtain w' where "om_get (se_windows s) w' = Some l" using om_in_values [OF world_maps(2) [OF w]] by metis
  with world_link_window [OF w this] l show get: "om_get (se_windows s) w = Some \<lparr>link_window = w, link_leaf = leaf,
      link_output = dk_output key, link_workspace = dk_workspace key\<rparr>"
    by (cases l) (simp add: homed_def)
  from world_tiled [OF w this] obtain t where "tree_at (se_trees s) key = Some t" "leaf \<in> set (leaves t)"
    by (cases key) (auto simp: tiled_ok_def link_key_def)
  moreover have "leaf_linked (se_windows s) leaf key"
    using l by (auto simp: leaf_linked_def list_ex_iff)
  ultimately show "focus_resolves (Some key) (Some leaf) (se_trees s) (se_windows s)"
    by (simp add: focus_resolves_def collect_leaves_def)
qed

lemma focus_desired_ok:
  assumes "current_ok s" "focused_window_for (se_windows s) leaf key = Some w"
  shows "desired_ok (se_domains s) (focus_desired s key leaf)"
proof -
  note w = current_world [OF assms(1)]
  have "world_ok (se_domains s) (se_trees s) (se_windows s) (se_exceptions s) (Some key) (Some leaf)"
    using w focused_window_resolves(2) [OF assms] by (simp add: world_ok_def topology_ok_def)
  then show ?thesis
    using assms(1) active_ok_insert(1) [OF assms(1), of "se_trees s"]
    by (simp add: desired_ok_def focus_desired_def desired_of_def current_ok_def)
qed

lemma focus_target_ok:
  "current_ok s \<Longrightarrow> decision_ok s (focus_target s domain window focused target route direction ws caps)"
  unfolding focus_target_def
  by (intro decision_steps decision_stage) (rule focus_desired_ok)

lemma focus_decision_ok: "current_ok s \<Longrightarrow> decision_ok s (focus_decision s domain window direction obs caps)"
  unfolding focus_decision_def
  by (intro decision_steps decision_sum) (auto split: option.split focus_plan.split intro: focus_target_ok)

lemma session_propose_focus_ok:
  "session_inv s \<Longrightarrow> proposal_ok s (session_propose_focus s domain window direction obs corr caps)"
  unfolding session_propose_focus_def
  by (intro proposal_when_ready stage_focus_ok focus_decision_ok) (simp_all add: session_inv_def)

lemma cross_stage_ok:
  "current_ok s \<Longrightarrow> decision_ok s (cross_stage s domain window focused target direction ws caps)"
  unfolding cross_stage_def
  by (intro decision_steps decision_stage) (rule focus_desired_ok)

lemma cross_decision_ok: "current_ok s \<Longrightarrow> decision_ok s (cross_decision s domain window direction obs caps f)"
  unfolding cross_decision_def
  by (intro decision_steps decision_sum cross_stage_ok)

lemma cross_output_focus_ok:
  "session_inv s \<Longrightarrow> proposal_ok s (cross_output_focus f s domain window direction obs corr caps)"
  unfolding cross_output_focus_def
  by (intro proposal_when_ready stage_focus_ok cross_decision_ok) (simp_all add: session_inv_def)

subsection \<open>What an accepted focus reaches\<close>

text \<open>Only the focus and its memory differ in the staged state.\<close>

definition stages_focus :: "session \<Rightarrow> session \<Rightarrow> domain_key \<Rightarrow> node_id \<Rightarrow> bool" where
  "stages_focus s s' key leaf \<longleftrightarrow> se_pending s' = Some (focus_desired s key leaf)
     \<and> focus_resolves (Some key) (Some leaf) (se_trees s) (se_windows s)"

lemma staged_Inr:
  fixes decision :: "('p, 'd, 'a) decision"
  assumes "when_ready s (stage offer decision s) = (Inr a, s')"
  obtains plan desired answer d r where "decision = Inr (plan, desired, answer)" "offer plan (se_reconciler s) = (Inr d, r)"
    "a = answer d" "se_pending s' = Some desired"
  using assms
  by (cases decision) (auto simp: when_ready_def stage_def stage_plan_def split: option.splits sum.splits prod.splits
      propose_error.splits)

lemma tiled_focus_Inr:
  assumes "tiled_focus strict s domain window = Inr leaf"
  shows "se_focused_domain s = Some domain \<and> se_focused_leaf s = Some leaf
    \<and> focused_window_for (se_windows s) leaf domain = Some window \<and> \<not> om_contains (se_exceptions s) window"
  using assms by (auto simp: tiled_focus_def split: if_splits option.splits)

lemma tiled_focus_leaf:
  assumes "current_ok s" "tiled_focus strict s domain window = Inr x" "tree_at (se_trees s) domain = Some t"
  shows "wf_node t" "x \<in> set (leaves t)"
proof -
  show "wf_node t" by (rule world_tree_wf [OF current_world [OF assms(1)] assms(3)])
  have "focused_window_for (se_windows s) x domain = Some window" using tiled_focus_Inr [OF assms(2)] by simp
  from focused_window_resolves(2) [OF assms(1) this] assms(3) show "x \<in> set (leaves t)"
    by (simp add: focus_resolves_def collect_leaves_def)
qed

lemma focus_target_Inr:
  assumes "focus_target s domain window focused target route direction ws caps = Inr (plan, desired, answer)"
  shows "(\<exists>w. focused_window_for (se_windows s) target domain = Some w) \<and> desired = focus_desired s domain target
    \<and> target \<noteq> focused \<and> (\<forall>d. sf_focus_domain (answer d) = domain \<and> sf_focus_leaf (answer d) = target)"
  using assms by (auto simp: focus_target_def session_focus_plan_of_def split: option.splits if_splits)

lemma cross_stage_Inr:
  assumes "cross_stage s domain window focused target direction ws caps = Inr (plan, desired, answer)"
  shows "\<exists>leaf w. remembered_leaf s target = Some leaf \<and> focused_window_for (se_windows s) leaf target = Some w
    \<and> desired = focus_desired s target leaf
    \<and> (\<forall>d. sf_focus_domain (answer d) = target \<and> sf_focus_leaf (answer d) = leaf)"
  using assms by (auto simp: cross_stage_def session_focus_plan_of_def split: option.splits if_splits)

text \<open>
  C12. An accepted directional focus starts from the focused window of the domain and reaches the leaf
  of another window of the same tree that stands in that direction. It stages exactly that focus: trees,
  links, exceptions and geometries stay, and the staged focus names a linked leaf.
\<close>

theorem focus_reaches_neighbour:
  assumes "session_inv s"
    and "session_propose_focus s domain window direction obs corr caps = (Inr plan, s')"
  shows "\<exists>t x. se_focused_domain s = Some domain \<and> se_focused_leaf s = Some x
    \<and> om_get (se_windows s) window = Some \<lparr>link_window = window, link_leaf = x, link_output = dk_output domain,
        link_workspace = dk_workspace domain\<rparr>
    \<and> tree_at (se_trees s) domain = Some t
    \<and> sibling_leaf t direction x (sf_focus_leaf plan) \<and> sf_focus_leaf plan \<noteq> x \<and> sf_focus_domain plan = domain
    \<and> keeps_world s s' \<and> stages_focus s s' domain (sf_focus_leaf plan)"
proof -
  have cur: "current_ok s" using assms(1) by (simp add: session_inv_def)
  obtain p desired answer d where dec: "focus_decision s domain window direction obs caps = Inr (p, desired, answer)"
    and plan: "plan = answer d" "se_pending s' = Some desired"
    using staged_Inr [OF assms(2) [unfolded session_propose_focus_def]] by metis
  then obtain x t y r where foc: "tiled_focus False s domain window = Inr x" and t: "tree_at (se_trees s) domain = Some t"
    and pf: "plan_focus t x direction = Some (Focused y r)"
    and tgt: "focus_target s domain window x y r direction (so_windows obs) caps = Inr (p, desired, answer)"
    by (auto simp: focus_decision_def split: option.splits sum.splits if_splits focus_plan.splits)
  from plan_focus_cases [OF tiled_focus_leaf [OF cur foc t], of direction] pf
  have sib: "sibling_leaf t direction x y" by auto
  obtain w where w: "focused_window_for (se_windows s) y domain = Some w"
    using focus_target_Inr [OF tgt] by blast
  have "keeps_world s s'"
    using session_propose_focus_ok [OF assms(1), of domain window direction obs corr caps] assms(2)
    by (simp add: proposal_ok_def)
  moreover have "stages_focus s s' domain y"
    using focus_target_Inr [OF tgt] plan(2) focused_window_resolves(2) [OF cur w] by (simp add: stages_focus_def)
  moreover note tiled_focus_Inr [OF foc]
  ultimately show ?thesis
    using focus_target_Inr [OF tgt] plan(1) sib t focused_window_resolves(1) [OF cur, of x domain window] by auto
qed

lemma filter_single: "filter P xs = [y] \<Longrightarrow> y \<in> set xs \<and> P y \<and> (\<forall>z \<in> set xs. P z \<longrightarrow> z = y)"
  using arg_cong [of "filter P xs" "[y]" set, unfolded set_filter] by auto

lemma cross_target_Some:
  assumes "cross_target s domain direction = Some d"
  shows "\<exists>source \<in> set (se_domains s). domain_key_of source = domain \<and> d \<in> set (se_domains s)
    \<and> od_adjacent source direction = Some (od_id d)
    \<and> od_adjacent d (opposite_direction direction) = Some (dk_output domain)
    \<and> (\<forall>d' \<in> set (se_domains s). od_id d' = od_id d \<longrightarrow> d' = d)"
proof -
  let ?owners = "\<lambda>p. filter (\<lambda>d. od_id d = p) (se_domains s)"
  obtain source p where src: "find (\<lambda>d. domain_key_of d = domain) (se_domains s) = Some source"
      and p: "od_adjacent source direction = Some p"
      and owner: "(case ?owners p of [target] \<Rightarrow>
          if od_adjacent target (opposite_direction direction) \<noteq> Some (dk_output domain) then None else Some target
        | _ \<Rightarrow> None) = Some d"
    using assms unfolding cross_target_def bind_eq_Some_conv by blast
  from owner have one: "?owners p = [d]" and reverse: "od_adjacent d (opposite_direction direction) = Some (dk_output domain)"
    by (auto split: list.split_asm if_split_asm)
  from src have "source \<in> set (se_domains s)" "domain_key_of source = domain" by (auto simp: find_Some_iff)
  with filter_single [OF one] p reverse show ?thesis by auto
qed

text \<open>
  C13. An accepted cross-output focus goes left or right to the one domain that owns the adjacent output
  and names the source back, and there to the leaf that was active last; that leaf still exists and is
  linked. A tiled subject is the window of the focused leaf of the domain and no leaf of its own tree stands
  in that direction; a floating one is an exception. Nothing but the focus is staged.
\<close>

theorem cross_focus_reaches_neighbour:
  assumes "session_inv s"
    and "cross_output_focus float_subject s domain window direction obs corr caps = (Inr plan, s')"
  shows "\<exists>source d. source \<in> set (se_domains s) \<and> d \<in> set (se_domains s) \<and> domain_key_of source = domain
    \<and> (direction = Left \<or> direction = Right)
    \<and> od_adjacent source direction = Some (od_id d)
    \<and> od_adjacent d (opposite_direction direction) = Some (dk_output domain)
    \<and> (\<forall>d' \<in> set (se_domains s). od_id d' = od_id d \<longrightarrow> d' = d)
    \<and> sf_focus_domain plan = domain_key_of d
    \<and> om_get (se_last_active s) (domain_key_of d) = Some (sf_focus_leaf plan)
    \<and> (if float_subject then om_contains (se_exceptions s) window
       else \<exists>t x. se_focused_domain s = Some domain \<and> se_focused_leaf s = Some x
         \<and> focused_window_for (se_windows s) x domain = Some window \<and> tree_at (se_trees s) domain = Some t \<and> (\<nexists>y. sibling_leaf t direction x y))
    \<and> keeps_world s s' \<and> stages_focus s s' (domain_key_of d) (sf_focus_leaf plan)"
proof -
  have cur: "current_ok s" using assms(1) by (simp add: session_inv_def)
  obtain p desired answer disp where
    dec: "cross_decision s domain window direction obs caps float_subject = Inr (p, desired, answer)"
    and plan: "plan = answer disp" "se_pending s' = Some desired"
    using staged_Inr [OF assms(2) [unfolded cross_output_focus_def]] by metis
  then obtain focused d where dir: "direction = Left \<or> direction = Right"
    and sub: "cross_subject s domain window direction (so_windows obs) float_subject = Inr focused"
    and d: "cross_target s domain direction = Some d"
    and st: "cross_stage s domain window focused (domain_key_of d) direction (so_windows obs) caps = Inr (p, desired, answer)"
    by (auto simp: cross_decision_def split: option.splits sum.splits if_splits)
  obtain leaf w where leaf: "remembered_leaf s (domain_key_of d) = Some leaf"
      "focused_window_for (se_windows s) leaf (domain_key_of d) = Some w" "desired = focus_desired s (domain_key_of d) leaf"
    and ans: "sf_focus_domain plan = domain_key_of d" "sf_focus_leaf plan = leaf"
    using cross_stage_Inr [OF st] plan(1) by blast
  have active: "om_get (se_last_active s) (domain_key_of d) = Some leaf"
    using leaf(1) by (auto simp: remembered_leaf_def bind_eq_Some_conv split: if_splits)
  have subject: "if float_subject then om_contains (se_exceptions s) window
       else \<exists>t x. se_focused_domain s = Some domain \<and> se_focused_leaf s = Some x
         \<and> focused_window_for (se_windows s) x domain = Some window \<and> tree_at (se_trees s) domain = Some t \<and> (\<nexists>y. sibling_leaf t direction x y)"
  proof (cases float_subject)
    case True
    then show ?thesis using sub by (auto simp: cross_subject_def split: if_splits)
  next
    case False
    then obtain x t where foc: "tiled_focus False s domain window = Inr x" and t: "tree_at (se_trees s) domain = Some t"
      and pf: "plan_focus t x direction = Some Edge"
      using sub by (auto simp: cross_subject_def split: option.splits sum.splits focus_plan.splits)
    from plan_focus_cases [OF tiled_focus_leaf [OF cur foc t], of direction] pf
    have "\<nexists>y. sibling_leaf t direction x y" by auto
    with False t tiled_focus_Inr [OF foc] show ?thesis by auto
  qed
  have "keeps_world s s'"
    using cross_output_focus_ok [OF assms(1), of float_subject domain window direction obs corr caps] assms(2)
    by (simp add: proposal_ok_def)
  moreover have "stages_focus s s' (domain_key_of d) leaf"
    using plan(2) leaf(3) focused_window_resolves(2) [OF cur leaf(2)] by (simp add: stages_focus_def)
  ultimately show ?thesis using cross_target_Some [OF d] dir active subject ans by blast
qed

end
