(* ===== verification/Session_Resize.thy ===== *)
theory Session_Resize
  imports Session_Focus
begin

text \<open>
  Keyboard resize: \<open>Session::propose_resize\<close> of \<open>session/ops/resize.rs\<close> and the derivation of pixel
  shares it calls. Shares are \<open>u64\<close> values as \<^typ>\<open>nat\<close>, sizes are \<open>i64\<close> values as \<^typ>\<open>int\<close>; the
  products in \<open>u128\<close> cannot overflow. The two flags of the derivation loop that only lead to
  \<open>Unchanged\<close> are one.
\<close>

subsection \<open>Levels and extents\<close>

record pointer_level =
  lv_group :: node_id
  lv_axis :: axis
  lv_children :: "node_id list"
  lv_shares :: "nat list"
  lv_index :: nat

text \<open>Innermost level first; the second function is the loop over the children from index \<open>k\<close>, and
  \<open>None\<close> is \<open>false\<close>.\<close>

fun pointer_path :: "node \<Rightarrow> node_id \<Rightarrow> pointer_level list option"
  and pointer_children ::
    "node_id \<Rightarrow> axis \<Rightarrow> node_id list \<Rightarrow> nat list \<Rightarrow> nat \<Rightarrow> node list \<Rightarrow> node_id \<Rightarrow> pointer_level list option" where
  "pointer_path (Leaf i) x = None"
| "pointer_path (Group i a cs sh) x = pointer_children i a (map ident cs) sh 0 cs x"
| "pointer_children i a all sh k [] x = None"
| "pointer_children i a all sh k (c # cs) x =
     (if ident c = x
      then Some [\<lparr>lv_group = i, lv_axis = a, lv_children = all, lv_shares = sh, lv_index = k\<rparr>]
      else if subtree_contains c x
      then (case pointer_path c x of
          Some ls \<Rightarrow> Some (ls @ [\<lparr>lv_group = i, lv_axis = a, lv_children = all, lv_shares = sh, lv_index = k\<rparr>])
        | None \<Rightarrow> None)
      else pointer_children i a all sh (Suc k) cs x)"

fun collect_pointer_leaves :: "node \<Rightarrow> node_id \<Rightarrow> node_id list" where
  "collect_pointer_leaves (Leaf i) x = (if i = x then [i] else [])"
| "collect_pointer_leaves (Group i a cs sh) x =
     (if i = x then collect_leaves (Group i a cs sh)
      else concat (map (\<lambda>c. if subtree_contains c x \<or> ident c = x then collect_pointer_leaves c x else []) cs))"

text \<open>Origin and extent of each leaf along the axis, \<open>None\<close> when one is missing or empty.\<close>

fun leaf_spans :: "desired_geometry list \<Rightarrow> axis \<Rightarrow> node_id list \<Rightarrow> (int \<times> int) list option" where
  "leaf_spans geometry a [] = Some []"
| "leaf_spans geometry a (l # ls) =
     (case find (\<lambda>g. dg_leaf g = l) geometry of
        None \<Rightarrow> None
      | Some g \<Rightarrow>
          if rw (dg_rect g) \<le> 0 \<or> rh (dg_rect g) \<le> 0 then None
          else map_option (\<lambda>rest. (axis_origin a (dg_rect g), axis_extent a (dg_rect g)) # rest)
            (leaf_spans geometry a ls))"

definition pointer_child_extent :: "node \<Rightarrow> node_id \<Rightarrow> axis \<Rightarrow> desired_geometry list \<Rightarrow> int option" where
  "pointer_child_extent tree child a geometry =
     (case collect_pointer_leaves tree child of
        [] \<Rightarrow> None
      | ls \<Rightarrow>
          (case leaf_spans geometry a ls of
             None \<Rightarrow> None
           | Some spans \<Rightarrow> Some (fold max (map (\<lambda>(p, e). p + e) (tl spans)) (fst (hd spans) + snd (hd spans))
               - fold min (map fst (tl spans)) (fst (hd spans)))))"

text \<open>The extents of all children, each positive.\<close>

fun child_extents :: "node \<Rightarrow> node_id list \<Rightarrow> axis \<Rightarrow> desired_geometry list \<Rightarrow> int list option" where
  "child_extents tree [] a geometry = Some []"
| "child_extents tree (c # cs) a geometry =
     (case pointer_child_extent tree c a geometry of
        None \<Rightarrow> None
      | Some e \<Rightarrow> if e \<le> 0 then None else map_option ((#) e) (child_extents tree cs a geometry))"

text \<open>The checked sum of the sizes.\<close>

fun checked_sum_i64 :: "int \<Rightarrow> int list \<Rightarrow> int option" where
  "checked_sum_i64 acc [] = Some acc"
| "checked_sum_i64 acc (s # ss) = Option.bind (checked_add_i64 acc s) (\<lambda>t. checked_sum_i64 t ss)"

subsection \<open>Shares for a pixel size\<close>

text \<open>The checked sum of the scaled shares.\<close>

fun scaled_total :: "nat \<Rightarrow> nat \<Rightarrow> nat list \<Rightarrow> nat option" where
  "scaled_total k acc [] = Some acc"
| "scaled_total k acc (s # ss) =
     Option.bind (checked_mul_u64 s k) (\<lambda>m. Option.bind (checked_add_u64 acc m) (\<lambda>t. scaled_total k t ss))"

definition div_ceil :: "nat \<Rightarrow> nat \<Rightarrow> nat" where
  "div_ceil a b = (if a mod b = 0 then a div b else a div b + 1)"

text \<open>The new shares: the pair at \<open>lo\<close>, every other share scaled.\<close>

definition split_shares :: "nat list \<Rightarrow> nat \<Rightarrow> nat \<Rightarrow> nat \<Rightarrow> nat \<Rightarrow> nat list" where
  "split_shares shares lo k left right = (map (\<lambda>s. s * k) shares)[lo := left, Suc lo := right]"

text \<open>The shares whose projected size is the clamped one: an interval.\<close>

definition lower_share :: "nat \<Rightarrow> int \<Rightarrow> int \<Rightarrow> nat" where
  "lower_share tot clamped_left distributable = div_ceil ((nat clamped_left - 1) * tot) (nat distributable)"

definition upper_share :: "nat \<Rightarrow> int \<Rightarrow> int \<Rightarrow> nat" where
  "upper_share tot clamped_left distributable = ((nat clamped_left - 1 + 1) * tot - 1) div nat distributable"

text \<open>One candidate scale: \<open>None\<close> is the early return without a result, \<open>Some None\<close> goes on to the
  next candidate.\<close>

definition split_pair :: "nat list \<Rightarrow> nat \<Rightarrow> nat \<Rightarrow> nat \<Rightarrow> nat \<Rightarrow> nat \<Rightarrow> nat list option option" where
  "split_pair shares lo k pair lower upper =
     (if upper < lower then Some None
      else
        let left = max lower 1; upper' = min upper (pair - 1)
        in if upper' < left then Some None
           else if u64_max < left then None
           else if pair < left then None
           else if pair - left < 1 then Some None
           else if left = shares ! lo * k then Some None
           else
             let new = split_shares shares lo k left (pair - left)
             in if 0 \<in> set new then None else Some (Some new))"

definition shares_at_scale ::
  "nat list \<Rightarrow> nat \<Rightarrow> int \<Rightarrow> int \<Rightarrow> nat \<Rightarrow> nat \<Rightarrow> nat list option option" where
  "shares_at_scale shares lo clamped_left distributable old_pair k =
     Option.bind (scaled_total k 0 shares) (\<lambda>tot.
     Option.bind (checked_mul_u64 old_pair k) (\<lambda>pair.
       if tot = 0 \<or> pair = 0 then Some None
       else split_pair shares lo k pair (lower_share tot clamped_left distributable)
         (upper_share tot clamped_left distributable)))"

fun first_scale :: "(nat \<Rightarrow> nat list option option) \<Rightarrow> nat list \<Rightarrow> nat list option" where
  "first_scale attempt [] = None"
| "first_scale attempt (k # ks) =
     (case attempt k of
        None \<Rightarrow> None
      | Some None \<Rightarrow> first_scale attempt ks
      | Some (Some new) \<Rightarrow> Some new)"

definition pixel_shares_for_clamped ::
  "nat list \<Rightarrow> nat \<Rightarrow> int \<Rightarrow> int \<Rightarrow> nat \<Rightarrow> nat \<Rightarrow> nat list option" where
  "pixel_shares_for_clamped shares lo clamped_left distributable old_total old_pair =
     (if distributable \<le> 0 \<or> old_total = 0 \<or> old_pair = 0 \<or> clamped_left \<le> 0 then None
      else
        let required = min (div_ceil (nat distributable) old_total) u64_max
        in first_scale (shares_at_scale shares lo clamped_left distributable old_pair)
             (filter (\<lambda>k. 1 \<le> k) (sort [1, required])))"

subsection \<open>The keyboard derivation\<close>

record pointer_target =
  pt_group :: node_id
  pt_focused_index :: nat
  pt_neighbor_index :: nat
  pt_focused_child :: node_id
  pt_neighbor_child :: node_id
  pt_old_shares :: "nat list"

datatype pixel_derived = PixelUnchanged | PixelBelowMinimum | PixelPlanned pointer_target "nat list"

text \<open>What one level gives: an error, the next level, the next level with the threshold flag, a plan.\<close>

datatype level_outcome = LevelMalformed | LevelSkipped | LevelBelow | LevelPlanned pointer_target "nat list"

definition keyboard_move ::
  "layout_policy \<Rightarrow> pointer_level \<Rightarrow> nat \<Rightarrow> axis \<Rightarrow> resize_mode \<Rightarrow> int \<Rightarrow> int list \<Rightarrow> level_outcome" where
  "keyboard_move p level neighbor wanted mode step_px sizes =
     (let focused = lv_index level; lo = min focused neighbor;
          (shrink, grow) = (if mode = Inwards then (sizes ! focused, sizes ! neighbor)
            else (sizes ! neighbor, sizes ! focused))
      in case lp_clamp_keyboard_shrink_pair p shrink grow step_px wanted of
           None \<Rightarrow> if sizes ! focused + sizes ! neighbor < lp_pair_min_for_axis p wanted then LevelBelow else LevelSkipped
         | Some (new_shrink, new_grow) \<Rightarrow>
             if new_shrink = shrink \<and> new_grow = grow then LevelSkipped
             else
               let clamped_left = (if (focused = lo) = (mode = Inwards) then new_shrink else new_grow)
               in if clamped_left = sizes ! lo then LevelSkipped
                  else (case Option.bind (checked_sum_i64 0 sizes) (\<lambda>avail.
                      Option.bind (checked_sub_i64 avail (int (length sizes))) (\<lambda>distributable.
                      Option.bind (checked_total 0 (lv_shares level)) (\<lambda>old_total.
                      Option.bind (checked_add_u64 (lv_shares level ! focused) (lv_shares level ! neighbor)) (\<lambda>old_pair.
                        Some (distributable, old_total, old_pair))))) of
                      None \<Rightarrow> LevelMalformed
                    | Some (distributable, old_total, old_pair) \<Rightarrow>
                        (case pixel_shares_for_clamped (lv_shares level) lo clamped_left distributable old_total old_pair of
                           None \<Rightarrow> LevelSkipped
                         | Some new \<Rightarrow> LevelPlanned
                             \<lparr>pt_group = lv_group level, pt_focused_index = focused, pt_neighbor_index = neighbor,
                              pt_focused_child = lv_children level ! focused,
                              pt_neighbor_child = lv_children level ! neighbor, pt_old_shares = lv_shares level\<rparr> new)))"

definition keyboard_level ::
  "layout_policy \<Rightarrow> node \<Rightarrow> axis \<Rightarrow> int \<Rightarrow> resize_mode \<Rightarrow> int \<Rightarrow> desired_geometry list \<Rightarrow> pointer_level
    \<Rightarrow> level_outcome" where
  "keyboard_level p tree wanted step mode step_px geometry level =
     (if lv_axis level \<noteq> wanted then LevelSkipped
      else
        let neighbor = int (lv_index level) + step; count = length (lv_shares level)
        in if neighbor < 0 \<or> length (lv_children level) \<le> nat neighbor then LevelSkipped
           else if count \<noteq> length (lv_children level) \<or> count \<le> lv_index level \<or> count \<le> nat neighbor
             \<or> 0 \<in> set (lv_shares level) then LevelMalformed
           else (case child_extents tree (lv_children level) wanted geometry of
               None \<Rightarrow> LevelMalformed
             | Some sizes \<Rightarrow>
                 (case checked_add_i64 (sizes ! lv_index level) (sizes ! nat neighbor) of
                    None \<Rightarrow> LevelMalformed
                  | Some pair_sum \<Rightarrow>
                      if \<not> lp_pair_admits_resize p pair_sum pair_sum wanted then LevelBelow
                      else keyboard_move p level (nat neighbor) wanted mode step_px sizes)))"

fun keyboard_levels ::
  "(pointer_level \<Rightarrow> level_outcome) \<Rightarrow> bool \<Rightarrow> pointer_level list \<Rightarrow> pixel_derived option" where
  "keyboard_levels outcome below [] = Some (if below then PixelBelowMinimum else PixelUnchanged)"
| "keyboard_levels outcome below (l # ls) =
     (case outcome l of
        LevelMalformed \<Rightarrow> None
      | LevelSkipped \<Rightarrow> keyboard_levels outcome below ls
      | LevelBelow \<Rightarrow> keyboard_levels outcome True ls
      | LevelPlanned target new \<Rightarrow> Some (PixelPlanned target new))"

definition derive_keyboard_pixel_shares ::
  "layout_policy \<Rightarrow> node \<Rightarrow> node_id \<Rightarrow> direction \<Rightarrow> resize_mode \<Rightarrow> int \<Rightarrow> desired_geometry list
    \<Rightarrow> pixel_derived option" where
  "derive_keyboard_pixel_shares p tree focused edge mode step_px geometry =
     (if focused = [] \<or> step_px \<le> 0 then None
      else case pointer_path tree focused of
          None \<Rightarrow> Some PixelUnchanged
        | Some levels \<Rightarrow>
            keyboard_levels (keyboard_level p tree (axis_for_direction edge) (step_for edge) mode step_px geometry)
              False levels)"

text \<open>Only the entries of the domain count; the last entry of a leaf wins.\<close>

definition keyboard_minimum_holds ::
  "layout_policy \<Rightarrow> desired_geometry list \<Rightarrow> pointer_target \<Rightarrow> domain_key \<Rightarrow> axis \<Rightarrow> resize_mode \<Rightarrow> bool" where
  "keyboard_minimum_holds p geometry target domain a mode \<longleftrightarrow>
     (let here = filter (\<lambda>g. dg_output g = dk_output domain \<and> dg_workspace g = dk_workspace domain) geometry;
          shrinking = (if mode = Inwards then pt_focused_child target else pt_neighbor_child target)
      in list_all (\<lambda>g. \<not> (rw (dg_rect g) \<le> 0 \<or> rh (dg_rect g) \<le> 0)) here
       \<and> (case find (\<lambda>g. dg_leaf g = shrinking) (rev here) of
            None \<Rightarrow> True
          | Some g \<Rightarrow> lp_child_min_for_axis p a \<le> axis_extent a (dg_rect g)))"

subsection \<open>The proposal\<close>

record session_resize_plan =
  sr_dispatch :: resize_dispatch
  sr_plan :: resize_plan
  sr_secondary :: "resize_plan option"
  sr_snapshot :: session_snapshot
  sr_focus_domain :: domain_key
  sr_focus_leaf :: node_id
  sr_geometry :: "desired_geometry list"

type_synonym resize_decision = "(resize_plan, resize_dispatch, session_resize_plan) decision"

text \<open>Only the trees are staged; the focus is the current one and its memory is kept.\<close>

definition resize_desired :: "session \<Rightarrow> domain_key \<Rightarrow> node_id \<Rightarrow> trees \<Rightarrow> pending_desired" where
  "resize_desired s key leaf trees = (desired_of s)\<lparr>pe_trees := trees, pe_focused_domain := Some key,
     pe_focused_leaf := Some leaf\<rparr>"

definition session_resize_plan_of ::
  "session \<Rightarrow> domain_key \<Rightarrow> node_id \<Rightarrow> trees \<Rightarrow> resize_plan \<Rightarrow> desired_geometry list \<Rightarrow> resize_dispatch
    \<Rightarrow> session_resize_plan" where
  "session_resize_plan_of s key leaf trees plan geometry dispatch =
     \<lparr>sr_dispatch = dispatch, sr_plan = plan, sr_secondary = None,
      sr_snapshot = snapshot_for (se_domains s) trees (se_windows s),
      sr_focus_domain = key, sr_focus_leaf = leaf, sr_geometry = geometry\<rparr>"

definition keyboard_operation ::
  "domain_key \<Rightarrow> window_id \<Rightarrow> node_id \<Rightarrow> direction \<Rightarrow> resize_mode \<Rightarrow> pointer_target \<Rightarrow> nat list \<Rightarrow> resize_operation" where
  "keyboard_operation domain window focused direction mode target new =
     \<lparr>ro_domain_output = dk_output domain, ro_domain_workspace = dk_workspace domain,
      ro_focused_leaf = focused, ro_focused_window = window, ro_direction = direction, ro_mode = mode,
      ro_target_group = pt_group target, ro_focused_child = pt_focused_child target,
      ro_neighbor_child = pt_neighbor_child target, ro_focused_index = pt_focused_index target,
      ro_neighbor_index = pt_neighbor_index target, ro_old_shares = pt_old_shares target,
      ro_new_shares = new\<rparr>"

definition keyboard_plan ::
  "domain_key \<Rightarrow> window_id \<Rightarrow> node_id \<Rightarrow> direction \<Rightarrow> resize_mode \<Rightarrow> pointer_target \<Rightarrow> nat list \<Rightarrow> resize_plan" where
  "keyboard_plan domain window focused direction mode target new =
     resize_for_operation
       \<lparr>ri_domain_output = dk_output domain, ri_domain_workspace = dk_workspace domain,
        ri_focused_leaf = focused, ri_focused_window = window, ri_direction = direction, ri_mode = mode\<rparr>
       (keyboard_operation domain window focused direction mode target new)"

definition resize_stage ::
  "session \<Rightarrow> domain_key \<Rightarrow> window_id \<Rightarrow> node_id \<Rightarrow> node \<Rightarrow> direction \<Rightarrow> resize_mode \<Rightarrow> pointer_target \<Rightarrow> nat list
    \<Rightarrow> observed_window list \<Rightarrow> resize_decision" where
  "resize_stage s domain window focused tree direction mode target new ws =
     (case apply_resize_shares tree (pt_group target) new of
        None \<Rightarrow> Inl RfMalformedTopology
      | Some updated \<Rightarrow>
          let trees = om_insert domain (Some updated) (se_trees s)
          in if trees = se_trees s then Inl Unchanged
             else if \<not> validate_topology (se_domains s) trees (se_windows s) (se_exceptions s) (Some domain) (Some focused)
               then Inl RfMalformedTopology
             else (case covering_geometry s trees (se_windows s) [domain] ws of
                 None \<Rightarrow> Inl RfMalformedTopology
               | Some geometry \<Rightarrow>
                   if \<not> keyboard_minimum_holds (se_policy s) geometry target domain (axis_for_direction direction) mode
                   then Inl RfMalformedTopology
                   else
                     let plan = keyboard_plan domain window focused direction mode target new
                     in Inr (plan, resize_desired s domain focused trees,
                       session_resize_plan_of s domain focused trees plan geometry)))"

definition resize_derive ::
  "session \<Rightarrow> domain_key \<Rightarrow> window_id \<Rightarrow> node_id \<Rightarrow> direction \<Rightarrow> resize_mode \<Rightarrow> nat
    \<Rightarrow> observed_window list \<Rightarrow> resize_decision" where
  "resize_derive s domain window focused direction mode press_index ws =
     (case (find (\<lambda>d. domain_key_of d = domain) (se_domains s), tree_at (se_trees s) domain) of
        (None, _) \<Rightarrow> Inl UnknownDomain
      | (_, None) \<Rightarrow> Inl FocusMismatch
      | (Some d, Some tree) \<Rightarrow>
          (case project_output_geometry (Some d) (Some tree) (se_windows s) domain (hints_from_observed ws) of
             None \<Rightarrow> Inl RfMalformedTopology
           | Some geometry \<Rightarrow>
               if \<not> geometry_covers_affected geometry (se_windows s) [domain] then Inl RfMalformedTopology
               else (case derive_keyboard_pixel_shares (se_policy s) tree focused direction mode
                     (lp_keyboard_step_px (se_policy s) press_index) geometry of
                   None \<Rightarrow> Inl RfMalformedTopology
                 | Some PixelUnchanged \<Rightarrow> Inl Unchanged
                 | Some PixelBelowMinimum \<Rightarrow> Inl PairBelowMinimum
                 | Some (PixelPlanned target new) \<Rightarrow>
                     resize_stage s domain window focused tree direction mode target new ws)))"

definition resize_decision ::
  "session \<Rightarrow> domain_key \<Rightarrow> window_id \<Rightarrow> direction \<Rightarrow> resize_mode \<Rightarrow> nat \<Rightarrow> session_observation
    \<Rightarrow> resize_capabilities \<Rightarrow> resize_decision" where
  "resize_decision s domain window direction mode press_index obs caps =
     (case directed_guard s domain window obs of
        Some kind \<Rightarrow> Inl kind
      | None \<Rightarrow>
          (case tiled_focus True s domain window of
             Inl kind \<Rightarrow> Inl kind
           | Inr focused \<Rightarrow>
               if (case observed_entry window (so_windows obs) of None \<Rightarrow> False | Some e \<Rightarrow> flags_any (ow_flags e))
               then Inl NotTiled
               else if \<not> resize_supports caps KeyboardResize then Inl RfUnsupportedCapability
               else resize_derive s domain window focused direction mode press_index (so_windows obs)))"

definition session_propose_resize ::
  "session \<Rightarrow> domain_key \<Rightarrow> window_id \<Rightarrow> direction \<Rightarrow> resize_mode \<Rightarrow> nat \<Rightarrow> session_observation \<Rightarrow> correlation_id
    \<Rightarrow> resize_capabilities \<Rightarrow> (session_error + session_resize_plan) \<times> session" where
  "session_propose_resize s domain window direction mode press_index obs corr caps =
     when_ready s (stage (\<lambda>plan. propose_resize plan (so_observation obs) corr caps)
       (resize_decision s domain window direction mode press_index obs caps) s)"

subsection \<open>The contract\<close>

lemma resize_stage_ok:
  assumes "current_ok s"
  shows "decision_ok s (resize_stage s domain window focused tree direction mode target new ws)"
proof -
  note ok = world_maps [OF current_world [OF assms]] world_link_window [OF current_world [OF assms]]
  show ?thesis
    unfolding resize_stage_def Let_def
    by (intro decision_steps decision_stage desired_tiled_ok [OF assms])
      (use current_active [OF assms] in \<open>simp_all add: ok desired_of_def resize_desired_def active_ok_def\<close>)
qed

lemma resize_derive_ok:
  "current_ok s \<Longrightarrow> decision_ok s (resize_derive s domain window focused direction mode press_index ws)"
  unfolding resize_derive_def
  by (auto split: option.split pixel_derived.split intro: resize_stage_ok)

lemma resize_decision_ok:
  "current_ok s \<Longrightarrow> decision_ok s (resize_decision s domain window direction mode press_index obs caps)"
  unfolding resize_decision_def
  by (intro decision_steps decision_sum resize_derive_ok)

lemma session_propose_resize_ok:
  "session_inv s \<Longrightarrow> proposal_ok s (session_propose_resize s domain window direction mode press_index obs corr caps)"
  unfolding session_propose_resize_def
  by (intro proposal_when_ready stage_resize_ok resize_decision_ok) (simp_all add: session_inv_def)

end
