(* ===== verification/Session_Move.thy ===== *)
theory Session_Move
  imports Session_Focus
begin

text \<open>
  Directional movement: \<open>Session::propose_move_with_same_axis\<close> of \<open>session/ops/move.rs\<close>, the snapshot it
  hands to the planner and \<open>apply_move_operation\<close>, which rechecks every field of the plan against the tree
  before it edits. The search of a fresh group identity may not return, so the functions that may search
  answer an option of their result; a \<open>None\<close> of the code is \<open>Some None\<close> there.
\<close>

subsection \<open>The planner's snapshot\<close>

definition domain_output :: "trees \<Rightarrow> output_domain \<Rightarrow> out_topology" where
  "domain_output trees d = \<lparr>out_id = od_id d, out_workspace = od_workspace d,
     out_tree = tree_at trees (domain_key_of d), out_adjacent = od_adjacent d\<rparr>"

text \<open>Adjacent outputs that exactly one domain has, unless already included.\<close>

fun add_adjacent :: "session \<Rightarrow> output_id list \<Rightarrow> out_topology list \<Rightarrow> out_topology list" where
  "add_adjacent s [] outs = outs"
| "add_adjacent s (t # ts) outs =
     (if list_ex (\<lambda>o'. out_id o' = t) outs then add_adjacent s ts outs
      else case filter (\<lambda>d. od_id d = t) (se_domains s) of
          [d] \<Rightarrow> add_adjacent s ts (outs @ [domain_output (se_trees s) d])
        | _ \<Rightarrow> add_adjacent s ts outs)"

definition move_outputs :: "session \<Rightarrow> output_domain \<Rightarrow> out_topology list" where
  "move_outputs s d = add_adjacent s (adjacent_values (od_adjacent d))
     (map (domain_output (se_trees s)) (filter (\<lambda>e. od_workspace e = od_workspace d) (se_domains s)))"

definition move_snapshot :: "session \<Rightarrow> domain_key \<Rightarrow> snapshot option" where
  "move_snapshot s source =
     (case find (\<lambda>d. domain_key_of d = source) (se_domains s) of
        None \<Rightarrow> None
      | Some d \<Rightarrow>
          let outs = move_outputs s d
          in if \<not> list_ex (\<lambda>o'. out_id o' = dk_output source) outs then None
             else Some \<lparr>snap_outputs = outs,
               snap_windows = filter (\<lambda>l. list_ex (\<lambda>o'. out_id o' = link_output l
                 \<and> out_workspace o' = link_workspace l) outs) (om_values (se_windows s))\<rparr>)"

subsection \<open>Identities and tree surgery\<close>

definition move_group_base :: "node_id \<Rightarrow> nat \<Rightarrow> string \<Rightarrow> string" where
  "move_group_base x rv r = ''grp-'' @ x @ ''-r'' @ decimal rv @ ''-'' @ r"

definition generate_move_group_id :: "node_id \<Rightarrow> nat \<Rightarrow> string \<Rightarrow> node_id set \<Rightarrow> node_id option" where
  "generate_move_group_id x rv r existing =
     (let base = move_group_base x rv r in
      if base \<notin> existing then Some base else group_id_loop base existing 1)"

fun find_group_id :: "node \<Rightarrow> node_id \<Rightarrow> bool" where
  "find_group_id (Leaf i) g \<longleftrightarrow> False"
| "find_group_id (Group i a cs sh) g \<longleftrightarrow> i = g \<or> list_ex (\<lambda>c. find_group_id c g) cs"

fun replace_node_by_id :: "node \<Rightarrow> node_id \<Rightarrow> node \<Rightarrow> node option"
  and replace_node_in :: "node list \<Rightarrow> node_id \<Rightarrow> node \<Rightarrow> node list option" where
  "replace_node_by_id (Leaf i) x new = (if i = x then Some new else None)"
| "replace_node_by_id (Group i a cs sh) x new =
     (if i = x then Some new else map_option (\<lambda>cs'. Group i a cs' sh) (replace_node_in cs x new))"
| "replace_node_in [] x new = None"
| "replace_node_in (c # cs) x new =
     (if ident c = x \<or> subtree_contains_id c x
      then map_option (\<lambda>u. u # cs) (replace_node_by_id c x new)
      else map_option (\<lambda>us. c # us) (replace_node_in cs x new))"

fun group_children_len :: "node \<Rightarrow> node_id \<Rightarrow> nat option"
  and group_children_len_in :: "node list \<Rightarrow> node_id \<Rightarrow> nat option" where
  "group_children_len (Leaf i) g = None"
| "group_children_len (Group i a cs sh) g = (if i = g then Some (length cs) else group_children_len_in cs g)"
| "group_children_len_in [] g = None"
| "group_children_len_in (c # cs) g =
     (case group_children_len c g of Some n \<Rightarrow> Some n | None \<Rightarrow> group_children_len_in cs g)"

text \<open>A new pair of the mover and another subtree.\<close>

definition pair_group :: "layout_policy \<Rightarrow> node_id \<Rightarrow> axis \<Rightarrow> bool \<Rightarrow> node \<Rightarrow> node \<Rightarrow> node" where
  "pair_group p g a mover_first mover other =
     Group g a (if mover_first then [mover, other] else [other, mover]) (lp_new_group_shares p)"

text \<open>\<open>?\<close> in a computation that may also not return.\<close>

definition attempt :: "'a option \<Rightarrow> ('a \<Rightarrow> 'b option option) \<Rightarrow> 'b option option" where
  "attempt m f = (case m of None \<Rightarrow> Some None | Some v \<Rightarrow> f v)"

subsection \<open>Applying one operation to the source tree\<close>

definition child_position :: "node list \<Rightarrow> node_id \<Rightarrow> nat option" where
  "child_position cs x = position (\<lambda>c. ident c = x) cs"

text \<open>What is left of the container without the mover: its last child, or the group itself.\<close>

definition wrap_remainder :: "node_id \<Rightarrow> axis \<Rightarrow> node list \<Rightarrow> nat list \<Rightarrow> nat \<Rightarrow> node option" where
  "wrap_remainder c ax cs sh pos =
     (case remove_at pos cs of
        [] \<Rightarrow> None
      | [d] \<Rightarrow> Some d
      | ds \<Rightarrow> Some (Group c ax ds (remove_at pos sh)))"

definition apply_wrap_perpendicular ::
  "layout_policy \<Rightarrow> node_id set \<Rightarrow> nat \<Rightarrow> node \<Rightarrow> node_id \<Rightarrow> direction \<Rightarrow> node_id \<Rightarrow> axis \<Rightarrow> node option option" where
  "apply_wrap_perpendicular p ids rv t x d c a =
     (if a \<noteq> axis_for_direction d \<or> \<not> find_group_id t c then Some None
      else attempt (find_group t c) (\<lambda>(cs, ax, cid).
        if ax = axis_for_direction d \<or> direct_parent_of_leaf t x \<noteq> Some c then Some None
        else attempt (child_position cs x) (\<lambda>pos.
          if \<not> is_leaf (cs ! pos) then Some None
          else attempt (find_group_shares t c) (\<lambda>sh.
            attempt (wrap_remainder cid ax cs sh pos) (\<lambda>remainder.
              Option.bind (generate_move_group_id x rv ''r1'' ids) (\<lambda>g.
                Some (replace_node_by_id t c (pair_group p g a (step_for d = - 1) (Leaf x) remainder))))))))"

text \<open>The positions of the mover and of its neighbour in the direction.\<close>

definition neighbor_positions :: "node list \<Rightarrow> node_id \<Rightarrow> node_id \<Rightarrow> direction \<Rightarrow> (nat \<times> nat) option" where
  "neighbor_positions cs x n d =
     Option.bind (child_position cs x) (\<lambda>iw.
     Option.bind (child_position cs n) (\<lambda>i.
       if \<bar>int iw - int i\<bar> \<noteq> 1 \<or> int i \<noteq> int iw + step_for d then None else Some (iw, i)))"

definition swap_in_group ::
  "(nat \<Rightarrow> nat \<Rightarrow> bool) \<Rightarrow> node \<Rightarrow> node_id \<Rightarrow> direction \<Rightarrow> node_id \<Rightarrow> node_id \<Rightarrow> node option" where
  "swap_in_group lengths_ok t x d c n =
     Option.bind (find_group t c) (\<lambda>(cs, ax, cid).
     Option.bind (find_group_shares t c) (\<lambda>sh.
       if \<not> lengths_ok (length cs) (length sh) \<or> ax \<noteq> axis_for_direction d
         \<or> direct_parent_of_leaf t x \<noteq> Some c then None
       else Option.bind (neighbor_positions cs x n d) (\<lambda>(iw, i).
         if \<not> is_leaf (cs ! iw) \<or> \<not> is_leaf (cs ! i) then None
         else swap_direct_children t c x n)))"

definition apply_swap_neighbor ::
  "node \<Rightarrow> node_id \<Rightarrow> direction \<Rightarrow> same_axis_move \<Rightarrow> rule \<Rightarrow> node_id \<Rightarrow> node_id \<Rightarrow> node option" where
  "apply_swap_neighbor t x d mode r c n =
     (if r = R2c \<and> mode = SwapWithNeighbor then swap_in_group (\<lambda>k m. 3 \<le> k \<and> m = k) t x d c n
      else if r \<noteq> R2a then None
      else swap_in_group (\<lambda>k m. k = 2 \<and> m = 2) t x d c n)"

definition apply_wrap_neighbor ::
  "layout_policy \<Rightarrow> node_id set \<Rightarrow> nat \<Rightarrow> node \<Rightarrow> node_id \<Rightarrow> direction \<Rightarrow> same_axis_move \<Rightarrow> node_id \<Rightarrow> node_id
    \<Rightarrow> bool \<Rightarrow> axis \<Rightarrow> node option option" where
  "apply_wrap_neighbor p ids rv t x d mode c n before a =
     (if a \<noteq> axis_for_direction d then Some None
      else attempt (find_group_full t c) (\<lambda>(cs, sh, cid, ax).
        if length cs < 3 \<or> ax \<noteq> axis_for_direction d \<or> ax \<noteq> a
          \<or> direct_parent_of_leaf t x \<noteq> Some c then Some None
        else attempt (neighbor_positions cs x n d) (\<lambda>(iw, i).
          if before \<noteq> (iw < i) \<or> mode = SwapWithNeighbor \<and> is_leaf (cs ! i) then Some None
          else attempt (checked_add_u64 (sh ! iw) (sh ! i)) (\<lambda>pair_share.
            if ident (cs ! iw) \<noteq> x then Some None
            else Option.bind (generate_move_group_id x rv ''r2c'' ids) (\<lambda>g.
              let first = min iw i; hi = max iw i;
                  wrapper = pair_group p g a before (cs ! iw) (cs ! i)
              in Some (replace_group_children t cid
                   (insert_at first wrapper (remove_at first (remove_at hi cs)))
                   (insert_at first pair_share (remove_at first (remove_at hi sh)))))))))"

text \<open>The neighbour in the direction with the target's identity, the container's axis, and the children
  and axis of the target group.\<close>

definition target_neighbor ::
  "node \<Rightarrow> node_id \<Rightarrow> direction \<Rightarrow> node_id \<Rightarrow> node_id \<Rightarrow> (node \<times> axis \<times> node list \<times> axis) option" where
  "target_neighbor t x d c tg =
     Option.bind (find_group t c) (\<lambda>(cs, ax, cid).
       if length cs \<noteq> 2 \<or> ax \<noteq> axis_for_direction d \<or> direct_parent_of_leaf t x \<noteq> Some c then None
       else Option.bind (child_position cs x) (\<lambda>iw.
         Option.bind (find_group t tg) (\<lambda>(ts, tax, tid).
         Option.bind (child_at cs (int iw + step_for d)) (\<lambda>neighbor.
           if ident neighbor \<noteq> tg then None else Some (neighbor, ax, ts, tax)))))"

definition apply_insert_into_group ::
  "layout_policy \<Rightarrow> node \<Rightarrow> node_id \<Rightarrow> direction \<Rightarrow> node_id \<Rightarrow> node_id \<Rightarrow> nat \<Rightarrow> insertion \<Rightarrow> node option" where
  "apply_insert_into_group p t x d c tg k ins =
     Option.bind (target_neighbor t x d c tg) (\<lambda>(neighbor, ax, ts, tax).
       if is_leaf neighbor \<or> length ts < 2 then None
       else if tax = ax \<and> (ins \<noteq> NearEdge \<or> k \<noteq> (if step_for d = 1 then 0 else length ts)) then None
       else if tax \<noteq> ax \<and> (odd (length ts) \<or> ins \<noteq> Midpoint \<or> k \<noteq> length ts div 2) then None
       else Option.bind (remove_leaf_from_tree p (Some t) x) (\<lambda>working.
         Option.bind (find_group working tg) (\<lambda>(us, uax, uid).
           if length us \<noteq> length ts \<or> length us < k then None
           else insert_leaf_into_group p working tg k (Leaf x))))"

definition apply_split_group_child ::
  "layout_policy \<Rightarrow> node_id set \<Rightarrow> nat \<Rightarrow> node \<Rightarrow> node_id \<Rightarrow> direction \<Rightarrow> node_id \<Rightarrow> node_id \<Rightarrow> node_id \<Rightarrow> nat
    \<Rightarrow> focused_side \<Rightarrow> axis \<Rightarrow> node option option" where
  "apply_split_group_child p ids rv t x d c tg tc k side a =
     (if a \<noteq> axis_for_direction d then Some None
      else attempt (target_neighbor t x d c tg) (\<lambda>(neighbor, ax, ts, tax).
        if tax = ax \<or> even (length ts) \<or> length ts < 3 \<or> k \<noteq> length ts div 2 \<or> ident (ts ! k) \<noteq> tc
          \<or> side \<noteq> (if step_for d = - 1 then First else Second) then Some None
        else attempt (remove_leaf_from_tree p (Some t) x) (\<lambda>working.
          attempt (find_group_full working tg) (\<lambda>(us, ush, uid, uax).
            if length us \<le> k \<or> ident (us ! k) \<noteq> tc then Some None
            else attempt (find_group_shares working tg) (\<lambda>sh.
              Option.bind (generate_move_group_id x rv ''r2b'' ids) (\<lambda>g.
                Some (replace_child_at working tg k
                  (pair_group p g a (side = First) (Leaf x) (us ! k)) (sh ! k))))))))"

text \<open>The binding of an escape to its container and parent.\<close>

definition escape_binds ::
  "node \<Rightarrow> node_id \<Rightarrow> direction \<Rightarrow> node_id \<Rightarrow> node_id \<Rightarrow> nat \<Rightarrow> nat option \<Rightarrow> escape_continuation \<Rightarrow> bool" where
  "escape_binds t x d c par k ins cont \<longleftrightarrow>
     (case (find_group t c, find_group t par) of
        (Some (cs, ax, cid), Some (ps, pax, pid)) \<Rightarrow>
          ax = axis_for_direction d \<and> direct_parent_of_leaf t x = Some c
          \<and> (case child_position cs x of
               None \<Rightarrow> False
             | Some iw \<Rightarrow> \<not> (0 \<le> int iw + step_for d \<and> int iw + step_for d < int (length cs)))
          \<and> child_position ps c = Some k \<and> parent_of_group t c = Some par
          \<and> (if pax = ax
             then cont = ContinueNone \<and> ins = Some (k + (if step_for d = 1 then 1 else 0))
             else cont = ContinueR1 \<and> ins = None \<and> pax \<noteq> axis_for_direction d)
      | _ \<Rightarrow> False)"

definition apply_escape_parent ::
  "layout_policy \<Rightarrow> node_id set \<Rightarrow> nat \<Rightarrow> node \<Rightarrow> node_id \<Rightarrow> direction \<Rightarrow> node_id \<Rightarrow> node_id \<Rightarrow> nat
    \<Rightarrow> nat option \<Rightarrow> escape_continuation \<Rightarrow> node option option" where
  "apply_escape_parent p ids rv t x d c par k ins cont =
     (if \<not> escape_binds t x d c par k ins cont then Some None
      else attempt (remove_leaf_from_tree p (Some t) x) (\<lambda>working.
        case cont of
          ContinueNone \<Rightarrow> attempt ins (\<lambda>index.
            if \<not> find_group_id working par then Some None
            else attempt (group_children_len working par) (\<lambda>post_len.
              if post_len < index then Some None
              else Some (insert_leaf_into_group p working par index (Leaf x))))
        | ContinueR1 \<Rightarrow> attempt (find_subtree working par) (\<lambda>parent_subtree.
            Option.bind (generate_move_group_id x rv ''r3r1'' ids) (\<lambda>g.
              Some (replace_node_by_id working par
                (pair_group p g (axis_for_direction d) (step_for d = - 1) (Leaf x) parent_subtree))))))"

text \<open>The operations that stay in the source tree.\<close>

fun apply_local ::
  "layout_policy \<Rightarrow> node_id set \<Rightarrow> nat \<Rightarrow> node \<Rightarrow> node_id \<Rightarrow> direction \<Rightarrow> same_axis_move \<Rightarrow> move_operation
    \<Rightarrow> node option option" where
  "apply_local p ids rv t x d mode (WrapPerpendicular r c a) = apply_wrap_perpendicular p ids rv t x d c a"
| "apply_local p ids rv t x d mode (SwapNeighbor r c n) = Some (apply_swap_neighbor t x d mode r c n)"
| "apply_local p ids rv t x d mode (InsertIntoGroup r c tg k ins) = Some (apply_insert_into_group p t x d c tg k ins)"
| "apply_local p ids rv t x d mode (SplitGroupChild r c tg tc k side a) =
     apply_split_group_child p ids rv t x d c tg tc k side a"
| "apply_local p ids rv t x d mode (WrapNeighbor r c n before a) = apply_wrap_neighbor p ids rv t x d mode c n before a"
| "apply_local p ids rv t x d mode (EscapeParent r c par k ins cont) =
     apply_escape_parent p ids rv t x d c par k ins cont"
| "apply_local p ids rv t x d mode (CrossOutput r tp tw k target) = Some None"

subsection \<open>Crossing to an adjacent output\<close>

text \<open>The mover sits at the root edge of its tree, or is the sole leaf.\<close>

definition cross_edge :: "node \<Rightarrow> node_id \<Rightarrow> direction \<Rightarrow> nat \<Rightarrow> bool" where
  "cross_edge t x d k \<longleftrightarrow>
     (if is_leaf t \<and> ident t = x then k = 0
      else \<not> is_leaf t
        \<and> (case find_group_full t (ident t) of
             None \<Rightarrow> False
           | Some (cs, sh, i, a) \<Rightarrow> k < length cs \<and> ident (cs ! k) = x
               \<and> k = (if step_for d = - 1 then 0 else length cs - 1) \<and> is_leaf (cs ! k)))"

definition cross_domains :: "output_domain list \<Rightarrow> domain_key \<Rightarrow> domain_key \<Rightarrow> direction \<Rightarrow> bool" where
  "cross_domains domains source target d \<longleftrightarrow> target \<noteq> source
     \<and> (case (find (\<lambda>e. domain_key_of e = source) domains, find (\<lambda>e. domain_key_of e = target) domains) of
          (Some sd, Some td) \<Rightarrow> od_adjacent sd d = Some (dk_output target)
            \<and> od_adjacent td (opposite_direction d) = Some (dk_output source)
        | _ \<Rightarrow> False)"

definition cross_focus :: "node \<Rightarrow> links \<Rightarrow> domain_key \<Rightarrow> node_id option \<Rightarrow> node_id option" where
  "cross_focus existing windows target focus =
     Option.bind focus (\<lambda>leaf. if leaf \<in> set (collect_leaves existing) \<and> leaf_linked windows leaf target
       then Some leaf else None)"

text \<open>The tree of the target domain with the mover attached.\<close>

definition cross_attach ::
  "layout_policy \<Rightarrow> node_id set \<Rightarrow> nat \<Rightarrow> node option \<Rightarrow> links \<Rightarrow> domain_key \<Rightarrow> node_id option \<Rightarrow> node_id
    \<Rightarrow> direction \<Rightarrow> cross_output_target \<Rightarrow> node option option" where
  "cross_attach p ids rv target_tree windows target focus x d kind =
     (case kind of
        TargetEmpty \<Rightarrow> Some (if target_tree \<noteq> None then None else Some (Leaf x))
      | TargetOccupied \<Rightarrow> attempt target_tree (\<lambda>existing.
          Option.bind (generate_move_group_id x rv ''r4'' ids) (\<lambda>g.
            case cross_focus existing windows target focus of
              Some f \<Rightarrow> Some (nest_focused_ordered p existing f (Leaf x) g (axis_for_direction d) (step_for d = 1))
            | None \<Rightarrow> Some (Some (pair_group p g (axis_for_direction d) (step_for d = 1) (Leaf x) existing)))))"

type_synonym applied_move = "trees \<times> links \<times> domain_key \<times> node_id"

definition apply_cross_output ::
  "layout_policy \<Rightarrow> trees \<Rightarrow> links \<Rightarrow> output_domain list \<Rightarrow> domain_key \<Rightarrow> node \<Rightarrow> node_id \<Rightarrow> direction \<Rightarrow> nat
    \<Rightarrow> node_id option \<Rightarrow> domain_key \<Rightarrow> nat \<Rightarrow> cross_output_target \<Rightarrow> applied_move option option" where
  "apply_cross_output p trees windows domains source t x d rv focus target k kind =
     (if \<not> cross_domains domains source target d \<or> \<not> cross_edge t x d k then Some None
      else
        let trees' = om_insert source (remove_leaf_from_tree p (Some t) x) trees
        in Option.bind (cross_attach p (all_node_ids trees) rv (tree_at trees' target) windows target focus x d kind)
          (\<lambda>attached. Some (
             Option.bind attached (\<lambda>new_target.
             Option.bind (focused_window_for windows x source) (\<lambda>mover.
               Some (om_insert target (Some new_target) trees',
                 om_insert mover \<lparr>link_window = mover, link_leaf = x, link_output = dk_output target,
                   link_workspace = dk_workspace target\<rparr> windows,
                 target, x))))))"

subsection \<open>Applying a plan\<close>

fun canonical_rule :: "move_operation \<Rightarrow> rule \<Rightarrow> bool" where
  "canonical_rule (WrapPerpendicular r' c a) r \<longleftrightarrow> r = R1"
| "canonical_rule (SwapNeighbor r' c n) r \<longleftrightarrow> r = R2a \<or> r = R2c"
| "canonical_rule (InsertIntoGroup r' c tg k ins) r \<longleftrightarrow> r = R2b"
| "canonical_rule (SplitGroupChild r' c tg tc k side a) r \<longleftrightarrow> r = R2b"
| "canonical_rule (WrapNeighbor r' c n before a) r \<longleftrightarrow> r = R2c"
| "canonical_rule (EscapeParent r' c par k ins cont) r \<longleftrightarrow> r = R3"
| "canonical_rule (CrossOutput r' tp tw k target) r \<longleftrightarrow> r = R4"

text \<open>The frozen bindings: the plan is the canonical plan of its operation, for this mover.\<close>

definition plan_binds :: "links \<Rightarrow> domain_key \<Rightarrow> node_id \<Rightarrow> direction \<Rightarrow> move_plan \<Rightarrow> bool" where
  "plan_binds windows source x d plan \<longleftrightarrow>
     (let op = mp_operation plan; intent = mp_intent plan
      in mp_rule plan = op_rule op \<and> mp_required_capability plan = op_required_capability op
       \<and> mp_preconditions plan = op_preconditions op \<and> length (mp_preconditions plan) \<le> max_preconditions
       \<and> AdapterMustVerifyPostconditions \<in> set (mp_preconditions plan) \<and> canonical_rule op (mp_rule plan)
       \<and> mi_source_output intent = dk_output source \<and> mi_focused_leaf intent = x \<and> mi_direction intent = d
       \<and> focused_window_for windows x source = Some (mi_focused_window intent))"

definition apply_move_operation ::
  "layout_policy \<Rightarrow> trees \<Rightarrow> links \<Rightarrow> output_domain list \<Rightarrow> domain_key \<Rightarrow> node_id \<Rightarrow> direction \<Rightarrow> move_plan
    \<Rightarrow> nat \<Rightarrow> node_id option \<Rightarrow> applied_move option option" where
  "apply_move_operation p trees windows domains source x d plan rv focus =
     (if \<not> plan_binds windows source x d plan then Some None
      else attempt (tree_at trees source) (\<lambda>t.
        case mp_operation plan of
          CrossOutput r tp tw k kind \<Rightarrow>
            apply_cross_output p trees windows domains source t x d rv focus (DomainKey tp tw) k kind
        | op \<Rightarrow>
            Option.bind (apply_local p (all_node_ids trees) rv t x d (mi_same_axis_move (mp_intent plan)) op)
              (\<lambda>updated. Some (map_option (\<lambda>t'. (om_insert source (Some t') trees, windows, source, x)) updated))))"

definition move_target :: "move_operation \<Rightarrow> domain_key option" where
  "move_target op = (case op of CrossOutput r tp tw k kind \<Rightarrow> Some (DomainKey tp tw) | _ \<Rightarrow> None)"

definition move_touches_only_allowed ::
  "trees \<Rightarrow> trees \<Rightarrow> domain_key \<Rightarrow> move_operation \<Rightarrow> output_domain list \<Rightarrow> bool" where
  "move_touches_only_allowed before after source op domains \<longleftrightarrow>
     (let changed = filter (\<lambda>k. om_get after k \<noteq> om_get before k) (om_keys before)
      in \<not> list_ex (\<lambda>k. \<not> om_contains before k) (om_keys after)
       \<and> (case move_target op of
            Some target \<Rightarrow> find (\<lambda>d. domain_key_of d = target) domains \<noteq> None \<and> target \<noteq> source
              \<and> length changed = 2 \<and> source \<in> set changed \<and> target \<in> set changed
          | None \<Rightarrow> length changed = 1 \<and> source \<in> set changed))"

subsection \<open>The proposal\<close>

record session_move_plan =
  sm_dispatch :: move_dispatch
  sm_snapshot :: session_snapshot
  sm_focus_domain :: domain_key
  sm_focus_leaf :: node_id
  sm_geometry :: "desired_geometry list"

type_synonym move_decision = "(move_plan, move_dispatch, session_move_plan) decision"

definition move_desired :: "session \<Rightarrow> applied_move \<Rightarrow> pending_desired" where
  "move_desired s applied =
     (let (trees, windows, fd, fl) = applied
      in (desired_of s)\<lparr>pe_trees := trees, pe_windows := windows, pe_focused_domain := Some fd,
        pe_focused_leaf := Some fl,
        pe_last_active := updated_last_active (se_last_active s) (Some fd) (Some fl) trees windows\<rparr>)"

definition session_move_plan_of ::
  "session \<Rightarrow> applied_move \<Rightarrow> desired_geometry list \<Rightarrow> move_dispatch \<Rightarrow> session_move_plan" where
  "session_move_plan_of s applied geometry dispatch =
     (let (trees, windows, fd, fl) = applied
      in \<lparr>sm_dispatch = dispatch, sm_snapshot = snapshot_for (se_domains s) trees windows,
        sm_focus_domain = fd, sm_focus_leaf = fl, sm_geometry = geometry\<rparr>)"

definition move_stage ::
  "session \<Rightarrow> domain_key \<Rightarrow> move_plan \<Rightarrow> applied_move \<Rightarrow> observed_window list \<Rightarrow> move_decision" where
  "move_stage s source plan applied ws =
     (let (trees, windows, fd, fl) = applied;
          affected = (case move_target (mp_operation plan) of Some target \<Rightarrow> [source, target] | None \<Rightarrow> [source])
      in if \<not> move_touches_only_allowed (se_trees s) trees source (mp_operation plan) (se_domains s)
         then Inl CrossDomainMismatch
         else if \<not> validate_topology (se_domains s) trees windows (se_exceptions s) (Some fd) (Some fl)
         then Inl RfMalformedTopology
         else (case covering_geometry s trees windows affected ws of
             None \<Rightarrow> Inl RfMalformedTopology
           | Some geometry \<Rightarrow> Inr (plan, move_desired s applied, session_move_plan_of s applied geometry)))"

definition move_intent_of ::
  "domain_key \<Rightarrow> node_id \<Rightarrow> window_id \<Rightarrow> direction \<Rightarrow> same_axis_move \<Rightarrow> move_intent" where
  "move_intent_of source x window d mode = \<lparr>mi_source_output = dk_output source, mi_focused_leaf = x,
     mi_focused_window = window, mi_direction = d, mi_same_axis_move = mode\<rparr>"

text \<open>The plan, applied and staged.\<close>

definition move_planned ::
  "session \<Rightarrow> domain_key \<Rightarrow> node_id \<Rightarrow> direction \<Rightarrow> move_plan \<Rightarrow> session_observation \<Rightarrow> move_decision option" where
  "move_planned s source x d plan obs =
     Option.bind (apply_move_operation (se_policy s) (se_trees s) (se_windows s) (se_domains s) source x d plan
         (ob_revision (so_observation obs)) (Option.bind (move_target (mp_operation plan)) (remembered_leaf s)))
       (\<lambda>applied. Some (case applied of
          None \<Rightarrow> Inl RfMalformedTopology
        | Some a \<Rightarrow> move_stage s source plan a (so_windows obs)))"

definition move_guard :: "session \<Rightarrow> domain_key \<Rightarrow> window_id \<Rightarrow> session_observation \<Rightarrow> refusal_kind option" where
  "move_guard s domain window obs =
     (if find (\<lambda>d. domain_key_of d = domain) (se_domains s) = None then Some UnknownDomain
      else if \<not> validate_current_topology s then Some RfMalformedTopology
      else if \<not> valid_observed_shapes (so_windows obs) then Some MalformedInput
      else if \<not> all_homed s (so_windows obs) then Some CrossDomainMismatch
      else if observed_ids obs \<noteq> known_ids s then Some PartialObservation
      else if \<not> observed_known_match s (so_windows obs) None then Some PartialObservation
      else if window = [] then Some MalformedInput
      else if \<not> known_window (se_windows s) (se_exceptions s) window then Some UnknownWindow
      else None)"

definition move_decision_at ::
  "session \<Rightarrow> domain_key \<Rightarrow> window_id \<Rightarrow> node_id \<Rightarrow> direction \<Rightarrow> same_axis_move \<Rightarrow> session_observation
    \<Rightarrow> capabilities \<Rightarrow> move_decision option" where
  "move_decision_at s domain window x d mode obs caps =
     (case move_snapshot s domain of
        None \<Rightarrow> Some (Inl RfMalformedTopology)
      | Some snapshot \<Rightarrow>
          (case lp_plan_move (se_policy s) snapshot (move_intent_of domain x window d mode) caps of
             Planned plan \<Rightarrow> move_planned s domain x d plan obs
           | Noop reason \<Rightarrow> Some (Inl PlannerNoop)
           | Rejected kind message \<Rightarrow>
               Some (Inl (if kind = UnsupportedTopology then RfUnsupportedCapability else PlannerRejected))))"

definition move_decision ::
  "session \<Rightarrow> domain_key \<Rightarrow> window_id \<Rightarrow> direction \<Rightarrow> same_axis_move \<Rightarrow> session_observation \<Rightarrow> capabilities
    \<Rightarrow> move_decision option" where
  "move_decision s domain window d mode obs caps =
     (case move_guard s domain window obs of
        Some kind \<Rightarrow> Some (Inl kind)
      | None \<Rightarrow>
          (case tiled_focus True s domain window of
             Inl kind \<Rightarrow> Some (Inl kind)
           | Inr x \<Rightarrow> move_decision_at s domain window x d mode obs caps))"

definition propose_move_with_same_axis ::
  "session \<Rightarrow> domain_key \<Rightarrow> window_id \<Rightarrow> direction \<Rightarrow> session_observation \<Rightarrow> correlation_id \<Rightarrow> capabilities
    \<Rightarrow> same_axis_move \<Rightarrow> ((session_error + session_move_plan) \<times> session) option" where
  "propose_move_with_same_axis s domain window d obs corr caps mode =
     (case ready_error s of
        Some e \<Rightarrow> Some (Inl e, s)
      | None \<Rightarrow> map_option (\<lambda>decision. stage (\<lambda>plan. propose plan (so_observation obs) corr caps) decision s)
          (move_decision s domain window d mode obs caps))"

definition propose_move ::
  "session \<Rightarrow> domain_key \<Rightarrow> window_id \<Rightarrow> direction \<Rightarrow> session_observation \<Rightarrow> correlation_id \<Rightarrow> capabilities
    \<Rightarrow> ((session_error + session_move_plan) \<times> session) option" where
  "propose_move s domain window d obs corr caps =
     propose_move_with_same_axis s domain window d obs corr caps GroupWithNeighbor"

end
