(* ===== verification/Session_Move_Tree.thy ===== *)
theory Session_Move_Tree
  imports Session_Move
begin

text \<open>
  What the tree operations of a move do to a well-formed tree: where groups are found, what a removal
  leaves in place, and the order of the leaves, which only ever changes by moving one leaf.
\<close>

subsection \<open>Groups of a tree with distinct identities\<close>

lemma find_group_full_subnode:
  "find_group_full t g = Some (cs, sh, i, a) \<Longrightarrow> i = g \<and> Group g a cs sh \<in> set (subnodes t)"
  "find_group_full_in ts g = Some (cs, sh, i, a) \<Longrightarrow> i = g \<and> (\<exists>t \<in> set ts. Group g a cs sh \<in> set (subnodes t))"
  by (induction t g and ts g rule: find_group_full_find_group_full_in.induct)
    (auto split: if_splits option.splits)

lemma child_split:
  assumes "c \<in> set cs" "distinct (concat (map node_ids cs))"
  obtains pre post where "cs = pre @ c # post" "set (node_ids c) \<inter> set (concat (map node_ids pre)) = {}"
    "set (node_ids c) \<inter> set (concat (map node_ids post)) = {}"
proof -
  from assms(1) obtain pre post where cs: "cs = pre @ c # post" by (meson split_list)
  show thesis by (rule that [OF cs]) (use assms(2) in \<open>auto simp: cs\<close>)
qed

lemma subnode_find_group_full:
  "distinct (node_ids t) \<Longrightarrow> Group g a cs sh \<in> set (subnodes t) \<Longrightarrow> find_group_full t g = Some (cs, sh, g, a)"
proof (induction t)
  case (Leaf i)
  then show ?case by simp
next
  case (Group i b ds dh)
  show ?case
  proof (cases "Group i b ds dh = Group g a cs sh")
    case False
    then obtain c where c: "c \<in> set ds" "Group g a cs sh \<in> set (subnodes c)" using Group.prems(2) by auto
    have d: "distinct (concat (map node_ids ds))" "i \<notin> set (concat (map node_ids ds))"
      using Group.prems(1) unfolding node_ids.simps distinct.simps by blast+
    obtain pre post where ds: "ds = pre @ c # post" "set (node_ids c) \<inter> set (concat (map node_ids pre)) = {}"
      "set (node_ids c) \<inter> set (concat (map node_ids post)) = {}"
      using child_split [OF c(1) d(1)] .
    have g: "g \<in> set (node_ids c)" using c(2) subnode_group_id group_ids_subset_node_ids by blast
    then have "g \<notin> set (concat (map node_ids pre))" "g \<notin> set (concat (map node_ids post))" "i \<noteq> g"
      using ds d(2) by auto
    moreover have "find_group_full c g = Some (cs, sh, g, a)"
      using Group.IH [OF c(1)] c d(1) by (auto dest: distinct_concat_member simp del: distinct_concat_iff)
    ultimately show ?thesis using find_in_split [of g pre post c] by (simp add: ds(1))
  qed simp
qed

lemma subnode_group_unique:
  "distinct (node_ids t) \<Longrightarrow> Group g a cs sh \<in> set (subnodes t) \<Longrightarrow> Group g b ds dh \<in> set (subnodes t)
    \<Longrightarrow> b = a \<and> ds = cs \<and> dh = sh"
  using subnode_find_group_full [of t g a cs sh] subnode_find_group_full [of t g b ds dh] by simp

lemma find_group_iff:
  assumes "distinct (node_ids t)"
  shows "find_group_full t g = Some (cs, sh, i, a) \<longleftrightarrow> i = g \<and> Group g a cs sh \<in> set (subnodes t)"
    "find_group t g = Some (cs, a, i) \<longleftrightarrow> i = g \<and> (\<exists>sh. Group g a cs sh \<in> set (subnodes t))"
  using find_group_full_subnode(1) subnode_find_group_full [OF assms]
  by (fastforce simp: find_group_eq)+

lemma find_group_shares_subnode:
  "distinct (node_ids t) \<Longrightarrow> Group g a cs sh \<in> set (subnodes t) \<Longrightarrow> find_group_shares t g = Some sh"
  by (simp add: find_group_shares_eq subnode_find_group_full)

lemma find_group_id_iff: "find_group_id t g \<longleftrightarrow> g \<in> set (group_ids t)"
  by (induction t g rule: find_group_id.induct) (auto simp: list_ex_iff)

lemma group_children_len_eq:
  "group_children_len t g = map_option (\<lambda>(cs, sh, i, a). length cs) (find_group_full t g)"
  "group_children_len_in ts g = map_option (\<lambda>(cs, sh, i, a). length cs) (find_group_full_in ts g)"
  by (induction t g and ts g rule: find_group_full_find_group_full_in.induct) (auto split: option.splits)

lemma group_id_subnode: "g \<in> set (group_ids t) \<Longrightarrow> \<exists>a cs sh. Group g a cs sh \<in> set (subnodes t)"
proof (induction t)
  case (Group i b ds dh)
  then show ?case by (cases "g = i") (force, fastforce)
qed simp

subsection \<open>Parents\<close>

lemma leaf_ident: "ident c = x \<and> is_leaf c \<longleftrightarrow> c = Leaf x"
  by (cases c) auto

lemma leaf_child: "list_ex (\<lambda>c. ident c = x \<and> is_leaf c) cs \<longleftrightarrow> Leaf x \<in> set cs"
  by (auto simp: list_ex_iff leaf_ident)

lemma leaf_child_leaves: "Leaf x \<in> set cs \<Longrightarrow> x \<in> set (concat (map leaves cs))"
  by force

lemma direct_parent_subnode:
  "direct_parent_of_leaf t x = Some c \<Longrightarrow> \<exists>a cs sh. Group c a cs sh \<in> set (subnodes t) \<and> Leaf x \<in> set cs"
  "direct_parent_in ts x = Some c \<Longrightarrow> \<exists>t \<in> set ts. \<exists>a cs sh. Group c a cs sh \<in> set (subnodes t) \<and> Leaf x \<in> set cs"
proof (induction t x and ts x rule: direct_parent_of_leaf_direct_parent_in.induct)
  case (2 i a cs sh x)
  then show ?case by (fastforce simp: leaf_child split: if_splits)
qed (auto split: option.splits)

lemma direct_parent_absent:
  "x \<notin> set (leaves t) \<Longrightarrow> direct_parent_of_leaf t x = None"
  "x \<notin> set (concat (map leaves ts)) \<Longrightarrow> direct_parent_in ts x = None"
proof (induction t x and ts x rule: direct_parent_of_leaf_direct_parent_in.induct)
  case (2 i a cs sh x)
  then show ?case using leaf_child_leaves by (auto simp: leaf_child)
qed auto

lemma direct_parent_in_split:
  assumes "x \<notin> set (concat (map leaves pre))" "x \<notin> set (concat (map leaves post))"
  shows "direct_parent_in (pre @ c # post) x = direct_parent_of_leaf c x"
  using assms(1)
proof (induction pre)
  case Nil
  then show ?case using direct_parent_absent(2) [OF assms(2)] by (simp split: option.splits)
next
  case (Cons d pre)
  then show ?case by (simp add: direct_parent_absent(1))
qed

lemma distinct_child_leaves:
  assumes "distinct (concat (map leaves cs))" "c \<in> set cs" "d \<in> set cs" "x \<in> set (leaves c)" "x \<in> set (leaves d)"
  shows "c = d"
proof -
  obtain pre post where cs: "cs = pre @ c # post" using assms(2) by (meson split_list)
  then show ?thesis using assms(1,3-5) by auto
qed

lemma direct_parent_of_child:
  "distinct (leaves t) \<Longrightarrow> Group c a cs sh \<in> set (subnodes t) \<Longrightarrow> Leaf x \<in> set cs
    \<Longrightarrow> direct_parent_of_leaf t x = Some c"
proof (induction t)
  case (Leaf i)
  then show ?case by simp
next
  case (Group i b ds dh)
  have d: "distinct (concat (map leaves ds))" using Group.prems(1) by (simp only: leaves.simps)
  show ?case
  proof (cases "Group c a cs sh = Group i b ds dh")
    case True
    then show ?thesis using Group.prems(3) by (simp add: leaf_child)
  next
    case False
    then obtain e where e: "e \<in> set ds" "Group c a cs sh \<in> set (subnodes e)" using Group.prems(2) by auto
    have x: "x \<in> set (leaves e)" using leaves_subnode [OF e(2)] leaf_child_leaves [OF Group.prems(3)] by auto
    have "Leaf x \<notin> set ds"
    proof
      assume "Leaf x \<in> set ds"
      from distinct_child_leaves [OF d e(1) this x] e(2) show False by simp
    qed
    obtain pre post where ds: "ds = pre @ e # post" using e(1) by (meson split_list)
    have "x \<notin> set (concat (map leaves pre))" "x \<notin> set (concat (map leaves post))" "distinct (leaves e)"
      using d x by (auto simp: ds)
    with Group.IH [OF e(1) _ e(2) Group.prems(3)] \<open>Leaf x \<notin> set ds\<close> show ?thesis
      using direct_parent_in_split [of x pre post e] by (simp add: ds leaf_child)
  qed
qed

lemma parent_child: "list_ex (\<lambda>c. ident c = g) cs \<longleftrightarrow> g \<in> ident ` set cs"
  by (auto simp: list_ex_iff)

lemma parent_of_group_subnode:
  "parent_of_group t g = Some r \<Longrightarrow> \<exists>a cs sh. Group r a cs sh \<in> set (subnodes t) \<and> g \<in> ident ` set cs"
  "parent_of_group_in ts g = Some r \<Longrightarrow> \<exists>t \<in> set ts. \<exists>a cs sh. Group r a cs sh \<in> set (subnodes t) \<and> g \<in> ident ` set cs"
proof (induction t g and ts g rule: parent_of_group_parent_of_group_in.induct)
  case (2 i a cs sh g)
  show ?case
  proof (cases "g \<in> ident ` set cs")
    case True
    with 2(2) show ?thesis by (intro exI [of _ a] exI [of _ cs] exI [of _ sh]) (simp add: parent_child)
  next
    case False
    with 2(2) have "parent_of_group_in cs g = Some r" by (simp add: parent_child)
    from 2(1) [OF _ this] False show ?thesis by (fastforce simp: parent_child)
  qed
qed (auto split: option.splits)

lemma ident_child_ids: "g \<in> ident ` set cs \<Longrightarrow> g \<in> set (concat (map node_ids cs))"
  by (erule imageE) (simp, metis ident_in_node_ids)

lemma parent_of_group_absent:
  "g \<notin> set (node_ids t) \<Longrightarrow> parent_of_group t g = None"
  "g \<notin> set (concat (map node_ids ts)) \<Longrightarrow> parent_of_group_in ts g = None"
proof (induction t g and ts g rule: parent_of_group_parent_of_group_in.induct)
  case (2 i a cs sh g)
  then have "g \<notin> ident ` set cs" using ident_child_ids [of g cs] by fastforce
  with 2 show ?case by (simp add: parent_child)
qed auto

lemma parent_of_group_append: "parent_of_group_in (xs @ ys) g =
    (case parent_of_group_in xs g of Some r \<Rightarrow> Some r | None \<Rightarrow> parent_of_group_in ys g)"
  by (induction xs) (auto split: option.splits)

lemma subnode_ids: "n \<in> set (subnodes t) \<Longrightarrow> set (node_ids n) \<subseteq> set (node_ids t)"
  by (induction t) auto

lemma proper_subnode_ids:
  assumes "Group i a cs sh \<in> set (subnodes t)" "c \<in> set cs" "distinct (node_ids t)"
  shows "ident c \<in> set (node_ids t)" "ident c \<noteq> ident t"
proof -
  have c: "ident c \<in> set (concat (map node_ids cs))" using assms(2) by (intro ident_child_ids imageI)
  then show "ident c \<in> set (node_ids t)" using subnode_ids [OF assms(1)] by auto
  show "ident c \<noteq> ident t"
  proof (cases t)
    case (Group j b ds dh)
    have "ident c \<in> set (concat (map node_ids ds))"
    proof (cases "Group i a cs sh = t")
      case True
      with c Group show ?thesis by simp
    next
      case False
      then obtain e where "e \<in> set ds" "Group i a cs sh \<in> set (subnodes e)" using assms(1) Group by auto
      with subnode_ids [of "Group i a cs sh" e] c show ?thesis by auto
    qed
    with assms(3) show ?thesis unfolding Group node_ids.simps distinct.simps by auto
  qed (use assms(1) in simp)
qed

lemma parent_of_child:
  "distinct (node_ids t) \<Longrightarrow> Group i a cs sh \<in> set (subnodes t) \<Longrightarrow> c \<in> set cs
    \<Longrightarrow> parent_of_group t (ident c) = Some i"
proof (induction t)
  case (Leaf i)
  then show ?case by simp
next
  case (Group j b ds dh)
  have d: "distinct (concat (map node_ids ds))"
    using Group.prems(1) unfolding node_ids.simps distinct.simps by blast
  show ?case
  proof (cases "Group i a cs sh = Group j b ds dh")
    case True
    then show ?thesis using Group.prems(3) by (simp add: parent_child)
  next
    case False
    then obtain e where e: "e \<in> set ds" "Group i a cs sh \<in> set (subnodes e)" using Group.prems(2) by auto
    obtain pre post where ds: "ds = pre @ e # post" "set (node_ids e) \<inter> set (concat (map node_ids pre)) = {}"
      "set (node_ids e) \<inter> set (concat (map node_ids post)) = {}"
      using child_split [OF e(1) d] .
    have de: "distinct (node_ids e)" using d unfolding ds(1) by simp
    note c = proper_subnode_ids [OF e(2) Group.prems(3) de]
    have outside: "ident c \<notin> set (concat (map node_ids pre))" "ident c \<notin> set (concat (map node_ids post))"
      using c(1) ds(2,3) by blast+
    then have "ident c \<notin> ident ` set ds"
      using c(2) ident_child_ids [of "ident c" pre] ident_child_ids [of "ident c" post] by (auto simp: ds(1))
    moreover have "parent_of_group_in ds (ident c) = Some i"
      using Group.IH [OF e(1) de e(2) Group.prems(3)] parent_of_group_absent(2) [OF outside(1)]
      by (simp add: ds(1) parent_of_group_append)
    ultimately show ?thesis by (simp add: parent_child)
  qed
qed

lemma find_subtree_absent:
  "x \<notin> set (node_ids t) \<Longrightarrow> find_subtree t x = None"
  "x \<notin> set (concat (map node_ids ts)) \<Longrightarrow> find_subtree_in ts x = None"
  by (induction t x and ts x rule: find_subtree_find_subtree_in.induct) auto

lemma find_subtree_append: "find_subtree_in (xs @ ys) x =
    (case find_subtree_in xs x of Some r \<Rightarrow> Some r | None \<Rightarrow> find_subtree_in ys x)"
  by (induction xs) (auto split: option.splits)

lemma find_subtree_group:
  "distinct (node_ids t) \<Longrightarrow> Group g a cs sh \<in> set (subnodes t) \<Longrightarrow> find_subtree t g = Some (Group g a cs sh)"
proof (induction t)
  case (Leaf i)
  then show ?case by simp
next
  case (Group i b ds dh)
  show ?case
  proof (cases "Group i b ds dh = Group g a cs sh")
    case False
    then obtain c where c: "c \<in> set ds" "Group g a cs sh \<in> set (subnodes c)" using Group.prems(2) by auto
    have d: "distinct (concat (map node_ids ds))" "i \<notin> set (concat (map node_ids ds))"
      using Group.prems(1) unfolding node_ids.simps distinct.simps by blast+
    obtain pre post where ds: "ds = pre @ c # post" "set (node_ids c) \<inter> set (concat (map node_ids pre)) = {}"
      "set (node_ids c) \<inter> set (concat (map node_ids post)) = {}"
      using child_split [OF c(1) d(1)] .
    have g: "g \<in> set (node_ids c)" using c(2) subnode_group_id group_ids_subset_node_ids by blast
    then have "g \<notin> set (concat (map node_ids pre))" "i \<noteq> g" using ds d(2) by auto
    moreover have "find_subtree c g = Some (Group g a cs sh)"
      using Group.IH [OF c(1) _ c(2)] d(1) by (simp add: ds(1))
    ultimately show ?thesis by (simp add: ds(1) find_subtree_append find_subtree_absent(2))
  qed simp
qed

subsection \<open>Replacing a subtree\<close>

text \<open>An update replaces the leaves of its group in place.\<close>

lemma update_group_context:
  assumes "distinct (node_ids t)" "Group g a cs sh \<in> set (subnodes t)" "f a cs sh = Some u"
  shows "\<exists>t' pre post. update_group g f t = Some t' \<and> leaves t = pre @ concat (map leaves cs) @ post
    \<and> leaves t' = pre @ leaves u @ post \<and> u \<in> set (subnodes t')"
  using assms(1,2)
proof (induction t)
  case (Leaf i)
  then show ?case by simp
next
  case (Group i b ds dh)
  show ?case
  proof (cases "Group g a cs sh = Group i b ds dh")
    case True
    then show ?thesis using assms(3) by (intro exI [of _ u] exI [of _ "[]"]) simp
  next
    case False
    then obtain e where e: "e \<in> set ds" "Group g a cs sh \<in> set (subnodes e)" using Group.prems(2) by auto
    have d: "distinct (concat (map node_ids ds))" "i \<notin> set (concat (map node_ids ds))"
      using Group.prems(1) unfolding node_ids.simps distinct.simps by blast+
    obtain p q where ds: "ds = p @ e # q" "set (node_ids e) \<inter> set (concat (map node_ids p)) = {}"
      "set (node_ids e) \<inter> set (concat (map node_ids q)) = {}"
      using child_split [OF e(1) d(1)] .
    have g: "g \<in> set (node_ids e)" using e(2) subnode_group_id group_ids_subset_node_ids by blast
    then have "g \<notin> set (concat (map node_ids p))" "i \<noteq> g" using ds d(2) by auto
    moreover from Group.IH [OF e(1) _ e(2)] d(1) obtain e' pre post where
      "update_group g f e = Some e'" "leaves e = pre @ concat (map leaves cs) @ post"
      "leaves e' = pre @ leaves u @ post" "u \<in> set (subnodes e')" by (auto simp: ds(1))
    ultimately show ?thesis
      using update_in_split [OF _ g, of p f q]
      by (intro exI [of _ "Group i b (p @ e' # q) dh"] exI [of _ "concat (map leaves p) @ pre"]
          exI [of _ "post @ concat (map leaves q)"]) (simp add: ds(1))
  qed
qed

text \<open>One leaf moves: the other leaves keep their order.\<close>

definition others :: "node_id \<Rightarrow> node \<Rightarrow> node_id list" where
  "others x t = filter (\<lambda>y. y \<noteq> x) (leaves t)"

text \<open>The outcome of an update of a well-formed tree by a well-formed subtree with the same other leaves.\<close>

lemma update_group_result:
  assumes t: "wf_node t" and g: "Group g a cs sh \<in> set (subnodes t)" and f: "f a cs sh = Some u"
    and u: "wf_groups u" "filter (\<lambda>y. y \<noteq> x) (leaves u) = filter (\<lambda>y. y \<noteq> x) (concat (map leaves cs))"
    and ids: "mset (node_ids u) \<subseteq># mset (node_ids (Group g a cs sh)) + mset new"
      "distinct new" "[] \<notin> set new" "set new \<inter> set (node_ids t) = {}"
  shows "\<exists>t'. update_group g f t = Some t' \<and> wf_node t' \<and> others x t' = others x t \<and> u \<in> set (subnodes t')
    \<and> mset (node_ids t') \<subseteq># mset (node_ids t) + mset new"
proof -
  have w: "wf_groups t" "distinct (node_ids t)" "[] \<notin> set (node_ids t)" using t by (simp_all add: wf_node_def)
  from update_group_context [OF w(2) g, of f] f obtain t' pre post where t': "update_group g f t = Some t'"
    "leaves t = pre @ concat (map leaves cs) @ post" "leaves t' = pre @ leaves u @ post" "u \<in> set (subnodes t')"
    by blast
  from update_group_Some [OF t'(1) w(2,1)] g f have ms:
    "mset (node_ids t') + mset (node_ids (Group g a cs sh)) = mset (node_ids t) + mset (node_ids u)"
    "wf_groups u \<longrightarrow> wf_groups t'"
    using subnode_find_group_full [OF w(2) g] by (metis option.inject prod.inject)+
  have sub: "mset (node_ids t') \<subseteq># mset (node_ids t) + mset new"
  proof -
    have "mset (node_ids t') + mset (node_ids (Group g a cs sh))
        \<subseteq># (mset (node_ids t) + mset new) + mset (node_ids (Group g a cs sh))"
      using ids(1) unfolding ms(1) by (metis add.assoc add.commute subset_mset.add_left_mono)
    then show ?thesis by (simp only: subset_mset.add_le_cancel_right)
  qed
  have "distinct (node_ids t @ new)" using w(2) ids(2,4) by auto
  then have "distinct (node_ids t')" using sub distinct_submset [of "node_ids t'" "node_ids t @ new"] by simp
  moreover have "[] \<notin> set (node_ids t')"
    using set_mset_mono [OF sub] w(3) ids(3) by auto
  ultimately show ?thesis using t' ms(2) u sub by (auto simp: others_def wf_node_def)
qed

lemma replace_node_update:
  "c \<notin> set (leaves t) \<Longrightarrow> replace_node_by_id t c new = update_group c (\<lambda>_ _ _. Some new) t"
  "c \<notin> set (concat (map leaves ts)) \<Longrightarrow> replace_node_in ts c new = update_group_in c (\<lambda>_ _ _. Some new) ts"
  by (induction t c new and ts c new rule: replace_node_by_id_replace_node_in.induct) auto

subsection \<open>What a removal leaves in place\<close>

context share_policy
begin

text \<open>The removal in a group: the mover's slot goes, or the child that holds it shrinks.\<close>

lemma remove_in_group:
  assumes "wf_groups (Group i b ds dh)" "distinct (leaves (Group i b ds dh))" "ds = pre @ c # post"
    "x \<in> set (leaves c)" "remove_node p (Group i b ds dh) x = Some t'"
  shows "if c = Leaf x
    then (\<exists>d. pre @ post = [d] \<and> t' = d) \<or> (\<exists>out. t' = Group i b (pre @ post) out)
    else \<exists>c'. remove_node p c x = Some c' \<and> t' = Group i b (pre @ c' # post) dh"
proof -
  have out: "x \<notin> set (concat (map leaves pre))" "x \<notin> set (concat (map leaves post))"
    using assms(2,4) by (auto simp: assms(3))
  note split = remove_children_split [OF out, of p c 0]
  show ?thesis
  proof (cases "c = Leaf x")
    case True
    then have "remove_children p ds x 0 None = Some (Some (length pre), pre @ post)"
      using split assms(3) by simp
    with assms(5) True show ?thesis
      by (auto simp: bind_eq_Some_conv split: list.splits if_splits)
  next
    case False
    have "wf_groups c" "distinct (leaves c)" using assms(1-3) by auto
    from remove_node_correct [OF this assms(4) False] obtain c' where c': "remove_node p c x = Some c'" by blast
    with split False assms(3,5) show ?thesis by simp
  qed
qed

lemma remove_keeps_group:
  "wf_groups t \<Longrightarrow> distinct (leaves t) \<Longrightarrow> x \<in> set (leaves t) \<Longrightarrow> remove_node p t x = Some t'
    \<Longrightarrow> Group g a cs sh \<in> set (subnodes t) \<Longrightarrow> x \<notin> set (concat (map leaves cs))
    \<Longrightarrow> Group g a cs sh \<in> set (subnodes t')"
proof (induction t arbitrary: t')
  case (Leaf i)
  then show ?case by simp
next
  case (Group i b ds dh)
  obtain c where c: "c \<in> set ds" "x \<in> set (leaves c)" using Group.prems(3) by auto
  obtain pre post where ds: "ds = pre @ c # post" using c(1) by (meson split_list)
  note removed = remove_in_group [OF Group.prems(1,2) ds c(2) Group.prems(4)]
  have "Group g a cs sh \<noteq> Group i b ds dh" using Group.prems(3,6) by auto
  then obtain e where e: "e \<in> set ds" "Group g a cs sh \<in> set (subnodes e)" using Group.prems(5) by auto
  show ?case
  proof (cases "c = Leaf x")
    case True
    with e have mem: "e \<in> set (pre @ post)" by (auto simp: ds)
    from removed True consider d where "pre @ post = [d]" "t' = d" | out where "t' = Group i b (pre @ post) out"
      by auto
    then show ?thesis using mem e(2) by cases (simp_all del: set_append, auto)
  next
    case False
    then obtain c' where c': "remove_node p c x = Some c'" "t' = Group i b (pre @ c' # post) dh"
      using removed by auto
    have "wf_groups c" "distinct (leaves c)" using Group.prems(1,2) by (auto simp: ds)
    with Group.IH [OF c(1) _ _ c(2) c'(1) _ Group.prems(6)] e c' ds show ?thesis by auto
  qed
qed

lemma remove_below_group:
  "wf_groups t \<Longrightarrow> distinct (leaves t) \<Longrightarrow> remove_node p t x = Some t'
    \<Longrightarrow> Group g a cs sh \<in> set (subnodes t) \<Longrightarrow> k < length cs \<Longrightarrow> x \<in> set (leaves (cs ! k)) \<Longrightarrow> cs ! k \<noteq> Leaf x
    \<Longrightarrow> \<exists>c'. remove_node p (cs ! k) x = Some c' \<and> Group g a (cs[k := c']) sh \<in> set (subnodes t')"
proof (induction t arbitrary: t')
  case (Leaf i)
  then show ?case by simp
next
  case (Group i b ds dh)
  show ?case
  proof (cases "Group g a cs sh = Group i b ds dh")
    case True
    then have ds: "ds = take k cs @ cs ! k # drop (Suc k) cs" using Group.prems(5) by (simp add: id_take_nth_drop)
    from remove_in_group [OF Group.prems(1,2) ds Group.prems(6,3)] Group.prems(5,7) True show ?thesis
      by (auto simp: upd_conv_take_nth_drop)
  next
    case False
    then obtain e where e: "e \<in> set ds" "Group g a cs sh \<in> set (subnodes e)" using Group.prems(4) by auto
    have "cs ! k \<in> set cs" using Group.prems(5) by simp
    then have x: "x \<in> set (leaves e)" using leaves_subnode [OF e(2)] Group.prems(6) by auto
    obtain pre post where ds: "ds = pre @ e # post" using e(1) by (meson split_list)
    have "e \<noteq> Leaf x" using e(2) by auto
    with remove_in_group [OF Group.prems(1,2) ds x Group.prems(3)] obtain e' where
      e': "remove_node p e x = Some e'" "t' = Group i b (pre @ e' # post) dh" by auto
    have "wf_groups e" "distinct (leaves e)" using Group.prems(1,2) by (auto simp: ds)
    with Group.IH [OF e(1) _ _ e'(1) e(2) Group.prems(5-7)] e' show ?thesis by auto
  qed
qed

end

end
