(* ===== verification/Session_Move_Exact.thy ===== *)
theory Session_Move_Exact
  imports Session_Move_Tree
begin

text \<open>
  Planner and session agree: \<open>apply_move_operation\<close> accepts exactly the operations that the planner may
  emit for the tree, and what it does to the tree is to move one leaf.
\<close>

subsection \<open>The container of the mover\<close>

definition container :: "node \<Rightarrow> node_id \<Rightarrow> node_id \<Rightarrow> axis \<Rightarrow> node list \<Rightarrow> nat list \<Rightarrow> bool" where
  "container t x c ax cs sh \<longleftrightarrow> Group c ax cs sh \<in> set (subnodes t) \<and> Leaf x \<in> set cs"

lemma at_group_iff: "at_group t c P \<longleftrightarrow> (\<exists>a cs sh. Group c a cs sh \<in> set (subnodes t) \<and> P a cs)"
proof
  assume "at_group t c P"
  then obtain n where n: "n \<in> set (subnodes t)" "case n of Leaf i \<Rightarrow> False | Group c' a cs sh \<Rightarrow> c' = c \<and> P a cs"
    unfolding at_group_def by blast
  show "\<exists>a cs sh. Group c a cs sh \<in> set (subnodes t) \<and> P a cs"
  proof (cases n)
    case (Group c' a cs sh)
    with n have "Group c a cs sh \<in> set (subnodes t)" "P a cs" by simp_all
    then show ?thesis by blast
  qed (use n in simp)
qed (blast intro: at_groupI)

lemma subnode_facts:
  assumes "wf_node t" "Group c ax cs sh \<in> set (subnodes t)"
  shows "find_group_full t c = Some (cs, sh, c, ax)" "find_group t c = Some (cs, ax, c)"
    "find_group_shares t c = Some sh" "group_ok cs sh" "distinct (map ident cs)" "find_group_id t c"
    "\<And>d. d \<in> set cs \<Longrightarrow> wf_groups d" "distinct (concat (map node_ids cs))" "c \<notin> set (concat (map node_ids cs))"
    "distinct (concat (map leaves cs))" "c \<in> set (group_ids t)" "c \<notin> set (leaves t)"
proof -
  have w: "wf_groups t" "distinct (node_ids t)" using assms(1) by (simp_all add: wf_node_def)
  note full = subnode_find_group_full [OF w(2) assms(2)]
  show "find_group_full t c = Some (cs, sh, c, ax)" by (rule full)
  then show "find_group t c = Some (cs, ax, c)" "find_group_shares t c = Some sh"
    by (simp_all add: find_group_eq find_group_shares_eq)
  note sub = wf_groups_subnodes [OF w(1) assms(2)]
  then show "group_ok cs sh" "\<And>d. d \<in> set cs \<Longrightarrow> wf_groups d" by simp_all
  show c: "c \<in> set (group_ids t)" by (rule subnode_group_id [OF assms(2)])
  then show "find_group_id t c" by (simp add: find_group_id_iff)
  have "wf_node (Group c ax cs sh)" by (rule wf_node_subnode [OF assms])
  then have "distinct (node_ids (Group c ax cs sh))" by (simp add: wf_node_def)
  then show ids: "distinct (concat (map node_ids cs))" "c \<notin> set (concat (map node_ids cs))"
    unfolding node_ids.simps distinct.simps by blast+
  show "distinct (map ident cs)" by (rule distinct_idents [OF ids(1)])
  show "distinct (concat (map leaves cs))"
    using distinct_leaves_subnode [OF _ assms(2)] w(2) by (simp add: distinct_node_ids)
  show "c \<notin> set (leaves t)" using w(2) c by (auto simp: distinct_node_ids)
qed

lemma subnode_trans: "Group c ax cs sh \<in> set (subnodes t) \<Longrightarrow> d \<in> set cs \<Longrightarrow> d \<in> set (subnodes t)"
proof (induction t)
  case (Group i b ds dh)
  then show ?case using subnodes_self by (cases "Group c ax cs sh = Group i b ds dh") (force, auto)
qed simp

lemma container_facts:
  assumes "wf_node t" "container t x c ax cs sh"
  shows "find_group_full t c = Some (cs, sh, c, ax)" "find_group t c = Some (cs, ax, c)"
    "find_group_shares t c = Some sh" "group_ok cs sh" "distinct (map ident cs)"
    "direct_parent_of_leaf t x = Some c" "find_group_id t c"
proof -
  have "Group c ax cs sh \<in> set (subnodes t)" "Leaf x \<in> set cs" using assms(2) by (simp_all add: container_def)
  with subnode_facts [OF assms(1) this(1)] direct_parent_of_child [OF _ this(1,2)] assms(1)
  show "find_group_full t c = Some (cs, sh, c, ax)" "find_group t c = Some (cs, ax, c)"
    "find_group_shares t c = Some sh" "group_ok cs sh" "distinct (map ident cs)"
    "direct_parent_of_leaf t x = Some c" "find_group_id t c"
    by (auto simp: wf_node_def distinct_node_ids)
qed

lemma parent_container:
  assumes "wf_node t" "direct_parent_of_leaf t x = Some c" "find_group_full t c = Some (cs, sh, i, ax)"
  shows "i = c" "container t x c ax cs sh"
proof -
  from direct_parent_subnode(1) [OF assms(2)] obtain a ds dh where
    d: "Group c a ds dh \<in> set (subnodes t)" "Leaf x \<in> set ds" by blast
  from subnode_facts(1) [OF assms(1) d(1)] assms(3) d show "i = c" "container t x c ax cs sh"
    by (simp_all add: container_def)
qed

text \<open>Positions among distinct identities.\<close>

lemma child_position_iff:
  assumes "distinct (map ident cs)"
  shows "child_position cs y = Some k \<longleftrightarrow> k < length cs \<and> ident (cs ! k) = y"
  using position_ident [OF assms, of k y] by (auto simp: child_position_def position_Some_iff)

lemma leaf_at_position:
  assumes "distinct (map ident cs)" "Leaf x \<in> set cs" "k < length cs" "ident (cs ! k) = x"
  shows "cs ! k = Leaf x"
proof -
  from assms(2) obtain j where j: "j < length cs" "cs ! j = Leaf x" by (auto simp: in_set_conv_nth)
  then have "map ident cs ! j = map ident cs ! k" using assms(3,4) by simp
  then have "j = k" using assms(1) j(1) assms(3) nth_eq_iff_index_eq by fastforce
  with j show ?thesis by simp
qed

lemma mover_position:
  assumes "distinct (map ident cs)" "Leaf x \<in> set cs"
  obtains k where "k < length cs" "cs ! k = Leaf x" "child_position cs x = Some k"
  using assms child_position_iff [OF assms(1), of x] leaf_at_position [OF assms]
  by (metis in_set_conv_nth ident.simps(1))

lemma position_of_leaf: "distinct (map ident cs) \<Longrightarrow> k < length cs \<Longrightarrow> cs ! k = Leaf x \<Longrightarrow> child_position cs x = Some k"
  by (simp add: child_position_iff)

lemma neighbor_positions_iff:
  assumes "distinct (map ident cs)" "Leaf x \<in> set cs"
  shows "neighbor_positions cs x n d = Some (iw, i) \<longleftrightarrow>
    iw < length cs \<and> cs ! iw = Leaf x \<and> i < length cs \<and> ident (cs ! i) = n \<and> int i = int iw + step_for d"
proof -
  have "\<bar>step_for d\<bar> = 1" by (cases d) simp_all
  then have abs: "int i = int iw + step_for d \<Longrightarrow> \<bar>int iw - int i\<bar> = 1" by linarith
  have mover: "child_position cs x = Some iw \<longleftrightarrow> iw < length cs \<and> cs ! iw = Leaf x"
    using leaf_at_position [OF assms, of iw] position_of_leaf [OF assms(1), of iw x] child_position_iff [OF assms(1)]
    by blast
  have "neighbor_positions cs x n d = Some (iw, i) \<longleftrightarrow> child_position cs x = Some iw \<and> child_position cs n = Some i
      \<and> \<bar>int iw - int i\<bar> = 1 \<and> int i = int iw + step_for d"
    by (auto simp: neighbor_positions_def bind_eq_Some_conv split: if_splits)
  then show ?thesis using mover child_position_iff [OF assms(1), of n i] abs by blast
qed

lemma child_at_step: "child_at cs (int i + step_for d) = Some nb
    \<longleftrightarrow> (\<exists>j < length cs. int j = int i + step_for d \<and> cs ! j = nb)"
proof
  assume "child_at cs (int i + step_for d) = Some nb"
  then show "\<exists>j < length cs. int j = int i + step_for d \<and> cs ! j = nb"
    by (intro exI [of _ "nat (int i + step_for d)"]) (auto simp: child_at_def split: if_splits)
next
  assume "\<exists>j < length cs. int j = int i + step_for d \<and> cs ! j = nb"
  then obtain j where j: "j < length cs" "int j = int i + step_for d" "cs ! j = nb" by blast
  then have "nat (int i + step_for d) = j" by linarith
  with j show "child_at cs (int i + step_for d) = Some nb" by (simp add: child_at_def)
qed

lemma generate_move_group_id_fresh:
  assumes "finite ids" "card ids < 2 ^ 32 - 1"
  shows "\<exists>g. generate_move_group_id x rv r ids = Some g \<and> g \<notin> ids \<and> g \<noteq> []"
proof (cases "move_group_base x rv r \<in> ids")
  case False
  then show ?thesis by (simp add: generate_move_group_id_def Let_def move_group_base_def)
next
  case True
  from fresh_candidate [OF assms] obtain k where
    "1 + k < 2 ^ 32" "group_id_candidate (move_group_base x rv r) (1 + k) \<notin> ids" by blast
  from group_id_loop_finds [OF this(2,1)] True show ?thesis
    by (simp add: generate_move_group_id_def Let_def)
qed

text \<open>What an accepted operation gives: a well-formed tree in which one leaf has moved.\<close>

definition moved :: "node_id \<Rightarrow> node \<Rightarrow> node \<Rightarrow> bool" where
  "moved x t t' \<longleftrightarrow> wf_node t' \<and> others x t' = others x t \<and> x \<in> set (leaves t')"

text \<open>Identities in use, among which the search of a fresh one is known to return.\<close>

definition ids_ok :: "node_id set \<Rightarrow> node \<Rightarrow> bool" where
  "ids_ok ids t \<longleftrightarrow> finite ids \<and> card ids < 2 ^ 32 - 1 \<and> set (node_ids t) \<subseteq> ids"

lemma ids_ok_fresh:
  assumes "ids_ok ids t"
  obtains g where "generate_move_group_id x rv r ids = Some g" "g \<notin> set (node_ids t)" "g \<noteq> []"
  using generate_move_group_id_fresh [of ids x rv r] assms by (auto simp: ids_ok_def)

subsection \<open>Neighbouring positions\<close>

lemma adjacent_split:
  assumes "iw < length xs" "i < length xs" "int i = int iw + step_for d"
  obtains A B where "xs = A @ (if iw < i then [xs ! iw, xs ! i] else [xs ! i, xs ! iw]) @ B"
    "length A = min iw i" "(iw < i) = (step_for d = 1)" "max iw i = Suc (min iw i)"
proof -
  let ?lo = "min iw i"
  have step: "i = Suc iw \<and> step_for d = 1 \<or> iw = Suc i \<and> step_for d \<noteq> 1"
    using assms(3) by (cases d) auto
  then have hi: "max iw i = Suc ?lo" "Suc ?lo < length xs" using assms(1,2) by auto
  then have "xs = take ?lo xs @ xs ! ?lo # xs ! Suc ?lo # drop (Suc (Suc ?lo)) xs"
    by (metis Cons_nth_drop_Suc Suc_lessD append_take_drop_id)
  then show thesis using step hi that [of "take ?lo xs" "drop (Suc (Suc ?lo)) xs"] by auto
qed

lemma swap_at_middle: "swap_at (length A) (Suc (length A)) (A @ u # v # B) = A @ v # u # B"
  "swap_at (Suc (length A)) (length A) (A @ u # v # B) = A @ v # u # B"
  by (simp_all add: swap_at_def nth_append list_update_append)

lemma wrap_middle: "insert_at (length A) w (remove_at (length A) (remove_at (Suc (length A)) (A @ u # v # B))) = A @ w # B"
  by (simp add: insert_at_def remove_at_def)

context share_policy
begin

subsection \<open>Perpendicular wrap\<close>

lemma pair_group_wf:
  assumes "wf_groups a" "wf_groups b"
  shows "wf_groups (pair_group p g ax first a b)"
  using assms new_group_ok by (simp add: pair_group_def)

lemma pair_group_ids: "mset (node_ids (pair_group p g ax first a b)) = {#g#} + mset (node_ids a) + mset (node_ids b)"
  by (simp add: pair_group_def)

lemma pair_group_leaves: "set (leaves (pair_group p g ax first a b)) = set (leaves a) \<union> set (leaves b)"
  "x \<notin> set (leaves b) \<Longrightarrow> filter (\<lambda>y. y \<noteq> x) (leaves (pair_group p g ax first (Leaf x) b)) = leaves b"
  by (auto simp: pair_group_def filter_neq_absent)

lemma mover_split:
  assumes "Leaf x \<in> set cs" "distinct (concat (map node_ids cs))"
  obtains pre post where "cs = pre @ Leaf x # post" "x \<notin> set (concat (map node_ids pre))"
    "x \<notin> set (concat (map node_ids post))" "x \<notin> set (concat (map leaves pre))" "x \<notin> set (concat (map leaves post))"
    "child_position cs x = Some (length pre)"
proof -
  obtain pre post where cs: "cs = pre @ Leaf x # post" "set (node_ids (Leaf x)) \<inter> set (concat (map node_ids pre)) = {}"
    "set (node_ids (Leaf x)) \<inter> set (concat (map node_ids post)) = {}"
    using child_split [OF assms] .
  then have out: "x \<notin> set (concat (map node_ids pre))" "x \<notin> set (concat (map node_ids post))" by auto
  have "child_position cs x = Some (length pre)"
    using position_of_leaf [OF distinct_idents [OF assms(2)], of "length pre" x] by (simp add: cs(1))
  with that [OF cs(1) out absent_leaves [OF out(1)] absent_leaves [OF out(2)]] show thesis .
qed

lemma wrap_remainder_ok:
  assumes "cs = pre @ Leaf x # post" "group_ok cs sh" "\<And>d. d \<in> set cs \<Longrightarrow> wf_groups d"
  obtains r where "wrap_remainder c ax cs sh (length pre) = Some r" "wf_groups r"
    "leaves r = concat (map leaves (pre @ post))" "mset (node_ids r) \<subseteq># {#c#} + mset (concat (map node_ids (pre @ post)))"
proof -
  have rm: "remove_at (length pre) cs = pre @ post" by (simp add: assms(1) remove_at_def)
  have len: "length pre + length post = length sh - 1" "2 \<le> length sh" "length pre < length sh"
    using assms(1,2) by (auto simp: group_ok_def)
  consider d where "pre @ post = [d]" | d e ds where "pre @ post = d # e # ds"
    using len by (cases "pre @ post" rule: remdups_adj.cases) auto
  then show thesis
  proof cases
    case 1
    have "d \<in> set (pre @ post)" by (simp add: 1)
    then have "wf_groups d" using assms(1,3) by auto
    moreover have "wrap_remainder c ax cs sh (length pre) = Some d" by (simp add: wrap_remainder_def rm 1)
    moreover have "leaves d = concat (map leaves (pre @ post))"
      "mset (node_ids d) \<subseteq># {#c#} + mset (concat (map node_ids (pre @ post)))"
      unfolding 1 by simp_all
    ultimately show ?thesis using that by blast
  next
    case 2
    let ?r = "Group c ax (pre @ post) (remove_at (length pre) sh)"
    have "group_ok (pre @ post) (remove_at (length pre) sh)"
      unfolding group_ok_def
    proof (intro conjI)
      show "2 \<le> length (pre @ post)" by (simp add: 2)
      show "length (remove_at (length pre) sh) = length (pre @ post)" using len by simp
      show "0 \<notin> set (remove_at (length pre) sh)"
        using assms(2) set_remove_at_subset [of "length pre" sh] by (auto simp: group_ok_def)
      show "sum_list (remove_at (length pre) sh) \<le> u64_max"
        using assms(2) sum_list_remove_at_le [of "length pre" sh] by (simp add: group_ok_def)
    qed
    moreover have "\<forall>d \<in> set (pre @ post). wf_groups d" using assms(1,3) by auto
    moreover have "wrap_remainder c ax cs sh (length pre) = Some ?r"
      by (simp add: wrap_remainder_def rm 2)
    ultimately show ?thesis by (intro that [of ?r]) simp_all
  qed
qed

lemma wrap_perpendicular_applies:
  assumes t: "wf_node t" and c: "container t x c ax cs sh" "ax \<noteq> axis_for_direction d" and ids: "ids_ok ids t"
  shows "\<exists>t'. apply_wrap_perpendicular p ids rv t x d c (axis_for_direction d) = Some (Some t') \<and> moved x t t'"
proof -
  note f = container_facts [OF t c(1)]
  have sub: "Group c ax cs sh \<in> set (subnodes t)" "Leaf x \<in> set cs" using c(1) by (simp_all add: container_def)
  note s = subnode_facts [OF t sub(1)]
  obtain pre post where cs: "cs = pre @ Leaf x # post" "x \<notin> set (concat (map node_ids pre))"
    "x \<notin> set (concat (map node_ids post))" "x \<notin> set (concat (map leaves pre))" "x \<notin> set (concat (map leaves post))"
    "child_position cs x = Some (length pre)"
    using mover_split [OF sub(2) s(8)] .
  obtain r where r: "wrap_remainder c ax cs sh (length pre) = Some r" "wf_groups r"
    "leaves r = concat (map leaves (pre @ post))" "mset (node_ids r) \<subseteq># {#c#} + mset (concat (map node_ids (pre @ post)))"
    using wrap_remainder_ok [OF cs(1) s(4,7)] .
  obtain g where g: "generate_move_group_id x rv ''r1'' ids = Some g" "g \<notin> set (node_ids t)" "g \<noteq> []"
    using ids_ok_fresh [OF ids] .
  let ?u = "pair_group p g (axis_for_direction d) (step_for d = - 1) (Leaf x) r"
  have xr: "x \<notin> set (leaves r)" using cs(4,5) r(3) by simp
  have "mset (node_ids ?u) \<subseteq># mset (node_ids (Group c ax cs sh)) + mset [g]"
    using r(4) unfolding pair_group_ids by (simp add: cs(1))
  then obtain t' where t': "update_group c (\<lambda>_ _ _. Some ?u) t = Some t'" "wf_node t'" "others x t' = others x t"
    "?u \<in> set (subnodes t')"
    using update_group_result [where f = "\<lambda>_ _ _. Some ?u" and new = "[g]", OF t sub(1) refl, of x] pair_group_wf r(2) pair_group_leaves(2) [OF xr]
      g(2,3) cs(4,5) r(3) by (auto simp: cs(1) filter_neq_absent)
  have "x \<in> set (leaves t')" using leaves_subnode [OF t'(4)] by (auto simp: pair_group_def)
  with t' have "moved x t t'" by (simp add: moved_def)
  moreover have "apply_wrap_perpendicular p ids rv t x d c (axis_for_direction d) = Some (Some t')"
    using f c(2) cs(1,6) r(1) g(1) t'(1) replace_node_update(1) [OF s(12)]
    by (simp add: apply_wrap_perpendicular_def attempt_def)
  ultimately show ?thesis by blast
qed

lemma wrap_perpendicular_fits:
  assumes "wf_node t" "apply_wrap_perpendicular p ids rv t x d c a = Some (Some t')"
  shows "a = axis_for_direction d \<and> (\<exists>ax cs sh. container t x c ax cs sh \<and> ax \<noteq> a)"
proof -
  from assms(2) obtain cs ax i where a: "a = axis_for_direction d" "find_group t c = Some (cs, ax, i)" "ax \<noteq> a"
    "direct_parent_of_leaf t x = Some c"
    by (auto simp: apply_wrap_perpendicular_def attempt_def split: if_split_asm option.split_asm)
  then obtain sh where "find_group_full t c = Some (cs, sh, i, ax)" by (auto simp: find_group_eq)
  with parent_container [OF assms(1) a(4)] a(1,3) show ?thesis by blast
qed

subsection \<open>Neighbour swap and wrap\<close>

lemma swap_in_group_applies:
  assumes t: "wf_node t" and c: "container t x c (axis_for_direction d) cs sh" and ok: "lengths_ok (length cs) (length cs)"
    and nb: "iw < length cs" "cs ! iw = Leaf x" "i < length cs" "cs ! i = Leaf n" "int i = int iw + step_for d"
  shows "\<exists>t'. swap_in_group lengths_ok t x d c n = Some t' \<and> moved x t t'"
proof -
  note f = container_facts [OF t c]
  have sub: "Group c (axis_for_direction d) cs sh \<in> set (subnodes t)" "Leaf x \<in> set cs"
    using c by (simp_all add: container_def)
  note s = subnode_facts [OF t sub(1)]
  have len: "length sh = length cs" using s(4) by (simp add: group_ok_def)
  obtain A B where cs: "cs = A @ (if iw < i then [cs ! iw, cs ! i] else [cs ! i, cs ! iw]) @ B"
    "length A = min iw i" "(iw < i) = (step_for d = 1)" "max iw i = Suc (min iw i)"
    using adjacent_split [OF nb(1,3,5)] .
  let ?u = "Group c (axis_for_direction d) (swap_at iw i cs) (swap_at iw i sh)"
  have up: "swap_update c x n (axis_for_direction d) cs sh = Some ?u"
    using position_of_leaf [OF f(5) nb(1,2)] position_of_leaf [OF f(5) nb(3,4)] nb(2,4)
    by (simp add: swap_update_def child_position_def)
  have sw: "swap_at iw i cs = A @ (if iw < i then [Leaf n, Leaf x] else [Leaf x, Leaf n]) @ B"
  proof (cases "iw < i")
    case True
    then have "iw = length A" "i = Suc (length A)" using cs(2,4) by auto
    moreover have "cs = A @ Leaf x # Leaf n # B" using cs(1) True nb(2,4) by simp
    ultimately show ?thesis using swap_at_middle(1) [of A] by simp
  next
    case False
    then have "i = length A" "iw = Suc (length A)" using cs(2,4) by auto
    moreover have "cs = A @ Leaf n # Leaf x # B" using cs(1) False nb(2,4) by simp
    ultimately show ?thesis using swap_at_middle(2) [of A] by simp
  qed
  have cs': "cs = A @ (if iw < i then [Leaf x, Leaf n] else [Leaf n, Leaf x]) @ B" using cs(1) unfolding nb(2,4) .
  have set: "set (swap_at iw i cs) = set cs" unfolding sw by (subst cs') auto
  have "wf_groups (Group c (axis_for_direction d) cs sh)" using s(4,7) by simp
  from swap_update_group_ok [OF up this refl] have "wf_groups ?u" using s(7) set by simp
  moreover have "filter (\<lambda>y. y \<noteq> x) (leaves ?u) = filter (\<lambda>y. y \<noteq> x) (concat (map leaves cs))"
    unfolding leaves.simps sw by (subst cs') simp
  moreover have "mset (node_ids ?u) \<subseteq># mset (node_ids (Group c (axis_for_direction d) cs sh)) + mset []"
    unfolding node_ids.simps sw by (subst cs') simp
  ultimately obtain t' where t': "update_group c (swap_update c x n) t = Some t'" "wf_node t'" "others x t' = others x t"
    "?u \<in> set (subnodes t')"
    using update_group_result [where f = "swap_update c x n" and new = "[]", OF t sub(1) up] by auto
  have "x \<in> set (leaves ?u)" using set sub(2) by force
  then have "x \<in> set (leaves t')" using leaves_subnode [OF t'(4)] by blast
  moreover have "neighbor_positions cs x n d = Some (iw, i)"
    using neighbor_positions_iff [OF f(5) sub(2)] nb by auto
  ultimately show ?thesis
    using f(2,3,6) ok len nb(2,4) t' by (simp add: swap_in_group_def swap_children_update moved_def)
qed

lemma wrap_neighbor_applies:
  assumes t: "wf_node t" and c: "container t x c (axis_for_direction d) cs sh" and ids: "ids_ok ids t"
    and nb: "iw < length cs" "cs ! iw = Leaf x" "i < length cs" "ident (cs ! i) = n" "int i = int iw + step_for d"
    and three: "3 \<le> length cs" and mode: "mode = SwapWithNeighbor \<Longrightarrow> \<not> is_leaf (cs ! i)"
  shows "\<exists>t'. apply_wrap_neighbor p ids rv t x d mode c n (step_for d = 1) (axis_for_direction d) = Some (Some t')
    \<and> moved x t t'"
proof -
  note f = container_facts [OF t c]
  have sub: "Group c (axis_for_direction d) cs sh \<in> set (subnodes t)" "Leaf x \<in> set cs"
    using c by (simp_all add: container_def)
  note s = subnode_facts [OF t sub(1)]
  have len: "length sh = length cs" using s(4) by (simp add: group_ok_def)
  obtain A B where cs: "cs = A @ (if iw < i then [cs ! iw, cs ! i] else [cs ! i, cs ! iw]) @ B"
    "length A = min iw i" "(iw < i) = (step_for d = 1)" "max iw i = Suc (min iw i)"
    using adjacent_split [OF nb(1,3,5)] .
  obtain As Bs where sh: "sh = As @ (if iw < i then [sh ! iw, sh ! i] else [sh ! i, sh ! iw]) @ Bs"
    "length As = min iw i"
    using adjacent_split [of iw sh i d] nb(1,3,5) len by metis
  obtain g where g: "generate_move_group_id x rv ''r2c'' ids = Some g" "g \<notin> set (node_ids t)" "g \<noteq> []"
    using ids_ok_fresh [OF ids] .
  let ?first = "step_for d = 1" and ?lo = "min iw i" and ?hi = "max iw i" and ?m = "sh ! iw + sh ! i"
  let ?w = "pair_group p g (axis_for_direction d) ?first (Leaf x) (cs ! i)"
  have new: "insert_at ?lo ?w (remove_at ?lo (remove_at ?hi cs)) = A @ ?w # B"
    using wrap_middle [of A ?w "cs ! iw" "cs ! i" B] wrap_middle [of A ?w "cs ! i" "cs ! iw" B] cs
    by (cases "iw < i") simp_all
  have newsh: "insert_at ?lo ?m (remove_at ?lo (remove_at ?hi sh)) = As @ ?m # Bs"
    using wrap_middle [of As ?m "sh ! iw" "sh ! i" Bs] wrap_middle [of As ?m "sh ! i" "sh ! iw" Bs] sh cs(4)
    by (cases "iw < i") simp_all
  have cs': "cs = A @ (if ?first then [Leaf x, cs ! i] else [cs ! i, Leaf x]) @ B" using cs(1) unfolding cs(3) nb(2) .
  have split: "mset sh = mset As + {#sh ! iw#} + {#sh ! i#} + mset Bs" by (subst sh(1)) simp
  then have sums: "sum_list sh = sum_list As + ?m + sum_list Bs"
    by (metis (no_types, lifting) add.assoc sum_mset.union sum_mset_sum_list sum_mset.singleton)
  have pos: "0 \<notin> set As" "0 \<notin> set Bs" "0 < ?m"
  proof -
    have "set sh = set As \<union> {sh ! iw, sh ! i} \<union> set Bs" using arg_cong [OF split, of set_mset] by auto
    then show "0 \<notin> set As" "0 \<notin> set Bs" "0 < ?m" using s(4) by (auto simp: group_ok_def)
  qed
  have total: "sum_list sh \<le> u64_max" using s(4) by (simp add: group_ok_def)
  have lens: "length (A @ ?w # B) = length (As @ ?m # Bs)" "2 \<le> length (A @ ?w # B)"
    using three len arg_cong [OF cs(1), of length] arg_cong [OF sh(1), of length] by (auto split: if_splits)
  let ?u = "Group c (axis_for_direction d) (A @ ?w # B) (As @ ?m # Bs)"
  have up: "children_update c (A @ ?w # B) (As @ ?m # Bs) (axis_for_direction d) cs sh = Some ?u"
    unfolding children_update_def using lens(2) lens(1) [symmetric]
    by (intro if_not_P) (simp only: not_less de_Morgan_disj not_not simp_thms)
  have "wf_groups ?u"
  proof -
    have "set A \<union> set B \<union> {cs ! i} \<subseteq> set cs" using nb(3) by (subst (2) cs(1)) auto
    then have "wf_groups e" if "e \<in> set A \<union> set B \<union> {cs ! i}" for e using s(7) that by blast
    then have "\<forall>e \<in> set (A @ ?w # B). wf_groups e" using pair_group_wf by auto
    moreover have "group_ok (A @ ?w # B) (As @ ?m # Bs)"
      unfolding group_ok_def
    proof (intro conjI)
      show "2 \<le> length (A @ ?w # B)" by (rule lens(2))
      show "length (As @ ?m # Bs) = length (A @ ?w # B)" using lens(1) by simp
      show "0 \<notin> set (As @ ?m # Bs)" using pos by auto
      show "sum_list (As @ ?m # Bs) \<le> u64_max" using sums total by simp
    qed
    ultimately show ?thesis by simp
  qed
  moreover have "leaves ?u = concat (map leaves cs)"
    by (subst (2) cs') (simp add: pair_group_def)
  moreover have "mset (node_ids ?u) \<subseteq># mset (node_ids (Group c (axis_for_direction d) cs sh)) + mset [g]"
    unfolding node_ids.simps by (subst (2) cs') (simp add: pair_group_def)
  ultimately obtain t' where t': "update_group c (children_update c (A @ ?w # B) (As @ ?m # Bs)) t = Some t'"
    "wf_node t'" "others x t' = others x t" "?u \<in> set (subnodes t')"
    using update_group_result [where f = "children_update c (A @ ?w # B) (As @ ?m # Bs)" and new = "[g]",
        OF t sub(1) up] g(2,3) by auto
  have "x \<in> set (leaves t')" using leaves_subnode [OF t'(4)] by (auto simp: pair_group_def)
  then have "moved x t t'" using t' by (simp add: moved_def)
  moreover have "neighbor_positions cs x n d = Some (iw, i)"
    using neighbor_positions_iff [OF f(5) sub(2)] nb by auto
  moreover have "checked_add_u64 (sh ! iw) (sh ! i) = Some ?m" using sums total by (simp add: checked_add_u64_def)
  ultimately show ?thesis
    using f(1,6) cs(3) three mode nb(2) g(1) new newsh t'(1)
    by (auto simp: apply_wrap_neighbor_def attempt_def Let_def replace_children_update)
qed

lemma swap_in_group_fits:
  assumes "wf_node t" "swap_in_group lengths_ok t x d c n = Some t'"
  shows "\<exists>cs sh iw i. container t x c (axis_for_direction d) cs sh \<and> lengths_ok (length cs) (length cs)
    \<and> iw < length cs \<and> cs ! iw = Leaf x \<and> i < length cs \<and> cs ! i = Leaf n \<and> int i = int iw + step_for d"
proof -
  from assms(2) obtain cs ax j sh iw i where e: "find_group t c = Some (cs, ax, j)" "find_group_shares t c = Some sh"
    "lengths_ok (length cs) (length sh)" "ax = axis_for_direction d" "direct_parent_of_leaf t x = Some c"
    "neighbor_positions cs x n d = Some (iw, i)" "is_leaf (cs ! iw)" "is_leaf (cs ! i)"
    by (auto simp: swap_in_group_def bind_eq_Some_conv split: if_split_asm)
  from e(1,2) have "find_group_full t c = Some (cs, sh, j, ax)" by (auto simp: find_group_eq find_group_shares_eq)
  note c = parent_container(2) [OF assms(1) e(5) this]
  note f = container_facts [OF assms(1) c]
  have "Leaf x \<in> set cs" using c by (simp add: container_def)
  from e(6) neighbor_positions_iff [OF f(5) this] have
    "iw < length cs" "cs ! iw = Leaf x" "i < length cs" "ident (cs ! i) = n" "int i = int iw + step_for d" by blast+
  moreover have "cs ! i = Leaf n" using e(8) calculation(4) leaf_ident by blast
  moreover have "lengths_ok (length cs) (length cs)" using e(3) f(4) by (simp add: group_ok_def)
  ultimately show ?thesis using c e(4) by blast
qed

lemma wrap_neighbor_fits:
  assumes "wf_node t" "apply_wrap_neighbor p ids rv t x d mode c n before a = Some (Some t')"
  shows "a = axis_for_direction d \<and> before = (step_for d = 1)
    \<and> (\<exists>cs sh iw i. container t x c (axis_for_direction d) cs sh \<and> 3 \<le> length cs
      \<and> iw < length cs \<and> cs ! iw = Leaf x \<and> i < length cs \<and> ident (cs ! i) = n \<and> int i = int iw + step_for d
      \<and> (mode = SwapWithNeighbor \<longrightarrow> \<not> is_leaf (cs ! i)))"
proof -
  from assms(2) obtain cs sh j ax iw i where e: "a = axis_for_direction d" "find_group_full t c = Some (cs, sh, j, ax)"
    "\<not> length cs < 3" "ax = axis_for_direction d" "direct_parent_of_leaf t x = Some c"
    "neighbor_positions cs x n d = Some (iw, i)" "before = (iw < i)" "\<not> (mode = SwapWithNeighbor \<and> is_leaf (cs ! i))"
    by (auto simp: apply_wrap_neighbor_def attempt_def split: if_split_asm option.split_asm)
  note c = parent_container(2) [OF assms(1) e(5,2)]
  note f = container_facts [OF assms(1) c]
  have "Leaf x \<in> set cs" using c by (simp add: container_def)
  from e(6) neighbor_positions_iff [OF f(5) this] have
    nb: "iw < length cs" "cs ! iw = Leaf x" "i < length cs" "ident (cs ! i) = n" "int i = int iw + step_for d" by blast+
  then have "(iw < i) = (step_for d = 1)" by (cases d) auto
  with e c nb show ?thesis by (intro conjI exI [of _ cs] exI [of _ sh] exI [of _ iw] exI [of _ i]) auto
qed

subsection \<open>Moves out of the container\<close>

text \<open>The tree without the mover, which is somewhere below a group.\<close>

lemma removed_mover:
  assumes t: "wf_node t" and c: "Group c ax cs sh \<in> set (subnodes t)" "x \<in> set (concat (map leaves cs))"
  obtains w where "remove_leaf_from_tree p (Some t) x = Some w" "remove_node p t x = Some w" "wf_node w"
    "leaves w = others x t" "x \<notin> set (node_ids w)" "set (node_ids w) \<subseteq> set (node_ids t)"
proof -
  have x: "x \<in> set (leaves t)" using leaves_subnode [OF c(1)] c(2) by auto
  have "t \<noteq> Leaf x" using c(1) by auto
  with remove_leaf_ok [OF t x] obtain w where "remove_leaf_from_tree p (Some t) x = Some w" "wf_node w"
    "leaves w = others x t" "set (node_ids w) \<subseteq> set (node_ids t) - {x}"
    by (cases "remove_leaf_from_tree p (Some t) x") (auto simp: others_def)
  with that [of w] show thesis by (auto simp: remove_leaf_from_tree_def)
qed

lemma moved_back:
  assumes "moved x w t'" "leaves w = others x t"
  shows "moved x t t'"
  using assms by (simp add: moved_def others_def)

lemma insert_leaf_moved:
  assumes w: "wf_node w" and x: "x \<notin> set (node_ids w)" "x \<noteq> []" and g: "Group g ax cs sh \<in> set (subnodes w)" "k \<le> length cs"
  shows "case lp_insertion_shares p sh k of
      None \<Rightarrow> insert_leaf_into_group p w g k (Leaf x) = None
    | Some out \<Rightarrow> \<exists>t'. insert_leaf_into_group p w g k (Leaf x) = Some t' \<and> (sum_list out \<le> u64_max \<or> wf_node t' \<longrightarrow> moved x w t')"
proof -
  note s = subnode_facts [OF w g(1)]
  have d: "distinct (node_ids w)" using w by (simp add: wf_node_def)
  show ?thesis
  proof (cases "lp_insertion_shares p sh k")
    case None
    have "insertion_update p g k (Leaf x) ax cs sh = None" using None by (simp add: insertion_update_def)
    then show ?thesis
      using update_group_ok [OF d s(11), of "insertion_update p g k (Leaf x)"] s(1) None
      by (auto simp: insert_leaf_update)
  next
    case (Some out)
    let ?u = "Group g ax (insert_at k (Leaf x) cs) out"
    have up: "insertion_update p g k (Leaf x) ax cs sh = Some ?u" using Some g(2) by (simp add: insertion_update_def)
    obtain t' where t': "update_group g (insertion_update p g k (Leaf x)) w = Some t'" "?u \<in> set (subnodes t')"
      using update_group_context [where f = "insertion_update p g k (Leaf x)", OF d g(1) up] by blast
    have "moved x w t'" if small: "sum_list out \<le> u64_max"
    proof -
      have "length sh = length cs" "2 \<le> length cs" using s(4) by (simp_all add: group_ok_def)
      then have "wf_groups ?u" using insertion [OF Some] s(7) small by (auto simp: group_ok_def)
      moreover have parts: "concat (map leaves cs) = concat (map leaves (take k cs)) @ concat (map leaves (drop k cs))"
        "concat (map node_ids cs) = concat (map node_ids (take k cs)) @ concat (map node_ids (drop k cs))"
        by (metis append_take_drop_id concat_append map_append)+
      then have "filter (\<lambda>y. y \<noteq> x) (leaves ?u) = filter (\<lambda>y. y \<noteq> x) (concat (map leaves cs))"
        by (simp add: insert_at_def)
      moreover have "mset (node_ids ?u) \<subseteq># mset (node_ids (Group g ax cs sh)) + mset [x]"
        unfolding node_ids.simps parts(2) by (simp add: insert_at_def)
      ultimately obtain t'' where t'': "update_group g (insertion_update p g k (Leaf x)) w = Some t''" "wf_node t''"
        "others x t'' = others x w" "?u \<in> set (subnodes t'')"
        using update_group_result [where f = "insertion_update p g k (Leaf x)" and new = "[x]", OF w g(1) up] x by auto
      have "x \<in> set (leaves t'')" using leaves_subnode [OF t''(4)] by auto
      with t'' t' show ?thesis by (simp add: moved_def)
    qed
    moreover have "sum_list out \<le> u64_max" if "wf_node t'"
      using subnode_facts(4) [OF that t'(2)] by (simp add: group_ok_def)
    ultimately show ?thesis using t'(1) Some by (auto simp: insert_leaf_update)
  qed
qed

text \<open>The neighbour of a two-child container is the target group.\<close>

end

lemma target_neighbor_iff:
  assumes t: "wf_node t"
  shows "target_neighbor t x d c tg = Some (nb, ax, ts, tax) \<longleftrightarrow> ax = axis_for_direction d
    \<and> (\<exists>cs sh iw tsh. container t x c ax cs sh \<and> length cs = 2 \<and> iw < length cs \<and> cs ! iw = Leaf x
      \<and> child_at cs (int iw + step_for d) = Some nb \<and> nb = Group tg tax ts tsh)"
proof
  assume "target_neighbor t x d c tg = Some (nb, ax, ts, tax)"
  then obtain cs j iw tid where e: "find_group t c = Some (cs, ax, j)" "length cs = 2" "ax = axis_for_direction d"
    "direct_parent_of_leaf t x = Some c" "child_position cs x = Some iw" "find_group t tg = Some (ts, tax, tid)"
    "child_at cs (int iw + step_for d) = Some nb" "ident nb = tg"
    by (auto simp: target_neighbor_def bind_eq_Some_conv split: if_split_asm)
  obtain sh where "find_group_full t c = Some (cs, sh, j, ax)" using e(1) by (auto simp: find_group_eq)
  note c = parent_container(2) [OF t e(4) this]
  note f = container_facts [OF t c]
  have sub: "Group c ax cs sh \<in> set (subnodes t)" "Leaf x \<in> set cs" using c by (simp_all add: container_def)
  have iw: "iw < length cs" "cs ! iw = Leaf x"
    using e(5) child_position_iff [OF f(5)] leaf_at_position [OF f(5) sub(2), of iw] by auto
  obtain tsh where tg: "Group tg tax ts tsh \<in> set (subnodes t)"
    using e(6) find_group_full_subnode(1) [of t tg] by (fastforce simp: find_group_eq)
  have "nb \<in> set cs" using e(7) by (auto simp: child_at_step)
  then have nb: "nb \<in> set (subnodes t)" using subnode_trans [OF sub(1)] by blast
  have "nb = Group tg tax ts tsh"
  proof (cases nb)
    case (Leaf i)
    with e(8) nb have "tg \<in> set (leaves t)" using leaves_subnode by fastforce
    with subnode_facts(12) [OF t tg] show ?thesis by simp
  next
    case (Group i b ds dh)
    with e(8) nb subnode_group_unique [OF _ tg, of b ds dh] t show ?thesis by (simp add: wf_node_def)
  qed
  with e c iw show "ax = axis_for_direction d
    \<and> (\<exists>cs sh iw tsh. container t x c ax cs sh \<and> length cs = 2 \<and> iw < length cs \<and> cs ! iw = Leaf x
      \<and> child_at cs (int iw + step_for d) = Some nb \<and> nb = Group tg tax ts tsh)" by blast
next
  assume "ax = axis_for_direction d
    \<and> (\<exists>cs sh iw tsh. container t x c ax cs sh \<and> length cs = 2 \<and> iw < length cs \<and> cs ! iw = Leaf x
      \<and> child_at cs (int iw + step_for d) = Some nb \<and> nb = Group tg tax ts tsh)"
  then obtain cs sh iw tsh where c: "ax = axis_for_direction d" "container t x c ax cs sh" "length cs = 2"
    "iw < length cs" "cs ! iw = Leaf x" "child_at cs (int iw + step_for d) = Some nb" "nb = Group tg tax ts tsh"
    by blast
  note f = container_facts [OF t c(2)]
  have "nb \<in> set cs" using c(6) by (auto simp: child_at_step)
  then have "Group tg tax ts tsh \<in> set (subnodes t)" using subnode_trans c(2,7) by (auto simp: container_def)
  from subnode_facts(2) [OF t this] f(2,6) position_of_leaf [OF f(5) c(4,5)] c
  show "target_neighbor t x d c tg = Some (nb, ax, ts, tax)" by (simp add: target_neighbor_def)
qed

text \<open>The target group after the mover has left: unchanged.\<close>

context share_policy
begin

lemma target_stays:
  assumes t: "wf_node t" and n: "target_neighbor t x d c tg = Some (nb, ax, ts, tax)"
  obtains w tsh where "nb = Group tg tax ts tsh" "Group tg tax ts tsh \<in> set (subnodes t)"
    "remove_leaf_from_tree p (Some t) x = Some w" "wf_node w"
    "leaves w = others x t" "x \<notin> set (node_ids w)" "set (node_ids w) \<subseteq> set (node_ids t)"
    "Group tg tax ts tsh \<in> set (subnodes w)" "x \<noteq> []" "x \<in> set (leaves t)"
proof -
  from n target_neighbor_iff [OF t, of x d c tg nb ax ts tax] obtain cs sh iw tsh where c: "container t x c ax cs sh"
    "iw < length cs" "cs ! iw = Leaf x" "child_at cs (int iw + step_for d) = Some nb" "nb = Group tg tax ts tsh"
    by blast
  have sub: "Group c ax cs sh \<in> set (subnodes t)" "Leaf x \<in> set cs" using c(1) by (simp_all add: container_def)
  note s = subnode_facts [OF t sub(1)]
  note x = leaf_child_leaves [OF sub(2)]
  obtain w where w: "remove_leaf_from_tree p (Some t) x = Some w" "remove_node p t x = Some w" "wf_node w"
    "leaves w = others x t" "x \<notin> set (node_ids w)" "set (node_ids w) \<subseteq> set (node_ids t)"
    using removed_mover [OF t sub(1) x] .
  have nb: "nb \<in> set cs" using c(4) by (auto simp: child_at_step)
  have tg: "Group tg tax ts tsh \<in> set (subnodes t)" using subnode_trans [OF sub(1) nb] c(5) by simp
  have "x \<notin> set (leaves nb)" using distinct_child_leaves [OF s(10) sub(2) nb, of x] c(5) by auto
  then have "Group tg tax ts tsh \<in> set (subnodes w)"
    using remove_keeps_group [OF _ _ _ w(2) tg] t x leaves_subnode [OF sub(1)] c(5)
    by (auto simp: wf_node_def distinct_node_ids)
  moreover have "x \<in> set (leaves t)" using x leaves_subnode [OF sub(1)] by auto
  moreover from this have "x \<noteq> []" using t leaves_subset_node_ids [of t] by (auto simp: wf_node_def)
  ultimately show thesis using that c(5) tg w by blast
qed

text \<open>The shares after the mover's insertion; nothing is inserted by the other operations.\<close>

end

definition insertion_fits_op :: "node \<Rightarrow> direction \<Rightarrow> axis \<Rightarrow> node list \<Rightarrow> axis \<Rightarrow> nat \<Rightarrow> insertion \<Rightarrow> bool" where
  "insertion_fits_op t d ax ts tax k ins \<longleftrightarrow>
     (if tax = ax then ins = NearEdge \<and> k = (if step_for d = 1 then 0 else length ts)
      else ins = Midpoint \<and> 2 * k = length ts)"

context share_policy
begin

lemma insert_into_group_outcome:
  assumes t: "wf_node t"
  shows "case target_neighbor t x d c tg of
      None \<Rightarrow> apply_insert_into_group p t x d c tg k ins = None
    | Some (nb, ax, ts, tax) \<Rightarrow> (\<exists>tsh. nb = Group tg tax ts tsh \<and> Group tg tax ts tsh \<in> set (subnodes t)
        \<and> (if insertion_fits_op t d ax ts tax k ins
           then (case lp_insertion_shares p tsh k of
               None \<Rightarrow> apply_insert_into_group p t x d c tg k ins = None
             | Some out \<Rightarrow> \<exists>t'. apply_insert_into_group p t x d c tg k ins = Some t'
                 \<and> (sum_list out \<le> u64_max \<or> wf_node t' \<longrightarrow> moved x t t'))
           else apply_insert_into_group p t x d c tg k ins = None))"
proof (cases "target_neighbor t x d c tg")
  case None
  then show ?thesis by (simp add: apply_insert_into_group_def)
next
  case (Some r)
  obtain nb ax ts tax where r: "r = (nb, ax, ts, tax)" by (metis prod_cases4)
  note n = Some [unfolded r]
  obtain w tsh where w: "nb = Group tg tax ts tsh" "Group tg tax ts tsh \<in> set (subnodes t)"
    "remove_leaf_from_tree p (Some t) x = Some w" "wf_node w"
    "leaves w = others x t" "x \<notin> set (node_ids w)" "set (node_ids w) \<subseteq> set (node_ids t)"
    "Group tg tax ts tsh \<in> set (subnodes w)" "x \<noteq> []" "x \<in> set (leaves t)"
    using target_stays [OF t n] .
  have two: "2 \<le> length ts" using subnode_facts(4) [OF t w(2)] by (simp add: group_ok_def)
  note found = subnode_facts(2) [OF w(4,8)]
  have fits: "insertion_fits_op t d ax ts tax k ins \<longleftrightarrow>
      \<not> (tax = ax \<and> (ins \<noteq> NearEdge \<or> k \<noteq> (if step_for d = 1 then 0 else length ts)))
      \<and> \<not> (tax \<noteq> ax \<and> (odd (length ts) \<or> ins \<noteq> Midpoint \<or> k \<noteq> length ts div 2))"
  proof -
    have "2 * k = length ts \<longleftrightarrow> even (length ts) \<and> k = length ts div 2" by presburger
    then show ?thesis unfolding insertion_fits_op_def by auto
  qed
  have k: "k \<le> length ts" if "insertion_fits_op t d ax ts tax k ins"
    using that by (auto simp: insertion_fits_op_def split: if_splits)
  have code: "apply_insert_into_group p t x d c tg k ins =
      (if insertion_fits_op t d ax ts tax k ins then insert_leaf_into_group p w tg k (Leaf x) else None)"
    unfolding apply_insert_into_group_def n bind.simps prod.case w(1,3) found fits [symmetric]
    using two k fits by (auto simp: found)
  show ?thesis
  proof (cases "insertion_fits_op t d ax ts tax k ins")
    case True
    note ins = insert_leaf_moved [OF w(4,6,9,8) k [OF True]]
    show ?thesis
    proof (cases "lp_insertion_shares p tsh k")
      case None
      with ins code True n w(1,2) show ?thesis by auto
    next
      case (Some out)
      with ins obtain t' where "insert_leaf_into_group p w tg k (Leaf x) = Some t'"
        "sum_list out \<le> u64_max \<or> wf_node t' \<longrightarrow> moved x w t'" by auto
      with moved_back [OF _ w(5)] Some code True n w(1,2) show ?thesis by auto
    qed
  next
    case False
    with code n w(1,2) show ?thesis by auto
  qed
qed

text \<open>A new pair in the place of one child of a group.\<close>

lemma wrap_child_moved:
  assumes w: "wf_node w" and x: "x \<notin> set (node_ids w)" "x \<noteq> []" and n: "n \<notin> set (node_ids w)" "n \<noteq> x" "n \<noteq> []"
    and g: "Group g ax cs sh \<in> set (subnodes w)" "k < length cs"
  shows "\<exists>t'. replace_child_at w g k (pair_group p n a first (Leaf x) (cs ! k)) (sh ! k) = Some t' \<and> moved x w t'"
proof -
  note s = subnode_facts [OF w g(1)]
  let ?v = "pair_group p n a first (Leaf x) (cs ! k)"
  let ?u = "Group g ax (cs[k := ?v]) sh"
  have up: "child_update g k ?v (sh ! k) ax cs sh = Some ?u" using g(2) s(4) by (simp add: child_update_def group_ok_def)
  obtain pre post where cs: "cs = pre @ cs ! k # post" "length pre = k" "cs[k := ?v] = pre @ ?v # post"
    using g(2) by (metis id_take_nth_drop length_take min.absorb4 upd_conv_take_nth_drop)
  have kid: "cs ! k \<in> set cs" using g(2) by simp
  have "x \<notin> set (concat (map leaves cs))"
    using x(1) subnode_ids [OF g(1)] leaves_subset_node_ids [of "Group g ax cs sh"] by auto
  with kid have xk: "x \<notin> set (leaves (cs ! k))" by auto
  have new: "distinct [n, x]" "[] \<notin> set [n, x]" "set [n, x] \<inter> set (node_ids w) = {}" using x n by auto
  have "wf_groups ?v" using pair_group_wf s(7) [OF kid] by simp
  then have "wf_groups ?u" using s(4,7) set_update_subset_insert [of cs k ?v] by (fastforce simp: group_ok_def)
  moreover have "filter (\<lambda>y. y \<noteq> x) (leaves ?u) = filter (\<lambda>y. y \<noteq> x) (concat (map leaves cs))"
    unfolding leaves.simps cs(3) by (subst (2) cs(1)) (simp add: pair_group_leaves(2) [OF xk] filter_neq_absent [OF xk])
  moreover have "mset (node_ids ?u) \<subseteq># mset (node_ids (Group g ax cs sh)) + mset [n, x]"
    unfolding node_ids.simps cs(3) by (subst (2) cs(1)) (simp add: pair_group_ids)
  ultimately obtain t' where t': "update_group g (child_update g k ?v (sh ! k)) w = Some t'" "wf_node t'"
    "others x t' = others x w" "?u \<in> set (subnodes t')"
    using update_group_result [where f = "child_update g k ?v (sh ! k)" and new = "[n, x]", OF w g(1) up] new by blast
  have "x \<in> set (leaves ?u)" unfolding leaves.simps cs(3) by (simp add: pair_group_def)
  then have "moved x w t'" using t' leaves_subnode [OF t'(4)] by (auto simp: moved_def)
  with t'(1) show ?thesis by (simp add: replace_child_update)
qed

lemma split_group_child_applies:
  assumes t: "wf_node t" and ids: "ids_ok ids t" and n: "target_neighbor t x d c tg = Some (nb, ax, ts, tax)"
    and k: "tax \<noteq> ax" "length ts = 2 * k + 1" "ident (ts ! k) = tc"
  shows "\<exists>t'. apply_split_group_child p ids rv t x d c tg tc k (if step_for d = 1 then Second else First)
      (axis_for_direction d) = Some (Some t') \<and> moved x t t'"
proof -
  obtain w tsh where w: "nb = Group tg tax ts tsh" "Group tg tax ts tsh \<in> set (subnodes t)"
    "remove_leaf_from_tree p (Some t) x = Some w" "wf_node w"
    "leaves w = others x t" "x \<notin> set (node_ids w)" "set (node_ids w) \<subseteq> set (node_ids t)"
    "Group tg tax ts tsh \<in> set (subnodes w)" "x \<noteq> []" "x \<in> set (leaves t)"
    using target_stays [OF t n] .
  note s = subnode_facts [OF w(4,8)]
  have two: "2 \<le> length ts" "length tsh = length ts" using s(4) by (simp_all add: group_ok_def)
  then have idx: "k < length ts" "odd (length ts)" "k = length ts div 2" "3 \<le> length ts"
    using k(2) by auto
  obtain g where g: "generate_move_group_id x rv ''r2b'' ids = Some g" "g \<notin> set (node_ids t)" "g \<noteq> []"
    using ids_ok_fresh [OF ids] .
  let ?side = "if step_for d = 1 then Second else First"
  have "g \<notin> set (node_ids w)" "g \<noteq> x" using g(2) w(7,10) leaves_subset_node_ids [of t] by auto
  from wrap_child_moved [OF w(4,6,9) this g(3) w(8) idx(1), of "axis_for_direction d" "?side = First"]
  obtain t' where t': "replace_child_at w tg k
      (pair_group p g (axis_for_direction d) (?side = First) (Leaf x) (ts ! k)) (tsh ! k) = Some t'" "moved x w t'" by blast
  from moved_back [OF t'(2) w(5)] have "moved x t t'" .
  moreover have "step_for d = - 1 \<longleftrightarrow> step_for d \<noteq> 1" by (rule step_for_not_pos)
  ultimately show ?thesis
    using n k w(3) s(1,3) g(1) t'(1) idx by (auto simp: apply_split_group_child_def attempt_def)
qed

lemma split_group_child_fits:
  assumes t: "wf_node t" and "apply_split_group_child p ids rv t x d c tg tc k side a = Some (Some t')"
  shows "a = axis_for_direction d \<and> side = (if step_for d = 1 then Second else First)
    \<and> (\<exists>nb ax ts tax. target_neighbor t x d c tg = Some (nb, ax, ts, tax) \<and> tax \<noteq> ax \<and> length ts = 2 * k + 1
      \<and> ident (ts ! k) = tc)"
proof -
  from assms(2) obtain nb ax ts tax where e: "a = axis_for_direction d"
    "target_neighbor t x d c tg = Some (nb, ax, ts, tax)" "tax \<noteq> ax" "odd (length ts)" "k = length ts div 2"
    "ident (ts ! k) = tc" "side = (if step_for d = - 1 then First else Second)"
    by (auto simp: apply_split_group_child_def attempt_def split: if_split_asm option.split_asm)
  have "length ts = 2 * k + 1" using e(4,5) by presburger
  moreover have "side = (if step_for d = 1 then Second else First)" unfolding e(7) by (cases d) simp_all
  ultimately show ?thesis using e(1-3,6) by blast
qed

subsection \<open>Escape to the parent\<close>

end

lemma escape_binds_iff:
  assumes t: "wf_node t"
  shows "escape_binds t x d c par k ins cont \<longleftrightarrow> (\<exists>pax ps psh cs sh iw. Group par pax ps psh \<in> set (subnodes t)
    \<and> k < length ps \<and> ps ! k = Group c (axis_for_direction d) cs sh \<and> iw < length cs \<and> cs ! iw = Leaf x
    \<and> child_at cs (int iw + step_for d) = None
    \<and> ins = (if pax = axis_for_direction d then Some (k + (if step_for d = 1 then 1 else 0)) else None)
    \<and> cont = (if pax = axis_for_direction d then ContinueNone else ContinueR1))" (is "?lhs \<longleftrightarrow> ?rhs")
proof
  assume ?lhs
  then obtain cs ax i ps pax j iw where e: "find_group t c = Some (cs, ax, i)" "find_group t par = Some (ps, pax, j)"
    "ax = axis_for_direction d" "direct_parent_of_leaf t x = Some c" "child_position cs x = Some iw"
    "\<not> (0 \<le> int iw + step_for d \<and> int iw + step_for d < int (length cs))" "child_position ps c = Some k"
    "if pax = ax then cont = ContinueNone \<and> ins = Some (k + (if step_for d = 1 then 1 else 0))
      else cont = ContinueR1 \<and> ins = None \<and> pax \<noteq> axis_for_direction d"
    by (auto simp: escape_binds_def split: option.split_asm)
  obtain sh where "find_group_full t c = Some (cs, sh, i, ax)" using e(1) by (auto simp: find_group_eq)
  note con = parent_container(2) [OF t e(4) this]
  note f = container_facts [OF t con]
  have sub: "Group c ax cs sh \<in> set (subnodes t)" "Leaf x \<in> set cs" using con by (simp_all add: container_def)
  have iw: "iw < length cs" "cs ! iw = Leaf x" "child_at cs (int iw + step_for d) = None"
    using e(5,6) child_position_iff [OF f(5)] leaf_at_position [OF f(5) sub(2), of iw]
    by (auto simp: child_at_def nat_less_iff)
  obtain psh where par: "Group par pax ps psh \<in> set (subnodes t)"
    using e(2) find_group_full_subnode(1) [of t par] by (fastforce simp: find_group_eq)
  have k: "k < length ps" "ident (ps ! k) = c"
    using e(7) child_position_iff [OF subnode_facts(5) [OF t par]] by auto
  then have kid: "ps ! k \<in> set (subnodes t)" using subnode_trans [OF par] by simp
  have "ps ! k = Group c ax cs sh"
  proof (cases "ps ! k")
    case (Leaf l)
    with k kid have "c \<in> set (leaves t)" using leaves_subnode by fastforce
    with subnode_facts(12) [OF t sub(1)] show ?thesis by simp
  next
    case (Group l b ds dh)
    with k kid subnode_group_unique [OF _ sub(1), of b ds dh] t show ?thesis by (simp add: wf_node_def)
  qed
  with e(3,8) iw par k(1) show ?rhs
    by (intro exI [of _ pax] exI [of _ ps] exI [of _ psh] exI [of _ cs] exI [of _ sh] exI [of _ iw])
      (auto split: if_splits)
next
  assume ?rhs
  then obtain pax ps psh cs sh iw where e: "Group par pax ps psh \<in> set (subnodes t)" "k < length ps"
    "ps ! k = Group c (axis_for_direction d) cs sh" "iw < length cs" "cs ! iw = Leaf x"
    "child_at cs (int iw + step_for d) = None"
    "ins = (if pax = axis_for_direction d then Some (k + (if step_for d = 1 then 1 else 0)) else None)"
    "cont = (if pax = axis_for_direction d then ContinueNone else ContinueR1)"
    by blast
  have kid: "ps ! k \<in> set ps" using e(2) by simp
  have con: "container t x c (axis_for_direction d) cs sh"
    using subnode_trans [OF e(1) kid] e(3-5) by (auto simp: container_def in_set_conv_nth)
  note f = container_facts [OF t con]
  have "parent_of_group t c = Some par" using parent_of_child [OF _ e(1) kid] t e(3) by (simp add: wf_node_def)
  moreover have "child_position ps c = Some k"
    using child_position_iff [OF subnode_facts(5) [OF t e(1)]] e(2,3) by simp
  moreover have "\<not> (0 \<le> int iw + step_for d \<and> int iw + step_for d < int (length cs))"
    using e(6) by (auto simp: child_at_def split: if_splits)
  ultimately show ?lhs
    using f(2,6) subnode_facts(2) [OF t e(1)] position_of_leaf [OF f(5) e(4,5)] e(7,8)
    by (auto simp: escape_binds_def)
qed

text \<open>The parent after the mover has left: its child at the container's place shrinks.\<close>

context share_policy
begin

lemma parent_stays:
  assumes t: "wf_node t" and b: "escape_binds t x d c par k ins cont"
  obtains pax ps psh c' w where "Group par pax ps psh \<in> set (subnodes t)" "k < length ps"
    "remove_leaf_from_tree p (Some t) x = Some w" "wf_node w"
    "leaves w = others x t" "x \<notin> set (node_ids w)" "set (node_ids w) \<subseteq> set (node_ids t)"
    "Group par pax (ps[k := c']) psh \<in> set (subnodes w)" "x \<noteq> []" "x \<in> set (leaves t)"
    "ins = (if pax = axis_for_direction d then Some (k + (if step_for d = 1 then 1 else 0)) else None)"
    "cont = (if pax = axis_for_direction d then ContinueNone else ContinueR1)"
proof -
  from b [unfolded escape_binds_iff [OF t]] obtain pax ps psh cs sh iw where
    e: "Group par pax ps psh \<in> set (subnodes t)" "k < length ps"
    "ps ! k = Group c (axis_for_direction d) cs sh" "iw < length cs" "cs ! iw = Leaf x"
    "ins = (if pax = axis_for_direction d then Some (k + (if step_for d = 1 then 1 else 0)) else None)"
    "cont = (if pax = axis_for_direction d then ContinueNone else ContinueR1)"
    by blast
  have kid: "ps ! k \<in> set ps" using e(2) by simp
  have "Leaf x \<in> set cs" using e(4,5) by (metis nth_mem)
  then have xk: "x \<in> set (leaves (ps ! k))" unfolding e(3) leaves.simps by (rule leaf_child_leaves)
  with kid have x: "x \<in> set (concat (map leaves ps))" by auto
  obtain w where w: "remove_leaf_from_tree p (Some t) x = Some w" "remove_node p t x = Some w" "wf_node w"
    "leaves w = others x t" "x \<notin> set (node_ids w)" "set (node_ids w) \<subseteq> set (node_ids t)"
    using removed_mover [OF t e(1) x] .
  have wt: "wf_groups t" "distinct (leaves t)" using t by (simp_all add: wf_node_def distinct_node_ids)
  have "ps ! k \<noteq> Leaf x" using e(3) by simp
  from remove_below_group [OF wt w(2) e(1,2) xk this] obtain c' where
    "Group par pax (ps[k := c']) psh \<in> set (subnodes w)" by blast
  moreover have "x \<in> set (leaves t)" using x leaves_subnode [OF e(1)] by auto
  moreover from this have "x \<noteq> []" using t leaves_subset_node_ids [of t] by (auto simp: wf_node_def)
  ultimately show thesis using that e(1,2,6,7) w by blast
qed

lemma escape_parent_outcome:
  assumes t: "wf_node t" and ids: "ids_ok ids t" and b: "escape_binds t x d c par k ins cont"
  shows "case ins of
      None \<Rightarrow> \<exists>t'. apply_escape_parent p ids rv t x d c par k ins cont = Some (Some t') \<and> moved x t t'
    | Some ix \<Rightarrow> (case Option.bind (find_group_shares t par) (\<lambda>sh. lp_insertion_shares p sh ix) of
        None \<Rightarrow> apply_escape_parent p ids rv t x d c par k ins cont = Some None
      | Some out \<Rightarrow> \<exists>t'. apply_escape_parent p ids rv t x d c par k ins cont = Some (Some t')
          \<and> (sum_list out \<le> u64_max \<or> wf_node t' \<longrightarrow> moved x t t'))"
proof -
  obtain pax ps psh c' w where w: "Group par pax ps psh \<in> set (subnodes t)" "k < length ps"
    "remove_leaf_from_tree p (Some t) x = Some w" "wf_node w"
    "leaves w = others x t" "x \<notin> set (node_ids w)" "set (node_ids w) \<subseteq> set (node_ids t)"
    "Group par pax (ps[k := c']) psh \<in> set (subnodes w)" "x \<noteq> []" "x \<in> set (leaves t)"
    "ins = (if pax = axis_for_direction d then Some (k + (if step_for d = 1 then 1 else 0)) else None)"
    "cont = (if pax = axis_for_direction d then ContinueNone else ContinueR1)"
    using parent_stays [OF t b] .
  note s = subnode_facts [OF w(4,8)]
  have dw: "distinct (node_ids w)" using w(4) by (simp add: wf_node_def)
  show ?thesis
  proof (cases "pax = axis_for_direction d")
    case True
    let ?ix = "k + (if step_for d = 1 then 1 else 0)"
    have ins: "ins = Some ?ix" "cont = ContinueNone" using True w(11,12) by simp_all
    have ix: "?ix \<le> length (ps[k := c'])" using w(2) by simp
    have len: "group_children_len w par = Some (length ps)" using s(1) by (simp add: group_children_len_eq)
    have code: "apply_escape_parent p ids rv t x d c par k ins cont = Some (insert_leaf_into_group p w par ?ix (Leaf x))"
      using b w(3) s(6) len ix unfolding ins by (simp add: apply_escape_parent_def attempt_def)
    note out = insert_leaf_moved [OF w(4,6,9,8) ix]
    have shares: "find_group_shares t par = Some psh" by (rule subnode_facts(3) [OF t w(1)])
    show ?thesis
    proof (cases "lp_insertion_shares p psh ?ix")
      case None
      with out code shares ins show ?thesis by simp
    next
      case (Some o')
      with out obtain t' where "insert_leaf_into_group p w par ?ix (Leaf x) = Some t'"
        "sum_list o' \<le> u64_max \<or> wf_node t' \<longrightarrow> moved x w t'" by auto
      with moved_back [OF _ w(5)] Some code shares ins show ?thesis by simp
    qed
  next
    case False
    have ins: "ins = None" "cont = ContinueR1" using False w(11,12) by simp_all
    let ?P = "Group par pax (ps[k := c']) psh"
    obtain g where g: "generate_move_group_id x rv ''r3r1'' ids = Some g" "g \<notin> set (node_ids t)" "g \<noteq> []"
      using ids_ok_fresh [OF ids] .
    have new: "distinct [g, x]" "[] \<notin> set [g, x]" "set [g, x] \<inter> set (node_ids w) = {}"
      using g(2,3) w(6,7,9,10) leaves_subset_node_ids [of t] by auto
    let ?u = "pair_group p g (axis_for_direction d) (step_for d = - 1) (Leaf x) ?P"
    have xP: "x \<notin> set (leaves ?P)"
      using w(6) subnode_ids [OF w(8)] leaves_subset_node_ids [of ?P] by blast
    have "wf_groups ?u" using pair_group_wf s(4,7) by simp
    moreover have "filter (\<lambda>y. y \<noteq> x) (leaves ?u) = filter (\<lambda>y. y \<noteq> x) (concat (map leaves (ps[k := c'])))"
      using pair_group_leaves(2) [OF xP] filter_neq_absent [OF xP] by simp
    moreover have "mset (node_ids ?u) \<subseteq># mset (node_ids ?P) + mset [g, x]"
      unfolding pair_group_ids by simp
    ultimately obtain t' where t': "update_group par (\<lambda>_ _ _. Some ?u) w = Some t'" "wf_node t'"
      "others x t' = others x w" "?u \<in> set (subnodes t')"
      using update_group_result [where f = "\<lambda>_ _ _. Some ?u" and new = "[g, x]", OF w(4,8) refl] new by blast
    have "moved x w t'" using t' leaves_subnode [OF t'(4)] by (auto simp: moved_def pair_group_def)
    with moved_back [OF _ w(5)] have "moved x t t'" by blast
    moreover have "apply_escape_parent p ids rv t x d c par k ins cont = Some (Some t')"
      using b w(3) find_subtree_group [OF dw w(8)] g(1) replace_node_update(1) [OF s(12)] t'(1) unfolding ins
      by (simp add: apply_escape_parent_def attempt_def)
    ultimately show ?thesis using ins by simp
  qed
qed

end

end
