(* ===== verification/Session_Move_Plans.thy ===== *)
theory Session_Move_Plans
  imports Session_Move_Exact
begin

text \<open>
  The operations of the planner, as \<open>op_fits\<close> describes them, are the operations that the session applies:
  both sides state the same conditions on the tree, the planner once and \<open>apply_move_operation\<close> again.
\<close>

subsection \<open>The planner's operations and the session's\<close>

text \<open>What the same-axis mode asks of an operation, beyond that it fits the tree.\<close>

fun mode_fits :: "node \<Rightarrow> same_axis_move \<Rightarrow> move_operation \<Rightarrow> bool" where
  "mode_fits t mode (SwapNeighbor r c n) \<longleftrightarrow> r = R2c \<longrightarrow> mode = SwapWithNeighbor"
| "mode_fits t mode (WrapNeighbor r c n before a) \<longleftrightarrow> mode = SwapWithNeighbor \<longrightarrow> n \<notin> set (leaves t)"
| "mode_fits t mode op \<longleftrightarrow> True"

text \<open>The shares of the group that the mover enters; \<open>None\<close> when the policy cannot represent them.\<close>

fun entrant_shares :: "layout_policy \<Rightarrow> node \<Rightarrow> move_operation \<Rightarrow> nat list option" where
  "entrant_shares p t (InsertIntoGroup r c tg k ins) = Option.bind (find_group_shares t tg) (\<lambda>sh. lp_insertion_shares p sh k)"
| "entrant_shares p t (EscapeParent r c par k (Some ix) cont) =
     Option.bind (find_group_shares t par) (\<lambda>sh. lp_insertion_shares p sh ix)"
| "entrant_shares p t op = Some []"

lemma child_at_None: "child_at cs (int i + step_for d) = None \<longleftrightarrow> \<not> (\<exists>j < length cs. int j = int i + step_for d)"
  by (metis child_at_step not_None_eq option.distinct(1))

lemma leaf_child_iff:
  assumes "wf_node t" "Group c ax cs sh \<in> set (subnodes t)" "d \<in> set cs"
  shows "is_leaf d \<longleftrightarrow> ident d \<in> set (leaves t)"
proof (cases d)
  case (Leaf i)
  with assms(3) have "i \<in> set (leaves (Group c ax cs sh))" by force
  with leaves_subnode [OF assms(2)] Leaf show ?thesis by auto
next
  case (Group i b ds dh)
  then have "Group i b ds dh \<in> set (subnodes t)" using subnode_trans [OF assms(2)] assms(3) by simp
  with subnode_facts(12) [OF assms(1)] Group show ?thesis by simp
qed

lemma op_fits_wrap_perpendicular: "op_fits t x d (WrapPerpendicular r c a) \<longleftrightarrow> r = R1 \<and> a = axis_for_direction d
    \<and> (\<exists>ax cs sh. container t x c ax cs sh \<and> ax \<noteq> a)"
  by (auto simp: at_group_iff container_def)

lemma op_fits_swap_neighbor: "op_fits t x d (SwapNeighbor r c n) \<longleftrightarrow> (\<exists>cs sh iw i. container t x c (axis_for_direction d) cs sh
    \<and> r = (if length cs = 2 then R2a else R2c)
    \<and> iw < length cs \<and> cs ! iw = Leaf x \<and> i < length cs \<and> cs ! i = Leaf n \<and> int i = int iw + step_for d)"
  by (auto simp: at_group_iff container_def focused_child_def child_at_step in_set_conv_nth)

lemma op_fits_wrap_neighbor: "op_fits t x d (WrapNeighbor r c n before a) \<longleftrightarrow> r = R2c \<and> a = axis_for_direction d
    \<and> before = (step_for d = 1) \<and> (\<exists>cs sh iw i. container t x c (axis_for_direction d) cs sh \<and> 3 \<le> length cs
      \<and> iw < length cs \<and> cs ! iw = Leaf x \<and> i < length cs \<and> ident (cs ! i) = n \<and> int i = int iw + step_for d)"
  by (auto simp: at_group_iff container_def focused_child_def child_at_step in_set_conv_nth)

lemma op_fits_target: "op_fits t x d (InsertIntoGroup r c tg k ins) \<longleftrightarrow> r = R2b
    \<and> (\<exists>cs sh iw nb ts tax tsh. container t x c (axis_for_direction d) cs sh \<and> length cs = 2 \<and> iw < length cs
      \<and> cs ! iw = Leaf x \<and> child_at cs (int iw + step_for d) = Some nb \<and> nb = Group tg tax ts tsh
      \<and> insertion_fits_op t d (axis_for_direction d) ts tax k ins)"
  (is "?lhs \<longleftrightarrow> ?rhs")
proof
  assume ?lhs
  then obtain cs sh iw where r: "r = R2b" and c: "Group c (axis_for_direction d) cs sh \<in> set (subnodes t)" "length cs = 2"
    "iw < length cs" "cs ! iw = Leaf x" and n: "case child_at cs (int iw + step_for d) of
        Some (Group g' a' cs' sh') \<Rightarrow> g' = tg
          \<and> (if a' = axis_for_direction d then ins = NearEdge \<and> k = (if step_for d = 1 then 0 else length cs')
             else ins = Midpoint \<and> 2 * k = length cs')
      | _ \<Rightarrow> False"
    unfolding op_fits.simps at_group_iff focused_child_def by blast
  from n obtain tax ts tsh where "child_at cs (int iw + step_for d) = Some (Group tg tax ts tsh)"
    "insertion_fits_op t d (axis_for_direction d) ts tax k ins"
    by (auto simp: insertion_fits_op_def split: option.splits node.splits)
  moreover have "container t x c (axis_for_direction d) cs sh" using c nth_mem [OF c(3)] by (simp add: container_def)
  ultimately show ?rhs using r c by blast
next
  assume ?rhs
  then obtain cs sh iw ts tax tsh where r: "r = R2b"
    and c: "Group c (axis_for_direction d) cs sh \<in> set (subnodes t)" "length cs = 2" "iw < length cs" "cs ! iw = Leaf x"
    "child_at cs (int iw + step_for d) = Some (Group tg tax ts tsh)"
    "insertion_fits_op t d (axis_for_direction d) ts tax k ins"
    unfolding container_def by blast
  have "focused_child cs x d (\<lambda>i nb. case nb of
        Some (Group g' a' cs' sh') \<Rightarrow> g' = tg
          \<and> (if a' = axis_for_direction d then ins = NearEdge \<and> k = (if step_for d = 1 then 0 else length cs')
             else ins = Midpoint \<and> 2 * k = length cs')
      | _ \<Rightarrow> False)"
    using c by (intro focused_childI [of iw]) (simp_all add: insertion_fits_op_def)
  with r c show ?lhs unfolding op_fits.simps at_group_iff by blast
qed

lemma op_fits_insert_into_group:
  assumes "wf_node t"
  shows "op_fits t x d (InsertIntoGroup r c tg k ins) \<longleftrightarrow> r = R2b \<and> (\<exists>nb ax ts tax. target_neighbor t x d c tg = Some (nb, ax, ts, tax)
    \<and> insertion_fits_op t d ax ts tax k ins)"
  unfolding op_fits_target target_neighbor_iff [OF assms] by blast

lemma op_fits_split: "op_fits t x d (SplitGroupChild r c tg tc k side a) \<longleftrightarrow> r = R2b \<and> a = axis_for_direction d
    \<and> side = (if step_for d = 1 then Second else First)
    \<and> (\<exists>cs sh iw nb ts tax tsh. container t x c (axis_for_direction d) cs sh \<and> length cs = 2 \<and> iw < length cs
      \<and> cs ! iw = Leaf x \<and> child_at cs (int iw + step_for d) = Some nb \<and> nb = Group tg tax ts tsh
      \<and> tax \<noteq> axis_for_direction d \<and> length ts = 2 * k + 1 \<and> ident (ts ! k) = tc)"
  (is "?lhs \<longleftrightarrow> ?rhs")
proof
  assume ?lhs
  then obtain cs sh iw where r: "r = R2b" "a = axis_for_direction d" "side = (if step_for d = 1 then Second else First)"
    and c: "Group c (axis_for_direction d) cs sh \<in> set (subnodes t)" "length cs = 2"
    "iw < length cs" "cs ! iw = Leaf x" and n: "case child_at cs (int iw + step_for d) of
        Some (Group g' a' cs' sh') \<Rightarrow> g' = tg \<and> a' \<noteq> axis_for_direction d \<and> length cs' = 2 * k + 1
             \<and> ident (cs' ! k) = tc
      | _ \<Rightarrow> False"
    unfolding op_fits.simps at_group_iff focused_child_def by blast
  from n obtain tax ts tsh where "child_at cs (int iw + step_for d) = Some (Group tg tax ts tsh)"
    "tax \<noteq> axis_for_direction d" "length ts = 2 * k + 1" "ident (ts ! k) = tc"
    by (simp split: option.splits node.splits)
  moreover have "container t x c (axis_for_direction d) cs sh" using c nth_mem [OF c(3)] by (simp add: container_def)
  ultimately show ?rhs using r c by blast
next
  assume ?rhs
  then obtain cs sh iw ts tax tsh where r: "r = R2b" "a = axis_for_direction d" "side = (if step_for d = 1 then Second else First)"
    and c: "Group c (axis_for_direction d) cs sh \<in> set (subnodes t)" "length cs = 2" "iw < length cs" "cs ! iw = Leaf x"
    "child_at cs (int iw + step_for d) = Some (Group tg tax ts tsh)"
    "tax \<noteq> axis_for_direction d" "length ts = 2 * k + 1" "ident (ts ! k) = tc"
    unfolding container_def by blast
  have "focused_child cs x d (\<lambda>i nb. case nb of
        Some (Group g' a' cs' sh') \<Rightarrow> g' = tg \<and> a' \<noteq> axis_for_direction d \<and> length cs' = 2 * k + 1 \<and> ident (cs' ! k) = tc
      | _ \<Rightarrow> False)"
    using c by (intro focused_childI [of iw]) simp_all
  with r c show ?lhs unfolding op_fits.simps at_group_iff by blast
qed

lemma op_fits_split_group_child:
  assumes "wf_node t"
  shows "op_fits t x d (SplitGroupChild r c tg tc k side a) \<longleftrightarrow> r = R2b \<and> a = axis_for_direction d
    \<and> side = (if step_for d = 1 then Second else First)
    \<and> (\<exists>nb ax ts tax. target_neighbor t x d c tg = Some (nb, ax, ts, tax) \<and> tax \<noteq> ax \<and> length ts = 2 * k + 1
      \<and> ident (ts ! k) = tc)"
  unfolding op_fits_split target_neighbor_iff [OF assms] by blast

lemma op_fits_escape_parent:
  assumes "wf_node t"
  shows "op_fits t x d (EscapeParent r c par k ins cont) \<longleftrightarrow> r = R3 \<and> escape_binds t x d c par k ins cont"
    (is "?lhs \<longleftrightarrow> ?rhs")
proof
  assume ?lhs
  then obtain pax ps psh where r: "r = R3" and g: "Group par pax ps psh \<in> set (subnodes t)" "k < length ps"
    and n: "case ps ! k of Leaf i \<Rightarrow> False
       | Group c' ax cs sh \<Rightarrow> c' = c \<and> ax = axis_for_direction d \<and> focused_child cs x d (\<lambda>i nb. nb = None)
           \<and> ins = (if pax = ax then Some (if step_for d = 1 then k + 1 else k) else None)
           \<and> cont = (if pax = ax then ContinueNone else ContinueR1)"
    unfolding op_fits.simps at_group_iff by blast
  from n obtain cs sh where "ps ! k = Group c (axis_for_direction d) cs sh" "focused_child cs x d (\<lambda>i nb. nb = None)"
    "ins = (if pax = axis_for_direction d then Some (k + (if step_for d = 1 then 1 else 0)) else None)"
    "cont = (if pax = axis_for_direction d then ContinueNone else ContinueR1)"
    by (simp split: node.splits if_splits)
  with r g show ?rhs unfolding escape_binds_iff [OF assms] focused_child_def by blast
next
  assume ?rhs
  then obtain pax ps psh cs sh iw where r: "r = R3" and g: "Group par pax ps psh \<in> set (subnodes t)"
    "k < length ps" "ps ! k = Group c (axis_for_direction d) cs sh" "iw < length cs" "cs ! iw = Leaf x"
    "child_at cs (int iw + step_for d) = None"
    "ins = (if pax = axis_for_direction d then Some (k + (if step_for d = 1 then 1 else 0)) else None)"
    "cont = (if pax = axis_for_direction d then ContinueNone else ContinueR1)"
    unfolding escape_binds_iff [OF assms] by blast
  have "focused_child cs x d (\<lambda>i nb. nb = None)" using g by (intro focused_childI [of iw]) simp_all
  with g have "case ps ! k of Leaf i \<Rightarrow> False
       | Group c' ax cs sh \<Rightarrow> c' = c \<and> ax = axis_for_direction d \<and> focused_child cs x d (\<lambda>i nb. nb = None)
           \<and> ins = (if pax = ax then Some (if step_for d = 1 then k + 1 else k) else None)
           \<and> cont = (if pax = ax then ContinueNone else ContinueR1)"
    by simp
  with r g(1,2) show ?lhs unfolding op_fits.simps at_group_iff by blast
qed

subsection \<open>The outcome of each operation\<close>

text \<open>
  Refused when the entered group's shares are unrepresentable, and otherwise a tree in which only the
  mover has moved (unless the new shares sum beyond 64 bits, which the topology check then refuses).
\<close>

definition outcome_as :: "node_id \<Rightarrow> node \<Rightarrow> nat list option \<Rightarrow> node option option \<Rightarrow> bool" where
  "outcome_as x t shares r \<longleftrightarrow> (case shares of
     None \<Rightarrow> r = Some None
   | Some out \<Rightarrow> \<exists>t'. r = Some (Some t') \<and> (sum_list out \<le> u64_max \<or> wf_node t' \<longrightarrow> moved x t t'))"

lemma outcome_plain: "\<exists>t'. r = Some (Some t') \<and> moved x t t' \<Longrightarrow> outcome_as x t (Some []) r"
  by (auto simp: outcome_as_def)

lemma outcome_applied: "outcome_as x t shares r \<Longrightarrow> shares \<noteq> None \<longleftrightarrow> (\<exists>t'. r = Some (Some t'))"
  by (auto simp: outcome_as_def split: option.splits)

context share_policy
begin

lemma apply_swap_neighbor_cases: "apply_swap_neighbor t x d mode r c n =
    (if r = R2c \<and> mode = SwapWithNeighbor then swap_in_group (\<lambda>k m. 3 \<le> k \<and> m = k) t x d c n
     else if r = R2a then swap_in_group (\<lambda>k m. k = 2 \<and> m = 2) t x d c n else None)"
  by (simp add: apply_swap_neighbor_def)

lemma swap_neighbor_outcome:
  assumes t: "wf_node t" and f: "op_fits t x d (SwapNeighbor r c n)" and m: "mode_fits t mode (SwapNeighbor r c n)"
  shows "outcome_as x t (Some []) (Some (apply_swap_neighbor t x d mode r c n))"
proof -
  from f [unfolded op_fits_swap_neighbor] obtain cs sh iw i where
    c: "container t x c (axis_for_direction d) cs sh" and r: "r = (if length cs = 2 then R2a else R2c)"
    and nb: "iw < length cs" "cs ! iw = Leaf x" "i < length cs" "cs ! i = Leaf n" "int i = int iw + step_for d"
    by blast
  have two: "2 \<le> length cs" using container_facts(4) [OF t c] by (simp add: group_ok_def)
  show ?thesis
  proof (cases "length cs = 2")
    case True
    with r m swap_in_group_applies [OF t c, of "\<lambda>k m. k = 2 \<and> m = 2", OF _ nb] show ?thesis
      by (intro outcome_plain) (simp add: apply_swap_neighbor_cases)
  next
    case False
    with two have "3 \<le> length cs" by simp
    with False r m swap_in_group_applies [OF t c, of "\<lambda>k m. 3 \<le> k \<and> m = k", OF _ nb] show ?thesis
      by (intro outcome_plain) (simp add: apply_swap_neighbor_cases)
  qed
qed

lemma swap_neighbor_accepts:
  assumes t: "wf_node t" and a: "apply_swap_neighbor t x d mode r c n = Some t'"
  shows "op_fits t x d (SwapNeighbor r c n) \<and> mode_fits t mode (SwapNeighbor r c n)"
proof (cases "r = R2c \<and> mode = SwapWithNeighbor")
  case True
  with a have "swap_in_group (\<lambda>k m. 3 \<le> k \<and> m = k) t x d c n = Some t'" by (simp add: apply_swap_neighbor_def)
  from swap_in_group_fits [OF t this] obtain cs sh iw i where
    "container t x c (axis_for_direction d) cs sh" "3 \<le> length cs" "iw < length cs" "cs ! iw = Leaf x"
    "i < length cs" "cs ! i = Leaf n" "int i = int iw + step_for d" by blast
  moreover from this(2) True have "r = (if length cs = 2 then R2a else R2c)" by simp
  ultimately show ?thesis using True unfolding op_fits_swap_neighbor mode_fits.simps by blast
next
  case False
  with a have r: "r = R2a" "swap_in_group (\<lambda>k m. k = 2 \<and> m = 2) t x d c n = Some t'"
    by (auto simp: apply_swap_neighbor_def split: if_splits)
  from swap_in_group_fits [OF t r(2)] obtain cs sh iw i where
    "container t x c (axis_for_direction d) cs sh" "length cs = 2" "iw < length cs" "cs ! iw = Leaf x"
    "i < length cs" "cs ! i = Leaf n" "int i = int iw + step_for d" by blast
  moreover from this(2) r(1) have "r = (if length cs = 2 then R2a else R2c)" by simp
  ultimately show ?thesis using r(1) unfolding op_fits_swap_neighbor mode_fits.simps by (metis rule.distinct)
qed

lemma wrap_neighbor_outcome:
  assumes t: "wf_node t" and ids: "ids_ok ids t" and f: "op_fits t x d (WrapNeighbor r c n before a)"
    and m: "mode_fits t mode (WrapNeighbor r c n before a)"
  shows "outcome_as x t (Some []) (apply_wrap_neighbor p ids rv t x d mode c n before a)"
proof -
  from f [unfolded op_fits_wrap_neighbor] obtain cs sh iw i where
    c: "container t x c (axis_for_direction d) cs sh" "3 \<le> length cs" and e: "a = axis_for_direction d" "before = (step_for d = 1)"
    and nb: "iw < length cs" "cs ! iw = Leaf x" "i < length cs" "ident (cs ! i) = n" "int i = int iw + step_for d"
    by blast
  have "Group c (axis_for_direction d) cs sh \<in> set (subnodes t)" using c(1) by (simp add: container_def)
  from leaf_child_iff [OF t this nth_mem [OF nb(3)]] m nb(4)
  have "mode = SwapWithNeighbor \<Longrightarrow> \<not> is_leaf (cs ! i)" by simp
  from wrap_neighbor_applies [OF t c(1) ids nb c(2) this] show ?thesis unfolding e by (rule outcome_plain)
qed

lemma wrap_neighbor_accepts:
  assumes t: "wf_node t" and a: "apply_wrap_neighbor p ids rv t x d mode c n before a = Some (Some t')"
  shows "op_fits t x d (WrapNeighbor R2c c n before a) \<and> mode_fits t mode (WrapNeighbor R2c c n before a)"
proof -
  from wrap_neighbor_fits [OF t a] obtain cs sh iw i where e: "a = axis_for_direction d" "before = (step_for d = 1)"
    and c: "container t x c (axis_for_direction d) cs sh" "3 \<le> length cs"
    and nb: "iw < length cs" "cs ! iw = Leaf x" "i < length cs" "ident (cs ! i) = n" "int i = int iw + step_for d"
    and m: "mode = SwapWithNeighbor \<longrightarrow> \<not> is_leaf (cs ! i)" by blast
  have "Group c (axis_for_direction d) cs sh \<in> set (subnodes t)" using c(1) by (simp add: container_def)
  from leaf_child_iff [OF t this nth_mem [OF nb(3)]] m nb(4)
  have "mode_fits t mode (WrapNeighbor R2c c n before a)" by simp
  moreover have "op_fits t x d (WrapNeighbor R2c c n before a)"
    unfolding op_fits_wrap_neighbor using e c nb by blast
  ultimately show ?thesis by blast
qed

lemma insert_into_group_accepts:
  assumes t: "wf_node t"
  shows "if op_fits t x d (InsertIntoGroup R2b c tg k ins)
    then outcome_as x t (entrant_shares p t (InsertIntoGroup r c tg k ins)) (Some (apply_insert_into_group p t x d c tg k ins))
    else apply_insert_into_group p t x d c tg k ins = None"
proof (cases "target_neighbor t x d c tg")
  case None
  with insert_into_group_outcome [OF t, of x d c tg k ins] op_fits_insert_into_group [OF t, of x d R2b c tg k ins]
  show ?thesis by simp
next
  case (Some a)
  obtain nb ax ts tax where a: "a = (nb, ax, ts, tax)" by (cases a)
  have fits: "op_fits t x d (InsertIntoGroup R2b c tg k ins) \<longleftrightarrow> insertion_fits_op t d ax ts tax k ins"
    unfolding op_fits_insert_into_group [OF t] Some a by simp
  from insert_into_group_outcome [OF t, of x d c tg k ins, unfolded Some a option.case prod.case] obtain tsh where
    n: "Group tg tax ts tsh \<in> set (subnodes t)" and out: "if insertion_fits_op t d ax ts tax k ins
           then (case lp_insertion_shares p tsh k of
               None \<Rightarrow> apply_insert_into_group p t x d c tg k ins = None
             | Some out \<Rightarrow> \<exists>t'. apply_insert_into_group p t x d c tg k ins = Some t'
                 \<and> (sum_list out \<le> u64_max \<or> wf_node t' \<longrightarrow> moved x t t'))
           else apply_insert_into_group p t x d c tg k ins = None" by blast
  have "find_group_shares t tg = Some tsh" by (rule subnode_facts(3) [OF t n])
  with out show ?thesis by (auto simp: fits outcome_as_def simp del: op_fits.simps split: option.splits if_splits)
qed

lemma split_group_child_outcome:
  assumes t: "wf_node t" and ids: "ids_ok ids t" and f: "op_fits t x d (SplitGroupChild r c tg tc k side a)"
  shows "outcome_as x t (Some []) (apply_split_group_child p ids rv t x d c tg tc k side a)"
proof -
  from f [unfolded op_fits_split_group_child [OF t]] obtain nb ax ts tax where e: "a = axis_for_direction d"
    "side = (if step_for d = 1 then Second else First)" and n: "target_neighbor t x d c tg = Some (nb, ax, ts, tax)"
    "tax \<noteq> ax" "length ts = 2 * k + 1" "ident (ts ! k) = tc" by blast
  show ?thesis unfolding e by (rule outcome_plain [OF split_group_child_applies [OF t ids n]])
qed

lemma split_group_child_accepts:
  "wf_node t \<Longrightarrow> apply_split_group_child p ids rv t x d c tg tc k side a = Some (Some t')
    \<Longrightarrow> op_fits t x d (SplitGroupChild R2b c tg tc k side a)"
  by (simp only: op_fits_split_group_child split_group_child_fits simp_thms)

lemma escape_parent_accepts:
  assumes t: "wf_node t" and ids: "ids_ok ids t"
  shows "if op_fits t x d (EscapeParent R3 c par k ins cont)
    then outcome_as x t (entrant_shares p t (EscapeParent r c par k ins cont)) (apply_escape_parent p ids rv t x d c par k ins cont)
    else apply_escape_parent p ids rv t x d c par k ins cont = Some None"
proof (cases "escape_binds t x d c par k ins cont")
  case True
  with escape_parent_outcome [OF t ids True, of rv] show ?thesis
    by (cases ins) (auto simp: op_fits_escape_parent [OF t] outcome_as_def simp del: op_fits.simps split: option.splits)
next
  case False
  then show ?thesis by (simp add: op_fits_escape_parent [OF t] apply_escape_parent_def del: op_fits.simps)
qed

text \<open>The whole operation.\<close>

lemma apply_local_outcome:
  assumes t: "wf_node t" and ids: "ids_ok ids t" and f: "op_fits t x d op" and m: "mode_fits t mode op"
  shows "outcome_as x t (entrant_shares p t op) (apply_local p ids rv t x d mode op)"
proof (cases op)
  case (WrapPerpendicular r c a)
  from f [unfolded this op_fits_wrap_perpendicular] obtain ax cs sh where c: "a = axis_for_direction d"
    "container t x c ax cs sh" "ax \<noteq> a" by blast
  show ?thesis unfolding WrapPerpendicular apply_local.simps entrant_shares.simps c(1)
    by (rule outcome_plain [OF wrap_perpendicular_applies [OF t c(2) c(3) [unfolded c(1)] ids]])
next
  case (SwapNeighbor r c n)
  show ?thesis unfolding SwapNeighbor apply_local.simps entrant_shares.simps
    by (rule swap_neighbor_outcome [OF t f [unfolded SwapNeighbor] m [unfolded SwapNeighbor]])
next
  case (InsertIntoGroup r c tg k ins)
  have "op_fits t x d (InsertIntoGroup R2b c tg k ins)" using f by (simp add: InsertIntoGroup)
  with insert_into_group_accepts [OF t, of x d c tg k ins r] show ?thesis
    unfolding InsertIntoGroup apply_local.simps by (simp only: if_True)
next
  case (SplitGroupChild r c tg tc k side a)
  show ?thesis unfolding SplitGroupChild apply_local.simps entrant_shares.simps
    by (rule split_group_child_outcome [OF t ids f [unfolded SplitGroupChild]])
next
  case (WrapNeighbor r c n before a)
  show ?thesis unfolding WrapNeighbor apply_local.simps entrant_shares.simps
    by (rule wrap_neighbor_outcome [OF t ids f [unfolded WrapNeighbor] m [unfolded WrapNeighbor]])
next
  case (EscapeParent r c par k ins cont)
  have "op_fits t x d (EscapeParent R3 c par k ins cont)" using f by (simp add: EscapeParent)
  with escape_parent_accepts [OF t ids, of x d c par k ins cont r rv] show ?thesis
    unfolding EscapeParent apply_local.simps by (simp only: if_True)
next
  case (CrossOutput r to tw k target)
  with f show ?thesis by simp
qed

lemma apply_local_accepts:
  assumes t: "wf_node t" and ids: "ids_ok ids t" and r: "canonical_rule op (op_rule op)"
    and a: "apply_local p ids rv t x d mode op = Some (Some t')"
  shows "op_fits t x d op \<and> mode_fits t mode op"
proof (cases op)
  case (WrapPerpendicular r' c a')
  with a wrap_perpendicular_fits [OF t, of ids rv x d c a'] have "op_fits t x d op"
    using r unfolding WrapPerpendicular op_fits_wrap_perpendicular by simp blast
  then show ?thesis by (simp add: WrapPerpendicular del: op_fits.simps)
next
  case (SwapNeighbor r' c n)
  with a swap_neighbor_accepts [OF t, of x d mode r' c n t'] show ?thesis by simp
next
  case (InsertIntoGroup r' c tg k ins)
  with r have "r' = R2b" by simp
  with InsertIntoGroup a insert_into_group_accepts [OF t, of x d c tg k ins r'] show ?thesis
    by (simp del: op_fits.simps split: if_splits)
next
  case (SplitGroupChild r' c tg tc k side a')
  with r have "r' = R2b" by simp
  with SplitGroupChild a split_group_child_accepts [OF t, of ids rv x d c tg tc k side a' t'] show ?thesis
    by (simp del: op_fits.simps)
next
  case (WrapNeighbor r' c n before a')
  with r have "r' = R2c" by simp
  with WrapNeighbor a wrap_neighbor_accepts [OF t, of ids rv x d mode c n before a' t'] show ?thesis
    by (simp del: op_fits.simps)
next
  case (EscapeParent r' c par k ins cont)
  with r have "r' = R3" by simp
  with EscapeParent a escape_parent_accepts [OF t ids, of x d c par k ins cont r' rv] show ?thesis
    by (simp del: op_fits.simps split: if_splits)
next
  case (CrossOutput r' to tw k target)
  with a show ?thesis by simp
qed

lemma fits_canonical: "op_fits t x d op \<Longrightarrow> canonical_rule op (op_rule op)"
  by (cases op) (auto simp: op_fits_swap_neighbor simp del: op_fits.simps(2) split: if_splits)

lemma apply_local_exact:
  assumes t: "wf_node t" and ids: "ids_ok ids t"
  shows "canonical_rule op (op_rule op) \<and> (\<exists>t'. apply_local p ids rv t x d mode op = Some (Some t'))
    \<longleftrightarrow> op_fits t x d op \<and> mode_fits t mode op \<and> entrant_shares p t op \<noteq> None"
  using apply_local_accepts [OF t ids] outcome_applied [OF apply_local_outcome [OF t ids]] fits_canonical by metis

end

subsection \<open>What the planner emits\<close>

lemma plan_neighbor_mode:
  assumes "plan_neighbor intent l ni nb = Planned plan"
    and "child_at (pl_children l) (int (pl_index l)) = Some (Leaf x)" "\<not> is_leaf nb \<Longrightarrow> ident nb \<notin> set (leaves t)"
  shows "mode_fits t (mi_same_axis_move intent) (mp_operation plan)"
  using assms
  by (auto simp: plan_neighbor_def plan_into_group_def Let_def split: if_splits node.splits option.splits)

lemma plan_local_mode:
  assumes t: "wf_node t" and path: "path_ok t path x" and plan: "plan_local intent source path = Planned plan"
  shows "mode_fits t (mi_same_axis_move intent) (mp_operation plan)"
proof (cases path rule: rev_cases)
  case Nil
  with plan show ?thesis by (simp add: plan_local_def)
next
  case (snoc q l)
  from path_ok_last_level [OF path [unfolded snoc]] obtain sh where
    node: "path_node t q = Group (pl_group l) (pl_axis l) (pl_children l) sh"
    and l: "pl_index l < length (pl_children l)" "pl_children l ! pl_index l = Leaf x" .
  have sub: "Group (pl_group l) (pl_axis l) (pl_children l) sh \<in> set (subnodes t)"
    using path_node_subnodes [of t q "[l]" x] path node snoc by simp
  have mover: "child_at (pl_children l) (int (pl_index l)) = Some (Leaf x)" using l by (simp add: child_at_def)
  show ?thesis
  proof (cases "child_at (pl_children l) (int (pl_index l) + step_for (mi_direction intent))")
    case (Some nb)
    then have "nb \<in> set (pl_children l)" by (auto simp: child_at_step)
    from leaf_child_iff [OF t sub this] have "\<not> is_leaf nb \<Longrightarrow> ident nb \<notin> set (leaves t)" by simp
    from plan_neighbor_mode [OF _ mover this] plan show ?thesis
      by (auto simp: plan_local_def snoc Let_def Some split: if_splits)
  next
    case None
    with plan show ?thesis by (auto simp: plan_local_def snoc Let_def plan_escape_def split: if_splits)
  qed
qed

lemma forest_wf_node: "forest_ok os \<Longrightarrow> o' \<in> set os \<Longrightarrow> out_tree o' = Some t \<Longrightarrow> wf_node t"
  using distinct_concat_member [of tree_ids os o']
  by (fastforce simp: forest_ok_def wf_node_def tree_ids_def)

text \<open>Every local operation that the planner emits fits the tree and the mode it was asked in.\<close>

lemma planner_emits_fitting:
  assumes plan: "plan_move_with_capabilities snap intent caps = Planned plan"
  obtains src t where "validate_snapshot snap intent = Inr src" "out_tree src = Some t" "wf_node t"
    "plan = for_operation intent (mp_operation plan)" "mode_fits t (mi_same_axis_move intent) (mp_operation plan)"
    "op_fits t (mi_focused_leaf intent) (mi_direction intent) (mp_operation plan)
      \<or> cross_fits snap src t intent (mp_operation plan)"
proof -
  let ?x = "mi_focused_leaf intent"
  obtain src t where src: "validate_snapshot snap intent = Inr src" "out_tree src = Some t" "?x \<in> set (leaves t)"
    using plan_move_source [OF plan] .
  have t: "wf_node t"
    using src(1,2) forest_wf_node by (auto simp: validate_snapshot_iff wf_snapshot_def)
  obtain path where path: "path_to t ?x = Some path"
    using src(3) path_to_None [of t ?x] by (cases "path_to t ?x") auto
  have "mode_fits t (mi_same_axis_move intent) (mp_operation plan)"
  proof (cases "plan_local intent src path")
    case (Planned q)
    with plan src path have "q = plan" by (auto simp: plan_move_with_capabilities_def gate_def Let_def split: if_splits)
    with plan_local_mode [OF t path_to_ok [OF path]] Planned show ?thesis by simp
  next
    case (Noop reason)
    with plan src path have "plan_cross_output snap intent caps src path (plan_local intent src path = Noop SingleRootLeaf \<and> path = [] \<and> is_leaf t) = Planned plan"
      by (auto simp: plan_move_with_capabilities_def gate_def Let_def split: if_splits)
    then show ?thesis
      by (auto simp: plan_cross_output_def gate_planned split: option.splits if_splits)
  qed (use plan src path in \<open>simp add: plan_move_with_capabilities_def gate_def Let_def\<close>)
  moreover from plan_sound [OF plan] obtain src' t' where "src' \<in> set (snap_outputs snap)" "out_id src' = mi_source_output intent"
    "out_tree src' = Some t'" "plan = for_operation intent (mp_operation plan)"
    "op_fits t' ?x (mi_direction intent) (mp_operation plan) \<or> cross_fits snap src' t' intent (mp_operation plan)" by blast
  moreover from this(1,2) src(1) have "src' = src"
    using output_unique [of snap src' src] by (auto simp: validate_snapshot_iff)
  ultimately show thesis using that [OF src(1,2) t] src(2) by simp
qed

subsection \<open>Agreement\<close>

lemma attempt_iff: "attempt m f = Some (Some v) \<longleftrightarrow> (\<exists>u. m = Some u \<and> f u = Some (Some v))"
  by (cases m) (auto simp: attempt_def)

lemma tree_ids_ok:
  assumes "om_ok trees" "tree_at trees k = Some t" "card (all_node_ids trees) + 1 < 2 ^ 32"
  shows "ids_ok (all_node_ids trees) t"
proof -
  have "Some t \<in> set (om_values trees)" using assms(1,2) by (auto simp: tree_at_Some om_in_values)
  then have "set (node_ids t) \<subseteq> all_node_ids trees" by (force simp: all_node_ids_def)
  then show ?thesis using assms(3) by (simp add: ids_ok_def)
qed

text \<open>A local operation is applied to the tree of the source domain once its plan binds.\<close>

lemma apply_move_local:
  assumes "tree_at trees source = Some t" "move_target (mp_operation plan) = None"
  shows "(\<exists>applied. apply_move_operation p trees windows domains source x d plan rv focus = Some (Some applied))
    \<longleftrightarrow> plan_binds windows source x d plan
      \<and> (\<exists>t'. apply_local p (all_node_ids trees) rv t x d (mi_same_axis_move (mp_intent plan)) (mp_operation plan) = Some (Some t'))"
  using assms
  by (cases "mp_operation plan") (auto simp: apply_move_operation_def attempt_iff bind_eq_Some_conv move_target_def)

text \<open>The bindings spelled out: the plan is the one of its operation, and its intent is the caller's.\<close>

lemma plan_binds_iff: "plan_binds windows source x d plan \<longleftrightarrow>
  canonical_rule (mp_operation plan) (op_rule (mp_operation plan)) \<and> plan = for_operation (mp_intent plan) (mp_operation plan)
  \<and> mi_source_output (mp_intent plan) = dk_output source \<and> mi_focused_leaf (mp_intent plan) = x
  \<and> mi_direction (mp_intent plan) = d \<and> focused_window_for windows x source = Some (mi_focused_window (mp_intent plan))"
  using preconditions_bounded(1) [of "mp_operation plan"]
  by (cases plan) (auto simp: plan_binds_def for_operation_def op_preconditions_def Let_def)

text \<open>
  C14. Planner and session agree. In trees with fewer than \<open>2 ^ 32 - 1\<close> identities, \<open>apply_move_operation\<close>
  accepts a plan of a local operation on a well-formed source tree exactly when the plan is the one the
  planner builds for its operation, its intent names the caller's output, leaf, direction and window, the
  operation fits the tree in the planner's sense (the mover's direct parent, its neighbour, the target group
  with its index, the parent and insertion index of an escape), it fits the same-axis mode of the intent, and
  the shares of the entered group are representable.
\<close>

theorem planner_and_session_agree:
  assumes "om_ok trees" "card (all_node_ids trees) + 1 < 2 ^ 32" "tree_at trees source = Some t" "wf_node t"
    and "move_target (mp_operation plan) = None"
  shows "(\<exists>applied. apply_move_operation cosmic_v1_policy trees windows domains source x d plan rv focus = Some (Some applied))
    \<longleftrightarrow> plan = for_operation (mp_intent plan) (mp_operation plan)
      \<and> mi_source_output (mp_intent plan) = dk_output source \<and> mi_focused_leaf (mp_intent plan) = x
      \<and> mi_direction (mp_intent plan) = d \<and> focused_window_for windows x source = Some (mi_focused_window (mp_intent plan))
      \<and> op_fits t x d (mp_operation plan) \<and> mode_fits t (mi_same_axis_move (mp_intent plan)) (mp_operation plan)
      \<and> entrant_shares cosmic_v1_policy t (mp_operation plan) \<noteq> None"
  unfolding apply_move_local [OF assms(3,5)] plan_binds_iff
  using cosmic.apply_local_exact [OF assms(4) tree_ids_ok [OF assms(1,3,2)]] by blast

definition trio :: node where
  "trio = Group ''r'' Horizontal [Leaf ''a'', Leaf ''b'', Leaf ''c''] [1, 1, 1]"

lemma trio_ok: "wf_node trio" "ids_ok {''r'', ''a'', ''b'', ''c''} trio"
  by (simp_all add: trio_def wf_node_def group_ok_def u64_max_def ids_ok_def card_insert_if)

lemma trio_fits: "op_fits trio ''a'' Right (WrapNeighbor R2c ''r'' ''b'' True Horizontal)"
proof -
  have "focused_child [Leaf ''a'', Leaf ''b'', Leaf ''c''] ''a'' Right (\<lambda>i nb. map_option ident nb = Some ''b'')"
    by (rule focused_childI [of 0]) (simp_all add: child_at_def)
  then show ?thesis by (auto simp: trio_def at_group_def)
qed

definition trio_home :: domain_key where
  "trio_home = DomainKey ''dp-1'' ''work''"

definition trio_trees :: trees where
  "trio_trees = om_insert trio_home (Some trio) []"

definition trio_links :: links where
  "trio_links = om_insert ''wa'' \<lparr>link_window = ''wa'', link_leaf = ''a'', link_output = ''dp-1'',
     link_workspace = ''work''\<rparr> []"

definition trio_wrap :: "same_axis_move \<Rightarrow> direction \<Rightarrow> move_plan" where
  "trio_wrap mode d = for_operation (move_intent_of trio_home ''a'' ''wa'' d mode) (WrapNeighbor R2c ''r'' ''b'' True Horizontal)"

lemma trio_held: "om_ok trio_trees" "all_node_ids trio_trees = {''r'', ''a'', ''b'', ''c''}"
  "tree_at trio_trees trio_home = Some trio" "focused_window_for trio_links ''a'' trio_home = Some ''wa''"
  by (auto simp: trio_trees_def om_ok_def om_keys_def om_values_def all_node_ids_def trio_def tree_at_def om_get_def
      trio_links_def trio_home_def focused_window_for_def homed_def)

theorem planner_and_session_agree_witness:
  "(\<exists>applied. apply_move_operation cosmic_v1_policy trio_trees trio_links [] trio_home ''a'' Right
      (trio_wrap GroupWithNeighbor Right) 3 None = Some (Some applied))
    \<and> \<not> (\<exists>applied. apply_move_operation cosmic_v1_policy trio_trees trio_links [] trio_home ''a'' Right
      (trio_wrap SwapWithNeighbor Right) 3 None = Some (Some applied))
    \<and> \<not> (\<exists>applied. apply_move_operation cosmic_v1_policy trio_trees trio_links [] trio_home ''a'' Right
      (trio_wrap GroupWithNeighbor Left) 3 None = Some (Some applied))"
proof -
  let ?op = "WrapNeighbor R2c ''r'' ''b'' True Horizontal"
  have plan: "mp_operation (trio_wrap mode d) = ?op" "mp_intent (trio_wrap mode d) = move_intent_of trio_home ''a'' ''wa'' d mode"
    for mode d by (simp_all add: trio_wrap_def for_operation_def)
  then have built: "trio_wrap mode d = for_operation (mp_intent (trio_wrap mode d)) (mp_operation (trio_wrap mode d))" for mode d
    by (simp add: trio_wrap_def)
  have small: "card (all_node_ids trio_trees) + 1 < 2 ^ 32" by (simp add: trio_held(2) card_insert_if)
  have target: "move_target (mp_operation (trio_wrap mode d)) = None" for mode d by (simp add: plan move_target_def)
  have "mode_fits trio GroupWithNeighbor ?op" "\<not> mode_fits trio SwapWithNeighbor ?op" "entrant_shares cosmic_v1_policy trio ?op = Some []"
    by (simp_all add: trio_def)
  with trio_fits trio_held(4) planner_and_session_agree [OF trio_held(1) small trio_held(3) trio_ok(1) target] built show ?thesis
    by (simp add: plan move_intent_of_def)
qed

text \<open>
  C17. Moves preserve the tree type. An operation that fits a well-formed tree and its mode, whose entered
  group has representable shares with a 64-bit sum, yields a well-formed tree: distinct non-empty
  identities, at least two children per group, positive aligned shares. The mover is still a leaf and the
  other leaves keep their order.
\<close>

theorem local_moves_keep_trees:
  assumes "wf_node t" "ids_ok ids t" "op_fits t x d op" "mode_fits t mode op"
    and "entrant_shares cosmic_v1_policy t op = Some out" "sum_list out \<le> u64_max"
  shows "\<exists>t'. apply_local cosmic_v1_policy ids rv t x d mode op = Some (Some t') \<and> wf_node t' \<and> x \<in> set (leaves t')
    \<and> filter (\<lambda>y. y \<noteq> x) (leaves t') = filter (\<lambda>y. y \<noteq> x) (leaves t)"
  using cosmic.apply_local_outcome [OF assms(1-4), of rv] assms(5,6)
  by (auto simp: outcome_as_def moved_def others_def)

theorem local_moves_keep_trees_witness:
  "\<exists>t'. apply_local cosmic_v1_policy {''r'', ''a'', ''b'', ''c''} 3 trio ''a'' Right GroupWithNeighbor
      (WrapNeighbor R2c ''r'' ''b'' True Horizontal) = Some (Some t') \<and> wf_node t'"
proof -
  let ?op = "WrapNeighbor R2c ''r'' ''b'' True Horizontal"
  have "op_fits trio ''a'' Right ?op" by (rule trio_fits)
  moreover have "mode_fits trio GroupWithNeighbor ?op" "entrant_shares cosmic_v1_policy trio ?op = Some []" by simp_all
  ultimately show ?thesis using local_moves_keep_trees [OF trio_ok, of "''a''" Right ?op GroupWithNeighbor "[]" 3] by auto
qed

end
