(* ===== verification/Session_Move_Proposal.thy ===== *)
theory Session_Move_Proposal
  imports Session_Move_Plans
begin

text \<open>
  The move proposal as a transaction: its contract, and the effect of an accepted move on the staged
  world, which places one window elsewhere and leaves every other window where it was.
\<close>

subsection \<open>The contract\<close>

lemma apply_cross_output_iff:
  "apply_cross_output p trees windows domains source t x d rv focus target k kind = Some (Some (trees', windows', fd, fl))
    \<longleftrightarrow> cross_domains domains source target d \<and> cross_edge t x d k
     \<and> (\<exists>new mover. cross_attach p (all_node_ids trees) rv
          (tree_at (om_insert source (remove_leaf_from_tree p (Some t) x) trees) target) windows target focus x d kind = Some (Some new)
        \<and> focused_window_for windows x source = Some mover
        \<and> trees' = om_insert target (Some new) (om_insert source (remove_leaf_from_tree p (Some t) x) trees)
        \<and> windows' = om_insert mover \<lparr>link_window = mover, link_leaf = x, link_output = dk_output target,
             link_workspace = dk_workspace target\<rparr> windows
        \<and> fd = target \<and> fl = x)"
  by (auto simp: apply_cross_output_def Let_def bind_eq_Some_conv)

lemma apply_move_operation_cases:
  assumes "apply_move_operation p trees windows domains source x d plan rv focus = Some (Some (trees', windows', fd, fl))"
  obtains t where "tree_at trees source = Some t" "plan_binds windows source x d plan"
    "(\<exists>t'. apply_local p (all_node_ids trees) rv t x d (mi_same_axis_move (mp_intent plan)) (mp_operation plan) = Some (Some t')
        \<and> move_target (mp_operation plan) = None \<and> trees' = om_insert source (Some t') trees \<and> windows' = windows
        \<and> fd = source \<and> fl = x)
     \<or> (\<exists>target k kind. move_target (mp_operation plan) = Some target
        \<and> apply_cross_output p trees windows domains source t x d rv focus target k kind = Some (Some (trees', windows', fd, fl)))"
  using assms
  by (cases "mp_operation plan")
    (auto simp: apply_move_operation_def attempt_iff bind_eq_Some_conv move_target_def split: if_splits)

text \<open>The maps of the applied move are maps, and its links name their own window.\<close>

lemma apply_move_maps:
  assumes a: "apply_move_operation p trees windows domains source x d plan rv focus = Some (Some (trees', windows', fd, fl))"
    and ok: "om_ok trees" "om_ok windows" "\<And>w l. om_get windows w = Some l \<Longrightarrow> link_window l = w"
  shows "om_ok trees'" "om_ok windows'" "\<And>w l. om_get windows' w = Some l \<Longrightarrow> link_window l = w"
    "\<And>k. om_contains trees k \<Longrightarrow> om_contains trees' k"
proof -
  have "om_ok trees' \<and> om_ok windows' \<and> (\<forall>w l. om_get windows' w = Some l \<longrightarrow> link_window l = w)
    \<and> (\<forall>k. om_contains trees k \<longrightarrow> om_contains trees' k)"
  proof (rule apply_move_operation_cases [OF a])
    fix t
    assume "(\<exists>t'. apply_local p (all_node_ids trees) rv t x d (mi_same_axis_move (mp_intent plan)) (mp_operation plan) = Some (Some t')
        \<and> move_target (mp_operation plan) = None \<and> trees' = om_insert source (Some t') trees \<and> windows' = windows
        \<and> fd = source \<and> fl = x)
     \<or> (\<exists>target k kind. move_target (mp_operation plan) = Some target
        \<and> apply_cross_output p trees windows domains source t x d rv focus target k kind = Some (Some (trees', windows', fd, fl)))"
    then show ?thesis
    proof (elim disjE exE conjE)
      fix target k kind
      assume "apply_cross_output p trees windows domains source t x d rv focus target k kind = Some (Some (trees', windows', fd, fl))"
      with ok show ?thesis unfolding apply_cross_output_iff by (auto split: if_splits)
    qed (use ok in simp)
  qed
  then show "om_ok trees'" "om_ok windows'" "\<And>w l. om_get windows' w = Some l \<Longrightarrow> link_window l = w"
    "\<And>k. om_contains trees k \<Longrightarrow> om_contains trees' k" by blast+
qed

lemma move_stage_ok:
  assumes cur: "current_ok s"
    and a: "apply_move_operation p (se_trees s) (se_windows s) domains source x d plan rv focus = Some (Some applied)"
  shows "decision_ok s (move_stage s source plan' applied ws)"
proof -
  obtain trees windows fd fl where applied: "applied = (trees, windows, fd, fl)" by (cases applied)
  note w = current_world [OF cur]
  note maps = apply_move_maps [OF a [unfolded applied] world_maps(1,2) [OF w] world_link_window [OF w]]
  have "active_ok (updated_last_active (se_last_active s) (Some fd) (Some fl) trees windows) trees"
    by (rule active_ok_insert(1) [OF cur maps(4)])
  then show ?thesis
    unfolding move_stage_def applied prod.case Let_def
    by (intro decision_steps decision_stage desired_tiled_ok [OF cur])
      (use maps in \<open>auto simp: move_desired_def desired_of_def\<close>)
qed

lemma move_decision_ok:
  assumes "current_ok s" "move_decision s domain window d mode obs caps = Some decision"
  shows "decision_ok s decision"
  using assms(2)
  by (auto simp: move_decision_def move_decision_at_def move_planned_def bind_eq_Some_conv
      split: option.splits sum.splits move_outcome.splits intro: move_stage_ok [OF assms(1)])

lemma propose_move_ok:
  assumes inv: "session_inv s"
    and m: "propose_move_with_same_axis s domain window d obs corr caps mode = Some (res, s')"
  shows "proposal_ok s (res, s')"
proof (cases "ready_error s")
  case (Some e)
  with m proposal_not_ready [OF inv Some] show ?thesis by (auto simp: propose_move_with_same_axis_def)
next
  case None
  with m obtain decision where d: "move_decision s domain window d mode obs caps = Some decision"
    "(res, s') = stage (\<lambda>plan. propose plan (so_observation obs) corr caps) decision s"
    by (auto simp: propose_move_with_same_axis_def)
  have "se_drag s = None" "current_ok s" using None ready_error_None [OF inv] inv by (simp_all add: session_inv_def)
  with move_decision_ok [OF _ d(1)] show ?thesis unfolding d(2) by (intro stage_move_ok [OF inv])
qed

subsection \<open>What an accepted move stages\<close>

text \<open>The leaves of a domain.\<close>

definition leaves_at :: "trees \<Rightarrow> domain_key \<Rightarrow> node_id list" where
  "leaves_at trees k = (case tree_at trees k of None \<Rightarrow> [] | Some t \<Rightarrow> leaves t)"

text \<open>
  The window of one leaf now stands in the destination; every other leaf keeps its place among the
  others of its domain, and links, exceptions and geometries of the other windows stay.
\<close>

definition one_window_moved ::
  "session \<Rightarrow> pending_desired \<Rightarrow> node_id \<Rightarrow> window_id \<Rightarrow> domain_key \<Rightarrow> domain_key \<Rightarrow> bool" where
  "one_window_moved s d x window source dest \<longleftrightarrow>
     (\<forall>k. filter (\<lambda>y. y \<noteq> x) (leaves_at (pe_trees d) k) = filter (\<lambda>y. y \<noteq> x) (leaves_at (se_trees s) k)
       \<and> (x \<in> set (leaves_at (pe_trees d) k) \<longleftrightarrow> k = dest)
       \<and> (k \<noteq> source \<longrightarrow> k \<noteq> dest \<longrightarrow> om_get (pe_trees d) k = om_get (se_trees s) k))
     \<and> om_get (pe_windows d) window = Some \<lparr>link_window = window, link_leaf = x, link_output = dk_output dest,
          link_workspace = dk_workspace dest\<rparr>
     \<and> (\<forall>w. w \<noteq> window \<longrightarrow> om_get (pe_windows d) w = om_get (se_windows s) w)
     \<and> pe_focused_domain d = Some dest \<and> pe_focused_leaf d = Some x
     \<and> pe_exceptions d = se_exceptions s \<and> pe_retained d = se_retained s
     \<and> pe_automatic_fixed d = se_automatic_fixed s \<and> pe_tile_override d = se_tile_override s"

lemma leaf_of_one_domain:
  assumes "world_ok ds trees windows exceptions fd fl" "x \<in> set (leaves_at trees k)" "x \<in> set (leaves_at trees j)"
  shows "k = j"
proof -
  have at: "\<exists>w l. om_get windows w = Some l \<and> link_leaf l = x \<and> link_key l = i" if "x \<in> set (leaves_at trees i)" for i
    using that world_covered [OF assms(1), of i] by (cases "tree_at trees i") (auto simp: leaves_at_def)
  from at [OF assms(2)] at [OF assms(3)] world_leaf_unique [OF assms(1)] show ?thesis by (metis option.inject)
qed

lemma leaves_at_insert: "leaves_at (om_insert j v trees) k =
    (if k = j then (case v of None \<Rightarrow> [] | Some t \<Rightarrow> leaves t) else leaves_at trees k)"
  by (simp add: leaves_at_def)

lemma cross_attach_iff: "cross_attach p ids rv target_tree windows target focus x d kind = Some (Some new) \<longleftrightarrow>
    (case kind of
       TargetEmpty \<Rightarrow> target_tree = None \<and> new = Leaf x
     | TargetOccupied \<Rightarrow> (\<exists>existing g. target_tree = Some existing \<and> generate_move_group_id x rv ''r4'' ids = Some g
         \<and> (case cross_focus existing windows target focus of
             Some f \<Rightarrow> nest_focused_ordered p existing f (Leaf x) g (axis_for_direction d) (step_for d = 1) = Some new
           | None \<Rightarrow> new = pair_group p g (axis_for_direction d) (step_for d = 1) (Leaf x) existing)))"
  by (cases kind) (auto simp: cross_attach_def attempt_iff bind_eq_Some_conv split: option.splits)

lemma filter_pair_leaves:
  "x \<notin> set ys \<Longrightarrow> filter (\<lambda>y. y \<noteq> x) (concat (map (pair_leaves (Leaf x) f first) ys)) = ys"
  by (induction ys) (auto simp: pair_leaves_def)

lemma outcome_moved: "outcome_as x t shares (Some (Some t')) \<Longrightarrow> wf_node t' \<Longrightarrow> moved x t t'"
  by (auto simp: outcome_as_def split: option.splits)

context share_policy
begin

lemma cross_attach_effect:
  assumes "cross_attach p ids rv target_tree windows target focus x d kind = Some (Some new)"
    and wf: "\<And>t. target_tree = Some t \<Longrightarrow> wf_node t"
    and x: "\<And>t. target_tree = Some t \<Longrightarrow> x \<notin> set (leaves t)"
  shows "filter (\<lambda>y. y \<noteq> x) (leaves new) = (case target_tree of None \<Rightarrow> [] | Some t \<Rightarrow> leaves t)" "x \<in> set (leaves new)"
proof -
  have "filter (\<lambda>y. y \<noteq> x) (leaves new) = (case target_tree of None \<Rightarrow> [] | Some t \<Rightarrow> leaves t) \<and> x \<in> set (leaves new)"
  proof (cases kind)
    case TargetEmpty
    with assms(1) show ?thesis by (simp add: cross_attach_iff)
  next
    case TargetOccupied
    with assms(1) obtain e g where e: "target_tree = Some e" and out: "case cross_focus e windows target focus of
             Some f \<Rightarrow> nest_focused_ordered p e f (Leaf x) g (axis_for_direction d) (step_for d = 1) = Some new
           | None \<Rightarrow> new = pair_group p g (axis_for_direction d) (step_for d = 1) (Leaf x) e"
      by (auto simp: cross_attach_iff)
    show ?thesis
    proof (cases "cross_focus e windows target focus")
      case None
      with out x [OF e] show ?thesis by (auto simp: pair_group_def e filter_neq_absent)
    next
      case (Some f)
      then have f: "f \<in> set (leaves e)" by (auto simp: cross_focus_def bind_eq_Some_conv split: if_splits)
      have "wf_groups e" "distinct (node_ids e)" using wf [OF e] by (simp_all add: wf_node_def)
      from nest_correct [OF this f, of "Leaf x" g "axis_for_direction d" "step_for d = 1"] out Some
      have "leaves new = concat (map (pair_leaves (Leaf x) f (step_for d = 1)) (leaves e))" by auto
      moreover have "x \<in> set (concat (map (pair_leaves (Leaf x) f (step_for d = 1)) (leaves e)))"
        using f by (force simp: pair_leaves_def)
      ultimately show ?thesis using x [OF e] by (simp add: e filter_pair_leaves)
    qed
  qed
  then show "filter (\<lambda>y. y \<noteq> x) (leaves new) = (case target_tree of None \<Rightarrow> [] | Some t \<Rightarrow> leaves t)" "x \<in> set (leaves new)"
    by blast+
qed

text \<open>The tree of the mover's domain loses the mover, and the target domain's gains it.\<close>

lemma removed_leaves:
  assumes "wf_node t" "x \<in> set (leaves t)"
  shows "(case remove_leaf_from_tree p (Some t) x of None \<Rightarrow> [] | Some t' \<Rightarrow> leaves t') = filter (\<lambda>y. y \<noteq> x) (leaves t)"
  using remove_leaf_ok [OF assms] by (auto split: option.splits)

lemma applied_move_effect:
  assumes cur: "current_ok s" and mover: "focused_window_for (se_windows s) x source = Some window"
    and small: "card (all_node_ids (se_trees s)) + 1 < 2 ^ 32"
    and a: "apply_move_operation p (se_trees s) (se_windows s) (se_domains s) source x d plan rv focus
        = Some (Some (trees', windows', fd, fl))"
    and valid: "validate_topology (se_domains s) trees' windows' (se_exceptions s) (Some fd) (Some fl)"
  shows "(fd = source \<or> cross_domains (se_domains s) source fd d)
    \<and> one_window_moved s (move_desired s (trees', windows', fd, fl)) x window source fd"
proof -
  note w = current_world [OF cur]
  note maps = apply_move_maps [OF a world_maps(1,2) [OF w] world_link_window [OF w]]
  have new: "world_ok (se_domains s) trees' windows' (se_exceptions s) (Some fd) (Some fl)"
    using validated_world [OF valid maps(1,2) world_maps(3) [OF w] maps(3) world_record_window [OF w]] .
  note link = focused_window_resolves(1) [OF cur mover]
  have resolved: "focus_resolves (Some source) (Some x) (se_trees s) (se_windows s)"
    by (rule focused_window_resolves(2) [OF cur mover])
  have desired: "pe_trees (move_desired s (trees', windows', fd, fl)) = trees'"
    "pe_windows (move_desired s (trees', windows', fd, fl)) = windows'"
    "pe_focused_domain (move_desired s (trees', windows', fd, fl)) = Some fd"
    "pe_focused_leaf (move_desired s (trees', windows', fd, fl)) = Some fl"
    "pe_exceptions (move_desired s (trees', windows', fd, fl)) = se_exceptions s"
    "pe_retained (move_desired s (trees', windows', fd, fl)) = se_retained s"
    "pe_automatic_fixed (move_desired s (trees', windows', fd, fl)) = se_automatic_fixed s"
    "pe_tile_override (move_desired s (trees', windows', fd, fl)) = se_tile_override s"
    by (simp_all add: move_desired_def desired_of_def)
  obtain t where t: "tree_at (se_trees s) source = Some t" and b: "plan_binds (se_windows s) source x d plan"
    and outcome: "(\<exists>t'. apply_local p (all_node_ids (se_trees s)) rv t x d (mi_same_axis_move (mp_intent plan)) (mp_operation plan) = Some (Some t')
        \<and> move_target (mp_operation plan) = None \<and> trees' = om_insert source (Some t') (se_trees s) \<and> windows' = se_windows s
        \<and> fd = source \<and> fl = x)
     \<or> (\<exists>target k kind. move_target (mp_operation plan) = Some target
        \<and> apply_cross_output p (se_trees s) (se_windows s) (se_domains s) source t x d rv focus target k kind
          = Some (Some (trees', windows', fd, fl)))"
    by (rule apply_move_operation_cases [OF a])
  have x: "x \<in> set (leaves t)" using resolved t by (simp add: focus_resolves_def)
  have wf: "wf_node t" by (rule world_tree_wf [OF w t])
  have at: "x \<in> set (leaves_at (se_trees s) k) \<longleftrightarrow> k = source" for k
    using leaf_of_one_domain [OF w, of x k source] t x by (auto simp: leaves_at_def)
  from outcome show ?thesis
  proof (elim disjE exE conjE)
    fix t'
    assume l: "apply_local p (all_node_ids (se_trees s)) rv t x d (mi_same_axis_move (mp_intent plan)) (mp_operation plan) = Some (Some t')"
      and e: "trees' = om_insert source (Some t') (se_trees s)" "windows' = se_windows s" "fd = source" "fl = x"
    have ids: "ids_ok (all_node_ids (se_trees s)) t" using tree_ids_ok [OF world_maps(1) [OF w] t small] .
    have canonical: "canonical_rule (mp_operation plan) (op_rule (mp_operation plan))"
      using b by (auto simp: plan_binds_def Let_def)
    have wf': "wf_node t'" using world_tree_wf [OF new, of source t'] by (simp add: e)
    have "outcome_as x t (entrant_shares p t (mp_operation plan)) (Some (Some t'))"
      unfolding l [symmetric] using apply_local_outcome [OF wf ids] apply_local_accepts [OF wf ids canonical l] by blast
    from outcome_moved [OF this wf'] have "moved x t t'" .
    then have m: "filter (\<lambda>y. y \<noteq> x) (leaves t') = filter (\<lambda>y. y \<noteq> x) (leaves t)" "x \<in> set (leaves t')"
      by (simp_all add: moved_def others_def)
    have "om_get windows' window = Some \<lparr>link_window = window, link_leaf = x, link_output = dk_output fd,
        link_workspace = dk_workspace fd\<rparr>" using link by (simp add: e)
    moreover have "filter (\<lambda>y. y \<noteq> x) (leaves_at trees' k) = filter (\<lambda>y. y \<noteq> x) (leaves_at (se_trees s) k)" for k
      using m(1) t by (simp add: e(1) leaves_at_def)
    moreover have "x \<in> set (leaves_at trees' k) \<longleftrightarrow> k = source" for k
      using m(2) at [of k] by (simp add: e(1) leaves_at_insert)
    ultimately show ?thesis unfolding one_window_moved_def desired by (simp add: e)
  next
    fix target k kind
    assume "apply_cross_output p (se_trees s) (se_windows s) (se_domains s) source t x d rv focus target k kind
        = Some (Some (trees', windows', fd, fl))"
    then obtain new where c: "cross_domains (se_domains s) source target d"
      and att: "cross_attach p (all_node_ids (se_trees s)) rv
          (tree_at (om_insert source (remove_leaf_from_tree p (Some t) x) (se_trees s)) target) (se_windows s) target focus x d kind = Some (Some new)"
      and e: "trees' = om_insert target (Some new) (om_insert source (remove_leaf_from_tree p (Some t) x) (se_trees s))"
        "windows' = om_insert window \<lparr>link_window = window, link_leaf = x, link_output = dk_output target,
             link_workspace = dk_workspace target\<rparr> (se_windows s)" "fd = target" "fl = x"
      using mover unfolding apply_cross_output_iff by auto
    have ne: "target \<noteq> source" using c by (simp add: cross_domains_def)
    then have att: "cross_attach p (all_node_ids (se_trees s)) rv (tree_at (se_trees s) target) (se_windows s) target focus x d kind = Some (Some new)"
      using att by simp
    have absent: "x \<notin> set (leaves_at (se_trees s) target)" using at ne by simp
    have "x \<notin> set (leaves t')" if "tree_at (se_trees s) target = Some t'" for t'
      using absent that by (simp add: leaves_at_def)
    note eff = cross_attach_effect [OF att world_tree_wf [OF w] this, folded leaves_at_def]
    have src: "leaves_at (om_insert source (remove_leaf_from_tree p (Some t) x) (se_trees s)) source = filter (\<lambda>y. y \<noteq> x) (leaves t)"
      using removed_leaves [OF wf x] by (simp add: leaves_at_insert)
    have "filter (\<lambda>y. y \<noteq> x) (leaves_at trees' k) = filter (\<lambda>y. y \<noteq> x) (leaves_at (se_trees s) k)" for k
    proof (cases "k = source")
      case True
      have "leaves_at (se_trees s) source = leaves t" by (simp add: leaves_at_def t)
      with src ne True show ?thesis by (simp add: e(1) leaves_at_insert)
    next
      case False
      with eff(1) absent show ?thesis by (simp add: e(1) leaves_at_insert filter_neq_absent)
    qed
    moreover have "x \<in> set (leaves_at trees' k) \<longleftrightarrow> k = target" for k
      using eff(2) src at [of k] ne by (auto simp: e(1) leaves_at_insert)
    ultimately show ?thesis using c unfolding one_window_moved_def desired by (simp add: e)
  qed
qed

end

subsection \<open>What the planner plans, the session applies\<close>

lemma domain_output_sel [simp]: "out_id (domain_output trees e) = od_id e" "out_workspace (domain_output trees e) = od_workspace e"
  "out_tree (domain_output trees e) = tree_at trees (domain_key_of e)" "out_adjacent (domain_output trees e) = od_adjacent e"
  by (simp_all add: domain_output_def)

lemma add_adjacent_domains: "o' \<in> set (add_adjacent s ts outs) \<Longrightarrow> o' \<in> set outs
    \<or> (\<exists>e \<in> set (se_domains s). o' = domain_output (se_trees s) e)"
proof (induction s ts outs rule: add_adjacent.induct)
  case (2 s t ts outs)
  consider "list_ex (\<lambda>o'. out_id o' = t) outs" | e where "\<not> list_ex (\<lambda>o'. out_id o' = t) outs" "filter (\<lambda>d. od_id d = t) (se_domains s) = [e]"
    | "\<not> list_ex (\<lambda>o'. out_id o' = t) outs" "\<forall>e. filter (\<lambda>d. od_id d = t) (se_domains s) \<noteq> [e]" by blast
  then show ?case
  proof cases
    case 1
    with 2 show ?thesis by simp
  next
    case (2 e)
    then have "e \<in> set (se_domains s)" using filter_eq_Cons_iff [of _ "se_domains s" e "[]"] 2(2) by auto
    with 2 "2.IH"(3) [OF 2(1) 2(2)] "2.prems" show ?thesis by auto
  next
    case 3
    then have "add_adjacent s (t # ts) outs = add_adjacent s ts outs" by (auto split: list.splits)
    with 3 2 show ?thesis by (auto split: list.splits)
  qed
qed simp

lemma add_adjacent_keeps: "o' \<in> set outs \<Longrightarrow> o' \<in> set (add_adjacent s ts outs)"
  by (induction s ts outs rule: add_adjacent.induct) (auto split: list.splits)

lemma move_snapshot_outputs:
  assumes "move_snapshot s source = Some snap"
  obtains e where "e \<in> set (se_domains s)" "domain_key_of e = source" "domain_output (se_trees s) e \<in> set (snap_outputs snap)"
    "\<And>o'. o' \<in> set (snap_outputs snap) \<Longrightarrow> \<exists>f \<in> set (se_domains s). o' = domain_output (se_trees s) f"
proof -
  from assms obtain e where e: "find (\<lambda>d. domain_key_of d = source) (se_domains s) = Some e"
    and outs: "snap_outputs snap = move_outputs s e"
    by (auto simp: move_snapshot_def Let_def split: option.splits if_splits)
  have in_e: "e \<in> set (se_domains s)" "domain_key_of e = source" using e by (auto simp: find_Some_iff)
  show thesis
  proof (rule that [OF in_e])
    show "domain_output (se_trees s) e \<in> set (snap_outputs snap)"
      unfolding outs move_outputs_def by (rule add_adjacent_keeps) (use in_e in auto)
    show "\<exists>f \<in> set (se_domains s). o' = domain_output (se_trees s) f" if "o' \<in> set (snap_outputs snap)" for o'
      using add_adjacent_domains [OF that [unfolded outs move_outputs_def]] by auto
  qed
qed

lemma for_operation_binds:
  assumes "canonical_rule op (op_rule op)" "focused_window_for windows x source = Some window"
  shows "plan_binds windows source x d (for_operation (move_intent_of source x window d mode) op)"
  using assms preconditions_bounded(1) [of op] by (simp add: plan_binds_def for_operation_def move_intent_of_def op_preconditions_def)

lemma root_edge_crosses: "wf_node t \<Longrightarrow> at_root_edge t x d k \<Longrightarrow> cross_edge t x d k"
proof (cases t)
  case (Group g ax cs sh)
  assume t: "wf_node t" and e: "at_root_edge t x d k"
  from e Group obtain i where i: "k < length cs" "cs ! k = Leaf x" "child_at cs (int k + step_for d) = None"
    by (auto simp: focused_child_def)
  have "Group g ax cs sh \<in> set (subnodes t)" using Group by simp
  note f = subnode_facts(1) [OF t this]
  have "k = (if step_for d = - 1 then 0 else length cs - 1)"
    using i(1,3) by (cases d) (auto simp: child_at_def split: if_splits)
  with i f Group show ?thesis by (auto simp: cross_edge_def)
qed (simp add: cross_edge_def)

lemma find_distinct_key:
  assumes "distinct (map domain_key_of ds)" "e \<in> set ds"
  shows "find (\<lambda>g. domain_key_of g = domain_key_of e) ds = Some e"
  using assms by (induction ds) auto

lemma source_output:
  assumes v: "validate_snapshot snap (move_intent_of source x window d mode) = Inr src"
    and snap: "move_snapshot s source = Some snap"
  obtains e where "e \<in> set (se_domains s)" "domain_key_of e = source" "src = domain_output (se_trees s) e"
proof -
  obtain e where e: "e \<in> set (se_domains s)" "domain_key_of e = source" "domain_output (se_trees s) e \<in> set (snap_outputs snap)"
    using move_snapshot_outputs [OF snap] by blast
  have src: "wf_snapshot snap" "src \<in> set (snap_outputs snap)" "out_id src = dk_output source"
    using v by (auto simp: validate_snapshot_iff move_intent_of_def)
  have "od_id e = dk_output source" using e(2) by (auto simp: domain_key_of_def)
  with output_unique [OF src(1,2) e(3)] src(3) have "src = domain_output (se_trees s) e" by simp
  with that e(1,2) show thesis .
qed

text \<open>A crossing that the planner emits names a domain of the session, reciprocally adjacent.\<close>

lemma planned_crossing:
  assumes w: "world_ok (se_domains s) trees windows exceptions fd fl" and snap: "move_snapshot s source = Some snap"
    and v: "validate_snapshot snap (move_intent_of source x window d mode) = Inr src" "out_tree src = Some t"
    and c: "cross_fits snap src t (move_intent_of source x window d mode) op"
  obtains r target k kind where "op = CrossOutput r (dk_output target) (dk_workspace target) k kind" "r = R4"
    "cross_domains (se_domains s) source target d" "at_root_edge t x d k"
    "kind = (if tree_at (se_trees s) target = None then TargetEmpty else TargetOccupied)"
proof -
  obtain e where e: "e \<in> set (se_domains s)" "domain_key_of e = source" "src = domain_output (se_trees s) e"
    using source_output [OF v(1) snap] .
  obtain r tp tw k kind where op: "op = CrossOutput r tp tw k kind" using c by (cases op) (auto simp: cross_fits_def)
  with c obtain o' where o': "r = R4" "at_root_edge t x d k" "od_adjacent e d = Some tp"
    "o' \<in> set (snap_outputs snap)" "out_id o' = tp" "out_workspace o' = tw"
    "out_adjacent o' (opposite_direction d) = Some (od_id e)"
    "kind = (if out_tree o' = None then TargetEmpty else TargetOccupied)"
    by (auto simp: cross_fits_def move_intent_of_def e(3))
  obtain f where f: "f \<in> set (se_domains s)" "o' = domain_output (se_trees s) f"
    using move_snapshot_outputs [OF snap] o'(4) by metis
  have keys: "domain_key_of f = DomainKey tp tw" using o'(5,6) by (simp add: f(2) domain_key_of_def)
  have "tp \<noteq> dk_output source"
  proof -
    have "outputs_ok (snap_outputs snap)" "src \<in> set (snap_outputs snap)"
      using v(1) by (auto simp: validate_snapshot_iff wf_snapshot_def)
    moreover have "out_adjacent src d = Some tp" using o'(3) by (simp add: e(3))
    ultimately have "tp \<noteq> out_id src" unfolding outputs_ok_def by blast
    then show ?thesis using e(2) by (auto simp: e(3) domain_key_of_def)
  qed
  moreover have "find (\<lambda>g. domain_key_of g = domain_key_of h) (se_domains s) = Some h" if "h \<in> set (se_domains s)" for h
    using find_distinct_key [OF world_domains(3) [OF w] that] .
  from this [OF e(1)] this [OF f(1)]
  have "find (\<lambda>g. domain_key_of g = source) (se_domains s) = Some e"
    "find (\<lambda>g. domain_key_of g = DomainKey tp tw) (se_domains s) = Some f" by (simp_all add: e(2) keys)
  moreover have "od_id e = dk_output source" using e(2) by (auto simp: domain_key_of_def)
  ultimately have "cross_domains (se_domains s) source (DomainKey tp tw) d"
    using o'(3,7) by (auto simp: cross_domains_def f(2))
  then show thesis
    using that [of r "DomainKey tp tw" k kind] op o'(1,2,8) by (simp add: f(2) keys)
qed

context share_policy
begin

text \<open>The target domain can always take the mover.\<close>

lemma cross_attaches:
  assumes "ids_ok ids t" "\<And>e. target_tree = Some e \<Longrightarrow> wf_node e"
    and "kind = (if target_tree = None then TargetEmpty else TargetOccupied)"
  shows "\<exists>new. cross_attach p ids rv target_tree windows target focus x d kind = Some (Some new)"
proof (cases target_tree)
  case None
  with assms(3) show ?thesis by (simp add: cross_attach_iff)
next
  case (Some e)
  obtain g where g: "generate_move_group_id x rv ''r4'' ids = Some g" using ids_ok_fresh [OF assms(1)] .
  show ?thesis
  proof (cases "cross_focus e windows target focus")
    case None
    with g Some assms(3) show ?thesis by (simp add: cross_attach_iff)
  next
    case (Some f)
    then have f: "f \<in> set (leaves e)" by (auto simp: cross_focus_def bind_eq_Some_conv split: if_splits)
    have "wf_groups e" "distinct (node_ids e)" using assms(2) [OF \<open>target_tree = Some e\<close>] by (simp_all add: wf_node_def)
    from nest_correct [OF this f, of "Leaf x" g "axis_for_direction d" "step_for d = 1"]
    show ?thesis using g Some assms(3) \<open>target_tree = Some e\<close> by (auto simp: cross_attach_iff)
  qed
qed

lemma planned_applies:
  assumes cur: "current_ok s" and small: "card (all_node_ids (se_trees s)) + 1 < 2 ^ 32"
    and mover: "focused_window_for (se_windows s) x source = Some window"
    and snap: "move_snapshot s source = Some snap"
    and plan: "plan_move_with_capabilities snap (move_intent_of source x window d mode) caps = Planned plan"
    and shares: "\<And>t. tree_at (se_trees s) source = Some t \<Longrightarrow> entrant_shares p t (mp_operation plan) \<noteq> None"
  shows "\<exists>applied. apply_move_operation p (se_trees s) (se_windows s) (se_domains s) source x d plan rv focus = Some (Some applied)"
proof -
  note w = current_world [OF cur]
  have intent: "mi_focused_leaf (move_intent_of source x window d mode) = x"
    "mi_direction (move_intent_of source x window d mode) = d" "mi_same_axis_move (move_intent_of source x window d mode) = mode"
    by (simp_all add: move_intent_of_def)
  obtain src t where v: "validate_snapshot snap (move_intent_of source x window d mode) = Inr src" "out_tree src = Some t" "wf_node t"
    and op: "plan = for_operation (move_intent_of source x window d mode) (mp_operation plan)" "mode_fits t mode (mp_operation plan)"
      "op_fits t x d (mp_operation plan) \<or> cross_fits snap src t (move_intent_of source x window d mode) (mp_operation plan)"
    using planner_emits_fitting [OF plan] unfolding intent .
  obtain e where "domain_key_of e = source" "src = domain_output (se_trees s) e" using source_output [OF v(1) snap] .
  then have t: "tree_at (se_trees s) source = Some t" using v(2) by simp
  note ids = tree_ids_ok [OF world_maps(1) [OF w] t small]
  from op(3) show ?thesis
  proof
    assume f: "op_fits t x d (mp_operation plan)"
    have binds: "plan_binds (se_windows s) source x d plan"
      by (subst op(1)) (rule for_operation_binds [OF fits_canonical [OF f] mover])
    obtain t' where "apply_local p (all_node_ids (se_trees s)) rv t x d mode (mp_operation plan) = Some (Some t')"
      using outcome_applied [OF apply_local_outcome [OF v(3) ids f op(2)]] shares [OF t] by blast
    moreover have "mi_same_axis_move (mp_intent plan) = mode"
      by (subst op(1)) (simp add: for_operation_def move_intent_of_def)
    moreover have "move_target (mp_operation plan) = None" using f by (cases "mp_operation plan") (simp_all add: move_target_def)
    ultimately show ?thesis using binds t
      by (cases "mp_operation plan") (simp_all add: apply_move_operation_def attempt_def)
  next
    assume c: "cross_fits snap src t (move_intent_of source x window d mode) (mp_operation plan)"
    obtain r target k kind where o': "mp_operation plan = CrossOutput r (dk_output target) (dk_workspace target) k kind" "r = R4"
      and dom: "cross_domains (se_domains s) source target d" and edge: "at_root_edge t x d k"
      and kind: "kind = (if tree_at (se_trees s) target = None then TargetEmpty else TargetOccupied)"
      using planned_crossing [OF w snap v(1,2) c] .
    have binds: "plan_binds (se_windows s) source x d plan"
      by (subst op(1)) (rule for_operation_binds [OF _ mover], simp add: o')
    have ne: "target \<noteq> source" using dom by (simp add: cross_domains_def)
    obtain new where "cross_attach p (all_node_ids (se_trees s)) rv (tree_at (se_trees s) target) (se_windows s) target focus x d kind
        = Some (Some new)"
      using cross_attaches [OF ids _ kind] world_tree_wf [OF w] by blast
    with dom root_edge_crosses [OF v(3) edge] mover ne binds t show ?thesis
      by (simp add: apply_move_operation_def attempt_def o'(1) apply_cross_output_def)
  qed
qed

end

text \<open>
  C15. What the planner plans, the session applies. In every well-formed session whose policy plans by the
  COSMIC planner, a plan that the planner emits from the session's own snapshot passes every recheck of
  \<open>apply_move_operation\<close>, crossings included, unless the shares of the entered group are unrepresentable;
  the search of a fresh group identity returns.
\<close>

theorem planned_move_applies:
  assumes "session_inv s" "se_policy s = cosmic_v1_policy" "card (all_node_ids (se_trees s)) + 1 < 2 ^ 32"
    and "tiled_focus True s domain window = Inr x" "move_snapshot s domain = Some snap"
    and "lp_plan_move (se_policy s) snap (move_intent_of domain x window d mode) caps = Planned plan"
    and "\<forall>t. tree_at (se_trees s) domain = Some t \<longrightarrow> entrant_shares (se_policy s) t (mp_operation plan) \<noteq> None"
  shows "\<exists>applied. apply_move_operation (se_policy s) (se_trees s) (se_windows s) (se_domains s) domain x d plan rv focus
    = Some (Some applied)"
proof -
  have cur: "current_ok s" using assms(1) by (simp add: session_inv_def)
  have "plan_move_with_capabilities snap (move_intent_of domain x window d mode) caps = Planned plan"
    using assms(2,6) by (simp add: cosmic_v1_policy_def cosmic_plan_move_with_capabilities_def)
  from cosmic.planned_applies [OF cur assms(3) _ assms(5) this] assms(7) tiled_focus_Inr [OF assms(4)]
  show ?thesis unfolding assms(2) by blast
qed

text \<open>An accepted proposal staged the applied plan of the mover.\<close>

lemma accepted_move:
  assumes "session_inv s"
    and "propose_move_with_same_axis s domain window d obs corr caps mode = Some (Inr plan, s')"
  obtains x mp focus applied where "focused_window_for (se_windows s) x domain = Some window"
    "se_focused_domain s = Some domain" "se_focused_leaf s = Some x"
    "apply_move_operation (se_policy s) (se_trees s) (se_windows s) (se_domains s) domain x d mp
       (ob_revision (so_observation obs)) focus = Some (Some applied)"
    "case applied of (trees, windows, fd, fl) \<Rightarrow>
       validate_topology (se_domains s) trees windows (se_exceptions s) (Some fd) (Some fl)"
    "se_pending s' = Some (move_desired s applied)"
proof -
  have ready: "ready_error s = None"
    using assms(2) by (cases "ready_error s") (simp_all add: propose_move_with_same_axis_def)
  with assms(2) obtain decision where d: "move_decision s domain window d mode obs caps = Some decision"
    "when_ready s (stage (\<lambda>plan. propose plan (so_observation obs) corr caps) decision s) = (Inr plan, s')"
    by (auto simp: propose_move_with_same_axis_def when_ready_def)
  obtain mp desired answer where dec: "decision = Inr (mp, desired, answer)" "se_pending s' = Some desired"
    using staged_Inr [OF d(2)] by metis
  with d(1) obtain x where x: "tiled_focus True s domain window = Inr x"
    and at: "move_decision_at s domain window x d mode obs caps = Some (Inr (mp, desired, answer))"
    by (auto simp: move_decision_def split: option.splits sum.splits)
  from at obtain mp' where "move_planned s domain x d mp' obs = Some (Inr (mp, desired, answer))"
    by (auto simp: move_decision_at_def split: option.splits move_outcome.splits)
  then obtain focus applied where a: "apply_move_operation (se_policy s) (se_trees s) (se_windows s) (se_domains s) domain x d mp'
       (ob_revision (so_observation obs)) focus = Some (Some applied)"
    and st: "move_stage s domain mp' applied (so_windows obs) = Inr (mp, desired, answer)"
    by (auto simp: move_planned_def bind_eq_Some_conv split: option.splits)
  have "(case applied of (trees, windows, fd, fl) \<Rightarrow>
       validate_topology (se_domains s) trees windows (se_exceptions s) (Some fd) (Some fl)) \<and> desired = move_desired s applied"
    using st by (auto simp: move_stage_def Let_def split: prod.splits if_splits option.splits)
  with that [OF _ _ _ a] tiled_focus_Inr [OF x] dec(2) show thesis by blast
qed


end
