(* ===== verification/Session_Drag.thy ===== *)
theory Session_Drag
  imports Session_Move
begin

text \<open>
  Pointer drags of \<open>session/ops/drag.rs\<close>: the capture of the focused window, the preview and the release
  with the resolver they share, the carried hover, and the snap-back. As for moves, the functions that
  search a fresh group identity answer an option of their result.
\<close>

subsection \<open>Types\<close>

record drag_capture =
  dc_domain :: domain_key
  dc_source_leaf :: node_id
  dc_source_window :: window_id
  dc_revision :: nat
  dc_source_rect :: rect
  dc_work_area :: rect

record drag_preview =
  dv_domain :: domain_key
  dv_source_leaf :: node_id
  dv_source_window :: window_id
  dv_revision :: nat
  dv_source_rect :: rect
  dv_target_leaf :: node_id
  dv_target_window :: window_id
  dv_target_rect :: rect
  dv_proposed_rect :: rect
  dv_side :: drag_side
  dv_axis :: axis
  dv_before :: bool
  dv_wrap :: bool
  dv_target_group :: node_id
  dv_insertion_index :: nat
  dv_prior :: "prior_group_edge option"

record drag_hover_prior =
  dh_domain :: domain_key
  dh_source_leaf :: node_id
  dh_source_window :: window_id
  dh_revision :: nat
  dh_prior :: "prior_group_edge option"

definition hover_prior :: "drag_preview \<Rightarrow> drag_hover_prior" where
  "hover_prior v = \<lparr>dh_domain = dv_domain v, dh_source_leaf = dv_source_leaf v,
     dh_source_window = dv_source_window v, dh_revision = dv_revision v, dh_prior = dv_prior v\<rparr>"

record drag_snap_back =
  sb_domain :: domain_key
  sb_source_leaf :: node_id
  sb_source_window :: window_id
  sb_source_rect :: rect

record session_drag_plan =
  sg_dispatch :: drag_dispatch
  sg_plan :: drag_plan
  sg_snapshot :: session_snapshot
  sg_focus_domain :: domain_key
  sg_focus_leaf :: node_id
  sg_geometry :: "desired_geometry list"

datatype drag_release = DragPlanned session_drag_plan | DragSnapBack drag_snap_back

record drag_placement =
  pm_tree :: node
  pm_target_group :: node_id
  pm_insertion_index :: nat
  pm_wrap :: bool
  pm_new_group :: "node_id option"

record shared_drag =
  sd_target_leaf :: node_id
  sd_target_window :: window_id
  sd_target_rect :: rect
  sd_side :: drag_side
  sd_axis :: axis
  sd_before :: bool
  sd_placement :: drag_placement
  sd_next_prior :: "prior_group_edge option"

record group_layout =
  gl_id :: node_id
  gl_axis :: axis
  gl_rect :: rect
  gl_child_starts :: "int list"

subsection \<open>Group layouts\<close>

definition contains_point :: "rect \<Rightarrow> int \<Rightarrow> int \<Rightarrow> bool" where
  "contains_point r x y \<longleftrightarrow> rx r \<le> x \<and> ry r \<le> y
     \<and> (case checked_sub_i32 x (rx r) of None \<Rightarrow> False | Some dx \<Rightarrow> dx < rw r)
     \<and> (case checked_sub_i32 y (ry r) of None \<Rightarrow> False | Some dy \<Rightarrow> dy < rh r)"

definition known_rects :: "(node_id, rect) omap \<Rightarrow> node \<Rightarrow> rect list" where
  "known_rects leaf_rects n = List.map_filter (om_get leaf_rects) (collect_leaves n)"

definition to_i32_or :: "int \<Rightarrow> int \<Rightarrow> int" where
  "to_i32_or d v = (if in_i32 v then v else d)"

definition bounding_rect :: "rect \<Rightarrow> rect list \<Rightarrow> rect" where
  "bounding_rect r rs =
     (let x0 = fold (\<lambda>q m. min m (rx q)) rs (rx r);
          y0 = fold (\<lambda>q m. min m (ry q)) rs (ry r);
          x1 = fold (\<lambda>q m. max m (rx q + rw q)) rs (rx r + rw r);
          y1 = fold (\<lambda>q m. max m (ry q + rh q)) rs (ry r + rh r)
      in \<lparr>rx = to_i32_or (- (2 ^ 31)) x0, ry = to_i32_or (- (2 ^ 31)) y0,
          rw = to_i32_or 0 (x1 - x0), rh = to_i32_or 0 (y1 - y0)\<rparr>)"

definition origin_along :: "axis \<Rightarrow> rect \<Rightarrow> int" where
  "origin_along a r = (case a of Horizontal \<Rightarrow> rx r | Vertical \<Rightarrow> ry r)"

definition child_start :: "(node_id, rect) omap \<Rightarrow> axis \<Rightarrow> node \<Rightarrow> int" where
  "child_start leaf_rects a c =
     (case map (origin_along a) (known_rects leaf_rects c) of
        [] \<Rightarrow> 0
      | s # ss \<Rightarrow> fold (\<lambda>q m. min m q) ss s)"

definition group_layout_of :: "(node_id, rect) omap \<Rightarrow> node_id \<Rightarrow> axis \<Rightarrow> node list \<Rightarrow> nat list \<Rightarrow> group_layout option" where
  "group_layout_of leaf_rects i a cs sh =
     (case known_rects leaf_rects (Group i a cs sh) of
        [] \<Rightarrow> None
      | r # rs \<Rightarrow> Some \<lparr>gl_id = i, gl_axis = a, gl_rect = bounding_rect r rs,
          gl_child_starts = map (child_start leaf_rects a) cs\<rparr>)"

fun collect_group_layouts :: "(node_id, rect) omap \<Rightarrow> node \<Rightarrow> group_layout list" where
  "collect_group_layouts leaf_rects (Leaf i) = []"
| "collect_group_layouts leaf_rects (Group i a cs sh) =
     (case group_layout_of leaf_rects i a cs sh of None \<Rightarrow> [] | Some l \<Rightarrow> [l])
       @ concat (map (collect_group_layouts leaf_rects) cs)"

definition layout_by_id :: "(node_id, rect) omap \<Rightarrow> node \<Rightarrow> (node_id, group_layout) omap" where
  "layout_by_id leaf_rects t = om_from_list (map (\<lambda>l. (gl_id l, l)) (collect_group_layouts leaf_rects t))"

subsection \<open>The deepest node under the pointer\<close>

definition child_contains ::
  "(node_id, rect) omap \<Rightarrow> (node_id, group_layout) omap \<Rightarrow> int \<Rightarrow> int \<Rightarrow> node \<Rightarrow> bool" where
  "child_contains leaf_rects layouts x y c =
     (case c of
        Leaf i \<Rightarrow> (case om_get leaf_rects i of None \<Rightarrow> False | Some r \<Rightarrow> contains_point r x y)
      | Group i a cs sh \<Rightarrow> (case om_get layouts i of None \<Rightarrow> False | Some l \<Rightarrow> contains_point (gl_rect l) x y))"

text \<open>The walk looks its current node up in the whole tree; \<open>Some None\<close> when it is not found.\<close>

partial_function (option) drag_walk ::
  "node \<Rightarrow> (node \<Rightarrow> bool) \<Rightarrow> node_id \<Rightarrow> node option option" where
  "drag_walk t contains current =
     (case find_subtree t current of
        None \<Rightarrow> Some None
      | Some (Leaf i) \<Rightarrow> Some (Some (Leaf i))
      | Some (Group i a cs sh) \<Rightarrow>
          (case find contains cs of
             Some c \<Rightarrow> drag_walk t contains (ident c)
           | None \<Rightarrow> Some (Some (Group i a cs sh))))"

subsection \<open>Placements\<close>

definition generate_drag_group_id :: "node_id \<Rightarrow> nat \<Rightarrow> node_id set \<Rightarrow> node_id option" where
  "generate_drag_group_id x rv existing =
     (let base = ''grp-'' @ x @ ''-r'' @ decimal rv @ ''-drag''
      in if base \<notin> existing then Some base else group_id_loop base existing 1)"

definition inserted_at :: "layout_policy \<Rightarrow> node \<Rightarrow> node_id \<Rightarrow> nat \<Rightarrow> node_id \<Rightarrow> drag_placement option" where
  "inserted_at p working g k x = map_option (\<lambda>t. \<lparr>pm_tree = t, pm_target_group = g, pm_insertion_index = k,
     pm_wrap = False, pm_new_group = None\<rparr>) (insert_leaf_into_group p working g k (Leaf x))"

text \<open>The wrapper takes the slot and share of what it wraps in the parent, or becomes the root.\<close>

definition wrapped_root :: "node_id \<Rightarrow> node \<Rightarrow> node_id \<Rightarrow> drag_placement" where
  "wrapped_root target wrapper g = \<lparr>pm_tree = wrapper, pm_target_group = target, pm_insertion_index = 0,
     pm_wrap = True, pm_new_group = Some g\<rparr>"

definition wrapped_in ::
  "node \<Rightarrow> node_id \<Rightarrow> node_id \<Rightarrow> node \<Rightarrow> node_id \<Rightarrow> drag_placement option" where
  "wrapped_in working par target wrapper g =
     Option.bind (find_group working par) (\<lambda>(cs, a, i).
     Option.bind (find_group_shares working par) (\<lambda>sh.
     Option.bind (child_position cs target) (\<lambda>k.
       if length sh \<le> k then None
       else map_option (\<lambda>t. \<lparr>pm_tree = t, pm_target_group = par, pm_insertion_index = k, pm_wrap = True,
         pm_new_group = Some g\<rparr>) (replace_child_at working par k wrapper (sh ! k)))))"

definition wrap_leaf ::
  "layout_policy \<Rightarrow> node \<Rightarrow> node_id \<Rightarrow> node_id \<Rightarrow> axis \<Rightarrow> bool \<Rightarrow> nat \<Rightarrow> drag_placement option option" where
  "wrap_leaf p working x target a before rv =
     Option.bind (generate_drag_group_id x rv (set (node_ids working))) (\<lambda>g.
       let wrapper = pair_group p g a before (Leaf x) (Leaf target)
       in Some (if ident working = target then Some (wrapped_root target wrapper g)
          else Option.bind (direct_parent_of_leaf working target) (\<lambda>par. wrapped_in working par target wrapper g)))"

text \<open>A drop on the edge of a window: beside it in a parent of that axis, or in a new pair with it.\<close>

definition apply_drag_placement ::
  "layout_policy \<Rightarrow> node \<Rightarrow> node_id \<Rightarrow> node_id \<Rightarrow> drag_side \<Rightarrow> nat \<Rightarrow> drag_placement option option" where
  "apply_drag_placement p t x target side rv =
     (if x = target then Some None
      else case (drag_side_axis side, drag_side_before side) of
          (Some a, Some before) \<Rightarrow>
            attempt (remove_leaf_from_tree p (Some t) x) (\<lambda>working.
              if x \<in> set (collect_leaves working) \<or> target \<notin> set (collect_leaves working) then Some None
              else case direct_parent_of_leaf working target of
                  None \<Rightarrow> wrap_leaf p working x target a before rv
                | Some par \<Rightarrow> attempt (find_group working par) (\<lambda>(cs, pa, i).
                    if pa = a
                    then attempt (child_position cs target) (\<lambda>k.
                      let ix = (if before then k else k + 1)
                      in Some (if length cs < ix then None else inserted_at p working par ix x))
                    else wrap_leaf p working x target a before rv))
        | _ \<Rightarrow> Some None)"

text \<open>A drop on the edge of a group: at that end of a group of the axis, or in a new pair with the group.\<close>

definition apply_group_edge_placement ::
  "layout_policy \<Rightarrow> node \<Rightarrow> node_id \<Rightarrow> node_id \<Rightarrow> drag_side \<Rightarrow> nat \<Rightarrow> drag_placement option option" where
  "apply_group_edge_placement p t x g side rv =
     (case (drag_side_axis side, drag_side_before side) of
        (Some a, Some before) \<Rightarrow>
          if x = g then Some None
          else attempt (remove_leaf_from_tree p (Some t) x) (\<lambda>working.
            if x \<in> set (collect_leaves working) then Some None
            else attempt (find_group_full working g) (\<lambda>(cs, sh, i, ga).
              if cs = [] then Some None
              else if ga = a then Some (inserted_at p working g (if before then 0 else length cs) x)
              else Option.bind (generate_drag_group_id x rv (set (node_ids working))) (\<lambda>n.
                attempt (find_subtree working g) (\<lambda>group_node.
                  let wrapper = pair_group p n a before (Leaf x) group_node
                  in Some (if ident working = g then Some (wrapped_root g wrapper n)
                     else Option.bind (parent_of_group working g) (\<lambda>par. wrapped_in working par g wrapper n))))))
      | _ \<Rightarrow> Some None)"

text \<open>A drop inside a group, on no child.\<close>

definition apply_group_interior_placement ::
  "layout_policy \<Rightarrow> node \<Rightarrow> node_id \<Rightarrow> node_id \<Rightarrow> nat \<Rightarrow> drag_placement option" where
  "apply_group_interior_placement p t x g predecessor =
     (if x = g then None
      else Option.bind (remove_leaf_from_tree p (Some t) x) (\<lambda>working.
        if x \<in> set (collect_leaves working) then None
        else Option.bind (find_group_full working g) (\<lambda>(cs, sh, i, a).
          inserted_at p working g (min (length cs) (min (predecessor + 1) (2 ^ 64 - 1))) x)))"

text \<open>The first window of a group that is not the source.\<close>

fun first_window :: "links \<Rightarrow> window_id \<Rightarrow> domain_key \<Rightarrow> node_id list \<Rightarrow> window_id option" where
  "first_window windows source key [] = None"
| "first_window windows source key (x # xs) =
     (case find (\<lambda>l. link_leaf l = x \<and> homed l key) (om_values windows) of
        None \<Rightarrow> first_window windows source key xs
      | Some l \<Rightarrow> if link_window l \<noteq> source then Some (link_window l) else first_window windows source key xs)"

definition group_rep_window :: "node \<Rightarrow> node_id \<Rightarrow> links \<Rightarrow> window_id \<Rightarrow> domain_key \<Rightarrow> window_id option" where
  "group_rep_window t g windows source key =
     Option.bind (find_subtree t g) (\<lambda>n. first_window windows source key (collect_leaves n))"

subsection \<open>The resolver\<close>

text \<open>A resolved target with its edge; the centre has no axis.\<close>

definition resolved_as ::
  "node_id \<Rightarrow> window_id \<Rightarrow> rect \<Rightarrow> drag_side \<Rightarrow> prior_group_edge option \<Rightarrow> drag_placement option option
    \<Rightarrow> (refusal_kind + shared_drag) option" where
  "resolved_as target window r side prior placement =
     (case (drag_side_axis side, drag_side_before side) of
        (Some a, Some before) \<Rightarrow> map_option (\<lambda>placed. case placed of
            None \<Rightarrow> Inl RfMalformedTopology
          | Some pm \<Rightarrow> Inr \<lparr>sd_target_leaf = target, sd_target_window = window, sd_target_rect = r, sd_side = side,
              sd_axis = a, sd_before = before, sd_placement = pm, sd_next_prior = prior\<rparr>) placement
      | _ \<Rightarrow> Some (Inl RfUnsupportedCapability))"

definition drag_representative :: "node \<Rightarrow> node_id \<Rightarrow> links \<Rightarrow> exceptions \<Rightarrow> drag_state \<Rightarrow> window_id option" where
  "drag_representative t g windows exceptions capture =
     Option.bind (group_rep_window t g windows (ds_source_window capture) (ds_domain capture)) (\<lambda>w.
       if om_contains exceptions w then None else Some w)"

definition resolve_group ::
  "layout_policy \<Rightarrow> node \<Rightarrow> links \<Rightarrow> exceptions \<Rightarrow> drag_state \<Rightarrow> int \<Rightarrow> int \<Rightarrow> group_layout
    \<Rightarrow> (refusal_kind + shared_drag) option" where
  "resolve_group p t windows exceptions capture x y l =
     (case drag_representative t (gl_id l) windows exceptions capture of
        None \<Rightarrow> Some (Inl RfMalformedTopology)
      | Some rep \<Rightarrow>
          (case lp_classify_group_point p (gl_rect l) (gl_id l) x y (ds_prior capture) of
             Some edge \<Rightarrow> resolved_as (gl_id l) rep (gl_rect l) edge (Some \<lparr>pg_group = gl_id l, pg_edge = edge\<rparr>)
               (apply_group_edge_placement p t (ds_source_leaf capture) (gl_id l) edge (ds_revision capture))
           | None \<Rightarrow>
               let offset = (case gl_axis l of Horizontal \<Rightarrow> x | Vertical \<Rightarrow> y);
                   predecessor = lp_insertion_index_for_offset p (gl_child_starts l) offset
               in resolved_as (gl_id l) rep (gl_rect l) (case gl_axis l of Horizontal \<Rightarrow> DragLeft | Vertical \<Rightarrow> DragTop) None
                 (Some (apply_group_interior_placement p t (ds_source_leaf capture) (gl_id l) predecessor))))"

definition resolve_window ::
  "layout_policy \<Rightarrow> node \<Rightarrow> (node_id, rect) omap \<Rightarrow> links \<Rightarrow> exceptions \<Rightarrow> drag_state \<Rightarrow> int \<Rightarrow> int \<Rightarrow> node_id
    \<Rightarrow> (refusal_kind + shared_drag) option" where
  "resolve_window p t leaf_rects windows exceptions capture x y i =
     (if i = ds_source_leaf capture then Some (Inl Unchanged)
      else case om_get leaf_rects i of
          None \<Rightarrow> Some (Inl RfMalformedTopology)
        | Some r \<Rightarrow>
            (case lp_classify_window_point p r x y of
               None \<Rightarrow> Some (Inl Unchanged)
             | Some side \<Rightarrow>
                 if drag_side_is_stack side then Some (Inl RfUnsupportedCapability)
                 else case focused_window_for windows i (ds_domain capture) of
                     None \<Rightarrow> Some (Inl RfMalformedTopology)
                   | Some w \<Rightarrow>
                       if om_contains exceptions w then Some (Inl RfMalformedTopology)
                       else resolved_as i w r side None
                         (apply_drag_placement p t (ds_source_leaf capture) i side (ds_revision capture))))"

definition resolve_drag_shared ::
  "layout_policy \<Rightarrow> node \<Rightarrow> output_domain \<Rightarrow> links \<Rightarrow> exceptions \<Rightarrow> drag_state \<Rightarrow> int \<Rightarrow> int
    \<Rightarrow> (refusal_kind + shared_drag) option" where
  "resolve_drag_shared p t domain windows exceptions capture x y =
     (if \<not> contains_point (ds_work_area capture) x y then Some (Inl CrossDomainMismatch)
      else case project t (od_bounds domain) (od_gap domain) of
          Inl e \<Rightarrow> Some (Inl RfMalformedTopology)
        | Inr projected \<Rightarrow>
            let leaf_rects = om_from_list (map (\<lambda>q. (pleaf q, prect q)) projected);
                layouts = layout_by_id leaf_rects t
            in Option.bind (drag_walk t (child_contains leaf_rects layouts x y) (ident t)) (\<lambda>found.
              case found of
                None \<Rightarrow> Some (Inl RfMalformedTopology)
              | Some (Leaf i) \<Rightarrow> resolve_window p t leaf_rects windows exceptions capture x y i
              | Some (Group i a cs sh) \<Rightarrow>
                  (case om_get layouts i of
                     None \<Rightarrow> Some (Inl RfMalformedTopology)
                   | Some l \<Rightarrow> resolve_group p t windows exceptions capture x y l)))"

subsection \<open>The session's drag calls\<close>

definition drag_capture_stale :: "session \<Rightarrow> drag_state \<Rightarrow> bool" where
  "drag_capture_stale s c \<longleftrightarrow> ds_revision c \<noteq> accepted_revision s \<or> ds_generation c \<noteq> se_generation s
     \<or> se_trees s \<noteq> ds_trees c \<or> se_windows s \<noteq> ds_windows c \<or> se_exceptions s \<noteq> ds_exceptions c
     \<or> se_focused_domain s \<noteq> ds_focused_domain c \<or> se_focused_leaf s \<noteq> ds_focused_leaf c"

text \<open>The capture of a drag, or the refusal of \<open>begin_drag\<close>.\<close>

definition drag_guard :: "session \<Rightarrow> window_id \<Rightarrow> session_observation \<Rightarrow> refusal_kind option" where
  "drag_guard s window obs =
     (if \<not> validate_current_topology s then Some RfMalformedTopology
      else if window = [] then Some MalformedInput
      else if \<not> valid_observed_shapes (so_windows obs) then Some MalformedInput
      else if \<not> all_homed s (so_windows obs) then Some CrossDomainMismatch
      else if observed_ids obs \<noteq> known_ids s then Some PartialObservation
      else if \<not> observed_known_match s (so_windows obs) None then Some PartialObservation
      else if ob_owner (so_observation obs) \<noteq> se_owner s \<or> ob_generation (so_observation obs) \<noteq> se_generation s
        \<or> ob_revision (so_observation obs) \<noteq> accepted_revision s then Some MalformedInput
      else if om_contains (se_exceptions s) window then Some NotTiled
      else None)"

definition capture_state ::
  "session \<Rightarrow> window_id \<Rightarrow> session_observation \<Rightarrow> refusal_kind + drag_state" where
  "capture_state s window obs =
     (case om_get (se_windows s) window of
        None \<Rightarrow> Inl UnknownWindow
      | Some l \<Rightarrow>
          let key = link_key l
          in case find (\<lambda>d. domain_key_of d = key) (se_domains s) of
              None \<Rightarrow> Inl UnknownDomain
            | Some domain \<Rightarrow>
                if se_focused_domain s \<noteq> Some key \<or> se_focused_leaf s \<noteq> Some (link_leaf l) then Inl FocusMismatch
                else if (case observed_entry window (so_windows obs) of
                    None \<Rightarrow> False | Some e \<Rightarrow> flags_any (ow_flags e)) then Inl NotTiled
                else case project_output_geometry (Some domain) (tree_at (se_trees s) key) (se_windows s) key
                    (hints_from_observed (so_windows obs)) of
                    None \<Rightarrow> Inl RfMalformedTopology
                  | Some geometry \<Rightarrow>
                      (case find (\<lambda>g. dg_leaf g = link_leaf l) geometry of
                         None \<Rightarrow> Inl RfMalformedTopology
                       | Some g \<Rightarrow> Inr \<lparr>ds_domain = key, ds_source_leaf = link_leaf l, ds_source_window = window,
                           ds_revision = accepted_revision s, ds_generation = se_generation s,
                           ds_trees = se_trees s, ds_windows = se_windows s, ds_exceptions = se_exceptions s,
                           ds_focused_domain = se_focused_domain s, ds_focused_leaf = se_focused_leaf s,
                           ds_source_rect = dg_rect g, ds_work_area = od_bounds domain, ds_prior = None\<rparr>))"

definition drag_capture_of :: "drag_state \<Rightarrow> drag_capture" where
  "drag_capture_of c = \<lparr>dc_domain = ds_domain c, dc_source_leaf = ds_source_leaf c,
     dc_source_window = ds_source_window c, dc_revision = ds_revision c, dc_source_rect = ds_source_rect c,
     dc_work_area = ds_work_area c\<rparr>"

definition begin_drag :: "window_id \<Rightarrow> session_observation \<Rightarrow> session \<Rightarrow> (session_error + drag_capture) \<times> session" where
  "begin_drag window obs s =
     (case ready_error s of
        Some e \<Rightarrow> (Inl e, s)
      | None \<Rightarrow>
          (case drag_guard s window obs of
             Some kind \<Rightarrow> (Inl (SRefused kind), s)
           | None \<Rightarrow>
               (case capture_state s window obs of
                  Inl kind \<Rightarrow> (Inl (SRefused kind), s)
                | Inr c \<Rightarrow> (Inr (drag_capture_of c), s\<lparr>se_drag := Some c\<rparr>))))"

definition carry_drag_prior :: "drag_hover_prior \<Rightarrow> session \<Rightarrow> bool \<times> session" where
  "carry_drag_prior h s =
     (case se_drag s of
        None \<Rightarrow> (False, s)
      | Some c \<Rightarrow>
          if ds_domain c \<noteq> dh_domain h \<or> ds_source_leaf c \<noteq> dh_source_leaf h
            \<or> ds_source_window c \<noteq> dh_source_window h \<or> ds_revision c \<noteq> dh_revision h
          then (False, s) else (True, s\<lparr>se_drag := Some (c\<lparr>ds_prior := dh_prior h\<rparr>)\<rparr>))"

definition snap_back_rect :: "session \<Rightarrow> drag_state \<Rightarrow> rect" where
  "snap_back_rect s c =
     (case Option.bind (find (\<lambda>d. domain_key_of d = ds_domain c) (se_domains s)) (\<lambda>domain.
         Option.bind (project_output_geometry (Some domain) (tree_at (se_trees s) (ds_domain c)) (se_windows s)
             (ds_domain c) om_empty) (\<lambda>geometry.
           map_option dg_rect (find (\<lambda>g. dg_leaf g = ds_source_leaf c) geometry))) of
        None \<Rightarrow> ds_source_rect c
      | Some r \<Rightarrow> r)"

definition clear_drag_snap_back :: "drag_state \<Rightarrow> session \<Rightarrow> drag_snap_back \<times> session" where
  "clear_drag_snap_back c s =
     (\<lparr>sb_domain = ds_domain c, sb_source_leaf = ds_source_leaf c, sb_source_window = ds_source_window c,
       sb_source_rect = snap_back_rect s c\<rparr>, s\<lparr>se_drag := None\<rparr>)"

definition cancel_drag :: "session \<Rightarrow> drag_snap_back option \<times> session" where
  "cancel_drag s =
     (case se_drag s of
        None \<Rightarrow> (None, s)
      | Some c \<Rightarrow> (case clear_drag_snap_back c s of (b, s') \<Rightarrow> (Some b, s')))"

text \<open>The resolver of a capture on the live session, or why it cannot be asked.\<close>

definition drag_resolution ::
  "session \<Rightarrow> drag_state \<Rightarrow> int \<Rightarrow> int \<Rightarrow> refusal_kind + (node \<times> (refusal_kind + shared_drag) option)" where
  "drag_resolution s c x y =
     (case tree_at (se_trees s) (ds_domain c) of
        None \<Rightarrow> Inl RfMalformedTopology
      | Some current \<Rightarrow>
          (case find (\<lambda>d. domain_key_of d = ds_domain c) (se_domains s) of
             None \<Rightarrow> Inl UnknownDomain
           | Some domain \<Rightarrow> Inr (current, resolve_drag_shared (se_policy s) current domain (se_windows s)
               (se_exceptions s) c x y)))"

definition set_drag_prior :: "prior_group_edge option \<Rightarrow> session \<Rightarrow> session" where
  "set_drag_prior prior s = s\<lparr>se_drag := map_option (\<lambda>c. c\<lparr>ds_prior := prior\<rparr>) (se_drag s)\<rparr>"

definition drag_preview_of :: "drag_state \<Rightarrow> shared_drag \<Rightarrow> rect \<Rightarrow> drag_preview" where
  "drag_preview_of c r proposed =
     (let pm = sd_placement r
      in \<lparr>dv_domain = ds_domain c, dv_source_leaf = ds_source_leaf c, dv_source_window = ds_source_window c,
        dv_revision = ds_revision c, dv_source_rect = ds_source_rect c, dv_target_leaf = sd_target_leaf r,
        dv_target_window = sd_target_window r, dv_target_rect = sd_target_rect r, dv_proposed_rect = proposed,
        dv_side = sd_side r, dv_axis = sd_axis r, dv_before = sd_before r, dv_wrap = pm_wrap pm,
        dv_target_group = pm_target_group pm, dv_insertion_index = pm_insertion_index pm,
        dv_prior = sd_next_prior r\<rparr>)"

text \<open>What a resolved target answers: the moved window's rectangle in the placed tree.\<close>

definition preview_answer ::
  "session \<Rightarrow> drag_state \<Rightarrow> node \<Rightarrow> shared_drag \<Rightarrow> observed_window list \<Rightarrow> session_error + drag_preview" where
  "preview_answer s c current r ws =
     (if pm_tree (sd_placement r) = current then Inl (SRefused Unchanged)
      else
        let desired = om_insert (ds_domain c) (Some (pm_tree (sd_placement r))) (se_trees s)
        in case project_affected_geometry (se_domains s) desired (se_windows s) [ds_domain c] (hints_from_observed ws) of
            None \<Rightarrow> Inl (SRefused RfMalformedTopology)
          | Some geometry \<Rightarrow>
              (case find (\<lambda>g. dg_leaf g = ds_source_leaf c) geometry of
                 None \<Rightarrow> Inl (SRefused RfMalformedTopology)
               | Some g \<Rightarrow> Inr (drag_preview_of c r (dg_rect g))))"

definition preview_drag ::
  "int \<Rightarrow> int \<Rightarrow> observed_window list \<Rightarrow> session \<Rightarrow> ((session_error + drag_preview) \<times> session) option" where
  "preview_drag x y ws s =
     (case session_divergence s of
        Some reason \<Rightarrow> Some (Inl (SDiverged reason), s)
      | None \<Rightarrow>
          if \<not> validate_current_topology s then Some (Inl (SRefused RfMalformedTopology), s)
          else case se_drag s of
              None \<Rightarrow> Some (Inl (SRefused MalformedInput), s)
            | Some c \<Rightarrow>
                if drag_capture_stale s c then Some (Inl (SRefused RfMalformedTopology), s)
                else case drag_resolution s c x y of
                    Inl kind \<Rightarrow> Some (Inl (SRefused kind), s)
                  | Inr (current, resolution) \<Rightarrow> map_option (\<lambda>resolved. case resolved of
                        Inl kind \<Rightarrow> (Inl (SRefused kind), set_drag_prior None s)
                      | Inr r \<Rightarrow> (preview_answer s c current r ws, set_drag_prior (sd_next_prior r) s)) resolution)"

definition drag_plan_of :: "drag_state \<Rightarrow> shared_drag \<Rightarrow> drag_plan" where
  "drag_plan_of c r =
     (let pm = sd_placement r
      in drag_for_operation
        \<lparr>di_domain_output = dk_output (ds_domain c), di_domain_workspace = dk_workspace (ds_domain c),
          di_source_leaf = ds_source_leaf c, di_source_window = ds_source_window c,
          di_target_leaf = sd_target_leaf r, di_target_window = sd_target_window r, di_side = sd_side r\<rparr>
        \<lparr>do_domain_output = dk_output (ds_domain c), do_domain_workspace = dk_workspace (ds_domain c),
          do_source_leaf = ds_source_leaf c, do_source_window = ds_source_window c,
          do_target_leaf = sd_target_leaf r, do_target_window = sd_target_window r, do_side = sd_side r,
          do_axis = sd_axis r, do_before = sd_before r, do_target_group = pm_target_group pm,
          do_insertion_index = pm_insertion_index pm, do_wrap = pm_wrap pm, do_new_group = pm_new_group pm\<rparr>)"

definition drag_desired :: "session \<Rightarrow> drag_state \<Rightarrow> trees \<Rightarrow> pending_desired" where
  "drag_desired s c trees = (desired_of s)\<lparr>pe_trees := trees, pe_focused_domain := Some (ds_domain c),
     pe_focused_leaf := Some (ds_source_leaf c)\<rparr>"

text \<open>A release that changes the layout: the plan with its staged state, or nothing to stage.\<close>

definition drop_decision ::
  "session \<Rightarrow> drag_state \<Rightarrow> node \<Rightarrow> shared_drag \<Rightarrow> session_observation \<Rightarrow> drag_capabilities
    \<Rightarrow> (drag_plan \<times> pending_desired \<times> (drag_dispatch \<Rightarrow> drag_release)) option" where
  "drop_decision s c current r obs caps =
     (let desired = om_insert (ds_domain c) (Some (pm_tree (sd_placement r))) (se_trees s);
          plan = drag_plan_of c r
      in if \<not> drag_supports caps PlaceTiled \<or> pm_tree (sd_placement r) = current
          \<or> \<not> validate_topology (se_domains s) desired (se_windows s) (se_exceptions s) (Some (ds_domain c))
              (Some (ds_source_leaf c)) then None
         else map_option (\<lambda>geometry. (plan, drag_desired s c desired,
             (\<lambda>dispatch. DragPlanned \<lparr>sg_dispatch = dispatch, sg_plan = plan,
                sg_snapshot = snapshot_for (se_domains s) desired (se_windows s),
                sg_focus_domain = ds_domain c, sg_focus_leaf = ds_source_leaf c, sg_geometry = geometry\<rparr>)))
           (covering_geometry s desired (se_windows s) [ds_domain c] (so_windows obs)))"

definition drop_snap_back :: "drag_state \<Rightarrow> session \<Rightarrow> (session_error + drag_release) \<times> session" where
  "drop_snap_back c s = (case clear_drag_snap_back c s of (b, s') \<Rightarrow> (Inr (DragSnapBack b), s'))"

definition drop_resolved ::
  "session \<Rightarrow> drag_state \<Rightarrow> node \<Rightarrow> shared_drag \<Rightarrow> session_observation \<Rightarrow> correlation_id \<Rightarrow> drag_capabilities
    \<Rightarrow> (session_error + drag_release) \<times> session" where
  "drop_resolved s c current r obs corr caps =
     (let s = set_drag_prior (sd_next_prior r) s
      in case drop_decision s c current r obs caps of
          None \<Rightarrow> drop_snap_back c s
        | Some (plan, desired, answer) \<Rightarrow>
            (case stage_plan (propose_drag plan (so_observation obs) corr caps) desired answer s of
               (Inl e, s') \<Rightarrow> (Inl e, s')
             | (Inr a, s') \<Rightarrow> (Inr a, s'\<lparr>se_drag := None\<rparr>)))"

definition drop_drag ::
  "int \<Rightarrow> int \<Rightarrow> session_observation \<Rightarrow> correlation_id \<Rightarrow> drag_capabilities \<Rightarrow> session
    \<Rightarrow> ((session_error + drag_release) \<times> session) option" where
  "drop_drag x y obs corr caps s =
     (case session_divergence s of
        Some reason \<Rightarrow> Some (Inl (SDiverged reason), s\<lparr>se_pending := None, se_drag := None\<rparr>)
      | None \<Rightarrow>
          (case se_drag s of
             None \<Rightarrow> Some (Inl (SRefused MalformedInput), s)
           | Some c \<Rightarrow>
               if has_pending s then Some (Inl SPendingExists, s)
               else if \<not> validate_current_topology s \<or> \<not> valid_observed_shapes (so_windows obs)
                 \<or> \<not> all_homed s (so_windows obs) \<or> observed_ids obs \<noteq> known_ids s
                 \<or> \<not> observed_known_match s (so_windows obs) None \<or> drag_capture_stale s c
               then Some (drop_snap_back c s)
               else case drag_resolution s c x y of
                   Inl kind \<Rightarrow> Some (drop_snap_back c s)
                 | Inr (current, resolution) \<Rightarrow> map_option (\<lambda>resolved. case resolved of
                       Inl kind \<Rightarrow> if kind = RfUnsupportedCapability
                         then (Inl (SRefused RfUnsupportedCapability), s\<lparr>se_drag := None\<rparr>)
                         else drop_snap_back c s
                     | Inr r \<Rightarrow> drop_resolved s c current r obs corr caps) resolution))"

end
