(* ===== verification/Session_Drag_Exact.thy ===== *)
theory Session_Drag_Exact
  imports Session_Drag Session_Move_Proposal
begin

text \<open>
  What a drag does: every placement moves one leaf, the walk of the resolver is the structural descent, a
  preview is repeated by the release, and a drag as a whole is a transaction.
\<close>

subsection \<open>The drag slot\<close>

lemma set_drag_inv:
  assumes "session_inv s" "session_divergence s = None" "se_pending s = None"
  shows "session_inv (s\<lparr>se_drag := d\<rparr>)"
  using assms by (simp add: session_inv_def bound_ok_def current_ok_def session_divergence_def)

lemma clear_drag_inv: "session_inv s \<Longrightarrow> session_inv (s\<lparr>se_drag := None\<rparr>)"
  by (simp add: session_inv_def bound_ok_def current_ok_def)

lemma keeps_world_drag [simp]: "keeps_world s (s\<lparr>se_drag := d\<rparr>)"
  by (simp add: keeps_world_def accepted_revision_def)

lemma dragging_idle:
  assumes "session_inv s" "se_drag s = Some c"
  shows "session_divergence s = None" "se_pending s = None" "\<not> has_pending s"
  using assms by (auto simp: session_inv_def bound_ok_def session_divergence_def has_pending_def status_def split: option.splits)

text \<open>The captured state, with the hover as its only later change.\<close>

definition captured :: "session \<Rightarrow> drag_state \<Rightarrow> prior_group_edge option \<Rightarrow> session" where
  "captured s c prior = s\<lparr>se_drag := Some (c\<lparr>ds_prior := prior\<rparr>)\<rparr>"

lemma captured_drag [simp]: "se_drag (captured s c prior) = Some (c\<lparr>ds_prior := prior\<rparr>)"
  by (simp add: captured_def)

lemma captured_again [simp]: "set_drag_prior q (captured s c prior) = captured s c q"
  by (simp add: captured_def set_drag_prior_def)

inductive drag_hover :: "session \<Rightarrow> session \<Rightarrow> bool" where
  preview: "preview_drag x y ws s = Some (shown, s') \<Longrightarrow> drag_hover s s'"
| carry: "carry_drag_prior h s = (carried, s') \<Longrightarrow> drag_hover s s'"

lemma preview_captured:
  assumes "preview_drag x y ws (captured s c prior) = Some (shown, s')"
  shows "\<exists>q. s' = captured s c q"
proof -
  have "s' = captured s c prior \<or> (\<exists>q. s' = set_drag_prior q (captured s c prior))"
    using assms by (auto simp: preview_drag_def split: option.splits if_splits sum.splits prod.splits) (metis sum.exhaust)
  then show ?thesis by auto
qed

lemma hover_captured:
  assumes "drag_hover (captured s c prior) s'"
  shows "\<exists>q. s' = captured s c q"
  using assms
proof (cases rule: drag_hover.cases)
  case (preview x y ws shown)
  then show ?thesis by (rule_tac preview_captured)
next
  case (carry h carried)
  then have "s' = captured s c prior \<or> s' = captured s c (dh_prior h)"
    by (auto simp: carry_drag_prior_def captured_def split: if_splits)
  then show ?thesis by blast
qed

lemma hovers_captured: "drag_hover\<^sup>*\<^sup>* (captured s c prior) s' \<Longrightarrow> \<exists>q. s' = captured s c q"
  by (induction rule: rtranclp_induct) (blast dest: hover_captured)+

text \<open>The capture of an accepted \<open>begin_drag\<close>.\<close>

definition capture_of :: "session \<Rightarrow> window_id \<Rightarrow> drag_state \<Rightarrow> bool" where
  "capture_of s window c \<longleftrightarrow> ds_source_window c = window \<and> \<not> om_contains (se_exceptions s) window
     \<and> om_get (se_windows s) window = Some \<lparr>link_window = window, link_leaf = ds_source_leaf c,
         link_output = dk_output (ds_domain c), link_workspace = dk_workspace (ds_domain c)\<rparr>
     \<and> se_focused_domain s = Some (ds_domain c) \<and> se_focused_leaf s = Some (ds_source_leaf c)
     \<and> ds_prior c = None \<and> \<not> drag_capture_stale s c"

lemma begin_captures:
  assumes inv: "session_inv s" and b: "begin_drag window obs s = (Inr capture, s')"
  obtains c where "s' = captured s c None" "capture_of s window c" "session_divergence s = None" "se_pending s = None"
    "se_drag s = None" "capture = drag_capture_of c"
proof -
  have ready: "ready_error s = None" using b by (auto simp: begin_drag_def split: option.splits)
  with b obtain c where g: "drag_guard s window obs = None" and c: "capture_state s window obs = Inr c"
    and s': "s' = s\<lparr>se_drag := Some c\<rparr>" "capture = drag_capture_of c"
    by (auto simp: begin_drag_def split: option.splits sum.splits)
  have cur: "current_ok s" using inv by (simp add: session_inv_def)
  have ex: "\<not> om_contains (se_exceptions s) window" using g by (auto simp: drag_guard_def split: if_splits)
  obtain l where l: "om_get (se_windows s) window = Some l" using c by (auto simp: capture_state_def split: option.splits)
  have "link_window l = window" by (rule world_link_window [OF current_world [OF cur] l])
  with c l ex have "capture_of s window c \<and> ds_prior c = None"
    by (auto simp: capture_state_def capture_of_def Let_def drag_capture_stale_def link_key_def split: option.splits if_splits)
  then have "capture_of s window c" "c\<lparr>ds_prior := None\<rparr> = c" by simp_all
  then show thesis using that [of c] ready_error_None [OF inv] ready s' by (simp add: captured_def)
qed

subsection \<open>Subtrees by identity\<close>

lemma find_subtree_subnode:
  "distinct (node_ids t) \<Longrightarrow> n \<in> set (subnodes t) \<Longrightarrow> find_subtree t (ident n) = Some n"
proof (induction t)
  case (Leaf i)
  then show ?case by simp
next
  case (Group i b ds dh)
  show ?case
  proof (cases "n = Group i b ds dh")
    case False
    then obtain c where c: "c \<in> set ds" "n \<in> set (subnodes c)" using Group.prems(2) by auto
    have d: "distinct (concat (map node_ids ds))" "i \<notin> set (concat (map node_ids ds))"
      using Group.prems(1) unfolding node_ids.simps distinct.simps by blast+
    obtain pre post where ds: "ds = pre @ c # post" "set (node_ids c) \<inter> set (concat (map node_ids pre)) = {}"
      "set (node_ids c) \<inter> set (concat (map node_ids post)) = {}"
      using child_split [OF c(1) d(1)] .
    have g: "ident n \<in> set (node_ids c)" using subnode_ids [OF c(2)] ident_in_ids by blast
    then have "ident n \<notin> set (concat (map node_ids pre))" "i \<noteq> ident n" using ds d(2) by auto
    moreover have "find_subtree c (ident n) = Some n" using Group.IH [OF c(1) _ c(2)] d(1) by (simp add: ds(1))
    ultimately show ?thesis by (simp add: ds(1) find_subtree_append find_subtree_absent(2))
  qed simp
qed

lemma subnode_unique:
  "distinct (node_ids t) \<Longrightarrow> n \<in> set (subnodes t) \<Longrightarrow> m \<in> set (subnodes t) \<Longrightarrow> ident n = ident m \<Longrightarrow> n = m"
  using find_subtree_subnode [of t n] find_subtree_subnode [of t m] by (metis option.inject)

lemma find_subtree_Some:
  "find_subtree t x = Some n \<Longrightarrow> n \<in> set (subnodes t) \<and> ident n = x"
  "find_subtree_in ts x = Some n \<Longrightarrow> (\<exists>t \<in> set ts. n \<in> set (subnodes t)) \<and> ident n = x"
proof (induction t x and ts x rule: find_subtree_find_subtree_in.induct)
  case (1 i x)
  then show ?case by (auto split: if_splits)
next
  case (2 i a cs sh x)
  then show ?case by (cases "i = x") auto
next
  case (4 c cs x)
  then show ?case by (cases "find_subtree c x") simp_all
qed simp

lemma leaf_subnode: "x \<in> set (leaves t) \<Longrightarrow> Leaf x \<in> set (subnodes t)"
  by (induction t) auto

subsection \<open>The walk\<close>

text \<open>The structural descent: into the first child that holds the pointer.\<close>

fun descend :: "(node \<Rightarrow> bool) \<Rightarrow> node \<Rightarrow> node"
  and descend_in :: "(node \<Rightarrow> bool) \<Rightarrow> node list \<Rightarrow> node option" where
  "descend contains (Leaf i) = Leaf i"
| "descend contains (Group i a cs sh) = (case descend_in contains cs of None \<Rightarrow> Group i a cs sh | Some n \<Rightarrow> n)"
| "descend_in contains [] = None"
| "descend_in contains (c # cs) = (if contains c then Some (descend contains c) else descend_in contains cs)"

lemma descend_in_find: "descend_in contains cs = map_option (descend contains) (find contains cs)"
  by (induction cs) simp_all

lemma drag_walk_subnode:
  assumes "distinct (node_ids t)" "n \<in> set (subnodes t)"
  shows "drag_walk t contains (ident n) = Some (Some (descend contains n))"
  using assms(2)
proof (induction n)
  case (Leaf i)
  then show ?case using find_subtree_subnode [OF assms(1) Leaf] by (subst drag_walk.simps) simp
next
  case (Group i a cs sh)
  have "c \<in> set (subnodes t)" if "c \<in> set cs" for c by (rule subnode_trans [OF Group.prems that])
  moreover have "c \<in> set cs" if "find contains cs = Some c" for c using that by (auto simp: find_Some_iff)
  ultimately show ?case using find_subtree_subnode [OF assms(1) Group.prems] Group.IH
    by (subst drag_walk.simps) (auto simp: descend_in_find split: option.splits)
qed

lemma descend_subnode: "descend contains n \<in> set (subnodes n)"
  "descend_in contains ts = Some m \<Longrightarrow> \<exists>t \<in> set ts. m \<in> set (subnodes t)"
  by (induction contains n and contains ts arbitrary: and m rule: descend_descend_in.induct)
    (fastforce split: option.splits if_splits)+

subsection \<open>Placements move one leaf\<close>

lemma group_id_loop_result:
  assumes "group_id_loop b ids n = Some g"
  shows "g \<notin> ids \<and> (\<exists>m. g = group_id_candidate b m)"
  using assms by (rule group_id_loop.raw_induct [rotated]) (auto split: if_splits)

lemma drag_group_id_new:
  assumes "generate_drag_group_id x rv ids = Some g"
  shows "g \<notin> ids" "g \<noteq> []" "g \<noteq> x"
proof -
  let ?base = "''grp-'' @ x @ ''-r'' @ decimal rv @ ''-drag''"
  have "g \<notin> ids \<and> (\<exists>suffix. g = ''grp-'' @ x @ suffix)"
  proof (cases "?base \<in> ids")
    case True
    with assms have "group_id_loop ?base ids 1 = Some g" unfolding generate_drag_group_id_def Let_def by simp
    from group_id_loop_result [OF this] show ?thesis unfolding group_id_candidate_def append_assoc by blast
  next
    case False
    with assms have "g = ?base" unfolding generate_drag_group_id_def Let_def by simp
    with False show ?thesis by blast
  qed
  then obtain suffix where "g \<notin> ids" "g = ''grp-'' @ x @ suffix" by blast
  moreover have "length (''grp-'' @ x @ suffix) \<noteq> length x" by simp
  ultimately show "g \<notin> ids" "g \<noteq> []" "g \<noteq> x" by auto
qed

context share_policy
begin

lemma inserted_moved:
  assumes "wf_node w" "x \<notin> set (node_ids w)" "x \<noteq> []" "Group g a cs sh \<in> set (subnodes w)" "k \<le> length cs"
    and "inserted_at p w g k x = Some pm" "wf_node (pm_tree pm)"
  shows "moved x w (pm_tree pm)"
  using insert_leaf_moved [OF assms(1-5)] assms(6,7) by (auto simp: inserted_at_def split: option.splits)

lemma wrapped_in_moved:
  assumes w: "wf_node w" and x: "x \<notin> set (node_ids w)" "x \<noteq> []" and n: "n \<notin> set (node_ids w)" "n \<noteq> x" "n \<noteq> []"
    and v: "v \<in> set (subnodes w)" and pm: "wrapped_in w par (ident v) (pair_group p n a first (Leaf x) v) n = Some pm"
  shows "moved x w (pm_tree pm)"
proof -
  have d: "distinct (node_ids w)" using w by (simp add: wf_node_def)
  from pm obtain cs ga i sh k t' where e: "find_group w par = Some (cs, ga, i)" "find_group_shares w par = Some sh"
    "child_position cs (ident v) = Some k" "replace_child_at w par k (pair_group p n a first (Leaf x) v) (sh ! k) = Some t'"
    "pm_tree pm = t'"
    by (auto simp: wrapped_in_def bind_eq_Some_conv split: if_splits)
  obtain sh' where "Group par ga cs sh' \<in> set (subnodes w)" using e(1) find_group_iff(2) [OF d] by blast
  then have g: "Group par ga cs sh \<in> set (subnodes w)" using find_group_shares_subnode [OF d] e(2) by auto
  note k = child_position_iff [OF subnode_facts(5) [OF w g], THEN iffD1, OF e(3)]
  then have "cs ! k \<in> set (subnodes w)" using subnode_trans [OF g] by simp
  then have "cs ! k = v" using subnode_unique [OF d _ v] k by blast
  with wrap_child_moved [OF w x n g conjunct1 [OF k], of a first] e(4,5) show ?thesis by simp
qed

lemma wrapped_root_moved:
  assumes "wf_node w" "x \<notin> set (node_ids w)"
    and "pm = wrapped_root target (pair_group p n a first (Leaf x) w) n" "wf_node (pm_tree pm)"
  shows "moved x w (pm_tree pm)"
  using assms leaves_subset_node_ids [of w] by (auto simp: moved_def others_def wrapped_root_def pair_group_def)

end

text \<open>
  The three ways to place the source in the tree without it: into a group, in a new root with the target,
  or in a new group around the target.
\<close>

definition fresh_for :: "node \<Rightarrow> node_id \<Rightarrow> node_id \<Rightarrow> bool" where
  "fresh_for w x n \<longleftrightarrow> n \<notin> set (node_ids w) \<and> n \<noteq> x \<and> n \<noteq> []"

definition placed :: "layout_policy \<Rightarrow> node \<Rightarrow> node_id \<Rightarrow> node_id \<Rightarrow> drag_placement \<Rightarrow> bool" where
  "placed p w x target pm \<longleftrightarrow>
     (\<exists>g a cs sh k. Group g a cs sh \<in> set (subnodes w) \<and> k \<le> length cs \<and> inserted_at p w g k x = Some pm)
     \<or> (\<exists>n a first. fresh_for w x n \<and> ident w = target \<and> pm = wrapped_root target (pair_group p n a first (Leaf x) w) n)
     \<or> (\<exists>n v a first par. fresh_for w x n \<and> v \<in> set (subnodes w) \<and> ident v = target
         \<and> wrapped_in w par target (pair_group p n a first (Leaf x) v) n = Some pm)"

text \<open>The identities of a placement are what the reconciler demands of a drag operation.\<close>

definition placement_fits :: "node_id \<Rightarrow> node_id \<Rightarrow> drag_placement \<Rightarrow> bool" where
  "placement_fits x target pm \<longleftrightarrow> pm_target_group pm \<noteq> [] \<and> pm_target_group pm \<noteq> x
     \<and> (if pm_wrap pm
        then \<exists>n. pm_new_group pm = Some n \<and> n \<noteq> [] \<and> n \<noteq> x \<and> n \<noteq> target \<and> n \<noteq> pm_target_group pm
          \<and> (pm_target_group pm = target \<longrightarrow> pm_insertion_index pm = 0)
        else pm_new_group pm = None)"

lemma placed_fits:
  assumes w: "wf_node w" "x \<notin> set (node_ids w)" and pm: "placed p w x target pm"
  shows "placement_fits x target pm"
  using pm unfolding placed_def
proof (elim disjE exE conjE)
  have d: "distinct (node_ids w)" "[] \<notin> set (node_ids w)" using w(1) by (simp_all add: wf_node_def)
  have group: "g \<in> set (node_ids w)" if "Group g a cs sh \<in> set (subnodes w)" for g a cs sh
    using subnode_group_id [OF that] group_ids_subset_node_ids [of w] by blast
  {
    fix g a cs sh k
    assume "Group g a cs sh \<in> set (subnodes w)" "inserted_at p w g k x = Some pm"
    with d(2) w(2) group show ?thesis by (auto simp: placement_fits_def inserted_at_def)
  next
    fix n a first
    assume "fresh_for w x n" "ident w = target" "pm = wrapped_root target (pair_group p n a first (Leaf x) w) n"
    with d(2) w(2) ident_in_ids [of w] show ?thesis by (auto simp: placement_fits_def wrapped_root_def fresh_for_def)
  next
    fix n v a first par
    assume n: "fresh_for w x n" and v: "v \<in> set (subnodes w)" "ident v = target"
      and pm: "wrapped_in w par target (pair_group p n a first (Leaf x) v) n = Some pm"
    from pm obtain cs ga i k where g: "find_group w par = Some (cs, ga, i)" "child_position cs target = Some k"
      and e: "pm_target_group pm = par" "pm_wrap pm" "pm_new_group pm = Some n"
      by (auto simp: wrapped_in_def bind_eq_Some_conv split: if_splits)
    obtain sh where sub: "Group par ga cs sh \<in> set (subnodes w)" using g(1) find_group_iff(2) [OF d(1)] by blast
    have k: "k < length cs" "ident (cs ! k) = target"
      using child_position_iff [OF subnode_facts(5) [OF w(1) sub]] g(2) by simp_all
    have "target \<in> set (concat (map node_ids cs))" using k ident_child_ids [of target cs] by force
    then have "par \<noteq> target" using subnode_facts(9) [OF w(1) sub] by blast
    moreover have "target \<in> set (node_ids w)" using subnode_ids [OF v(1)] ident_in_ids [of v] v(2) by blast
    ultimately show ?thesis using d(2) w(2) group [OF sub] n e by (auto simp: placement_fits_def fresh_for_def)
  }
qed

context share_policy
begin

lemma placed_moved:
  assumes w: "wf_node w" "x \<notin> set (node_ids w)" "x \<noteq> []" and pm: "placed p w x target pm" "wf_node (pm_tree pm)"
  shows "moved x w (pm_tree pm)"
  using pm(1) unfolding placed_def
proof (elim disjE exE conjE)
  fix g a cs sh k
  assume "Group g a cs sh \<in> set (subnodes w)" "k \<le> length cs" "inserted_at p w g k x = Some pm"
  from inserted_moved [OF w this pm(2)] show ?thesis .
next
  fix n a first
  assume "pm = wrapped_root target (pair_group p n a first (Leaf x) w) n"
  from wrapped_root_moved [OF w(1,2) this pm(2)] show ?thesis .
next
  fix n v a first par
  assume n: "fresh_for w x n" and v: "v \<in> set (subnodes w)" "ident v = target"
    and pm: "wrapped_in w par target (pair_group p n a first (Leaf x) v) n = Some pm"
  from n have n: "n \<notin> set (node_ids w)" "n \<noteq> x" "n \<noteq> []" by (simp_all add: fresh_for_def)
  from wrapped_in_moved [OF w n v(1) pm [folded v(2)]] show ?thesis .
qed

end

subsection \<open>What each drop does\<close>

lemma drag_group_id_fresh: "generate_drag_group_id x rv (set (node_ids w)) = Some n \<Longrightarrow> fresh_for w x n"
  by (simp add: fresh_for_def drag_group_id_new)

lemma wrap_leaf_placed:
  assumes w: "wf_node w" and t: "target \<in> set (leaves w)" and pm: "wrap_leaf p w x target a before rv = Some (Some pm)"
  shows "placed p w x target pm"
proof -
  obtain g where g: "generate_drag_group_id x rv (set (node_ids w)) = Some g"
    and out: "(if ident w = target then Some (wrapped_root target (pair_group p g a before (Leaf x) (Leaf target)) g)
          else Option.bind (direct_parent_of_leaf w target)
            (\<lambda>par. wrapped_in w par target (pair_group p g a before (Leaf x) (Leaf target)) g)) = Some pm"
    using pm by (auto simp: wrap_leaf_def bind_eq_Some_conv Let_def)
  note new = drag_group_id_fresh [OF g]
  have v: "Leaf target \<in> set (subnodes w)" "ident (Leaf target) = target" by (simp_all add: leaf_subnode [OF t])
  show ?thesis
  proof (cases "ident w = target")
    case True
    have "w = Leaf target" using subnode_unique [OF _ subnodes_self v(1)] w True by (simp add: wf_node_def)
    with out True new show ?thesis unfolding placed_def by auto
  next
    case False
    with out obtain par where "wrapped_in w par target (pair_group p g a before (Leaf x) (Leaf target)) g = Some pm"
      by (auto simp: bind_eq_Some_conv)
    with new v show ?thesis unfolding placed_def by blast
  qed
qed

lemma guarded_Some: "(if n < k then None else v) = Some u \<longleftrightarrow> (k::nat) \<le> n \<and> v = Some u"
  by auto

text \<open>The tree without the source, in which it is placed.\<close>

definition drop_places :: "layout_policy \<Rightarrow> node \<Rightarrow> node_id \<Rightarrow> node_id \<Rightarrow> drag_placement \<Rightarrow> bool" where
  "drop_places p t x target pm \<longleftrightarrow> (\<exists>w. remove_leaf_from_tree p (Some t) x = Some w \<and> placed p w x target pm)"

context share_policy
begin

lemma removed_source:
  assumes t: "wf_node t" "x \<in> set (leaves t)" and w: "remove_leaf_from_tree p (Some t) x = Some w"
  shows "wf_node w" "leaves w = others x t" "x \<notin> set (node_ids w)" "x \<noteq> []"
  using remove_leaf_ok [OF t] w t leaves_subset_node_ids [of t] by (auto simp: others_def wf_node_def)

lemma drop_places_moved:
  assumes t: "wf_node t" "x \<in> set (leaves t)" and pm: "drop_places p t x target pm" "wf_node (pm_tree pm)"
  shows "moved x t (pm_tree pm)"
proof -
  obtain w where w: "remove_leaf_from_tree p (Some t) x = Some w" and pl: "placed p w x target pm"
    using pm(1) by (auto simp: drop_places_def)
  note rem = removed_source [OF t w]
  from placed_moved [OF rem(1,3,4) pl pm(2)] rem(2) show ?thesis by (rule moved_back)
qed

lemma drop_places_fits:
  assumes t: "wf_node t" "x \<in> set (leaves t)" and pm: "drop_places p t x target pm"
  shows "placement_fits x target pm"
  using pm removed_source [OF t] placed_fits by (auto simp: drop_places_def)

lemma drag_placement_places:
  assumes t: "wf_node t" "x \<in> set (leaves t)" and pm: "apply_drag_placement p t x target side rv = Some (Some pm)"
  shows "drop_places p t x target pm"
proof -
  from pm obtain a before w where side: "drag_side_axis side = Some a" "drag_side_before side = Some before"
    and w: "remove_leaf_from_tree p (Some t) x = Some w" and tg: "target \<in> set (collect_leaves w)"
    and out: "(case direct_parent_of_leaf w target of
                  None \<Rightarrow> wrap_leaf p w x target a before rv
                | Some par \<Rightarrow> attempt (find_group w par) (\<lambda>(cs, pa, i).
                    if pa = a
                    then attempt (child_position cs target) (\<lambda>k.
                      let ix = (if before then k else k + 1)
                      in Some (if length cs < ix then None else inserted_at p w par ix x))
                    else wrap_leaf p w x target a before rv)) = Some (Some pm)"
    by (auto simp: apply_drag_placement_def attempt_iff split: if_splits option.splits)
  note rem = removed_source [OF t w]
  have d: "distinct (node_ids w)" using rem(1) by (simp add: wf_node_def)
  have tw: "target \<in> set (leaves w)" using tg by simp
  note wrapped = wrap_leaf_placed [OF rem(1) tw]
  have "placed p w x target pm"
  proof (cases "direct_parent_of_leaf w target")
    case None
    with out wrapped show ?thesis by simp
  next
    case (Some par)
    with out obtain cs pa i where g: "find_group w par = Some (cs, pa, i)"
      and o': "(if pa = a then attempt (child_position cs target) (\<lambda>k.
                      let ix = (if before then k else k + 1)
                      in Some (if length cs < ix then None else inserted_at p w par ix x))
                    else wrap_leaf p w x target a before rv) = Some (Some pm)"
      by (auto simp: attempt_iff)
    obtain sh where sub: "Group par pa cs sh \<in> set (subnodes w)" using g find_group_iff(2) [OF d] by blast
    show ?thesis
    proof (cases "pa = a")
      case True
      with o' obtain k where "(if length cs < (if before then k else k + 1) then None
          else inserted_at p w par (if before then k else k + 1) x) = Some pm"
        by (auto simp only: attempt_iff Let_def simp_thms if_True option.inject)
      then have "(if before then k else k + 1) \<le> length cs" "inserted_at p w par (if before then k else k + 1) x = Some pm"
        unfolding guarded_Some by blast+
      with sub show ?thesis unfolding placed_def by blast
    next
      case False
      with o' wrapped show ?thesis by simp
    qed
  qed
  with w show ?thesis unfolding drop_places_def by blast
qed

lemma group_edge_places:
  assumes t: "wf_node t" "x \<in> set (leaves t)"
    and pm: "apply_group_edge_placement p t x g side rv = Some (Some pm)"
  shows "drop_places p t x g pm"
proof -
  obtain a before where side: "drag_side_axis side = Some a" "drag_side_before side = Some before"
    using pm by (auto simp: apply_group_edge_placement_def split: option.splits)
  let ?out = "\<lambda>w cs ga. (if ga = a then Some (inserted_at p w g (if before then 0 else length cs) x)
              else Option.bind (generate_drag_group_id x rv (set (node_ids w))) (\<lambda>n.
                attempt (find_subtree w g) (\<lambda>group_node.
                  let wrapper = pair_group p n a before (Leaf x) group_node
                  in Some (if ident w = g then Some (wrapped_root g wrapper n)
                     else Option.bind (parent_of_group w g) (\<lambda>par. wrapped_in w par g wrapper n)))))"
  have "attempt (remove_leaf_from_tree p (Some t) x) (\<lambda>w. if x \<in> set (collect_leaves w) then Some None
      else attempt (find_group_full w g) (\<lambda>(cs, sh, i, ga). if cs = [] then Some None else ?out w cs ga)) = Some (Some pm)"
    using pm unfolding apply_group_edge_placement_def side option.case
    by (cases "x = g") (simp_all only: if_True if_False simp_thms option.simps prod.case)
  then obtain w where w: "remove_leaf_from_tree p (Some t) x = Some w"
    and "(if x \<in> set (collect_leaves w) then Some None
      else attempt (find_group_full w g) (\<lambda>(cs, sh, i, ga). if cs = [] then Some None else ?out w cs ga)) = Some (Some pm)"
    unfolding attempt_iff by blast
  then have "attempt (find_group_full w g) (\<lambda>(cs, sh, i, ga). if cs = [] then Some None else ?out w cs ga) = Some (Some pm)"
    by (cases "x \<in> set (collect_leaves w)") (simp_all only: if_True if_False simp_thms option.simps)
  then obtain cs sh i ga where g: "find_group_full w g = Some (cs, sh, i, ga)"
    and "(if cs = [] then Some None else ?out w cs ga) = Some (Some pm)"
    unfolding attempt_iff by auto
  then have out: "?out w cs ga = Some (Some pm)"
    by (cases "cs = []") (simp_all only: if_True if_False simp_thms option.simps)
  note rem = removed_source [OF t w]
  have d: "distinct (node_ids w)" using rem(1) by (simp add: wf_node_def)
  have sub: "Group g ga cs sh \<in> set (subnodes w)" using g find_group_iff(1) [OF d] by blast
  have "placed p w x g pm"
  proof (cases "ga = a")
    case True
    with out have "inserted_at p w g (if before then 0 else length cs) x = Some pm" by simp
    moreover have "(if before then 0 else length cs) \<le> length cs" by simp
    ultimately show ?thesis using sub unfolding placed_def by blast
  next
    case False
    let ?v = "Group g ga cs sh"
    have v: "find_subtree w g = Some ?v" by (rule find_subtree_group [OF d sub])
    from False out obtain n where n: "generate_drag_group_id x rv (set (node_ids w)) = Some n"
      and o': "(if ident w = g then Some (wrapped_root g (pair_group p n a before (Leaf x) ?v) n)
         else Option.bind (parent_of_group w g) (\<lambda>par. wrapped_in w par g (pair_group p n a before (Leaf x) ?v) n)) = Some pm"
      by (auto simp: v attempt_def bind_eq_Some_conv Let_def)
    note new = drag_group_id_fresh [OF n]
    show ?thesis
    proof (cases "ident w = g")
      case True
      then have "w = ?v" using subnode_unique [OF d subnodes_self sub] by simp
      with o' True new show ?thesis unfolding placed_def by auto
    next
      case False
      with o' obtain par where "wrapped_in w par g (pair_group p n a before (Leaf x) ?v) n = Some pm"
        by (auto simp: bind_eq_Some_conv)
      moreover have "ident ?v = g" by simp
      ultimately show ?thesis using new sub unfolding placed_def by blast
    qed
  qed
  with w show ?thesis unfolding drop_places_def by blast
qed

lemma group_interior_places:
  assumes t: "wf_node t" "x \<in> set (leaves t)" and pm: "apply_group_interior_placement p t x g predecessor = Some pm"
  shows "drop_places p t x g pm"
proof -
  from pm obtain w cs sh i ga where w: "remove_leaf_from_tree p (Some t) x = Some w"
    and g: "find_group_full w g = Some (cs, sh, i, ga)"
    and out: "inserted_at p w g (min (length cs) (min (predecessor + 1) (2 ^ 64 - 1))) x = Some pm"
    by (auto simp: apply_group_interior_placement_def bind_eq_Some_conv split: if_splits)
  note rem = removed_source [OF t w]
  have d: "distinct (node_ids w)" using rem(1) by (simp add: wf_node_def)
  have "Group g ga cs sh \<in> set (subnodes w)" using g find_group_iff(1) [OF d] by blast
  moreover have "min (length cs) (min (predecessor + 1) (2 ^ 64 - 1)) \<le> length cs" by simp
  ultimately show ?thesis using w out unfolding drop_places_def placed_def by blast
qed

end

lemma found_iff: "(case found of
        None \<Rightarrow> Some (Inl k)
      | Some (Leaf i) \<Rightarrow> f i
      | Some (Group i a cs sh) \<Rightarrow> (case om_get layouts i of None \<Rightarrow> Some (Inl k) | Some l \<Rightarrow> h l)) = Some (Inr r)
    \<longleftrightarrow> (\<exists>n. found = Some n \<and> (case n of Leaf i \<Rightarrow> f i = Some (Inr r)
      | Group i a cs sh \<Rightarrow> (\<exists>l. om_get layouts i = Some l \<and> h l = Some (Inr r))))"
  by (cases found) (simp_all split: node.split option.split)

lemma resolve_drag_iff:
  "resolve_drag_shared p t domain windows exceptions c x y = Some (Inr r) \<longleftrightarrow>
    contains_point (ds_work_area c) x y
    \<and> (case project t (od_bounds domain) (od_gap domain) of Inl e \<Rightarrow> False
      | Inr projected \<Rightarrow> let leaf_rects = om_from_list (map (\<lambda>q. (pleaf q, prect q)) projected)
          in \<exists>n. drag_walk t (child_contains leaf_rects (layout_by_id leaf_rects t) x y) (ident t) = Some (Some n)
            \<and> (case n of Leaf i \<Rightarrow> resolve_window p t leaf_rects windows exceptions c x y i = Some (Inr r)
               | Group i a cs sh \<Rightarrow> (\<exists>l. om_get (layout_by_id leaf_rects t) i = Some l
                   \<and> resolve_group p t windows exceptions c x y l = Some (Inr r))))"
  unfolding resolve_drag_shared_def Let_def
  by (cases "project t (od_bounds domain) (od_gap domain)"; cases "contains_point (ds_work_area c) x y")
    (auto simp: bind_eq_Some_conv found_iff)

text \<open>A layout is filed under the identity of its group.\<close>

lemma layout_by_id_Some: "om_get (layout_by_id leaf_rects t) i = Some l \<Longrightarrow> gl_id l = i"
  by (auto simp: layout_by_id_def om_get_from_list dest!: map_of_SomeD)

lemma first_window_Some:
  "first_window windows source key xs = Some w \<Longrightarrow> w \<noteq> source \<and> (\<exists>l \<in> set (om_values windows). link_window l = w)"
  by (induction xs) (auto simp: find_Some_iff split: option.splits if_splits)

lemma focused_window_link:
  "focused_window_for windows i k = Some w \<Longrightarrow> \<exists>l \<in> set (om_values windows). link_window l = w \<and> link_leaf l = i"
  by (auto simp: focused_window_for_def find_Some_iff)

text \<open>What the resolver answers: a target other than the source, with an edge, and a placement.\<close>

definition resolves_to :: "links \<Rightarrow> node \<Rightarrow> node_id \<Rightarrow> window_id \<Rightarrow> shared_drag \<Rightarrow> bool" where
  "resolves_to windows t x source r \<longleftrightarrow> sd_target_leaf r \<in> set (node_ids t) \<and> sd_target_leaf r \<noteq> x
     \<and> sd_target_window r \<noteq> source \<and> (\<exists>l \<in> set (om_values windows). link_window l = sd_target_window r)
     \<and> drag_side_axis (sd_side r) = Some (sd_axis r) \<and> drag_side_before (sd_side r) = Some (sd_before r)"

lemma resolved_as_Inr:
  assumes "resolved_as target w q side prior placement = Some (Inr r)"
  shows "sd_target_leaf r = target" "sd_target_window r = w" "drag_side_axis (sd_side r) = Some (sd_axis r)"
    "drag_side_before (sd_side r) = Some (sd_before r)" "placement = Some (Some (sd_placement r))" "sd_next_prior r = prior"
proof -
  obtain a before where side: "drag_side_axis side = Some a" "drag_side_before side = Some before"
    using assms by (cases "drag_side_axis side"; cases "drag_side_before side") (simp_all add: resolved_as_def)
  obtain answer where answer: "placement = Some answer" using assms side by (cases placement) (simp_all add: resolved_as_def)
  obtain pm where pm: "answer = Some pm" using assms side answer by (cases answer) (simp_all add: resolved_as_def)
  from assms have "r = \<lparr>sd_target_leaf = target, sd_target_window = w, sd_target_rect = q, sd_side = side,
      sd_axis = a, sd_before = before, sd_placement = pm, sd_next_prior = prior\<rparr>"
    by (simp add: resolved_as_def side answer pm)
  then show "sd_target_leaf r = target" "sd_target_window r = w" "drag_side_axis (sd_side r) = Some (sd_axis r)"
    "drag_side_before (sd_side r) = Some (sd_before r)" "placement = Some (Some (sd_placement r))" "sd_next_prior r = prior"
    by (simp_all add: side answer pm)
qed

context share_policy
begin

lemma resolved_places:
  assumes t: "wf_node t" "ds_source_leaf c \<in> set (leaves t)"
    and links: "\<And>l. l \<in> set (om_values windows) \<Longrightarrow> link_window l = ds_source_window c \<Longrightarrow> link_leaf l = ds_source_leaf c"
    and r: "resolve_drag_shared p t domain windows exceptions c x y = Some (Inr r)"
  shows "resolves_to windows t (ds_source_leaf c) (ds_source_window c) r
    \<and> drop_places p t (ds_source_leaf c) (sd_target_leaf r) (sd_placement r)"
proof -
  let ?x = "ds_source_leaf c" and ?w = "ds_source_window c"
  have d: "distinct (node_ids t)" using t(1) by (simp add: wf_node_def)
  from r [unfolded resolve_drag_iff] obtain leaf_rects n where
    walk: "drag_walk t (child_contains leaf_rects (layout_by_id leaf_rects t) x y) (ident t) = Some (Some n)"
    and found: "case n of Leaf i \<Rightarrow> resolve_window p t leaf_rects windows exceptions c x y i = Some (Inr r)
      | Group i a cs sh \<Rightarrow> (\<exists>l. om_get (layout_by_id leaf_rects t) i = Some l \<and> resolve_group p t windows exceptions c x y l = Some (Inr r))"
    by (auto simp: Let_def split: sum.splits)
  have "n \<in> set (subnodes t)"
    using walk descend_subnode(1) [of _ t] unfolding drag_walk_subnode [OF d subnodes_self] by auto
  then have n: "ident n \<in> set (node_ids t)" using subnode_ids ident_in_ids by blast
  show ?thesis
  proof (cases n)
    case (Leaf i)
    with found have "resolve_window p t leaf_rects windows exceptions c x y i = Some (Inr r)" by simp
    then obtain w q side where i: "i \<noteq> ?x" "focused_window_for windows i (ds_domain c) = Some w"
      and r': "resolved_as i w q side None (apply_drag_placement p t ?x i side (ds_revision c)) = Some (Inr r)"
      by (auto simp: resolve_window_def split: if_splits option.splits)
    note e = resolved_as_Inr [OF r']
    have "w \<noteq> ?w" using focused_window_link [OF i(2)] i(1) links by blast
    with e n i focused_window_link [OF i(2)] drag_placement_places [OF t e(5)] Leaf show ?thesis
      by (auto simp: resolves_to_def)
  next
    case (Group i a cs sh)
    with found obtain l where l: "gl_id l = i" and g: "resolve_group p t windows exceptions c x y l = Some (Inr r)"
      using layout_by_id_Some by fastforce
    have ix: "i \<noteq> ?x" using Group \<open>n \<in> set (subnodes t)\<close> t
      by (auto dest: subnode_group_id simp: wf_node_def distinct_node_ids)
    from g l obtain w where w: "drag_representative t i windows exceptions c = Some w"
      and "(\<exists>edge. resolved_as i w (gl_rect l) edge (Some \<lparr>pg_group = i, pg_edge = edge\<rparr>)
               (apply_group_edge_placement p t ?x i edge (ds_revision c)) = Some (Inr r))
      \<or> (\<exists>side k. resolved_as i w (gl_rect l) side None
               (Some (apply_group_interior_placement p t ?x i k)) = Some (Inr r))"
      by (auto simp: resolve_group_def Let_def split: option.splits)
    then obtain q side prior placement where r': "resolved_as i w q side prior placement = Some (Inr r)"
      and pl: "placement = Some (Some (sd_placement r)) \<Longrightarrow> drop_places p t ?x i (sd_placement r)"
      using group_edge_places [OF t] group_interior_places [OF t] by (metis option.inject)
    note e = resolved_as_Inr [OF r']
    have "w \<noteq> ?w \<and> (\<exists>l \<in> set (om_values windows). link_window l = w)"
      using w first_window_Some by (fastforce simp: drag_representative_def group_rep_window_def bind_eq_Some_conv split: if_splits)
    with e n ix pl Group show ?thesis by (auto simp: resolves_to_def)
  qed
qed

end

subsection \<open>The resolver returns\<close>

lemma attempt_returns: "(\<And>v. m = Some v \<Longrightarrow> \<exists>y. f v = Some y) \<Longrightarrow> \<exists>y. attempt m f = Some y"
  by (cases m) (simp_all add: attempt_def)

lemma drag_group_id_returns:
  assumes "card (set ids) < 2 ^ 32 - 1"
  shows "generate_drag_group_id x rv (set ids) \<noteq> None"
proof -
  have fin: "finite (set ids)" by simp
  let ?base = "''grp-'' @ x @ ''-r'' @ decimal rv @ ''-drag''"
  obtain k where k: "1 + k < 2 ^ 32" "group_id_candidate ?base (1 + k) \<notin> set ids"
    using fresh_candidate [OF fin assms, of ?base] by blast
  from group_id_loop_finds [OF k(2,1)] show ?thesis
    by (cases "?base \<in> set ids") (auto simp: generate_drag_group_id_def Let_def simp del: append.simps)
qed

context share_policy
begin

lemma removed_small:
  assumes "wf_node t" "x \<in> set (leaves t)" "remove_leaf_from_tree p (Some t) x = Some w" "card (set (node_ids t)) < 2 ^ 32 - 1"
  shows "card (set (node_ids w)) < 2 ^ 32 - 1"
proof -
  have "set (node_ids w) \<subseteq> set (node_ids t)" using remove_leaf_ok [OF assms(1,2)] assms(3) by auto
  then have "card (set (node_ids w)) \<le> card (set (node_ids t))" by (simp add: card_mono)
  with assms(4) show ?thesis by simp
qed

lemma wrap_leaf_returns: "card (set (node_ids w)) < 2 ^ 32 - 1 \<Longrightarrow> wrap_leaf p w x target a before rv \<noteq> None"
  using drag_group_id_returns [of "node_ids w" x rv] by (auto simp: wrap_leaf_def Let_def)

lemma drag_placement_returns:
  assumes "wf_node t" "x \<in> set (leaves t)" "card (set (node_ids t)) < 2 ^ 32 - 1"
  shows "apply_drag_placement p t x target side rv \<noteq> None"
proof -
  have w: "\<exists>y. wrap_leaf p w x target a before rv = Some y" if "remove_leaf_from_tree p (Some t) x = Some w" for w a before
    using wrap_leaf_returns [OF removed_small [OF assms(1,2) that assms(3)]] by simp
  show ?thesis
    by (cases "drag_side_axis side"; cases "drag_side_before side")
      (auto simp: apply_drag_placement_def Let_def intro!: attempt_returns w split: option.split prod.split)
qed

lemma group_edge_returns:
  assumes "wf_node t" "x \<in> set (leaves t)" "card (set (node_ids t)) < 2 ^ 32 - 1"
  shows "apply_group_edge_placement p t x g side rv \<noteq> None"
proof -
  have w: "\<exists>n. generate_drag_group_id x rv (set (node_ids w)) = Some n" if "remove_leaf_from_tree p (Some t) x = Some w" for w
    using drag_group_id_returns [OF removed_small [OF assms(1,2) that assms(3)]] by simp
  have bound: "\<exists>y. Option.bind (generate_drag_group_id x rv (set (node_ids w))) f = Some y"
    if "remove_leaf_from_tree p (Some t) x = Some w" "\<And>n. \<exists>y. f n = Some y" for w and f :: "node_id \<Rightarrow> drag_placement option option"
    using w [OF that(1)] that(2) by auto
  show ?thesis
    by (cases "drag_side_axis side"; cases "drag_side_before side")
      (auto simp: apply_group_edge_placement_def Let_def intro!: attempt_returns bound split: option.split prod.split)
qed

lemma resolve_returns:
  assumes "wf_node t" "ds_source_leaf c \<in> set (leaves t)" "card (set (node_ids t)) < 2 ^ 32 - 1"
  shows "resolve_drag_shared p t domain windows exceptions c x y \<noteq> None"
proof -
  have as: "placement \<noteq> None \<Longrightarrow> resolved_as target w q side prior placement \<noteq> None" for target w q side prior placement
    by (auto simp: resolved_as_def split: option.split)
  have "resolve_window p t leaf_rects windows exceptions c x y i \<noteq> None" for leaf_rects i
    using as [OF drag_placement_returns [OF assms]] by (simp add: resolve_window_def split: option.split)
  moreover have "resolve_group p t windows exceptions c x y l \<noteq> None" for l
    using as [OF group_edge_returns [OF assms]] as [of "Some _"] by (simp add: resolve_group_def Let_def split: option.split)
  moreover have "drag_walk t contains (ident t) = Some (Some (descend contains t))" for contains
    using drag_walk_subnode [OF _ subnodes_self] assms(1) by (simp add: wf_node_def)
  ultimately show ?thesis
    by (auto simp: resolve_drag_shared_def Let_def split: sum.split node.split option.split)
qed

end

end
