(* ===== verification/Session_Drag_Proposal.thy ===== *)
theory Session_Drag_Proposal
  imports Session_Drag_Exact
begin

text \<open>
  A drag as a transaction: the contract of every drag call, what a release stages, and that a drag which
  stages nothing leaves the session as it was.
\<close>

subsection \<open>The release\<close>

lemma set_drag_prior_simps [simp]:
  "drop_decision (set_drag_prior q s) c current r obs caps = drop_decision s c current r obs caps"
  "clear_drag_snap_back c (set_drag_prior q s) = clear_drag_snap_back c s"
  "(set_drag_prior q s)\<lparr>se_drag := d\<rparr> = s\<lparr>se_drag := d\<rparr>"
  by (simp_all add: drop_decision_def covering_geometry_def drag_desired_def desired_of_def set_drag_prior_def
      clear_drag_snap_back_def snap_back_rect_def Let_def cong: if_cong option.map_cong)

context proposal
begin

text \<open>Staging from a dragging session is staging from the session without the drag.\<close>

lemma stage_dragging:
  assumes inv: "session_inv s" and drag: "se_drag s = Some c"
  shows "case stage_plan offer desired answer s of
      (Inl e, s') \<Rightarrow> (\<exists>reason. e = SDiverged reason) \<and> stage_plan offer desired answer (s\<lparr>se_drag := None\<rparr>) = (Inl e, s')
    | (Inr a, s') \<Rightarrow> stage_plan offer desired answer (s\<lparr>se_drag := None\<rparr>) = (Inr a, s'\<lparr>se_drag := None\<rparr>)"
proof -
  have "rc_diverged (se_reconciler s) = None" "rc_pending (se_reconciler s) = None"
    using inv drag by (auto simp: session_inv_def bound_ok_def)
  from idle [OF this] show ?thesis by (auto simp: stage_plan_def)
qed

end

lemma drop_resolved_outcome:
  assumes inv: "session_inv s" and drag: "se_drag s = Some c"
    and d: "drop_resolved s c current r obs corr caps = (res, s')"
  shows "(\<exists>b. res = Inr (DragSnapBack b) \<and> s' = s\<lparr>se_drag := None\<rparr>)
    \<or> (\<exists>plan desired answer. drop_decision s c current r obs caps = Some (plan, desired, answer)
        \<and> stage_plan (propose_drag plan (so_observation obs) corr caps) desired answer (s\<lparr>se_drag := None\<rparr>) = (res, s')
        \<and> (case res of Inl e \<Rightarrow> \<exists>reason. e = SDiverged reason | Inr a \<Rightarrow> \<exists>dispatch. a = answer dispatch))"
proof (cases "drop_decision s c current r obs caps")
  case None
  with d show ?thesis by (auto simp: drop_resolved_def Let_def drop_snap_back_def clear_drag_snap_back_def)
next
  case (Some decision)
  obtain plan desired answer where dec: "decision = (plan, desired, answer)" by (cases decision)
  let ?s = "set_drag_prior (sd_next_prior r) s"
  let ?stage = "stage_plan (propose_drag plan (so_observation obs) corr caps) desired answer"
  have "session_inv ?s" "se_drag ?s = Some (c\<lparr>ds_prior := sd_next_prior r\<rparr>)"
    using inv drag by (auto simp: set_drag_prior_def session_inv_def bound_ok_def current_ok_def)
  note st = drag_proposal.stage_dragging [OF this, of plan "so_observation obs" corr caps desired answer]
  have out: "(case ?stage ?s of (Inl e, s') \<Rightarrow> (Inl e, s') | (Inr a, s') \<Rightarrow> (Inr a, s'\<lparr>se_drag := None\<rparr>)) = (res, s')"
    using d Some dec by (simp add: drop_resolved_def Let_def)
  obtain res' s1 where e: "?stage ?s = (res', s1)" by (cases "?stage ?s")
  have staged: "?stage (s\<lparr>se_drag := None\<rparr>) = (res, s')" and div: "\<And>err. res = Inl err \<Longrightarrow> \<exists>reason. err = SDiverged reason"
    using st out unfolding e by (auto split: sum.splits)
  moreover have "\<exists>dispatch. a = answer dispatch" if "res = Inr a" for a
    using staged that by (auto simp: stage_plan_def split: sum.splits prod.splits propose_error.splits)
  ultimately show ?thesis using Some dec by (auto split: sum.splits)
qed

lemma drop_outcome:
  assumes inv: "session_inv s" and drag: "se_drag s = Some c"
    and d: "drop_drag x y obs corr caps s = Some (res, s')"
  shows "((\<exists>b. res = Inr (DragSnapBack b)) \<or> res = Inl (SRefused RfUnsupportedCapability)) \<and> s' = s\<lparr>se_drag := None\<rparr>
    \<or> (\<exists>current r. \<not> drag_capture_stale s c \<and> drag_resolution s c x y = Inr (current, Some (Inr r))
        \<and> drop_resolved s c current r obs corr caps = (res, s'))"
proof -
  note idle = dragging_idle [OF inv drag]
  have snap: "drop_snap_back c s = (res, s') \<Longrightarrow> (\<exists>b. res = Inr (DragSnapBack b)) \<and> s' = s\<lparr>se_drag := None\<rparr>"
    by (auto simp: drop_snap_back_def clear_drag_snap_back_def)
  let ?invalid = "\<not> validate_current_topology s \<or> \<not> valid_observed_shapes (so_windows obs)
                 \<or> \<not> all_homed s (so_windows obs) \<or> observed_ids obs \<noteq> known_ids s
                 \<or> \<not> observed_known_match s (so_windows obs) None \<or> drag_capture_stale s c"
  show ?thesis
  proof (cases ?invalid)
    case True
    with d idle drag snap show ?thesis by (simp add: drop_drag_def)
  next
    case False
    show ?thesis
    proof (cases "drag_resolution s c x y")
      case (Inl kind)
      with d idle drag False snap show ?thesis by (simp add: drop_drag_def)
    next
      case (Inr cr)
      obtain current resolution where cr: "cr = (current, resolution)" by (cases cr)
      obtain resolved where res: "resolution = Some resolved"
        using d idle drag False Inr cr by (cases resolution) (simp_all add: drop_drag_def)
      show ?thesis
      proof (cases resolved)
        case (Inl kind)
        with d idle drag False Inr cr res snap show ?thesis by (auto simp: drop_drag_def split: if_splits)
      next
        case (Inr r)
        with d idle drag False \<open>drag_resolution s c x y = Inr cr\<close> cr res show ?thesis by (simp add: drop_drag_def)
      qed
    qed
  qed
qed

text \<open>What a release stages is well-formed.\<close>

lemma drop_decision_Some:
  assumes "drop_decision s c current r obs caps = Some (plan, desired, answer)"
  shows "plan = drag_plan_of c r" "desired = drag_desired s c (om_insert (ds_domain c) (Some (pm_tree (sd_placement r))) (se_trees s))"
    "pm_tree (sd_placement r) \<noteq> current"
    "validate_topology (se_domains s) (pe_trees desired) (se_windows s) (se_exceptions s) (Some (ds_domain c)) (Some (ds_source_leaf c))"
    "\<And>dispatch. \<exists>geometry. answer dispatch = DragPlanned \<lparr>sg_dispatch = dispatch, sg_plan = plan,
       sg_snapshot = snapshot_for (se_domains s) (pe_trees desired) (se_windows s), sg_focus_domain = ds_domain c,
       sg_focus_leaf = ds_source_leaf c, sg_geometry = geometry\<rparr>
      \<and> covering_geometry s (pe_trees desired) (se_windows s) [ds_domain c] (so_windows obs) = Some geometry"
  using assms by (auto simp: drop_decision_def Let_def drag_desired_def split: if_splits)

lemma drop_desired_ok:
  assumes cur: "current_ok s" and d: "drop_decision s c current r obs caps = Some (plan, desired, answer)"
  shows "desired_ok (se_domains s) desired"
proof -
  note w = current_world [OF cur]
  note f = drop_decision_Some [OF d]
  have "active_ok (se_last_active s) (pe_trees desired)"
    using current_active [OF cur] by (auto simp: f(2) drag_desired_def active_ok_def om_contains_def)
  then show ?thesis
    using f(4) world_maps(1,2) [OF w] world_link_window [OF w]
    by (intro desired_tiled_ok [OF cur]) (auto simp: f(2) drag_desired_def desired_of_def)
qed

lemma drop_ok:
  assumes inv: "session_inv s" and drag: "se_drag s = Some c" and d: "drop_drag x y obs corr caps s = Some (res, s')"
  shows "session_inv s'" "keeps_world s s'" "se_drag s' = None"
proof -
  let ?s = "s\<lparr>se_drag := None\<rparr>"
  have inv0: "session_inv ?s" by (rule clear_drag_inv [OF inv])
  have trans: "keeps_world ?s s' \<Longrightarrow> keeps_world s s'" by (simp add: keeps_world_def accepted_revision_def)
  have "session_inv s' \<and> keeps_world ?s s' \<and> se_drag s' = None"
    using drop_outcome [OF inv drag d]
  proof
    assume "((\<exists>b. res = Inr (DragSnapBack b)) \<or> res = Inl (SRefused RfUnsupportedCapability)) \<and> s' = ?s"
    with inv0 show ?thesis by (simp add: keeps_world_def)
  next
    assume "\<exists>current r. \<not> drag_capture_stale s c \<and> drag_resolution s c x y = Inr (current, Some (Inr r))
        \<and> drop_resolved s c current r obs corr caps = (res, s')"
    then obtain current r where "drop_resolved s c current r obs corr caps = (res, s')" by blast
    from drop_resolved_outcome [OF inv drag this] show ?thesis
    proof
      assume "\<exists>b. res = Inr (DragSnapBack b) \<and> s' = ?s"
      with inv0 show ?thesis by (auto simp: keeps_world_def)
    next
      assume "\<exists>plan desired answer. drop_decision s c current r obs caps = Some (plan, desired, answer)
        \<and> stage_plan (propose_drag plan (so_observation obs) corr caps) desired answer ?s = (res, s')
        \<and> (case res of Inl e \<Rightarrow> \<exists>reason. e = SDiverged reason | Inr a \<Rightarrow> \<exists>dispatch. a = answer dispatch)"
      then obtain plan desired answer where dec: "drop_decision s c current r obs caps = Some (plan, desired, answer)"
        and st: "stage_plan (propose_drag plan (so_observation obs) corr caps) desired answer ?s = (res, s')" by blast
      have "desired_ok (se_domains ?s) desired" using drop_desired_ok [OF _ dec] inv by (simp add: session_inv_def)
      from drag_proposal.stage_ok [OF inv0 this] st have "proposal_ok ?s (res, s')" by (simp add: eq_commute)
      moreover have "se_drag s' = None" using st
        by (auto simp: stage_plan_def split: prod.splits sum.splits propose_error.splits)
      ultimately show ?thesis by (simp add: proposal_ok_def)
    qed
  qed
  then show "session_inv s'" "keeps_world s s'" "se_drag s' = None" using trans by blast+
qed

subsection \<open>The other calls\<close>

lemma begin_drag_ok:
  assumes "session_inv s"
  shows "session_inv (snd (begin_drag window obs s))" "keeps_world s (snd (begin_drag window obs s))"
  using set_drag_inv [OF assms] ready_error_None [OF assms] assms
  by (auto simp: begin_drag_def keeps_world_def accepted_revision_def split: option.splits sum.splits)

lemma hover_state:
  assumes "session_inv s" "s' = s \<or> (\<exists>q. s' = set_drag_prior q s)"
  shows "session_inv s'" "keeps_world s s'"
  using assms
  by (auto simp: set_drag_prior_def session_inv_def bound_ok_def current_ok_def keeps_world_def accepted_revision_def)

lemma hover_changes:
  assumes "drag_hover s s'"
  shows "s' = s \<or> (\<exists>q. s' = set_drag_prior q s)"
proof (cases "se_drag s")
  case None
  from assms show ?thesis
    by (cases rule: drag_hover.cases) (use None in \<open>auto simp: preview_drag_def carry_drag_prior_def split: option.splits if_splits\<close>)
next
  case (Some c)
  let ?s = "s\<lparr>se_drag := None\<rparr>"
  have "captured ?s c (ds_prior c) = s" using Some by (cases s) (simp add: captured_def)
  then have "drag_hover (captured ?s c (ds_prior c)) s'" using assms by simp
  then obtain q where "s' = captured ?s c q" using hover_captured by blast
  then have "s' = set_drag_prior q s" using Some by (simp add: captured_def set_drag_prior_def)
  then show ?thesis by blast
qed

lemma hover_ok: "session_inv s \<Longrightarrow> drag_hover s s' \<Longrightarrow> session_inv s'" "drag_hover s s' \<Longrightarrow> session_inv s \<Longrightarrow> keeps_world s s'"
  using hover_state [OF _ hover_changes] by blast+

lemma cancel_drag_ok: "session_inv s \<Longrightarrow> session_inv (snd (cancel_drag s))"
  by (auto simp: cancel_drag_def clear_drag_snap_back_def clear_drag_inv split: option.splits)

lemma drop_inv:
  assumes "session_inv s" "drop_drag x y obs corr caps s = Some (res, s')"
  shows "session_inv s'"
proof (cases "se_drag s")
  case None
  have "session_inv (s\<lparr>se_pending := None, se_drag := None\<rparr>)" if "session_divergence s = Some reason" for reason
    using assms(1) that None by (auto simp: session_inv_def bound_ok_def current_ok_def session_divergence_def rc_inv_def)
  with assms None show ?thesis by (auto simp: drop_drag_def split: option.splits)
next
  case (Some c)
  with drop_ok(1) [OF assms(1) _ assms(2)] show ?thesis by blast
qed

subsection \<open>A drag is a transaction\<close>

lemma captured_cleared: "se_drag s = None \<Longrightarrow> (captured s c q)\<lparr>se_drag := None\<rparr> = s"
  by (simp add: captured_def)

lemma captured_inv: "session_inv s \<Longrightarrow> session_divergence s = None \<Longrightarrow> se_pending s = None \<Longrightarrow> session_inv (captured s c q)"
  by (simp add: captured_def set_drag_inv)

text \<open>
  C19. A pointer drag is a transaction. Between the capture and the release the session only remembers the
  hover: cancelling gives back the very session in which the drag began, and so does a release that snaps
  back or is refused. A release that plans leaves one plan staged and the accepted world untouched, and
  the only other outcome is a divergence of the reconciler; no release leaves the drag active.
\<close>

theorem drag_is_transactional:
  assumes "session_inv s" "begin_drag window obs s = (Inr capture, s1)" "drag_hover\<^sup>*\<^sup>* s1 s2"
  shows "(\<exists>b. cancel_drag s2 = (Some b, s) \<and> sb_source_leaf b = dc_source_leaf capture
      \<and> sb_source_window b = window \<and> sb_domain b = dc_domain capture)
    \<and> (\<forall>x y obs corr caps res s3. drop_drag x y obs corr caps s2 = Some (res, s3) \<longrightarrow>
        (case res of
           Inr (DragSnapBack b) \<Rightarrow> s3 = s
         | Inr (DragPlanned plan) \<Rightarrow> keeps_world s s3 \<and> se_drag s3 = None \<and> se_pending s3 \<noteq> None
         | Inl (SRefused kind) \<Rightarrow> s3 = s
         | Inl (SDiverged reason) \<Rightarrow> keeps_world s s3 \<and> se_drag s3 = None \<and> session_divergence s3 = Some reason
         | Inl SPendingExists \<Rightarrow> False))"
proof -
  obtain c where c: "s1 = captured s c None" "capture_of s window c" "session_divergence s = None" "se_pending s = None"
    "se_drag s = None" "capture = drag_capture_of c"
    using begin_captures [OF assms(1,2)] .
  obtain q where s2: "s2 = captured s c q" using hovers_captured assms(3) unfolding c(1) by blast
  let ?c = "c\<lparr>ds_prior := q\<rparr>"
  have drag: "se_drag s2 = Some ?c" and cleared: "s2\<lparr>se_drag := None\<rparr> = s" using captured_cleared [OF c(5)] by (simp_all add: s2)
  have inv: "session_inv s2" unfolding s2 by (rule captured_inv [OF assms(1) c(3,4)])
  have cancel: "\<exists>b. cancel_drag s2 = (Some b, s) \<and> sb_source_leaf b = dc_source_leaf capture
      \<and> sb_source_window b = window \<and> sb_domain b = dc_domain capture"
    using drag cleared c(2) by (auto simp: cancel_drag_def clear_drag_snap_back_def c(6) drag_capture_of_def capture_of_def)
  have release: "case res of
           Inr (DragSnapBack b) \<Rightarrow> s3 = s
         | Inr (DragPlanned plan) \<Rightarrow> keeps_world s s3 \<and> se_drag s3 = None \<and> se_pending s3 \<noteq> None
         | Inl (SRefused kind) \<Rightarrow> s3 = s
         | Inl (SDiverged reason) \<Rightarrow> keeps_world s s3 \<and> se_drag s3 = None \<and> session_divergence s3 = Some reason
         | Inl SPendingExists \<Rightarrow> False"
    if d: "drop_drag x y obs' corr caps s2 = Some (res, s3)" for x y obs' corr caps res s3
    using drop_outcome [OF inv drag d]
  proof
    assume "((\<exists>b. res = Inr (DragSnapBack b)) \<or> res = Inl (SRefused RfUnsupportedCapability)) \<and> s3 = s2\<lparr>se_drag := None\<rparr>"
    then show ?thesis unfolding cleared by auto
  next
    assume "\<exists>current r. \<not> drag_capture_stale s2 ?c \<and> drag_resolution s2 ?c x y = Inr (current, Some (Inr r))
        \<and> drop_resolved s2 ?c current r obs' corr caps = (res, s3)"
    then obtain current r where "drop_resolved s2 ?c current r obs' corr caps = (res, s3)" by blast
    from drop_resolved_outcome [OF inv drag this] show ?thesis unfolding cleared
    proof
      assume "\<exists>plan desired answer. drop_decision s2 ?c current r obs' caps = Some (plan, desired, answer)
        \<and> stage_plan (propose_drag plan (so_observation obs') corr caps) desired answer s = (res, s3)
        \<and> (case res of Inl e \<Rightarrow> \<exists>reason. e = SDiverged reason | Inr a \<Rightarrow> \<exists>dispatch. a = answer dispatch)"
      then obtain plan desired answer where dec: "drop_decision s2 ?c current r obs' caps = Some (plan, desired, answer)"
        and st: "stage_plan (propose_drag plan (so_observation obs') corr caps) desired answer s = (res, s3)"
        and kind: "case res of Inl e \<Rightarrow> \<exists>reason. e = SDiverged reason | Inr a \<Rightarrow> \<exists>dispatch. a = answer dispatch" by blast
      have "current_ok s2" using inv by (simp add: session_inv_def)
      from drop_desired_ok [OF this dec] have "desired_ok (se_domains s) desired" by (simp add: s2 captured_def)
      from drag_proposal.stage_ok [OF assms(1) this c(5)] st
      have p: "proposal_ok s (res, s3)" by (simp add: eq_commute)
      moreover have "se_drag s3 = None" using drop_ok(3) [OF inv drag d] .
      moreover have "\<exists>plan. a = DragPlanned plan" if "res = Inr a" for a
        using kind that drop_decision_Some(5) [OF dec] by auto
      ultimately show ?thesis using kind by (cases res) (auto simp: proposal_ok_def split: drag_release.splits)
    qed auto
  qed
  from cancel release show ?thesis by blast
qed

subsection \<open>What a release places\<close>

lemma capture_source:
  assumes cur: "current_ok s" and c: "capture_of s window c"
  obtains t where "tree_at (se_trees s) (ds_domain c) = Some t" "wf_node t" "ds_source_leaf c \<in> set (leaves t)"
proof -
  note w = current_world [OF cur]
  obtain l where l: "om_get (se_windows s) window = Some l" "link_leaf l = ds_source_leaf c" "link_key l = ds_domain c"
    using c by (auto simp: capture_of_def link_key_def)
  obtain t where t: "tree_at (se_trees s) (ds_domain c) = Some t" "ds_source_leaf c \<in> set (leaves t)"
    using world_tiled [OF w l(1)] by (auto simp: tiled_ok_def l(2,3))
  with that t world_tree_wf [OF w] show thesis by blast
qed

lemma placed_effect:
  assumes cur: "current_ok s" and t: "tree_at (se_trees s) k = Some t" "x \<in> set (leaves t)" "moved x t t'"
    and link: "om_get (se_windows s) window = Some \<lparr>link_window = window, link_leaf = x, link_output = dk_output k,
         link_workspace = dk_workspace k\<rparr>"
    and d: "d = (desired_of s)\<lparr>pe_trees := om_insert k (Some t') (se_trees s), pe_focused_domain := Some k, pe_focused_leaf := Some x\<rparr>"
  shows "one_window_moved s d x window k k"
proof -
  have "x \<in> set (leaves_at (se_trees s) k)" using t by (simp add: leaves_at_def)
  with leaf_of_one_domain [OF current_world [OF cur]] have "x \<notin> set (leaves_at (se_trees s) j)" if "j \<noteq> k" for j
    using that by blast
  then show ?thesis
    using t link by (auto simp: one_window_moved_def d desired_of_def leaves_at_insert leaves_at_def moved_def others_def)
qed

lemma planned_release:
  assumes inv: "session_inv s" and drag: "se_drag s = Some c"
    and d: "drop_drag x y obs corr caps s = Some (Inr (DragPlanned plan), s')"
  obtains current r desired answer dispatch where "drag_resolution s c x y = Inr (current, Some (Inr r))"
    "drop_decision s c current r obs caps = Some (drag_plan_of c r, desired, answer)" "answer dispatch = DragPlanned plan"
    "se_pending s' = Some desired"
proof -
  from drop_outcome [OF inv drag d] obtain current r where r: "drag_resolution s c x y = Inr (current, Some (Inr r))"
    "drop_resolved s c current r obs corr caps = (Inr (DragPlanned plan), s')" by auto
  from drop_resolved_outcome [OF inv drag r(2)] obtain pl desired answer dispatch where
    dec: "drop_decision s c current r obs caps = Some (pl, desired, answer)" "answer dispatch = DragPlanned plan"
    and st: "stage_plan (propose_drag pl (so_observation obs) corr caps) desired answer (s\<lparr>se_drag := None\<rparr>) = (Inr (DragPlanned plan), s')"
    by (auto simp: eq_commute)
  have "se_pending s' = Some desired" using st by (auto simp: stage_plan_def split: prod.splits sum.splits propose_error.splits)
  with that r(1) dec drop_decision_Some(1) [OF dec(1)] show thesis by blast
qed

context share_policy
begin

text \<open>What a planned release resolved, from the state of the capture.\<close>

lemma planned_resolves:
  assumes s: "session_inv s" "se_policy s = p" and c: "capture_of s window c"
    and r: "drag_resolution (captured s c q) (c\<lparr>ds_prior := q\<rparr>) x y = Inr (current, Some (Inr r))"
  shows "tree_at (se_trees s) (ds_domain c) = Some current" "wf_node current" "ds_source_leaf c \<in> set (leaves current)"
    "resolves_to (se_windows s) current (ds_source_leaf c) window r"
    "drop_places p current (ds_source_leaf c) (sd_target_leaf r) (sd_placement r)"
proof -
  have cur: "current_ok s" using s(1) by (simp add: session_inv_def)
  note w = current_world [OF cur]
  obtain t where t: "tree_at (se_trees s) (ds_domain c) = Some t" "wf_node t" "ds_source_leaf c \<in> set (leaves t)"
    using capture_source [OF cur c] .
  have e: "current = t" using r t(1) by (auto simp: drag_resolution_def captured_def split: option.splits)
  show "tree_at (se_trees s) (ds_domain c) = Some current" "wf_node current" "ds_source_leaf c \<in> set (leaves current)"
    using t e by simp_all
  obtain domain where res: "resolve_drag_shared p t domain (se_windows s) (se_exceptions s) (c\<lparr>ds_prior := q\<rparr>) x y = Some (Inr r)"
    using r t(1) s(2) by (auto simp: drag_resolution_def captured_def split: option.splits)
  have "link_leaf l = ds_source_leaf c" if l: "l \<in> set (om_values (se_windows s))" "link_window l = window" for l
  proof -
    obtain w' where "om_get (se_windows s) w' = Some l" using l(1) om_in_values [OF world_maps(2) [OF w]] by blast
    with world_link_window [OF w this] l(2) c show ?thesis by (simp add: capture_of_def)
  qed
  with resolved_places [OF t(2) _ _ res] t(3) c
  show "resolves_to (se_windows s) current (ds_source_leaf c) window r"
    "drop_places p current (ds_source_leaf c) (sd_target_leaf r) (sd_placement r)"
    by (simp_all add: e capture_of_def)
qed

lemma planned_effect:
  assumes s: "session_inv s" "se_policy s = p" and c: "capture_of s window c" "se_drag s = None"
    and idle: "session_divergence s = None" "se_pending s = None"
    and d: "drop_drag x y obs corr caps (captured s c q) = Some (Inr (DragPlanned plan), s')"
  shows "\<exists>staged. se_pending s' = Some staged \<and> one_window_moved s staged (ds_source_leaf c) window (ds_domain c) (ds_domain c)"
proof -
  let ?c = "c\<lparr>ds_prior := q\<rparr>" and ?s = "captured s c q"
  have cur: "current_ok s" using s(1) by (simp add: session_inv_def)
  have inv: "session_inv ?s" by (rule captured_inv [OF s(1) idle])
  obtain current r desired answer dispatch where r: "drag_resolution ?s ?c x y = Inr (current, Some (Inr r))"
    and dec: "drop_decision ?s ?c current r obs caps = Some (drag_plan_of ?c r, desired, answer)"
    and pend: "se_pending s' = Some desired"
    using planned_release [OF inv captured_drag d] by metis
  note t = planned_resolves [OF s c(1) r]
  have "desired_ok (se_domains ?s) desired" using drop_desired_ok [OF _ dec] inv by (simp add: session_inv_def)
  note w = this [unfolded desired_ok_def, THEN conjunct1]
  have "wf_node (pm_tree (sd_placement r))"
    by (rule world_tree_wf [OF w, of "ds_domain c"]) (simp add: drop_decision_Some(2) [OF dec] drag_desired_def)
  from placed_effect [OF cur t(1,3) drop_places_moved [OF t(2,3,5) this], of window desired] c(1) pend show ?thesis
    unfolding drop_decision_Some(2) [OF dec] by (auto simp: drag_desired_def desired_of_def capture_of_def captured_def)
qed

text \<open>The plan of a release passes every check that the reconciler makes of a drag plan.\<close>

lemma planned_checks:
  assumes s: "session_inv s" "se_policy s = p" and c: "capture_of s window c"
    and r: "drag_resolution (captured s c q) (c\<lparr>ds_prior := q\<rparr>) x y = Inr (current, Some (Inr r))"
    and caps: "drag_supports caps PlaceTiled"
  shows "first_reason (drag_checks (drag_plan_of (c\<lparr>ds_prior := q\<rparr>) r) caps) = None"
proof -
  note t = planned_resolves [OF s c r]
  have cur: "current_ok s" using s(1) by (simp add: session_inv_def)
  note w = current_world [OF cur]
  have named: "link_window l \<noteq> [] \<and> link_leaf l \<noteq> [] \<and> link_output l \<noteq> [] \<and> link_workspace l \<noteq> []"
    if l: "l \<in> set (om_values (se_windows s))" for l
  proof -
    obtain w' where "om_get (se_windows s) w' = Some l" using l om_in_values [OF world_maps(2) [OF w]] by blast
    from world_tiled [OF w this] show ?thesis by (simp add: tiled_ok_def)
  qed
  have "om_get (se_windows s) window = Some \<lparr>link_window = window, link_leaf = ds_source_leaf c,
      link_output = dk_output (ds_domain c), link_workspace = dk_workspace (ds_domain c)\<rparr>" "ds_source_window c = window"
    using c by (simp_all add: capture_of_def)
  then have source: "ds_source_window c = window" "window \<noteq> []" "ds_source_leaf c \<noteq> []" "dk_output (ds_domain c) \<noteq> []"
    "dk_workspace (ds_domain c) \<noteq> []"
    using world_tiled [OF w] by (fastforce simp: tiled_ok_def)+
  have target: "sd_target_leaf r \<noteq> []" "sd_target_window r \<noteq> []" "sd_target_leaf r \<noteq> ds_source_leaf c" "sd_target_window r \<noteq> window"
    "drag_side_axis (sd_side r) = Some (sd_axis r)" "drag_side_before (sd_side r) = Some (sd_before r)"
    using t(2,4) named by (auto simp: resolves_to_def wf_node_def)
  have fits: "placement_fits (ds_source_leaf c) (sd_target_leaf r) (sd_placement r)" by (rule drop_places_fits [OF t(2,3,5)])
  have "valid_drag_operation (p_operation (drag_plan_of (c\<lparr>ds_prior := q\<rparr>) r))"
    using source target fits
    by (auto simp: valid_drag_operation_def drag_plan_of_def drag_for_operation_def placement_fits_def Let_def split: if_splits option.splits)
  moreover have "drag_required_capability (p_operation (drag_plan_of (c\<lparr>ds_prior := q\<rparr>) r)) = PlaceTiled"
    by (cases "drag_required_capability (p_operation (drag_plan_of (c\<lparr>ds_prior := q\<rparr>) r))") simp
  ultimately show ?thesis
    using caps by (simp add: drag_checks_def drag_plan_of_def drag_for_operation_def drag_preconditions_def max_preconditions_def Let_def)
qed

end


text \<open>
  C21. A release never breaks the session by its own plan. When the observation is the one the reconciler
  holds, the correlation is well-formed and a revision is left, no release diverges: every plan that the
  resolver makes, at whatever point and after whatever hovers, passes the reconciler's checks of its
  identities, edge, axis, group and index. A release plans, snaps back or is refused.
\<close>

theorem release_never_diverges:
  assumes "session_inv s" "se_policy s = cosmic_v1_policy" "ready (se_reconciler s)"
    and "begin_drag window obs s = (Inr capture, s1)" "drag_hover\<^sup>*\<^sup>* s1 s2"
    and "observed (se_reconciler s) (so_observation obs')" "is_correlation_id corr"
    and "drop_drag x y obs' corr caps s2 = Some (res, s3)"
  shows "session_divergence s3 = None \<and> (case res of Inr a \<Rightarrow> True | Inl e \<Rightarrow> e = SRefused RfUnsupportedCapability)"
proof -
  obtain c where c: "s1 = captured s c None" "capture_of s window c" "session_divergence s = None" "se_pending s = None" "se_drag s = None"
    using begin_captures [OF assms(1,4)] .
  obtain q where s2: "s2 = captured s c q" using hovers_captured assms(5) unfolding c(1) by blast
  let ?c = "c\<lparr>ds_prior := q\<rparr>"
  have drag: "se_drag s2 = Some ?c" and cleared: "s2\<lparr>se_drag := None\<rparr> = s" using captured_cleared [OF c(5)] by (simp_all add: s2)
  have inv: "session_inv s2" unfolding s2 by (rule captured_inv [OF assms(1) c(3,4)])
  from drop_outcome [OF inv drag assms(8)] show ?thesis
  proof
    assume "((\<exists>b. res = Inr (DragSnapBack b)) \<or> res = Inl (SRefused RfUnsupportedCapability)) \<and> s3 = s2\<lparr>se_drag := None\<rparr>"
    then show ?thesis unfolding cleared using c(3) by auto
  next
    assume "\<exists>current r. \<not> drag_capture_stale s2 ?c \<and> drag_resolution s2 ?c x y = Inr (current, Some (Inr r))
        \<and> drop_resolved s2 ?c current r obs' corr caps = (res, s3)"
    then obtain current r where r: "drag_resolution s2 ?c x y = Inr (current, Some (Inr r))"
      and d: "drop_resolved s2 ?c current r obs' corr caps = (res, s3)" by blast
    from drop_resolved_outcome [OF inv drag d] show ?thesis unfolding cleared
    proof (elim disjE exE conjE)
      fix b
      assume "res = Inr (DragSnapBack b)" "s3 = s"
      with c(3) show ?thesis by simp
    next
      fix plan desired answer
      assume dec: "drop_decision s2 ?c current r obs' caps = Some (plan, desired, answer)"
        and st: "stage_plan (propose_drag plan (so_observation obs') corr caps) desired answer s = (res, s3)"
      have caps: "drag_supports caps PlaceTiled" using dec by (auto simp: drop_decision_def Let_def split: if_splits)
      note checks = cosmic.planned_checks [OF assms(1,2) c(2) r [unfolded s2] caps]
      note accepts = propose_with_accepts [OF assms(3,6,7) checks]
      from st [unfolded drop_decision_Some(1) [OF dec] propose_drag_def stage_plan_def s2 accepts prod.case sum.case]
      have "(\<exists>d. res = Inr (answer d)) \<and> (\<exists>kind. s3 = s\<lparr>se_reconciler := slot corr kind (se_reconciler s), se_pending := Some desired\<rparr>)"
        by blast
      then show ?thesis using c(3) by (auto simp: session_divergence_def slot_def)
    qed
  qed
qed

subsection \<open>Drags return\<close>

context share_policy
begin

lemma drag_resolution_returns:
  assumes s: "current_ok s" "se_policy s = p" and c: "capture_of s window c"
    and small: "card (all_node_ids (se_trees s)) + 1 < 2 ^ 32"
    and r: "drag_resolution (captured s c q) (c\<lparr>ds_prior := q\<rparr>) x y = Inr (current, resolution)"
  shows "resolution \<noteq> None"
proof -
  obtain t where t: "tree_at (se_trees s) (ds_domain c) = Some t" "wf_node t" "ds_source_leaf c \<in> set (leaves t)"
    using capture_source [OF s(1) c] .
  have "card (set (node_ids t)) \<le> card (all_node_ids (se_trees s))"
    using tree_ids_ok [OF world_maps(1) [OF current_world [OF s(1)]] t(1) small] by (simp add: ids_ok_def card_mono)
  then have "card (set (node_ids t)) < 2 ^ 32 - 1" using small by simp
  with resolve_returns [of t "c\<lparr>ds_prior := q\<rparr>"] t r s(2) show ?thesis
    by (auto simp: drag_resolution_def captured_def split: option.splits)
qed

lemma drags_return:
  assumes s: "current_ok s" "se_policy s = p" and c: "capture_of s window c"
    and small: "card (all_node_ids (se_trees s)) + 1 < 2 ^ 32"
  shows "preview_drag x y ws (captured s c q) \<noteq> None" "drop_drag x y obs corr caps (captured s c q) \<noteq> None"
  using drag_resolution_returns [OF assms, of q x y]
  by (auto simp: preview_drag_def drop_drag_def simp del: not_None_eq split: option.splits sum.splits)

end

text \<open>
  A drag never hangs. From the capture on, every preview and every release returns: the walk to the
  node under the pointer ends, and so does the search of a fresh group identity, as long as the trees hold
  fewer than 2^32 - 1 identities.
\<close>

theorem drag_returns:
  assumes "session_inv s" "se_policy s = cosmic_v1_policy" "card (all_node_ids (se_trees s)) + 1 < 2 ^ 32"
    and "begin_drag window obs s = (Inr capture, s1)" "drag_hover\<^sup>*\<^sup>* s1 s2"
  shows "preview_drag x y ws s2 \<noteq> None \<and> drop_drag x y obs' corr caps s2 \<noteq> None"
proof -
  obtain c where c: "s1 = captured s c None" "capture_of s window c" using begin_captures [OF assms(1,4)] .
  obtain q where "s2 = captured s c q" using hovers_captured assms(5) unfolding c(1) by blast
  with cosmic.drags_return [OF _ assms(2) c(2) assms(3)] assms(1) show ?thesis by (simp add: session_inv_def)
qed

subsection \<open>The release repeats the preview\<close>

text \<open>A policy whose hover is steady: an edge, passed back as the prior hover, is found again.\<close>

definition hovered :: "node_id \<Rightarrow> drag_side option \<Rightarrow> prior_group_edge option" where
  "hovered g = map_option (\<lambda>e. \<lparr>pg_group = g, pg_edge = e\<rparr>)"

locale steady_policy =
  fixes p :: layout_policy
  assumes steady: "lp_classify_group_point p r g x y (hovered g (lp_classify_group_point p r g x y prior))
    = lp_classify_group_point p r g x y prior"
begin

lemma resolve_window_prior:
  "resolve_window p t leaf_rects windows exceptions (c\<lparr>ds_prior := q\<rparr>) x y i = resolve_window p t leaf_rects windows exceptions c x y i"
  by (simp add: resolve_window_def cong: option.case_cong if_cong)

lemma resolve_group_prior:
  assumes "lp_classify_group_point p (gl_rect l) (gl_id l) x y q = lp_classify_group_point p (gl_rect l) (gl_id l) x y (ds_prior c)"
  shows "resolve_group p t windows exceptions (c\<lparr>ds_prior := q\<rparr>) x y l = resolve_group p t windows exceptions c x y l"
  using assms by (simp add: resolve_group_def drag_representative_def Let_def cong: option.case_cong)

lemma resolve_group_again:
  assumes "resolve_group p t windows exceptions c x y l = Some (Inr r)"
  shows "resolve_group p t windows exceptions (c\<lparr>ds_prior := sd_next_prior r\<rparr>) x y l = Some (Inr r)"
proof -
  have "sd_next_prior r = hovered (gl_id l) (lp_classify_group_point p (gl_rect l) (gl_id l) x y (ds_prior c))"
    using assms by (auto simp: resolve_group_def hovered_def Let_def split: option.splits dest: resolved_as_Inr(6))
  with assms resolve_group_prior [of l x y "sd_next_prior r"] steady show ?thesis by simp
qed

lemma resolve_again:
  assumes "resolve_drag_shared p t domain windows exceptions c x y = Some (Inr r)"
  shows "resolve_drag_shared p t domain windows exceptions (c\<lparr>ds_prior := sd_next_prior r\<rparr>) x y = Some (Inr r)"
proof (cases "project t (od_bounds domain) (od_gap domain)")
  case (Inl e)
  with assms show ?thesis by (simp add: resolve_drag_iff)
next
  case (Inr projected)
  from assms [unfolded resolve_drag_iff Inr sum.case Let_def] obtain n where
    n: "drag_walk t (child_contains (om_from_list (map (\<lambda>q. (pleaf q, prect q)) projected))
        (layout_by_id (om_from_list (map (\<lambda>q. (pleaf q, prect q)) projected)) t) x y) (ident t) = Some (Some n)"
    and cp: "contains_point (ds_work_area c) x y"
    and found: "case n of Leaf i \<Rightarrow> resolve_window p t (om_from_list (map (\<lambda>q. (pleaf q, prect q)) projected)) windows exceptions c x y i = Some (Inr r)
       | Group i a cs sh \<Rightarrow> (\<exists>l. om_get (layout_by_id (om_from_list (map (\<lambda>q. (pleaf q, prect q)) projected)) t) i = Some l
           \<and> resolve_group p t windows exceptions c x y l = Some (Inr r))"
    by blast
  show ?thesis
    unfolding resolve_drag_iff Inr sum.case Let_def resolve_window_prior
    using n cp found resolve_group_again by (cases n) fastforce+
qed

lemma preview_resolved:
  assumes "preview_drag x y ws s = Some (Inr v, s')" "se_policy s = p"
  obtains c current r where "se_drag s = Some c" "drag_resolution s c x y = Inr (current, Some (Inr r))"
    "preview_answer s c current r ws = Inr v" "s' = set_drag_prior (sd_next_prior r) s"
    "drag_resolution s' (c\<lparr>ds_prior := sd_next_prior r\<rparr>) x y = Inr (current, Some (Inr r))"
proof -
  from assms(1) obtain c where c: "se_drag s = Some c" by (auto simp: preview_drag_def split: option.splits if_splits)
  with assms(1) obtain current resolution where r: "drag_resolution s c x y = Inr (current, resolution)"
    and m: "map_option (\<lambda>resolved. case resolved of
                        Inl kind \<Rightarrow> (Inl (SRefused kind), set_drag_prior None s)
                      | Inr r \<Rightarrow> (preview_answer s c current r ws, set_drag_prior (sd_next_prior r) s)) resolution = Some (Inr v, s')"
    by (auto simp: preview_drag_def split: option.splits if_splits sum.splits)
  from m obtain resolved where res: "resolution = Some resolved" by (cases resolution) simp_all
  from m res obtain r' where r': "resolved = Inr r'" by (cases resolved) simp_all
  have s': "s' = set_drag_prior (sd_next_prior r') s" "preview_answer s c current r' ws = Inr v" using m res r' by simp_all
  obtain domain where "resolve_drag_shared p current domain (se_windows s) (se_exceptions s) c x y = Some (Inr r')"
    "tree_at (se_trees s) (ds_domain c) = Some current" "find (\<lambda>d. domain_key_of d = ds_domain c) (se_domains s) = Some domain"
    using r res r' assms(2) by (auto simp: drag_resolution_def split: option.splits)
  from this(2,3) resolve_again [OF this(1)] assms(2)
  have "drag_resolution s' (c\<lparr>ds_prior := sd_next_prior r'\<rparr>) x y = Inr (current, Some (Inr r'))"
    by (simp add: drag_resolution_def s' set_drag_prior_def)
  with that c r res r' s' show thesis by blast
qed

end

text \<open>Deeper edges cover what the shallow ones cover.\<close>

lemma edge_zone_mono:
  assumes "edge_zone w h dx dy (\<lambda>f. 32) e" "\<And>f. 32 \<le> d f"
  shows "\<exists>f. edge_zone w h dx dy d f"
proof -
  note deep = assms(2) [of DragLeft] assms(2) [of DragRight] assms(2) [of DragTop] assms(2) [of DragBottom]
  have inside: "0 \<le> dx" "dx < w" "0 \<le> dy" "dy < h" using assms(1) by (simp_all add: edge_zone_def)
  consider "dx < d DragLeft" | "d DragLeft \<le> dx" "dy < d DragTop" | "d DragLeft \<le> dx" "d DragTop \<le> dy" "w - d DragRight \<le> dx"
    | "d DragLeft \<le> dx" "d DragTop \<le> dy" "dx < w - d DragRight" by linarith
  then show ?thesis
  proof cases
    case 1
    with inside show ?thesis by (intro exI [of _ DragLeft]) (simp add: edge_zone_def)
  next
    case 2
    with inside show ?thesis by (intro exI [of _ DragTop]) (simp add: edge_zone_def)
  next
    case 3
    with inside show ?thesis by (intro exI [of _ DragRight]) (simp add: edge_zone_def)
  next
    case 4
    then have "h - d DragBottom \<le> dy" using assms(1) deep by (cases e) (simp_all add: edge_zone_def)
    with 4 inside show ?thesis by (intro exI [of _ DragBottom]) (simp add: edge_zone_def)
  qed
qed

interpretation cosmic_hover: steady_policy cosmic_v1_policy
proof
  fix r g x y prior
  have low: "32 \<le> group_edge_depth_for g e prior \<and> group_edge_depth_for g e prior \<le> 80" for e
    using group_edge_depth_values(1) [of g e prior] by auto
  note lows = low [of DragLeft] low [of DragRight] low [of DragTop] low [of DragBottom]
  have "classify_group_point r g x y (hovered g (classify_group_point r g x y prior)) = classify_group_point r g x y prior"
  proof (cases "classify_group_point r g x y prior")
    case (Some e)
    then have "classify_group_point r g x y (Some \<lparr>pg_group = g, pg_edge = e\<rparr>) = Some e"
      using lows unfolding classify_iff_zone edge_zone_def by (cases e) (simp_all add: group_edge_depth_values(2))
    with Some show ?thesis by (simp add: hovered_def)
  next
    case None
    have "classify_group_point r g x y None \<noteq> Some e" for e
      using None edge_zone_mono [where d = "\<lambda>f. group_edge_depth_for g f prior" and w = "rw r" and h = "rh r"
          and dx = "x - rx r" and dy = "y - ry r" and e = e, OF _ conjunct1 [OF low]]
        classify_iff_zone [of r g x y prior] classify_iff_zone [of r g x y None]
      by (auto simp: group_edge_depth_values(3))
    then have "classify_group_point r g x y None = None" by (metis option.exhaust)
    with None show ?thesis by (simp add: hovered_def)
  qed
  then show "lp_classify_group_point cosmic_v1_policy r g x y (hovered g (lp_classify_group_point cosmic_v1_policy r g x y prior))
    = lp_classify_group_point cosmic_v1_policy r g x y prior" by (simp add: cosmic_v1_policy_def)
qed

lemma preview_answer_prior:
  "preview_answer (set_drag_prior q s) (c\<lparr>ds_prior := q'\<rparr>) current r ws = preview_answer s c current r ws"
  by (simp add: preview_answer_def drag_preview_of_def set_drag_prior_def Let_def cong: option.case_cong if_cong)

lemma preview_answer_Inr:
  assumes "preview_answer s c current r ws = Inr v"
  obtains geometry g where "v = drag_preview_of c r (dg_rect g)" "find (\<lambda>g. dg_leaf g = ds_source_leaf c) geometry = Some g"
    "project_affected_geometry (se_domains s) (om_insert (ds_domain c) (Some (pm_tree (sd_placement r))) (se_trees s))
       (se_windows s) [ds_domain c] (hints_from_observed ws) = Some geometry"
  using assms by (auto simp: preview_answer_def Let_def split: if_splits option.splits)


end
