(* ===== verification/Session_Machine.thy ===== *)
theory Session_Machine
  imports Session_Relocation Session_Transfer Session_Resize Session_Move_Proposal Session_Drag_Proposal
begin

text \<open>
  The session as a state machine: one rule per modelled operation of \<open>Session\<close>, reachability from a
  new session, and the properties of every reachable session. A call whose identity search does not
  return makes no step. \<open>reproject_domain\<close> takes any rectangle; the rule covers the calls whose rectangle
  a domain may have, and \<open>reproject_breaks_session\<close> shows what the others do.
\<close>

subsection \<open>Steps\<close>

inductive session_step :: "session \<Rightarrow> session \<Rightarrow> bool" where
  propose: "session_propose command obs corr caps s = Some (res, s') \<Longrightarrow> session_step s s'"
| propose_focus: "session_propose_focus s k w dir obs corr fcaps = (fres, s') \<Longrightarrow> session_step s s'"
| propose_cross_focus: "cross_output_focus float s k w dir obs corr fcaps = (fres, s') \<Longrightarrow> session_step s s'"
| propose_resize: "session_propose_resize s k w dir mode press obs corr rcaps = (rres, s') \<Longrightarrow> session_step s s'"
| propose_move: "propose_move_with_same_axis s k w dir obs corr mcaps mode = Some (mres, s') \<Longrightarrow> session_step s s'"
| acknowledge: "session_acknowledge a s = (ack, s') \<Longrightarrow> session_step s s'"
| cancel: "cancel_unacked_pending corr base s = (cancelled, s') \<Longrightarrow> session_step s s'"
| verify_lifecycle: "session_verify_lifecycle lpost s = (ver, s') \<Longrightarrow> session_step s s'"
| verify_move: "session_verify_move mpost s = (ver, s') \<Longrightarrow> session_step s s'"
| verify_focus: "session_verify_focus fpost s = (ver, s') \<Longrightarrow> session_step s s'"
| verify_resize: "session_verify_resize rpost s = (ver, s') \<Longrightarrow> session_step s s'"
| verify_drag: "session_verify_drag dpost s = (ver, s') \<Longrightarrow> session_step s s'"
| adapter_loss: "session_adapter_loss s = (reason, s') \<Longrightarrow> session_step s s'"
| mismatch: "session_postcondition_mismatch s = (reason, s') \<Longrightarrow> session_step s s'"
| gaps: "update_domain_gaps s k bounds gap = (changed, s') \<Longrightarrow> session_step s s'"
| reproject: "bounds_valid bounds \<Longrightarrow> session_step s (reproject_domain s k bounds)"
| relocate: "relocate_domain s a b bounds gap = (changed, s') \<Longrightarrow> session_step s s'"
| sync_focus: "sync_focus_from_window s k w = (changed, s') \<Longrightarrow> session_step s s'"
| drag_begin: "begin_drag w obs s = (begun, s') \<Longrightarrow> session_step s s'"
| drag_hover: "drag_hover s s' \<Longrightarrow> session_step s s'"
| drag_drop: "drop_drag x y obs corr dcaps s = Some (released, s') \<Longrightarrow> session_step s s'"
| drag_cancel: "cancel_drag s = (back_at, s') \<Longrightarrow> session_step s s'"
| configure: "session_step s (s\<lparr>se_fixed_admission := fixed, se_fixed_predicate := predicate, se_focus_fence := fence\<rparr>)"
| set_policy: "session_step s (s\<lparr>se_policy := policy\<rparr>)"

inductive session_reachable :: "session \<Rightarrow> bool" where
  start: "new_with_policy ow gen revision fingerprint domains policy = Inr s \<Longrightarrow> session_reachable s"
| step: "session_reachable s \<Longrightarrow> session_step s s' \<Longrightarrow> session_reachable s'"

lemma set_policy_inv: "session_inv s \<Longrightarrow> session_inv (s\<lparr>se_policy := policy\<rparr>)"
  by (simp add: session_inv_def current_ok_def bound_ok_def)

lemma propose_inv:
  assumes "session_inv s" "session_propose command obs corr caps s = Some (res, s')"
  shows "session_inv s'"
  using propose_ok(1) [OF assms] by (simp add: transactional_def)

lemma session_step_inv:
  assumes "session_step s s'" "session_inv s"
  shows "session_inv s'"
  using assms
proof (induction rule: session_step.induct)
  case (propose command obs corr caps s res s')
  then show ?case by (blast intro: propose_inv)
next
  case (propose_focus s k w dir obs corr fcaps fres s')
  then show ?case using session_propose_focus_ok [of s k w dir obs corr fcaps] by (simp add: proposal_ok_def)
next
  case (propose_cross_focus float s k w dir obs corr fcaps fres s')
  then show ?case using cross_output_focus_ok [of s float k w dir obs corr fcaps] by (simp add: proposal_ok_def)
next
  case (propose_resize s k w dir mode press obs corr rcaps rres s')
  then show ?case using session_propose_resize_ok [of s k w dir mode press obs corr rcaps] by (simp add: proposal_ok_def)
next
  case (propose_move s k w dir obs corr mcaps mode mres s')
  then show ?case using propose_move_ok [of s k w dir obs corr mcaps mode mres s'] by (simp add: proposal_ok_def)
next
  case (acknowledge a s ack s')
  then show ?case using session_acknowledge_inv [of s a] by simp
next
  case (cancel corr base s cancelled s')
  then show ?case using cancel_unacked_pending_inv [of s corr base] by simp
next
  case (verify_lifecycle lpost s ver s')
  then show ?case using session_verify_invs(1) by (metis session_verify_lifecycle_def snd_conv)
next
  case (verify_move mpost s ver s')
  then show ?case using session_verify_invs(2) by (metis session_verify_move_def snd_conv)
next
  case (verify_focus fpost s ver s')
  then show ?case using session_verify_invs(3) by (metis session_verify_focus_def snd_conv)
next
  case (verify_resize rpost s ver s')
  then show ?case using session_verify_invs(4) by (metis session_verify_resize_def snd_conv)
next
  case (verify_drag dpost s ver s')
  then show ?case using session_verify_invs(5) by (metis session_verify_drag_def snd_conv)
next
  case (adapter_loss s reason s')
  then show ?case using session_lost_inv(1) [of s] by simp
next
  case (mismatch s reason s')
  then show ?case using session_lost_inv(2) [of s] by simp
next
  case (gaps s k bounds gap changed s')
  then show ?case using update_domain_gaps_inv [of s k bounds gap] by simp
next
  case (reproject bounds s k)
  then show ?case by (blast intro: reproject_domain_inv)
next
  case (relocate s a b bounds gap changed s')
  then show ?case using relocate_domain_inv [of s a b bounds gap] by simp
next
  case (sync_focus s k w changed s')
  then show ?case using sync_focus_inv [of s k w] by simp
next
  case (drag_begin w obs s begun s')
  then show ?case using begin_drag_ok(1) [of s w obs] by simp
next
  case (drag_hover s s')
  then show ?case by (blast intro: hover_ok(1))
next
  case (drag_drop x y obs corr dcaps s released s')
  then show ?case by (blast intro: drop_inv)
next
  case (drag_cancel s back_at s')
  then show ?case using cancel_drag_ok [of s] by simp
next
  case (configure s fixed predicate fence)
  then show ?case by (rule set_fixed_inv)
next
  case (set_policy s policy)
  then show ?case by (rule set_policy_inv)
qed

lemma session_reachable_inv: "session_reachable s \<Longrightarrow> session_inv s"
  by (induction rule: session_reachable.induct) (auto intro: session_new_inv session_step_inv)

subsection \<open>Properties\<close>

text \<open>
  C4. Every session reached from a new one by the calls of \<open>session_step\<close>, under any layout policy, is
  well-formed: the topology validates, so none of these calls is ever refused for it; every tiled window
  sits on exactly one leaf of the tree of its own domain and no window is also an exception; a focus names
  a linked leaf; at most one plan is staged, exactly when the reconciler has one pending, and a diverged
  session stages nothing; and what is staged is itself well-formed. The calls are
  the lifecycle, focus, keyboard resize, move and drag calls, acknowledgement, cancellation, the five
  verifications, the two losses, the gap, relocation and focus updates, the setters, and reprojection to
  bounds that a domain may have; pointer resize, fitted admission, observation convergence and other
  reprojections are not among them.
\<close>

theorem reachable_sessions_ok:
  assumes "session_reachable s"
  shows "validate_current_topology s
    \<and> (\<forall>w l. om_get (se_windows s) w = Some l \<longrightarrow> tiled_ok (se_trees s) l \<and> \<not> om_contains (se_exceptions s) w)
    \<and> (\<forall>k t x. tree_at (se_trees s) k = Some t \<longrightarrow> x \<in> set (leaves t)
      \<longrightarrow> (\<exists>!w. \<exists>l. om_get (se_windows s) w = Some l \<and> link_leaf l = x))
    \<and> focus_resolves (se_focused_domain s) (se_focused_leaf s) (se_trees s) (se_windows s)
    \<and> (se_pending s \<noteq> None \<longleftrightarrow> has_pending s)
    \<and> (session_divergence s \<noteq> None \<longrightarrow> se_pending s = None \<and> se_drag s = None)
    \<and> (\<forall>d. se_pending s = Some d \<longrightarrow> validate_topology (se_domains s) (pe_trees d) (pe_windows d)
      (pe_exceptions d) (pe_focused_domain d) (pe_focused_leaf d))"
proof (intro conjI)
  have inv: "session_inv s" using assms by (rule session_reachable_inv)
  then have b: "bound_ok s" and w: "world_ok (se_domains s) (se_trees s) (se_windows s) (se_exceptions s)
      (se_focused_domain s) (se_focused_leaf s)"
    by (simp_all add: session_inv_def current_ok_def)
  show "validate_current_topology s" by (rule validate_current_ok [OF inv])
  show "\<forall>w l. om_get (se_windows s) w = Some l \<longrightarrow> tiled_ok (se_trees s) l \<and> \<not> om_contains (se_exceptions s) w"
    using world_tiled [OF w] world_disjoint [OF w] by (auto simp: om_contains_def)
  show "\<forall>k t x. tree_at (se_trees s) k = Some t \<longrightarrow> x \<in> set (leaves t)
      \<longrightarrow> (\<exists>!w. \<exists>l. om_get (se_windows s) w = Some l \<and> link_leaf l = x)"
    using world_covered [OF w] world_leaf_unique [OF w] by metis
  show "focus_resolves (se_focused_domain s) (se_focused_leaf s) (se_trees s) (se_windows s)"
    by (rule world_focus [OF w])
  show "se_pending s \<noteq> None \<longleftrightarrow> has_pending s"
    using b by (simp add: bound_ok_def has_pending_def status_def)
  show "session_divergence s \<noteq> None \<longrightarrow> se_pending s = None \<and> se_drag s = None"
    using b by (auto simp: bound_ok_def rc_inv_def session_divergence_def)
  show "\<forall>d. se_pending s = Some d \<longrightarrow> validate_topology (se_domains s) (pe_trees d) (pe_windows d)
      (pe_exceptions d) (pe_focused_domain d) (pe_focused_leaf d)"
    using inv by (auto simp: session_inv_def desired_ok_def world_ok_def validate_topology_iff)
qed

text \<open>
  The calls that \<open>session_step\<close> leaves out: reprojecting a known domain to a rectangle without extent
  is accepted, invalidates the topology of an idle session and has every later lifecycle command refused,
  although the gap update refuses the same rectangle.
\<close>

theorem reproject_breaks_session:
  assumes "session_inv s" "ready_error s = None" "k \<in> domain_key_of ` set (se_domains s)"
    and "rw bounds \<le> 0 \<or> rh bounds \<le> 0"
  shows "\<not> validate_current_topology (reproject_domain s k bounds)
    \<and> session_propose command obs corr caps (reproject_domain s k bounds)
      = Some (Inl (SRefused RfMalformedTopology), reproject_domain s k bounds)
    \<and> update_domain_gaps s k bounds gap = (False, s)"
proof -
  let ?broken = "reproject_domain s k bounds"
  from assms(3) obtain i where i: "position (\<lambda>d. domain_key_of d = k) (se_domains s) = Some i"
    by (cases "position (\<lambda>d. domain_key_of d = k) (se_domains s)") (auto simp: position_None_iff)
  then have len: "i < length (se_domains s)" by (simp add: position_Some_iff)
  have broken: "?broken = s\<lparr>se_domains := rebound (se_domains s) i bounds\<rparr>" by (simp add: reproject_domain_def i)
  have "\<not> list_all domain_validate (rebound (se_domains s) i bounds)"
    using len assms(4) by (auto simp: list_all_length domain_validate_def intro!: exI [of _ i])
  then have invalid: "\<not> validate_current_topology ?broken"
    by (auto simp: broken validate_current_topology_def validate_topology_def list_all_iff)
  have "ready_error ?broken = ready_error s"
    by (simp add: broken ready_error_def session_divergence_def has_pending_def status_def cong: option.case_cong if_cong)
  then have "session_propose command obs corr caps ?broken = Some (Inl (SRefused RfMalformedTopology), ?broken)"
    using invalid assms(2) by (simp add: session_propose_def)
  moreover have "update_domain_gaps s k bounds gap = (False, s)" using assms(4) by (auto simp: update_domain_gaps_def)
  ultimately show ?thesis using invalid by blast
qed

text \<open>
  C6. A lifecycle proposal never touches the accepted trees, links, focus, history or revision. A
  refusal or a plan already pending leaves the whole session as it was; a divergence is terminal and
  stages nothing, or leaves the session as it was; an accepted proposal was made to an idle session
  and leaves exactly one plan staged. The invariant survives each of them, and a command that does not
  unfloat keeps the exceptions and the retained geometries too.
\<close>

theorem proposals_are_transactional:
  assumes "session_inv s" "session_propose command obs corr caps s = Some (res, s')"
  shows "transactional s (res, s') \<and> (\<not> unfloats s command \<longrightarrow> keeps_world s s')"
  using propose_ok [OF assms] by (auto simp: proposal_ok_def)

text \<open>
  C11. A lifecycle proposal returns. The searches for a fresh leaf and a fresh group identity, whose
  counters wrap at 32 bits, end as long as the trees hold fewer than 2^32 - 2 identities.
\<close>

theorem proposals_return:
  assumes "card (all_node_ids (se_trees s)) + 2 < 2 ^ 32"
  shows "\<exists>res s'. session_propose command obs corr caps s = Some (res, s')"
  using propose_returns [OF assms] by (metis surj_pair)

text \<open>
  C10. Tiling a floating window again is the one lifecycle command that is not transactional. When it is
  accepted, the session forgets the window at once, before any acknowledgement: it is neither tiled nor
  an exception, and withdrawing the plan does not bring it back. When the reconciler diverges on it,
  the divergence is reported but not recorded.
\<close>

theorem unfloat_bypasses_transaction:
  assumes "session_inv s" "om_contains (se_exceptions s) w" "ready_error s = None"
    and "session_propose (CmdToggleFloat w geometry) obs corr caps s = Some (res, s')"
  shows "case res of
      Inr plan \<Rightarrow> \<not> known_window (se_windows s') (se_exceptions s') w
        \<and> (\<forall>base s''. cancel_unacked_pending corr base s' = (Inr (), s'')
            \<longrightarrow> \<not> known_window (se_windows s'') (se_exceptions s'') w)
    | Inl e \<Rightarrow> s' = s \<and> session_divergence s' = None"
proof -
  have none: "session_divergence s = None" using assms(1,3) ready_error_None by blast
  have untiled: "om_get (se_windows s) w = None"
  proof -
    have "current_ok s" using assms(1) by (simp add: session_inv_def)
    from world_disjoint [OF current_world [OF this], of w] show ?thesis
      using assms(2) by (cases "om_get (se_windows s) w") (auto simp: om_contains_def)
  qed
  show ?thesis
  proof (cases "validate_current_topology s \<and> w \<noteq> [] \<and> valid_observed_shapes (so_windows obs)
      \<and> check_domains s (CmdToggleFloat w geometry) (so_windows obs) = None
      \<and> valid_command_shapes (CmdToggleFloat w geometry)")
    case False
    then have "\<exists>kind. res = Inl (SRefused kind) \<and> s' = s"
      using assms(3,4) by (auto simp: session_propose_def split: option.splits if_splits)
    then show ?thesis using none by auto
  next
    case True
    obtain r where r: "om_get (se_exceptions s) w = Some r" using assms(2) by (auto simp: om_contains_def)
    have "unfloat s w r geometry obs corr caps = Some (res, s')"
      using assms(3,4) True r
      by (auto simp: session_propose_def propose_command_def propose_toggle_float_def split: if_splits)
    from unfloat_outcome [OF assms(1,3) _ _ this] True
    have "case res of Inl e \<Rightarrow> s' = s
      | Inr plan \<Rightarrow> keeps_tiled s s' \<and> se_exceptions s' = om_remove w (se_exceptions s)"
      by (auto split: sum.splits)
    moreover have "cancel_unacked_pending corr base s' = (Inr (), s'') \<Longrightarrow>
        se_windows s'' = se_windows s' \<and> se_exceptions s'' = se_exceptions s'" for base s''
      by (auto simp: cancel_unacked_pending_def split: if_splits sum.splits prod.splits)
    ultimately show ?thesis
      using untiled none
      by (auto simp: known_window_def om_contains_def keeps_tiled_def split: sum.splits)
  qed
qed

end
