(* ===== verification/Session_Commitment.thy ===== *)
theory Session_Commitment
  imports Session_Transfer
begin

text \<open>
  What a lifecycle plan promises is what its commit installs: the answer's snapshot and focus are those
  of the staged state, and the acknowledgement and verification that match the plan install it.
\<close>

subsection \<open>Promises\<close>

definition promises :: "output_domain list \<Rightarrow> pending_desired \<Rightarrow> session_plan \<Rightarrow> bool" where
  "promises ds d plan \<longleftrightarrow> pl_snapshot plan = snapshot_for ds (pe_trees d) (pe_windows d)
     \<and> pl_focus_domain plan = pe_focused_domain d \<and> pl_focus_leaf plan = pe_focused_leaf d"

definition decision_promises :: "output_domain list \<Rightarrow> lifecycle_decision \<Rightarrow> bool" where
  "decision_promises ds decision \<longleftrightarrow> (\<forall>plan desired answer disp.
     decision = Inr (plan, desired, answer) \<longrightarrow> promises ds desired (answer disp) \<and> pl_dispatch (answer disp) = disp)"

lemma promise_refused [simp]: "decision_promises ds (Inl k)"
  by (simp add: decision_promises_def)

lemma promise_if: "decision_promises ds x \<Longrightarrow> decision_promises ds y \<Longrightarrow> decision_promises ds (if c then x else y)"
  by simp

lemma promise_option: "decision_promises ds x \<Longrightarrow> (\<And>v. decision_promises ds (f v))
    \<Longrightarrow> decision_promises ds (case m of None \<Rightarrow> x | Some v \<Rightarrow> f v)"
  by (cases m) simp_all

lemma promise_stage: "snapshot = snapshot_for ds (pe_trees desired) (pe_windows desired) \<Longrightarrow>
    fd = pe_focused_domain desired \<Longrightarrow> fl = pe_focused_leaf desired \<Longrightarrow>
    decision_promises ds (Inr (plan, desired, session_plan_of snapshot fd fl geometry))"
  by (simp add: decision_promises_def promises_def session_plan_of_def)

lemmas promise_steps = promise_if promise_option promise_refused promise_stage

lemma admit_promises:
  "admit_decision s w p wk flags behavior bounds suppress obs = Some decision \<Longrightarrow> decision_promises (se_domains s) decision"
proof -
  have "decision_promises (se_domains s) (admit_deferred s w p wk flags)"
    unfolding admit_deferred_def Let_def by (intro promise_steps) (simp_all add: desired_of_def)
  moreover have "decision_promises (se_domains s) (admit_fixed s w p wk)"
    unfolding admit_fixed_def by (intro promise_steps) (simp_all add: desired_of_def)
  moreover have "decision_promises (se_domains s) (admit_tiled_at s w key leaf t b ws)" for key leaf t b ws
    unfolding admit_tiled_at_def Let_def by (intro promise_steps) (simp_all add: desired_of_def)
  then have "admit_tiled s w p wk bounds b obs = Some d \<Longrightarrow> decision_promises (se_domains s) d" for b d
    by (auto simp: admit_tiled_def Let_def bind_eq_Some_conv)
  ultimately show "admit_decision s w p wk flags behavior bounds suppress obs = Some decision \<Longrightarrow>
      decision_promises (se_domains s) decision"
    by (auto simp: admit_decision_def split: if_splits option.splits)
qed

lemma remove_promises: "decision_promises (se_domains s) (remove_decision s w obs)"
proof -
  have "decision_promises (se_domains s) (remove_deferred s w r)" for r
    unfolding remove_deferred_def Let_def prod.case_eq_if by (intro promise_steps) (simp_all add: desired_of_def)
  moreover have "decision_promises (se_domains s) (remove_tiled s w l ws)" for l ws
    unfolding remove_tiled_def Let_def prod.case_eq_if by (intro promise_steps) (simp_all add: desired_of_def)
  ultimately show ?thesis
    unfolding remove_decision_def Let_def by (intro promise_steps)
qed

lemma toggle_orientation_promises: "decision_promises (se_domains s) (toggle_orientation_decision s w obs)"
proof -
  have "decision_promises (se_domains s) (toggle_orientation_at s w key leaf ws)" for key leaf ws
    unfolding toggle_orientation_at_def Let_def by (intro promise_steps) (simp_all add: desired_of_def)
  then show ?thesis
    by (auto simp: toggle_orientation_decision_def split: option.split)
qed

lemma send_promises:
  assumes "send_decision s w p wk follow cross obs = Some decision"
  shows "decision_promises (se_domains s) decision"
proof -
  have "decision_promises (se_domains s) (send_stage s w l target a b follow cross ws)" for l target a b ws
    unfolding send_stage_def Let_def prod.case_eq_if by (intro promise_steps) (simp_all add: desired_of_def)
  then have "send_insert s w l d follow cross obs = Some x \<Longrightarrow> decision_promises (se_domains s) x" for l d x
    by (auto simp: send_insert_def Let_def bind_eq_Some_conv split: if_splits option.splits)
  with assms show ?thesis
    by (auto simp: send_decision_def Let_def split: if_splits option.splits)
qed

subsection \<open>Accepted proposals\<close>

text \<open>\<open>dispatched r corr s' plan\<close>: the plan holds the slot of the reconciler that was \<open>r\<close>, and what
  \<open>s'\<close> stages is what the plan promises.\<close>

definition dispatched :: "reconciler \<Rightarrow> correlation_id \<Rightarrow> session \<Rightarrow> session_plan \<Rightarrow> bool" where
  "dispatched r corr s' plan \<longleftrightarrow> is_correlation_id corr \<and> rc_revision r < max_revision
     \<and> length (d_preconditions (pl_dispatch plan)) \<le> max_preconditions
     \<and> se_reconciler s' = slot corr (PendingLifecycle (d_preconditions (pl_dispatch plan))
         (d_operation (pl_dispatch plan))) r
     \<and> (\<exists>d. se_pending s' = Some d \<and> promises (se_domains s') d plan)"

lemma propose_lifecycle_accepted:
  assumes "propose_lifecycle plan ob corr caps r = (Inr d, r')"
  shows "r' = slot corr (PendingLifecycle (d_preconditions d) (d_operation d)) r \<and> is_correlation_id corr
    \<and> rc_revision r < max_revision \<and> length (d_preconditions d) \<le> max_preconditions"
  using assms
  by (auto simp: propose_lifecycle_def propose_with_def dispatch_of_def dispatch.defs slot_def observation_checks_def
      lifecycle_checks_def split: option.splits if_splits)

lemma stage_dispatched:
  assumes "decision_promises (se_domains s) decision"
    and "stage (\<lambda>plan. propose_lifecycle plan ob corr caps) decision s = (Inr plan, s')"
  shows "dispatched (se_reconciler s) corr s' plan \<and> se_domains s' = se_domains s"
proof -
  obtain lp desired answer where dec: "decision = Inr (lp, desired, answer)"
    using assms(2) by (cases decision) (auto simp: stage_def)
  obtain res r where off: "propose_lifecycle lp ob corr caps (se_reconciler s) = (res, r)"
    by (cases "propose_lifecycle lp ob corr caps (se_reconciler s)")
  obtain d where d: "res = Inr d" "plan = answer d" "s' = s\<lparr>se_reconciler := r, se_pending := Some desired\<rparr>"
    using assms(2) by (auto simp: dec stage_def stage_plan_def off split: sum.splits propose_error.splits)
  have "promises (se_domains s) desired plan" "pl_dispatch plan = d"
    using assms(1) d(2) by (simp_all add: decision_promises_def dec)
  with propose_lifecycle_accepted [OF off [unfolded d(1)]] d(3) show ?thesis
    by (simp add: dispatched_def)
qed

lemma admit_dispatched:
  assumes "propose_admit s w p wk flags behavior bounds suppress obs corr caps = Some (Inr plan, s')"
  shows "dispatched (se_reconciler s) corr s' plan"
proof -
  obtain decision where d: "admit_decision s w p wk flags behavior bounds suppress obs = Some decision"
    and "stage (\<lambda>plan. propose_lifecycle plan (so_observation obs) corr caps) decision s = (Inr plan, s')"
    using assms by (auto simp: propose_admit_def)
  then show ?thesis using stage_dispatched [OF admit_promises [OF d]] by blast
qed

lemma send_dispatched:
  assumes "propose_send s w p wk follow cross obs corr caps = Some (Inr plan, s')"
  shows "dispatched (se_reconciler s) corr s' plan"
proof -
  obtain decision where d: "send_decision s w p wk follow cross obs = Some decision"
    using assms by (auto simp: propose_send_def)
  obtain res s0 where st: "stage (\<lambda>plan. propose_lifecycle plan (so_observation obs) corr caps) decision s = (res, s0)"
    by (cases "stage (\<lambda>plan. propose_lifecycle plan (so_observation obs) corr caps) decision s")
  with assms d have res: "res = Inr plan" and s': "s' = s0 \<or> (\<exists>tr. s' = s0\<lparr>se_last_send := tr\<rparr>)"
    by (cases res; auto simp: propose_send_def split: option.splits)+
  have "dispatched (se_reconciler s) corr s0 plan"
    using stage_dispatched [OF send_promises [OF d]] st res by blast
  with s' show ?thesis by (auto simp: dispatched_def)
qed

lemma float_dispatched:
  assumes "float_tiled s w geometry obs corr caps = (Inr plan, s')"
  shows "dispatched (se_reconciler s) corr s' plan"
proof -
  obtain e g s0 d where rem: "propose_remove s w obs corr caps = (Inr plan, s0)" and d: "se_pending s0 = Some d"
    and s': "s' = s0\<lparr>se_pending := Some (float_desired w e g d)\<rparr>"
    using assms by (auto simp: float_tiled_def split: option.splits if_splits sum.splits prod.splits)
  have "dispatched (se_reconciler s) corr s0 plan"
    using stage_dispatched [OF remove_promises] rem unfolding propose_remove_def by blast
  then show ?thesis by (simp add: dispatched_def s' d promises_def float_desired_def)
qed

lemma unfloat_dispatched:
  assumes "unfloat s w r geometry obs corr caps = Some (Inr plan, s')"
  shows "dispatched (se_reconciler s) corr s' plan"
proof -
  obtain retained w' p wk flags behavior bounds suppress obs' where
    "propose_admit (unfloat_candidate s w retained) w' p wk flags behavior bounds suppress obs' corr caps = Some (Inr plan, s')"
    using assms by (auto simp: unfloat_def Let_def keep_accepted_Inr split: if_splits option.splits sum.splits)
  from admit_dispatched [OF this] show ?thesis by (simp add: unfloat_candidate_def)
qed

lemma command_dispatched:
  assumes "propose_command command obs corr caps s = Some (Inr plan, s')"
  shows "dispatched (se_reconciler s) corr s' plan"
proof (cases command)
  case (CmdAdmit w p wk flags behavior bounds suppress)
  then show ?thesis using assms by (simp add: propose_command_def admit_dispatched)
next
  case (CmdRemove w)
  then show ?thesis
    using assms stage_dispatched [OF remove_promises] by (auto simp: propose_command_def propose_remove_def)
next
  case (CmdToggleOrientation w)
  then show ?thesis
    using assms stage_dispatched [OF toggle_orientation_promises]
    by (auto simp: propose_command_def propose_toggle_orientation_def when_ready_def split: option.splits)
next
  case (CmdMoveToWorkspace w p wk follow)
  then show ?thesis using assms by (simp add: propose_command_def propose_move_to_workspace_def send_dispatched)
next
  case (CmdMoveToOutput w p wk follow)
  then show ?thesis using assms by (simp add: propose_command_def propose_move_to_output_def send_dispatched)
next
  case (CmdToggleFloat w geometry)
  then show ?thesis
    using assms by (auto simp: propose_command_def propose_toggle_float_def float_dispatched unfloat_dispatched
        split: option.splits)
qed

lemma propose_dispatched:
  assumes "session_propose command obs corr caps s = Some (Inr plan, s')"
  shows "dispatched (se_reconciler s) corr s' plan"
  using assms command_dispatched by (auto simp: session_propose_def split: option.splits if_splits)

subsection \<open>From acceptance to commit\<close>

definition matching_post :: "correlation_id \<Rightarrow> observation \<Rightarrow> session_plan \<Rightarrow> lifecycle_post" where
  "matching_post corr ob plan = \<lparr>po_observation = ob, po_correlation = corr, po_verified = True,
     po_preconditions = d_preconditions (pl_dispatch plan), po_operation = d_operation (pl_dispatch plan)\<rparr>"

lemma dispatched_commits:
  assumes "session_inv s" "session_propose command obs corr caps s = Some (Inr plan, s1)"
    and "ob_owner ob = se_owner s" "ob_generation ob = se_generation s" "ob_revision ob = accepted_revision s"
  obtains desired s2 s3 where "se_pending s1 = Some desired" "promises (se_domains s1) desired plan"
    "session_acknowledge (accepting_ack corr (se_reconciler s)) s1 = (Inr AppliedAccepted, s2)"
    "session_verify_lifecycle (matching_post corr ob plan) s2 =
      (Inr \<lparr>cm_revision = accepted_revision s + 1, cm_fingerprint = ob_fingerprint ob\<rparr>, s3)"
    "s3 = apply_desired True (ob_fingerprint ob) desired
      (s1\<lparr>se_reconciler := committed (ob_fingerprint ob) (se_reconciler s)\<rparr>)"
proof -
  let ?r = "se_reconciler s"
  let ?kind = "PendingLifecycle (d_preconditions (pl_dispatch plan)) (d_operation (pl_dispatch plan))"
  let ?post = "matching_post corr ob plan"
  have d: "dispatched ?r corr s1 plan" by (rule propose_dispatched [OF assms(2)])
  then obtain desired where des: "se_pending s1 = Some desired" "promises (se_domains s1) desired plan"
    and slot: "se_reconciler s1 = slot corr ?kind ?r" and corr: "is_correlation_id corr"
    and pre: "length (d_preconditions (pl_dispatch plan)) \<le> max_preconditions" and rev: "rc_revision ?r < max_revision"
    by (auto simp: dispatched_def)
  have idle: "session_divergence s = None" "se_pending s = None"
    using propose_ok(1) [OF assms(1,2)] by (simp_all add: transactional_def)
  then have ready: "ready ?r"
    using assms(1) rev by (simp add: ready_def session_inv_def bound_ok_def session_divergence_def)
  have "rc_owner ?r = se_owner s" "rc_generation ?r = se_generation s"
    using assms(1) by (simp_all add: session_inv_def bound_ok_def)
  then have obs: "observed ?r ob" using assms(3-5) by (simp add: observed_def accepted_revision_def)
  define s2 where "s2 = s1\<lparr>se_reconciler := acked_slot corr ?kind ?r\<rparr>"
  have ack: "session_acknowledge (accepting_ack corr ?r) s1 = (Inr AppliedAccepted, s2)"
    by (simp add: session_acknowledge_def slot acknowledge_slot [OF ready corr] s2_def)
  have "verify_lifecycle ?post (acked_slot corr ?kind ?r) =
      (Inr \<lparr>cm_revision = rc_revision ?r + 1, cm_fingerprint = ob_fingerprint ob\<rparr>, committed (ob_fingerprint ob) ?r)"
    unfolding verify_lifecycle_def
    using verify_with_slot [OF ready corr, of ?post "lifecycle_binds ?post" ?kind] obs pre
    by (simp add: matching_post_def)
  then have ver: "session_verify_lifecycle ?post s2 =
      (Inr \<lparr>cm_revision = accepted_revision s + 1, cm_fingerprint = ob_fingerprint ob\<rparr>,
       apply_desired True (ob_fingerprint ob) desired (s1\<lparr>se_reconciler := committed (ob_fingerprint ob) ?r\<rparr>))"
    by (simp add: session_verify_lifecycle_def session_verify_def s2_def des accepted_revision_def Let_def)
  from that [OF des ack ver refl] show thesis .
qed

text \<open>
  C5. An accepted lifecycle command keeps its promise. When the adapter accepts the dispatched plan and
  then reports a verified observation of the base revision that carries the plan's own operation and
  preconditions, the acknowledgement is applied and the verification commits: the revision advances by
  one, nothing stays staged, the session's snapshot is the plan's desired snapshot and its focus is the
  plan's desired focus.
\<close>

theorem accepted_command_commits:
  assumes "session_inv s" "session_propose command obs corr caps s = Some (Inr plan, s1)"
    and "ob_owner ob = se_owner s" "ob_generation ob = se_generation s" "ob_revision ob = accepted_revision s"
  shows "\<exists>s2 s3. session_acknowledge (accepting_ack corr (se_reconciler s)) s1 = (Inr AppliedAccepted, s2)
    \<and> session_verify_lifecycle (matching_post corr ob plan) s2 =
      (Inr \<lparr>cm_revision = accepted_revision s + 1, cm_fingerprint = ob_fingerprint ob\<rparr>, s3)
    \<and> snapshot_for (se_domains s3) (se_trees s3) (se_windows s3) = pl_snapshot plan
    \<and> se_focused_domain s3 = pl_focus_domain plan \<and> se_focused_leaf s3 = pl_focus_leaf plan
    \<and> accepted_revision s3 = accepted_revision s + 1 \<and> se_pending s3 = None"
  using assms
proof (rule dispatched_commits)
  fix desired s2 s3
  assume run: "promises (se_domains s1) desired plan"
    "session_acknowledge (accepting_ack corr (se_reconciler s)) s1 = (Inr AppliedAccepted, s2)"
    "session_verify_lifecycle (matching_post corr ob plan) s2 =
      (Inr \<lparr>cm_revision = accepted_revision s + 1, cm_fingerprint = ob_fingerprint ob\<rparr>, s3)"
    and s3: "s3 = apply_desired True (ob_fingerprint ob) desired
      (s1\<lparr>se_reconciler := committed (ob_fingerprint ob) (se_reconciler s)\<rparr>)"
  have "se_trees s3 = pe_trees desired" "se_windows s3 = pe_windows desired" "se_domains s3 = se_domains s1"
    "se_focused_domain s3 = pe_focused_domain desired" "se_focused_leaf s3 = pe_focused_leaf desired"
    "accepted_revision s3 = accepted_revision s + 1" "se_pending s3 = None"
    by (simp_all add: s3 apply_desired_def prune_fixed_size_state_def accepted_revision_def committed_def)
  with run show ?thesis by (auto simp: promises_def)
qed

end
