(* ===== verification/Session_Examples.thy ===== *)
theory Session_Examples
  imports Session_Machine Session_Commitment
begin

text \<open>
  A small accepted session, two tiled windows and one floating window on the first of two domains, on
  which the session's properties are exercised.
\<close>

definition example_domain :: "output_id \<Rightarrow> output_domain" where
  "example_domain p = \<lparr>od_id = p, od_workspace = ''1'', od_bounds = \<lparr>rx = 0, ry = 0, rw = 1000, rh = 600\<rparr>,
     od_gap = 8, od_adjacent = (\<lambda>_. None)\<rparr>"

definition key_a :: domain_key where "key_a = DomainKey ''A'' ''1''"
definition key_b :: domain_key where "key_b = DomainKey ''B'' ''1''"
definition key_c :: domain_key where "key_c = DomainKey ''C'' ''1''"

definition example_link :: "window_id \<Rightarrow> node_id \<Rightarrow> window_link" where
  "example_link w l = \<lparr>link_window = w, link_leaf = l, link_output = ''A'', link_workspace = ''1''\<rparr>"

definition example_session :: session where
  "example_session = \<lparr>se_policy = cosmic_v1_policy, se_owner = ''owner-1'', se_generation = ''gen-1'',
     se_fingerprint = 0, se_domains = [example_domain ''A'', example_domain ''B''],
     se_trees = [(key_a, Some (Group ''g'' Horizontal [Leaf ''l1'', Leaf ''l2''] [1, 1])), (key_b, None)],
     se_windows = [(''w1'', example_link ''w1'' ''l1''), (''w2'', example_link ''w2'' ''l2'')],
     se_focused_domain = Some key_a, se_focused_leaf = Some ''l2'',
     se_focus_stack = [(key_a, [''l1'', ''l2''])], se_last_active = [(key_a, ''l2'')],
     se_exceptions = [(''f'', \<lparr>ex_window = ''f'', ex_output = ''A'', ex_workspace = ''1'',
       ex_flags = floating_only, ex_geometry = None\<rparr>)],
     se_retained = [], se_fixed_admission = False, se_fixed_predicate = BothAxes, se_focus_fence = False,
     se_automatic_fixed = {}, se_tile_override = {}, se_pair_restore = [],
     se_reconciler = example_reconciler, se_pending = None, se_drag = None, se_last_send = None\<rparr>"

lemmas map_eval = om_get_def om_contains_def om_keys_def om_values_def tree_at_def

lemmas topology_eval = map_eval domain_key_of_def domain_validate_def range_defs List.map_filter_def adjacent_values_def link_key_def homed_def
  leaf_linked_def collect_leaves_def domain_for_def key_a_def key_b_def key_c_def example_domain_def example_link_def

lemma example_pair_wf: "wf_node (Group ''g'' Horizontal [Leaf ''l1'', Leaf ''l2''] [1, 1])"
  by (simp add: wf_node_def group_ok_def u64_max_def)

lemma example_valid: "validate_current_topology example_session"
  unfolding validate_current_topology_def validate_topology_def validate_shares_wf
  using example_pair_wf
  by (simp add: example_session_def topology_eval)

theorem validate_topology_exact_witness: "links_ok (se_trees example_session) (se_windows example_session)"
proof -
  have "om_ok (se_trees example_session)" "om_ok (se_windows example_session)" "om_ok (se_exceptions example_session)"
    by (simp_all add: om_ok_def om_keys_def example_session_def key_a_def key_b_def less_domain_key_def)
  from validate_topology_exact [OF this] example_valid show ?thesis
    unfolding validate_current_topology_def by blast
qed

lemma example_stack: "stack_ok (se_focus_stack example_session) (se_trees example_session) (se_windows example_session)"
proof -
  have "focus_resolves (Some key_a) (Some ''l1'') (se_trees example_session) (se_windows example_session)"
    "focus_resolves (Some key_a) (Some ''l2'') (se_trees example_session) (se_windows example_session)"
    by (simp_all add: focus_resolves_def example_session_def topology_eval)
  then show ?thesis
    by (auto simp: stack_ok_def example_session_def om_ok_def om_keys_def om_get_def)
qed

lemma example_inv: "session_inv example_session"
proof -
  have maps: "om_ok (se_trees example_session)" "om_ok (se_windows example_session)"
    "om_ok (se_exceptions example_session)"
    by (simp_all add: om_ok_def om_keys_def example_session_def key_a_def key_b_def less_domain_key_def)
  have "world_ok (se_domains example_session) (se_trees example_session) (se_windows example_session)
      (se_exceptions example_session) (se_focused_domain example_session) (se_focused_leaf example_session)"
    using example_valid unfolding validate_current_topology_def
    by (rule validated_world [OF _ maps])
      (auto simp: example_session_def om_get_def example_link_def split: if_splits)
  then have "current_ok example_session"
    using example_stack by (simp add: current_ok_def active_ok_def)
      (simp add: example_session_def om_ok_def om_keys_def om_contains_def om_get_def)
  moreover have "bound_ok example_session"
    using reachable_inv [OF example_reachable] by (simp add: bound_ok_def example_session_def example_reconciler_def)
  ultimately show ?thesis by (simp add: session_inv_def) (simp add: example_session_def)
qed

definition example_entry :: "window_id \<Rightarrow> bool \<Rightarrow> observed_window" where
  "example_entry w floating = \<lparr>ow_window = w, ow_output = ''A'', ow_workspace = ''1'', ow_floating = floating,
     ow_fullscreen = False, ow_maximized = False, ow_sticky = False, ow_fixed_auto = False,
     ow_fixed_suppress = False, ow_hints = hints_none\<rparr>"

definition example_seen :: session_observation where
  "example_seen = \<lparr>so_observation = example_observation,
     so_windows = [example_entry ''w1'' False, example_entry ''w2'' False, example_entry ''f'' True]\<rparr>"

definition accepts :: "((session_error + 'a) \<times> session) option \<Rightarrow> bool" where
  "accepts x = (case x of Some (Inr a, s) \<Rightarrow> True | _ \<Rightarrow> False)"

lemma example_relocate: "relocate_domain example_session key_a key_c \<lparr>rx = 0, ry = 0, rw = 500, rh = 600\<rparr> 4
    = (True, relocated example_session key_a key_c 0 \<lparr>rx = 0, ry = 0, rw = 500, rh = 600\<rparr> 4)"
proof -
  have "validate_current_topology (relocated example_session key_a key_c 0 \<lparr>rx = 0, ry = 0, rw = 500, rh = 600\<rparr> 4)"
    unfolding validate_current_topology_def validate_topology_def validate_shares_wf
    using example_pair_wf
    by (simp add: relocated_def rekey_def om_remove_def om_map_values_def rehome_link_def rehome_record_def
        example_session_def topology_eval)
  moreover have "session_divergence example_session = None" "\<not> has_pending example_session"
    by (simp_all add: session_divergence_def has_pending_def status_def example_session_def example_reconciler_def)
  ultimately show ?thesis
    using example_valid unfolding relocate_iff
    by (simp add: example_session_def topology_eval)
qed

theorem relocation_reversible_witness:
  "relocate_domain (relocated example_session key_a key_c 0 \<lparr>rx = 0, ry = 0, rw = 500, rh = 600\<rparr> 4) key_c key_a
     \<lparr>rx = 0, ry = 0, rw = 1000, rh = 600\<rparr> 8 = (True, example_session)"
  using relocation_reversible [OF example_inv example_relocate, of "example_domain ''A''"]
  by (simp add: example_session_def example_domain_def domain_key_of_def key_a_def)

subsection \<open>Staging and committing\<close>

lemma lifecycle_accepts:
  assumes "ready r" "observed r ob" "is_correlation_id corr" "lifecycle_supports caps (lifecycle_required_capability op)"
  shows "\<exists>d. propose_lifecycle (lifecycle_for_operation intent op) ob corr caps r =
    (Inr d, slot corr (PendingLifecycle (lifecycle_preconditions op) op) r)"
proof -
  have checks: "first_reason (lifecycle_checks (lifecycle_for_operation intent op) caps) = None"
    using assms(4) by (simp add: lifecycle_checks_def lifecycle_for_operation_def valid_policy_def
        lifecycle_preconditions_def max_preconditions_def)
  show ?thesis
    unfolding propose_lifecycle_def propose_with_accepts [OF assms(1-3) checks]
    by (simp add: lifecycle_for_operation_def)
qed

lemma example_reconciled [simp]: "se_reconciler example_session = example_reconciler" "se_pending example_session = None"
  "se_drag example_session = None"
  by (simp_all add: example_session_def)

lemma stage_example:
  "\<exists>d. stage (\<lambda>plan. propose_lifecycle plan example_observation ''corr-1'' lifecycle_full)
      (Inr (lifecycle_for_operation intent op, desired, answer)) s =
    (Inr (answer d), s\<lparr>se_reconciler := slot ''corr-1'' (PendingLifecycle (lifecycle_preconditions op) op) example_reconciler,
       se_pending := Some desired\<rparr>)"
  if "se_reconciler s = example_reconciler"
proof -
  have "lifecycle_supports lifecycle_full (lifecycle_required_capability op)"
    by (cases op) (simp_all add: lifecycle_full_def)
  from lifecycle_accepts [OF example_ready example_observed token_examples(3) this, of intent]
  obtain d where "propose_lifecycle (lifecycle_for_operation intent op) example_observation ''corr-1'' lifecycle_full
      example_reconciler = (Inr d, slot ''corr-1'' (PendingLifecycle (lifecycle_preconditions op) op) example_reconciler)"
    by blast
  then show ?thesis by (intro exI [of _ d]) (simp add: stage_def stage_plan_def that)
qed

lemmas observation_eval = observed_ids_def known_ids_def observed_known_match_def observed_by_id_def
  om_from_list_def om_empty_def link_matches_def record_matches_def flags_any_def ow_flags_def floating_only_def
  observed_entry_def map_eval

lemma example_remove:
  "\<exists>r. remove_decision example_session ''f'' example_seen = remove_deferred example_session ''f'' r"
  by (auto simp: remove_decision_def example_session_def example_seen_def example_entry_def example_link_def
      observation_eval)

lemma example_idle: "ready_error example_session = None"
  by (simp add: ready_error_def session_divergence_def has_pending_def status_def example_reconciler_def)

lemma example_float_gone: "\<exists>plan s'. session_propose (CmdRemove ''f'') example_seen ''corr-1'' lifecycle_full example_session
    = Some (Inr plan, s')"
proof -
  obtain r where "remove_decision example_session ''f'' example_seen = remove_deferred example_session ''f'' r"
    using example_remove by blast
  moreover obtain desired answer where "remove_deferred example_session ''f'' r =
      Inr (lifecycle_for_operation (IntentRemove ''f'') (OpRemoveDeferred ''f'' (ex_output r) (ex_workspace r)), desired, answer)"
    unfolding remove_deferred_def Let_def prod.case_eq_if by blast
  moreover have "so_observation example_seen = example_observation" by (simp add: example_seen_def)
  ultimately have "\<exists>plan s'. propose_remove example_session ''f'' example_seen ''corr-1'' lifecycle_full = (Inr plan, s')"
    using stage_example [OF example_reconciled(1)] unfolding propose_remove_def by metis
  moreover have "valid_observed_shapes (so_windows example_seen)" "all_homed example_session (so_windows example_seen)"
    by (simp_all add: valid_observed_shapes_def example_seen_def example_entry_def all_homed_def example_session_def
        topology_eval)
  ultimately show ?thesis
    using example_valid example_idle
    by (simp add: session_propose_def propose_command_def check_domains_def)
qed

theorem accepted_command_commits_witness:
  "\<exists>plan s1 s2 s3. session_propose (CmdRemove ''f'') example_seen ''corr-1'' lifecycle_full example_session
      = Some (Inr plan, s1)
    \<and> session_acknowledge (accepting_ack ''corr-1'' example_reconciler) s1 = (Inr AppliedAccepted, s2)
    \<and> fst (session_verify_lifecycle (matching_post ''corr-1'' example_observation plan) s2) =
      Inr \<lparr>cm_revision = 8, cm_fingerprint = 9\<rparr>
    \<and> s3 = snd (session_verify_lifecycle (matching_post ''corr-1'' example_observation plan) s2)
    \<and> snapshot_for (se_domains s3) (se_trees s3) (se_windows s3) = pl_snapshot plan"
proof -
  obtain plan s1 where p: "session_propose (CmdRemove ''f'') example_seen ''corr-1'' lifecycle_full example_session
      = Some (Inr plan, s1)" using example_float_gone by blast
  from accepted_command_commits [OF example_inv p, of example_observation] p show ?thesis
    by (fastforce simp: example_session_def example_observation_def example_reconciler_def accepted_revision_def)
qed

theorem verification_commits_staged_witness:
  "\<exists>plan s1 s2 s3 d. session_propose (CmdRemove ''f'') example_seen ''corr-1'' lifecycle_full example_session
      = Some (Inr plan, s1)
    \<and> session_acknowledge (accepting_ack ''corr-1'' example_reconciler) s1 = (Inr AppliedAccepted, s2)
    \<and> session_verify_lifecycle (matching_post ''corr-1'' example_observation plan) s2 =
      (Inr \<lparr>cm_revision = 8, cm_fingerprint = 9\<rparr>, s3)
    \<and> se_pending s2 = Some d \<and> commits_staged s2 d \<lparr>cm_revision = 8, cm_fingerprint = 9\<rparr> s3"
proof -
  obtain plan s1 where p: "session_propose (CmdRemove ''f'') example_seen ''corr-1'' lifecycle_full example_session
      = Some (Inr plan, s1)" using example_float_gone by blast
  have base: "ob_owner example_observation = se_owner example_session"
    "ob_generation example_observation = se_generation example_session"
    "ob_revision example_observation = accepted_revision example_session"
    by (simp_all add: example_session_def example_observation_def example_reconciler_def accepted_revision_def)
  obtain s2 s3 where run: "session_acknowledge (accepting_ack ''corr-1'' example_reconciler) s1 = (Inr AppliedAccepted, s2)"
      "session_verify_lifecycle (matching_post ''corr-1'' example_observation plan) s2 =
        (Inr \<lparr>cm_revision = 8, cm_fingerprint = 9\<rparr>, s3)"
    using dispatched_commits [OF example_inv p base]
    by (simp add: example_observation_def example_reconciler_def accepted_revision_def) metis
  have "session_inv s2"
    using session_acknowledge_inv [OF propose_inv [OF example_inv p], of "accepting_ack ''corr-1'' example_reconciler"] run(1)
    by simp
  from verification_commits_staged [OF this, of "Inr \<lparr>cm_revision = 8, cm_fingerprint = 9\<rparr>" s3
      "matching_post ''corr-1'' example_observation plan"] p run show ?thesis by auto
qed

theorem proposals_are_transactional_witness:
  "\<exists>plan s'. session_propose (CmdRemove ''f'') example_seen ''corr-1'' lifecycle_full example_session
      = Some (Inr plan, s')
    \<and> transactional example_session (Inr plan, s') \<and> keeps_world example_session s'"
proof -
  obtain plan s' where p: "session_propose (CmdRemove ''f'') example_seen ''corr-1'' lifecycle_full example_session
      = Some (Inr plan, s')" using example_float_gone by blast
  from proposals_are_transactional [OF example_inv p] p show ?thesis by (simp add: unfloats_def)
qed

theorem proposals_return_witness:
  "\<exists>res s'. session_propose (CmdAdmit ''n'' ''A'' ''1'' flags_none None \<lparr>rx = 0, ry = 0, rw = 10, rh = 10\<rparr> False)
     example_seen ''corr-1'' lifecycle_full example_session = Some (res, s')"
proof (rule proposals_return)
  have "all_node_ids (se_trees example_session) = {''g'', ''l1'', ''l2''}"
    by (auto simp: all_node_ids_def example_session_def om_values_def)
  then show "card (all_node_ids (se_trees example_session)) + 2 < 2 ^ 32" by simp
qed

subsection \<open>A new session\<close>

definition example_new :: session where
  "example_new = example_session\<lparr>se_trees := [(key_a, None), (key_b, None)], se_windows := [],
     se_focused_domain := None, se_focused_leaf := None, se_focus_stack := [], se_last_active := [],
     se_exceptions := []\<rparr>"

lemma example_created: "new_with_policy ''owner-1'' ''gen-1'' 7 0 [example_domain ''A'', example_domain ''B'']
    cosmic_v1_policy = Inr example_new"
proof -
  have "reconciler_new ''owner-1'' ''gen-1'' 7 0 = Inr example_reconciler"
    by (simp add: reconciler_new_def token_examples is_revision_def max_revision_def example_reconciler_def)
  moreover have "is_revision 7" by (simp add: is_revision_def max_revision_def)
  moreover have "validate_adjacency [example_domain ''A'', example_domain ''B'']"
    by (simp add: validate_adjacency_def example_domain_def adjacent_values_def list_all_iff)
  ultimately show ?thesis
    by (simp add: new_with_policy_def token_examples topology_eval example_new_def example_session_def om_from_list_def
        om_empty_def less_domain_key_def)
qed

theorem reachable_sessions_ok_witness:
  "\<exists>res s'. session_propose (CmdAdmit ''n'' ''A'' ''1'' flags_none None \<lparr>rx = 0, ry = 0, rw = 10, rh = 10\<rparr> False)
     example_seen ''corr-1'' lifecycle_full example_new = Some (res, s') \<and> validate_current_topology s'"
proof -
  have "card (all_node_ids (se_trees example_new)) + 2 < 2 ^ 32"
    by (simp add: all_node_ids_def example_new_def om_values_def)
  then obtain res s' where p: "session_propose (CmdAdmit ''n'' ''A'' ''1'' flags_none None
      \<lparr>rx = 0, ry = 0, rw = 10, rh = 10\<rparr> False) example_seen ''corr-1'' lifecycle_full example_new = Some (res, s')"
    using propose_returns by (metis surj_pair)
  with reachable_sessions_ok [OF session_reachable.step [OF session_reachable.start [OF example_created]
        session_step.propose [OF p]]]
  show ?thesis by blast
qed

subsection \<open>Tiling a floating window\<close>

definition floating_session :: session where
  "floating_session = example_new\<lparr>se_exceptions := se_exceptions example_session\<rparr>"

definition floating_seen :: session_observation where
  "floating_seen = \<lparr>so_observation = example_observation, so_windows = [example_entry ''f'' True]\<rparr>"

lemma floating_inv: "session_inv floating_session"
proof -
  have "session_inv example_new" by (rule session_new_inv [OF example_created])
  moreover have "bound_ok (example_new\<lparr>se_exceptions := se_exceptions example_session\<rparr>) = bound_ok example_new"
    by (simp add: bound_ok_def)
  moreover have "topology_ok (se_domains example_new) (se_trees example_new) (se_windows example_new)
      (se_exceptions example_session) None None"
    if "topology_ok (se_domains example_new) (se_trees example_new) (se_windows example_new)
      (se_exceptions example_new) None None"
    using that unfolding topology_ok_def
    by (auto simp: example_new_def example_session_def om_contains_def om_get_def exception_ok_def domain_for_def
        example_domain_def domain_key_of_def flags_any_def floating_only_def split: if_splits)
  ultimately show ?thesis
    unfolding session_inv_def current_ok_def world_ok_def
    by (auto simp: floating_session_def)
      (auto simp: example_new_def example_session_def om_get_def om_ok_def om_keys_def split: if_splits)
qed

lemma floating_idle: "ready_error floating_session = None"
  by (simp add: ready_error_def session_divergence_def has_pending_def status_def example_reconciler_def
      floating_session_def example_new_def)

definition floating_target :: session where
  "floating_target = unfloat_candidate floating_session ''f'' None"

definition floating_clear :: session_observation where
  "floating_clear = floating_seen\<lparr>so_windows := clear_floating ''f'' (so_windows floating_seen)\<rparr>"

lemmas floating_eval = observation_eval topology_eval example_new_def example_session_def floating_session_def
  floating_seen_def floating_target_def floating_clear_def example_entry_def unfloat_candidate_def om_remove_def

lemma floating_valid: "validate_topology (se_domains floating_target) [(key_a, Some (Leaf ''leaf-f'')), (key_b, None)]
    [(''f'', example_link ''f'' ''leaf-f'')] [] (Some key_a) (Some ''leaf-f'')"
  unfolding validate_topology_def validate_shares_wf
  by (simp add: floating_eval wf_node_def group_ok_def)

lemma floating_geometry: "\<exists>g gs. project_output_geometry (Some (example_domain ''A'')) (Some (Leaf ''leaf-f''))
    [(''f'', example_link ''f'' ''leaf-f'')] key_a (hints_from_observed (so_windows floating_clear)) = Some (g # gs)"
  by (simp add: project_output_geometry_def project_with_hints_def project_def valid_rect_def
      leaf_windows_def floating_eval hints_from_observed_def Let_def)

lemma floating_admits: "\<exists>plan s'. propose_admit floating_target ''f'' ''A'' ''1'' flags_none None bounds True
    floating_clear ''corr-1'' lifecycle_full = Some (Inr plan, s')"
  if "valid_rect_shape bounds"
proof -
  let ?key = "DomainKey ''A'' ''1''"
  obtain g gs where geometry: "project_output_geometry (Some (example_domain ''A'')) (Some (Leaf ''leaf-f''))
      [(''f'', example_link ''f'' ''leaf-f'')] key_a (hints_from_observed (so_windows floating_clear)) = Some (g # gs)"
    using floating_geometry by blast
  have "\<exists>desired answer. admit_tiled_at floating_target ''f'' ?key ''leaf-f'' (Some (Leaf ''leaf-f'')) True
      (so_windows floating_clear) = Inr (lifecycle_for_operation (IntentAdmit ''f'' ''A'' ''1'')
        (OpAdmit ''f'' ''leaf-f'' ''A'' ''1''), desired, answer)"
    using geometry floating_valid unfolding admit_tiled_at_def Let_def
    by (simp add: floating_eval)
  then obtain desired answer where dec: "admit_tiled_at floating_target ''f'' ?key ''leaf-f'' (Some (Leaf ''leaf-f'')) True
      (so_windows floating_clear) = Inr (lifecycle_for_operation (IntentAdmit ''f'' ''A'' ''1'')
        (OpAdmit ''f'' ''leaf-f'' ''A'' ''1''), desired, answer)" by blast
  have "generate_leaf_id ''f'' (all_node_ids (se_trees floating_target)) = Some ''leaf-f''"
    "tree_at (se_trees floating_target) ?key = None"
    by (simp_all add: generate_leaf_id_def all_node_ids_def om_values_def floating_eval)
  then have "admit_tiled floating_target ''f'' ''A'' ''1'' bounds True floating_clear =
      Some (admit_tiled_at floating_target ''f'' ?key ''leaf-f'' (Some (Leaf ''leaf-f'')) True (so_windows floating_clear))"
    by (simp add: admit_tiled_def insert_tiled_def)
  moreover have decision: "admit_decision floating_target ''f'' ''A'' ''1'' flags_none None bounds True floating_clear =
      admit_tiled floating_target ''f'' ''A'' ''1'' bounds True floating_clear"
    using that by (simp add: admit_decision_def floating_eval flags_none_def)
  moreover have "so_observation floating_clear = example_observation" "se_reconciler floating_target = example_reconciler"
    by (simp_all add: floating_eval)
  ultimately have "propose_admit floating_target ''f'' ''A'' ''1'' flags_none None bounds True floating_clear ''corr-1''
      lifecycle_full = Some (stage (\<lambda>plan. propose_lifecycle plan example_observation ''corr-1'' lifecycle_full)
        (Inr (lifecycle_for_operation (IntentAdmit ''f'' ''A'' ''1'') (OpAdmit ''f'' ''leaf-f'' ''A'' ''1''),
          desired, answer)) floating_target)"
    by (simp add: propose_admit_def dec)
  with stage_example [OF \<open>se_reconciler floating_target = example_reconciler\<close>,
      of "IntentAdmit ''f'' ''A'' ''1''" "OpAdmit ''f'' ''leaf-f'' ''A'' ''1''" desired answer]
  show ?thesis by auto
qed

lemma floating_accepted: "\<exists>plan s'. session_propose (CmdToggleFloat ''f'' None) floating_seen ''corr-1'' lifecycle_full
    floating_session = Some (Inr plan, s')"
proof -
  have "validate_current_topology floating_session"
    using validate_current_ok [OF floating_inv] .
  moreover have "check_domains floating_session (CmdToggleFloat ''f'' None) (so_windows floating_seen) = None"
    "valid_observed_shapes (so_windows floating_seen)"
    by (simp_all add: check_domains_def all_homed_def valid_observed_shapes_def floating_eval)
  moreover have "seed_target_bounds floating_target (example_domain ''A'') = od_bounds (example_domain ''A'')"
    by (simp add: seed_target_bounds_def admission_placement_for_def Let_def split: option.split)
      (simp add: floating_eval)
  then have "valid_rect_shape (seed_target_bounds floating_target (example_domain ''A''))"
    by (simp add: valid_rect_shape_def floating_eval)
  from floating_admits [OF this] obtain plan s' where adm: "propose_admit floating_target ''f'' ''A'' ''1'' flags_none None
      (seed_target_bounds floating_target (example_domain ''A'')) True floating_clear ''corr-1'' lifecycle_full
      = Some (Inr plan, s')" by blast
  let ?r = "\<lparr>ex_window = ''f'', ex_output = ''A'', ex_workspace = ''1'', ex_flags = floating_only, ex_geometry = None\<rparr>"
  have floating: "om_get (se_exceptions floating_session) ''f'' = Some ?r"
    by (simp add: floating_eval)
  have entry: "observed_entry ''f'' (so_windows floating_seen) = Some (example_entry ''f'' True)"
    "record_matches (se_fixed_admission floating_session) ?r (example_entry ''f'' True)"
    "unfloat_geometry floating_session ''f'' ?r None = Inr None"
    by (simp_all add: unfloat_geometry_def floating_eval)
  have home: "domain_for (se_domains floating_target) (ow_output (example_entry ''f'' True))
      (ow_workspace (example_entry ''f'' True)) = Some (example_domain ''A'')"
    by (simp add: floating_eval)
  have "unfloat floating_session ''f'' ?r None floating_seen ''corr-1'' lifecycle_full = Some (Inr plan, s')"
    using adm home unfolding unfloat_def floating_target_def floating_clear_def
    by (simp add: entry keep_accepted_def Let_def) (simp add: example_entry_def)
  moreover note floating
  ultimately show ?thesis
    using floating_idle by (simp add: session_propose_def propose_command_def propose_toggle_float_def)
qed

theorem unfloat_bypasses_transaction_witness:
  "\<exists>plan s'. session_propose (CmdToggleFloat ''f'' None) floating_seen ''corr-1'' lifecycle_full floating_session
      = Some (Inr plan, s')
    \<and> \<not> known_window (se_windows s') (se_exceptions s') ''f''
    \<and> known_window (se_windows floating_session) (se_exceptions floating_session) ''f''"
proof -
  obtain plan s' where p: "session_propose (CmdToggleFloat ''f'' None) floating_seen ''corr-1'' lifecycle_full
      floating_session = Some (Inr plan, s')" using floating_accepted by blast
  have known: "om_contains (se_exceptions floating_session) ''f''"
    by (simp add: floating_session_def example_session_def om_contains_def om_get_def)
  from unfloat_bypasses_transaction [OF floating_inv known floating_idle p] p known show ?thesis
    by (simp add: known_window_def)
qed

end
