(* ===== verification/Session_Focus_Examples.thy ===== *)
theory Session_Focus_Examples
  imports Session_Focus Session_Examples
begin

text \<open>
  Two adjacent domains, the first with two windows side by side and focused on the right one, the
  second with one window: focus goes left within the first domain and right to the second.
\<close>

definition left_domain :: output_domain where
  "left_domain = (example_domain ''A'')\<lparr>od_adjacent := (\<lambda>d. if d = Right then Some ''B'' else None)\<rparr>"

definition right_domain :: output_domain where
  "right_domain = (example_domain ''B'')\<lparr>od_adjacent := (\<lambda>d. if d = Left then Some ''A'' else None)\<rparr>"

definition link_b :: window_link where
  "link_b = \<lparr>link_window = ''w3'', link_leaf = ''l3'', link_output = ''B'', link_workspace = ''1''\<rparr>"

definition adjacent_session :: session where
  "adjacent_session = example_session\<lparr>se_domains := [left_domain, right_domain],
     se_trees := [(key_a, Some (Group ''g'' Horizontal [Leaf ''l1'', Leaf ''l2''] [1, 1])), (key_b, Some (Leaf ''l3''))],
     se_windows := [(''w1'', example_link ''w1'' ''l1''), (''w2'', example_link ''w2'' ''l2''), (''w3'', link_b)],
     se_exceptions := [], se_last_active := [(key_a, ''l2''), (key_b, ''l3'')]\<rparr>"

definition adjacent_seen :: session_observation where
  "adjacent_seen = \<lparr>so_observation = example_observation,
     so_windows = [example_entry ''w1'' False, example_entry ''w2'' False,
       (example_entry ''w3'' False)\<lparr>ow_output := ''B''\<rparr>]\<rparr>"

lemmas adjacent_eval = observation_eval topology_eval example_session_def adjacent_session_def adjacent_seen_def
  left_domain_def right_domain_def link_b_def example_entry_def

lemma adjacent_valid: "validate_current_topology adjacent_session"
  unfolding validate_current_topology_def validate_topology_def validate_shares_wf
  using example_pair_wf
  by (simp add: adjacent_eval wf_node_def group_ok_def all_directions_def)

lemma adjacent_inv: "session_inv adjacent_session"
proof -
  have maps: "om_ok (se_trees adjacent_session)" "om_ok (se_windows adjacent_session)"
    "om_ok (se_exceptions adjacent_session)"
    by (simp_all add: om_ok_def om_keys_def adjacent_session_def key_a_def key_b_def less_domain_key_def)
  have "world_ok (se_domains adjacent_session) (se_trees adjacent_session) (se_windows adjacent_session)
      (se_exceptions adjacent_session) (se_focused_domain adjacent_session) (se_focused_leaf adjacent_session)"
    using adjacent_valid unfolding validate_current_topology_def
    by (rule validated_world [OF _ maps])
      (auto simp: adjacent_session_def om_get_def example_link_def link_b_def split: if_splits)
  moreover have "focus_resolves (Some key_a) (Some ''l1'') (se_trees adjacent_session) (se_windows adjacent_session)"
    "focus_resolves (Some key_a) (Some ''l2'') (se_trees adjacent_session) (se_windows adjacent_session)"
    by (simp_all add: focus_resolves_def adjacent_eval)
  then have "stack_ok (se_focus_stack adjacent_session) (se_trees adjacent_session) (se_windows adjacent_session)"
    by (auto simp: stack_ok_def adjacent_session_def example_session_def om_ok_def om_keys_def om_get_def)
  ultimately have "current_ok adjacent_session"
    by (simp add: current_ok_def active_ok_def)
      (simp add: adjacent_session_def example_session_def om_ok_def om_keys_def om_contains_def om_get_def
        key_a_def key_b_def less_domain_key_def)
  moreover have "bound_ok adjacent_session"
    using example_inv by (simp add: session_inv_def bound_ok_def adjacent_session_def)
  ultimately show ?thesis by (simp add: session_inv_def) (simp add: adjacent_session_def example_session_def)
qed

lemma adjacent_idle: "ready_error adjacent_session = None"
  by (simp add: ready_error_def session_divergence_def has_pending_def status_def adjacent_session_def)
    (simp add: example_reconciler_def)

lemma adjacent_guard: "directed_guard adjacent_session key_a ''w2'' adjacent_seen = None"
proof -
  have "all_homed adjacent_session (so_windows adjacent_seen)" "valid_observed_shapes (so_windows adjacent_seen)"
    by (simp_all add: all_homed_def valid_observed_shapes_def adjacent_eval)
  then show ?thesis
    using adjacent_valid unfolding directed_guard_def
    by (simp add: known_window_def adjacent_eval) 
qed

lemma adjacent_focus: "tiled_focus False adjacent_session key_a ''w2'' = Inr ''l2''"
  "\<not> focus_fenced adjacent_session w ws"
  "tree_at (se_trees adjacent_session) key_a = Some (Group ''g'' Horizontal [Leaf ''l1'', Leaf ''l2''] [1, 1])"
  by (simp_all add: tiled_focus_def focus_fenced_def focused_window_for_def adjacent_eval)

lemma adjacent_plans:
  "plan_focus (Group ''g'' Horizontal [Leaf ''l1'', Leaf ''l2''] [Suc 0, Suc 0]) ''l2'' Left = Some (Focused ''l1'' [''l1''])"
  "plan_focus (Group ''g'' Horizontal [Leaf ''l1'', Leaf ''l2''] [Suc 0, Suc 0]) ''l2'' Right = Some Edge"
  using example_pair_wf by (simp_all add: plan_focus_eq)
    (simp_all add: path_to_def child_at_def descend_focus_target_def)

lemma observed_unhinted:
  assumes "\<forall>e \<in> set ws. ow_hints e = hints_none"
  shows "unhinted (resolve_hints linked (hints_from_observed ws))"
proof -
  have hint: "om_get (hints_from_observed ws) w = Some h \<Longrightarrow> h = hints_none" for w h
    using assms by (auto simp: hints_from_observed_def om_get_from_list dest!: map_of_SomeD)
  have "resolve_hints linked (hints_from_observed ws) i = hints_none" for i
    by (auto simp: resolve_hints_def bind_eq_Some_conv split: option.split dest: hint)
  then show ?thesis by (simp add: unhinted_def) (simp add: hints_none_def meaningful_def)
qed

lemma adjacent_geometry:
  "project_output_geometry (Some left_domain) (tree_at (se_trees adjacent_session) key_a) (se_windows adjacent_session)
     key_a (hints_from_observed (so_windows adjacent_seen)) =
   Some [\<lparr>dg_window = ''w1'', dg_leaf = ''l1'', dg_output = ''A'', dg_workspace = ''1'',
       dg_rect = \<lparr>rx = 0, ry = 0, rw = 496, rh = 600\<rparr>, dg_overconstrained = False, dg_clamped = False\<rparr>,
     \<lparr>dg_window = ''w2'', dg_leaf = ''l2'', dg_output = ''A'', dg_workspace = ''1'',
       dg_rect = \<lparr>rx = 504, ry = 0, rw = 496, rh = 600\<rparr>, dg_overconstrained = False, dg_clamped = False\<rparr>]"
  "project_output_geometry (Some right_domain) (tree_at (se_trees adjacent_session) key_b) (se_windows adjacent_session)
     key_b (hints_from_observed (so_windows adjacent_seen)) =
   Some [\<lparr>dg_window = ''w3'', dg_leaf = ''l3'', dg_output = ''B'', dg_workspace = ''1'',
       dg_rect = \<lparr>rx = 0, ry = 0, rw = 1000, rh = 600\<rparr>, dg_overconstrained = False, dg_clamped = False\<rparr>]"
proof -
  have "\<forall>e \<in> set (so_windows adjacent_seen). ow_hints e = hints_none"
    by (simp add: adjacent_seen_def example_entry_def)
  note plain = unhinted_plain [OF observed_unhinted [OF this]]
  have b: "rect_i32 (od_bounds left_domain)" "rect_i32 (od_bounds right_domain)"
    by (simp_all add: left_domain_def right_domain_def example_domain_def rect_i32_def in_i32_def)
  have trees: "tree_at (se_trees adjacent_session) key_a = Some (Group ''g'' Horizontal [Leaf ''l1'', Leaf ''l2''] [1, 1])"
    "tree_at (se_trees adjacent_session) key_b = Some (Leaf ''l3'')"
    by (simp_all add: adjacent_eval)
  show "project_output_geometry (Some left_domain) (tree_at (se_trees adjacent_session) key_a) (se_windows adjacent_session)
     key_a (hints_from_observed (so_windows adjacent_seen)) =
   Some [\<lparr>dg_window = ''w1'', dg_leaf = ''l1'', dg_output = ''A'', dg_workspace = ''1'',
       dg_rect = \<lparr>rx = 0, ry = 0, rw = 496, rh = 600\<rparr>, dg_overconstrained = False, dg_clamped = False\<rparr>,
     \<lparr>dg_window = ''w2'', dg_leaf = ''l2'', dg_output = ''A'', dg_workspace = ''1'',
       dg_rect = \<lparr>rx = 504, ry = 0, rw = 496, rh = 600\<rparr>, dg_overconstrained = False, dg_clamped = False\<rparr>]"
    unfolding project_output_geometry_def trees Let_def prod.case option.case plain [OF b(1)]
    by (simp add: project_eval leaf_windows_def adjacent_eval)
  show "project_output_geometry (Some right_domain) (tree_at (se_trees adjacent_session) key_b) (se_windows adjacent_session)
     key_b (hints_from_observed (so_windows adjacent_seen)) =
   Some [\<lparr>dg_window = ''w3'', dg_leaf = ''l3'', dg_output = ''B'', dg_workspace = ''1'',
       dg_rect = \<lparr>rx = 0, ry = 0, rw = 1000, rh = 600\<rparr>, dg_overconstrained = False, dg_clamped = False\<rparr>]"
    unfolding project_output_geometry_def trees Let_def prod.case option.case plain [OF b(2)]
    by (simp add: project_eval leaf_windows_def adjacent_eval)
qed

lemma adjacent_covering:
  "\<exists>gs. covering_geometry adjacent_session (se_trees adjacent_session) (se_windows adjacent_session) [key_a]
     (so_windows adjacent_seen) = Some gs"
  "\<exists>gs. covering_geometry adjacent_session (se_trees adjacent_session) (se_windows adjacent_session) [key_a, key_b]
     (so_windows adjacent_seen) = Some gs"
proof -
  have "find (\<lambda>d. domain_key_of d = key_a) (se_domains adjacent_session) = Some left_domain"
    "find (\<lambda>d. domain_key_of d = key_b) (se_domains adjacent_session) = Some right_domain"
    by (simp_all add: adjacent_eval)
  note affected = covering_geometry_def project_affected_geometry_def affected_loop.simps option.case option.map this adjacent_geometry
  show "\<exists>gs. covering_geometry adjacent_session (se_trees adjacent_session) (se_windows adjacent_session) [key_a]
     (so_windows adjacent_seen) = Some gs"
    unfolding affected
    by (simp add: sort_geometry_def geometry_before_def geometry_covers_affected_def covers_one_def Let_def
        del: set_map set_filter)
      (simp add: adjacent_eval del: set_filter)
  show "\<exists>gs. covering_geometry adjacent_session (se_trees adjacent_session) (se_windows adjacent_session) [key_a, key_b]
     (so_windows adjacent_seen) = Some gs"
    unfolding affected
    by (simp add: sort_geometry_def geometry_before_def geometry_covers_affected_def covers_one_def Let_def
        less_domain_key_def del: set_map set_filter)
      (simp add: adjacent_eval del: set_filter)
qed

lemma stage_focus_example:
  assumes "first_reason (focus_checks (focus_for_operation intent op) \<lparr>directional_focus = True\<rparr>) = None"
  shows "stage (\<lambda>plan. propose_focus plan (so_observation adjacent_seen) ''corr-1'' \<lparr>directional_focus = True\<rparr>)
      (Inr (focus_for_operation intent op, desired, answer)) adjacent_session =
    (Inr (answer (dispatch_of (focus_for_operation intent op) ''corr-1'' example_reconciler)),
     adjacent_session\<lparr>se_reconciler := slot ''corr-1'' (PendingFocus (focus_preconditions op) op) example_reconciler,
       se_pending := Some desired\<rparr>)"
proof -
  have "propose_focus (focus_for_operation intent op) example_observation ''corr-1'' \<lparr>directional_focus = True\<rparr>
      example_reconciler = (Inr (dispatch_of (focus_for_operation intent op) ''corr-1'' example_reconciler),
        slot ''corr-1'' (PendingFocus (focus_preconditions op) op) example_reconciler)"
    unfolding propose_focus_def propose_with_accepts [OF example_ready example_observed token_examples(3) assms]
    by (simp add: focus_for_operation_def)
  moreover have "se_reconciler adjacent_session = example_reconciler" "so_observation adjacent_seen = example_observation"
    by (simp_all add: adjacent_session_def adjacent_seen_def)
  ultimately show ?thesis by (simp add: stage_def stage_plan_def)
qed

lemma adjacent_windows:
  "focused_window_for (se_windows adjacent_session) ''l1'' key_a = Some ''w1''"
  "focused_window_for (se_windows adjacent_session) ''l3'' key_b = Some ''w3''"
  "\<not> om_contains (se_exceptions adjacent_session) w"
  by (simp_all add: focused_window_for_def adjacent_eval)

lemmas focus_checks_eval = focus_checks_def focus_for_operation_def focus_required_capability_def focus_preconditions_def
  focus_is_cross_output_def max_preconditions_def

lemma focus_goes_left: "\<exists>plan s'. session_propose_focus adjacent_session key_a ''w2'' Left adjacent_seen ''corr-1''
    \<lparr>directional_focus = True\<rparr> = (Inr plan, s')"
proof -
  obtain gs where "covering_geometry adjacent_session (se_trees adjacent_session) (se_windows adjacent_session) [key_a]
     (so_windows adjacent_seen) = Some gs" using adjacent_covering(1) by blast
  then show ?thesis
    unfolding session_propose_focus_def when_ready_def adjacent_idle focus_decision_def adjacent_guard
    by (simp add: adjacent_focus adjacent_plans focus_target_def adjacent_windows)
      (subst stage_focus_example, simp_all add: focus_checks_eval)
qed

theorem focus_reaches_neighbour_witness:
  "\<exists>plan s'. session_propose_focus adjacent_session key_a ''w2'' Left adjacent_seen ''corr-1''
      \<lparr>directional_focus = True\<rparr> = (Inr plan, s')
    \<and> sibling_leaf (Group ''g'' Horizontal [Leaf ''l1'', Leaf ''l2''] [1, 1]) Left ''l2'' (sf_focus_leaf plan)"
proof -
  obtain plan s' where p: "session_propose_focus adjacent_session key_a ''w2'' Left adjacent_seen ''corr-1''
    \<lparr>directional_focus = True\<rparr> = (Inr plan, s')" using focus_goes_left by blast
  from focus_reaches_neighbour [OF adjacent_inv p] p show ?thesis
    by (auto simp: adjacent_focus(3)) (auto simp: adjacent_session_def example_session_def)
qed

lemma adjacent_target: "cross_target adjacent_session key_a Right = Some right_domain"
  "domain_key_of right_domain = key_b" "remembered_leaf adjacent_session key_b = Some ''l3''"
  "tree_at (se_trees adjacent_session) key_b = Some (Leaf ''l3'')"
  by (simp_all add: cross_target_def remembered_leaf_def adjacent_eval)

lemma focus_crosses_right: "\<exists>plan s'. cross_output_focus False adjacent_session key_a ''w2'' Right adjacent_seen ''corr-1''
    \<lparr>directional_focus = True\<rparr> = (Inr plan, s')"
proof -
  obtain gs where "covering_geometry adjacent_session (se_trees adjacent_session) (se_windows adjacent_session) [key_a, key_b]
     (so_windows adjacent_seen) = Some gs" using adjacent_covering(2) by blast
  then show ?thesis
    unfolding cross_output_focus_def when_ready_def adjacent_idle cross_decision_def adjacent_guard
    by (simp add: adjacent_focus adjacent_plans cross_subject_def adjacent_target cross_stage_def adjacent_windows)
      (subst stage_focus_example, simp_all add: focus_checks_eval)
qed

theorem cross_focus_reaches_neighbour_witness:
  "\<exists>plan s'. cross_output_focus False adjacent_session key_a ''w2'' Right adjacent_seen ''corr-1''
      \<lparr>directional_focus = True\<rparr> = (Inr plan, s') \<and> sf_focus_domain plan \<in> {key_a, key_b}
    \<and> om_get (se_last_active adjacent_session) (sf_focus_domain plan) = Some (sf_focus_leaf plan)"
proof -
  obtain plan s' where p: "cross_output_focus False adjacent_session key_a ''w2'' Right adjacent_seen ''corr-1''
    \<lparr>directional_focus = True\<rparr> = (Inr plan, s')" using focus_crosses_right by blast
  from cross_focus_reaches_neighbour [OF adjacent_inv p] p show ?thesis
    by (auto simp: adjacent_session_def left_domain_def right_domain_def example_domain_def domain_key_of_def
        key_a_def key_b_def)
qed

end
