(* ===== verification/Session_Resize_Exact.thy ===== *)
theory Session_Resize_Exact
  imports Session_Resize
begin

text \<open>
  What the pixel shares of a keyboard resize are: the exact shares that the projector turns into the
  clamped pixel size, and an adjacent redistribution in the sense of the reconciler's share check.
\<close>

subsection \<open>Integer division\<close>

lemma div_ceil_le:
  assumes "0 < b"
  shows "div_ceil a b \<le> c \<longleftrightarrow> a \<le> c * b"
proof -
  define m r where "m = a div b" and "r = a mod b"
  have a: "a = m * b + r" and r: "r < b" using assms by (simp_all add: m_def r_def)
  have d: "div_ceil a b = (if r = 0 then m else Suc m)" by (simp add: div_ceil_def m_def r_def)
  have "Suc m \<le> c \<Longrightarrow> m * b + r \<le> c * b" using mult_le_mono1 [of "Suc m" c b] r by simp
  moreover have "Suc m \<le> c" if "m * b + r \<le> c * b" "0 < r"
  proof (rule ccontr)
    assume "\<not> Suc m \<le> c"
    then have "c * b \<le> m * b" by (intro mult_le_mono1) simp
    with that show False by simp
  qed
  ultimately show ?thesis unfolding d using assms by (auto simp: a)
qed

lemma floor_interval:
  assumes "0 < d" "0 < (t :: nat)" "div_ceil (q * t) d \<le> a" "a \<le> ((q + 1) * t - 1) div d"
  shows "d * a div t = q"
proof -
  have "q * t \<le> a * d" using assms(3) div_ceil_le [OF assms(1)] by simp
  moreover have "a * d \<le> (q + 1) * t - 1"
    using mult_le_mono1 [OF assms(4), of d] div_times_less_eq_dividend [of "(q + 1) * t - 1" d] by linarith
  then have "a * d < (q + 1) * t" using assms(2) by (cases "(q + 1) * t") auto
  ultimately show ?thesis
    by (intro div_nat_eqI) (simp_all add: mult.commute)
qed

subsection \<open>Scaled shares\<close>

lemma scaled_total_Some:
  "acc \<le> u64_max \<Longrightarrow> scaled_total k acc ss = Some t \<longleftrightarrow> t = acc + k * sum_list ss \<and> t \<le> u64_max"
proof (induction ss arbitrary: acc)
  case Nil
  then show ?case by auto
next
  case (Cons s ss)
  show ?case
  proof (cases "s * k \<le> u64_max \<and> acc + s * k \<le> u64_max")
    case True
    then show ?thesis using Cons.IH [of "acc + s * k"] by (auto simp: algebra_simps)
  next
    case False
    then have "\<not> acc + k * sum_list (s # ss) \<le> u64_max" by (auto simp: algebra_simps)
    with False show ?thesis by auto
  qed
qed

lemma split_shares_facts:
  assumes "Suc lo < length shares" "left + right = (shares ! lo + shares ! Suc lo) * k"
  shows "length (split_shares shares lo k left right) = length shares"
    and "split_shares shares lo k left right ! lo = left"
    and "split_shares shares lo k left right ! Suc lo = right"
    and "j < length shares \<Longrightarrow> j \<noteq> lo \<Longrightarrow> j \<noteq> Suc lo \<Longrightarrow> split_shares shares lo k left right ! j = shares ! j * k"
    and "sum_list (split_shares shares lo k left right) = k * sum_list shares"
proof -
  let ?m = "map (\<lambda>s. s * k) shares"
  have sum: "sum_list ?m = k * sum_list shares" by (induction shares) (simp_all add: algebra_simps)
  have "?m ! lo + ?m ! Suc lo \<le> sum_list ?m"
  proof -
    have "?m ! lo + ?m ! Suc lo = (\<Sum>i \<in> {lo, Suc lo}. ?m ! i)" by simp
    also have "\<dots> \<le> (\<Sum>i \<in> {0..<length ?m}. ?m ! i)" using assms(1) by (intro sum_mono2) auto
    finally show ?thesis by (simp add: sum_list_sum_nth)
  qed
  then show "sum_list (split_shares shares lo k left right) = k * sum_list shares"
    using assms by (simp add: split_shares_def sum_list_update sum add_mult_distrib)
qed (use assms in \<open>simp_all add: split_shares_def nth_list_update\<close>)

lemma split_pair_Some:
  assumes "split_pair shares lo k pair lower upper = Some (Some new)"
  shows "\<exists>left. new = split_shares shares lo k left (pair - left) \<and> lower \<le> left \<and> left \<le> upper \<and> 0 < left
    \<and> left < pair \<and> left \<noteq> shares ! lo * k \<and> 0 \<notin> set new"
proof (intro exI conjI)
  let ?left = "max lower 1"
  show "new = split_shares shares lo k ?left (pair - ?left)" "lower \<le> ?left" "?left \<le> upper" "0 < ?left"
    "?left < pair" "?left \<noteq> shares ! lo * k" "0 \<notin> set new"
    using assms by (auto simp: split_pair_def Let_def split: if_split_asm)
qed

text \<open>The shares of one candidate: an adjacent redistribution with the exact size at \<open>lo\<close>.\<close>

lemma shares_at_scale_exact:
  assumes "Suc lo < length shares" "0 < cl" "0 < d"
    and "shares_at_scale shares lo cl d (shares ! lo + shares ! Suc lo) k = Some (Some new)"
  shows "moves_shares shares new lo (Suc lo) k" "length new = length shares" "0 \<notin> set new"
    "sum_list new = k * sum_list shares" "sum_list new \<le> u64_max" "0 < sum_list new"
    "nat d * (new ! lo) div sum_list new = nat cl - 1"
proof -
  let ?pair = "(shares ! lo + shares ! Suc lo) * k"
  obtain tot where "scaled_total k 0 shares = Some tot" and
    body: "?pair \<le> u64_max" "tot \<noteq> 0"
      "split_pair shares lo k ?pair (lower_share tot cl d) (upper_share tot cl d) = Some (Some new)"
    using assms(4) unfolding shares_at_scale_def bind_eq_Some_conv
    by (auto simp del: mult_eq_0_iff split: if_split_asm)
  then have tot: "tot = k * sum_list shares" "tot \<le> u64_max" by (simp_all add: scaled_total_Some)
  have pos: "0 < tot" using body(2) by simp
  obtain left where l: "lower_share tot cl d \<le> left" "left \<le> upper_share tot cl d" "left < ?pair"
      "left \<noteq> shares ! lo * k" "0 < left" "0 \<notin> set new"
    and eq: "new = split_shares shares lo k left (?pair - left)"
    using split_pair_Some [OF body(3)] by blast
  have sum: "left + (?pair - left) = ?pair" using l(3) by simp
  note new = split_shares_facts [OF assms(1) sum, folded eq]
  have "0 < k" using l(3) by (cases "k = 0") auto
  then show "moves_shares shares new lo (Suc lo) k"
    using new sum l by (auto simp: moves_shares_def)
  show "length new = length shares" "0 \<notin> set new" "sum_list new = k * sum_list shares" "sum_list new \<le> u64_max"
    "0 < sum_list new"
    using new l(6) tot pos by simp_all
  show "nat d * (new ! lo) div sum_list new = nat cl - 1"
    unfolding new(2,5) tot(1) [symmetric]
    by (rule floor_interval) (use l pos assms(3) in \<open>simp_all add: lower_share_def upper_share_def\<close>)
qed

lemma first_scale_Some: "first_scale attempt ks = Some new \<Longrightarrow> \<exists>k \<in> set ks. attempt k = Some (Some new)"
  by (induction ks) (auto split: option.splits)

subsection \<open>The projected size\<close>

lemma base_size_nth:
  "Suc j < length ss \<Longrightarrow> 0 \<le> d \<Longrightarrow> in_i64 d \<Longrightarrow> sum_list ss \<le> tot \<Longrightarrow> 0 < tot \<Longrightarrow>
    base_sizes_loop ss tot d avail used ! j = int (nat d * (ss ! j) div tot) + 1"
proof (induction ss tot d avail used arbitrary: j rule: base_sizes_loop.induct)
  case (3 s s' ss tot d avail used)
  have "int s \<le> int tot" using 3(5) by simp
  then have "d * int s \<le> d * int tot" using 3(3) by (simp add: mult_left_mono)
  then have "d * int s div int tot \<le> d"
    using 3(6) by (metis nonzero_mult_div_cancel_right of_nat_0_less_iff order_less_irrefl zdiv_mono1)
  moreover have "0 \<le> d * int s div int tot" using 3(3,6) by (simp add: pos_imp_zdiv_nonneg_iff)
  ultimately have "as_i64 (rust_div (d * int s) (int tot)) = d * int s div int tot"
    using 3(3,4,6) by (simp add: rust_div_nonneg as_i64_def in_i64_def)
  moreover have "d * int s div int tot = int (nat d * s div tot)"
    using 3(3) by (simp add: zdiv_int)
  ultimately show ?case
    using 3 by (cases j) (simp_all add: Let_def)
qed simp_all

lemma projected_size:
  assumes "Suc j < length ss" "int (length ss) \<le> avail" "in_i64 avail" "0 < sum_list ss"
  shows "proportional_base_sizes ss (sum_list ss) (avail - int (length ss)) avail ! j =
    int (nat (avail - int (length ss)) * (ss ! j) div sum_list ss) + 1"
  unfolding proportional_base_sizes_def
  by (rule base_size_nth) (use assms in \<open>auto simp: in_i64_def\<close>)

subsection \<open>Pixel shares\<close>

lemma pixel_moves:
  assumes "pixel_shares_for_clamped shares lo cl d tot (shares ! lo + shares ! Suc lo) = Some new" "Suc lo < length shares"
  shows "\<exists>k. moves_shares shares new lo (Suc lo) k \<and> length new = length shares \<and> 0 \<notin> set new
    \<and> sum_list new = k * sum_list shares \<and> sum_list new \<le> u64_max \<and> 0 < sum_list new
    \<and> nat d * (new ! lo) div sum_list new = nat cl - 1 \<and> 0 < d \<and> 0 < cl \<and> 0 < tot"
proof -
  have "\<not> (d \<le> 0 \<or> tot = 0 \<or> shares ! lo + shares ! Suc lo = 0 \<or> cl \<le> 0)"
    using assms(1) unfolding pixel_shares_for_clamped_def by (metis option.distinct(1))
  then have pos: "0 < d" "0 < cl" "0 < tot"
    by (simp_all only: de_Morgan_disj not_le neq0_conv)
  obtain k where k: "shares_at_scale shares lo cl d (shares ! lo + shares ! Suc lo) k = Some (Some new)"
    using assms(1) first_scale_Some unfolding pixel_shares_for_clamped_def Let_def by (metis option.distinct(1))
  from shares_at_scale_exact [OF assms(2) pos(2,1) k] pos show ?thesis by blast
qed

text \<open>
  C24. The shares derived for a clamped pixel size are exact. Every other share of the group and the
  total of the pair are scaled by one positive factor, the left share is not just scaled, no share is
  zero and the total still fits in 64 bits; and the projector gives the left child exactly the clamped
  size and every child but the pair and the last one its old size.
\<close>

theorem pixel_shares_exact:
  assumes "pixel_shares_for_clamped shares lo clamped_left (avail - int (length shares)) (sum_list shares)
      (shares ! lo + shares ! Suc lo) = Some new"
    and "Suc lo < length shares" "sum_list shares \<le> u64_max" "in_i64 avail"
  shows "\<exists>k. moves_shares shares new lo (Suc lo) k \<and> length new = length shares \<and> 0 \<notin> set new
    \<and> sum_list new = k * sum_list shares \<and> sum_list new \<le> u64_max
    \<and> (let sizes = (\<lambda>sh. proportional_base_sizes sh (sum_list sh) (avail - int (length shares)) avail)
       in sizes new ! lo = clamped_left
        \<and> (\<forall>j. Suc j < length shares \<longrightarrow> j \<noteq> lo \<longrightarrow> j \<noteq> Suc lo \<longrightarrow> sizes new ! j = sizes shares ! j))"
proof -
  let ?d = "avail - int (length shares)"
  obtain k where new: "moves_shares shares new lo (Suc lo) k" "length new = length shares" "0 \<notin> set new"
      "sum_list new = k * sum_list shares" "sum_list new \<le> u64_max" "0 < sum_list new"
      "nat ?d * (new ! lo) div sum_list new = nat clamped_left - 1"
    and pos: "0 < ?d" "0 < clamped_left" "0 < sum_list shares"
    using pixel_moves [OF assms(1,2)] by blast
  have fits: "int (length shares) \<le> avail" using pos(1) by simp
  have size: "proportional_base_sizes sh (sum_list sh) ?d avail ! j = int (nat ?d * (sh ! j) div sum_list sh) + 1"
    if "length sh = length shares" "Suc j < length shares" "0 < sum_list sh" for sh j
    using projected_size [of j sh avail] that fits assms(4) by simp
  have "proportional_base_sizes new (sum_list new) ?d avail ! lo = clamped_left"
    using size [OF new(2) assms(2) new(6)] new(7) pos(2) by simp
  moreover have "proportional_base_sizes new (sum_list new) ?d avail ! j = proportional_base_sizes shares (sum_list shares) ?d avail ! j"
    if "Suc j < length shares" "j \<noteq> lo" "j \<noteq> Suc lo" for j
  proof -
    have nth: "new ! j = shares ! j * k" "k \<noteq> 0" using new(1) that by (simp_all add: moves_shares_def)
    have "nat ?d * (shares ! j * k) = k * (nat ?d * shares ! j)" by (simp only: ac_simps)
    then have "nat ?d * (new ! j) div sum_list new = nat ?d * (shares ! j) div sum_list shares"
      unfolding new(4) nth(1) by (simp only: div_mult_mult1 [OF nth(2)])
    then show ?thesis using size [OF new(2) that(1) new(6)] size [OF refl that(1) pos(3)] by simp
  qed
  ultimately show ?thesis using new(1-5) by (auto simp: Let_def)
qed

theorem pixel_shares_exact_witness:
  "\<exists>k. moves_shares [1, 1, 2] [488, 512, 1000] 0 1 k"
proof -
  have "pixel_shares_for_clamped [1, 1, 2] 0 489 (2003 - int (length [1, 1, 2 :: nat])) (sum_list [1, 1, 2])
      ([1, 1, 2] ! 0 + [1, 1, 2] ! Suc 0) = Some [488, 512, 1000]"
    by (simp add: pixel_shares_for_clamped_def shares_at_scale_def split_pair_def split_shares_def lower_share_def
        upper_share_def div_ceil_def u64_max_def bind_eq_Some_conv)
  from pixel_shares_exact [OF this] show ?thesis
    by (simp add: u64_max_def in_i64_def) blast
qed

subsection \<open>Planned levels\<close>

text \<open>A level is a group of the tree with its shares, its children and an index among them.\<close>

definition level_of :: "node \<Rightarrow> node_id \<Rightarrow> pointer_level \<Rightarrow> bool" where
  "level_of t x l \<longleftrightarrow> (\<exists>cs. Group (lv_group l) (lv_axis l) cs (lv_shares l) \<in> set (subnodes t)
     \<and> lv_children l = map ident cs \<and> lv_index l < length cs \<and> x \<in> set (node_ids (cs ! lv_index l)))"

lemma level_of_child: "level_of c x l \<Longrightarrow> c \<in> set cs \<Longrightarrow> level_of (Group i a cs sh) x l"
  by (auto simp: level_of_def)

lemma level_of_self: "lv_children l = map ident cs \<Longrightarrow> lv_index l < length cs \<Longrightarrow> lv_group l = i \<Longrightarrow> lv_axis l = a \<Longrightarrow>
    lv_shares l = sh \<Longrightarrow> x \<in> set (node_ids (cs ! lv_index l)) \<Longrightarrow> level_of (Group i a cs sh) x l"
  by (auto simp: level_of_def)


lemma pointer_path_levels:
  "pointer_path t x = Some ls \<Longrightarrow> l \<in> set ls \<Longrightarrow> level_of t x l"
  "pointer_children i a all sh k cs x = Some ls \<Longrightarrow> l \<in> set ls \<Longrightarrow> all = map ident (pre @ cs) \<Longrightarrow> k = length pre
    \<Longrightarrow> level_of (Group i a (pre @ cs) sh) x l"
proof (induction t x and i a all sh k cs x arbitrary: ls l and ls l pre rule: pointer_path_pointer_children.induct)
  case (2 i a cs sh x)
  have run: "pointer_children i a (map ident cs) sh 0 cs x = Some ls" using 2(2) by (simp only: pointer_path.simps)
  from 2(1) [OF run 2(3), of "[]"] show ?case by (simp only: append_Nil list.size simp_thms)
next
  case (4 i a all sh k c cs x)
  consider "ident c = x" | "ident c \<noteq> x" "subtree_contains c x" | "ident c \<noteq> x" "\<not> subtree_contains c x" by blast
  then show ?case
  proof cases
    case 1
    with 4(3-6) show ?thesis by (auto intro!: level_of_self simp: ident_in_ids)
  next
    case 2
    with 4(3) obtain qs where q: "pointer_path c x = Some qs"
      and ls: "ls = qs @ [\<lparr>lv_group = i, lv_axis = a, lv_children = all, lv_shares = sh, lv_index = k\<rparr>]"
      by (auto split: option.splits)
    show ?thesis
    proof (cases "l \<in> set qs")
      case True
      then show ?thesis using level_of_child [OF 4(1) [OF 2 q True], of "pre @ c # cs"] by simp
    next
      case False
      moreover have "x \<in> set (node_ids c)" using 2(2) by (simp add: subtree_contains_def subtree_contains_id_iff)
      ultimately show ?thesis using ls 4(4-6) by (auto intro!: level_of_self)
    qed
  next
    case 3
    then show ?thesis using 4(2) [OF 3, of ls l "pre @ [c]"] 4(3-6) by simp
  qed
qed simp_all

lemma keyboard_levels_planned:
  "keyboard_levels outcome below ls = Some (PixelPlanned target new) \<Longrightarrow> \<exists>l \<in> set ls. outcome l = LevelPlanned target new"
  by (induction ls arbitrary: below) (auto split: level_outcome.splits if_splits)

lemma child_extents_length: "child_extents tree cs a geometry = Some es \<Longrightarrow> length es = length cs \<and> (\<forall>e \<in> set es. 0 < e)"
  by (induction cs arbitrary: es) (auto split: option.splits if_splits)

lemma checked_sum_Some: "checked_sum_i64 acc xs = Some r \<Longrightarrow> r = acc + sum_list xs \<and> (in_i64 acc \<longrightarrow> in_i64 r)"
proof (induction xs arbitrary: acc)
  case (Cons x xs)
  then have "checked_sum_i64 (acc + x) xs = Some r" "in_i64 (acc + x)"
    by (auto simp: bind_eq_Some_conv checked_add_i64_def)
  with Cons.IH [of "acc + x"] show ?case by (auto simp: add.assoc)
qed simp

lemma keyboard_move_planned:
  assumes "keyboard_move p level n wanted mode step_px sizes = LevelPlanned target new"
  shows "target = \<lparr>pt_group = lv_group level, pt_focused_index = lv_index level, pt_neighbor_index = n,
      pt_focused_child = lv_children level ! lv_index level, pt_neighbor_child = lv_children level ! n,
      pt_old_shares = lv_shares level\<rparr>
    \<and> (\<exists>cl. pixel_shares_for_clamped (lv_shares level) (min (lv_index level) n) cl
         (sum_list sizes - int (length sizes)) (sum_list (lv_shares level))
         (lv_shares level ! lv_index level + lv_shares level ! n) = Some new)
    \<and> sum_list (lv_shares level) \<le> u64_max \<and> in_i64 (sum_list sizes)"
proof -
  obtain shrink grow where sg: "(if mode = Inwards then (sizes ! lv_index level, sizes ! n)
      else (sizes ! n, sizes ! lv_index level)) = (shrink, grow)" by fastforce
  show ?thesis
    using assms unfolding keyboard_move_def Let_def sg prod.case
    by (auto simp: bind_eq_Some_conv checked_sub_i64_def in_i64_def dest!: checked_sum_Some
        split: option.splits if_split_asm prod.splits)
qed

lemma moves_shares_swap: "moves_shares old new f n k \<Longrightarrow> moves_shares old new n f k"
  by (auto simp: moves_shares_def add.commute add_mult_distrib)

lemma moves_shares_differ:
  assumes "moves_shares old new f n k" "sum_list new = k * sum_list old" "0 < sum_list new"
  shows "old \<noteq> new"
proof
  assume same: "old = new"
  have "1 * sum_list new = k * sum_list new" using assms(2) unfolding same by (simp only: nat_mult_1)
  then have "k = 1" using assms(3) unfolding mult_cancel2 by (metis less_not_refl)
  with assms(1) same show False by (simp add: moves_shares_def)
qed

text \<open>The planned move of a keyboard resize, read off the level it stands on.\<close>

definition share_move :: "node \<Rightarrow> direction \<Rightarrow> pointer_target \<Rightarrow> nat list \<Rightarrow> bool" where
  "share_move t d target new \<longleftrightarrow> (\<exists>cs k. Group (pt_group target) (axis_for_direction d) cs (pt_old_shares target) \<in> set (subnodes t)
     \<and> pt_focused_index target < length cs \<and> pt_neighbor_index target < length cs
     \<and> int (pt_neighbor_index target) = int (pt_focused_index target) + step_for d
     \<and> pt_focused_child target = ident (cs ! pt_focused_index target)
     \<and> pt_neighbor_child target = ident (cs ! pt_neighbor_index target)
     \<and> moves_shares (pt_old_shares target) new (pt_focused_index target) (pt_neighbor_index target) k
     \<and> length new = length cs \<and> 0 \<notin> set new
     \<and> sum_list new = k * sum_list (pt_old_shares target) \<and> sum_list new \<le> u64_max)"

text \<open>The leaf is below the child whose part of the group moves.\<close>

definition boundary_of :: "node \<Rightarrow> pointer_target \<Rightarrow> node_id \<Rightarrow> bool" where
  "boundary_of t target x \<longleftrightarrow> (\<exists>a cs. Group (pt_group target) a cs (pt_old_shares target) \<in> set (subnodes t)
     \<and> pt_focused_index target < length cs \<and> x \<in> set (leaves (cs ! pt_focused_index target)))"

lemma keyboard_level_planned:
  assumes "wf_groups t" "level_of t x level"
    and "keyboard_level p tree (axis_for_direction d) (step_for d) mode step_px geometry level = LevelPlanned target new"
  shows "share_move t d target new" "pt_group target = lv_group level" "pt_old_shares target = lv_shares level"
    "pt_focused_index target = lv_index level"
proof -
  let ?f = "lv_index level" and ?n = "nat (int (lv_index level) + step_for d)" and ?sh = "lv_shares level"
  obtain cs where g: "Group (lv_group level) (lv_axis level) cs ?sh \<in> set (subnodes t)"
    and cs: "lv_children level = map ident cs" "?f < length cs"
    using assms(2) by (auto simp: level_of_def)
  have ok: "group_ok cs ?sh" using wf_groups_subnodes [OF assms(1) g] by simp
  obtain sizes where axis: "lv_axis level = axis_for_direction d" and n: "0 \<le> int ?f + step_for d" "?n < length cs"
    and sizes: "child_extents tree (lv_children level) (axis_for_direction d) geometry = Some sizes"
    and move: "keyboard_move p level ?n (axis_for_direction d) mode step_px sizes = LevelPlanned target new"
    using assms(3) cs(1) by (auto simp: keyboard_level_def Let_def split: if_split_asm option.splits)
  note m = keyboard_move_planned [OF move]
  then obtain cl where new: "pixel_shares_for_clamped ?sh (min ?f ?n) cl (sum_list sizes - int (length ?sh)) (sum_list ?sh)
      (?sh ! ?f + ?sh ! ?n) = Some new" and bounds: "sum_list ?sh \<le> u64_max" "in_i64 (sum_list sizes)"
    using child_extents_length [OF sizes] cs(1) ok by (auto simp: group_ok_def)
  have step: "?n = Suc ?f \<or> ?f = Suc ?n" using n(1) by (cases d) auto
  then have pair: "?sh ! ?f + ?sh ! ?n = ?sh ! min ?f ?n + ?sh ! Suc (min ?f ?n)" "Suc (min ?f ?n) < length ?sh"
    using cs(2) n(2) ok by (auto simp: group_ok_def min_def)
  have "pixel_shares_for_clamped ?sh (min ?f ?n) cl (sum_list sizes - int (length ?sh)) (sum_list ?sh)
      (?sh ! min ?f ?n + ?sh ! Suc (min ?f ?n)) = Some new"
    using new pair(1) by simp
  from pixel_moves [OF this pair(2)] obtain k where k: "moves_shares ?sh new (min ?f ?n) (Suc (min ?f ?n)) k"
      "length new = length ?sh" "0 \<notin> set new" "sum_list new = k * sum_list ?sh" "sum_list new \<le> u64_max"
    by blast
  have "moves_shares ?sh new ?f ?n k"
    using step k(1) moves_shares_swap by (auto simp: min_def split: if_splits)
  with k m g cs n axis ok show "share_move t d target new"
    unfolding share_move_def by (auto simp: group_ok_def)
  show "pt_group target = lv_group level" "pt_old_shares target = lv_shares level" "pt_focused_index target = lv_index level"
    using m by simp_all
qed

subsection \<open>Keyboard resize decisions\<close>

lemma group_ids_subnode: "n \<in> set (subnodes t) \<Longrightarrow> set (group_ids n) \<subseteq> set (group_ids t)"
  by (induction t) auto

lemma resize_decision_Inr:
  assumes "resize_decision s domain window direction mode press_index obs caps = Inr (plan, desired, answer)"
    and "current_ok s"
  obtains x t target new where "tiled_focus True s domain window = Inr x" "tree_at (se_trees s) domain = Some t"
    "window \<noteq> []" "share_move t direction target new" "boundary_of t target x"
    "plan = keyboard_plan domain window x direction mode target new"
    "desired = resize_desired s domain x (om_insert domain (Some (replace_shares (pt_group target) new t)) (se_trees s))"
    "resize_supports caps KeyboardResize"
proof -
  obtain x where guard: "directed_guard s domain window obs = None" and foc: "tiled_focus True s domain window = Inr x"
    and caps: "resize_supports caps KeyboardResize"
    and der: "resize_derive s domain window x direction mode press_index (so_windows obs) = Inr (plan, desired, answer)"
    using assms(1) by (auto simp: resize_decision_def split: option.splits sum.splits if_split_asm)
  obtain t geometry target new where t: "tree_at (se_trees s) domain = Some t"
    and d: "derive_keyboard_pixel_shares (se_policy s) t x direction mode (lp_keyboard_step_px (se_policy s) press_index)
        geometry = Some (PixelPlanned target new)"
    and st: "resize_stage s domain window x t direction mode target new (so_windows obs) = Inr (plan, desired, answer)"
    using der by (auto simp: resize_derive_def split: option.splits if_split_asm pixel_derived.splits)
  have wf: "wf_node t" by (rule world_tree_wf [OF current_world [OF assms(2)] t])
  obtain levels level where "pointer_path t x = Some levels" "level \<in> set levels"
    and lev: "keyboard_level (se_policy s) t (axis_for_direction direction) (step_for direction) mode
        (lp_keyboard_step_px (se_policy s) press_index) geometry level = LevelPlanned target new"
    using d keyboard_levels_planned by (fastforce simp: derive_keyboard_pixel_shares_def split: if_split_asm option.splits)
  then have at: "level_of t x level" using pointer_path_levels(1) by blast
  note planned = keyboard_level_planned [OF wf_node_groups [OF wf] at lev]
  then have move: "share_move t direction target new" by simp
  obtain cs where g: "Group (lv_group level) (lv_axis level) cs (lv_shares level) \<in> set (subnodes t)"
    and below: "lv_index level < length cs" "x \<in> set (node_ids (cs ! lv_index level))"
    using at by (auto simp: level_of_def)
  have "x \<notin> set (group_ids t)" using tiled_focus_leaf(2) [OF assms(2) foc t] wf
    by (auto simp: wf_node_def distinct_node_ids)
  then have "x \<notin> set (group_ids (cs ! lv_index level))" using group_ids_subnode [OF g] below(1) nth_mem by fastforce
  then have "x \<in> set (leaves (cs ! lv_index level))" using below(2) by (simp add: node_ids_leaves_groups)
  then have bound: "boundary_of t target x" using g below(1) unfolding boundary_of_def planned by blast
  obtain updated where up: "apply_resize_shares t (pt_group target) new = Some updated"
    and "plan = keyboard_plan domain window x direction mode target new"
      "desired = resize_desired s domain x (om_insert domain (Some updated) (se_trees s))"
    using st by (auto simp: resize_stage_def Let_def split: option.splits if_split_asm)
  moreover have "updated = replace_shares (pt_group target) new t" using up by (simp add: apply_resize_iff)
  moreover have "window \<noteq> []" using guard by (auto simp: directed_guard_def split: if_split_asm)
  ultimately show thesis using that [OF foc t _ move bound] caps by simp
qed

lemma share_move_shape:
  assumes "share_move t d target new" "wf_node t" "dk_output domain \<noteq> []" "dk_workspace domain \<noteq> []" "x \<noteq> []" "w \<noteq> []"
  shows "valid_fixed_share_operation (keyboard_operation domain w x d mode target new)"
proof -
  let ?f = "pt_focused_index target" and ?n = "pt_neighbor_index target"
  obtain cs k where g: "Group (pt_group target) (axis_for_direction d) cs (pt_old_shares target) \<in> set (subnodes t)"
    and i: "?f < length cs" "?n < length cs" "int ?n = int ?f + step_for d"
    and c: "pt_focused_child target = ident (cs ! ?f)" "pt_neighbor_child target = ident (cs ! ?n)"
    and m: "moves_shares (pt_old_shares target) new ?f ?n k" "length new = length cs" "0 \<notin> set new"
      "sum_list new = k * sum_list (pt_old_shares target)" "sum_list new \<le> u64_max"
    using assms(1) by (auto simp: share_move_def)
  have ok: "group_ok cs (pt_old_shares target)" using wf_groups_subnodes [OF wf_node_groups [OF assms(2)] g] by simp
  have ids: "distinct (node_ids (Group (pt_group target) (axis_for_direction d) cs (pt_old_shares target)))"
    "[] \<notin> set (node_ids (Group (pt_group target) (axis_for_direction d) cs (pt_old_shares target)))"
    using wf_node_subnode [OF assms(2) g] by (simp_all add: wf_node_def)
  have "?f \<noteq> ?n" using i(3) by (cases d) auto
  have "distinct (concat (map node_ids cs))" using ids(1) by (simp only: node_ids.simps distinct.simps)
  from distinct_concat_nth_neq [OF this i(1,2) \<open>?f \<noteq> ?n\<close>]
  have "ident (cs ! ?f) \<noteq> ident (cs ! ?n)"
    by (metis disjoint_iff ident_in_node_ids)
  moreover have "[] \<notin> set (node_ids (cs ! j))" if "j < length cs" for j
    using ids(2) nth_mem [OF that] by auto
  then have "ident (cs ! ?f) \<noteq> []" "ident (cs ! ?n) \<noteq> []"
    using i(1,2) ident_in_node_ids [of "cs ! ?f"] ident_in_node_ids [of "cs ! ?n"] by metis+
  moreover have "pt_group target \<noteq> []" using ids(2) by auto
  moreover have "0 < sum_list new" using m(2,3) ok by (cases new) (auto simp: group_ok_def)
  then have "pt_old_shares target \<noteq> new" by (rule moves_shares_differ [OF m(1,4)])
  moreover have "\<bar>int ?f - int ?n\<bar> = 1" "int ?n - int ?f = step_for d" using i(3) by (cases d; simp)+
  ultimately have "fixed_share_shape (keyboard_operation domain w x d mode target new)"
    using assms(3-6) i(1,2) ok m(2,3) \<open>?f \<noteq> ?n\<close>
    by (simp add: fixed_share_shape_def keyboard_operation_def c group_ok_def)
  then show ?thesis
    using m ok unfolding valid_fixed_share_iff by (auto simp: keyboard_operation_def group_ok_def)
qed

text \<open>
  C25. Every keyboard resize that the session derives, whatever the tree, the hints and the policy,
  redistributes an adjacent pair of one group of the tree above the focused leaf and passes the
  reconciler's neutral share check. Of all checks that the reconciler makes of a resize plan itself
  (capability, preconditions, intent, shares, mode) only the mode check can fail; the checks of the
  observation and the correlation are not part of this statement.
\<close>

theorem keyboard_resize_passes_share_check:
  assumes "session_inv s" "resize_decision s domain window direction mode press_index obs caps = Inr (plan, desired, answer)"
  shows "\<exists>t x target new. tree_at (se_trees s) domain = Some t \<and> se_focused_leaf s = Some x
    \<and> plan = keyboard_plan domain window x direction mode target new
    \<and> boundary_of t target x \<and> share_move t direction target new
    \<and> valid_fixed_share_operation (p_operation plan)
    \<and> first_reason (resize_checks plan caps)
      = (if valid_keyboard_resize_mode (p_operation plan) then None else Some PostconditionMismatch)"
proof -
  have cur: "current_ok s" using assms(1) by (simp add: session_inv_def)
  obtain x t target new where foc: "tiled_focus True s domain window = Inr x" and t: "tree_at (se_trees s) domain = Some t"
    and w: "window \<noteq> []" and move: "share_move t direction target new" and bound: "boundary_of t target x"
    and caps: "resize_supports caps KeyboardResize"
    and plan: "plan = keyboard_plan domain window x direction mode target new"
    using resize_decision_Inr [OF assms(2) cur] .
  have wf: "wf_node t" by (rule world_tree_wf [OF current_world [OF cur] t])
  have "[] \<notin> set (leaves t)" using wf leaves_subset_node_ids by (auto simp: wf_node_def)
  moreover have "x \<in> set (leaves t)" by (rule tiled_focus_leaf(2) [OF cur foc t])
  ultimately have x: "x \<noteq> []" by auto
  have "set (om_keys (se_trees s)) = domain_key_of ` set (se_domains s)"
    using current_world [OF cur] by (simp add: world_ok_def topology_ok_def)
  then obtain d where d: "d \<in> set (se_domains s)" "domain = domain_key_of d"
    using tree_at_known [OF t] om_keys_contains by (metis imageE)
  then have "dk_output domain \<noteq> []" "dk_workspace domain \<noteq> []"
    using world_domains(2) [OF current_world [OF cur]] by (auto simp: list_all_iff domain_validate_def domain_key_of_def)
  from share_move_shape [OF move wf this x w] have valid: "valid_fixed_share_operation (p_operation plan)"
    by (simp add: plan keyboard_plan_def resize_for_operation_def)
  moreover have "first_reason (resize_checks plan caps)
      = (if valid_keyboard_resize_mode (p_operation plan) then None else Some PostconditionMismatch)"
    using valid caps
    by (simp add: resize_checks_def valid_resize_operation_def plan keyboard_plan_def resize_for_operation_def
        resize_required_capability_def resize_preconditions_def resize_intent_differs_def keyboard_operation_def
        max_preconditions_def)
  ultimately show ?thesis using t plan move bound tiled_focus_Inr [OF foc] by blast
qed

lemma propose_resize_accepted: "propose_resize plan ob corr caps r = (Inr d, r') \<Longrightarrow> valid_resize_operation (p_operation plan)"
  by (auto simp: propose_resize_def propose_with_def resize_checks_def split: option.splits if_split_asm)

lemma keyboard_mode_fraction:
  assumes "valid_keyboard_resize_mode op" "sum_list (ro_old_shares op) \<le> u64_max" "sum_list (ro_new_shares op) \<le> u64_max"
  shows "case ro_mode op of
      Inwards \<Rightarrow> ro_new_shares op ! ro_focused_index op * sum_list (ro_old_shares op)
        < ro_old_shares op ! ro_focused_index op * sum_list (ro_new_shares op)
    | Outwards \<Rightarrow> ro_old_shares op ! ro_focused_index op * sum_list (ro_new_shares op)
        < ro_new_shares op ! ro_focused_index op * sum_list (ro_old_shares op)"
proof -
  let ?old = "sum_list (ro_old_shares op)" and ?new = "sum_list (ro_new_shares op)"
    and ?f = "ro_focused_index op"
  let ?k = "?new div ?old"
  have v: "?old \<noteq> 0" "?new mod ?old = 0" "case ro_mode op of
      Inwards \<Rightarrow> ro_new_shares op ! ?f < ro_old_shares op ! ?f * ?k
    | Outwards \<Rightarrow> ro_old_shares op ! ?f * ?k < ro_new_shares op ! ?f"
    using assms unfolding valid_keyboard_resize_mode_def Let_def
    by (auto simp del: sum_list_eq_0_iff split: option.splits if_split_asm resize_mode.splits)
  have "?new = ?k * ?old" using div_mult_mod_eq [of ?new ?old] v(2) by simp
  then have eq: "ro_old_shares op ! ?f * ?new = ro_old_shares op ! ?f * ?k * ?old" by simp
  have pos: "0 < ?old" using v(1) by (simp only: neq0_conv)
  show ?thesis
  proof (cases "ro_mode op")
    case Inwards
    then show ?thesis unfolding eq using v(3) mult_less_mono1 [OF _ pos] by simp
  next
    case Outwards
    then show ?thesis unfolding eq using v(3) mult_less_mono1 [OF _ pos] by simp
  qed
qed

text \<open>
  C23. An accepted keyboard resize moves one boundary. It starts from the focused window of the domain
  and changes the shares of one group along the axis of the direction, above the focused leaf: the pair of
  the child that holds the focused leaf and its neighbour in that direction is redistributed, every other
  share is scaled by one factor, and that child's part of the group shrinks in mode \<open>Inwards\<close> and grows in
  mode \<open>Outwards\<close>. Nothing else is staged: the focus, the links and the exceptions stay.
\<close>

theorem keyboard_resize_moves_boundary:
  assumes "session_inv s"
    and "session_propose_resize s domain window direction mode press_index obs corr caps = (Inr plan, s')"
  shows "\<exists>t x target new. se_focused_domain s = Some domain \<and> se_focused_leaf s = Some x
    \<and> focused_window_for (se_windows s) x domain = Some window \<and> tree_at (se_trees s) domain = Some t
    \<and> boundary_of t target x \<and> share_move t direction target new
    \<and> (case mode of
         Inwards \<Rightarrow> new ! pt_focused_index target * sum_list (pt_old_shares target)
           < pt_old_shares target ! pt_focused_index target * sum_list new
       | Outwards \<Rightarrow> pt_old_shares target ! pt_focused_index target * sum_list new
           < new ! pt_focused_index target * sum_list (pt_old_shares target))
    \<and> keeps_world s s'
    \<and> se_pending s' = Some ((desired_of s)\<lparr>pe_trees :=
        om_insert domain (Some (replace_shares (pt_group target) new t)) (se_trees s)\<rparr>)"
proof -
  have cur: "current_ok s" using assms(1) by (simp add: session_inv_def)
  obtain p desired answer d r where dec: "resize_decision s domain window direction mode press_index obs caps = Inr (p, desired, answer)"
    and off: "propose_resize p (so_observation obs) corr caps (se_reconciler s) = (Inr d, r)"
    and pend: "se_pending s' = Some desired"
    using staged_Inr [OF assms(2) [unfolded session_propose_resize_def]] .
  obtain x t target new where foc: "tiled_focus True s domain window = Inr x" and t: "tree_at (se_trees s) domain = Some t"
    and move: "share_move t direction target new" "boundary_of t target x" and plan: "p = keyboard_plan domain window x direction mode target new"
    and des: "desired = resize_desired s domain x (om_insert domain (Some (replace_shares (pt_group target) new t)) (se_trees s))"
    using resize_decision_Inr [OF dec cur] .
  have op: "p_operation p = keyboard_operation domain window x direction mode target new"
    by (simp add: plan keyboard_plan_def resize_for_operation_def)
  have "valid_resize_operation (p_operation p)" by (rule propose_resize_accepted [OF off])
  then have "valid_keyboard_resize_mode (p_operation p)" "sum_list (ro_old_shares (p_operation p)) \<le> u64_max"
    "sum_list (ro_new_shares (p_operation p)) \<le> u64_max"
    by (simp_all add: valid_resize_operation_def valid_fixed_share_iff)
  from keyboard_mode_fraction [OF this, unfolded op] have "case mode of
         Inwards \<Rightarrow> new ! pt_focused_index target * sum_list (pt_old_shares target)
           < pt_old_shares target ! pt_focused_index target * sum_list new
       | Outwards \<Rightarrow> pt_old_shares target ! pt_focused_index target * sum_list new
           < new ! pt_focused_index target * sum_list (pt_old_shares target)"
    by (cases mode) (simp_all add: keyboard_operation_def)
  moreover have "keeps_world s s'"
    using session_propose_resize_ok [OF assms(1), of domain window direction mode press_index obs corr caps] assms(2)
    by (simp add: proposal_ok_def)
  moreover note focused = tiled_focus_Inr [OF foc]
  moreover have "desired = (desired_of s)\<lparr>pe_trees :=
        om_insert domain (Some (replace_shares (pt_group target) new t)) (se_trees s)\<rparr>"
    using focused by (simp add: des resize_desired_def desired_of_def)
  ultimately show ?thesis using t move pend by blast
qed

end
