(* ===== verification/Session_Resize_Examples.thy ===== *)
theory Session_Resize_Examples
  imports Session_Resize_Exact Session_Focus_Examples
begin

text \<open>
  Two windows side by side, the focused one narrower than the child minimum: it can be widened with the
  keyboard, and shrinking it diverges the session.
\<close>

definition duo_tree :: "nat list \<Rightarrow> node" where
  "duo_tree sh = Group ''g'' Horizontal [Leaf ''l1'', Leaf ''l2''] sh"

definition narrow_session :: session where
  "narrow_session = example_session\<lparr>se_trees := [(key_a, Some (duo_tree [2, 1])), (key_b, None)], se_exceptions := []\<rparr>"

definition narrow_seen :: session_observation where
  "narrow_seen = \<lparr>so_observation = example_observation,
     so_windows = [example_entry ''w1'' False, example_entry ''w2'' False]\<rparr>"

lemmas narrow_eval = observation_eval topology_eval example_session_def narrow_session_def narrow_seen_def
  example_entry_def duo_tree_def

lemma duo_tree_wf: "length sh = 2 \<Longrightarrow> 0 \<notin> set sh \<Longrightarrow> sum_list sh \<le> u64_max \<Longrightarrow> wf_node (duo_tree sh)"
  by (simp add: duo_tree_def wf_node_def group_ok_def)

lemma narrow_topology:
  assumes "length sh = 2" "0 \<notin> set sh" "sum_list sh \<le> u64_max"
  shows "validate_topology (se_domains narrow_session) [(key_a, Some (duo_tree sh)), (key_b, None)]
    (se_windows narrow_session) (se_exceptions narrow_session) (Some key_a) (Some ''l2'')"
  unfolding validate_topology_def validate_shares_wf
  using duo_tree_wf [OF assms]
  by (simp add: narrow_eval)

lemma narrow_valid: "validate_current_topology narrow_session"
  using narrow_topology [of "[2, 1]"] unfolding validate_current_topology_def
  by (simp add: u64_max_def) (simp add: narrow_session_def example_session_def)

lemma narrow_inv: "session_inv narrow_session"
proof -
  have maps: "om_ok (se_trees narrow_session)" "om_ok (se_windows narrow_session)" "om_ok (se_exceptions narrow_session)"
    by (simp_all add: om_ok_def om_keys_def narrow_session_def example_session_def key_a_def key_b_def less_domain_key_def)
  have "world_ok (se_domains narrow_session) (se_trees narrow_session) (se_windows narrow_session)
      (se_exceptions narrow_session) (se_focused_domain narrow_session) (se_focused_leaf narrow_session)"
    using narrow_valid unfolding validate_current_topology_def
    by (rule validated_world [OF _ maps])
      (auto simp: narrow_session_def example_session_def om_get_def example_link_def split: if_splits)
  moreover have "focus_resolves (Some key_a) (Some ''l1'') (se_trees narrow_session) (se_windows narrow_session)"
    "focus_resolves (Some key_a) (Some ''l2'') (se_trees narrow_session) (se_windows narrow_session)"
    by (simp_all add: focus_resolves_def narrow_eval)
  then have "stack_ok (se_focus_stack narrow_session) (se_trees narrow_session) (se_windows narrow_session)"
    by (auto simp: stack_ok_def narrow_session_def example_session_def om_ok_def om_keys_def om_get_def)
  ultimately have "current_ok narrow_session"
    by (simp add: current_ok_def active_ok_def)
      (simp add: narrow_session_def example_session_def om_ok_def om_keys_def om_contains_def om_get_def
        key_a_def key_b_def less_domain_key_def)
  moreover have "bound_ok narrow_session"
    using example_inv by (simp add: session_inv_def bound_ok_def narrow_session_def)
  ultimately show ?thesis by (simp add: session_inv_def) (simp add: narrow_session_def example_session_def)
qed

lemma narrow_idle: "ready_error narrow_session = None"
  by (simp add: ready_error_def session_divergence_def has_pending_def status_def narrow_session_def)
    (simp add: example_reconciler_def)

lemma narrow_guard: "directed_guard narrow_session key_a ''w2'' narrow_seen = None"
proof -
  have "all_homed narrow_session (so_windows narrow_seen)" "valid_observed_shapes (so_windows narrow_seen)"
    by (simp_all add: all_homed_def valid_observed_shapes_def narrow_eval)
  then show ?thesis
    using narrow_valid unfolding directed_guard_def
    by (simp add: known_window_def narrow_eval)
qed

lemma narrow_focus: "tiled_focus True narrow_session key_a ''w2'' = Inr ''l2''"
  "tree_at (se_trees narrow_session) key_a = Some (duo_tree [2, 1])"
  "find (\<lambda>d. domain_key_of d = key_a) (se_domains narrow_session) = Some (example_domain ''A'')"
  "\<not> (case observed_entry ''w2'' (so_windows narrow_seen) of None \<Rightarrow> False | Some e \<Rightarrow> flags_any (ow_flags e))"
  by (simp_all add: tiled_focus_def focused_window_for_def narrow_eval)

text \<open>The projected pair for the shares \<open>[l, r]\<close>, the left one \<open>w\<close> wide.\<close>

definition pair_geometry :: "int \<Rightarrow> desired_geometry list" where
  "pair_geometry w =
     [\<lparr>dg_window = ''w1'', dg_leaf = ''l1'', dg_output = ''A'', dg_workspace = ''1'',
       dg_rect = \<lparr>rx = 0, ry = 0, rw = w, rh = 600\<rparr>, dg_overconstrained = False, dg_clamped = False\<rparr>,
      \<lparr>dg_window = ''w2'', dg_leaf = ''l2'', dg_output = ''A'', dg_workspace = ''1'',
       dg_rect = \<lparr>rx = w + 8, ry = 0, rw = 992 - w, rh = 600\<rparr>, dg_overconstrained = False, dg_clamped = False\<rparr>]"

lemma narrow_projection:
  assumes "project (duo_tree sh) (od_bounds (example_domain ''A'')) (od_gap (example_domain ''A'')) =
      Inr [\<lparr>pleaf = ''l1'', prect = \<lparr>rx = 0, ry = 0, rw = w, rh = 600\<rparr>\<rparr>,
        \<lparr>pleaf = ''l2'', prect = \<lparr>rx = w + 8, ry = 0, rw = 992 - w, rh = 600\<rparr>\<rparr>]" "0 < w" "w < 992"
  shows "project_output_geometry (Some (example_domain ''A'')) (Some (duo_tree sh)) (se_windows narrow_session)
     key_a (hints_from_observed (so_windows narrow_seen)) = Some (pair_geometry w)"
proof -
  have "\<forall>e \<in> set (so_windows narrow_seen). ow_hints e = hints_none"
    by (simp add: narrow_seen_def example_entry_def)
  note plain = unhinted_plain [OF observed_unhinted [OF this]]
  have b: "rect_i32 (od_bounds (example_domain ''A''))"
    by (simp add: example_domain_def rect_i32_def in_i32_def)
  show ?thesis
    unfolding project_output_geometry_def Let_def prod.case option.case plain [OF b] assms(1)
    using assms(2,3) by (simp add: leaf_windows_def narrow_eval pair_geometry_def)
qed

lemma pair_projections:
  "project (duo_tree [2, 1]) (od_bounds (example_domain ''A'')) (od_gap (example_domain ''A'')) =
      Inr [\<lparr>pleaf = ''l1'', prect = \<lparr>rx = 0, ry = 0, rw = 661, rh = 600\<rparr>\<rparr>,
        \<lparr>pleaf = ''l2'', prect = \<lparr>rx = 661 + 8, ry = 0, rw = 992 - 661, rh = 600\<rparr>\<rparr>]"
  "project (duo_tree [631, 359]) (od_bounds (example_domain ''A'')) (od_gap (example_domain ''A'')) =
      Inr [\<lparr>pleaf = ''l1'', prect = \<lparr>rx = 0, ry = 0, rw = 632, rh = 600\<rparr>\<rparr>,
        \<lparr>pleaf = ''l2'', prect = \<lparr>rx = 632 + 8, ry = 0, rw = 992 - 632, rh = 600\<rparr>\<rparr>]"
  "project (duo_tree [648, 342]) (od_bounds (example_domain ''A'')) (od_gap (example_domain ''A'')) =
      Inr [\<lparr>pleaf = ''l1'', prect = \<lparr>rx = 0, ry = 0, rw = 649, rh = 600\<rparr>\<rparr>,
        \<lparr>pleaf = ''l2'', prect = \<lparr>rx = 649 + 8, ry = 0, rw = 992 - 649, rh = 600\<rparr>\<rparr>]"
  by (simp_all add: duo_tree_def example_domain_def project_eval)

lemmas narrow_projections = pair_projections [THEN narrow_projection, simplified]

lemma narrow_covering:
  assumes "project_output_geometry (Some (example_domain ''A'')) (tree_at trees key_a) (se_windows narrow_session)
     key_a (hints_from_observed (so_windows narrow_seen)) = Some (pair_geometry w)" "0 < w" "w < 992"
  shows "covering_geometry narrow_session trees (se_windows narrow_session) [key_a] (so_windows narrow_seen) =
    Some (pair_geometry w)"
proof -
  have sorted: "sort_geometry (pair_geometry w @ []) = pair_geometry w"
    by (simp add: sort_geometry_def pair_geometry_def geometry_before_def Let_def)
  have "geometry_covers_affected (pair_geometry w) (se_windows narrow_session) [key_a]"
    using assms(2,3)
    by (simp add: geometry_covers_affected_def covers_one_def pair_geometry_def Let_def del: set_map set_filter)
      (simp add: narrow_eval del: set_filter)
  then show ?thesis
    unfolding covering_geometry_def project_affected_geometry_def affected_loop.simps narrow_focus(3) option.case
      option.map assms(1) sorted by simp
qed

subsection \<open>Derivation\<close>

lemma pair_path: "pointer_path (duo_tree sh) ''l2'' = Some [\<lparr>lv_group = ''g'', lv_axis = Horizontal,
    lv_children = [''l1'', ''l2''], lv_shares = sh, lv_index = 1\<rparr>]"
  by (simp add: duo_tree_def subtree_contains_def)

lemma pair_extents: "0 < w \<Longrightarrow> w < 992 \<Longrightarrow>
    child_extents (duo_tree sh) [''l1'', ''l2''] Horizontal (pair_geometry w) = Some [w, 992 - w]"
  by (simp add: pointer_child_extent_def duo_tree_def pair_geometry_def subtree_contains_def)

lemma pair_shares:
  "pixel_shares_for_clamped [2, 1] 0 632 990 3 3 = Some [631, 359]"
  "pixel_shares_for_clamped [2, 1] 0 649 990 3 3 = Some [648, 342]"
  by (simp_all add: pixel_shares_for_clamped_def shares_at_scale_def split_pair_def split_shares_def lower_share_def
      upper_share_def div_ceil_def u64_max_def)

definition narrow_target :: pointer_target where
  "narrow_target = \<lparr>pt_group = ''g'', pt_focused_index = 1, pt_neighbor_index = 0, pt_focused_child = ''l2'',
     pt_neighbor_child = ''l1'', pt_old_shares = [2, 1]\<rparr>"

lemmas narrow_numbers = pair_extents [of 661 "[2, 1]", simplified One_nat_def]
  pair_shares [unfolded numeral_3_eq_3 One_nat_def]

lemma narrow_clamp:
  "lp_clamp_keyboard_shrink_pair cosmic_v1_policy 331 661 12 Horizontal = Some (360, 632)"
  "lp_clamp_keyboard_shrink_pair cosmic_v1_policy 661 331 12 Horizontal = Some (649, 343)"
  "lp_pair_admits_resize cosmic_v1_policy 992 992 Horizontal"
  by (simp_all add: cosmic_v1_policy_def clamp_keyboard_shrink_pair_def range_defs)

lemma narrow_derives:
  "derive_keyboard_pixel_shares cosmic_v1_policy (duo_tree [2, 1]) ''l2'' Left Inwards 12 (pair_geometry 661) =
    Some (PixelPlanned narrow_target [631, 359])"
  "derive_keyboard_pixel_shares cosmic_v1_policy (duo_tree [2, 1]) ''l2'' Left Outwards 12 (pair_geometry 661) =
    Some (PixelPlanned narrow_target [648, 342])"
  using narrow_numbers narrow_clamp
  by (simp_all add: derive_keyboard_pixel_shares_def pair_path keyboard_level_def keyboard_move_def Let_def
      range_defs u64_max_def narrow_target_def del: child_extents.simps)

subsection \<open>Staging\<close>

definition narrow_trees :: "nat list \<Rightarrow> trees" where
  "narrow_trees sh = [(key_a, Some (duo_tree sh)), (key_b, None)]"

lemma narrow_restaged: "om_insert key_a (Some (duo_tree sh)) (narrow_trees sh') = narrow_trees sh"
  "narrow_trees sh = narrow_trees sh' \<longleftrightarrow> sh = sh'" "tree_at (narrow_trees sh) key_a = Some (duo_tree sh)"
  "se_trees narrow_session = narrow_trees [2, 1]" "se_policy narrow_session = cosmic_v1_policy"
  by (simp_all add: narrow_trees_def duo_tree_def narrow_session_def example_session_def tree_at_def om_get_def
      key_a_def key_b_def less_domain_key_def)

lemma pair_applies:
  assumes "length sh = 2" "0 \<notin> set sh" "sum_list sh \<le> u64_max"
  shows "apply_resize_shares (duo_tree [2, 1]) ''g'' sh = Some (duo_tree sh)"
proof -
  have "wf_node (duo_tree [2, 1])" by (rule duo_tree_wf) (simp_all add: u64_max_def)
  then show ?thesis using assms by (simp add: apply_resize_iff) (simp add: duo_tree_def)
qed

lemma narrow_minimum:
  "keyboard_minimum_holds cosmic_v1_policy (pair_geometry 632) narrow_target key_a Horizontal Inwards"
  "keyboard_minimum_holds cosmic_v1_policy (pair_geometry 649) narrow_target key_a Horizontal Outwards"
  by (simp_all add: keyboard_minimum_holds_def pair_geometry_def narrow_target_def key_a_def cosmic_v1_policy_def
      range_defs Let_def)

lemma narrow_stage:
  fixes w :: int
  assumes "sh = [631, 359] \<and> w = 632 \<and> mode = Inwards \<or> sh = [648, 342] \<and> w = 649 \<and> mode = Outwards"
  shows "\<exists>answer. resize_stage narrow_session key_a ''w2'' ''l2'' (duo_tree [2, 1]) Left mode narrow_target sh
      (so_windows narrow_seen) =
    Inr (keyboard_plan key_a ''w2'' ''l2'' Left mode narrow_target sh,
      resize_desired narrow_session key_a ''l2'' (narrow_trees sh), answer)"
proof -
  have sh: "length sh = 2" "0 \<notin> set sh" "sum_list sh \<le> u64_max" "sh \<noteq> [2, 1]" "0 < w" "w < 992"
    using assms by (auto simp: u64_max_def)
  have "project_output_geometry (Some (example_domain ''A'')) (tree_at (narrow_trees sh) key_a) (se_windows narrow_session)
     key_a (hints_from_observed (so_windows narrow_seen)) = Some (pair_geometry w)"
    using assms narrow_projections(2,3) by (auto simp: narrow_restaged)
  note cov = narrow_covering [OF this sh(5,6)]
  have min: "keyboard_minimum_holds cosmic_v1_policy (pair_geometry w) narrow_target key_a Horizontal mode"
    using assms narrow_minimum by auto
  have "pt_group narrow_target = ''g''" by (simp add: narrow_target_def)
  moreover note narrow_topology [OF sh(1-3), folded narrow_trees_def]
  ultimately show ?thesis
    using sh(4) min cov pair_applies [OF sh(1-3)]
    by (simp add: resize_stage_def narrow_restaged Let_def)
qed

lemma narrow_decision:
  fixes w :: int
  assumes "sh = [631, 359] \<and> w = 632 \<and> mode = Inwards \<or> sh = [648, 342] \<and> w = 649 \<and> mode = Outwards"
  shows "\<exists>answer. resize_decision narrow_session key_a ''w2'' Left mode 0 narrow_seen resize_caps_full =
    Inr (keyboard_plan key_a ''w2'' ''l2'' Left mode narrow_target sh,
      resize_desired narrow_session key_a ''l2'' (narrow_trees sh), answer)"
proof -
  have step: "lp_keyboard_step_px cosmic_v1_policy 0 = 12"
    by (simp add: cosmic_v1_policy_def keyboard_step_px_def Let_def keyboard_previous_px_def
        keyboard_step_increment_px_def keyboard_max_step_px_def)
  have cov: "geometry_covers_affected (pair_geometry 661) (se_windows narrow_session) [key_a]"
    by (simp add: geometry_covers_affected_def covers_one_def pair_geometry_def Let_def del: set_map set_filter)
      (simp add: narrow_eval del: set_filter)
  have "derive_keyboard_pixel_shares cosmic_v1_policy (duo_tree [2, 1]) ''l2'' Left mode 12 (pair_geometry 661) =
    Some (PixelPlanned narrow_target sh)"
    using assms narrow_derives by auto
  moreover note narrow_projections(1)
  ultimately have "resize_derive narrow_session key_a ''w2'' ''l2'' Left mode 0 (so_windows narrow_seen) =
      resize_stage narrow_session key_a ''w2'' ''l2'' (duo_tree [2, 1]) Left mode narrow_target sh
      (so_windows narrow_seen)"
    using cov narrow_focus(2,3) by (simp add: resize_derive_def narrow_restaged(5) step)
  then show ?thesis
    using narrow_stage [OF assms] narrow_guard narrow_focus(1,4)
    by (simp add: resize_decision_def resize_caps_full_def)
qed

subsection \<open>Outcomes\<close>

lemma narrow_offer:
  assumes "first_reason (resize_checks (keyboard_plan key_a ''w2'' ''l2'' Left mode narrow_target sh) resize_caps_full) = None"
  shows "\<exists>d. propose_resize (keyboard_plan key_a ''w2'' ''l2'' Left mode narrow_target sh) (so_observation narrow_seen)
      ''corr-1'' resize_caps_full (se_reconciler narrow_session) = (Inr d, slot ''corr-1'' (PendingResize
        (resize_preconditions (keyboard_operation key_a ''w2'' ''l2'' Left mode narrow_target sh))
        (keyboard_operation key_a ''w2'' ''l2'' Left mode narrow_target sh) None) example_reconciler)"
proof -
  have "se_reconciler narrow_session = example_reconciler" "so_observation narrow_seen = example_observation"
    by (simp_all add: narrow_session_def narrow_seen_def)
  then show ?thesis
    unfolding propose_resize_def by (simp add: propose_with_accepts [OF example_ready example_observed token_examples(3) assms])
     (simp add: keyboard_plan_def resize_for_operation_def)
qed

lemmas resize_checks_eval = resize_checks_def keyboard_plan_def resize_for_operation_def resize_required_capability_def
  resize_preconditions_def max_preconditions_def resize_caps_full_def resize_intent_differs_def keyboard_operation_def
  valid_resize_operation_def narrow_target_def

lemma narrow_share_check: "valid_fixed_share_operation (keyboard_operation key_a ''w2'' ''l2'' Left mode narrow_target [631, 359])"
  "valid_fixed_share_operation (keyboard_operation key_a ''w2'' ''l2'' Left mode narrow_target [648, 342])"
  unfolding valid_fixed_share_iff
  by (auto simp: keyboard_operation_def narrow_target_def fixed_share_shape_def key_a_def u64_max_def moves_shares_def
      nth_Cons split: nat.splits intro!: exI [of _ 330])

lemma narrow_mode_check: "valid_keyboard_resize_mode (keyboard_operation key_a ''w2'' ''l2'' Left Outwards narrow_target [648, 342])"
  "\<not> valid_keyboard_resize_mode (keyboard_operation key_a ''w2'' ''l2'' Left Inwards narrow_target [631, 359])"
  by (simp_all add: valid_keyboard_resize_mode_def keyboard_operation_def narrow_target_def u64_max_def range_defs)

lemma propose_with_rejects:
  "ready r \<Longrightarrow> observed r ob \<Longrightarrow> is_correlation_id corr \<Longrightarrow> first_reason checks = Some reason \<Longrightarrow>
    propose_with checks d kind ob corr r = (Inl (ProposeDiverged reason), diverge reason r)"
  using observation_checks_pass [of r ob corr]
  by (simp add: propose_with_def) (simp add: ready_def)

lemma narrow_accepts: "\<exists>plan s'. session_propose_resize narrow_session key_a ''w2'' Left Outwards 0 narrow_seen
    ''corr-1'' resize_caps_full = (Inr plan, s')"
proof -
  have "first_reason (resize_checks (keyboard_plan key_a ''w2'' ''l2'' Left Outwards narrow_target [648, 342])
      resize_caps_full) = None"
    using narrow_share_check(2) [of Outwards] narrow_mode_check(1) by (simp add: resize_checks_eval)
  from narrow_offer [OF this] narrow_decision [of "[648, 342]" 649 Outwards] show ?thesis
    unfolding session_propose_resize_def when_ready_def narrow_idle by (auto simp: stage_def stage_plan_def)
qed

text \<open>
  C26. Keyboard shrinking can end the session for good. The focused window is 331 pixels wide, below the
  child minimum of 360; the shrink step is clamped up to the minimum, so the derived shares widen the
  window, and the mode check of the reconciler, which requires the opposite, diverges it terminally.
\<close>

theorem narrow_shrink_diverges:
  "fst (session_propose_resize narrow_session key_a ''w2'' Left Inwards 0 narrow_seen ''corr-1'' resize_caps_full)
     = Inl (SDiverged PostconditionMismatch)
   \<and> session_divergence (snd (session_propose_resize narrow_session key_a ''w2'' Left Inwards 0 narrow_seen ''corr-1''
       resize_caps_full)) = Some PostconditionMismatch"
proof -
  let ?plan = "keyboard_plan key_a ''w2'' ''l2'' Left Inwards narrow_target [631, 359]"
  have "first_reason (resize_checks ?plan resize_caps_full) = Some PostconditionMismatch"
    using narrow_share_check(1) [of Inwards] narrow_mode_check(2) by (simp add: resize_checks_eval)
  then have "propose_resize ?plan (so_observation narrow_seen) ''corr-1'' resize_caps_full (se_reconciler narrow_session) =
      (Inl (ProposeDiverged PostconditionMismatch), diverge PostconditionMismatch example_reconciler)"
    using example_ready example_observed
    by (simp add: propose_resize_def propose_with_rejects token_examples(3)) 
      (simp add: narrow_session_def narrow_seen_def propose_with_rejects token_examples(3))
  with narrow_decision [of "[631, 359]" 632 Inwards] show ?thesis
    unfolding session_propose_resize_def when_ready_def narrow_idle
    by (auto simp: stage_def stage_plan_def session_divergence_def diverge_def)
qed

text \<open>Witnesses.\<close>

lemma narrow_world: "se_focused_domain narrow_session = Some key_a" "se_focused_leaf narrow_session = Some ''l2''"
  by (simp_all add: narrow_session_def example_session_def)

theorem keyboard_resize_moves_boundary_witness:
  "\<exists>plan s' target new. session_propose_resize narrow_session key_a ''w2'' Left Outwards 0 narrow_seen
     ''corr-1'' resize_caps_full = (Inr plan, s') \<and> boundary_of (duo_tree [2, 1]) target ''l2'' \<and> share_move (duo_tree [2, 1]) Left target new
   \<and> se_pending s' = Some ((desired_of narrow_session)\<lparr>pe_trees :=
        om_insert key_a (Some (replace_shares (pt_group target) new (duo_tree [2, 1]))) (se_trees narrow_session)\<rparr>)"
proof -
  obtain plan s' where p: "session_propose_resize narrow_session key_a ''w2'' Left Outwards 0 narrow_seen ''corr-1''
    resize_caps_full = (Inr plan, s')" using narrow_accepts by blast
  from keyboard_resize_moves_boundary [OF narrow_inv p] p narrow_focus(2) narrow_world(2) show ?thesis by auto
qed

theorem keyboard_resize_passes_share_check_witness:
  "\<exists>target new. boundary_of (duo_tree [2, 1]) target ''l2'' \<and> share_move (duo_tree [2, 1]) Left target new
    \<and> valid_fixed_share_operation (keyboard_operation key_a ''w2'' ''l2'' Left Inwards narrow_target [631, 359])"
proof -
  obtain answer where "resize_decision narrow_session key_a ''w2'' Left Inwards 0 narrow_seen resize_caps_full =
    Inr (keyboard_plan key_a ''w2'' ''l2'' Left Inwards narrow_target [631, 359],
      resize_desired narrow_session key_a ''l2'' (narrow_trees [631, 359]), answer)"
    using narrow_decision [of "[631, 359]" 632 Inwards] by auto
  from keyboard_resize_passes_share_check [OF narrow_inv this] show ?thesis
    using narrow_focus(2) narrow_world(2) by (auto simp: keyboard_plan_def resize_for_operation_def)
qed

end
