(* ===== verification/Session_Move_Examples.thy ===== *)
theory Session_Move_Examples
  imports Session_Move_Proposal Session_Focus_Examples
begin

text \<open>
  Moves of the adjacent session: left within the first domain, right to the second. Three outputs in a
  row, each on its own workspace: no move of the first is accepted.
\<close>

subsection \<open>The planner on the adjacent session\<close>

definition pair_output :: out_topology where
  "pair_output = domain_output (se_trees adjacent_session) left_domain"

definition single_output :: out_topology where
  "single_output = domain_output (se_trees adjacent_session) right_domain"

definition adjacent_snapshot :: snapshot where
  "adjacent_snapshot = \<lparr>snap_outputs = [pair_output, single_output],
     snap_windows = [example_link ''w1'' ''l1'', example_link ''w2'' ''l2'', link_b]\<rparr>"

lemma pair_output_sel [simp]: "out_id pair_output = ''A''" "out_workspace pair_output = ''1''"
  "out_tree pair_output = Some (Group ''g'' Horizontal [Leaf ''l1'', Leaf ''l2''] [1, 1])"
  "out_adjacent pair_output = (\<lambda>d. if d = Right then Some ''B'' else None)"
  by (simp_all add: pair_output_def adjacent_eval)

lemma single_output_sel [simp]: "out_id single_output = ''B''" "out_workspace single_output = ''1''"
  "out_tree single_output = Some (Leaf ''l3'')"
  "out_adjacent single_output = (\<lambda>d. if d = Left then Some ''A'' else None)"
  by (simp_all add: single_output_def adjacent_eval)

lemma adjacent_move_snapshot: "move_snapshot adjacent_session key_a = Some adjacent_snapshot"
proof -
  have d: "se_domains adjacent_session = [left_domain, right_domain]" by (simp add: adjacent_session_def)
  have k: "domain_key_of left_domain = key_a" "od_workspace left_domain = ''1''" "od_workspace right_domain = ''1''"
    "adjacent_values (od_adjacent left_domain) = [''B'']" "dk_output key_a = ''A''"
    by (simp_all add: left_domain_def right_domain_def example_domain_def domain_key_of_def key_a_def adjacent_values_def
        List.map_filter_def all_directions_def)
  have outs: "move_outputs adjacent_session left_domain = [pair_output, single_output]"
    by (simp add: move_outputs_def d k pair_output_def [symmetric] single_output_def [symmetric])
  show ?thesis
    by (simp add: move_snapshot_def d k outs Let_def adjacent_snapshot_def)
      (simp add: adjacent_eval)
qed

lemma adjacent_snapshot_valid:
  "validate_snapshot adjacent_snapshot (move_intent_of key_a ''l2'' ''w2'' d mode) = Inr pair_output"
proof -
  have "wf_snapshot adjacent_snapshot"
    by (simp add: wf_snapshot_def adjacent_snapshot_def outputs_ok_def forest_ok_def link_ok_def tree_ids_def tree_leaves_def
        group_ok_def u64_max_def example_link_def link_b_def) blast
  then show ?thesis
    by (simp add: validate_snapshot_iff) (simp add: adjacent_snapshot_def move_intent_of_def key_a_def example_link_def link_b_def)
qed

abbreviation adjacent_intent :: "direction \<Rightarrow> move_intent" where
  "adjacent_intent d \<equiv> move_intent_of key_a ''l2'' ''w2'' d GroupWithNeighbor"

lemma adjacent_intent_sel: "mi_focused_leaf (move_intent_of k x w d mode) = x" "mi_direction (move_intent_of k x w d mode) = d"
  "mi_same_axis_move (move_intent_of k x w d mode) = mode"
  by (simp_all add: move_intent_of_def)

lemma adjacent_move_plans:
  "plan_move_with_capabilities adjacent_snapshot (adjacent_intent Left) capabilities_full
     = planned (adjacent_intent Left) (SwapNeighbor R2a ''g'' ''l1'')"
  "plan_move_with_capabilities adjacent_snapshot (adjacent_intent Right) capabilities_full
     = planned (adjacent_intent Right) (CrossOutput R4 ''B'' ''1'' 1 TargetOccupied)"
proof -
  have gate: "gate (planned i op) capabilities_full = planned i op" for i op by simp
  have path: "path_to (Group ''g'' Horizontal [Leaf ''l1'', Leaf ''l2''] [1, 1]) ''l2''
    = Some [\<lparr>pl_group = ''g'', pl_axis = Horizontal, pl_index = 1, pl_children = [Leaf ''l1'', Leaf ''l2'']\<rparr>]"
    by (simp add: path_to_def)
  have left: "plan_local (adjacent_intent Left) pair_output
      [\<lparr>pl_group = ''g'', pl_axis = Horizontal, pl_index = 1, pl_children = [Leaf ''l1'', Leaf ''l2'']\<rparr>]
    = planned (adjacent_intent Left) (SwapNeighbor R2a ''g'' ''l1'')"
    by (simp add: plan_local_def adjacent_intent_sel child_at_def plan_neighbor_def Let_def)
  have right: "plan_local (adjacent_intent Right) pair_output
      [\<lparr>pl_group = ''g'', pl_axis = Horizontal, pl_index = 1, pl_children = [Leaf ''l1'', Leaf ''l2'']\<rparr>] = Noop NoopBoundary"
    by (simp add: plan_local_def adjacent_intent_sel child_at_def Let_def)
  show "plan_move_with_capabilities adjacent_snapshot (adjacent_intent Left) capabilities_full
     = planned (adjacent_intent Left) (SwapNeighbor R2a ''g'' ''l1'')"
    unfolding plan_move_with_capabilities_def adjacent_snapshot_valid sum.case pair_output_sel option.case adjacent_intent_sel path
      Let_def left gate
    by (simp add: planned_def)
  show "plan_move_with_capabilities adjacent_snapshot (adjacent_intent Right) capabilities_full
     = planned (adjacent_intent Right) (CrossOutput R4 ''B'' ''1'' 1 TargetOccupied)"
    unfolding plan_move_with_capabilities_def adjacent_snapshot_valid sum.case pair_output_sel option.case adjacent_intent_sel path
      Let_def right
    by (simp add: plan_cross_output_def adjacent_intent_sel adjacent_snapshot_def gate)
qed

lemma adjacent_mover: "tiled_focus True adjacent_session key_a ''w2'' = Inr ''l2''"
  "card (all_node_ids (se_trees adjacent_session)) + 1 < 2 ^ 32" "se_policy adjacent_session = cosmic_v1_policy"
  "lp_plan_move cosmic_v1_policy = plan_move_with_capabilities"
proof -
  show "tiled_focus True adjacent_session key_a ''w2'' = Inr ''l2''"
    by (simp add: tiled_focus_def focused_window_for_def adjacent_eval)
  have "all_node_ids (se_trees adjacent_session) = {''g'', ''l1'', ''l2'', ''l3''}"
    by (auto simp: all_node_ids_def om_values_def adjacent_session_def)
  then show "card (all_node_ids (se_trees adjacent_session)) + 1 < 2 ^ 32" by (simp add: card_insert_if)
  show "se_policy adjacent_session = cosmic_v1_policy" by (simp add: adjacent_session_def example_session_def)
  show "lp_plan_move cosmic_v1_policy = plan_move_with_capabilities"
    by (simp add: cosmic_v1_policy_def cosmic_plan_move_with_capabilities_def)
qed

theorem planned_move_applies_witness:
  "\<exists>applied. apply_move_operation cosmic_v1_policy (se_trees adjacent_session) (se_windows adjacent_session)
      (se_domains adjacent_session) key_a ''l2'' Right
      (for_operation (adjacent_intent Right) (CrossOutput R4 ''B'' ''1'' 1 TargetOccupied)) 5 (Some ''l3'')
    = Some (Some applied)"
proof -
  have "lp_plan_move (se_policy adjacent_session) adjacent_snapshot (adjacent_intent Right) capabilities_full
      = Planned (for_operation (adjacent_intent Right) (CrossOutput R4 ''B'' ''1'' 1 TargetOccupied))"
    unfolding adjacent_mover adjacent_move_plans by (simp add: planned_def)
  from planned_move_applies [OF adjacent_inv adjacent_mover(3,2,1) adjacent_move_snapshot this]
  show ?thesis by (simp add: adjacent_mover)
qed

subsection \<open>An accepted move\<close>

lemma adjacent_move_guard: "move_guard adjacent_session key_a ''w2'' adjacent_seen = None"
proof -
  have "all_homed adjacent_session (so_windows adjacent_seen)" "valid_observed_shapes (so_windows adjacent_seen)"
    by (simp_all add: all_homed_def valid_observed_shapes_def adjacent_eval)
  then show ?thesis
    using adjacent_valid unfolding move_guard_def
    by (simp add: known_window_def adjacent_eval)
qed

definition swapped :: node where
  "swapped = Group ''g'' Horizontal [Leaf ''l2'', Leaf ''l1''] [1, 1]"

definition swapped_trees :: trees where
  "swapped_trees = [(key_a, Some swapped), (key_b, Some (Leaf ''l3''))]"

abbreviation left_plan :: move_plan where
  "left_plan \<equiv> for_operation (adjacent_intent Left) (SwapNeighbor R2a ''g'' ''l1'')"

lemma swap_applies:
  "apply_swap_neighbor (Group ''g'' Horizontal [Leaf ''l1'', Leaf ''l2''] [1, 1]) ''l2'' Left mode R2a ''g'' ''l1'' = Some swapped"
  by (simp add: apply_swap_neighbor_def swap_in_group_def neighbor_positions_def child_position_def swap_children_update
      swap_update_def swapped_def swap_at_def find_group_eq find_group_shares_eq)

lemma left_applies: "apply_move_operation cosmic_v1_policy (se_trees adjacent_session) (se_windows adjacent_session)
    (se_domains adjacent_session) key_a ''l2'' Left left_plan rv focus
  = Some (Some (swapped_trees, se_windows adjacent_session, key_a, ''l2''))"
proof -
  have "focused_window_for (se_windows adjacent_session) ''l2'' key_a = Some ''w2''"
    by (simp add: focused_window_for_def adjacent_eval)
  from for_operation_binds [OF _ this, of "SwapNeighbor R2a ''g'' ''l1''" Left GroupWithNeighbor]
  have "plan_binds (se_windows adjacent_session) key_a ''l2'' Left left_plan" by simp
  moreover have "om_insert key_a (Some swapped) (se_trees adjacent_session) = swapped_trees"
    by (simp add: adjacent_session_def swapped_trees_def)
  ultimately show ?thesis
    using adjacent_focus(3) swap_applies
    by (simp add: apply_move_operation_def attempt_def)
qed

lemma swapped_wf: "wf_node swapped"
  by (simp add: swapped_def wf_node_def group_ok_def u64_max_def)

lemma swapped_valid: "validate_topology (se_domains adjacent_session) swapped_trees (se_windows adjacent_session)
    (se_exceptions adjacent_session) (Some key_a) (Some ''l2'')"
  unfolding validate_topology_def validate_shares_wf
  using swapped_wf
  by (simp add: swapped_trees_def adjacent_eval swapped_def wf_node_def all_directions_def)

lemma swapped_geometry:
  "project_output_geometry (Some left_domain) (tree_at swapped_trees key_a) (se_windows adjacent_session)
     key_a (hints_from_observed (so_windows adjacent_seen)) =
   Some [\<lparr>dg_window = ''w2'', dg_leaf = ''l2'', dg_output = ''A'', dg_workspace = ''1'',
       dg_rect = \<lparr>rx = 0, ry = 0, rw = 496, rh = 600\<rparr>, dg_overconstrained = False, dg_clamped = False\<rparr>,
     \<lparr>dg_window = ''w1'', dg_leaf = ''l1'', dg_output = ''A'', dg_workspace = ''1'',
       dg_rect = \<lparr>rx = 504, ry = 0, rw = 496, rh = 600\<rparr>, dg_overconstrained = False, dg_clamped = False\<rparr>]"
proof -
  have "\<forall>e \<in> set (so_windows adjacent_seen). ow_hints e = hints_none"
    by (simp add: adjacent_seen_def example_entry_def)
  note plain = unhinted_plain [OF observed_unhinted [OF this]]
  have b: "rect_i32 (od_bounds left_domain)"
    by (simp add: left_domain_def example_domain_def rect_i32_def in_i32_def)
  have tree: "tree_at swapped_trees key_a = Some (Group ''g'' Horizontal [Leaf ''l2'', Leaf ''l1''] [1, 1])"
    by (simp add: swapped_trees_def swapped_def map_eval)
  show ?thesis
    unfolding project_output_geometry_def tree Let_def prod.case option.case plain [OF b]
    by (simp add: project_eval leaf_windows_def adjacent_eval)
qed

lemma swapped_covering: "\<exists>gs. covering_geometry adjacent_session swapped_trees (se_windows adjacent_session) [key_a]
    (so_windows adjacent_seen) = Some gs"
proof -
  have "find (\<lambda>d. domain_key_of d = key_a) (se_domains adjacent_session) = Some left_domain" by (simp add: adjacent_eval)
  note affected = covering_geometry_def project_affected_geometry_def affected_loop.simps option.case option.map this swapped_geometry
  show ?thesis
    unfolding affected
    by (simp add: sort_geometry_def geometry_before_def geometry_covers_affected_def covers_one_def Let_def
        del: set_map set_filter)
      (auto simp: adjacent_eval simp del: set_filter)
qed

lemma swapped_touches: "move_touches_only_allowed (se_trees adjacent_session) swapped_trees key_a (SwapNeighbor R2a ''g'' ''l1'')
    (se_domains adjacent_session)"
  by (simp add: move_touches_only_allowed_def move_target_def adjacent_session_def swapped_trees_def swapped_def map_eval
      key_a_def key_b_def)

lemma stage_move_example:
  "\<exists>d. stage (\<lambda>plan. propose plan (so_observation adjacent_seen) ''corr-1'' capabilities_full)
      (Inr (left_plan, desired, answer)) adjacent_session =
    (Inr (answer d), adjacent_session\<lparr>se_reconciler := slot ''corr-1'' (PendingMove (op_preconditions (SwapNeighbor R2a ''g'' ''l1''))
        (SwapNeighbor R2a ''g'' ''l1'')) example_reconciler, se_pending := Some desired\<rparr>)"
proof -
  have "first_reason (move_checks left_plan capabilities_full) = None"
    by (simp add: move_checks_def for_operation_def op_preconditions_def max_preconditions_def capabilities_full_def)
  note accept = propose_with_accepts [OF example_ready example_observed token_examples(3) this]
  have "\<exists>d. propose left_plan example_observation ''corr-1'' capabilities_full example_reconciler =
      (Inr d, slot ''corr-1'' (PendingMove (op_preconditions (SwapNeighbor R2a ''g'' ''l1''))
        (SwapNeighbor R2a ''g'' ''l1'')) example_reconciler)"
    unfolding propose_def accept by (simp add: for_operation_def)
  moreover have "se_reconciler adjacent_session = example_reconciler" "so_observation adjacent_seen = example_observation"
    by (simp_all add: adjacent_session_def adjacent_seen_def)
  ultimately show ?thesis by (auto simp: stage_def stage_plan_def)
qed

lemma move_goes_left: "\<exists>plan s'. propose_move_with_same_axis adjacent_session key_a ''w2'' Left adjacent_seen ''corr-1''
    capabilities_full GroupWithNeighbor = Some (Inr plan, s')"
proof -
  obtain gs where gs: "covering_geometry adjacent_session swapped_trees (se_windows adjacent_session) [key_a]
    (so_windows adjacent_seen) = Some gs" using swapped_covering by blast
  have planned: "lp_plan_move (se_policy adjacent_session) adjacent_snapshot (adjacent_intent Left) capabilities_full = Planned left_plan"
    unfolding adjacent_mover adjacent_move_plans by (simp add: planned_def)
  have "\<exists>desired answer. move_planned adjacent_session key_a ''l2'' Left left_plan adjacent_seen
      = Some (Inr (left_plan, desired, answer))"
    unfolding move_planned_def adjacent_mover left_applies move_stage_def
    by (simp add: swapped_touches swapped_valid gs move_target_def)
  then obtain desired answer where "move_decision adjacent_session key_a ''w2'' Left GroupWithNeighbor adjacent_seen capabilities_full
      = Some (Inr (left_plan, desired, answer))"
    unfolding move_decision_def adjacent_move_guard move_decision_at_def adjacent_move_snapshot
    by (auto simp: adjacent_mover(1) planned)
  with stage_move_example [of desired answer] show ?thesis
    by (auto simp: propose_move_with_same_axis_def adjacent_idle)
qed


subsection \<open>Three outputs in a row\<close>

text \<open>An invalid snapshot is rejected, and the session answers that the planner rejected the move.\<close>

lemma validate_snapshot_rejects: "validate_snapshot snap intent = Inl out \<Longrightarrow> \<exists>k m. out = Rejected k m \<and> k \<noteq> UnsupportedTopology"
  by (auto simp: validate_snapshot_def Let_def malformed_def bind_r_def split: if_splits option.splits sum.splits)

lemma unclosed_snapshot_refused:
  assumes "ready_error s = None" "move_guard s domain window obs = None" "tiled_focus True s domain window = Inr x"
    and "move_snapshot s domain = Some snap" "se_policy s = cosmic_v1_policy" "\<not> outputs_ok (snap_outputs snap)"
  shows "propose_move_with_same_axis s domain window d obs corr caps mode = Some (Inl (SRefused PlannerRejected), s)"
proof -
  let ?i = "move_intent_of domain x window d mode"
  have "\<not> (\<exists>src. validate_snapshot snap ?i = Inr src)"
    using assms(6) by (auto simp: validate_snapshot_iff wf_snapshot_def)
  then obtain out where out: "validate_snapshot snap ?i = Inl out" by (cases "validate_snapshot snap ?i") auto
  from validate_snapshot_rejects [OF this] obtain k m where k: "out = Rejected k m" "k \<noteq> UnsupportedTopology" by blast
  have "lp_plan_move (se_policy s) snap ?i caps = Rejected k m"
    using out k by (simp add: assms(5) adjacent_mover(4) plan_move_with_capabilities_def)
  then have "move_decision s domain window d mode obs caps = Some (Inl PlannerRejected)"
    using assms(2-4) k(2) by (simp add: move_decision_def move_decision_at_def)
  then show ?thesis using assms(1) by (simp add: propose_move_with_same_axis_def stage_def)
qed

definition row_domains :: "output_domain list" where
  "row_domains =
     [left_domain,
      (example_domain ''B'')\<lparr>od_workspace := ''2'',
        od_adjacent := (\<lambda>d. if d = Left then Some ''A'' else if d = Right then Some ''C'' else None)\<rparr>,
      (example_domain ''C'')\<lparr>od_workspace := ''3'', od_adjacent := (\<lambda>d. if d = Left then Some ''B'' else None)\<rparr>]"

definition row_session :: session where
  "row_session = adjacent_session\<lparr>se_domains := row_domains,
     se_trees := [(key_a, Some (Group ''g'' Horizontal [Leaf ''l1'', Leaf ''l2''] [1, 1])),
       (DomainKey ''B'' ''2'', None), (DomainKey ''C'' ''3'', None)],
     se_windows := [(''w1'', example_link ''w1'' ''l1''), (''w2'', example_link ''w2'' ''l2'')],
     se_last_active := [(key_a, ''l2'')]\<rparr>"

definition row_seen :: session_observation where
  "row_seen = adjacent_seen\<lparr>so_windows := [example_entry ''w1'' False, example_entry ''w2'' False]\<rparr>"

lemmas row_eval = adjacent_eval row_session_def row_seen_def row_domains_def

lemma row_valid: "validate_current_topology row_session"
  unfolding validate_current_topology_def validate_topology_def validate_shares_wf
  using example_pair_wf
  by (simp add: row_eval wf_node_def group_ok_def all_directions_def)

lemma row_inv: "session_inv row_session"
proof -
  have maps: "om_ok (se_trees row_session)" "om_ok (se_windows row_session)" "om_ok (se_exceptions row_session)"
    by (simp_all add: om_ok_def om_keys_def row_session_def adjacent_session_def key_a_def less_domain_key_def)
  have "world_ok (se_domains row_session) (se_trees row_session) (se_windows row_session)
      (se_exceptions row_session) (se_focused_domain row_session) (se_focused_leaf row_session)"
    using row_valid unfolding validate_current_topology_def
    by (rule validated_world [OF _ maps])
      (auto simp: row_session_def adjacent_session_def om_get_def example_link_def split: if_splits)
  moreover have "focus_resolves (Some key_a) (Some ''l1'') (se_trees row_session) (se_windows row_session)"
    "focus_resolves (Some key_a) (Some ''l2'') (se_trees row_session) (se_windows row_session)"
    by (simp_all add: focus_resolves_def row_eval)
  then have "stack_ok (se_focus_stack row_session) (se_trees row_session) (se_windows row_session)"
    by (auto simp: stack_ok_def row_session_def adjacent_session_def example_session_def om_ok_def om_keys_def om_get_def)
  ultimately have "current_ok row_session"
    by (simp add: current_ok_def active_ok_def)
      (simp add: row_session_def adjacent_session_def example_session_def om_ok_def om_keys_def om_contains_def om_get_def)
  moreover have "bound_ok row_session"
    using adjacent_inv by (simp add: session_inv_def bound_ok_def row_session_def)
  ultimately show ?thesis
    by (simp add: session_inv_def) (simp add: row_session_def adjacent_session_def example_session_def)
qed

lemma row_snapshot: "\<exists>snap. move_snapshot row_session key_a = Some snap \<and> \<not> outputs_ok (snap_outputs snap)"
proof -
  have d: "se_domains row_session = row_domains" by (simp add: row_session_def)
  have k: "domain_key_of left_domain = key_a" "od_workspace left_domain = ''1''" "od_id left_domain = ''A''"
    "adjacent_values (od_adjacent left_domain) = [''B'']" "dk_output key_a = ''A''"
    by (simp_all add: left_domain_def example_domain_def domain_key_of_def key_a_def adjacent_values_def
        List.map_filter_def all_directions_def)
  let ?mid = "(example_domain ''B'')\<lparr>od_workspace := ''2'',
        od_adjacent := (\<lambda>d. if d = Left then Some ''A'' else if d = Right then Some ''C'' else None)\<rparr>"
  have outs: "move_outputs row_session left_domain
      = [domain_output (se_trees row_session) left_domain, domain_output (se_trees row_session) ?mid]"
    by (simp add: move_outputs_def d row_domains_def k) (simp add: example_domain_def)
  moreover have "\<not> outputs_ok [domain_output (se_trees row_session) left_domain, domain_output (se_trees row_session) ?mid]"
    by (simp add: outputs_ok_def k) (auto simp: example_domain_def)
  ultimately show ?thesis
    by (simp add: move_snapshot_def d row_domains_def k Let_def)
qed

lemma row_ready: "ready_error row_session = None" "tiled_focus True row_session key_a ''w2'' = Inr ''l2''"
  "move_guard row_session key_a ''w2'' row_seen = None" "se_policy row_session = cosmic_v1_policy"
proof -
  show "ready_error row_session = None"
    by (simp add: ready_error_def session_divergence_def has_pending_def status_def row_session_def adjacent_session_def)
      (simp add: example_reconciler_def)
  show "tiled_focus True row_session key_a ''w2'' = Inr ''l2''"
    by (simp add: tiled_focus_def focused_window_for_def row_eval)
  have "all_homed row_session (so_windows row_seen)" "valid_observed_shapes (so_windows row_seen)"
    by (simp_all add: all_homed_def valid_observed_shapes_def row_eval)
  then show "move_guard row_session key_a ''w2'' row_seen = None"
    using row_valid unfolding move_guard_def
    by (simp add: known_window_def row_eval)
  show "se_policy row_session = cosmic_v1_policy" using adjacent_mover(3) by (simp add: row_session_def)
qed

text \<open>
  C18. On three outputs in a row, each on its own workspace (domains that the session's own adjacency check
  accepts), every move of the first output's window is refused as rejected by the planner, also the swap
  with its neighbour, which involves no other output and which the session could apply: the snapshot holds
  the source and its neighbour, the neighbour is adjacent to the third output, and the planner demands that
  all adjacencies stay within the snapshot.
\<close>

theorem row_moves_refused:
  shows "session_inv row_session \<and> validate_adjacency (se_domains row_session)
    \<and> tree_at (se_trees row_session) key_a = Some (Group ''g'' Horizontal [Leaf ''l1'', Leaf ''l2''] [1, 1])
    \<and> apply_swap_neighbor (Group ''g'' Horizontal [Leaf ''l1'', Leaf ''l2''] [1, 1]) ''l2'' Left mode R2a ''g'' ''l1'' = Some swapped
    \<and> propose_move_with_same_axis row_session key_a ''w2'' d row_seen corr caps mode
      = Some (Inl (SRefused PlannerRejected), row_session)"
proof (intro conjI)
  show "session_inv row_session" by (rule row_inv)
  show "validate_adjacency (se_domains row_session)"
    by (simp add: validate_adjacency_def row_eval all_directions_def)
  show "tree_at (se_trees row_session) key_a = Some (Group ''g'' Horizontal [Leaf ''l1'', Leaf ''l2''] [1, 1])"
    by (simp add: row_eval)
  show "apply_swap_neighbor (Group ''g'' Horizontal [Leaf ''l1'', Leaf ''l2''] [1, 1]) ''l2'' Left mode R2a ''g'' ''l1'' = Some swapped"
    by (rule swap_applies)
  show "propose_move_with_same_axis row_session key_a ''w2'' d row_seen corr caps mode
      = Some (Inl (SRefused PlannerRejected), row_session)"
    using row_snapshot unclosed_snapshot_refused [OF row_ready(1,3,2) _ row_ready(4)] by blast
qed

end
