(* ===== verification/Session_Drag_Examples.thy ===== *)
theory Session_Drag_Examples
  imports Session_Drag_Proposal Session_Move_Examples
begin

text \<open>
  Drags of the adjacent session: its second window onto the left edge of the first. In a row of three, a
  drop between two neighbours that lands behind both.
\<close>

subsection \<open>The capture\<close>

definition example_capture :: drag_state where
  "example_capture = \<lparr>ds_domain = key_a, ds_source_leaf = ''l2'', ds_source_window = ''w2'',
     ds_revision = accepted_revision adjacent_session, ds_generation = ''gen-1'', ds_trees = se_trees adjacent_session,
     ds_windows = se_windows adjacent_session, ds_exceptions = [], ds_focused_domain = Some key_a,
     ds_focused_leaf = Some ''l2'', ds_source_rect = \<lparr>rx = 504, ry = 0, rw = 496, rh = 600\<rparr>,
     ds_work_area = \<lparr>rx = 0, ry = 0, rw = 1000, rh = 600\<rparr>, ds_prior = None\<rparr>"

lemma adjacent_complete: "validate_current_topology adjacent_session" "valid_observed_shapes (so_windows adjacent_seen)"
    "all_homed adjacent_session (so_windows adjacent_seen)" "observed_ids adjacent_seen = known_ids adjacent_session"
    "observed_known_match adjacent_session (so_windows adjacent_seen) None" "\<not> om_contains (se_exceptions adjacent_session) w"
  using adjacent_valid
  by (simp_all add: all_homed_def valid_observed_shapes_def observed_ids_def known_ids_def observed_known_match_def adjacent_eval)

lemma example_drag_guard: "drag_guard adjacent_session ''w2'' adjacent_seen = None"
proof -
  have "ob_owner (so_observation adjacent_seen) = se_owner adjacent_session"
    "ob_generation (so_observation adjacent_seen) = se_generation adjacent_session"
    "ob_revision (so_observation adjacent_seen) = accepted_revision adjacent_session"
    by (simp_all add: accepted_revision_def adjacent_eval) (simp_all add: example_observation_def example_reconciler_def)
  then show ?thesis using adjacent_complete by (simp add: drag_guard_def)
qed

lemma example_captured: "capture_state adjacent_session ''w2'' adjacent_seen = Inr example_capture"
proof -
  have s: "om_get (se_windows adjacent_session) ''w2'' = Some (example_link ''w2'' ''l2'')"
    "find (\<lambda>d. domain_key_of d = key_a) (se_domains adjacent_session) = Some left_domain"
    "link_key (example_link ''w2'' ''l2'') = key_a" "link_leaf (example_link ''w2'' ''l2'') = ''l2''"
    "se_focused_domain adjacent_session = Some key_a" "se_focused_leaf adjacent_session = Some ''l2''"
    "observed_entry ''w2'' (so_windows adjacent_seen) = Some (example_entry ''w2'' False)"
    "\<not> flags_any (ow_flags (example_entry ''w2'' False))"
    by (simp_all add: adjacent_eval)
  show ?thesis
    unfolding capture_state_def s option.case Let_def adjacent_geometry
    using s by (simp add: example_capture_def) (simp add: adjacent_eval)
qed

lemma example_begun: "begin_drag ''w2'' adjacent_seen adjacent_session
    = (Inr (drag_capture_of example_capture), captured adjacent_session example_capture None)"
  by (simp add: begin_drag_def adjacent_idle example_drag_guard example_captured captured_def)
    (simp add: example_capture_def)

subsection \<open>The target\<close>

definition held_pair :: node where
  "held_pair = Group ''g'' Horizontal [Leaf ''l1'', Leaf ''l2''] [1, 1]"

definition dragged :: node where
  "dragged = Group ''grp-l2-r7-drag'' Horizontal [Leaf ''l2'', Leaf ''l1''] [1, 1]"

definition example_shared :: shared_drag where
  "example_shared = \<lparr>sd_target_leaf = ''l1'', sd_target_window = ''w1'',
     sd_target_rect = \<lparr>rx = 0, ry = 0, rw = 496, rh = 600\<rparr>, sd_side = DragLeft, sd_axis = Horizontal, sd_before = True,
     sd_placement = \<lparr>pm_tree = dragged, pm_target_group = ''l1'', pm_insertion_index = 0, pm_wrap = True,
       pm_new_group = Some ''grp-l2-r7-drag''\<rparr>, sd_next_prior = None\<rparr>"

lemma pair_projects: "project held_pair (od_bounds left_domain) (od_gap left_domain)
    = Inr [\<lparr>pleaf = ''l1'', prect = \<lparr>rx = 0, ry = 0, rw = 496, rh = 600\<rparr>\<rparr>,
      \<lparr>pleaf = ''l2'', prect = \<lparr>rx = 504, ry = 0, rw = 496, rh = 600\<rparr>\<rparr>]"
  by (simp add: held_pair_def left_domain_def example_domain_def project_eval)

lemma drag_group_name: "generate_drag_group_id ''l2'' 7 {''l1''} = Some ''grp-l2-r7-drag''"
proof -
  have "decimal 7 = ''7''" by code_simp
  then show ?thesis by (simp add: generate_drag_group_id_def)
qed

lemma example_placement: "apply_drag_placement cosmic_v1_policy held_pair ''l2'' ''l1'' DragLeft 7
    = Some (Some (sd_placement example_shared))"
proof -
  have w: "remove_leaf_from_tree cosmic_v1_policy (Some held_pair) ''l2'' = Some (Leaf ''l1'')"
    by (simp add: held_pair_def remove_leaf_from_tree_def cosmic_v1_policy_def)
  have wrap: "wrap_leaf cosmic_v1_policy (Leaf ''l1'') ''l2'' ''l1'' Horizontal True 7 = Some (Some (sd_placement example_shared))"
    by (simp add: wrap_leaf_def drag_group_name wrapped_root_def pair_group_def example_shared_def dragged_def cosmic_v1_policy_def new_group_shares_def)
  show ?thesis by (simp add: apply_drag_placement_def attempt_def w wrap)
qed

lemma example_resolved:
  "drag_resolution (captured adjacent_session example_capture q) (example_capture\<lparr>ds_prior := q\<rparr>) 10 300
    = Inr (held_pair, Some (Inr example_shared))"
proof -
  let ?c = "example_capture\<lparr>ds_prior := q\<rparr>"
  have s: "tree_at (se_trees adjacent_session) key_a = Some held_pair"
    "find (\<lambda>d. domain_key_of d = key_a) (se_domains adjacent_session) = Some left_domain"
    "se_policy adjacent_session = cosmic_v1_policy" "focused_window_for (se_windows adjacent_session) ''l1'' key_a = Some ''w1''"
    "\<not> om_contains (se_exceptions adjacent_session) ''w1''"
    by (simp_all add: held_pair_def focused_window_for_def adjacent_eval)
  have c: "ds_domain ?c = key_a" "ds_source_leaf ?c = ''l2''" "contains_point (ds_work_area example_capture) 10 300" "ds_revision ?c = 7"
    by (simp_all add: example_capture_def contains_point_def range_defs accepted_revision_def adjacent_session_def example_reconciler_def)
  let ?rects = "om_from_list [(''l1'', \<lparr>rx = 0, ry = 0, rw = 496, rh = 600\<rparr>), (''l2'', \<lparr>rx = 504, ry = 0, rw = 496, rh = 600\<rparr>)]"
  have l1: "om_get ?rects ''l1'' = Some \<lparr>rx = 0, ry = 0, rw = 496, rh = 600\<rparr>" by (simp add: om_get_from_list)
  have "distinct (node_ids held_pair)" by (simp add: held_pair_def)
  from drag_walk_subnode [OF this subnodes_self, of "child_contains ?rects (layout_by_id ?rects held_pair) 10 300"]
  have walk: "drag_walk held_pair (child_contains ?rects (layout_by_id ?rects held_pair) 10 300) (ident held_pair) = Some (Some (Leaf ''l1''))"
    unfolding held_pair_def descend.simps descend_in.simps child_contains_def node.case l1
    by (simp add: contains_point_def range_defs)
  have side: "lp_classify_window_point cosmic_v1_policy \<lparr>rx = 0, ry = 0, rw = 496, rh = 600\<rparr> 10 300 = Some DragLeft"
    by (simp add: cosmic_v1_policy_def classify_window_point_def wrapping_add_i32_def rust_div_def range_defs)
  have "resolve_window cosmic_v1_policy held_pair ?rects (se_windows adjacent_session) (se_exceptions adjacent_session) ?c 10 300 ''l1''
      = Some (Inr example_shared)"
    unfolding resolve_window_def c l1 option.case side s example_placement
    using s(5) by (simp add: resolved_as_def drag_side_is_stack_def) (simp add: example_shared_def)
  then show ?thesis
    unfolding drag_resolution_def captured_def
    by (simp add: c s resolve_drag_shared_def pair_projects walk Let_def)
qed

subsection \<open>The release\<close>

definition dragged_trees :: trees where
  "dragged_trees = [(key_a, Some dragged), (key_b, Some (Leaf ''l3''))]"

lemma dragged_inserted: "om_insert key_a (Some dragged) (se_trees adjacent_session) = dragged_trees"
  by (simp add: adjacent_session_def dragged_trees_def)

lemma dragged_valid: "validate_topology (se_domains adjacent_session) dragged_trees (se_windows adjacent_session)
    (se_exceptions adjacent_session) (Some key_a) (Some ''l2'')"
proof -
  have "wf_node dragged" by (simp add: dragged_def wf_node_def group_ok_def u64_max_def)
  then show ?thesis
    unfolding validate_topology_def validate_shares_wf
    by (simp add: dragged_trees_def adjacent_eval dragged_def wf_node_def all_directions_def)
qed

definition dragged_geometry :: "desired_geometry list" where
  "dragged_geometry = [\<lparr>dg_window = ''w2'', dg_leaf = ''l2'', dg_output = ''A'', dg_workspace = ''1'',
       dg_rect = \<lparr>rx = 0, ry = 0, rw = 496, rh = 600\<rparr>, dg_overconstrained = False, dg_clamped = False\<rparr>,
     \<lparr>dg_window = ''w1'', dg_leaf = ''l1'', dg_output = ''A'', dg_workspace = ''1'',
       dg_rect = \<lparr>rx = 504, ry = 0, rw = 496, rh = 600\<rparr>, dg_overconstrained = False, dg_clamped = False\<rparr>]"

lemma dragged_projects:
  "project_output_geometry (Some left_domain) (tree_at dragged_trees key_a) (se_windows adjacent_session)
     key_a (hints_from_observed (so_windows adjacent_seen)) = Some dragged_geometry"
proof -
  have "\<forall>e \<in> set (so_windows adjacent_seen). ow_hints e = hints_none"
    by (simp add: adjacent_seen_def example_entry_def)
  note plain = unhinted_plain [OF observed_unhinted [OF this]]
  have b: "rect_i32 (od_bounds left_domain)"
    by (simp add: left_domain_def example_domain_def rect_i32_def in_i32_def)
  have tree: "tree_at dragged_trees key_a = Some (Group ''grp-l2-r7-drag'' Horizontal [Leaf ''l2'', Leaf ''l1''] [1, 1])"
    by (simp add: dragged_trees_def dragged_def map_eval)
  show ?thesis
    unfolding project_output_geometry_def tree Let_def prod.case option.case plain [OF b]
    by (simp add: project_eval leaf_windows_def adjacent_eval dragged_geometry_def)
qed

lemma left_found: "find (\<lambda>d. domain_key_of d = key_a) (se_domains adjacent_session) = Some left_domain"
  by (simp add: adjacent_eval)

lemma dragged_affected: "\<exists>gs. project_affected_geometry (se_domains adjacent_session) dragged_trees (se_windows adjacent_session)
    [key_a] (hints_from_observed (so_windows adjacent_seen)) = Some gs
  \<and> covering_geometry adjacent_session dragged_trees (se_windows adjacent_session) [key_a] (so_windows adjacent_seen) = Some gs
  \<and> find (\<lambda>g. dg_leaf g = ''l2'') gs = Some (hd dragged_geometry)"
proof -
  note affected = covering_geometry_def project_affected_geometry_def affected_loop.simps option.case option.map left_found dragged_projects
  show ?thesis
    unfolding affected
    by (simp add: sort_geometry_def geometry_before_def geometry_covers_affected_def covers_one_def Let_def dragged_geometry_def
        del: set_map set_filter)
      (auto simp: adjacent_eval simp del: set_filter)
qed

definition drag_full :: drag_capabilities where
  "drag_full = \<lparr>place_tiled = True\<rparr>"

abbreviation carried :: "prior_group_edge option \<Rightarrow> session" where
  "carried q \<equiv> captured adjacent_session example_capture q"

lemma adjacent_policy: "se_policy adjacent_session = cosmic_v1_policy"
  by (simp add: adjacent_session_def example_session_def)

lemma carried_as: "validate_current_topology (carried q)" "session_divergence (carried q) = None" "\<not> has_pending (carried q)"
  "all_homed (carried q) (so_windows adjacent_seen)" "observed_ids adjacent_seen = known_ids (carried q)"
  "observed_known_match (carried q) (so_windows adjacent_seen) None" "\<not> drag_capture_stale (carried q) (example_capture\<lparr>ds_prior := q\<rparr>)"
proof -
  have parts: "session_divergence adjacent_session = None" "\<not> has_pending adjacent_session"
    using adjacent_idle by (simp_all add: ready_error_def split: option.splits if_splits)
  show "validate_current_topology (carried q)" using adjacent_complete(1) by (simp add: captured_def validate_current_topology_def)
  show "session_divergence (carried q) = None" using parts(1) by (simp add: captured_def session_divergence_def)
  show "\<not> has_pending (carried q)" using parts(2) by (simp add: captured_def has_pending_def)
  show "all_homed (carried q) (so_windows adjacent_seen)" using adjacent_complete(3) by (simp add: captured_def all_homed_def)
  show "observed_ids adjacent_seen = known_ids (carried q)" using adjacent_complete(4) by (simp add: captured_def known_ids_def)
  show "observed_known_match (carried q) (so_windows adjacent_seen) None"
    using adjacent_complete(5) by (simp add: captured_def observed_known_match_def Let_def cong: option.case_cong)
  show "\<not> drag_capture_stale (carried q) (example_capture\<lparr>ds_prior := q\<rparr>)"
    by (simp add: drag_capture_stale_def captured_def example_capture_def accepted_revision_def)
      (simp add: adjacent_session_def example_session_def)
qed

lemma example_decides: "\<exists>plan desired answer. drop_decision (carried q') (example_capture\<lparr>ds_prior := q\<rparr>) held_pair example_shared
    adjacent_seen drag_full = Some (plan, desired, (\<lambda>d. DragPlanned (answer d))) \<and> plan = drag_plan_of (example_capture\<lparr>ds_prior := q\<rparr>) example_shared"
proof -
  have c: "ds_domain (example_capture\<lparr>ds_prior := q\<rparr>) = key_a" "ds_source_leaf (example_capture\<lparr>ds_prior := q\<rparr>) = ''l2''"
    by (simp_all add: example_capture_def)
  have pm: "pm_tree (sd_placement example_shared) = dragged" "dragged \<noteq> held_pair" by (simp_all add: example_shared_def dragged_def held_pair_def)
  have world: "se_trees (carried q') = se_trees adjacent_session" "se_windows (carried q') = se_windows adjacent_session"
    "se_domains (carried q') = se_domains adjacent_session" "se_exceptions (carried q') = se_exceptions adjacent_session"
    by (simp_all add: captured_def)
  have cover: "covering_geometry (carried q') = covering_geometry adjacent_session"
    by (intro ext) (simp add: covering_geometry_def captured_def)
  show ?thesis
    using dragged_affected dragged_valid
    by (auto simp: drop_decision_def Let_def c pm world cover dragged_inserted drag_full_def)
qed

lemma example_capture_of: "capture_of adjacent_session ''w2'' example_capture"
  by (simp add: capture_of_def example_capture_def drag_capture_stale_def) (simp add: adjacent_eval)

lemma example_released: "\<exists>plan s'. drop_drag 10 300 adjacent_seen ''corr-1'' drag_full (carried q) = Some (Inr (DragPlanned plan), s')"
proof -
  let ?c = "example_capture\<lparr>ds_prior := q\<rparr>"
  have prior: "sd_next_prior example_shared = None" by (simp add: example_shared_def)
  obtain plan desired answer where d: "drop_decision (carried None) ?c held_pair example_shared adjacent_seen drag_full
      = Some (plan, desired, (\<lambda>d. DragPlanned (answer d)))" "plan = drag_plan_of ?c example_shared"
    using example_decides [of None q] by blast
  have "capture_of adjacent_session ''w2'' example_capture" by (rule example_capture_of)
  from cosmic.planned_checks [OF adjacent_inv adjacent_policy this example_resolved [of q], of drag_full]
  have "first_reason (drag_checks plan drag_full) = None" by (simp add: d(2) drag_full_def)
  note accepts = propose_with_accepts [OF example_ready example_observed token_examples(3) this]
  have "se_reconciler (carried None) = example_reconciler" "so_observation adjacent_seen = example_observation"
    by (simp_all add: captured_def adjacent_session_def adjacent_seen_def example_session_def)
  then have "\<exists>plan s'. drop_resolved (carried q) ?c held_pair example_shared adjacent_seen ''corr-1'' drag_full
      = (Inr (DragPlanned plan), s')"
    by (simp add: drop_resolved_def Let_def prior d(1) stage_plan_def propose_drag_def accepts)
  then show ?thesis
    using carried_as [of q] adjacent_complete(2) example_resolved [of q]
    by (simp add: drop_drag_def)
qed

subsection \<open>The properties on the example\<close>

theorem drag_is_transactional_witness: "\<exists>b. cancel_drag (carried None) = (Some b, adjacent_session)"
  using drag_is_transactional [OF adjacent_inv example_begun rtranclp.rtrancl_refl] by blast


theorem release_never_diverges_witness:
  "\<exists>plan s'. drop_drag 10 300 adjacent_seen ''corr-1'' drag_full (carried None) = Some (Inr (DragPlanned plan), s')
    \<and> session_divergence s' = None"
proof -
  obtain plan s' where d: "drop_drag 10 300 adjacent_seen ''corr-1'' drag_full (carried None) = Some (Inr (DragPlanned plan), s')"
    using example_released [of None] by blast
  have r: "se_reconciler adjacent_session = example_reconciler" "so_observation adjacent_seen = example_observation"
    by (simp_all add: adjacent_session_def adjacent_seen_def example_session_def)
  have "ready (se_reconciler adjacent_session)" "observed (se_reconciler adjacent_session) (so_observation adjacent_seen)"
    unfolding r by (rule example_ready example_observed)+
  from release_never_diverges [OF adjacent_inv adjacent_policy this(1) example_begun rtranclp.rtrancl_refl this(2) token_examples(3) d] d
  show ?thesis by blast
qed

theorem drag_returns_witness: "preview_drag 10 300 (so_windows adjacent_seen) (carried None) \<noteq> None"
  using drag_returns [OF adjacent_inv adjacent_policy adjacent_mover(2) example_begun rtranclp.rtrancl_refl] by blast


subsection \<open>A drop between two neighbours\<close>

definition row_of_three :: node where
  "row_of_three = Group ''g'' Horizontal [Leaf ''a'', Leaf ''b'', Leaf ''c''] [1, 1, 1]"

definition row_links :: links where
  "row_links = [(''wa'', example_link ''wa'' ''a''), (''wb'', example_link ''wb'' ''b''), (''wc'', example_link ''wc'' ''c'')]"

definition row_capture :: drag_state where
  "row_capture = example_capture\<lparr>ds_source_leaf := ''a'', ds_source_window := ''wa''\<rparr>"

definition row_rects :: "(node_id, rect) omap" where
  "row_rects = [(''a'', \<lparr>rx = 0, ry = 0, rw = 328, rh = 600\<rparr>), (''b'', \<lparr>rx = 336, ry = 0, rw = 328, rh = 600\<rparr>),
     (''c'', \<lparr>rx = 672, ry = 0, rw = 328, rh = 600\<rparr>)]"

definition row_layout :: group_layout where
  "row_layout = \<lparr>gl_id = ''g'', gl_axis = Horizontal, gl_rect = \<lparr>rx = 0, ry = 0, rw = 1000, rh = 600\<rparr>,
     gl_child_starts = [0, 336, 672]\<rparr>"

lemma row_projects: "project row_of_three (od_bounds left_domain) (od_gap left_domain)
    = Inr (map (\<lambda>(i, r). \<lparr>pleaf = i, prect = r\<rparr>) row_rects)"
  by (simp add: row_of_three_def row_rects_def left_domain_def example_domain_def project_eval)

lemma row_layouts: "layout_by_id row_rects row_of_three = [(''g'', row_layout)]"
  by (simp add: layout_by_id_def row_of_three_def row_rects_def row_layout_def group_layout_of_def known_rects_def
      List.map_filter_def om_get_def bounding_rect_def to_i32_or_def range_defs child_start_def origin_along_def collect_leaves_def
      om_from_list_def om_empty_def)

lemma row_between: "descend (child_contains row_rects [(''g'', row_layout)] 668 300) row_of_three = row_of_three"
  by (simp add: row_of_three_def child_contains_def row_rects_def om_get_def contains_point_def range_defs)

lemma row_placed: "apply_group_interior_placement cosmic_v1_policy row_of_three ''a'' ''g'' 1
    = Some \<lparr>pm_tree = Group ''g'' Horizontal [Leaf ''b'', Leaf ''c'', Leaf ''a''] [1, 1, 1], pm_target_group = ''g'',
        pm_insertion_index = 2, pm_wrap = False, pm_new_group = None\<rparr>"
proof -
  have shares: "proportional_removal_shares [1, 1, 1] 0 = Some [1, 1]" "proportional_insertion_shares [1, 1] 2 = Some [1, 1, 1]"
    by (simp_all add: proportional_removal_shares_def proportional_insertion_shares_def normalize_shares_def gcd_all_eq range_defs
        u64_max_def Let_def numeral_2_eq_2)
  have removed: "remove_leaf_from_tree cosmic_v1_policy (Some row_of_three) ''a'' = Some (Group ''g'' Horizontal [Leaf ''b'', Leaf ''c''] [1, 1])"
    using shares(1) by (simp add: remove_leaf_from_tree_def row_of_three_def cosmic_v1_policy_def)
  have "lp_insertion_shares cosmic_v1_policy [1, 1] (Suc (Suc 0)) = Some [1, 1, 1]"
    using shares(2) by (simp add: cosmic_v1_policy_def numeral_2_eq_2)
  then show ?thesis
    by (simp add: apply_group_interior_placement_def removed inserted_at_def collect_leaves_def insert_at_def)
qed

text \<open>
  In a row of three windows the first is dropped in the gap between the other two. The resolver looks its
  predecessor up among the children with the dragged window still there and inserts behind it after the
  removal, so the window lands at the end of the row and not between its neighbours.
\<close>

theorem interior_drop_overshoots:
  "\<exists>r. resolve_drag_shared cosmic_v1_policy row_of_three left_domain row_links om_empty row_capture 668 300 = Some (Inr r)
    \<and> collect_leaves (pm_tree (sd_placement r)) = [''b'', ''c'', ''a'']"
proof -
  have c: "contains_point (ds_work_area row_capture) 668 300" "ds_source_leaf row_capture = ''a''" "ds_domain row_capture = key_a"
    "ds_source_window row_capture = ''wa''" "ds_prior row_capture = None"
    by (simp_all add: row_capture_def example_capture_def contains_point_def range_defs)
  have "om_from_list (map (\<lambda>q. (pleaf q, prect q)) (map (\<lambda>(i, r). \<lparr>pleaf = i, prect = r\<rparr>) row_rects)) = row_rects"
    by (simp add: row_rects_def om_from_list_def om_empty_def)
  note rects = this
  have "distinct (node_ids row_of_three)" by (simp add: row_of_three_def)
  from drag_walk_subnode [OF this subnodes_self, of "child_contains row_rects [(''g'', row_layout)] 668 300"]
  have walk: "drag_walk row_of_three (child_contains row_rects [(''g'', row_layout)] 668 300) (ident row_of_three) = Some (Some row_of_three)"
    by (simp add: row_between)
  have rep: "drag_representative row_of_three ''g'' row_links om_empty row_capture = Some ''wb''"
    by (simp add: drag_representative_def group_rep_window_def c row_of_three_def collect_leaves_def row_links_def
        om_values_def om_get_def om_contains_def om_empty_def example_link_def homed_def key_a_def)
  have edge: "lp_classify_group_point cosmic_v1_policy (gl_rect row_layout) ''g'' 668 300 None = None"
    by (simp add: cosmic_v1_policy_def row_layout_def classify_group_point_def group_edge_depth_for_def group_edge_inactive_px_def group_edge_active_px_def
        range_defs Let_def)
  have pred: "lp_insertion_index_for_offset cosmic_v1_policy (gl_child_starts row_layout) 668 = 1"
    by (simp add: cosmic_v1_policy_def row_layout_def insertion_index_for_offset_def range_defs)
  have "resolve_group cosmic_v1_policy row_of_three row_links om_empty row_capture 668 300 row_layout
      = resolved_as ''g'' ''wb'' (gl_rect row_layout) DragLeft None
          (Some (apply_group_interior_placement cosmic_v1_policy row_of_three ''a'' ''g'' 1))"
    unfolding resolve_group_def c
    by (simp add: rep edge pred Let_def row_layout_def [THEN arg_cong, of gl_id, simplified] row_layout_def [THEN arg_cong, of gl_axis, simplified])
  moreover have "resolve_drag_shared cosmic_v1_policy row_of_three left_domain row_links om_empty row_capture 668 300
      = resolve_group cosmic_v1_policy row_of_three row_links om_empty row_capture 668 300 row_layout"
    unfolding resolve_drag_shared_def row_projects sum.case Let_def rects row_layouts walk
    using c(1) by (simp add: row_of_three_def om_get_def)
  ultimately show ?thesis
    unfolding row_placed by (simp add: resolved_as_def collect_leaves_def)
qed

end
