(* ===== verification/Spec2Isabelle.thy ===== *)
theory Spec2Isabelle
  imports TilerPrelude Topology Geometry Movement Focus_Resize Ids Contract Reconcile Cosmic Policy
    Session_Tree Size_Hints Output_Selection Active_Group Workspace_Policy
    Ordered_Map Session_World Session_Topology Session_Transaction Session_Relocation Session_Proposal
    Session_Lifecycle Session_Transfer Session_Focus Session_Machine Session_Commitment Session_Examples Session_Focus_Examples
    Session_Resize Session_Resize_Exact Session_Resize_Examples
    Session_Move Session_Move_Tree Session_Move_Exact Session_Move_Plans Session_Move_Proposal Session_Move_Examples
    Session_Drag Session_Drag_Exact Session_Drag_Proposal Session_Drag_Examples
begin

text \<open>
  A verification library for \<open>tiler-core\<close>, the portable core of the omnitiler window manager
  (\<open>src/crates/tiler-core/src\<close>).

  The core holds, per output and workspace, a tree of groups and leaves (\<open>Node\<close>); planners turn a
  snapshot of these trees and a directional intent into a plan; the reconciler owns the revision
  and lets one plan at a time be dispatched, acknowledged and verified; the projection turns a tree
  with integer shares into pixel rectangles; the COSMIC v1 policy owns the share arithmetic, the
  resize clamps and the drag zones.

  Theories.
    \<^item> TilerPrelude: machine integers as \<open>int\<close> or \<open>nat\<close> with explicit ranges, Rust's checked
      operations as options, the \<open>?\<close> operator as \<open>bind_r\<close>, list insertion and removal by index.
    \<^item> Topology: \<open>directional.rs\<close>, the tree type, snapshots, ancestor paths, share validation.
    \<^item> Movement: \<open>validate_snapshot\<close>, the movement planner and its capability gate.
    \<^item> Focus_Resize: \<open>plan_focus\<close>, \<open>expected_resize_shares\<close>, \<open>apply_resize_shares\<close>,
      \<open>plan_resize_step\<close>.
    \<^item> Geometry: \<open>geometry.rs\<close>, the projection of a tree onto a rectangle.
    \<^item> Ids and Contract: \<open>ids.rs\<close> and \<open>contract.rs\<close>, the values that cross the boundary.
    \<^item> Reconcile: \<open>reconcile.rs\<close>, the reconciler as a state machine; the locales \<open>proposal\<close> and
      \<open>verification\<close> state the contract that its seven propose and five verify calls share, and
      \<open>protocol_step\<close> is the abstract machine that every call refines.
    \<^item> Cosmic: \<open>cosmic_v1.rs\<close> and \<open>bounds.rs\<close>.
    \<^item> Policy: \<open>policy.rs\<close>; the trait object is a record of functions, the locale \<open>share_policy\<close> the
      contract the tree operations rely on.
    \<^item> Session_Tree: the tree operations of \<open>session.rs\<close> (admission, removal, insertion, swap).
    \<^item> Ordered_Map: Rust's \<open>BTreeMap\<close> as a sorted association list; the locale \<open>ordered_map\<close> states the
      laws of lookup, insertion, removal and iteration that the session theories use.
    \<^item> Session_World: the session record, construction, queries, focus memory, \<open>validate_topology\<close>,
      gap updates, relocation and focus synchronization (\<open>session.rs\<close>, \<open>session/world.rs\<close>).
    \<^item> Session_Topology: what the topology check decides.
    \<^item> Session_Transaction: acknowledgement, cancellation, the five verifications and the session
      invariant; the locale of a verification family is interpreted for each family.
    \<^item> Session_Relocation: relocating a domain and back.
    \<^item> Session_Proposal, Session_Lifecycle, Session_Transfer: staging; admission, removal and orientation
      toggle; moves to a workspace or output and the float toggle (\<open>session/ops/lifecycle.rs\<close>,
      \<open>toggle_orientation.rs\<close>, \<open>workspace.rs\<close>, \<open>float.rs\<close>).
    \<^item> Session_Focus: the guards of a directed proposal, directional and cross-output focus
      (\<open>session/ops/focus.rs\<close>).
    \<^item> Session_Resize, Session_Resize_Exact: keyboard resize (\<open>session/ops/resize.rs\<close>) and what an
      accepted one changes.
    \<^item> Session_Move: directional movement (\<open>session/ops/move.rs\<close>), the planner's snapshot and
      \<open>apply_move_operation\<close> with an arm per operation; Session_Move_Tree, Session_Move_Exact,
      Session_Move_Plans: what each arm does to a well-formed tree, and that it accepts what the planner
      emits; Session_Move_Proposal: the proposal, its contract and its effect.
    \<^item> Session_Drag: the pointer drag (\<open>session/ops/drag.rs\<close>), capture, preview, release and cancellation
      over one resolver; Session_Drag_Exact: what the walk to the node under the pointer finds and what each
      placement does to a tree; Session_Drag_Proposal: the drag as a transaction and its effect. The locale
      \<open>steady_policy\<close> states that a group edge, passed back as the prior hover, is found again.
    \<^item> Session_Machine: the session as a step relation, its reachable states, and what an unguarded
      reprojection does to one.
    \<^item> Session_Commitment: what an accepted lifecycle plan promises is what its commit installs.
    \<^item> Session_Examples, Session_Focus_Examples, Session_Resize_Examples, Session_Move_Examples,
      Session_Drag_Examples: small sessions on which the properties are exercised, a resize that diverges, a
      refused move and a drop that lands behind its neighbours.
    \<^item> Size_Hints: \<open>size_hints.rs\<close>, window hints and the hint-aware projector.
    \<^item> Output_Selection, Active_Group, Workspace_Policy: \<open>output_selection.rs\<close>, \<open>active_group.rs\<close> and
      \<open>workspace.rs\<close>; the comparators of \<open>sort_by\<close> are written out, the \<open>f64\<close> distance of
      \<open>choose_displaced_destination\<close> is an argument.

  What is shown. The planner accepts exactly the well-formed snapshots and its plans are sound and
  complete; focus reaches a leaf on the right side; a resize step moves one tenth of a pair and
  conserves it; the projection is an exact, disjoint, gap-respecting tiling and refuses otherwise;
  the reconciler refines its protocol, keeps its invariant, counts its commits and commits nothing
  unjustified; share insertion is exact and undone by removal; the clamps and drag edges are
  characterized; admission and removal of a leaf keep a tree well-formed and undo each other; the
  redistribution of minimums is exact, and the hinted projector is the plain one without hints; output selection answers a best neighbour and
  is reversible, an active group holds exactly the leaves of its group, and the trailing plan removes
  only expendable workspaces. The session keeps its invariant in every state that the modelled calls reach, its lifecycle
  proposals return, stage at most one plan and touch nothing accepted (the float toggle of a floating
  window being the exception), a verification installs exactly what was staged, an accepted lifecycle
  command followed by its acknowledgement and verification reaches the promised layout, and a
  relocation is undone by the reverse one. An accepted focus proposal lands on a neighbour, an accepted
  keyboard resize redistributes one pair of one group, with shares that project to the clamped size.
  The session applies exactly the moves that the planner may emit, and an accepted move places one
  window elsewhere and leaves every other where it was. A drag changes nothing until its release is
  committed, the release does what the last preview showed, places only the dragged window, and never
  diverges by its own plan.

  Machine integers are mathematical integers with their range checked where the code checks it.
  The unchecked 64-bit sums and products of \<open>enforce_minimums\<close> are written out in
  \<open>enforce_minimums_i64\<close>, where leaving the range is \<open>None\<close>; the projector uses the same steps over the
  integers, which agree on what it passes. No definition uses fuel: every recursion is structural
  or has a measure, but for the search of a fresh group identity, which is a partial function shown
  to return when fewer than \<open>2 ^ 32 - 2\<close> identities are in use. A session operation whose search may
  not return is an option, \<open>None\<close> being the search that runs forever.

  Not modelled: the session's pointer resize proposals, fitted admission, the paired and
  split canonical states and observation convergence; seed (but its target bounds), boundary and engine;
  the border drawing in \<open>visual.rs\<close> (floating point); the JSON codec, the Windows adapter, the
  D-Bus service and the C interface, which are input and output around the core.
\<close>

end
